(* ===== verification/Prelude.thy ===== *)
theory Prelude
  imports Main "HOL-Library.Word"
begin

text \<open>
  Shared vocabulary of the development: the fixed-width integers of the C code, the
  \<open>EFI_STATUS\<close> codes, little-endian byte codecs for the packed on-media structures, and
  byte-addressed memory with its read-over-write laws. The component theories rest on the
  simp collections and the lemmas of this theory.
\<close>

unbundle bit_operations_syntax

named_theorems mem_simps \<open>read-over-write equations for byte memory\<close>
named_theorems codec_simps \<open>lengths and round trips of byte codecs\<close>

section \<open>Integers and status codes\<close>

type_synonym u8 = "8 word"
type_synonym u16 = "16 word"
type_synonym u32 = "32 word"
type_synonym u64 = "64 word"

text \<open>
  The status codes the modelled functions return. \<open>EFI_ERROR\<close> tests the sign bit of the
  code; every code below other than \<open>EFI_SUCCESS\<close> carries it.
\<close>

datatype efi_status =
    EFI_SUCCESS
  | EFI_LOAD_ERROR
  | EFI_INVALID_PARAMETER
  | EFI_UNSUPPORTED
  | EFI_BAD_BUFFER_SIZE
  | EFI_BUFFER_TOO_SMALL
  | EFI_NOT_READY
  | EFI_DEVICE_ERROR
  | EFI_WRITE_PROTECTED
  | EFI_OUT_OF_RESOURCES
  | EFI_VOLUME_CORRUPTED
  | EFI_NO_MEDIA
  | EFI_MEDIA_CHANGED
  | EFI_NOT_FOUND
  | EFI_ACCESS_DENIED
  | EFI_NO_RESPONSE
  | EFI_TIMEOUT
  | EFI_ALREADY_STARTED
  | EFI_ABORTED
  | EFI_PROTOCOL_ERROR
  | EFI_INCOMPATIBLE_VERSION
  | EFI_SECURITY_VIOLATION
  | EFI_END_OF_FILE
  | EFI_COMPROMISED_DATA

definition EFI_ERROR :: "efi_status \<Rightarrow> bool" where
  "EFI_ERROR s \<longleftrightarrow> s \<noteq> EFI_SUCCESS"

lemma EFI_ERROR_simps [simp]:
  "\<not> EFI_ERROR EFI_SUCCESS"
  "s \<noteq> EFI_SUCCESS \<Longrightarrow> EFI_ERROR s"
  by (simp_all add: EFI_ERROR_def)

lemma not_EFI_ERROR [simp]: "\<not> EFI_ERROR s \<longleftrightarrow> s = EFI_SUCCESS"
  by (simp add: EFI_ERROR_def)

text \<open>The rounding macros of \<open>Convert.h\<close>, in the width of their first argument.\<close>

definition ROUNDUP :: "'a::len word \<Rightarrow> 'a word \<Rightarrow> 'a word" where
  "ROUNDUP n s = ((n + s - 1) div s) * s"

definition ROUNDDOWN :: "'a::len word \<Rightarrow> 'a word \<Rightarrow> 'a word" where
  "ROUNDDOWN n s = n - n mod s"

section \<open>Little-endian byte codecs\<close>

fun le_bytes :: "nat \<Rightarrow> 'a::len word \<Rightarrow> u8 list" where
  "le_bytes 0 w = []"
| "le_bytes (Suc n) w = ucast w # le_bytes n (drop_bit 8 w)"

fun of_le :: "u8 list \<Rightarrow> 'a::len word" where
  "of_le [] = 0"
| "of_le (b # bs) = ucast b OR push_bit 8 (of_le bs)"

lemma length_le_bytes [simp, codec_simps]: "length (le_bytes n w) = n"
  by (induction n arbitrary: w) auto

lemma nth_le_bytes: "i < n \<Longrightarrow> le_bytes n w ! i = ucast (drop_bit (8 * i) w)"
proof (induction n arbitrary: w i)
  case 0
  then show ?case by simp
next
  case (Suc n)
  then show ?case by (cases i) (simp_all add: drop_bit_drop_bit ac_simps)
qed

lemma bit_of_le:
  "bit (of_le bs :: 'a::len word) i \<longleftrightarrow>
     i < LENGTH('a) \<and> i div 8 < length bs \<and> bit (bs ! (i div 8)) (i mod 8)"
proof (induction bs arbitrary: i)
  case Nil
  then show ?case by simp
next
  case (Cons b bs)
  show ?case
  proof (cases "i < 8")
    case True
    then show ?thesis
      by (simp add: bit_or_iff bit_push_bit_iff bit_ucast_iff)
  next
    case False
    then obtain j where j: "i = j + 8" by (metis add.commute le_Suc_ex not_le)
    have nb: "\<not> bit b (j + 8)"
      by (auto dest: bit_imp_le_length)
    have d: "(j + 8) div 8 = Suc (j div 8)" by simp
    show ?thesis
      using Cons.IH [of j] nb d
      by (auto simp: j bit_or_iff bit_push_bit_iff bit_ucast_iff possible_bit_word)
  qed
qed

lemma of_le_le_bytes: "of_le (le_bytes n w) = take_bit (8 * n) w"
proof (rule bit_word_eqI)
  fix i assume "i < LENGTH('a)"
  then show "bit (of_le (le_bytes n w) :: 'a word) i \<longleftrightarrow> bit (take_bit (8 * n) w) i"
    by (auto simp: bit_of_le bit_take_bit_iff nth_le_bytes bit_ucast_iff bit_drop_bit_eq
        possible_bit_word)
qed

lemma of_le_le_bytes_id [codec_simps]:
  "LENGTH('a) \<le> 8 * n \<Longrightarrow> of_le (le_bytes n w) = (w :: 'a::len word)"
  by (simp add: of_le_le_bytes take_bit_word_eq_self)

lemma le_bytes_of_le:
  assumes "8 * length bs \<le> LENGTH('a)"
  shows "le_bytes (length bs) (of_le bs :: 'a::len word) = bs"
proof (rule nth_equalityI)
  fix i assume "i < length (le_bytes (length bs) (of_le bs :: 'a word))"
  then have i: "i < length bs" by simp
  show "le_bytes (length bs) (of_le bs :: 'a word) ! i = bs ! i"
  proof (rule bit_word_eqI)
    fix k assume k: "k < LENGTH(8)"
    with i assms have "8 * i + k < LENGTH('a)" by simp
    with i k show "bit (le_bytes (length bs) (of_le bs :: 'a word) ! i) k \<longleftrightarrow> bit (bs ! i) k"
      by (simp add: nth_le_bytes bit_ucast_iff bit_drop_bit_eq bit_of_le)
  qed
qed simp

lemma of_le_zero [simp]: "of_le (replicate n 0) = 0"
  by (induction n) simp_all

text \<open>Overwriting a slice of a buffer in place, as a store through a field pointer does.\<close>

definition patch :: "'a list \<Rightarrow> nat \<Rightarrow> 'a list \<Rightarrow> 'a list" where
  "patch buf off xs = take off buf @ xs @ drop (off + length xs) buf"

lemma length_patch [simp, codec_simps]:
  "off + length xs \<le> length buf \<Longrightarrow> length (patch buf off xs) = length buf"
  by (simp add: patch_def)

lemma nth_patch:
  "off + length xs \<le> length buf \<Longrightarrow> i < length buf \<Longrightarrow>
     patch buf off xs ! i = (if off \<le> i \<and> i < off + length xs then xs ! (i - off) else buf ! i)"
  by (auto simp: patch_def nth_append min_def not_le)

lemma patch_get [simp]:
  "off + length xs \<le> length buf \<Longrightarrow> n = length xs \<Longrightarrow> take n (drop off (patch buf off xs)) = xs"
  by (simp add: patch_def)

lemma patch_get_other:
  "off + length xs \<le> length buf \<Longrightarrow> j + n \<le> off \<or> off + length xs \<le> j \<Longrightarrow>
     take n (drop j (patch buf off xs)) = take n (drop j buf)"
  by (rule nth_equalityI) (auto simp: nth_patch)

abbreviation le16 :: "u16 \<Rightarrow> u8 list" where "le16 \<equiv> le_bytes 2"
abbreviation le32 :: "u32 \<Rightarrow> u8 list" where "le32 \<equiv> le_bytes 4"
abbreviation le64 :: "u64 \<Rightarrow> u8 list" where "le64 \<equiv> le_bytes 8"

lemma of_le_round [simp]:
  "of_le (le16 h) = h" "of_le (le32 w) = w" "of_le (le64 d) = d"
  by (simp_all add: of_le_le_bytes_id)

lemma le_of_round:
  "length bs = 4 \<Longrightarrow> le32 (of_le bs) = bs"
  "length bs = 8 \<Longrightarrow> le64 (of_le bs) = bs"
  "length bs = 2 \<Longrightarrow> le16 (of_le bs) = bs"
  using le_bytes_of_le [of bs, where 'a = 32] le_bytes_of_le [of bs, where 'a = 64]
    le_bytes_of_le [of bs, where 'a = 16] by auto

text \<open>Fields of a packed structure at their byte offsets.\<close>

definition get32 :: "nat \<Rightarrow> u8 list \<Rightarrow> u32" where
  "get32 off bs = of_le (take 4 (drop off bs))"

definition get64 :: "nat \<Rightarrow> u8 list \<Rightarrow> u64" where
  "get64 off bs = of_le (take 8 (drop off bs))"

definition get16 :: "nat \<Rightarrow> u8 list \<Rightarrow> u16" where
  "get16 off bs = of_le (take 2 (drop off bs))"

lemma get_append [simp]:
  "length xs \<le> off \<Longrightarrow> get32 off (xs @ ys) = get32 (off - length xs) ys"
  "length xs \<le> off \<Longrightarrow> get64 off (xs @ ys) = get64 (off - length xs) ys"
  "length xs \<le> off \<Longrightarrow> get16 off (xs @ ys) = get16 (off - length xs) ys"
  by (simp_all add: get32_def get64_def get16_def)

lemma get_here [simp]:
  "get32 0 (le32 w @ ys) = w" "get64 0 (le64 d @ ys) = d" "get16 0 (le16 h @ ys) = h"
  "get32 0 (le32 w) = w" "get64 0 (le64 d) = d"
  by (simp_all add: get32_def get64_def get16_def)

lemma le_get:
  "off + 4 \<le> length bs \<Longrightarrow> le32 (get32 off bs) = take 4 (drop off bs)"
  "off + 8 \<le> length bs \<Longrightarrow> le64 (get64 off bs) = take 8 (drop off bs)"
  "off + 2 \<le> length bs \<Longrightarrow> le16 (get16 off bs) = take 2 (drop off bs)"
  by (simp_all add: get32_def get64_def get16_def le_of_round)

lemma take_drop_join: "take n (drop k bs) @ take m (drop (k + n) bs) = take (n + m) (drop k bs)"
  by (simp add: take_add add.commute [of k n])

lemma take_drop_join_rest:
  "j = k + n \<Longrightarrow> take n (drop k bs) @ take m (drop j bs) @ ys = take (n + m) (drop k bs) @ ys"
  using take_drop_join [of n k bs m] by (simp flip: append_assoc)

section \<open>Byte-addressed memory\<close>

text \<open>
  System memory as the processor addresses it. \<open>mem_read\<close> and \<open>mem_write\<close> are the two
  directions of \<open>CopyMem\<close> between a buffer and memory.
\<close>

type_synonym memory = "nat \<Rightarrow> u8"

definition mem_read :: "memory \<Rightarrow> nat \<Rightarrow> nat \<Rightarrow> u8 list" where
  "mem_read m a n = map (\<lambda>i. m (a + i)) [0..<n]"

definition mem_write :: "memory \<Rightarrow> nat \<Rightarrow> u8 list \<Rightarrow> memory" where
  "mem_write m a bs = (\<lambda>x. if a \<le> x \<and> x < a + length bs then bs ! (x - a) else m x)"

lemma length_mem_read [simp, codec_simps]: "length (mem_read m a n) = n"
  by (simp add: mem_read_def)

lemma nth_mem_read [simp]: "i < n \<Longrightarrow> mem_read m a n ! i = m (a + i)"
  by (simp add: mem_read_def)

lemma mem_read_cong:
  "(\<And>i. i < n \<Longrightarrow> m (a + i) = m' (a' + i)) \<Longrightarrow> mem_read m a n = mem_read m' a' n"
  by (simp add: mem_read_def)

lemma mem_write_same [mem_simps]:
  "n = length bs \<Longrightarrow> mem_read (mem_write m a bs) a n = bs"
  by (auto simp: mem_read_def mem_write_def intro: nth_equalityI)

lemma mem_write_other [mem_simps]:
  "a + n \<le> b \<or> b + length bs \<le> a \<Longrightarrow> mem_read (mem_write m b bs) a n = mem_read m a n"
  by (rule mem_read_cong) (auto simp: mem_write_def)

lemma mem_read_sub:
  "j + k \<le> n \<Longrightarrow> take k (drop j (mem_read m a n)) = mem_read m (a + j) k"
  by (rule nth_equalityI) (auto simp: add.assoc)

text \<open>A read inside a freshly written buffer sees the corresponding slice of it.\<close>

lemma mem_read_inside [mem_simps]:
  "b \<le> a \<Longrightarrow> a + n \<le> b + length bs \<Longrightarrow>
     mem_read (mem_write m b bs) a n = take n (drop (a - b) bs)"
  by (rule nth_equalityI) (auto simp: mem_write_def)

lemma mem_write_nil [simp]: "mem_write m a [] = m"
  by (auto simp: mem_write_def fun_eq_iff)

lemma mem_write_append:
  "mem_write m a (xs @ ys) = mem_write (mem_write m a xs) (a + length xs) ys"
  by (auto simp: mem_write_def fun_eq_iff nth_append)

lemma mem_write_read_id [simp]: "mem_write m a (mem_read m a n) = m"
  by (auto simp: mem_write_def fun_eq_iff)

lemma mem_write_patch:
  "k + length xs \<le> n \<Longrightarrow> mem_write m a (patch (mem_read m a n) k xs) = mem_write m (a + k) xs"
  by (rule ext) (auto simp: mem_write_def nth_patch)

lemma mem_read_append: "mem_read m a n @ mem_read m (a + n) k = mem_read m a (n + k)"
  by (rule nth_equalityI) (auto simp: nth_append add.assoc)

lemma mem_read_patch:
  "k + length xs \<le> n \<Longrightarrow> mem_read (mem_write m (a + k) xs) a n = patch (mem_read m a n) k xs"
  by (rule nth_equalityI) (auto simp: mem_write_def nth_patch)

section \<open>Words as naturals\<close>

lemma unat_ucast_up [simp]:
  "unat (ucast (x :: u32) :: u64) = unat x" "unat (ucast (y :: u8) :: u64) = unat y"
  "unat (ucast (z :: u16) :: u64) = unat z" "unat (ucast (y :: u8) :: u32) = unat y"
  by (simp_all add: unsigned_ucast_eq take_bit_nat_eq_self unsigned_less order_less_le_trans [OF unsigned_less])

lemma unat_bound: "unat (x :: 'a::len word) < 2 ^ LENGTH('a)"
  by (rule unsigned_less)

lemma unat_plus_nowrap: "unat a + unat b < 2 ^ LENGTH('a) \<Longrightarrow> unat (a + b :: 'a::len word) = unat a + unat b"
  by (simp add: unat_word_ariths)

lemma unat_times_nowrap: "unat a * unat b < 2 ^ LENGTH('a) \<Longrightarrow> unat (a * b :: 'a::len word) = unat a * unat b"
  by (simp add: unat_word_ariths)

end
