(* ===== verification/Namespace_Io.thy ===== *)
theory Namespace_Io
  imports Prelude
begin

text \<open>
  Byte and block access to an AppDirect namespace (\<open>DcpmPkg/driver/Core/Namespace.c\<close>):
  \<open>AppDirectIo\<close> copies between a buffer and the system physical addresses of the namespace,
  after checking the range against the address range scrub (ARS) bad-block list that the
  platform firmware reports, and flushes the written cache lines. \<open>IoNamespaceBytes\<close>,
  \<open>IoNamespaceBlock\<close> and the read/write wrappers sit on top of it.

  Memory has two faces: \<open>cpu\<close> is what loads return, \<open>media\<close> is what has reached the
  persistence domain. A store changes \<open>cpu\<close>; \<open>gClFlush\<close> brings one 64-byte line of
  \<open>media\<close> up to date. \<open>wtrace\<close> is a history variable, written by every store and read by
  no modelled function: the stores issued so far, in order, for stating what a power failure
  between two of them leaves behind.
\<close>

section \<open>State\<close>

record namespace =
  SpaNamespaceBase :: u64
  pParentIS :: "nat list option"
  MediaBlockSize :: u32
  BlockSize :: u64
  BlockCount :: u64
  NsMajor :: u16
  NsMinor :: u16
  UsableSize :: u64

text \<open>
  \<open>ars_count\<close> and \<open>ars_records\<close> are the answers of the firmware protocol call
  \<open>DcpmmArsStatus\<close> without and with a record buffer; \<open>allocs\<close> says whether the next
  pool allocations succeed (all of them do once the list is used up); \<open>rng\<close> holds the
  next results of \<open>GetRandomNumber128\<close> (a used-up list is a failing generator).
\<close>

record ars_record =
  SpaOfErrLoc :: u64
  ErrLength :: u64

record sys =
  cpu :: memory
  media :: memory
  wtrace :: "(nat \<times> u8 list) list"
  gArsBadRecordsCount :: int
  gArsBadRecords :: "ars_record list option"
  ars_count :: "efi_status \<times> u32"
  ars_records :: "efi_status \<times> u32 \<times> ars_record list"
  allocs :: "bool list"
  rng :: "u8 list list"

definition AllocatePool :: "sys \<Rightarrow> bool \<times> sys" where
  "AllocatePool s = (case allocs s of [] \<Rightarrow> (True, s) | b # bs \<Rightarrow> (b, s\<lparr>allocs := bs\<rparr>))"

abbreviation (input) CACHE_LINE_SIZE :: nat where "CACHE_LINE_SIZE \<equiv> 64"

definition gClFlush :: "nat \<Rightarrow> sys \<Rightarrow> sys" where
  "gClFlush a s = s\<lparr>media := (\<lambda>x. if x div CACHE_LINE_SIZE = a div CACHE_LINE_SIZE then cpu s x else media s x)\<rparr>"

section \<open>Address range scrub list\<close>

definition LoadArsList :: "sys \<Rightarrow> efi_status \<times> sys" where
  "LoadArsList s =
     (if 0 \<le> gArsBadRecordsCount s then (EFI_SUCCESS, s)
      else
        let s1 = s\<lparr>gArsBadRecordsCount := 0\<rparr>;
            (rc, records) = ars_count s1;
            rc = (if rc = EFI_NOT_READY then EFI_SUCCESS else rc)
        in if EFI_ERROR rc then (rc, s1)
           else if 0 < records then
             let (ok, s2) = AllocatePool s1
             in if \<not> ok then (EFI_OUT_OF_RESOURCES, s2\<lparr>gArsBadRecords := None\<rparr>)
                else
                  let (rc, records, recs) = ars_records s2;
                      s3 = s2\<lparr>gArsBadRecords := Some recs\<rparr>;
                      rc = (if rc = EFI_NOT_READY then EFI_SUCCESS else rc)
                  in if EFI_ERROR rc then (rc, s3)
                     else (rc, s3\<lparr>gArsBadRecordsCount := sint records\<rparr>)
           else (rc, s1))"

text \<open>The collision test on one record, with the source's 64-bit arithmetic.\<close>

definition ars_collides :: "u64 \<Rightarrow> u64 \<Rightarrow> ars_record \<Rightarrow> bool" where
  "ars_collides CheckBlockStart CheckBlockEnd r =
     (let BadBlockStart = SpaOfErrLoc r;
          BadBlockEnd = SpaOfErrLoc r + ErrLength r - 1
      in (CheckBlockStart \<ge> BadBlockStart \<and> CheckBlockStart \<le> BadBlockEnd) \<or>
         (CheckBlockStart \<ge> BadBlockStart \<and> CheckBlockEnd \<le> BadBlockEnd) \<or>
         (BadBlockStart \<ge> CheckBlockStart \<and> BadBlockEnd \<le> CheckBlockEnd) \<or>
         (CheckBlockEnd \<ge> BadBlockStart \<and> CheckBlockEnd \<le> BadBlockEnd))"

definition IsAddressRangeInArsList :: "u64 \<Rightarrow> u64 \<Rightarrow> sys \<Rightarrow> efi_status \<times> sys" where
  "IsAddressRangeInArsList Address Length s =
     (if gArsBadRecordsCount s = 0 then (EFI_SUCCESS, s)
      else
        let (rc, s1) = (if gArsBadRecordsCount s < 0 then LoadArsList s else (EFI_SUCCESS, s))
        in if gArsBadRecordsCount s < 0 \<and> rc = EFI_PROTOCOL_ERROR then (EFI_SUCCESS, s1)
           else if EFI_ERROR rc then (rc, s1)
           else if gArsBadRecordsCount s1 = 0 then (rc, s1)
           else case gArsBadRecords s1 of
                  None \<Rightarrow> (rc, s1)
                | Some recs \<Rightarrow>
                    if list_ex (ars_collides Address (Address + Length - 1))
                         (take (nat (gArsBadRecordsCount s1)) recs)
                    then (EFI_DEVICE_ERROR, s1) else (rc, s1))"

section \<open>Reads and writes\<close>

text \<open>
  \<open>AppDirectIo\<close>: the buffer is an in-out argument; a read replaces its first \<open>Nbytes\<close>
  bytes. The flush loop covers \<open>Nbytes / CACHE_LINE_SIZE\<close> lines from the start address.
\<close>

definition AppDirectIo ::
  "namespace \<Rightarrow> u64 \<Rightarrow> u8 list \<Rightarrow> u64 \<Rightarrow> bool \<Rightarrow> sys \<Rightarrow> efi_status \<times> u8 list \<times> sys" where
  "AppDirectIo pNamespace Offset pBuffer Nbytes ReadOperation s =
     (if pParentIS pNamespace = None then (EFI_INVALID_PARAMETER, pBuffer, s)
      else
        let pAddress = SpaNamespaceBase pNamespace + Offset;
            (rc, s1) = (if gArsBadRecordsCount s \<noteq> 0 then IsAddressRangeInArsList pAddress Nbytes s
                        else (EFI_SUCCESS, s))
        in if EFI_ERROR rc then (rc, pBuffer, s1)
           else if ReadOperation then
             (EFI_SUCCESS, patch pBuffer 0 (mem_read (cpu s1) (unat pAddress) (unat Nbytes)), s1)
           else
             let bs = take (unat Nbytes) pBuffer;
                 s2 = s1\<lparr>cpu := mem_write (cpu s1) (unat pAddress) bs,
                         wtrace := wtrace s1 @ [(unat pAddress, bs)]\<rparr>
             in (EFI_SUCCESS, pBuffer,
                 fold (\<lambda>Index. gClFlush (unat pAddress + Index * CACHE_LINE_SIZE))
                   [0..<unat Nbytes div CACHE_LINE_SIZE] s2))"

definition IoNamespaceBytes ::
  "namespace \<Rightarrow> u64 \<Rightarrow> u8 list \<Rightarrow> u32 \<Rightarrow> bool \<Rightarrow> sys \<Rightarrow> efi_status \<times> u8 list \<times> sys" where
  "IoNamespaceBytes pNamespace Offset pBuffer BufferLength ReadOperation s =
     AppDirectIo pNamespace Offset pBuffer (ucast BufferLength) ReadOperation s"

definition ReadNamespaceBytes ::
  "namespace \<Rightarrow> u64 \<Rightarrow> u8 list \<Rightarrow> u64 \<Rightarrow> sys \<Rightarrow> efi_status \<times> u8 list \<times> sys" where
  "ReadNamespaceBytes pNamespace Offset pBuffer Length s =
     IoNamespaceBytes pNamespace Offset pBuffer (ucast Length) True s"

definition WriteNamespaceBytes ::
  "namespace \<Rightarrow> u64 \<Rightarrow> u8 list \<Rightarrow> u64 \<Rightarrow> sys \<Rightarrow> efi_status \<times> sys" where
  "WriteNamespaceBytes pNamespace Offset pBuffer Length s =
     (let (rc, _, s') = IoNamespaceBytes pNamespace Offset pBuffer (ucast Length) False s in (rc, s'))"

definition IoNamespaceBlock ::
  "namespace \<Rightarrow> u64 \<Rightarrow> u8 list \<Rightarrow> u32 \<Rightarrow> bool \<Rightarrow> sys \<Rightarrow> efi_status \<times> u8 list \<times> sys" where
  "IoNamespaceBlock pNamespace Lba pBuffer BlockLength ReadOperation s =
     AppDirectIo pNamespace (Lba * ucast (MediaBlockSize pNamespace)) pBuffer
       (ucast BlockLength) ReadOperation s"

definition ReadNamespaceBlock ::
  "namespace \<Rightarrow> u64 \<Rightarrow> u8 list \<Rightarrow> sys \<Rightarrow> efi_status \<times> u8 list \<times> sys" where
  "ReadNamespaceBlock pNamespace Lba pBuffer s =
     IoNamespaceBlock pNamespace Lba pBuffer (MediaBlockSize pNamespace) True s"

definition WriteNamespaceBlock ::
  "namespace \<Rightarrow> u64 \<Rightarrow> u8 list \<Rightarrow> sys \<Rightarrow> efi_status \<times> sys" where
  "WriteNamespaceBlock pNamespace Lba pBuffer s =
     (let (rc, _, s') = IoNamespaceBlock pNamespace Lba pBuffer (MediaBlockSize pNamespace) False s
      in (rc, s'))"

definition GetAccessibleCapacity :: "namespace \<Rightarrow> u64" where
  "GetAccessibleCapacity pNamespace = BlockSize pNamespace * BlockCount pNamespace"

definition GetBlockDeviceBlockSize :: "namespace \<Rightarrow> u64" where
  "GetBlockDeviceBlockSize pNamespace = ucast (MediaBlockSize pNamespace)"

section \<open>Contents of a namespace\<close>

text \<open>
  The contents of a namespace by byte offset, and the conditions under which byte access
  cannot fail: the namespace belongs to an interleave set, the ARS list is loaded and empty,
  and the range neither wraps around the address space nor exceeds a 32-bit length.
\<close>

definition ns_content :: "namespace \<Rightarrow> sys \<Rightarrow> memory" where
  "ns_content ns s = (\<lambda>off. cpu s (unat (SpaNamespaceBase ns) + off))"

definition ns_ready :: "namespace \<Rightarrow> sys \<Rightarrow> bool" where
  "ns_ready ns s \<longleftrightarrow> pParentIS ns \<noteq> None \<and> gArsBadRecordsCount s = 0"

section \<open>What the list check leaves alone\<close>

lemma AllocatePool_frame [simp]:
  "cpu (snd (AllocatePool s)) = cpu s" "media (snd (AllocatePool s)) = media s"
  "wtrace (snd (AllocatePool s)) = wtrace s"
  "gArsBadRecordsCount (snd (AllocatePool s)) = gArsBadRecordsCount s"
  "ns_content ns (snd (AllocatePool s)) = ns_content ns s"
  "ns_ready ns (snd (AllocatePool s)) = ns_ready ns s"
  by (simp_all add: AllocatePool_def ns_content_def ns_ready_def split: list.split)

lemma LoadArsList_frame [simp]:
  "cpu (snd (LoadArsList s)) = cpu s" "media (snd (LoadArsList s)) = media s"
  "wtrace (snd (LoadArsList s)) = wtrace s"
  by (simp_all add: LoadArsList_def Let_def case_prod_beta)

lemma IsAddressRangeInArsList_frame [simp]:
  "cpu (snd (IsAddressRangeInArsList a n s)) = cpu s"
  "media (snd (IsAddressRangeInArsList a n s)) = media s"
  "wtrace (snd (IsAddressRangeInArsList a n s)) = wtrace s"
  by (simp_all add: IsAddressRangeInArsList_def Let_def case_prod_beta split: option.split)

lemma ReadNamespaceBytes_frame:
  assumes "ReadNamespaceBytes ns off buf len s = (rc, buf', s')"
  shows "cpu s' = cpu s \<and> media s' = media s \<and> wtrace s' = wtrace s
    \<and> (rc = EFI_SUCCESS \<longrightarrow> buf' = patch buf 0
          (mem_read (cpu s) (unat (SpaNamespaceBase ns + off)) (unat (ucast (ucast len :: u32) :: u64))))"
  using assms
  by (auto simp: ReadNamespaceBytes_def IoNamespaceBytes_def AppDirectIo_def Let_def case_prod_beta
      split: if_splits)

section \<open>Behaviour without reported bad blocks\<close>

definition ns_fits :: "namespace \<Rightarrow> u64 \<Rightarrow> nat \<Rightarrow> bool" where
  "ns_fits ns off n \<longleftrightarrow> unat (SpaNamespaceBase ns) + unat off + n < 2 ^ 64 \<and> n < 2 ^ 32"

definition ns_store :: "namespace \<Rightarrow> u64 \<Rightarrow> u8 list \<Rightarrow> sys \<Rightarrow> sys" where
  "ns_store ns off bs s =
     (let a = unat (SpaNamespaceBase ns + off)
      in fold (\<lambda>i. gClFlush (a + i * CACHE_LINE_SIZE)) [0..<length bs div CACHE_LINE_SIZE]
           (s\<lparr>cpu := mem_write (cpu s) a bs, wtrace := wtrace s @ [(a, bs)]\<rparr>))"

lemma gClFlush_frame [simp]:
  "cpu (gClFlush a s) = cpu s" "wtrace (gClFlush a s) = wtrace s"
  "gArsBadRecordsCount (gClFlush a s) = gArsBadRecordsCount s"
  "gArsBadRecords (gClFlush a s) = gArsBadRecords s"
  "ars_count (gClFlush a s) = ars_count s" "ars_records (gClFlush a s) = ars_records s"
  "allocs (gClFlush a s) = allocs s"
  "rng (gClFlush a s) = rng s"
  by (simp_all add: gClFlush_def)

lemma fold_gClFlush_frame [simp]:
  "cpu (fold (\<lambda>i. gClFlush (f i)) xs s) = cpu s"
  "wtrace (fold (\<lambda>i. gClFlush (f i)) xs s) = wtrace s"
  "gArsBadRecordsCount (fold (\<lambda>i. gClFlush (f i)) xs s) = gArsBadRecordsCount s"
  "gArsBadRecords (fold (\<lambda>i. gClFlush (f i)) xs s) = gArsBadRecords s"
  "ars_count (fold (\<lambda>i. gClFlush (f i)) xs s) = ars_count s"
  "ars_records (fold (\<lambda>i. gClFlush (f i)) xs s) = ars_records s"
  "allocs (fold (\<lambda>i. gClFlush (f i)) xs s) = allocs s"
  "rng (fold (\<lambda>i. gClFlush (f i)) xs s) = rng s"
  by (induction xs arbitrary: s) simp_all

lemma media_fold_gClFlush:
  "media (fold (\<lambda>i. gClFlush (f i)) xs s) =
     (\<lambda>x. if \<exists>i \<in> set xs. x div CACHE_LINE_SIZE = f i div CACHE_LINE_SIZE then cpu s x else media s x)"
  by (induction xs arbitrary: s) (auto simp: gClFlush_def fun_eq_iff)

lemma ns_store_frame [simp]:
  "gArsBadRecordsCount (ns_store ns off bs s) = gArsBadRecordsCount s"
  "gArsBadRecords (ns_store ns off bs s) = gArsBadRecords s"
  "ars_count (ns_store ns off bs s) = ars_count s"
  "ars_records (ns_store ns off bs s) = ars_records s"
  "allocs (ns_store ns off bs s) = allocs s"
  "rng (ns_store ns off bs s) = rng s"
  "wtrace (ns_store ns off bs s) = wtrace s @ [(unat (SpaNamespaceBase ns + off), bs)]"
  "ns_ready ns' (ns_store ns off bs s) = ns_ready ns' s"
  by (simp_all add: ns_store_def Let_def ns_ready_def)

lemma ns_fits_addr:
  "ns_fits ns off n \<Longrightarrow> unat (SpaNamespaceBase ns + off) = unat (SpaNamespaceBase ns) + unat off"
  by (simp add: ns_fits_def unat_word_ariths)

lemma ns_content_store [mem_simps]:
  "ns_fits ns off (length bs) \<Longrightarrow>
     ns_content ns (ns_store ns off bs s) = mem_write (ns_content ns s) (unat off) bs"
  by (auto simp: ns_content_def ns_store_def ns_fits_addr mem_write_def fun_eq_iff Let_def)

lemma unat_len32: "unat (len :: u64) < 2 ^ 32 \<Longrightarrow> unat (ucast len :: u32) = unat len"
  by (simp add: unsigned_ucast_eq unsigned_take_bit_eq take_bit_nat_eq_self)

lemma ReadNamespaceBytes_ok:
  assumes "ns_ready ns s" and "ns_fits ns off (unat len)" and "length buf = unat len"
  shows "ReadNamespaceBytes ns off buf len s =
           (EFI_SUCCESS, mem_read (ns_content ns s) (unat off) (unat len), s)"
proof -
  have "mem_read (cpu s) (unat (SpaNamespaceBase ns + off)) (unat len)
      = mem_read (ns_content ns s) (unat off) (unat len)"
    using assms(2) by (intro mem_read_cong) (simp add: ns_fits_addr ns_content_def add.assoc)
  with assms show ?thesis
    by (simp add: ReadNamespaceBytes_def IoNamespaceBytes_def AppDirectIo_def ns_ready_def
        ns_fits_def unat_len32 patch_def)
qed

lemma WriteNamespaceBytes_ok:
  assumes "ns_ready ns s" and "ns_fits ns off (unat len)" and "length buf = unat len"
  shows "WriteNamespaceBytes ns off buf len s = (EFI_SUCCESS, ns_store ns off buf s)"
  using assms
  by (simp add: WriteNamespaceBytes_def IoNamespaceBytes_def AppDirectIo_def ns_ready_def
      ns_fits_def unat_len32 ns_store_def Let_def)

end
