(* ===== verification/Namespace_Safety.thy ===== *)
theory Namespace_Safety
  imports Namespace_Io
begin

text \<open>
  What byte access to a namespace guarantees beyond moving the bytes: ranges that the platform
  reports as bad are refused before memory is touched, and a write reaches the persistence
  domain exactly in the cache lines its flush loop visits.
\<close>

section \<open>Bad ranges\<close>

text \<open>The addresses of a record or of a request, as a set of naturals.\<close>

definition addr_range :: "u64 \<Rightarrow> u64 \<Rightarrow> nat set" where
  "addr_range a n = {unat a..<unat a + unat n}"

definition range_fits :: "u64 \<Rightarrow> u64 \<Rightarrow> bool" where
  "range_fits a n \<longleftrightarrow> 0 < unat n \<and> unat a + unat n \<le> 2 ^ 64"

lemma unat_last:
  assumes "range_fits a n"
  shows "unat (a + n - 1) = unat a + unat n - 1"
proof -
  have "unat (n - 1) = unat n - 1"
    using assms by (subst unat_sub) (auto simp: range_fits_def word_le_nat_alt)
  moreover have "a + n - 1 = a + (n - 1)" by simp
  ultimately show ?thesis
    using assms by (simp only:) (subst unat_plus_nowrap, auto simp: range_fits_def)
qed

lemma ars_collides_overlap:
  assumes "range_fits a n" and "range_fits (SpaOfErrLoc r) (ErrLength r)"
  shows "ars_collides a (a + n - 1) r \<longleftrightarrow> addr_range a n \<inter> addr_range (SpaOfErrLoc r) (ErrLength r) \<noteq> {}"
proof -
  let ?s = "unat (SpaOfErrLoc r)" and ?k = "unat (ErrLength r)" and ?a = "unat a" and ?n = "unat n"
  have "ars_collides a (a + n - 1) r \<longleftrightarrow> ?s \<le> ?a + ?n - 1 \<and> ?a \<le> ?s + ?k - 1"
    using assms unfolding ars_collides_def Let_def word_le_nat_alt unat_last [OF assms(1)] unat_last [OF assms(2)]
    by (auto simp: range_fits_def)
  also have "\<dots> \<longleftrightarrow> addr_range a n \<inter> addr_range (SpaOfErrLoc r) (ErrLength r) \<noteq> {}"
  proof
    assume "?s \<le> ?a + ?n - 1 \<and> ?a \<le> ?s + ?k - 1"
    then have "max ?a ?s \<in> addr_range a n \<inter> addr_range (SpaOfErrLoc r) (ErrLength r)"
      using assms by (auto simp: addr_range_def range_fits_def)
    then show "addr_range a n \<inter> addr_range (SpaOfErrLoc r) (ErrLength r) \<noteq> {}" by blast
  next
    assume "addr_range a n \<inter> addr_range (SpaOfErrLoc r) (ErrLength r) \<noteq> {}"
    then show "?s \<le> ?a + ?n - 1 \<and> ?a \<le> ?s + ?k - 1"
      by (auto simp: addr_range_def)
  qed
  finally show ?thesis .
qed

text \<open>The bad addresses that the loaded list names.\<close>

definition bad_addresses :: "sys \<Rightarrow> nat set" where
  "bad_addresses s =
     (case gArsBadRecords s of
        None \<Rightarrow> {}
      | Some recs \<Rightarrow> \<Union>r \<in> set (take (nat (gArsBadRecordsCount s)) recs). addr_range (SpaOfErrLoc r) (ErrLength r))"

definition ars_wf :: "sys \<Rightarrow> bool" where
  "ars_wf s \<longleftrightarrow> 0 \<le> gArsBadRecordsCount s
     \<and> (\<forall>recs. gArsBadRecords s = Some recs \<longrightarrow> (\<forall>r \<in> set recs. range_fits (SpaOfErrLoc r) (ErrLength r)))"

lemma IsAddressRangeInArsList_loaded:
  assumes "ars_wf s" and "range_fits a n"
  shows "IsAddressRangeInArsList a n s =
     (if addr_range a n \<inter> bad_addresses s = {} then EFI_SUCCESS else EFI_DEVICE_ERROR, s)"
proof (cases "gArsBadRecords s")
  case None
  then show ?thesis
    using assms by (simp add: IsAddressRangeInArsList_def bad_addresses_def ars_wf_def)
next
  case (Some recs)
  let ?rs = "take (nat (gArsBadRecordsCount s)) recs"
  have "ars_collides a (a + n - 1) r \<longleftrightarrow> addr_range a n \<inter> addr_range (SpaOfErrLoc r) (ErrLength r) \<noteq> {}"
    if "r \<in> set ?rs" for r
    using assms Some in_set_takeD [OF that] by (intro ars_collides_overlap) (auto simp: ars_wf_def)
  then have "list_ex (ars_collides a (a + n - 1)) ?rs \<longleftrightarrow>
      (\<exists>r \<in> set ?rs. addr_range a n \<inter> addr_range (SpaOfErrLoc r) (ErrLength r) \<noteq> {})"
    unfolding list_ex_iff by (rule bex_cong [OF refl])
  also have "\<dots> \<longleftrightarrow> addr_range a n \<inter> bad_addresses s \<noteq> {}"
    by (auto simp: bad_addresses_def Some)
  finally show ?thesis
    using assms Some by (auto simp: IsAddressRangeInArsList_def ars_wf_def bad_addresses_def)
qed

text \<open>
  C36: with a loaded bad-address list, \<open>AppDirectIo\<close> refuses every access that touches a bad address,
  with \<open>EFI_DEVICE_ERROR\<close> and without reading or writing memory, and performs every other access.
\<close>

theorem AppDirectIo_refuses_bad_ranges:
  assumes "pParentIS ns \<noteq> None" and "ars_wf s" and "range_fits (SpaNamespaceBase ns + Offset) Nbytes"
  shows "(addr_range (SpaNamespaceBase ns + Offset) Nbytes \<inter> bad_addresses s \<noteq> {} \<longrightarrow>
           AppDirectIo ns Offset buf Nbytes rd s = (EFI_DEVICE_ERROR, buf, s))
       \<and> (addr_range (SpaNamespaceBase ns + Offset) Nbytes \<inter> bad_addresses s = {} \<longrightarrow>
           fst (AppDirectIo ns Offset buf Nbytes rd s) = EFI_SUCCESS)"
proof -
  have "gArsBadRecordsCount s = 0 \<Longrightarrow> bad_addresses s = {}"
    by (simp add: bad_addresses_def split: option.split)
  with assms(1) IsAddressRangeInArsList_loaded [OF assms(2,3)] show ?thesis
    by (auto simp: AppDirectIo_def Let_def)
qed

definition ars_example :: sys where
  "ars_example = \<lparr>cpu = (\<lambda>_. 0), media = (\<lambda>_. 0), wtrace = [], gArsBadRecordsCount = 1,
     gArsBadRecords = Some [\<lparr>SpaOfErrLoc = 0x1000, ErrLength = 256\<rparr>],
     ars_count = (EFI_SUCCESS, 1), ars_records = (EFI_SUCCESS, 1, []), allocs = [], rng = []\<rparr>"

definition ars_example_ns :: namespace where
  "ars_example_ns = \<lparr>SpaNamespaceBase = 0xF00, pParentIS = Some [0], MediaBlockSize = 512, BlockSize = 512,
     BlockCount = 2, NsMajor = 1, NsMinor = 2, UsableSize = 1024\<rparr>"

theorem AppDirectIo_refuses_bad_ranges_witness:
  "AppDirectIo ars_example_ns 0xC0 (replicate 128 1) 128 False ars_example = (EFI_DEVICE_ERROR, replicate 128 1, ars_example)
   \<and> fst (AppDirectIo ars_example_ns 0 (replicate 128 1) 128 False ars_example) = EFI_SUCCESS"
proof -
  have wf: "ars_wf ars_example" "pParentIS ars_example_ns \<noteq> None"
    by (simp_all add: ars_wf_def ars_example_def range_fits_def ars_example_ns_def)
  have bad: "bad_addresses ars_example = {4096..<4352}"
    by (simp add: bad_addresses_def ars_example_def addr_range_def)
  have r: "range_fits (SpaNamespaceBase ars_example_ns + 0xC0) 128" "range_fits (SpaNamespaceBase ars_example_ns + 0) 128"
    "addr_range (SpaNamespaceBase ars_example_ns + 0xC0) 128 = {4032..<4160}"
    "addr_range (SpaNamespaceBase ars_example_ns + 0) 128 = {3840..<3968}"
    by (simp_all add: range_fits_def addr_range_def ars_example_ns_def)
  have "{4032..<4160} \<inter> bad_addresses ars_example \<noteq> {}" "{3840..<3968} \<inter> bad_addresses ars_example = {}"
    by (auto simp: bad)
  then show ?thesis
    using AppDirectIo_refuses_bad_ranges [OF wf(2,1) r(1)] AppDirectIo_refuses_bad_ranges [OF wf(2,1) r(2)]
    unfolding r(3,4) by blast
qed

text \<open>
  C37: the check fails open. When the platform's first answer to the list query is an error other
  than \<open>EFI_NOT_READY\<close> and \<open>EFI_PROTOCOL_ERROR\<close>, the access that triggered the query is refused, but
  every later access of the same kind is performed without any check, whatever the list holds.
\<close>

theorem ars_query_failure_disables_check:
  assumes "pParentIS ns \<noteq> None" and "gArsBadRecordsCount s < 0" and "fst (ars_count s) = e"
    and "e \<notin> {EFI_SUCCESS, EFI_NOT_READY, EFI_PROTOCOL_ERROR}"
  shows "fst (AppDirectIo ns Offset buf Nbytes rd s) = e
       \<and> (\<forall>Offset' buf' Nbytes' rd'.
            fst (AppDirectIo ns Offset' buf' Nbytes' rd' (snd (snd (AppDirectIo ns Offset buf Nbytes rd s)))) = EFI_SUCCESS)"
proof -
  obtain n where q: "ars_count s = (e, n)" using assms(3) by (cases "ars_count s") auto
  have "LoadArsList s = (e, s\<lparr>gArsBadRecordsCount := 0\<rparr>)"
    using assms q by (simp add: LoadArsList_def Let_def)
  then have "AppDirectIo ns Offset buf Nbytes rd s = (e, buf, s\<lparr>gArsBadRecordsCount := 0\<rparr>)"
    using assms by (auto simp: AppDirectIo_def IsAddressRangeInArsList_def Let_def)
  with assms(1) show ?thesis by (auto simp: AppDirectIo_def Let_def)
qed

theorem ars_query_failure_disables_check_witness:
  "(let s = ars_example\<lparr>gArsBadRecordsCount := -1, gArsBadRecords := None, ars_count := (EFI_TIMEOUT, 0)\<rparr>
    in fst (AppDirectIo ars_example_ns 0x100 (replicate 64 1) 64 False s) = EFI_TIMEOUT
     \<and> fst (AppDirectIo ars_example_ns 0x100 (replicate 64 1) 64 False
              (snd (snd (AppDirectIo ars_example_ns 0x100 (replicate 64 1) 64 False s)))) = EFI_SUCCESS)"
  using ars_query_failure_disables_check
    [of ars_example_ns "ars_example\<lparr>gArsBadRecordsCount := -1, gArsBadRecords := None, ars_count := (EFI_TIMEOUT, 0)\<rparr>"
      EFI_TIMEOUT "0x100" "replicate 64 1" 64 False]
  unfolding Let_def by (simp add: ars_example_def ars_example_ns_def)

section \<open>Persistence\<close>

lemma AppDirectIo_write_media:
  assumes "AppDirectIo ns Offset buf Nbytes False s = (EFI_SUCCESS, buf', s')"
  defines "a \<equiv> unat (SpaNamespaceBase ns + Offset)"
  shows "media s' = (\<lambda>x. if \<exists>i < unat Nbytes div CACHE_LINE_SIZE.
             x div CACHE_LINE_SIZE = (a + i * CACHE_LINE_SIZE) div CACHE_LINE_SIZE
           then cpu s' x else media s x)"
    and "cpu s' = mem_write (cpu s) a (take (unat Nbytes) buf)"
  using assms
  by (auto simp: AppDirectIo_def Let_def case_prod_beta media_fold_gClFlush fun_eq_iff split: if_splits)



text \<open>
  a write shorter than a cache line, such as each half of a flog update, is never flushed: it
  changes what the processor reads and nothing of what a power failure preserves.
\<close>

theorem short_write_not_durable:
  assumes "WriteNamespaceBytes ns Offset buf Nbytes s = (EFI_SUCCESS, s')" and "unat Nbytes < 64"
  shows "media s' = media s \<and> cpu s' = mem_write (cpu s) (unat (SpaNamespaceBase ns + Offset)) (take (unat Nbytes) buf)"
proof -
  have n: "unat (ucast Nbytes :: u32) = unat Nbytes"
    using assms(2) by (simp add: unat_len32)
  obtain buf' where "AppDirectIo ns Offset buf (ucast (ucast Nbytes :: u32)) False s = (EFI_SUCCESS, buf', s')"
    using assms(1) by (auto simp: WriteNamespaceBytes_def IoNamespaceBytes_def split: prod.splits)
  from AppDirectIo_write_media [OF this] assms(2) show ?thesis by (simp add: n)
qed

theorem short_write_not_durable_witness:
  "(let s = ars_example\<lparr>gArsBadRecordsCount := 0\<rparr>;
        s' = snd (WriteNamespaceBytes ars_example_ns 0x40 (replicate 8 7) 8 s)
    in media s' = media s \<and> cpu s' 0xF40 = 7)"
proof -
  have ok: "WriteNamespaceBytes ars_example_ns 0x40 (replicate 8 7) 8 (ars_example\<lparr>gArsBadRecordsCount := 0\<rparr>) =
      (EFI_SUCCESS, snd (WriteNamespaceBytes ars_example_ns 0x40 (replicate 8 7) 8 (ars_example\<lparr>gArsBadRecordsCount := 0\<rparr>)))"
    by (auto simp: prod_eq_iff WriteNamespaceBytes_def IoNamespaceBytes_def AppDirectIo_def ars_example_ns_def Let_def)
  have "media (snd (WriteNamespaceBytes ars_example_ns 0x40 (replicate 8 7) 8 (ars_example\<lparr>gArsBadRecordsCount := 0\<rparr>))) = media ars_example
     \<and> cpu (snd (WriteNamespaceBytes ars_example_ns 0x40 (replicate 8 7) 8 (ars_example\<lparr>gArsBadRecordsCount := 0\<rparr>)))
        = mem_write (cpu ars_example) 0xF40 (replicate 8 7)"
    using short_write_not_durable [OF ok] by (simp add: ars_example_ns_def)
  then show ?thesis by (simp add: Let_def mem_write_def)
qed

end
