(* ===== verification/Checksum.thy ===== *)
theory Checksum
  imports Prelude
begin

text \<open>
  The Fletcher64 checksum that guards BTT info blocks, PFN info blocks, label index blocks
  and namespace labels (\<open>ChecksumOperations\<close> in \<open>DcpmPkg/common/Utility.c\<close>). The guarded
  area is a byte buffer; the checksum field lies inside it and counts as zero.
\<close>

section \<open>Model\<close>

text \<open>The area as the loop's \<open>UINT32\<close> pointer walks it.\<close>

fun words32 :: "u8 list \<Rightarrow> u32 list" where
  "words32 (a # b # c # d # bs) = of_le [a, b, c, d] # words32 bs"
| "words32 _ = []"

text \<open>
  The checksum loop: \<open>c\<close> is the distance, in words, to the checksum field, or \<open>None\<close>
  once the field has been passed.
\<close>

fun fletcher :: "nat option \<Rightarrow> u32 list \<Rightarrow> u32 \<Rightarrow> u32 \<Rightarrow> u32 \<times> u32" where
  "fletcher c [] lo hi = (lo, hi)"
| "fletcher (Some 0) (w # ws) lo hi = fletcher None (tl ws) lo (hi + lo + lo)"
| "fletcher (Some (Suc k)) (w # ws) lo hi = fletcher (Some k) ws (lo + w) (hi + (lo + w))"
| "fletcher None (w # ws) lo hi = fletcher None ws (lo + w) (hi + (lo + w))"

definition fletcher64 :: "u8 list \<Rightarrow> nat \<Rightarrow> u64" where
  "fletcher64 area off =
     (let (lo, hi) = fletcher (Some (off div 4)) (words32 area) 0 0
      in push_bit 32 (ucast hi) OR ucast lo)"

definition ChecksumOperations :: "u8 list \<Rightarrow> nat \<Rightarrow> nat \<Rightarrow> bool \<Rightarrow> bool \<times> u8 list" where
  "ChecksumOperations buf Length off Insert =
     (if Length mod 4 \<noteq> 0 then (False, buf)
      else if off mod 4 \<noteq> 0 then (False, buf)
      else
        let Checksum = fletcher64 (take Length buf) off
        in if Insert then (True, patch buf off (le64 Checksum))
           else (of_le (take 8 (drop off buf)) = Checksum, buf))"

section \<open>Facts about the loop\<close>

lemma words32_length: "length (words32 bs) = length bs div 4"
  by (induction bs rule: words32.induct) auto

lemma words32_nth: "i < length bs div 4 \<Longrightarrow> words32 bs ! i = of_le (take 4 (drop (4 * i) bs))"
proof (induction bs arbitrary: i rule: words32.induct)
  case (1 a b c d bs)
  show ?case
  proof (cases i)
    case 0
    then show ?thesis by simp
  next
    case (Suc j)
    have "drop (4 * Suc j) (a # b # c # d # bs) = drop (4 * j) bs"
      by (simp add: drop_Cons')
    with Suc 1 show ?thesis by simp
  qed
qed simp_all

text \<open>The words that the loop adds up: all but the two of the checksum field.\<close>

definition counted :: "nat \<Rightarrow> u32 list \<Rightarrow> u32 list" where
  "counted k ws = take k ws @ drop (k + 2) ws"

lemma fletcher_None_lo: "fst (fletcher None ws lo hi) = lo + sum_list ws"
  by (induction ws arbitrary: lo hi) (auto simp: algebra_simps)

lemma fletcher_lo: "fst (fletcher (Some k) ws lo hi) = lo + sum_list (counted k ws)"
proof (induction k arbitrary: ws lo hi)
  case 0
  then show ?case
    by (cases ws) (simp_all add: counted_def fletcher_None_lo drop_Suc numeral_2_eq_2)
next
  case (Suc k)
  then show ?case by (cases ws) (simp_all add: counted_def algebra_simps)
qed

lemma fletcher_ignores_field:
  "length ws = length ws' \<Longrightarrow> take k ws = take k ws' \<Longrightarrow> drop (k + 2) ws = drop (k + 2) ws' \<Longrightarrow>
     fletcher (Some k) ws lo hi = fletcher (Some k) ws' lo hi"
proof (induction k arbitrary: ws ws' lo hi)
  case 0
  then show ?case
    by (cases ws; cases ws') (simp_all add: drop_Suc numeral_2_eq_2)
next
  case (Suc k)
  show ?case
  proof (cases ws)
    case Nil
    with Suc.prems show ?thesis by simp
  next
    case (Cons w vs)
    with Suc.prems obtain vs' where vs': "ws' = w # vs'" by (cases ws') auto
    have "fletcher (Some k) vs (lo + w) (hi + (lo + w)) = fletcher (Some k) vs' (lo + w) (hi + (lo + w))"
      using Suc.prems by (intro Suc.IH) (simp_all add: Cons vs')
    then show ?thesis by (simp add: Cons vs')
  qed
qed

lemma words32_eqI:
  assumes "length bs = length bs'"
    and "\<And>i. i < length bs div 4 \<Longrightarrow> take 4 (drop (4 * i) bs) = take 4 (drop (4 * i) bs')"
  shows "words32 bs = words32 bs'"
  using assms by (intro nth_equalityI) (auto simp: words32_length words32_nth)

text \<open>The computed checksum does not depend on what the field holds.\<close>

lemma fletcher64_patch:
  assumes "off mod 4 = 0" and "off + 8 \<le> length buf" and "length cs = 8"
  shows "fletcher64 (patch buf off cs) off = fletcher64 buf off"
proof -
  let ?k = "off div 4"
  from assms(1) have off: "off = 4 * ?k" by auto
  have len: "length (patch buf off cs) = length buf" using assms by simp
  have nth: "words32 (patch buf off cs) ! i = words32 buf ! i"
    if "i < length buf div 4" "i < ?k \<or> ?k + 2 \<le> i" for i
  proof -
    from that(2) off have "4 * i + 4 \<le> off \<or> off + 8 \<le> 4 * i" by linarith
    then have "take 4 (drop (4 * i) (patch buf off cs)) = take 4 (drop (4 * i) buf)"
      using assms by (intro patch_get_other) auto
    with that(1) len show ?thesis by (simp add: words32_nth)
  qed
  have "fletcher (Some ?k) (words32 (patch buf off cs)) 0 0 = fletcher (Some ?k) (words32 buf) 0 0"
    by (intro fletcher_ignores_field nth_equalityI) (auto simp: words32_length len nth)
  then show ?thesis by (simp add: fletcher64_def)
qed

lemma ucast_lo_fletcher64:
  "ucast (fletcher64 area off) = (sum_list (counted (off div 4) (words32 area)) :: u32)"
proof -
  obtain lo hi where f: "fletcher (Some (off div 4)) (words32 area) 0 0 = (lo, hi)"
    by fastforce
  have "ucast (push_bit 32 (ucast hi) OR ucast lo :: u64) = lo"
    by (rule bit_word_eqI) (auto simp: bit_simps)
  with f fletcher_lo [of "off div 4" "words32 area" 0 0] show ?thesis
    by (simp add: fletcher64_def)
qed

lemma words32_patch_word:
  assumes "4 * i + 4 \<le> length bs"
  shows "words32 (patch bs (4 * i) (le32 w)) = (words32 bs)[i := w]"
proof (rule nth_equalityI)
  show "length (words32 (patch bs (4 * i) (le32 w))) = length ((words32 bs)[i := w])"
    using assms by (simp add: words32_length)
  fix j assume "j < length (words32 (patch bs (4 * i) (le32 w)))"
  with assms have j: "j < length bs div 4" by (simp add: words32_length)
  show "words32 (patch bs (4 * i) (le32 w)) ! j = (words32 bs)[i := w] ! j"
  proof (cases "j = i")
    case True
    with j assms show ?thesis by (simp add: words32_nth words32_length)
  next
    case False
    then have "4 * j + 4 \<le> 4 * i \<or> 4 * i + 4 \<le> 4 * j" by linarith
    then have "take 4 (drop (4 * j) (patch bs (4 * i) (le32 w))) = take 4 (drop (4 * j) bs)"
      using assms by (intro patch_get_other) auto
    with False j assms show ?thesis by (simp add: words32_nth)
  qed
qed

lemma sum_list_update_word:
  "i < length ws \<Longrightarrow> sum_list (ws[i := w]) = sum_list ws - ws ! i + (w :: u32)"
  by (induction ws arbitrary: i) (auto split: nat.split)

lemma counted_update:
  assumes "i < length ws" and "i < k \<or> k + 2 \<le> i"
  shows "sum_list (counted k (ws[i := w])) = sum_list (counted k ws) - ws ! i + w"
proof (cases "i < k")
  case True
  with assms show ?thesis
    by (simp add: counted_def take_update_swap sum_list_update_word)
next
  case False
  with assms have ki: "k + 2 \<le> i" by simp
  with assms have "drop (k + 2) (ws[i := w]) = (drop (k + 2) ws)[i - (k + 2) := w]"
    and "take k (ws[i := w]) = take k ws"
    by (simp_all add: drop_update_swap)
  moreover have "drop (k + 2) ws ! (i - (k + 2)) = ws ! i"
    using assms ki by (simp only: nth_drop length_drop le_add_diff_inverse)
  ultimately show ?thesis
    using False assms by (simp only: counted_def sum_list_append sum_list_update_word length_drop)
      (simp add: sum_list_update_word)
qed

section \<open>Properties\<close>

text \<open>
  a checksum written by \<open>ChecksumOperations\<close> with \<open>Insert\<close> set is accepted when the
  same area is verified, and the insertion changes nothing outside the checksum field.
\<close>

theorem checksum_insert_verify:
  assumes "Length mod 4 = 0" and "off mod 4 = 0"
    and "off + 8 \<le> Length" and "Length \<le> length buf"
  shows "fst (ChecksumOperations buf Length off True)
       \<and> fst (ChecksumOperations (snd (ChecksumOperations buf Length off True)) Length off False)
       \<and> take off (snd (ChecksumOperations buf Length off True)) = take off buf
       \<and> drop (off + 8) (snd (ChecksumOperations buf Length off True)) = drop (off + 8) buf"
proof -
  define cs where "cs = le64 (fletcher64 (take Length buf) off)"
  have len: "length cs = 8" by (simp add: cs_def)
  have "take Length (patch buf off cs) = patch (take Length buf) off cs"
    using assms len by (auto simp: patch_def drop_take min_def)
  then have "fletcher64 (take Length (patch buf off cs)) off = fletcher64 (take Length buf) off"
    using assms len by (simp add: fletcher64_patch)
  moreover have "of_le (take 8 (drop off (patch buf off cs))) = fletcher64 (take Length buf) off"
    using assms len by (simp add: cs_def)
  moreover have "take off (patch buf off cs) = take off buf"
    and "drop (off + 8) (patch buf off cs) = drop (off + 8) buf"
    using assms len by (simp_all add: patch_def)
  ultimately show ?thesis
    using assms by (simp add: ChecksumOperations_def Let_def flip: cs_def)
qed

theorem checksum_insert_verify_witness:
  "fst (ChecksumOperations (replicate 16 1) 16 8 True)
   \<and> fst (ChecksumOperations (snd (ChecksumOperations (replicate 16 1) 16 8 True)) 16 8 False)"
  using checksum_insert_verify [of 16 8 "replicate 16 1"] by simp

text \<open>
  C39: replacing any single 32-bit word of a verified area, outside the checksum field, by a
  different value is always detected.
\<close>

theorem checksum_detects_changed_word:
  assumes valid: "fst (ChecksumOperations buf Length off False)"
    and len: "Length \<le> length buf" "4 * i + 4 \<le> Length"
    and outside: "4 * i + 4 \<le> off \<or> off + 8 \<le> 4 * i"
    and changed: "w \<noteq> of_le (take 4 (drop (4 * i) buf))"
  shows "\<not> fst (ChecksumOperations (patch buf (4 * i) (le32 w)) Length off False)"
proof
  assume valid': "fst (ChecksumOperations (patch buf (4 * i) (le32 w)) Length off False)"
  let ?area = "take Length buf" and ?k = "off div 4"
  from valid have al: "off mod 4 = 0" and
    v: "of_le (take 8 (drop off buf)) = fletcher64 ?area off"
    by (auto simp: ChecksumOperations_def Let_def split: if_splits)
  have tk: "take Length (patch buf (4 * i) (le32 w)) = patch ?area (4 * i) (le32 w)"
    using len by (auto simp: patch_def drop_take min_def)
  have fld: "take 8 (drop off (patch buf (4 * i) (le32 w))) = take 8 (drop off buf)"
    using len outside by (intro patch_get_other) auto
  from valid' have "fletcher64 (patch ?area (4 * i) (le32 w)) off = fletcher64 ?area off"
    using v fld tk by (auto simp: ChecksumOperations_def Let_def split: if_splits)
  then have "ucast (fletcher64 (patch ?area (4 * i) (le32 w)) off) = (ucast (fletcher64 ?area off) :: u32)"
    by simp
  then have "sum_list (counted ?k ((words32 ?area)[i := w])) = sum_list (counted ?k (words32 ?area))"
    using len by (simp add: ucast_lo_fletcher64 words32_patch_word)
  moreover have "i < ?k \<or> ?k + 2 \<le> i"
    using outside al by auto
  moreover have "i < length (words32 ?area)"
    using len by (simp add: words32_length)
  ultimately have "w = words32 ?area ! i"
    by (simp add: counted_update)
  with changed len show False
    by (simp add: words32_nth drop_take)
qed

theorem checksum_detects_changed_word_witness:
  "\<not> fst (ChecksumOperations (patch (replicate 16 0) 4 (le32 7)) 16 8 False)"
proof -
  have "fst (ChecksumOperations (replicate 16 0) 16 8 False)"
    by code_simp
  moreover have "(7 :: u32) \<noteq> of_le (take 4 (drop (4 * 1) (replicate 16 0)))"
    by code_simp
  ultimately show ?thesis
    using checksum_detects_changed_word [of "replicate 16 0" 16 8 1 7] by simp
qed

end
