(* ===== verification/Btt_Layout.thy ===== *)
theory Btt_Layout
  imports Checksum Namespace_Io
begin

text \<open>
  On-media and run-time data of the block translation table: \<open>BttLayout.h\<close> (info block,
  flog pair, map entries, layout constants) and \<open>Btt.h\<close> (run-time arena and handle).
  Packed structures come with their byte codecs and round trips.
\<close>

section \<open>Constants\<close>

abbreviation (input) BTT_ALIGNMENT :: "'a::len word" where "BTT_ALIGNMENT \<equiv> 4096"
abbreviation (input) BTT_PRIMARY_INFO_BLOCK_OFFSET :: u64 where "BTT_PRIMARY_INFO_BLOCK_OFFSET \<equiv> 0"
abbreviation (input) BTT_PRIMARY_INFO_BLOCK_OFFSET_1_1 :: u64 where "BTT_PRIMARY_INFO_BLOCK_OFFSET_1_1 \<equiv> 4096"
abbreviation (input) BTT_NAMESPACE_MIN_SIZE :: u64 where "BTT_NAMESPACE_MIN_SIZE \<equiv> 16777216"
abbreviation (input) BTT_MAX_ARENA_SIZE :: u64 where "BTT_MAX_ARENA_SIZE \<equiv> 549755813888"
abbreviation (input) BTT_MIN_LBA_SIZE :: u32 where "BTT_MIN_LBA_SIZE \<equiv> 512"
abbreviation (input) BTT_DEFAULT_NFREE :: u32 where "BTT_DEFAULT_NFREE \<equiv> 256"
abbreviation (input) BTT_FLOG_PAIR_ALIGN :: u64 where "BTT_FLOG_PAIR_ALIGN \<equiv> 64"
abbreviation (input) BTT_MAP_ENTRY_SIZE :: u32 where "BTT_MAP_ENTRY_SIZE \<equiv> 4"
abbreviation (input) BTT_MAP_LOCK_ALIGN :: u32 where "BTT_MAP_LOCK_ALIGN \<equiv> 64"
abbreviation (input) BTT_MAP_ENTRY_ZERO :: u32 where "BTT_MAP_ENTRY_ZERO \<equiv> 0x80000000"
abbreviation (input) BTT_MAP_ENTRY_ERROR :: u32 where "BTT_MAP_ENTRY_ERROR \<equiv> 0x40000000"
abbreviation (input) BTT_MAP_ENTRY_NORMAL :: u32 where "BTT_MAP_ENTRY_NORMAL \<equiv> 0xC0000000"
abbreviation (input) BTT_MAP_ENTRY_LBA_MASK :: u32 where "BTT_MAP_ENTRY_LBA_MASK \<equiv> 0x3fffffff"
abbreviation (input) BTTINFO_FLAG_ERROR :: u32 where "BTTINFO_FLAG_ERROR \<equiv> 1"
abbreviation (input) BTTINFO_FLAG_ERROR_MASK :: u32 where "BTTINFO_FLAG_ERROR_MASK \<equiv> 1"
abbreviation (input) BTT_INFO_SIZE :: u64 where "BTT_INFO_SIZE \<equiv> 4096"
abbreviation (input) NSINDEX_MAJOR :: u16 where "NSINDEX_MAJOR \<equiv> 1"
abbreviation (input) NSINDEX_MINOR_1 :: u16 where "NSINDEX_MINOR_1 \<equiv> 1"

definition Sig :: "u8 list" where
  "Sig = map (\<lambda>c. of_nat (of_char c)) ''BTT_ARENA_INFO'' @ [0, 0]"

section \<open>On-media structures\<close>

record btt_flog =
  fLba :: u32
  fOldMap :: u32
  fNewMap :: u32
  fSeq :: u32

record btt_flog_pair =
  flog0 :: btt_flog
  flog1 :: btt_flog
  fpad :: "u8 list"

definition zero_flog :: btt_flog where
  "zero_flog = \<lparr>fLba = 0, fOldMap = 0, fNewMap = 0, fSeq = 0\<rparr>"

definition zero_flog_pair :: btt_flog_pair where
  "zero_flog_pair = \<lparr>flog0 = zero_flog, flog1 = zero_flog, fpad = replicate 32 0\<rparr>"

definition flog_at :: "btt_flog_pair \<Rightarrow> u8 \<Rightarrow> btt_flog" where
  "flog_at p i = (if i = 0 then flog0 p else flog1 p)"

definition flog_bytes :: "btt_flog \<Rightarrow> u8 list" where
  "flog_bytes f = le32 (fLba f) @ le32 (fOldMap f) @ le32 (fNewMap f) @ le32 (fSeq f)"

definition parse_flog :: "u8 list \<Rightarrow> btt_flog" where
  "parse_flog bs = \<lparr>fLba = get32 0 bs, fOldMap = get32 4 bs, fNewMap = get32 8 bs, fSeq = get32 12 bs\<rparr>"

definition flog_pair_bytes :: "btt_flog_pair \<Rightarrow> u8 list" where
  "flog_pair_bytes p = flog_bytes (flog0 p) @ flog_bytes (flog1 p) @ fpad p"

definition parse_flog_pair :: "u8 list \<Rightarrow> btt_flog_pair" where
  "parse_flog_pair bs =
     \<lparr>flog0 = parse_flog bs, flog1 = parse_flog (drop 16 bs), fpad = take 32 (drop 32 bs)\<rparr>"

definition map_bytes :: "u32 list \<Rightarrow> u8 list" where
  "map_bytes es = concat (map le32 es)"

record btt_info =
  iSig :: "u8 list"
  iUuid :: "u8 list"
  iParentUuid :: "u8 list"
  iFlags :: u32
  iMajor :: u16
  iMinor :: u16
  iExternalLbaSize :: u32
  iExternalNLbas :: u32
  iInternalLbaSize :: u32
  iInternalNLbas :: u32
  iNFree :: u32
  iInfoSize :: u32
  iNextOffset :: u64
  iDataOffset :: u64
  iMapOffset :: u64
  iFlogOffset :: u64
  iInfoOffset :: u64
  iUnused :: "u8 list"
  iChecksum :: u64

definition info_bytes :: "btt_info \<Rightarrow> u8 list" where
  "info_bytes i =
     iSig i @ iUuid i @ iParentUuid i @ le32 (iFlags i) @ le16 (iMajor i) @ le16 (iMinor i) @
     le32 (iExternalLbaSize i) @ le32 (iExternalNLbas i) @ le32 (iInternalLbaSize i) @
     le32 (iInternalNLbas i) @ le32 (iNFree i) @ le32 (iInfoSize i) @
     le64 (iNextOffset i) @ le64 (iDataOffset i) @ le64 (iMapOffset i) @ le64 (iFlogOffset i) @
     le64 (iInfoOffset i) @ iUnused i @ le64 (iChecksum i)"

definition parse_info :: "u8 list \<Rightarrow> btt_info" where
  "parse_info bs =
     \<lparr>iSig = take 16 bs, iUuid = take 16 (drop 16 bs), iParentUuid = take 16 (drop 32 bs),
      iFlags = get32 48 bs, iMajor = get16 52 bs, iMinor = get16 54 bs,
      iExternalLbaSize = get32 56 bs, iExternalNLbas = get32 60 bs,
      iInternalLbaSize = get32 64 bs, iInternalNLbas = get32 68 bs,
      iNFree = get32 72 bs, iInfoSize = get32 76 bs,
      iNextOffset = get64 80 bs, iDataOffset = get64 88 bs, iMapOffset = get64 96 bs,
      iFlogOffset = get64 104 bs, iInfoOffset = get64 112 bs,
      iUnused = take 3968 (drop 120 bs), iChecksum = get64 4088 bs\<rparr>"

text \<open>The byte-array fields have the lengths that the C declaration fixes.\<close>

definition info_wf :: "btt_info \<Rightarrow> bool" where
  "info_wf i \<longleftrightarrow> length (iSig i) = 16 \<and> length (iUuid i) = 16 \<and> length (iParentUuid i) = 16
     \<and> length (iUnused i) = 3968"

section \<open>Run-time structures\<close>

record flog_runtime =
  FlogPair :: btt_flog_pair
  Entry :: u64
  Next :: u8

definition zero_flog_runtime :: flog_runtime where
  "zero_flog_runtime = \<lparr>FlogPair = zero_flog_pair, Entry = 0, Next = 0\<rparr>"

record arena =
  Flags :: u32
  ExternalNLbas :: u32
  InternalLbaSize :: u32
  InternalNLbas :: u32
  StartOffset :: u64
  DataOffset :: u64
  MapOffset :: u64
  FlogOffset :: u64
  NextOffset :: u64
  pFlogs :: "flog_runtime list"
  pRtt :: "u32 list"

definition zero_arena :: arena where
  "zero_arena = \<lparr>Flags = 0, ExternalNLbas = 0, InternalLbaSize = 0, InternalNLbas = 0,
     StartOffset = 0, DataOffset = 0, MapOffset = 0, FlogOffset = 0, NextOffset = 0,
     pFlogs = [], pRtt = []\<rparr>"

record btt =
  Laidout :: bool
  NLanes :: u32
  Uuid :: "u8 list"
  ParentUuid :: "u8 list"
  RawSize :: u64
  LbaSize :: u32
  BttInternalLbaSize :: u32
  NFree :: u32
  NLbas :: u64
  NArenas :: u32
  PrimaryInfoOffset :: u64
  Arenas :: "arena list"
  pNamespace :: namespace

section \<open>Codec round trips\<close>

lemma length_codecs [simp, codec_simps]:
  "length (flog_bytes f) = 16"
  "length (map_bytes es) = 4 * length es"
  "info_wf i \<Longrightarrow> length (info_bytes i) = 4096"
  by (simp_all add: flog_bytes_def info_bytes_def info_wf_def map_bytes_def length_concat comp_def
      sum_list_triv)

lemma parse_flog_bytes [simp]: "parse_flog (flog_bytes f @ ys) = f"
  by (simp add: parse_flog_def flog_bytes_def)

lemma parse_flog_pair_bytes [simp]:
  "length (fpad p) = 32 \<Longrightarrow> parse_flog_pair (flog_pair_bytes p) = p"
  by (simp add: parse_flog_pair_def flog_pair_bytes_def)

lemma parse_info_bytes: "info_wf i \<Longrightarrow> parse_info (info_bytes i) = i"
  by (simp add: parse_info_def info_bytes_def info_wf_def)

lemma info_wf_parse: "length bs = 4096 \<Longrightarrow> info_wf (parse_info bs)"
  by (simp add: info_wf_def parse_info_def)

lemma info_bytes_parse:
  assumes "length bs = 4096"
  shows "info_bytes (parse_info bs) = bs"
proof -
  have "info_bytes (parse_info bs) =
    take 16 (drop 0 bs) @ take 16 (drop 16 bs) @ take 16 (drop 32 bs) @ take 4 (drop 48 bs) @
    take 2 (drop 52 bs) @ take 2 (drop 54 bs) @ take 4 (drop 56 bs) @ take 4 (drop 60 bs) @
    take 4 (drop 64 bs) @ take 4 (drop 68 bs) @ take 4 (drop 72 bs) @ take 4 (drop 76 bs) @
    take 8 (drop 80 bs) @ take 8 (drop 88 bs) @ take 8 (drop 96 bs) @ take 8 (drop 104 bs) @
    take 8 (drop 112 bs) @ take 3968 (drop 120 bs) @ take 8 (drop 4088 bs) @ []"
    using assms by (simp add: info_bytes_def parse_info_def le_get)
  also have "\<dots> = take 4096 (drop 0 bs) @ []"
    by (simp only: take_drop_join_rest arith_simps)
  finally show ?thesis using assms by simp
qed

lemma words32_map_bytes [simp]: "words32 (map_bytes es @ ys) = es @ words32 ys"
proof (induction es)
  case Nil
  then show ?case by (simp add: map_bytes_def)
next
  case (Cons e es)
  obtain a b c d where abcd: "le32 e = [a, b, c, d]"
    by (simp add: numeral_eq_Suc)
  then have "of_le [a, b, c, d] = e"
    using of_le_round(2) [of e] by simp
  with Cons abcd show ?case by (simp add: map_bytes_def)
qed

lemma words32_map_bytes' [simp]: "words32 (map_bytes es) = es"
  using words32_map_bytes [of es "[]"] by simp

lemma map_bytes_words32: "length bs mod 4 = 0 \<Longrightarrow> map_bytes (words32 bs) = bs"
proof (induction bs rule: words32.induct)
  case (1 a b c d bs)
  then show ?case
    using le_of_round(1) [of "[a, b, c, d]"] by (simp add: map_bytes_def mod_Suc split: if_splits)
qed (simp_all add: map_bytes_def)

lemma nth_words32_get: "4 * i + 4 \<le> length bs \<Longrightarrow> words32 bs ! i = get32 (4 * i) bs"
  by (simp add: words32_nth get32_def)

section \<open>Sealing an info block\<close>

definition sealed :: "btt_info \<Rightarrow> btt_info" where
  "sealed i = i\<lparr>iChecksum := fletcher64 (info_bytes i) 4088\<rparr>"

lemma sealed_fields [simp]:
  "iSig (sealed i) = iSig i" "iUuid (sealed i) = iUuid i" "iParentUuid (sealed i) = iParentUuid i"
  "iFlags (sealed i) = iFlags i" "iMajor (sealed i) = iMajor i" "iMinor (sealed i) = iMinor i"
  "iExternalLbaSize (sealed i) = iExternalLbaSize i" "iExternalNLbas (sealed i) = iExternalNLbas i"
  "iInternalLbaSize (sealed i) = iInternalLbaSize i" "iInternalNLbas (sealed i) = iInternalNLbas i"
  "iNFree (sealed i) = iNFree i" "iInfoSize (sealed i) = iInfoSize i" "iNextOffset (sealed i) = iNextOffset i"
  "iDataOffset (sealed i) = iDataOffset i" "iMapOffset (sealed i) = iMapOffset i"
  "iFlogOffset (sealed i) = iFlogOffset i" "iInfoOffset (sealed i) = iInfoOffset i"
  "iUnused (sealed i) = iUnused i" "info_wf (sealed i) = info_wf i"
  by (simp_all add: sealed_def info_wf_def)

lemma info_bytes_checksum:
  assumes "info_wf i"
  shows "info_bytes (i\<lparr>iChecksum := x\<rparr>) = patch (info_bytes i) 4088 (le64 x)"
proof -
  define body where "body = take 4088 (info_bytes i)"
  have b: "info_bytes i = body @ le64 (iChecksum i)" "info_bytes (i\<lparr>iChecksum := x\<rparr>) = body @ le64 x"
    using assms by (simp_all add: body_def info_bytes_def info_wf_def)
  have "length body = 4088" using assms by (simp add: body_def)
  then show ?thesis by (simp add: b patch_def)
qed

lemma seal_bytes:
  assumes "info_wf i"
  shows "snd (ChecksumOperations (info_bytes i) 4096 4088 True) = info_bytes (sealed i)"
    and "fst (ChecksumOperations (info_bytes (sealed i)) 4096 4088 False)"
proof -
  have len: "length (info_bytes i) = 4096" using assms by simp
  then show "snd (ChecksumOperations (info_bytes i) 4096 4088 True) = info_bytes (sealed i)"
    using assms by (simp add: ChecksumOperations_def sealed_def info_bytes_checksum)
  have "fletcher64 (info_bytes (sealed i)) 4088 = fletcher64 (info_bytes i) 4088"
    using assms len by (simp add: sealed_def info_bytes_checksum fletcher64_patch)
  moreover have "take 8 (drop 4088 (info_bytes (sealed i))) = le64 (fletcher64 (info_bytes i) 4088)"
    using assms len by (simp add: sealed_def info_bytes_checksum patch_def)
  moreover have "length (info_bytes (sealed i)) = 4096" using assms by simp
  ultimately show "fst (ChecksumOperations (info_bytes (sealed i)) 4096 4088 False)"
    by (simp add: ChecksumOperations_def)
qed

end
