(* ===== verification/Btt.thy ===== *)
theory Btt
  imports Btt_Layout
begin

text \<open>
  The block translation table (\<open>DcpmPkg/driver/Core/Btt.c\<close>), function by function. A
  function that writes through its pointer arguments returns the new structures; the handle's
  \<open>Arenas\<close> array is a list and an \<open>ARENAS *\<close> a position in it or the structure itself.
  Pointers the callers never pass as \<open>NULL\<close> are values, so their \<open>NULL\<close> tests have no
  counterpart. \<open>BttWrite\<close> returns \<open>None\<close> where its wait loop on the read tracking table
  would never end.
\<close>

section \<open>Sequence numbers, map entries\<close>

definition NSEQ :: "u32 \<Rightarrow> u32" where
  "NSEQ Seq = [0, 2, 3, 1] ! unat (Seq AND 3)"

definition IsLbaValid :: "btt \<Rightarrow> u64 \<Rightarrow> efi_status" where
  "IsLbaValid pBtt Lba = (if Lba \<ge> NLbas pBtt then EFI_INVALID_PARAMETER else EFI_SUCCESS)"

definition MapEntryIsError :: "u32 \<Rightarrow> bool" where
  "MapEntryIsError e \<longleftrightarrow> e AND NOT BTT_MAP_ENTRY_LBA_MASK = BTT_MAP_ENTRY_ERROR"

definition MapEntryIsInitial :: "u32 \<Rightarrow> bool" where
  "MapEntryIsInitial e \<longleftrightarrow> e AND NOT BTT_MAP_ENTRY_LBA_MASK = 0"

definition MapEntryIsZeroOrInitial :: "u32 \<Rightarrow> bool" where
  "MapEntryIsZeroOrInitial e \<longleftrightarrow>
     (let EntryFlags = e AND NOT BTT_MAP_ENTRY_LBA_MASK
      in EntryFlags = 0 \<or> EntryFlags = BTT_MAP_ENTRY_ZERO)"

definition BttGetMapFromLba :: "u32 \<Rightarrow> u32" where
  "BttGetMapFromLba Lba = Lba div (BTT_MAP_LOCK_ALIGN div BTT_MAP_ENTRY_SIZE)"

definition BttGetPositionInMapFromLba :: "u32 \<Rightarrow> u8" where
  "BttGetPositionInMapFromLba Lba = ucast (Lba mod (BTT_MAP_LOCK_ALIGN div BTT_MAP_ENTRY_SIZE))"

section \<open>Info blocks\<close>

definition BttReadInfo :: "btt_info \<Rightarrow> btt option \<Rightarrow> efi_status" where
  "BttReadInfo pInfo pBtt =
     (if iSig pInfo \<noteq> Sig then EFI_ABORTED
      else if (case pBtt of None \<Rightarrow> False | Some b \<Rightarrow> iParentUuid pInfo \<noteq> ParentUuid b) then EFI_ABORTED
      else if \<not> fst (ChecksumOperations (info_bytes pInfo) 4096 4088 False) then EFI_ABORTED
      else if iMajor pInfo = 0 then EFI_ABORTED
      else EFI_SUCCESS)"

definition BttArenaSetFlag :: "btt \<Rightarrow> arena \<Rightarrow> u32 \<Rightarrow> sys \<Rightarrow> efi_status \<times> arena \<times> sys" where
  "BttArenaSetFlag pBtt pArena SetFlag s =
     (let pArena = pArena\<lparr>Flags := SetFlag\<rparr>
      in if \<not> Laidout pBtt then (EFI_ABORTED, pArena, s)
         else
           let (ok, s) = AllocatePool s
           in if \<not> ok then (EFI_OUT_OF_RESOURCES, pArena, s)
              else
                let ArenaOff = StartOffset pArena;
                    (rc, buf, s) = ReadNamespaceBytes (pNamespace pBtt) ArenaOff (replicate 4096 0) BTT_INFO_SIZE s
                in if EFI_ERROR rc then (rc, pArena, s)
                   else
                     let pBttInfo = parse_info buf;
                         pBttInfo = pBttInfo\<lparr>iFlags := iFlags pBttInfo OR SetFlag\<rparr>;
                         out = snd (ChecksumOperations (info_bytes pBttInfo) 4096 4088 True);
                         (rc, s) = WriteNamespaceBytes (pNamespace pBtt) ArenaOff out BTT_INFO_SIZE s
                     in if EFI_ERROR rc then (rc, pArena, s)
                        else
                          let (rc, s) = WriteNamespaceBytes (pNamespace pBtt)
                                 (ArenaOff + iInfoOffset pBttInfo) out BTT_INFO_SIZE s
                          in (rc, pArena, s))"

definition BttSetArenaError :: "btt \<Rightarrow> arena \<Rightarrow> sys \<Rightarrow> efi_status \<times> arena \<times> sys" where
  "BttSetArenaError pBtt pArena s = BttArenaSetFlag pBtt pArena BTTINFO_FLAG_ERROR s"

section \<open>The flog\<close>

text \<open>
  Which half of a flog pair is current, from the two sequence numbers; \<open>None\<close> for the two
  layout errors (equal numbers, or numbers that do not follow each other).
\<close>

definition FlogSelect :: "u32 \<Rightarrow> u32 \<Rightarrow> u8 option" where
  "FlogSelect Seq0 Seq1 =
     (if Seq0 = Seq1 then None
      else if Seq0 = 0 then Some 1
      else if Seq1 = 0 then Some 0
      else if NSEQ Seq0 = Seq1 then Some 1
      else if Seq0 = NSEQ Seq1 then Some 0
      else None)"

text \<open>
  The recovery half of \<open>BttReadFlogPair\<close>: the current flog entry names a map update; if the
  map still holds the old value, the update is completed.
\<close>

definition BttFlogRecover :: "btt \<Rightarrow> arena \<Rightarrow> btt_flog \<Rightarrow> sys \<Rightarrow> efi_status \<times> sys" where
  "BttFlogRecover pBtt pArena Flog s =
     (if fOldMap Flog = fNewMap Flog then (EFI_SUCCESS, s)
      else
        let MapEntryOffset = MapOffset pArena + 64 * ucast (BttGetMapFromLba (fLba Flog));
            (rc, buf, s) = ReadNamespaceBytes (pNamespace pBtt) MapEntryOffset (replicate 64 0) 64 s
        in if EFI_ERROR rc then (rc, s)
           else
             let MapEntries = words32 buf;
                 CurrentMapPos = unat (BttGetPositionInMapFromLba (fLba Flog));
                 MapEntries = (if MapEntryIsInitial (MapEntries ! CurrentMapPos)
                          then MapEntries[CurrentMapPos := fLba Flog OR BTT_MAP_ENTRY_NORMAL] else MapEntries);
                 CurrentMap = MapEntries ! CurrentMapPos
             in if fNewMap Flog \<noteq> CurrentMap \<and> fOldMap Flog = CurrentMap then
                  WriteNamespaceBytes (pNamespace pBtt) MapEntryOffset
                    (map_bytes (MapEntries[CurrentMapPos := fNewMap Flog])) 64 s
                else (EFI_SUCCESS, s))"

text \<open>
  \<open>SET_BIT(&pArena->Flags, BTTINFO_FLAG_ERROR)\<close> takes the flag as a bit number, so it sets
  bit 1 of the run-time flags.
\<close>

definition BttReadFlogPair ::
  "btt \<Rightarrow> arena \<Rightarrow> u64 \<Rightarrow> flog_runtime \<Rightarrow> sys \<Rightarrow> efi_status \<times> arena \<times> flog_runtime \<times> sys" where
  "BttReadFlogPair pBtt pArena FlogOff pFlogRuntime s =
     (let fr = pFlogRuntime\<lparr>FlogPair := zero_flog_pair, Entry := FlogOff\<rparr>
      in if FlogOff = 0 then (EFI_INVALID_PARAMETER, pArena, fr, s)
         else
           let (rc, buf, s) = ReadNamespaceBytes (pNamespace pBtt) FlogOff (replicate 64 0) 64 s
           in if EFI_ERROR rc then (rc, pArena, fr, s)
              else
                let p = parse_flog_pair buf;
                    fr = fr\<lparr>FlogPair := p\<rparr>
                in if EFI_ERROR (IsLbaValid pBtt (ucast (fLba (flog0 p)))) \<or>
                      EFI_ERROR (IsLbaValid pBtt (ucast (fLba (flog1 p))))
                   then (EFI_INVALID_PARAMETER, pArena, fr, s)
                   else if fSeq (flog0 p) = fSeq (flog1 p) then
                     (EFI_LOAD_ERROR, pArena\<lparr>Flags := Flags pArena OR 2\<rparr>, fr, s)
                   else case FlogSelect (fSeq (flog0 p)) (fSeq (flog1 p)) of
                     None \<Rightarrow> (EFI_LOAD_ERROR, pArena, fr, s)
                   | Some CurrentFlogIndex \<Rightarrow>
                       let fr = fr\<lparr>Next := 1 - CurrentFlogIndex\<rparr>;
                           (rc, s) = BttFlogRecover pBtt pArena (flog_at p CurrentFlogIndex) s
                       in (rc, pArena, fr, s))"

definition set_flog :: "btt_flog_pair \<Rightarrow> u8 \<Rightarrow> btt_flog \<Rightarrow> btt_flog_pair" where
  "set_flog p i f = (if i = 0 then p\<lparr>flog0 := f\<rparr> else p\<lparr>flog1 := f\<rparr>)"

definition BttFlogUpdate ::
  "btt \<Rightarrow> arena \<Rightarrow> u32 \<Rightarrow> u32 \<Rightarrow> u32 \<Rightarrow> sys \<Rightarrow> efi_status \<times> arena \<times> sys" where
  "BttFlogUpdate pBtt pArena Lba OldMap NewMap s =
     (let fr = pFlogs pArena ! 0
      in if Next fr \<noteq> 0 \<and> Next fr \<noteq> 1 then (EFI_BAD_BUFFER_SIZE, pArena, s)
         else
           let CurrentFlog = (if Next fr = 0 then flog1 (FlogPair fr) else flog0 (FlogPair fr));
               NextFlog = \<lparr>fLba = Lba, fOldMap = OldMap, fNewMap = NewMap, fSeq = NSEQ (fSeq CurrentFlog)\<rparr>;
               fr = fr\<lparr>FlogPair := set_flog (FlogPair fr) (Next fr) NextFlog\<rparr>;
               pArena = pArena\<lparr>pFlogs := (pFlogs pArena)[0 := fr]\<rparr>;
               NextFlogOffset = Entry fr + ucast (Next fr) * 16;
               (rc, s) = WriteNamespaceBytes (pNamespace pBtt) NextFlogOffset
                           (le32 Lba @ le32 OldMap) 8 s
           in if EFI_ERROR rc then (rc, pArena, s)
              else
                let NextFlogOffset = NextFlogOffset + 8;
                    (rc, s) = WriteNamespaceBytes (pNamespace pBtt) NextFlogOffset
                                (le32 NewMap @ le32 (fSeq NextFlog)) 8 s
                in if EFI_ERROR rc then (rc, pArena, s)
                   else (EFI_SUCCESS,
                         pArena\<lparr>pFlogs := (pFlogs pArena)[0 := fr\<lparr>Next := 1 - Next fr\<rparr>]\<rparr>, s))"

fun BttReadFlogsLoop ::
  "btt \<Rightarrow> nat \<Rightarrow> nat \<Rightarrow> u64 \<Rightarrow> arena \<Rightarrow> sys \<Rightarrow> efi_status \<times> arena \<times> sys" where
  "BttReadFlogsLoop pBtt 0 Index FlogOff pArena s = (EFI_SUCCESS, pArena, s)"
| "BttReadFlogsLoop pBtt (Suc n) Index FlogOff pArena s =
     (let (rc, pArena, fr, s) = BttReadFlogPair pBtt pArena FlogOff (pFlogs pArena ! Index) s;
          pArena = pArena\<lparr>pFlogs := (pFlogs pArena)[Index := fr]\<rparr>
      in if EFI_ERROR rc then
           let (_, pArena, s) = BttSetArenaError pBtt pArena s in (rc, pArena, s)
         else BttReadFlogsLoop pBtt n (Suc Index) (FlogOff + ROUNDUP 64 BTT_FLOG_PAIR_ALIGN) pArena s)"

definition BttReadFlogs :: "btt \<Rightarrow> arena \<Rightarrow> sys \<Rightarrow> efi_status \<times> arena \<times> sys" where
  "BttReadFlogs pBtt pArena s =
     (let (ok, s) = AllocatePool s
      in if \<not> ok then (EFI_OUT_OF_RESOURCES, pArena\<lparr>pFlogs := []\<rparr>, s)
         else BttReadFlogsLoop pBtt (unat (NFree pBtt)) 0 (FlogOffset pArena)
                (pArena\<lparr>pFlogs := replicate (unat (NFree pBtt)) zero_flog_runtime\<rparr>) s)"

definition BttBuildRtt :: "btt \<Rightarrow> arena \<Rightarrow> sys \<Rightarrow> efi_status \<times> arena \<times> sys" where
  "BttBuildRtt pBtt pArena s =
     (let (ok, s) = AllocatePool s
      in if \<not> ok then (EFI_OUT_OF_RESOURCES, pArena\<lparr>pRtt := []\<rparr>, s)
         else (EFI_SUCCESS, pArena\<lparr>pRtt := replicate (unat (NFree pBtt)) BTT_MAP_ENTRY_ERROR\<rparr>, s))"

section \<open>Arenas\<close>

definition BttReadArena :: "btt \<Rightarrow> u64 \<Rightarrow> arena \<Rightarrow> sys \<Rightarrow> efi_status \<times> arena \<times> sys" where
  "BttReadArena pBtt ArenaOffset pArena s =
     (let (ok, s) = AllocatePool s
      in if \<not> ok then (EFI_OUT_OF_RESOURCES, pArena, s)
         else
           let (rc, buf, s) = ReadNamespaceBytes (pNamespace pBtt) ArenaOffset (replicate 4096 0) BTT_INFO_SIZE s
           in if EFI_ERROR rc then (rc, pArena, s)
              else
                let pBttInfo = parse_info buf;
                    pArena = pArena\<lparr>Flags := iFlags pBttInfo, ExternalNLbas := iExternalNLbas pBttInfo,
                       InternalLbaSize := iInternalLbaSize pBttInfo, InternalNLbas := iInternalNLbas pBttInfo,
                       StartOffset := ArenaOffset, DataOffset := ArenaOffset + iDataOffset pBttInfo,
                       MapOffset := ArenaOffset + iMapOffset pBttInfo,
                       FlogOffset := ArenaOffset + iFlogOffset pBttInfo,
                       NextOffset := ArenaOffset + iNextOffset pBttInfo\<rparr>;
                    (rc, pArena, s) = BttReadFlogs pBtt pArena s
                in if EFI_ERROR rc then (rc, pArena, s) else BttBuildRtt pBtt pArena s)"

fun BttReadArenasLoop ::
  "btt \<Rightarrow> nat \<Rightarrow> u64 \<Rightarrow> arena list \<Rightarrow> sys \<Rightarrow> efi_status \<times> arena list \<times> sys" where
  "BttReadArenasLoop pBtt 0 ArenaOffset done s = (EFI_SUCCESS, done, s)"
| "BttReadArenasLoop pBtt (Suc n) ArenaOffset done s =
     (let (rc, pArena, s) = BttReadArena pBtt ArenaOffset zero_arena s
      in if EFI_ERROR rc then (rc, done @ [pArena], s)
         else BttReadArenasLoop pBtt n (NextOffset pArena) (done @ [pArena]) s)"

definition BttReadArenas :: "btt \<Rightarrow> u32 \<Rightarrow> sys \<Rightarrow> efi_status \<times> btt \<times> sys" where
  "BttReadArenas pBtt Arenas_n s =
     (let (ok, s) = AllocatePool s
      in if \<not> ok then (EFI_OUT_OF_RESOURCES, pBtt\<lparr>Arenas := []\<rparr>, s)
         else
           let (rc, arenas, s) = BttReadArenasLoop pBtt (unat Arenas_n) (PrimaryInfoOffset pBtt) [] s
           in if EFI_ERROR rc then (rc, pBtt\<lparr>Arenas := []\<rparr>, s)
              else (EFI_SUCCESS, pBtt\<lparr>Arenas := arenas, Laidout := True\<rparr>, s))"

section \<open>Writing the layout\<close>

text \<open>\<open>GenerateRandomGuid\<close> of \<open>Namespace.c\<close>: 16 random bytes with the version-4 bits set.\<close>

definition GenerateRandomGuid :: "sys \<Rightarrow> u8 list \<times> sys" where
  "GenerateRandomGuid s =
     (let (g, s) = (case rng s of [] \<Rightarrow> (replicate 16 0, s) | r # rs \<Rightarrow> (r, s\<lparr>rng := rs\<rparr>));
          Data3 = (get16 6 g OR 0x4000) AND 0x4FFF;
          g = patch g 6 (le16 Data3);
          g = g[8 := (g ! 8 OR 0x80) AND 0xBF]
      in (g, s))"

text \<open>The geometry of one arena, as the loop body computes it before anything is written.\<close>

record arena_geom =
  gInternalNLbas :: u32
  gExternalNLbas :: u32
  gMapSize :: u64
  gArenaDataSize :: u64

definition BttFlogSize :: "u32 \<Rightarrow> u64" where
  "BttFlogSize nfree =
     (let FlogSize = ucast nfree * ROUNDUP 64 BTT_FLOG_PAIR_ALIGN in ROUNDUP FlogSize BTT_ALIGNMENT)"

definition BttInternalSize :: "u32 \<Rightarrow> u32" where
  "BttInternalSize lbasize =
     ROUNDUP (if lbasize < BTT_MIN_LBA_SIZE then BTT_MIN_LBA_SIZE else lbasize) 64"

definition BttArenaGeom ::
  "efi_status \<Rightarrow> u32 \<Rightarrow> u32 \<Rightarrow> u64 \<Rightarrow> efi_status + arena_geom" where
  "BttArenaGeom rc nfree InternalLbaSz ArenaRawSize =
     (let FlogSize = BttFlogSize nfree;
          ArenaDataSize = ArenaRawSize - 2 * BTT_INFO_SIZE - FlogSize;
          InternalN = (ucast ((ArenaDataSize - BTT_ALIGNMENT) div ucast (InternalLbaSz + BTT_MAP_ENTRY_SIZE)) :: u32)
      in if InternalN < 2 * nfree then Inl rc
         else
           let ExternalN = InternalN - nfree;
               MapSize = ucast (ROUNDUP (ExternalN * BTT_MAP_ENTRY_SIZE) BTT_ALIGNMENT :: u32);
               ArenaDataSize = ArenaDataSize - MapSize
           in if ArenaDataSize div ucast InternalLbaSz < ucast InternalN then Inl EFI_ABORTED
              else Inr \<lparr>gInternalNLbas = InternalN, gExternalNLbas = ExternalN,
                        gMapSize = MapSize, gArenaDataSize = ArenaDataSize\<rparr>)"

text \<open>Zeroing the map, one 4 KiB block at a time, \<open>MapSize / BTT_ALIGNMENT + 1\<close> times.\<close>

fun BttZeroMap :: "namespace \<Rightarrow> u64 \<Rightarrow> nat \<Rightarrow> nat \<Rightarrow> sys \<Rightarrow> efi_status \<times> sys" where
  "BttZeroMap ns MapEntryOffset MapBlock 0 s = (EFI_SUCCESS, s)"
| "BttZeroMap ns MapEntryOffset MapBlock (Suc n) s =
     (let (rc, s) = WriteNamespaceBytes ns
            (MapEntryOffset + ucast (of_nat MapBlock * BTT_ALIGNMENT :: u32)) (replicate 4096 0) BTT_ALIGNMENT s
      in if EFI_ERROR rc then (rc, s) else BttZeroMap ns MapEntryOffset (Suc MapBlock) n s)"

definition initial_flog_pair :: "u32 \<Rightarrow> btt_flog_pair" where
  "initial_flog_pair NextFreeLba =
     zero_flog_pair\<lparr>flog0 := \<lparr>fLba = 0, fOldMap = NextFreeLba, fNewMap = NextFreeLba, fSeq = 1\<rparr>\<rparr>"

fun BttWriteFlogs :: "namespace \<Rightarrow> u64 \<Rightarrow> u32 \<Rightarrow> nat \<Rightarrow> sys \<Rightarrow> efi_status \<times> sys" where
  "BttWriteFlogs ns FlogEntryOffset NextFreeLba 0 s = (EFI_SUCCESS, s)"
| "BttWriteFlogs ns FlogEntryOffset NextFreeLba (Suc n) s =
     (let (rc, s) = WriteNamespaceBytes ns FlogEntryOffset (flog_pair_bytes (initial_flog_pair NextFreeLba)) 64 s
      in if EFI_ERROR rc then (rc, s)
         else BttWriteFlogs ns (ROUNDUP (FlogEntryOffset + 64) BTT_FLOG_PAIR_ALIGN) (NextFreeLba + 1) n s)"

definition BttMakeInfo :: "btt \<Rightarrow> u32 \<Rightarrow> arena_geom \<Rightarrow> u64 \<Rightarrow> u64 \<Rightarrow> btt_info" where
  "BttMakeInfo pBtt InternalLbaSz g ArenaRawSize NextOff =
     (let FlogSize = BttFlogSize (NFree pBtt);
          InfoOffset = ArenaRawSize - BTT_INFO_SIZE;
          FlogOff = InfoOffset - FlogSize;
          MapOff = FlogOff - gMapSize g;
          DataOff = MapOff - gArenaDataSize g
      in \<lparr>iSig = Sig, iUuid = Uuid pBtt, iParentUuid = ParentUuid pBtt, iFlags = 0,
          iMajor = (if PrimaryInfoOffset pBtt = BTT_PRIMARY_INFO_BLOCK_OFFSET then 2 else 1),
          iMinor = (if PrimaryInfoOffset pBtt = BTT_PRIMARY_INFO_BLOCK_OFFSET then 0 else 1),
          iExternalLbaSize = LbaSize pBtt, iExternalNLbas = gExternalNLbas g,
          iInternalLbaSize = InternalLbaSz, iInternalNLbas = gInternalNLbas g,
          iNFree = NFree pBtt, iInfoSize = 4096, iNextOffset = NextOff, iDataOffset = DataOff,
          iMapOffset = MapOff, iFlogOffset = FlogOff, iInfoOffset = InfoOffset,
          iUnused = replicate 3968 0, iChecksum = 0\<rparr>)"

text \<open>The writes of one arena: map, flog, then the info block at both ends of the arena.\<close>

definition BttWriteArena ::
  "btt \<Rightarrow> u32 \<Rightarrow> arena_geom \<Rightarrow> u64 \<Rightarrow> u64 \<Rightarrow> u64 \<Rightarrow> sys \<Rightarrow> efi_status \<times> sys" where
  "BttWriteArena pBtt InternalLbaSz g ArenaOffset ArenaRawSize NextOff s =
     (let info = BttMakeInfo pBtt InternalLbaSz g ArenaRawSize NextOff;
          (rc, s) = BttZeroMap (pNamespace pBtt) (ArenaOffset + iMapOffset info) 0
                      (unat (gMapSize g div BTT_ALIGNMENT) + 1) s
      in if EFI_ERROR rc then (rc, s)
         else
           let (rc, s) = BttWriteFlogs (pNamespace pBtt) (ArenaOffset + iFlogOffset info)
                           (gExternalNLbas g) (unat (NFree pBtt)) s
           in if EFI_ERROR rc then (rc, s)
              else
                let out = snd (ChecksumOperations (info_bytes info) 4096 4088 True);
                    (rc, s) = WriteNamespaceBytes (pNamespace pBtt) ArenaOffset out BTT_INFO_SIZE s
                in if EFI_ERROR rc then (rc, s)
                   else WriteNamespaceBytes (pNamespace pBtt) (ArenaOffset + iInfoOffset info) out BTT_INFO_SIZE s)"

text \<open>
  The arena loop. It returns \<open>Inl\<close> where the source jumps to \<open>Finish\<close>, and the arena count
  and the total number of blocks otherwise. \<open>ReturnCode\<close> is threaded through, since the jump
  for too few blocks leaves it as the previous arena's last write set it.
\<close>

lemma arena_raw_less:
  assumes "Raw \<ge> BTT_NAMESPACE_MIN_SIZE"
  shows "unat (Raw - (if Raw > BTT_MAX_ARENA_SIZE then BTT_MAX_ARENA_SIZE else Raw)) < unat Raw"
proof (cases "Raw > BTT_MAX_ARENA_SIZE")
  case True
  then have "unat (Raw - BTT_MAX_ARENA_SIZE) = unat Raw - unat BTT_MAX_ARENA_SIZE"
    by (simp add: unat_sub order_less_imp_le)
  with True assms show ?thesis by (simp add: word_less_nat_alt)
next
  case False
  have "0 < unat Raw" using assms by (simp add: word_le_nat_alt)
  with False show ?thesis by simp
qed

function BttLayoutLoop ::
  "btt \<Rightarrow> bool \<Rightarrow> u32 \<Rightarrow> efi_status \<Rightarrow> u64 \<Rightarrow> u8 \<Rightarrow> u64 \<Rightarrow> u64 \<Rightarrow> sys
     \<Rightarrow> (efi_status + u8 \<times> u64) \<times> sys" where
  "BttLayoutLoop pBtt Write InternalLbaSz rc Raw ArenaNumber ArenaOffset TotalNLbas s =
     (if Raw \<ge> BTT_NAMESPACE_MIN_SIZE then
        let ArenaRawSize = (if Raw > BTT_MAX_ARENA_SIZE then BTT_MAX_ARENA_SIZE else Raw);
            Raw' = Raw - ArenaRawSize
        in case BttArenaGeom rc (NFree pBtt) InternalLbaSz ArenaRawSize of
             Inl e \<Rightarrow> (Inl e, s)
           | Inr g \<Rightarrow>
               let Total = TotalNLbas + ucast (gExternalNLbas g)
               in if \<not> Write then
                    BttLayoutLoop pBtt Write InternalLbaSz rc Raw' (ArenaNumber + 1) ArenaOffset Total s
                  else
                    let NextOff = (if Raw' \<ge> BTT_NAMESPACE_MIN_SIZE then BTT_MAX_ARENA_SIZE else 0);
                        (rc, s) = BttWriteArena pBtt InternalLbaSz g ArenaOffset ArenaRawSize NextOff s
                    in if EFI_ERROR rc then (Inl rc, s)
                       else BttLayoutLoop pBtt Write InternalLbaSz rc Raw' (ArenaNumber + 1)
                              (ArenaOffset + NextOff) Total s
      else (Inr (ArenaNumber, TotalNLbas), s))"
  by pat_completeness auto
termination
  by (relation "measure (\<lambda>(_, _, _, _, Raw, _, _, _, _). unat Raw)")
    (use arena_raw_less in auto)

declare BttLayoutLoop.simps [simp del]

definition BttWriteLayout :: "btt \<Rightarrow> bool \<Rightarrow> sys \<Rightarrow> efi_status \<times> btt \<times> sys" where
  "BttWriteLayout pBtt Write s =
     (let rc = EFI_INVALID_PARAMETER
      in if RawSize pBtt < BTT_NAMESPACE_MIN_SIZE then (rc, pBtt, s)
         else if NFree pBtt = 0 then (rc, pBtt, s)
         else
           let (pBtt, s) = (if Write then let (g, s) = GenerateRandomGuid s in (pBtt\<lparr>Uuid := g\<rparr>, s)
                            else (pBtt, s));
               n = ucast (ucast (RawSize pBtt div BTT_MAX_ARENA_SIZE) :: u8);
               pBtt = pBtt\<lparr>NArenas := (if RawSize pBtt mod BTT_MAX_ARENA_SIZE \<ge> BTT_NAMESPACE_MIN_SIZE
                                       then n + 1 else n)\<rparr>;
               InternalLbaSz = BttInternalSize (LbaSize pBtt)
           in if InternalLbaSz < 64 then (rc, pBtt, s)
              else
                let pBtt = pBtt\<lparr>BttInternalLbaSize := InternalLbaSz\<rparr>;
                    (ok, s) = AllocatePool s
                in if \<not> ok then (EFI_OUT_OF_RESOURCES, pBtt, s)
                   else
                     let (ok, s) = AllocatePool s
                     in if \<not> ok then (EFI_OUT_OF_RESOURCES, pBtt, s)
                        else case BttLayoutLoop pBtt Write InternalLbaSz rc (RawSize pBtt) 0
                                    (PrimaryInfoOffset pBtt) 0 s of
                          (Inl e, s) \<Rightarrow> (e, pBtt, s)
                        | (Inr (ArenaNumber, TotalNLbas), s) \<Rightarrow>
                            if NArenas pBtt \<noteq> ucast ArenaNumber then (EFI_ABORTED, pBtt, s)
                            else
                              let pBtt = pBtt\<lparr>NLbas := TotalNLbas\<rparr>;
                                  (_, pBtt, s) = (if Write then BttReadArenas pBtt (NArenas pBtt) s
                                                  else (EFI_SUCCESS, pBtt, s))
                              in (EFI_SUCCESS, pBtt, s))"

section \<open>Loading the layout\<close>

text \<open>
  The scan over the info blocks: \<open>Inl\<close> where the source jumps to \<open>Finish\<close> (with the handle,
  which a missing layout updates), \<open>Inr\<close> with the arena count, the smallest free-block count
  and the number of blocks otherwise.
\<close>

function BttReadLayoutLoop ::
  "btt \<Rightarrow> u64 \<Rightarrow> u64 \<Rightarrow> u32 \<Rightarrow> u32 \<Rightarrow> u64 \<Rightarrow> sys
     \<Rightarrow> (efi_status \<times> btt + u32 \<times> u32 \<times> u64) \<times> sys" where
  "BttReadLayoutLoop pBtt Raw ArenaOffset Arenas_n SmallestNFree TotalNLbas s =
     (if Raw \<ge> BTT_NAMESPACE_MIN_SIZE then
        let Arenas_n = Arenas_n + 1;
            (rc, buf, s) = ReadNamespaceBytes (pNamespace pBtt) ArenaOffset (replicate 4096 0) BTT_INFO_SIZE s
        in if EFI_ERROR rc then (Inl (rc, pBtt), s)
           else
             let pBttInfo = parse_info buf
             in if EFI_ERROR (BttReadInfo pBttInfo (Some pBtt)) then
                  let (rc, pBtt, s) = BttWriteLayout pBtt False s in (Inl (rc, pBtt), s)
                else if iExternalLbaSize pBttInfo \<noteq> LbaSize pBtt then (Inl (EFI_INVALID_PARAMETER, pBtt), s)
                else if iNFree pBttInfo = 0 then (Inl (EFI_INVALID_PARAMETER, pBtt), s)
                else if iExternalNLbas pBttInfo = 0 then (Inl (EFI_INVALID_PARAMETER, pBtt), s)
                else if iNextOffset pBttInfo \<noteq> 0 \<and> iNextOffset pBttInfo \<noteq> BTT_MAX_ARENA_SIZE then
                  (Inl (EFI_INVALID_PARAMETER, pBtt), s)
                else
                  let SmallestNFree = (if iNFree pBttInfo < SmallestNFree then iNFree pBttInfo else SmallestNFree);
                      TotalNLbas = TotalNLbas + ucast (iExternalNLbas pBttInfo);
                      ArenaOffset = ArenaOffset + iNextOffset pBttInfo
                  in if iNextOffset pBttInfo = 0 then (Inr (Arenas_n, SmallestNFree, TotalNLbas), s)
                     else if iNextOffset pBttInfo > Raw then (Inl (EFI_INVALID_PARAMETER, pBtt), s)
                     else BttReadLayoutLoop pBtt (Raw - iNextOffset pBttInfo) ArenaOffset Arenas_n
                            SmallestNFree TotalNLbas s
      else (Inr (Arenas_n, SmallestNFree, TotalNLbas), s))"
  by pat_completeness auto
termination
proof (relation "measure (\<lambda>(_, Raw, _, _, _, _, _). unat Raw)", goal_cases)
  case 1
  then show ?case by simp
next
  case (2 pBtt Raw ArenaOffset Arenas_n SmallestNFree TotalNLbas s)
  then show ?case
    by (auto simp: unat_sub word_le_nat_alt not_less)
qed

declare BttReadLayoutLoop.simps [simp del]

definition BttReadLayout :: "btt \<Rightarrow> sys \<Rightarrow> efi_status \<times> btt \<times> sys" where
  "BttReadLayout pBtt s =
     (let (ok, s) = AllocatePool s
      in if \<not> ok then (EFI_OUT_OF_RESOURCES, pBtt, s)
         else
           let pBtt = pBtt\<lparr>NFree := BTT_DEFAULT_NFREE\<rparr>
           in case BttReadLayoutLoop pBtt (RawSize pBtt) (PrimaryInfoOffset pBtt) 0 0xFFFFFFFF 0 s of
                (Inl (rc, pBtt), s) \<Rightarrow> (rc, pBtt, s)
              | (Inr (Arenas_n, SmallestNFree, TotalNLbas), s) \<Rightarrow>
                  if Arenas_n = 0 then (EFI_ABORTED, pBtt, s)
                  else
                    let pBtt = pBtt\<lparr>NArenas := Arenas_n, NLbas := TotalNLbas\<rparr>;
                        pBtt = (if SmallestNFree < NFree pBtt then pBtt\<lparr>NFree := SmallestNFree\<rparr> else pBtt)
                    in BttReadArenas pBtt Arenas_n s)"

text \<open>\<open>BttInit\<close> returns no handle on failure; on success it also sets the namespace's usable size.\<close>

definition BttInit ::
  "u64 \<Rightarrow> u32 \<Rightarrow> u8 list \<Rightarrow> namespace \<Rightarrow> sys \<Rightarrow> btt option \<times> namespace \<times> sys" where
  "BttInit Raw LbaSz pParentUuid ns s =
     (if Raw < BTT_NAMESPACE_MIN_SIZE then (None, ns, s)
      else
        let (ok, s) = AllocatePool s
        in if \<not> ok then (None, ns, s)
           else
             let pBtt = \<lparr>Laidout = False, NLanes = 0, Uuid = replicate 16 0, ParentUuid = pParentUuid,
                    RawSize = Raw, LbaSize = LbaSz, BttInternalLbaSize = 0, NFree = 0, NLbas = 0,
                    NArenas = 0,
                    PrimaryInfoOffset = (if NsMajor ns = NSINDEX_MAJOR \<and> NsMinor ns = NSINDEX_MINOR_1
                       then BTT_PRIMARY_INFO_BLOCK_OFFSET_1_1 else BTT_PRIMARY_INFO_BLOCK_OFFSET),
                    Arenas = [], pNamespace = ns\<rparr>;
                 (rc, pBtt, s) = BttReadLayout pBtt s
             in if EFI_ERROR rc then (None, ns, s)
                else (Some pBtt, ns\<lparr>UsableSize := NLbas pBtt * ucast (LbaSize pBtt)\<rparr>, s))"

section \<open>Reading and writing blocks\<close>

definition BttZeroBlock :: "btt \<Rightarrow> u8 list \<Rightarrow> u8 list" where
  "BttZeroBlock pBtt pBuffer = patch pBuffer 0 (replicate (unat (LbaSize pBtt)) 0)"

text \<open>
  The arena counter of \<open>BttLbaToArenaLba\<close> is a \<open>UINT8\<close>. It is an index into the arena list here,
  which is the same for fewer than 256 arenas (128 TiB of namespace); the invariant of an opened
  device asks for that.
\<close>

fun arena_walk :: "arena list \<Rightarrow> nat \<Rightarrow> u64 \<Rightarrow> (nat \<times> u64) option" where
  "arena_walk [] Arena Lba = None"
| "arena_walk (a # as) Arena Lba =
     (if Lba < ucast (ExternalNLbas a) then Some (Arena, Lba)
      else arena_walk as (Suc Arena) (Lba - ucast (ExternalNLbas a)))"

definition BttLbaToArenaLba :: "btt \<Rightarrow> u64 \<Rightarrow> efi_status + nat \<times> u32" where
  "BttLbaToArenaLba pBtt Lba =
     (if \<not> Laidout pBtt then Inl EFI_ABORTED
      else case arena_walk (take (unat (NArenas pBtt)) (Arenas pBtt)) 0 Lba of
             None \<Rightarrow> Inl EFI_ABORTED
           | Some (Arena, PreMapLba) \<Rightarrow> Inr (Arena, ucast PreMapLba))"

definition set_arena :: "btt \<Rightarrow> nat \<Rightarrow> arena \<Rightarrow> btt" where
  "set_arena pBtt i a = pBtt\<lparr>Arenas := (Arenas pBtt)[i := a]\<rparr>"

definition set_rtt :: "arena \<Rightarrow> u32 \<Rightarrow> arena" where
  "set_rtt a v = a\<lparr>pRtt := (pRtt a)[0 := v]\<rparr>"

definition MapEntryAddr :: "arena \<Rightarrow> u32 \<Rightarrow> u64" where
  "MapEntryAddr pArena PreMapLba = MapOffset pArena + 64 * ucast (BttGetMapFromLba PreMapLba)"

definition DataBlockAddr :: "arena \<Rightarrow> u32 \<Rightarrow> u64" where
  "DataBlockAddr pArena m =
     DataOffset pArena + ucast (m AND BTT_MAP_ENTRY_LBA_MASK) * ucast (InternalLbaSize pArena)"

text \<open>
  The retry loop of \<open>BttRead\<close>: \<open>Inl\<close> ends the call with a status and a buffer, \<open>Inr\<close> is
  the map entry that did not change between the two reads. The loop re-reads the same map
  line, so with no other writer the second look agrees with the first re-read and the loop
  ends after at most two rounds, which is its termination measure.
\<close>

function BttReadRetry ::
  "btt \<Rightarrow> arena \<Rightarrow> u64 \<Rightarrow> nat \<Rightarrow> u32 \<Rightarrow> u8 list \<Rightarrow> sys
     \<Rightarrow> (efi_status \<times> u8 list + u32) \<times> arena \<times> sys" where
  "BttReadRetry pBtt pArena MapEntryOffset Pos CurrentMap pBuffer s =
     (if MapEntryIsError CurrentMap then (Inl (EFI_ABORTED, pBuffer), pArena, s)
      else if MapEntryIsZeroOrInitial CurrentMap then
        (Inl (EFI_SUCCESS, BttZeroBlock pBtt pBuffer), pArena, s)
      else
        let pArena = set_rtt pArena CurrentMap;
            (rc, buf, s') = ReadNamespaceBytes (pNamespace pBtt) MapEntryOffset (replicate 64 0) 64 s
        in if EFI_ERROR rc then (Inl (rc, pBuffer), set_rtt pArena BTT_MAP_ENTRY_ERROR, s')
           else
             let LatestMap = words32 buf ! Pos
             in if CurrentMap = LatestMap then (Inr CurrentMap, pArena, s')
                else BttReadRetry pBtt pArena MapEntryOffset Pos LatestMap pBuffer s')"
  by pat_completeness auto

termination
proof (relation "measure (\<lambda>(pBtt, pArena, off, Pos, cur, pBuffer, s).
    case ReadNamespaceBytes (pNamespace pBtt) off (replicate 64 0) 64 s of
      (rc, buf, s') \<Rightarrow> if EFI_ERROR rc \<or> words32 buf ! Pos = cur then (0 :: nat) else 1)", goal_cases)
  case 1
  then show ?case by simp
next
  case (2 pBtt pArena off Pos cur pBuffer s a res rc y buf s' latest)
  obtain rc2 buf2 s2 where r2: "ReadNamespaceBytes (pNamespace pBtt) off (replicate 64 0) 64 s' = (rc2, buf2, s2)"
    by (metis prod_cases3)
  from 2 have r1: "ReadNamespaceBytes (pNamespace pBtt) off (replicate 64 0) 64 s = (rc, buf, s')"
    and ok: "rc = EFI_SUCCESS" and ne: "cur \<noteq> words32 buf ! Pos" and latest: "latest = words32 buf ! Pos"
    by auto
  from r1 r2 ok have "rc2 = EFI_SUCCESS \<Longrightarrow> buf2 = buf"
    using ReadNamespaceBytes_frame [OF r1] ReadNamespaceBytes_frame [OF r2] by simp
  with r1 r2 ok ne latest show ?case by auto
qed

declare BttReadRetry.simps [simp del]

definition BttRead ::
  "btt \<Rightarrow> u64 \<Rightarrow> u8 list \<Rightarrow> sys \<Rightarrow> efi_status \<times> u8 list \<times> btt \<times> sys" where
  "BttRead pBtt Lba pBuffer s =
     (let rc = IsLbaValid pBtt Lba
      in if EFI_ERROR rc then (rc, pBuffer, pBtt, s)
         else if \<not> Laidout pBtt then (EFI_SUCCESS, BttZeroBlock pBtt pBuffer, pBtt, s)
         else case BttLbaToArenaLba pBtt Lba of
           Inl e \<Rightarrow> (e, pBuffer, pBtt, s)
         | Inr (i, PreMapLba) \<Rightarrow>
             let pArena = Arenas pBtt ! i;
                 MapEntryOffset = MapEntryAddr pArena PreMapLba;
                 (rc, buf, s) = ReadNamespaceBytes (pNamespace pBtt) MapEntryOffset (replicate 64 0) 64 s
             in if EFI_ERROR rc then (rc, pBuffer, pBtt, s)
                else
                  let Pos = unat (BttGetPositionInMapFromLba PreMapLba)
                  in case BttReadRetry pBtt pArena MapEntryOffset Pos (words32 buf ! Pos) pBuffer s of
                    (Inl (rc, out), pArena, s) \<Rightarrow> (rc, out, set_arena pBtt i pArena, s)
                  | (Inr CurrentMap, pArena, s) \<Rightarrow>
                      let (rc, out, s) = ReadNamespaceBytes (pNamespace pBtt)
                             (DataBlockAddr pArena CurrentMap) pBuffer (ucast (LbaSize pBtt)) s
                      in (rc, out, set_arena pBtt i (set_rtt pArena BTT_MAP_ENTRY_ERROR), s))"

definition BttMapLock :: "btt \<Rightarrow> arena \<Rightarrow> u32 \<Rightarrow> sys \<Rightarrow> efi_status \<times> u32 list \<times> sys" where
  "BttMapLock pBtt pArena PreMapLba s =
     (let MapPosition = unat (BttGetPositionInMapFromLba PreMapLba);
          (rc, buf, s) = ReadNamespaceBytes (pNamespace pBtt) (MapEntryAddr pArena PreMapLba) (replicate 64 0) 64 s;
          MapEntries = words32 buf
      in if EFI_ERROR rc then (rc, MapEntries, s)
         else (EFI_SUCCESS,
               (if MapEntryIsInitial (MapEntries ! MapPosition)
                then MapEntries[MapPosition := PreMapLba OR BTT_MAP_ENTRY_NORMAL] else MapEntries), s))"

definition BttMapUnlock :: "btt \<Rightarrow> arena \<Rightarrow> u32 list \<Rightarrow> u32 \<Rightarrow> sys \<Rightarrow> efi_status \<times> sys" where
  "BttMapUnlock pBtt pArena MapEntries PreMapLba s =
     WriteNamespaceBytes (pNamespace pBtt) (MapEntryAddr pArena PreMapLba) (map_bytes MapEntries) 64 s"

text \<open>
  The write path once arena and pre-map LBA are known. \<open>None\<close>: some lane of the read
  tracking table holds the free block, and the wait loop spins on it forever, since no other
  processor runs the driver.
\<close>

definition BttWriteToArena ::
  "btt \<Rightarrow> nat \<Rightarrow> u32 \<Rightarrow> u8 list \<Rightarrow> sys \<Rightarrow> (efi_status \<times> btt \<times> sys) option" where
  "BttWriteToArena pBtt i PreMapLba pBuffer s =
     (let pArena = Arenas pBtt ! i
      in if Flags pArena AND BTTINFO_FLAG_ERROR_MASK \<noteq> 0 then Some (EFI_ABORTED, pBtt, s)
         else
           let fr = pFlogs pArena ! 0;
               CurrentFlogIndex = 1 - Next fr;
               FreeMap = (fOldMap (flog_at (FlogPair fr) CurrentFlogIndex) AND BTT_MAP_ENTRY_LBA_MASK)
                          OR BTT_MAP_ENTRY_NORMAL
           in if list_ex (\<lambda>Index. pRtt pArena ! Index = FreeMap) [0..<unat (NLanes pBtt)] then None
              else
                let (rc, s) = WriteNamespaceBytes (pNamespace pBtt) (DataBlockAddr pArena FreeMap)
                                pBuffer (ucast (LbaSize pBtt)) s
                in if EFI_ERROR rc then Some (rc, pBtt, s)
                   else
                     let (rc, MapEntry, s) = BttMapLock pBtt pArena PreMapLba s
                     in if EFI_ERROR rc then Some (rc, pBtt, s)
                        else
                          let PosInEntry = unat (BttGetPositionInMapFromLba PreMapLba);
                              OldMap = MapEntry ! PosInEntry;
                              (rc, pArena, s) = BttFlogUpdate pBtt pArena PreMapLba OldMap FreeMap s
                          in if EFI_ERROR rc then Some (rc, set_arena pBtt i pArena, s)
                             else
                               let MapEntry = MapEntry[PosInEntry := FreeMap];
                                   (rc, s) = BttMapUnlock pBtt pArena MapEntry PreMapLba s
                               in if EFI_ERROR rc then
                                    let (_, pArena, s) = BttSetArenaError pBtt pArena s
                                    in Some (rc, set_arena pBtt i pArena, s)
                                  else Some (EFI_SUCCESS, set_arena pBtt i pArena, s))"

definition BttWrite :: "btt \<Rightarrow> u64 \<Rightarrow> u8 list \<Rightarrow> sys \<Rightarrow> (efi_status \<times> btt \<times> sys) option" where
  "BttWrite pBtt Lba pBuffer s =
     (let rc = IsLbaValid pBtt Lba
      in if EFI_ERROR rc then Some (rc, pBtt, s)
         else
           let (rc, pBtt, s) = (if \<not> Laidout pBtt then BttWriteLayout pBtt True s else (EFI_SUCCESS, pBtt, s))
           in if EFI_ERROR rc then Some (rc, pBtt, s)
              else case BttLbaToArenaLba pBtt Lba of
                     Inl e \<Rightarrow> Some (e, pBtt, s)
                   | Inr (i, PreMapLba) \<Rightarrow> BttWriteToArena pBtt i PreMapLba pBuffer s)"

section \<open>Consistency check\<close>

text \<open>
  \<open>BttCheckArena\<close>: the set of blocks seen so far stands for the bitmap. The two inner loops
  visit the entries of a 4 KiB map block in order up to the last external LBA; the jump for an
  entry out of bounds leaves \<open>ReturnCode\<close> as the preceding successful read set it.
\<close>

fun BttCheckEntries :: "u32 \<Rightarrow> nat \<Rightarrow> u32 list \<Rightarrow> nat set \<Rightarrow> efi_status + nat set" where
  "BttCheckEntries Ext n [] seen = Inr seen"
| "BttCheckEntries Ext n (e # es) seen =
     (let MapEntry = (if MapEntryIsInitial e then of_nat n else e AND BTT_MAP_ENTRY_LBA_MASK)
      in if MapEntry \<ge> Ext then Inl EFI_SUCCESS
         else if unat MapEntry \<in> seen then Inl EFI_ABORTED
         else BttCheckEntries Ext (Suc n) es (insert (unat MapEntry) seen))"

fun BttCheckMap ::
  "btt \<Rightarrow> arena \<Rightarrow> nat \<Rightarrow> nat \<Rightarrow> nat set \<Rightarrow> sys \<Rightarrow> (efi_status + nat set) \<times> sys" where
  "BttCheckMap pBtt pArena MapBlock 0 seen s = (Inr seen, s)"
| "BttCheckMap pBtt pArena MapBlock (Suc n) seen s =
     (let MapsCount = unat (BttGetMapFromLba (ExternalNLbas pArena));
          MapEndPosition = unat (BttGetPositionInMapFromLba (ExternalNLbas pArena));
          (rc, buf, s) = ReadNamespaceBytes (pNamespace pBtt)
             (MapOffset pArena + ucast (of_nat MapBlock * BTT_ALIGNMENT :: u32)) (replicate 4096 0) BTT_ALIGNMENT s
      in if EFI_ERROR rc then (Inl rc, s)
         else if MapsCount > MapBlock * 64 then
           let RemainingMaps = MapsCount - MapBlock * 64;
               es = take (RemainingMaps * 16 + MapEndPosition) (words32 buf)
           in case BttCheckEntries (ExternalNLbas pArena) (MapBlock * 1024) es seen of
                Inl rc \<Rightarrow> (Inl rc, s)
              | Inr seen \<Rightarrow> BttCheckMap pBtt pArena (Suc MapBlock) n seen s
         else (Inr seen, s))"

fun BttCheckFlogs :: "flog_runtime list \<Rightarrow> nat set \<Rightarrow> efi_status + nat set" where
  "BttCheckFlogs [] seen = Inr seen"
| "BttCheckFlogs (fr # frs) seen =
     (let E = unat (fOldMap (flog_at (FlogPair fr) (1 - Next fr)) AND BTT_MAP_ENTRY_LBA_MASK)
      in if E \<in> seen then Inl EFI_ABORTED else BttCheckFlogs frs (insert E seen))"

definition BttCheckArena :: "btt \<Rightarrow> arena \<Rightarrow> sys \<Rightarrow> efi_status \<times> sys" where
  "BttCheckArena pBtt pArena s =
     (let (ok, s) = AllocatePool s
      in if \<not> ok then (EFI_OUT_OF_RESOURCES, s)
         else
           let (ok, s) = AllocatePool s
           in if \<not> ok then (EFI_OUT_OF_RESOURCES, s)
              else
                let MapSize = ROUNDUP (ExternalNLbas pArena * BTT_MAP_ENTRY_SIZE) BTT_ALIGNMENT
                in case BttCheckMap pBtt pArena 0 (unat (MapSize div BTT_ALIGNMENT) + 1) {} s of
                     (Inl rc, s) \<Rightarrow> (rc, s)
                   | (Inr seen, s) \<Rightarrow>
                       (case BttCheckFlogs (take (unat (NFree pBtt)) (pFlogs pArena)) seen of
                          Inl rc \<Rightarrow> (rc, s)
                        | Inr seen \<Rightarrow>
                            if list_all (\<lambda>i. i \<in> seen) [0..<unat (InternalNLbas pArena)]
                            then (EFI_SUCCESS, s) else (EFI_ABORTED, s)))"

fun BttCheckLoop :: "btt \<Rightarrow> arena \<Rightarrow> nat \<Rightarrow> sys \<Rightarrow> efi_status \<times> sys" where
  "BttCheckLoop pBtt pArena 0 s = (EFI_SUCCESS, s)"
| "BttCheckLoop pBtt pArena (Suc n) s =
     (let (rc, s) = BttCheckArena pBtt pArena s
      in if EFI_ERROR rc then (rc, s) else BttCheckLoop pBtt pArena n s)"

text \<open>\<open>BttCheck\<close> runs the check once per arena, each time on the first one.\<close>

definition BttCheck :: "btt \<Rightarrow> sys \<Rightarrow> efi_status \<times> sys" where
  "BttCheck pBtt s =
     (if \<not> Laidout pBtt then (EFI_SUCCESS, s)
      else BttCheckLoop pBtt (Arenas pBtt ! 0) (unat (NArenas pBtt)) s)"

end
