(* ===== verification/Seq_Pair.thy ===== *)
theory Seq_Pair
  imports Prelude
begin

text \<open>
  The two-copy protocol that the driver uses for metadata it must replace atomically: two
  slots, each with a cyclic sequence number; the newer number marks the current slot; an
  update goes to the other slot under the next number. Flog pairs of the block translation
  table and the index blocks of the label storage area both follow it.
\<close>

locale seq_pair =
  fixes select :: "u32 \<Rightarrow> u32 \<Rightarrow> nat option"
    and bump :: "u32 \<Rightarrow> u32"
    and valid :: "u32 \<Rightarrow> bool"
  assumes bump_valid: "valid q \<Longrightarrow> valid (bump q)"
    and bump_second: "valid q \<Longrightarrow> select q (bump q) = Some 1"
    and bump_first: "valid q \<Longrightarrow> select (bump q) q = Some 0"
begin

text \<open>One update: slot \<open>1 - i\<close> receives the successor of the current slot's number.\<close>

definition update :: "u32 \<times> u32 \<Rightarrow> u32 \<times> u32" where
  "update qs = (case qs of (q0, q1) \<Rightarrow>
     if select q0 q1 = Some 0 then (q0, bump q0) else (bump q1, q1))"

definition current_valid :: "u32 \<times> u32 \<Rightarrow> bool" where
  "current_valid qs = (case qs of (q0, q1) \<Rightarrow>
     (select q0 q1 = Some 0 \<and> valid q0) \<or> (select q0 q1 = Some 1 \<and> valid q1))"

lemma update_switches:
  assumes "current_valid (q0, q1)"
  shows "select q0 q1 = Some 0 \<Longrightarrow> case_prod select (update (q0, q1)) = Some 1"
    and "select q0 q1 = Some 1 \<Longrightarrow> case_prod select (update (q0, q1)) = Some 0"
    and "current_valid (update (q0, q1))"
  using assms by (auto simp: update_def current_valid_def bump_valid bump_first bump_second)

text \<open>However many updates follow each other, the slot written last is the current one.\<close>

lemma updates_alternate:
  assumes "current_valid qs" and "case_prod select qs = Some i"
  shows "case_prod select ((update ^^ n) qs) = Some (if even n then i else 1 - i)
       \<and> current_valid ((update ^^ n) qs)"
proof (induction n)
  case 0
  with assms show ?case by simp
next
  case (Suc n)
  obtain q0 q1 where q: "(update ^^ n) qs = (q0, q1)" by fastforce
  have "i = 0 \<or> i = 1"
    using assms by (cases qs) (auto simp: current_valid_def)
  with Suc q update_switches [of q0 q1] show ?case by (auto split: if_splits)
qed

end

end
