(* ===== verification/Btt_Correct.thy ===== *)
theory Btt_Correct
  imports Btt Seq_Pair "HOL-Library.Multiset"
begin

text \<open>
  Correctness of the run-time block translation table: the arena invariant, the abstract block
  device it implements, and the refinement of \<open>BttRead\<close> and \<open>BttWrite\<close> to that device.
\<close>

section \<open>Map entries\<close>

lemma entry_masks: "BTT_MAP_ENTRY_LBA_MASK = mask 30" "BTT_MAP_ENTRY_NORMAL = NOT (mask 30)"
  by (simp_all add: mask_eq_exp_minus_1)

lemma normal_flags: "(x OR BTT_MAP_ENTRY_NORMAL) AND NOT BTT_MAP_ENTRY_LBA_MASK = BTT_MAP_ENTRY_NORMAL"
  unfolding entry_masks by (rule bit_word_eqI) (auto simp: bit_simps)

lemma normal_entry [simp]:
  "\<not> MapEntryIsInitial (x OR BTT_MAP_ENTRY_NORMAL)"
  "\<not> MapEntryIsError (x OR BTT_MAP_ENTRY_NORMAL)"
  "\<not> MapEntryIsZeroOrInitial (x OR BTT_MAP_ENTRY_NORMAL)"
  by (simp_all only: MapEntryIsInitial_def MapEntryIsError_def MapEntryIsZeroOrInitial_def normal_flags)
    simp_all

lemma normal_mask [simp]:
  "(x OR BTT_MAP_ENTRY_NORMAL) AND BTT_MAP_ENTRY_LBA_MASK = x AND BTT_MAP_ENTRY_LBA_MASK"
  unfolding entry_masks by (rule bit_word_eqI) (auto simp: bit_simps)

lemma mask_mask [simp]:
  "x AND BTT_MAP_ENTRY_LBA_MASK AND BTT_MAP_ENTRY_LBA_MASK = x AND BTT_MAP_ENTRY_LBA_MASK" for x :: u32
  by (simp add: and.assoc)

lemma mask_small: "unat x < 2 ^ 30 \<Longrightarrow> x AND BTT_MAP_ENTRY_LBA_MASK = x"
  unfolding entry_masks
  by (simp add: take_bit_eq_mask [symmetric] word_unat_eq_iff unsigned_take_bit_eq take_bit_nat_eq_self)

section \<open>Addresses\<close>

lemma map_number_position:
  "unat (BttGetMapFromLba l) = unat l div 16" "unat (BttGetPositionInMapFromLba l) = unat l mod 16"
proof -
  show "unat (BttGetMapFromLba l) = unat l div 16"
    by (simp add: BttGetMapFromLba_def unat_div)
  have "unat (l mod 16) = unat l mod 16" by (simp add: unat_mod)
  moreover have "\<dots> < 2 ^ 8" by (rule order_less_le_trans [of _ 16]) simp_all
  ultimately show "unat (BttGetPositionInMapFromLba l) = unat l mod 16"
    by (simp add: BttGetPositionInMapFromLba_def unsigned_ucast_eq unsigned_take_bit_eq take_bit_nat_eq_self)
qed

lemma map_line_split: "64 * (l div 16) + 4 * (l mod 16) = 4 * (l :: nat)"
  by presburger

section \<open>Abstract state and invariant\<close>

text \<open>
  \<open>map_entry\<close> is the map word of a pre-map LBA, read from the namespace contents;
  \<open>norm_entry\<close> gives an untouched entry its identity meaning; \<open>blk\<close> is the block an LBA
  maps to and \<open>frees\<close> are the blocks that the flog holds as free.
\<close>

definition map_entry :: "memory \<Rightarrow> arena \<Rightarrow> nat \<Rightarrow> u32" where
  "map_entry c a l = of_le (mem_read c (unat (MapOffset a) + 4 * l) 4)"

definition norm_entry :: "nat \<Rightarrow> u32 \<Rightarrow> u32" where
  "norm_entry l e = (if MapEntryIsInitial e then of_nat l OR BTT_MAP_ENTRY_NORMAL else e)"

definition blk :: "memory \<Rightarrow> arena \<Rightarrow> nat \<Rightarrow> nat" where
  "blk c a l = unat (norm_entry l (map_entry c a l) AND BTT_MAP_ENTRY_LBA_MASK)"

definition cur_flog :: "flog_runtime \<Rightarrow> btt_flog" where
  "cur_flog fr = flog_at (FlogPair fr) (1 - Next fr)"

definition free_of :: "flog_runtime \<Rightarrow> nat" where
  "free_of fr = unat (fOldMap (cur_flog fr) AND BTT_MAP_ENTRY_LBA_MASK)"

definition all_blocks :: "memory \<Rightarrow> arena \<Rightarrow> nat list" where
  "all_blocks c a = map (blk c a) [0..<unat (ExternalNLbas a)] @ map free_of (pFlogs a)"

definition arena_end :: "arena \<Rightarrow> nat" where
  "arena_end a = unat (FlogOffset a) + 64 * length (pFlogs a)"

text \<open>Geometry: info block, data area, map and flog follow each other without overlap.\<close>

definition arena_wf :: "btt \<Rightarrow> arena \<Rightarrow> bool" where
  "arena_wf b a \<longleftrightarrow>
     unat (StartOffset a) + 4096 \<le> unat (DataOffset a)
   \<and> unat (DataOffset a) + unat (InternalNLbas a) * unat (InternalLbaSize a) \<le> unat (MapOffset a)
   \<and> unat (MapOffset a) + 64 * ((unat (ExternalNLbas a) + 15) div 16) \<le> unat (FlogOffset a)
   \<and> unat (SpaNamespaceBase (pNamespace b)) + arena_end a < 2 ^ 64
   \<and> unat (LbaSize b) \<le> unat (InternalLbaSize a)
   \<and> unat (InternalNLbas a) < 2 ^ 30
   \<and> length (pFlogs a) = unat (NFree b) \<and> 0 < unat (NFree b)
   \<and> pRtt a \<noteq> [] \<and> pRtt a ! 0 = BTT_MAP_ENTRY_ERROR"

text \<open>
  The run-time copy of the first flog pair, the one the write path uses, agrees with the
  media, its sequence numbers single out the current half, and that half names a completed
  map update.
\<close>

definition flog_synced :: "memory \<Rightarrow> arena \<Rightarrow> bool" where
  "flog_synced c a \<longleftrightarrow>
     (let fr = pFlogs a ! 0; f = cur_flog fr
      in Entry fr = FlogOffset a
       \<and> (Next fr = 0 \<or> Next fr = 1)
       \<and> parse_flog_pair (mem_read c (unat (FlogOffset a)) 64) = FlogPair fr
       \<and> FlogSelect (fSeq (flog0 (FlogPair fr))) (fSeq (flog1 (FlogPair fr))) = Some (1 - Next fr)
       \<and> fSeq f \<in> {1, 2, 3}
       \<and> unat (fLba (flog0 (FlogPair fr))) < unat (ExternalNLbas a)
       \<and> unat (fLba (flog1 (FlogPair fr))) < unat (ExternalNLbas a)
       \<and> (fOldMap f = fNewMap f \<or> map_entry c a (unat (fLba f)) = fNewMap f))"

definition arena_inv :: "btt \<Rightarrow> memory \<Rightarrow> arena \<Rightarrow> bool" where
  "arena_inv b c a \<longleftrightarrow>
     arena_wf b a \<and> flog_synced c a
   \<and> distinct (all_blocks c a) \<and> set (all_blocks c a) \<subseteq> {..<unat (InternalNLbas a)}"

text \<open>What the device promises to return for an LBA of an arena; \<open>None\<close> is a poisoned block.\<close>

definition data_block :: "btt \<Rightarrow> memory \<Rightarrow> arena \<Rightarrow> nat \<Rightarrow> u8 list" where
  "data_block b c a m =
     mem_read c (unat (DataOffset a) + m * unat (InternalLbaSize a)) (unat (LbaSize b))"

definition arena_abs :: "btt \<Rightarrow> memory \<Rightarrow> arena \<Rightarrow> nat \<Rightarrow> u8 list option" where
  "arena_abs b c a l =
     (let e = map_entry c a l
      in if MapEntryIsError e then None
         else if MapEntryIsZeroOrInitial e then Some (replicate (unat (LbaSize b)) 0)
         else Some (data_block b c a (unat (e AND BTT_MAP_ENTRY_LBA_MASK))))"

section \<open>Addresses stay inside the arena\<close>

lemma arena_wf_map_addr:
  assumes "arena_wf b a" and "unat l < unat (ExternalNLbas a)"
  shows "unat (MapEntryAddr a l) = unat (MapOffset a) + 64 * (unat l div 16)"
    and "unat (MapEntryAddr a l) + 64 \<le> unat (FlogOffset a)"
    and "unat (MapEntryAddr a l) + 4 * (unat l mod 16) = unat (MapOffset a) + 4 * unat l"
    and "ns_fits (pNamespace b) (MapEntryAddr a l) 64"
proof -
  have le: "unat l div 16 + 1 \<le> (unat (ExternalNLbas a) + 15) div 16"
    using assms(2) by linarith
  have m: "unat (64 * ucast (BttGetMapFromLba l) :: u64) = 64 * (unat l div 16)"
    using unat_bound [of l] by (subst unat_times_nowrap) (auto simp: map_number_position)
  have fl: "unat (MapOffset a) + 64 * (unat l div 16) + 64 \<le> unat (FlogOffset a)"
    using assms(1) le unfolding arena_wf_def by linarith
  then show e: "unat (MapEntryAddr a l) = unat (MapOffset a) + 64 * (unat l div 16)"
    using unat_bound [of "FlogOffset a"] unfolding MapEntryAddr_def
    by (subst unat_plus_nowrap) (auto simp: m)
  from fl e show f: "unat (MapEntryAddr a l) + 64 \<le> unat (FlogOffset a)" by simp
  show "unat (MapEntryAddr a l) + 4 * (unat l mod 16) = unat (MapOffset a) + 4 * unat l"
    using e map_line_split [of "unat l"] by linarith
  show "ns_fits (pNamespace b) (MapEntryAddr a l) 64"
    using f assms(1) by (auto simp: ns_fits_def arena_wf_def arena_end_def)
qed

lemma arena_wf_data_addr:
  assumes wf: "arena_wf b a" and m: "unat (m AND BTT_MAP_ENTRY_LBA_MASK) < unat (InternalNLbas a)"
  defines "k \<equiv> unat (m AND BTT_MAP_ENTRY_LBA_MASK)"
  shows "unat (DataBlockAddr a m) = unat (DataOffset a) + k * unat (InternalLbaSize a)"
    and "unat (DataOffset a) + k * unat (InternalLbaSize a) + unat (InternalLbaSize a) \<le> unat (MapOffset a)"
    and "ns_fits (pNamespace b) (DataBlockAddr a m) (unat (LbaSize b))"
proof -
  from m have "k + 1 \<le> unat (InternalNLbas a)" by (simp add: k_def)
  then have "(k + 1) * unat (InternalLbaSize a) \<le> unat (InternalNLbas a) * unat (InternalLbaSize a)"
    by (rule mult_le_mono1)
  with wf show b: "unat (DataOffset a) + k * unat (InternalLbaSize a) + unat (InternalLbaSize a) \<le> unat (MapOffset a)"
    unfolding arena_wf_def by (simp add: algebra_simps)
  have "k * unat (InternalLbaSize a) < 2 ^ 64"
    using b unat_bound [of "MapOffset a"] by simp
  then have p: "unat (ucast (m AND BTT_MAP_ENTRY_LBA_MASK) * ucast (InternalLbaSize a) :: u64) = k * unat (InternalLbaSize a)"
    by (subst unat_times_nowrap) (auto simp: k_def)
  show a: "unat (DataBlockAddr a m) = unat (DataOffset a) + k * unat (InternalLbaSize a)"
    using b unat_bound [of "MapOffset a"] unfolding DataBlockAddr_def
    by (subst unat_plus_nowrap) (auto simp: p)
  show "ns_fits (pNamespace b) (DataBlockAddr a m) (unat (LbaSize b))"
    using wf a b unat_bound [of "LbaSize b"] by (auto simp: ns_fits_def arena_wf_def arena_end_def)
qed

section \<open>The whole device\<close>

definition btt_inv :: "btt \<Rightarrow> sys \<Rightarrow> bool" where
  "btt_inv b s \<longleftrightarrow>
     Laidout b \<and> NLanes b = 0 \<and> ns_ready (pNamespace b) s
   \<and> length (Arenas b) = unat (NArenas b) \<and> unat (NArenas b) < 256
   \<and> (\<forall>a \<in> set (Arenas b). arena_inv b (ns_content (pNamespace b) s) a)
   \<and> sorted_wrt (\<lambda>a a'. arena_end a \<le> unat (StartOffset a')) (Arenas b)
   \<and> unat (NLbas b) = (\<Sum>a\<leftarrow>Arenas b. unat (ExternalNLbas a))"

definition btt_abs :: "btt \<Rightarrow> sys \<Rightarrow> u64 \<Rightarrow> u8 list option" where
  "btt_abs b s Lba =
     (case arena_walk (Arenas b) 0 Lba of
        None \<Rightarrow> None
      | Some (i, p) \<Rightarrow> arena_abs b (ns_content (pNamespace b) s) (Arenas b ! i) (unat p))"

lemma arena_walk_found:
  "unat Lba < (\<Sum>a\<leftarrow>as. unat (ExternalNLbas a)) \<Longrightarrow>
     \<exists>i p. arena_walk as k Lba = Some (k + i, p) \<and> i < length as \<and> unat p < unat (ExternalNLbas (as ! i))
       \<and> unat Lba = (\<Sum>a\<leftarrow>take i as. unat (ExternalNLbas a)) + unat p"
proof (induction as arbitrary: k Lba)
  case Nil
  then show ?case by simp
next
  case (Cons a as)
  show ?case
  proof (cases "Lba < ucast (ExternalNLbas a)")
    case True
    then show ?thesis
      by (intro exI [of _ 0] exI [of _ Lba]) (simp add: word_less_nat_alt)
  next
    case False
    then have le: "unat (ExternalNLbas a) \<le> unat Lba" by (simp add: word_less_nat_alt)
    then have sub: "unat (Lba - ucast (ExternalNLbas a)) = unat Lba - unat (ExternalNLbas a)"
      by (simp add: unat_sub word_le_nat_alt)
    have "unat (Lba - ucast (ExternalNLbas a)) < (\<Sum>a\<leftarrow>as. unat (ExternalNLbas a))"
      using Cons.prems le by (simp add: sub)
    from Cons.IH [OF this, of "Suc k"] obtain i p where
      "arena_walk as (Suc k) (Lba - ucast (ExternalNLbas a)) = Some (Suc k + i, p)" "i < length as"
      "unat p < unat (ExternalNLbas (as ! i))"
      "unat Lba - unat (ExternalNLbas a) = (\<Sum>a\<leftarrow>take i as. unat (ExternalNLbas a)) + unat p"
      by (auto simp: sub)
    with False le show ?thesis
      by (intro exI [of _ "Suc i"] exI [of _ p]) simp
  qed
qed

lemma arena_walk_cong:
  "map ExternalNLbas as = map ExternalNLbas as' \<Longrightarrow> arena_walk as k Lba = arena_walk as' k Lba"
proof (induction as arbitrary: as' k Lba)
  case (Cons a as)
  then show ?case by (cases as') auto
qed simp

lemma BttLbaToArenaLba_found:
  assumes "btt_inv b s" and "Lba < NLbas b"
  obtains i p where "BttLbaToArenaLba b Lba = Inr (i, p)"
    and "arena_walk (Arenas b) 0 Lba = Some (i, ucast p)"
    and "i < length (Arenas b)" and "unat p < unat (ExternalNLbas (Arenas b ! i))"
proof -
  from assms obtain i q where w: "arena_walk (Arenas b) 0 Lba = Some (i, q)" "i < length (Arenas b)"
      "unat q < unat (ExternalNLbas (Arenas b ! i))"
    using arena_walk_found [of Lba "Arenas b" 0] by (auto simp: btt_inv_def word_less_nat_alt)
  have "unat q < 2 ^ 32" using w(3) unat_bound [of "ExternalNLbas (Arenas b ! i)"] by simp
  then have q: "unat (ucast q :: u32) = unat q" "ucast (ucast q :: u32) = q"
    by (simp_all add: unat_len32 word_unat_eq_iff)
  show ?thesis
    using assms w q by (intro that [of i "ucast q"]) (simp_all add: BttLbaToArenaLba_def btt_inv_def)
qed

section \<open>Reading\<close>

lemma read_map_line:
  assumes "arena_wf b a" and "unat l < unat (ExternalNLbas a)" and "ns_ready (pNamespace b) s"
  defines "c \<equiv> ns_content (pNamespace b) s"
  shows "ReadNamespaceBytes (pNamespace b) (MapEntryAddr a l) (replicate 64 0) 64 s =
           (EFI_SUCCESS, mem_read c (unat (MapEntryAddr a l)) 64, s)"
    and "words32 (mem_read c (unat (MapEntryAddr a l)) 64) ! unat (BttGetPositionInMapFromLba l)
           = map_entry c a (unat l)"
proof -
  show "ReadNamespaceBytes (pNamespace b) (MapEntryAddr a l) (replicate 64 0) 64 s =
           (EFI_SUCCESS, mem_read c (unat (MapEntryAddr a l)) 64, s)"
    using assms arena_wf_map_addr(4) [OF assms(1,2)] by (simp add: ReadNamespaceBytes_ok)
  have "4 * (unat l mod 16) + 4 \<le> 64" by simp
  then show "words32 (mem_read c (unat (MapEntryAddr a l)) 64) ! unat (BttGetPositionInMapFromLba l)
           = map_entry c a (unat l)"
    using arena_wf_map_addr(3) [OF assms(1,2)]
    by (simp add: map_number_position words32_nth mem_read_sub map_entry_def)
qed

lemma blk_of_entry:
  "\<not> MapEntryIsInitial e \<Longrightarrow> e = map_entry c a l \<Longrightarrow> blk c a l = unat (e AND BTT_MAP_ENTRY_LBA_MASK)"
  by (simp add: blk_def norm_entry_def)

lemma arena_inv_blk:
  "arena_inv b c a \<Longrightarrow> l < unat (ExternalNLbas a) \<Longrightarrow> blk c a l < unat (InternalNLbas a)"
  by (simp add: arena_inv_def all_blocks_def image_subset_iff)

lemma BttReadRetry_stable:
  assumes "arena_wf b a" and "unat l < unat (ExternalNLbas a)" and "ns_ready (pNamespace b) s"
  defines "e \<equiv> map_entry (ns_content (pNamespace b) s) a (unat l)"
  shows "BttReadRetry b a (MapEntryAddr a l) (unat (BttGetPositionInMapFromLba l)) e buf s =
           (if MapEntryIsError e then (Inl (EFI_ABORTED, buf), a, s)
            else if MapEntryIsZeroOrInitial e then (Inl (EFI_SUCCESS, BttZeroBlock b buf), a, s)
            else (Inr e, set_rtt a e, s))"
  using read_map_line [OF assms(1-3)]
  by (subst BttReadRetry.simps) (simp add: e_def)

lemma set_rtt_id: "arena_wf b a \<Longrightarrow> set_rtt (set_rtt a e) BTT_MAP_ENTRY_ERROR = a"
proof -
  assume "arena_wf b a"
  then have "(pRtt a)[0 := BTT_MAP_ENTRY_ERROR] = pRtt a"
    using list_update_id [of "pRtt a" 0] by (simp add: arena_wf_def)
  then show ?thesis by (simp add: set_rtt_def)
qed

lemma set_arena_rtt_id:
  "arena_wf b (Arenas b ! i) \<Longrightarrow>
     set_arena b i (set_rtt (set_rtt (Arenas b ! i) e) BTT_MAP_ENTRY_ERROR) = b"
  by (simp add: set_arena_def set_rtt_id)

lemma BttRead_refines:
  assumes inv: "btt_inv b s" and lba: "Lba < NLbas b" and buf: "length buf = unat (LbaSize b)"
  shows "BttRead b Lba buf s =
           (case btt_abs b s Lba of
              None \<Rightarrow> (EFI_ABORTED, buf, b, s)
            | Some d \<Rightarrow> (EFI_SUCCESS, d, b, s))"
proof -
  obtain i p where walk: "BttLbaToArenaLba b Lba = Inr (i, p)"
      "arena_walk (Arenas b) 0 Lba = Some (i, ucast p)" "i < length (Arenas b)"
      "unat p < unat (ExternalNLbas (Arenas b ! i))"
    using BttLbaToArenaLba_found [OF inv lba] by metis
  define a where "a = Arenas b ! i"
  define c where "c = ns_content (pNamespace b) s"
  define e where "e = map_entry c a (unat p)"
  have p: "unat p < unat (ExternalNLbas a)" using walk by (simp add: a_def)
  have ainv: "arena_inv b c a" and ready: "ns_ready (pNamespace b) s" and lo: "Laidout b"
    using inv walk by (auto simp: btt_inv_def a_def c_def)
  then have wf: "arena_wf b a" by (simp add: arena_inv_def)
  note rd = read_map_line [OF wf p ready, folded c_def, folded e_def]
  note retry = BttReadRetry_stable [OF wf p ready, folded c_def, folded e_def]
  have zero: "BttZeroBlock b buf = replicate (unat (LbaSize b)) 0"
    using buf by (simp add: BttZeroBlock_def patch_def)
  have id: "set_arena b i a = b" by (simp add: set_arena_def a_def)
  have valid: "IsLbaValid b Lba = EFI_SUCCESS"
    using lba by (simp add: IsLbaValid_def)
  show ?thesis
  proof (cases "MapEntryIsError e \<or> MapEntryIsZeroOrInitial e")
    case True
    then show ?thesis
      using valid lo walk rd retry id zero
      by (auto simp: BttRead_def btt_abs_def arena_abs_def Let_def e_def c_def a_def)
  next
    case False
    then have ni: "\<not> MapEntryIsInitial e"
      by (auto simp: MapEntryIsZeroOrInitial_def MapEntryIsInitial_def)
    then have m: "unat (e AND BTT_MAP_ENTRY_LBA_MASK) < unat (InternalNLbas a)"
      using arena_inv_blk [OF ainv p] blk_of_entry [OF ni, of c a "unat p"] by (simp add: e_def)
    have "ReadNamespaceBytes (pNamespace b) (DataBlockAddr a e) buf (ucast (LbaSize b)) s =
            (EFI_SUCCESS, data_block b c a (unat (e AND BTT_MAP_ENTRY_LBA_MASK)), s)"
      using arena_wf_data_addr [OF wf m] ready buf
      by (simp add: ReadNamespaceBytes_ok data_block_def c_def)
    moreover have "DataBlockAddr (set_rtt a e) e = DataBlockAddr a e"
      by (simp add: DataBlockAddr_def set_rtt_def)
    ultimately show ?thesis
      using False valid lo walk rd retry set_arena_rtt_id [of b i e] wf
      by (auto simp: BttRead_def btt_abs_def arena_abs_def Let_def e_def c_def a_def)
  qed
qed

section \<open>Sequence numbers of the flog\<close>

definition flog_seq_valid :: "u32 \<Rightarrow> bool" where
  "flog_seq_valid q \<longleftrightarrow> q \<in> {1, 2, 3}"

lemma NSEQ_values [simp]: "NSEQ 1 = 2" "NSEQ 2 = 3" "NSEQ 3 = 1"
  by (simp_all add: NSEQ_def)

interpretation flog_seq: seq_pair "\<lambda>q0 q1. map_option unat (FlogSelect q0 q1)" NSEQ flog_seq_valid
  by unfold_locales (auto simp: flog_seq_valid_def FlogSelect_def)

section \<open>The four stores of a block write\<close>

text \<open>
  A write to pre-map LBA \<open>l\<close> of arena \<open>a\<close> issues four stores: the data goes to the free
  block, the two halves of the next flog entry follow, and the map entry is switched last.
  \<open>replay\<close> applies stores to the namespace contents.
\<close>

definition replay :: "memory \<Rightarrow> (nat \<times> u8 list) list \<Rightarrow> memory" where
  "replay c ws = fold (\<lambda>(x, bs) m. mem_write m x bs) ws c"

lemma replay_simps [simp]:
  "replay c [] = c" "replay c ((x, bs) # ws) = replay (mem_write c x bs) ws"
  by (simp_all add: replay_def)

lemma replay_append: "replay c (vs @ ws) = replay (replay c vs) ws"
  by (simp add: replay_def)

definition free_map :: "arena \<Rightarrow> u32" where
  "free_map a = (fOldMap (cur_flog (pFlogs a ! 0)) AND BTT_MAP_ENTRY_LBA_MASK) OR BTT_MAP_ENTRY_NORMAL"

definition next_flog :: "arena \<Rightarrow> nat \<Rightarrow> u32 \<Rightarrow> btt_flog" where
  "next_flog a l old =
     \<lparr>fLba = of_nat l, fOldMap = old, fNewMap = free_map a,
      fSeq = NSEQ (fSeq (cur_flog (pFlogs a ! 0)))\<rparr>"

definition arena_after :: "arena \<Rightarrow> nat \<Rightarrow> u32 \<Rightarrow> arena" where
  "arena_after a l old =
     (let fr = pFlogs a ! 0
      in a\<lparr>pFlogs := (pFlogs a)[0 := fr\<lparr>FlogPair := set_flog (FlogPair fr) (Next fr) (next_flog a l old),
                                        Next := 1 - Next fr\<rparr>]\<rparr>)"

definition old_map :: "memory \<Rightarrow> arena \<Rightarrow> nat \<Rightarrow> u32" where
  "old_map c a l = norm_entry l (map_entry c a l)"

definition flog_addr :: "arena \<Rightarrow> nat" where
  "flog_addr a = unat (FlogOffset a) + 16 * unat (Next (pFlogs a ! 0))"

definition write_steps :: "memory \<Rightarrow> arena \<Rightarrow> nat \<Rightarrow> u8 list \<Rightarrow> (nat \<times> u8 list) list" where
  "write_steps c a l buf =
     (let f = next_flog a l (old_map c a l)
      in [(unat (DataOffset a) + free_of (pFlogs a ! 0) * unat (InternalLbaSize a), buf),
          (flog_addr a, le32 (fLba f) @ le32 (fOldMap f)),
          (flog_addr a + 8, le32 (fNewMap f) @ le32 (fSeq f)),
          (unat (MapOffset a) + 4 * l, le32 (free_map a))])"

lemma free_map_facts:
  "unat (free_map a AND BTT_MAP_ENTRY_LBA_MASK) = free_of (pFlogs a ! 0)"
  "\<not> MapEntryIsInitial (free_map a)" "\<not> MapEntryIsError (free_map a)"
  "\<not> MapEntryIsZeroOrInitial (free_map a)"
  by (simp_all add: free_map_def free_of_def)

text \<open>Stores elsewhere leave map entries, data blocks and the flog pair alone.\<close>

lemma map_entry_write_other [mem_simps]:
  "x + length bs \<le> unat (MapOffset a) + 4 * l \<or> unat (MapOffset a) + 4 * l + 4 \<le> x \<Longrightarrow>
     map_entry (mem_write c x bs) a l = map_entry c a l"
  by (auto simp: map_entry_def mem_simps)

lemma map_entry_write_same [mem_simps]:
  "map_entry (mem_write c (unat (MapOffset a) + 4 * l) (le32 w)) a l = w"
  by (simp add: map_entry_def mem_simps)

lemma data_block_write_other [mem_simps]:
  "x + length bs \<le> unat (DataOffset a) + m * unat (InternalLbaSize a)
    \<or> unat (DataOffset a) + m * unat (InternalLbaSize a) + unat (LbaSize b) \<le> x \<Longrightarrow>
     data_block b (mem_write c x bs) a m = data_block b c a m"
  by (auto simp: data_block_def mem_simps)

lemma arena_regions:
  assumes "arena_wf b a"
  shows "m < unat (InternalNLbas a) \<Longrightarrow>
           unat (StartOffset a) + 4096 \<le> unat (DataOffset a) + m * unat (InternalLbaSize a)"
    and "m < unat (InternalNLbas a) \<Longrightarrow>
           unat (DataOffset a) + m * unat (InternalLbaSize a) + unat (LbaSize b) \<le> unat (MapOffset a)"
    and "l < unat (ExternalNLbas a) \<Longrightarrow> unat (MapOffset a) + 4 * l + 4 \<le> unat (FlogOffset a)"
    and "unat (FlogOffset a) + 64 \<le> arena_end a"
    and "m < n \<Longrightarrow> unat (DataOffset a) + m * unat (InternalLbaSize a) + unat (LbaSize b)
           \<le> unat (DataOffset a) + n * unat (InternalLbaSize a)"
proof -
  have blocks: "m * unat (InternalLbaSize a) + unat (LbaSize b) \<le> n * unat (InternalLbaSize a)"
    if "m < n" for m n
  proof -
    from that have "(m + 1) * unat (InternalLbaSize a) \<le> n * unat (InternalLbaSize a)"
      by (intro mult_le_mono1) simp
    with assms show ?thesis by (simp add: arena_wf_def)
  qed
  show "m < unat (InternalNLbas a) \<Longrightarrow>
      unat (StartOffset a) + 4096 \<le> unat (DataOffset a) + m * unat (InternalLbaSize a)"
    using assms by (simp add: arena_wf_def)
  show "m < unat (InternalNLbas a) \<Longrightarrow>
      unat (DataOffset a) + m * unat (InternalLbaSize a) + unat (LbaSize b) \<le> unat (MapOffset a)"
    using assms blocks [of m "unat (InternalNLbas a)"] by (simp add: arena_wf_def)
  show "l < unat (ExternalNLbas a) \<Longrightarrow> unat (MapOffset a) + 4 * l + 4 \<le> unat (FlogOffset a)"
    using assms unfolding arena_wf_def by linarith
  show "unat (FlogOffset a) + 64 \<le> arena_end a"
    using assms by (cases "pFlogs a") (auto simp: arena_wf_def arena_end_def)
  show "m < n \<Longrightarrow> unat (DataOffset a) + m * unat (InternalLbaSize a) + unat (LbaSize b)
           \<le> unat (DataOffset a) + n * unat (InternalLbaSize a)"
    using blocks [of m n] by simp
qed

lemma free_of_bound: "arena_inv b c a \<Longrightarrow> free_of (pFlogs a ! 0) < unat (InternalNLbas a)"
  by (cases "pFlogs a") (auto simp: arena_inv_def arena_wf_def all_blocks_def)

lemma flog_addr_bounds:
  "arena_inv b c a \<Longrightarrow> unat (FlogOffset a) \<le> flog_addr a \<and> flog_addr a + 16 \<le> unat (FlogOffset a) + 32"
  by (auto simp: arena_inv_def flog_synced_def flog_addr_def Let_def)

text \<open>All stores of a write stay inside the arena.\<close>

lemma write_steps_inside:
  assumes "arena_inv b c a" and "l < unat (ExternalNLbas a)" and "length buf = unat (LbaSize b)"
    and "(x, bs) \<in> set (write_steps c a l buf)"
  shows "unat (StartOffset a) + 4096 \<le> x \<and> x + length bs \<le> arena_end a"
proof -
  have wf: "arena_wf b a" using assms by (simp add: arena_inv_def)
  note r = arena_regions [OF wf] free_of_bound [OF assms(1)] flog_addr_bounds [OF assms(1)]
  have "unat (StartOffset a) + 4096 \<le> unat (DataOffset a)" "unat (DataOffset a) \<le> unat (MapOffset a)"
    using wf unfolding arena_wf_def by linarith+
  with r(1) [OF r(6)] r(2) [OF r(6)] r(3) [OF assms(2)] r(4) r(7) assms(3,4) show ?thesis
    by (auto simp: write_steps_def Let_def)
qed

lemma parse_flog_pair_patch:
  assumes "length bs = 64" and "i = 0 \<or> i = 1"
  shows "parse_flog_pair (patch bs (16 * unat i) (flog_bytes f)) = set_flog (parse_flog_pair bs) i f"
proof (cases "i = 0")
  case True
  have g: "get32 off (drop 16 (flog_bytes f @ drop 16 bs)) = get32 off (drop 16 bs)" for off
    by (simp add: get32_def)
  show ?thesis
    using True assms
    by (simp add: patch_def parse_flog_pair_def set_flog_def parse_flog_def g)
      (simp add: flog_bytes_def)
next
  case False
  with assms have i: "i = 1" by simp
  have "take 4 (drop off (take 16 bs @ ys)) = take 4 (drop off bs)" if "off + 4 \<le> 16" for off ys
    using that assms by (intro nth_equalityI) (auto simp: nth_append)
  then show ?thesis
    using i assms
    by (simp add: patch_def parse_flog_pair_def set_flog_def parse_flog_def get32_def drop_take)
      (simp add: flog_bytes_def)
qed

lemma write_steps_map:
  assumes "arena_inv b c a" and "l < unat (ExternalNLbas a)" and "length buf = unat (LbaSize b)"
    and "l' < unat (ExternalNLbas a)"
  shows "map_entry (replay c (take j (write_steps c a l buf))) a l' =
           (if 4 \<le> j \<and> l' = l then free_map a else map_entry c a l')"
proof -
  have wf: "arena_wf b a" using assms by (simp add: arena_inv_def)
  note r = arena_regions [OF wf]
  note f = free_of_bound [OF assms(1)] and fa = flog_addr_bounds [OF assms(1)]
  have 1: "unat (DataOffset a) + free_of (pFlogs a ! 0) * unat (InternalLbaSize a) + length buf
      \<le> unat (MapOffset a) + 4 * l'"
    using r(2) [OF f] assms(3) by simp
  have 2: "unat (MapOffset a) + 4 * l' + 4 \<le> flog_addr a"
    using r(3) [OF assms(4)] fa by simp
  have 3: "l' \<noteq> l \<Longrightarrow> unat (MapOffset a) + 4 * l + 4 \<le> unat (MapOffset a) + 4 * l'
      \<or> unat (MapOffset a) + 4 * l' + 4 \<le> unat (MapOffset a) + 4 * l"
    by linarith
  consider "j = 0" | "j = 1" | "j = 2" | "j = 3" | "4 \<le> j" by linarith
  then show ?thesis
    by cases (use 1 2 3 in \<open>auto simp: write_steps_def Let_def mem_simps numeral_2_eq_2 numeral_3_eq_3\<close>)
qed

lemma write_steps_data:
  assumes "arena_inv b c a" and "l < unat (ExternalNLbas a)" and "length buf = unat (LbaSize b)"
    and "m < unat (InternalNLbas a)"
  shows "data_block b (replay c (take j (write_steps c a l buf))) a m =
           (if 1 \<le> j \<and> m = free_of (pFlogs a ! 0) then buf else data_block b c a m)"
proof -
  have wf: "arena_wf b a" using assms by (simp add: arena_inv_def)
  note r = arena_regions [OF wf]
  note f = free_of_bound [OF assms(1)] and fa = flog_addr_bounds [OF assms(1)]
  let ?x = "unat (DataOffset a) + free_of (pFlogs a ! 0) * unat (InternalLbaSize a)"
  let ?y = "unat (DataOffset a) + m * unat (InternalLbaSize a)"
  have 1: "?y + unat (LbaSize b) \<le> unat (MapOffset a) + 4 * l" "?y + unat (LbaSize b) \<le> flog_addr a"
    using r(2) [OF assms(4)] r(3) [OF assms(2)] fa by simp_all
  have d: "data_block b (mem_write c ?x buf) a m =
      (if m = free_of (pFlogs a ! 0) then buf else data_block b c a m)"
  proof (cases "m = free_of (pFlogs a ! 0)")
    case True
    then show ?thesis using assms(3) by (simp add: data_block_def mem_simps)
  next
    case False
    then have "?y + unat (LbaSize b) \<le> ?x \<or> ?x + unat (LbaSize b) \<le> ?y"
      using r(5) [of m "free_of (pFlogs a ! 0)"] r(5) [of "free_of (pFlogs a ! 0)" m] by linarith
    with False assms(3) show ?thesis by (simp add: mem_simps disj_commute)
  qed
  consider "j = 0" | "j = 1" | "j = 2" | "j = 3" | "4 \<le> j" by linarith
  then show ?thesis
    by cases (use 1 d in \<open>simp_all add: write_steps_def Let_def mem_simps numeral_2_eq_2 numeral_3_eq_3\<close>)
qed

text \<open>The flog pair after each store: the inactive half is replaced in two steps.\<close>

definition half_flog :: "arena \<Rightarrow> nat \<Rightarrow> u32 \<Rightarrow> btt_flog" where
  "half_flog a l old =
     (flog_at (FlogPair (pFlogs a ! 0)) (Next (pFlogs a ! 0)))\<lparr>fLba := of_nat l, fOldMap := old\<rparr>"

lemma flog_addr_alt:
  "flog_addr a = unat (FlogOffset a) + 16 * unat (Next (pFlogs a ! 0))"
  by (simp add: flog_addr_def)

lemma mem_read_flog_same:
  "unat (FlogOffset a) + 64 \<le> x \<or> x + length bs \<le> unat (FlogOffset a) \<Longrightarrow>
     mem_read (mem_write c x bs) (unat (FlogOffset a)) 64 = mem_read c (unat (FlogOffset a)) 64"
  by (rule mem_write_other) auto

lemma parse_flog_pair_write:
  assumes "Next (pFlogs a ! 0) = 0 \<or> Next (pFlogs a ! 0) = 1"
  shows "parse_flog_pair (mem_read (mem_write c (flog_addr a) (flog_bytes f)) (unat (FlogOffset a)) 64)
       = set_flog (parse_flog_pair (mem_read c (unat (FlogOffset a)) 64)) (Next (pFlogs a ! 0)) f"
  using assms
  by (subst flog_addr_def, subst mem_read_patch)
    (auto intro!: parse_flog_pair_patch [where i = 0, simplified] parse_flog_pair_patch [where i = 1, simplified])

lemma get32_mem_read: "off + 4 \<le> n \<Longrightarrow> get32 off (mem_read c x n) = of_le (mem_read c (x + off) 4)"
  by (simp add: get32_def mem_read_sub)

lemma flog_at_mem_read:
  "i = 0 \<or> i = 1 \<Longrightarrow> fNewMap (flog_at (parse_flog_pair (mem_read c x 64)) i) = of_le (mem_read c (x + 16 * unat i + 8) 4)"
  "i = 0 \<or> i = 1 \<Longrightarrow> fSeq (flog_at (parse_flog_pair (mem_read c x 64)) i) = of_le (mem_read c (x + 16 * unat i + 12) 4)"
proof -
  have d: "get32 off (drop 16 (mem_read c x 64)) = of_le (mem_read c (x + 16 + off) 4)" if "off + 4 \<le> 48" for off
    using that by (simp add: get32_def mem_read_sub ac_simps)
  show "i = 0 \<or> i = 1 \<Longrightarrow> fNewMap (flog_at (parse_flog_pair (mem_read c x 64)) i) = of_le (mem_read c (x + 16 * unat i + 8) 4)"
    and "i = 0 \<or> i = 1 \<Longrightarrow> fSeq (flog_at (parse_flog_pair (mem_read c x 64)) i) = of_le (mem_read c (x + 16 * unat i + 12) 4)"
    using d by (auto simp: flog_at_def parse_flog_pair_def parse_flog_def get32_mem_read)
qed

text \<open>Writing only the first half of an entry keeps the second half that the media holds.\<close>

lemma mem_write_half_flog:
  assumes "i = 0 \<or> i = 1" and h: "h = flog_at (parse_flog_pair (mem_read c x 64)) i"
  shows "mem_write c (x + 16 * unat i) (le32 l @ le32 old) =
         mem_write c (x + 16 * unat i) (flog_bytes (h\<lparr>fLba := l, fOldMap := old\<rparr>))"
proof -
  let ?x = "x + 16 * unat i"
  let ?m = "mem_write c ?x (le32 l @ le32 old)"
  have "le32 (fNewMap h) @ le32 (fSeq h) = mem_read c (?x + 8) 4 @ mem_read c (?x + 8 + 4) 4"
    using assms by (simp add: flog_at_mem_read le_of_round ac_simps)
  also have "\<dots> = mem_read c (?x + 8) 8" by (simp only: mem_read_append) simp
  also have "\<dots> = mem_read ?m (?x + 8) 8" by (simp add: mem_simps)
  finally have rest: "le32 (fNewMap h) @ le32 (fSeq h) = mem_read ?m (?x + 8) 8" .
  have "flog_bytes (h\<lparr>fLba := l, fOldMap := old\<rparr>) = (le32 l @ le32 old) @ (le32 (fNewMap h) @ le32 (fSeq h))"
    by (simp add: flog_bytes_def)
  then have "mem_write c ?x (flog_bytes (h\<lparr>fLba := l, fOldMap := old\<rparr>)) =
      mem_write ?m (?x + 8) (le32 (fNewMap h) @ le32 (fSeq h))"
    by (simp only: mem_write_append) simp
  with rest show ?thesis by simp
qed

lemma arena_inv_next: "arena_inv b c a \<Longrightarrow> Next (pFlogs a ! 0) = 0 \<or> Next (pFlogs a ! 0) = 1"
  by (simp add: arena_inv_def flog_synced_def Let_def)

lemma write_steps_flog:
  assumes "arena_inv b c a" and "l < unat (ExternalNLbas a)" and "length buf = unat (LbaSize b)"
  defines "fr \<equiv> pFlogs a ! 0"
  shows "parse_flog_pair (mem_read (replay c (take j (write_steps c a l buf))) (unat (FlogOffset a)) 64) =
           (if j \<le> 1 then FlogPair fr
            else if j = 2 then set_flog (FlogPair fr) (Next fr) (half_flog a l (old_map c a l))
            else set_flog (FlogPair fr) (Next fr) (next_flog a l (old_map c a l)))"
proof -
  have wf: "arena_wf b a" using assms by (simp add: arena_inv_def)
  note r = arena_regions [OF wf]
  note f = free_of_bound [OF assms(1)] and nx = arena_inv_next [OF assms(1)]
  define old where "old = old_map c a l"
  define f' where "f' = next_flog a l old"
  define c1 where "c1 = mem_write c (unat (DataOffset a) + free_of fr * unat (InternalLbaSize a)) buf"
  define c2 where "c2 = mem_write c1 (flog_addr a) (le32 (fLba f') @ le32 (fOldMap f'))"
  define c3 where "c3 = mem_write c2 (flog_addr a + 8) (le32 (fNewMap f') @ le32 (fSeq f'))"
  define c4 where "c4 = mem_write c3 (unat (MapOffset a) + 4 * l) (le32 (free_map a))"
  have base: "parse_flog_pair (mem_read c (unat (FlogOffset a)) 64) = FlogPair fr"
    using assms(1) by (simp add: arena_inv_def flog_synced_def Let_def fr_def)
  have 1: "parse_flog_pair (mem_read c1 (unat (FlogOffset a)) 64) = FlogPair fr"
    unfolding c1_def fr_def using r(2) [OF f] r(3) [OF assms(2)] assms(3) base
    by (subst mem_read_flog_same) (auto simp: fr_def)
  have "c2 = mem_write c1 (flog_addr a) (flog_bytes (half_flog a l old))"
    using mem_write_half_flog [OF nx refl, where c = c1 and x = "unat (FlogOffset a)"] 1
    by (simp add: c2_def f'_def next_flog_def half_flog_def flog_addr_def fr_def)
  then have 2: "parse_flog_pair (mem_read c2 (unat (FlogOffset a)) 64) =
      set_flog (FlogPair fr) (Next fr) (half_flog a l old)"
    using parse_flog_pair_write [OF nx, of c1] 1 by (simp add: fr_def)
  have "c3 = mem_write c1 (flog_addr a) (flog_bytes f')"
    using mem_write_append [of c1 "flog_addr a" "le32 (fLba f') @ le32 (fOldMap f')"
        "le32 (fNewMap f') @ le32 (fSeq f')"]
    by (simp add: c3_def c2_def flog_bytes_def)
  then have 3: "parse_flog_pair (mem_read c3 (unat (FlogOffset a)) 64) =
      set_flog (FlogPair fr) (Next fr) f'"
    using parse_flog_pair_write [OF nx, of c1] 1 by (simp add: fr_def)
  have 4: "parse_flog_pair (mem_read c4 (unat (FlogOffset a)) 64) = set_flog (FlogPair fr) (Next fr) f'"
    unfolding c4_def using r(3) [OF assms(2)] 3 by (subst mem_read_flog_same) auto
  consider "j = 0" | "j = 1" | "j = 2" | "j = 3" | "4 \<le> j" by linarith
  then show ?thesis
    by cases (use base 1 2 3 4 in \<open>simp_all add: write_steps_def Let_def numeral_2_eq_2 numeral_3_eq_3
        old_def f'_def c1_def c2_def c3_def c4_def fr_def\<close>)
qed

section \<open>A completed write keeps the invariant\<close>

lemma arena_after_fields [simp]:
  "Flags (arena_after a l old) = Flags a" "ExternalNLbas (arena_after a l old) = ExternalNLbas a"
  "InternalLbaSize (arena_after a l old) = InternalLbaSize a"
  "InternalNLbas (arena_after a l old) = InternalNLbas a"
  "StartOffset (arena_after a l old) = StartOffset a" "DataOffset (arena_after a l old) = DataOffset a"
  "MapOffset (arena_after a l old) = MapOffset a" "FlogOffset (arena_after a l old) = FlogOffset a"
  "pRtt (arena_after a l old) = pRtt a" "length (pFlogs (arena_after a l old)) = length (pFlogs a)"
  "arena_end (arena_after a l old) = arena_end a"
  by (simp_all add: arena_after_def Let_def arena_end_def)

lemma arena_view_after [simp]:
  "map_entry c (arena_after a l old) = map_entry c a" "blk c (arena_after a l old) = blk c a"
  "data_block b c (arena_after a l old) = data_block b c a"
  "arena_abs b c (arena_after a l old) = arena_abs b c a"
  by (simp_all add: fun_eq_iff map_entry_def blk_def data_block_def arena_abs_def Let_def)

lemma flog_at_set_flog:
  "i = 0 \<or> i = 1 \<Longrightarrow> flog_at (set_flog p i f) i = f"
  "i = 0 \<or> i = 1 \<Longrightarrow> flog_at (set_flog p i f) (1 - i) = flog_at p (1 - i)"
  by (auto simp: flog_at_def set_flog_def)

lemma arena_after_flog:
  assumes "pFlogs a \<noteq> []" and "Next (pFlogs a ! 0) = 0 \<or> Next (pFlogs a ! 0) = 1"
  shows "cur_flog (pFlogs (arena_after a l old) ! 0) = next_flog a l old"
    and "free_of (pFlogs (arena_after a l old) ! 0) = unat (old AND BTT_MAP_ENTRY_LBA_MASK)"
    and "map free_of (pFlogs (arena_after a l old)) =
           (map free_of (pFlogs a))[0 := unat (old AND BTT_MAP_ENTRY_LBA_MASK)]"
proof -
  show cur: "cur_flog (pFlogs (arena_after a l old) ! 0) = next_flog a l old"
    using assms flog_at_set_flog(1) [OF assms(2)]
    by (auto simp: arena_after_def Let_def cur_flog_def)
  then show "free_of (pFlogs (arena_after a l old) ! 0) = unat (old AND BTT_MAP_ENTRY_LBA_MASK)"
    by (simp add: free_of_def next_flog_def)
  with assms(1) show "map free_of (pFlogs (arena_after a l old)) =
           (map free_of (pFlogs a))[0 := unat (old AND BTT_MAP_ENTRY_LBA_MASK)]"
    by (simp add: arena_after_def Let_def map_update)
qed

lemma blk_old_map: "unat (old_map c a l AND BTT_MAP_ENTRY_LBA_MASK) = blk c a l"
  by (simp add: old_map_def blk_def)

text \<open>The write exchanges the free block with the one the LBA was mapped to.\<close>

lemma all_blocks_write:
  assumes inv: "arena_inv b c a" and l: "l < unat (ExternalNLbas a)" and buf: "length buf = unat (LbaSize b)"
  shows "mset (all_blocks (replay c (write_steps c a l buf)) (arena_after a l (old_map c a l)))
       = mset (all_blocks c a)"
proof -
  let ?c = "replay c (write_steps c a l buf)" and ?n = "unat (ExternalNLbas a)"
  let ?B = "all_blocks c a"
  have ne: "pFlogs a \<noteq> []" using inv by (auto simp: arena_inv_def arena_wf_def)
  have tk: "take 4 (write_steps c a l buf) = write_steps c a l buf"
    by (simp add: write_steps_def Let_def)
  have b: "blk ?c a l' = (if l' = l then free_of (pFlogs a ! 0) else blk c a l')" if "l' < ?n" for l'
    using write_steps_map [OF inv l buf that, of 4] tk
    by (simp add: blk_def norm_entry_def free_map_facts)
  have m: "map (blk ?c a) [0..<?n] = (map (blk c a) [0..<?n])[l := free_of (pFlogs a ! 0)]"
    using l by (intro nth_equalityI) (auto simp: b nth_list_update)
  have "all_blocks ?c (arena_after a l (old_map c a l)) = ?B[?n := ?B ! l, l := ?B ! ?n]"
    using l ne arena_after_flog(3) [OF ne arena_inv_next [OF inv], of l "old_map c a l"] m
    by (simp add: all_blocks_def blk_old_map list_update_append nth_append)
  moreover have "?n < length ?B" and "l < length ?B"
    using l ne by (simp_all add: all_blocks_def)
  ultimately show ?thesis by (simp add: mset_swap)
qed

lemma flog_select_next:
  assumes "flog_seq_valid (fSeq (flog_at p (1 - i)))" and "i = 0 \<or> i = 1"
    and "fSeq f = NSEQ (fSeq (flog_at p (1 - i)))"
  shows "FlogSelect (fSeq (flog0 (set_flog p i f))) (fSeq (flog1 (set_flog p i f))) = Some i"
  using assms by (auto simp: set_flog_def flog_at_def flog_seq_valid_def FlogSelect_def)

lemma arena_inv_write:
  assumes inv: "arena_inv b c a" and l: "l < unat (ExternalNLbas a)" and buf: "length buf = unat (LbaSize b)"
  shows "arena_inv b (replay c (write_steps c a l buf)) (arena_after a l (old_map c a l))"
proof -
  let ?c = "replay c (write_steps c a l buf)" and ?old = "old_map c a l"
  let ?a = "arena_after a l ?old" and ?fr = "pFlogs a ! 0"
  have tk: "take 4 (write_steps c a l buf) = write_steps c a l buf"
    by (simp add: write_steps_def Let_def)
  have wf: "arena_wf b a" and sy: "flog_synced c a" using inv by (simp_all add: arena_inv_def)
  have ne: "pFlogs a \<noteq> []" using wf by (auto simp: arena_wf_def)
  note nx = arena_inv_next [OF inv]
  have fr: "pFlogs ?a ! 0 = ?fr\<lparr>FlogPair := set_flog (FlogPair ?fr) (Next ?fr) (next_flog a l ?old), Next := 1 - Next ?fr\<rparr>"
    using ne by (simp add: arena_after_def Let_def)
  have l32: "unat (of_nat l :: u32) = l"
    using l unat_bound [of "ExternalNLbas a"] by (simp add: unat_of_nat take_bit_nat_eq_self)
  have sv: "flog_seq_valid (fSeq (flog_at (FlogPair ?fr) (1 - Next ?fr)))"
    using sy by (simp add: flog_synced_def Let_def cur_flog_def flog_seq_valid_def)
  have sel: "FlogSelect (fSeq (flog0 (FlogPair (pFlogs ?a ! 0)))) (fSeq (flog1 (FlogPair (pFlogs ?a ! 0)))) = Some (Next ?fr)"
    using flog_select_next [OF sv nx, of "next_flog a l ?old"] by (simp add: fr next_flog_def cur_flog_def)
  have seq: "fSeq (next_flog a l ?old) \<in> {1, 2, 3}"
    using sv by (auto simp: next_flog_def cur_flog_def flog_seq_valid_def)
  have entry: "map_entry ?c a l = free_map a"
    using write_steps_map [OF inv l buf l, of 4] tk by simp
  have lbas: "unat (fLba (flog0 (FlogPair (pFlogs ?a ! 0)))) < unat (ExternalNLbas a)
      \<and> unat (fLba (flog1 (FlogPair (pFlogs ?a ! 0)))) < unat (ExternalNLbas a)"
    using sy l nx by (auto simp: fr set_flog_def next_flog_def flog_synced_def Let_def l32)
  have "flog_synced ?c ?a"
    unfolding flog_synced_def Let_def arena_after_flog(1) [OF ne nx]
    using sel seq lbas nx sy write_steps_flog [OF inv l buf, of 4] tk entry
    by (auto simp: fr flog_synced_def Let_def next_flog_def l32)
  moreover have "arena_wf b ?a" using wf by (simp add: arena_wf_def)
  moreover have "set (all_blocks ?c ?a) = set (all_blocks c a)" "distinct (all_blocks ?c ?a) = distinct (all_blocks c a)"
    using all_blocks_write [OF inv l buf] by (metis set_mset_mset, metis mset_eq_imp_distinct_iff)
  ultimately show ?thesis using inv by (simp add: arena_inv_def)
qed

end
