(* ===== verification/Btt_Write.thy ===== *)
theory Btt_Write
  imports Btt_Correct
begin

text \<open>
  The write path of the block translation table: \<open>BttWrite\<close> issues exactly the four stores of
  \<open>write_steps\<close>, keeps the invariant of the device and changes the abstract device at the
  written address only.
\<close>

section \<open>Map lines\<close>

lemma map_bytes_update:
  assumes "length bs mod 4 = 0" and "4 * i + 4 \<le> length bs"
  shows "map_bytes ((words32 bs)[i := w]) = patch bs (4 * i) (le32 w)"
  using assms map_bytes_words32 [of "patch bs (4 * i) (le32 w)"] by (simp add: words32_patch_word)

definition map_line :: "memory \<Rightarrow> arena \<Rightarrow> u32 \<Rightarrow> u32 list" where
  "map_line c a l = words32 (mem_read c (unat (MapEntryAddr a l)) 64)"

lemma map_line_facts:
  assumes "arena_wf b a" and "unat l < unat (ExternalNLbas a)"
  shows "length (map_line c a l) = 16"
    and "map_line c a l ! unat (BttGetPositionInMapFromLba l) = map_entry c a (unat l)"
    and "mem_write c (unat (MapEntryAddr a l)) (map_bytes ((map_line c a l)[unat (BttGetPositionInMapFromLba l) := w]))
       = mem_write c (unat (MapOffset a) + 4 * unat l) (le32 w)"
proof -
  have pos: "4 * (unat l mod 16) + 4 \<le> 64" by simp
  note addr = arena_wf_map_addr(3) [OF assms]
  show "length (map_line c a l) = 16" by (simp add: map_line_def words32_length)
  show "map_line c a l ! unat (BttGetPositionInMapFromLba l) = map_entry c a (unat l)"
    using addr pos by (simp add: map_line_def map_number_position words32_nth mem_read_sub map_entry_def)
  have "mem_write c (unat (MapEntryAddr a l)) (patch (mem_read c (unat (MapEntryAddr a l)) 64) (4 * (unat l mod 16)) (le32 w))
      = mem_write c (unat (MapEntryAddr a l) + 4 * (unat l mod 16)) (le32 w)"
    using pos by (intro mem_write_patch) simp
  with addr pos show "mem_write c (unat (MapEntryAddr a l)) (map_bytes ((map_line c a l)[unat (BttGetPositionInMapFromLba l) := w]))
       = mem_write c (unat (MapOffset a) + 4 * unat l) (le32 w)"
    by (simp add: map_line_def map_number_position map_bytes_update)
qed

lemma BttMapLock_ok:
  assumes wf: "arena_wf b a" and l: "unat l < unat (ExternalNLbas a)" and r: "ns_ready (pNamespace b) s"
  defines "c \<equiv> ns_content (pNamespace b) s" and "pos \<equiv> unat (BttGetPositionInMapFromLba l)"
  shows "BttMapLock b a l s = (EFI_SUCCESS, (map_line c a l)[pos := old_map c a (unat l)], s)"
proof -
  note rd = read_map_line(1) [OF wf l r] and ml = map_line_facts [OF wf l]
  have "(map_line c a l)[pos := map_entry c a (unat l)] = map_line c a l"
    unfolding pos_def ml(2) [of c, symmetric] by (rule list_update_id)
  then show ?thesis
    using rd ml(2) [of c]
    by (auto simp: BttMapLock_def Let_def c_def pos_def map_line_def old_map_def norm_entry_def)
qed

section \<open>The state after a write\<close>

definition flog_off :: "arena \<Rightarrow> u64" where
  "flog_off a = FlogOffset a + ucast (Next (pFlogs a ! 0)) * 16"

definition write_state :: "btt \<Rightarrow> arena \<Rightarrow> u32 \<Rightarrow> u8 list \<Rightarrow> sys \<Rightarrow> sys" where
  "write_state b a l buf s =
     (let ns = pNamespace b; c = ns_content ns s; f = next_flog a (unat l) (old_map c a (unat l));
          s1 = ns_store ns (DataBlockAddr a (free_map a)) buf s;
          s2 = ns_store ns (flog_off a) (le32 (fLba f) @ le32 (fOldMap f)) s1;
          s3 = ns_store ns (flog_off a + 8) (le32 (fNewMap f) @ le32 (fSeq f)) s2
      in ns_store ns (MapEntryAddr a l)
           (map_bytes ((map_line c a l)[unat (BttGetPositionInMapFromLba l) := free_map a])) s3)"

lemma flog_off_facts:
  assumes "arena_inv b c a"
  shows "unat (flog_off a) = flog_addr a" "unat (flog_off a + 8) = flog_addr a + 8"
    and "ns_fits (pNamespace b) (flog_off a) 8" "ns_fits (pNamespace b) (flog_off a + 8) 8"
proof -
  have wf: "arena_wf b a" using assms by (simp add: arena_inv_def)
  have "unat (SpaNamespaceBase (pNamespace b)) + (unat (FlogOffset a) + 64) < 2 ^ 64"
    using wf arena_regions(4) [OF wf] unfolding arena_wf_def by linarith
  moreover have "Next (pFlogs a ! 0) = 0 \<or> Next (pFlogs a ! 0) = 1" by (rule arena_inv_next [OF assms])
  ultimately show 1: "unat (flog_off a) = flog_addr a" "unat (flog_off a + 8) = flog_addr a + 8"
    and "ns_fits (pNamespace b) (flog_off a) 8" "ns_fits (pNamespace b) (flog_off a + 8) 8"
    by (auto simp: flog_off_def flog_addr_def ns_fits_def unat_word_ariths)
qed

lemma BttFlogUpdate_ok:
  fixes l old :: u32
  assumes inv: "arena_inv b c a" and r: "ns_ready (pNamespace b) s"
  defines "f \<equiv> next_flog a (unat l) old"
  shows "BttFlogUpdate b a l old (free_map a) s =
           (EFI_SUCCESS, arena_after a (unat l) old,
            ns_store (pNamespace b) (flog_off a + 8) (le32 (fNewMap f) @ le32 (fSeq f))
              (ns_store (pNamespace b) (flog_off a) (le32 (fLba f) @ le32 (fOldMap f)) s))"
proof -
  have nx: "Next (pFlogs a ! 0) = 0 \<or> Next (pFlogs a ! 0) = 1" by (rule arena_inv_next [OF inv])
  have ent: "Entry (pFlogs a ! 0) = FlogOffset a" and ne: "pFlogs a \<noteq> []"
    using inv by (auto simp: arena_inv_def flog_synced_def Let_def arena_wf_def)
  have cur: "(if Next (pFlogs a ! 0) = 0 then flog1 (FlogPair (pFlogs a ! 0)) else flog0 (FlogPair (pFlogs a ! 0)))
      = cur_flog (pFlogs a ! 0)"
    using nx by (auto simp: cur_flog_def flog_at_def)
  note ok = WriteNamespaceBytes_ok [where buf = "xs @ ys" for xs ys, where len = 8]
  show ?thesis
    unfolding BttFlogUpdate_def Let_def cur
    using nx r ent ne flog_off_facts [OF inv]
    by (simp add: ok f_def next_flog_def arena_after_def Let_def flog_off_def
        split del: if_split split: if_splits cong: if_cong)
qed

text \<open>The map line read after the data store is the one from before it.\<close>

lemma map_line_data_store:
  assumes inv: "arena_inv b c a" and l: "unat l < unat (ExternalNLbas a)" and buf: "length buf = unat (LbaSize b)"
  defines "c1 \<equiv> mem_write c (unat (DataOffset a) + free_of (pFlogs a ! 0) * unat (InternalLbaSize a)) buf"
  shows "map_line c1 a l = map_line c a l" and "old_map c1 a (unat l) = old_map c a (unat l)"
proof -
  have wf: "arena_wf b a" using inv by (simp add: arena_inv_def)
  have le: "unat (DataOffset a) + free_of (pFlogs a ! 0) * unat (InternalLbaSize a) + length buf \<le> unat (MapOffset a)"
    using arena_regions(2) [OF wf free_of_bound [OF inv]] buf by simp
  then show "map_line c1 a l = map_line c a l"
    using arena_wf_map_addr(1) [OF wf l] by (simp add: map_line_def c1_def mem_simps)
  show "old_map c1 a (unat l) = old_map c a (unat l)"
    using le by (simp add: old_map_def c1_def mem_simps)
qed

lemma data_store_facts:
  assumes inv: "arena_inv b c a"
  shows "unat (DataBlockAddr a (free_map a)) = unat (DataOffset a) + free_of (pFlogs a ! 0) * unat (InternalLbaSize a)"
    and "ns_fits (pNamespace b) (DataBlockAddr a (free_map a)) (unat (LbaSize b))"
proof -
  have wf: "arena_wf b a" using inv by (simp add: arena_inv_def)
  have "unat (free_map a AND BTT_MAP_ENTRY_LBA_MASK) < unat (InternalNLbas a)"
    using free_of_bound [OF inv] by (simp add: free_map_facts(1))
  from arena_wf_data_addr [OF wf this]
  show "unat (DataBlockAddr a (free_map a)) = unat (DataOffset a) + free_of (pFlogs a ! 0) * unat (InternalLbaSize a)"
    and "ns_fits (pNamespace b) (DataBlockAddr a (free_map a)) (unat (LbaSize b))"
    by (simp_all add: free_map_facts(1))
qed

text \<open>The stores that a write has issued, with system physical addresses.\<close>

definition issued :: "btt \<Rightarrow> arena \<Rightarrow> u32 \<Rightarrow> u8 list \<Rightarrow> sys \<Rightarrow> (nat \<times> u8 list) list" where
  "issued b a l buf s =
     (let c = ns_content (pNamespace b) s; f = next_flog a (unat l) (old_map c a (unat l));
          base = unat (SpaNamespaceBase (pNamespace b))
      in [(base + unat (DataBlockAddr a (free_map a)), buf),
          (base + flog_addr a, le32 (fLba f) @ le32 (fOldMap f)),
          (base + (flog_addr a + 8), le32 (fNewMap f) @ le32 (fSeq f)),
          (base + unat (MapEntryAddr a l),
           map_bytes ((map_line c a l)[unat (BttGetPositionInMapFromLba l) := free_map a]))])"

lemma write_state_frame [simp]:
  "ns_ready ns (write_state b a l buf s) = ns_ready ns s"
  "allocs (write_state b a l buf s) = allocs s" "rng (write_state b a l buf s) = rng s"
  "gArsBadRecordsCount (write_state b a l buf s) = gArsBadRecordsCount s"
  by (simp_all add: write_state_def Let_def)

text \<open>
  Replaying any prefix of the issued stores on the system memory gives the namespace contents
  that the same prefix of \<open>write_steps\<close> describes.
\<close>

lemma issued_prefix:
  assumes inv: "arena_inv b c a" and l: "unat l < unat (ExternalNLbas a)" and buf: "length buf = unat (LbaSize b)"
    and c: "c = ns_content (pNamespace b) s"
  shows "(\<lambda>off. replay (cpu s) (take j (issued b a l buf s)) (unat (SpaNamespaceBase (pNamespace b)) + off))
       = replay c (take j (write_steps c a (unat l) buf))"
proof -
  let ?B = "unat (SpaNamespaceBase (pNamespace b))"
  have wf: "arena_wf b a" using inv by (simp add: arena_inv_def)
  have sh: "(\<lambda>off. mem_write m (?B + x) bs (?B + off)) = mem_write (\<lambda>off. m (?B + off)) x bs" for m x bs
    by (auto simp: mem_write_def fun_eq_iff)
  have base: "(\<lambda>off. cpu s (?B + off)) = c" by (simp add: c ns_content_def)
  define f where "f = next_flog a (unat l) (old_map c a (unat l))"
  define c1 where "c1 = mem_write c (unat (DataBlockAddr a (free_map a))) buf"
  define c3 where "c3 = mem_write (mem_write c1 (flog_addr a) (le32 (fLba f) @ le32 (fOldMap f)))
                          (flog_addr a + 8) (le32 (fNewMap f) @ le32 (fSeq f))"
  have "unat (MapEntryAddr a l) + 64 \<le> flog_addr a"
    using arena_wf_map_addr(2) [OF wf l] flog_addr_bounds [OF inv] by simp
  then have "map_line c3 a l = map_line c1 a l"
    by (simp add: map_line_def c3_def mem_simps)
  also have "\<dots> = map_line c a l"
    using map_line_data_store(1) [OF inv l buf] by (simp add: c1_def data_store_facts(1) [OF inv])
  finally have last: "mem_write c3 (unat (MapEntryAddr a l)) (map_bytes ((map_line c a l)[unat (BttGetPositionInMapFromLba l) := free_map a]))
      = mem_write c3 (unat (MapOffset a) + 4 * unat l) (le32 (free_map a))"
    using map_line_facts(3) [OF wf l, of c3] by simp
  consider "j = 0" | "j = 1" | "j = 2" | "j = 3" | "4 \<le> j" by linarith
  then show ?thesis
    by cases (use last in \<open>simp_all add: issued_def write_steps_def Let_def sh base numeral_2_eq_2 numeral_3_eq_3
        f_def c1_def c3_def data_store_facts(1) [OF inv] add.assoc flip: c\<close>)
qed

lemma write_state_content:
  assumes inv: "arena_inv b c a" and l: "unat l < unat (ExternalNLbas a)" and buf: "length buf = unat (LbaSize b)"
    and c: "c = ns_content (pNamespace b) s"
  shows "ns_content (pNamespace b) (write_state b a l buf s) = replay c (write_steps c a (unat l) buf)"
    and "wtrace (write_state b a l buf s) = wtrace s @ issued b a l buf s"
    and "cpu (write_state b a l buf s) = replay (cpu s) (issued b a l buf s)"
proof -
  have wf: "arena_wf b a" using inv by (simp add: arena_inv_def)
  note d = data_store_facts [OF inv] and fl = flog_off_facts [OF inv]
  note m = arena_wf_map_addr(4) [OF wf l]
  have len: "length (map_bytes ((map_line c a l)[p := x])) = 64" for p x
    using map_line_facts(1) [OF wf l, of c] by simp
  note addr = ns_fits_addr [OF d(2)] ns_fits_addr [OF fl(3)] ns_fits_addr [OF fl(4)] ns_fits_addr [OF m]
  show wt: "wtrace (write_state b a l buf s) = wtrace s @ issued b a l buf s"
    using addr fl by (simp add: write_state_def issued_def Let_def)
  show cpu: "cpu (write_state b a l buf s) = replay (cpu s) (issued b a l buf s)"
    using addr fl by (simp add: write_state_def issued_def Let_def ns_store_def)
  show "ns_content (pNamespace b) (write_state b a l buf s) = replay c (write_steps c a (unat l) buf)"
    using issued_prefix [OF inv l buf c, of 4]
    by (simp add: ns_content_def cpu write_steps_def issued_def Let_def)
qed

lemma BttWriteToArena_ok:
  assumes inv: "arena_inv b c a" and l: "unat l < unat (ExternalNLbas a)" and buf: "length buf = unat (LbaSize b)"
    and c: "c = ns_content (pNamespace b) s" and r: "ns_ready (pNamespace b) s" and lanes: "NLanes b = 0"
    and a: "a = Arenas b ! i" and fl: "Flags a AND BTTINFO_FLAG_ERROR_MASK = 0"
  shows "BttWriteToArena b i l buf s =
           Some (EFI_SUCCESS, set_arena b i (arena_after a (unat l) (old_map c a (unat l))), write_state b a l buf s)"
proof -
  have wf: "arena_wf b a" using inv by (simp add: arena_inv_def)
  define s1 where "s1 = ns_store (pNamespace b) (DataBlockAddr a (free_map a)) buf s"
  note d = data_store_facts [OF inv]
  have fm: "fOldMap (flog_at (FlogPair (pFlogs a ! 0)) (1 - Next (pFlogs a ! 0))) AND BTT_MAP_ENTRY_LBA_MASK
      OR BTT_MAP_ENTRY_NORMAL = free_map a"
    by (simp add: free_map_def cur_flog_def)
  have w1: "WriteNamespaceBytes (pNamespace b) (DataBlockAddr a (free_map a)) buf (ucast (LbaSize b)) s = (EFI_SUCCESS, s1)"
    using WriteNamespaceBytes_ok [OF r, of "DataBlockAddr a (free_map a)" "ucast (LbaSize b)" buf] d buf
    by (simp add: s1_def)
  have r1: "ns_ready (pNamespace b) s1" using r by (simp add: s1_def)
  have c1: "ns_content (pNamespace b) s1 = mem_write c (unat (DataOffset a) + free_of (pFlogs a ! 0) * unat (InternalLbaSize a)) buf"
    using d buf by (simp add: s1_def ns_content_store c)
  note ml = map_line_data_store [OF inv l buf, folded c1]
  have lock: "BttMapLock b a l s1 =
      (EFI_SUCCESS, (map_line c a l)[unat (BttGetPositionInMapFromLba l) := old_map c a (unat l)], s1)"
    using BttMapLock_ok [OF wf l r1] ml by simp
  have old: "(map_line c a l)[unat (BttGetPositionInMapFromLba l) := x] ! unat (BttGetPositionInMapFromLba l) = x" for x
    using map_line_facts(1) [OF wf l, of c] by (simp add: map_number_position)
  note upd = BttFlogUpdate_ok [OF inv r1, of l "old_map c a (unat l)"]
  have unlock: "BttMapUnlock b (arena_after a (unat l) old) ((map_line c a l)[p := x]) l s' =
      (EFI_SUCCESS, ns_store (pNamespace b) (MapEntryAddr a l) (map_bytes ((map_line c a l)[p := x])) s')"
    if "ns_ready (pNamespace b) s'" for p x s' old
    using that arena_wf_map_addr(4) [OF wf l] map_line_facts(1) [OF wf l, of c]
    by (simp add: BttMapUnlock_def MapEntryAddr_def WriteNamespaceBytes_ok)
  have ws: "write_state b a l buf s =
      ns_store (pNamespace b) (MapEntryAddr a l)
        (map_bytes ((map_line c a l)[unat (BttGetPositionInMapFromLba l) := free_map a]))
        (snd (snd (BttFlogUpdate b a l (old_map c a (unat l)) (free_map a) s1)))"
    unfolding upd by (simp add: write_state_def s1_def c Let_def)
  show ?thesis
    unfolding ws using r1 lanes fl
    by (simp add: BttWriteToArena_def Let_def a [symmetric] fm w1 lock old upd unlock)
qed

section \<open>What a write changes\<close>

lemma set_arena_fields [simp]:
  "Laidout (set_arena b i a) = Laidout b" "NLanes (set_arena b i a) = NLanes b"
  "LbaSize (set_arena b i a) = LbaSize b" "NFree (set_arena b i a) = NFree b"
  "NLbas (set_arena b i a) = NLbas b" "NArenas (set_arena b i a) = NArenas b"
  "pNamespace (set_arena b i a) = pNamespace b" "Arenas (set_arena b i a) = (Arenas b)[i := a]"
  by (simp_all add: set_arena_def)

lemma arena_view_set_arena [simp]:
  "arena_inv (set_arena b i x) c a = arena_inv b c a" "arena_abs (set_arena b i x) c a = arena_abs b c a"
  by (simp_all add: arena_inv_def arena_wf_def arena_abs_def data_block_def fun_eq_iff Let_def)

lemma replay_outside:
  "list_all (\<lambda>(x, bs). lo \<le> x \<and> x + length bs \<le> hi) ws \<Longrightarrow> y < lo \<or> hi \<le> y \<Longrightarrow> replay c ws y = c y"
  by (induction ws arbitrary: c) (auto simp: mem_write_def)

text \<open>An arena depends on the contents of its own range only.\<close>

definition same_range :: "memory \<Rightarrow> memory \<Rightarrow> arena \<Rightarrow> bool" where
  "same_range c c' a \<longleftrightarrow> (\<forall>x. unat (StartOffset a) \<le> x \<longrightarrow> x < arena_end a \<longrightarrow> c' x = c x)"

lemma same_range_read:
  "same_range c c' a \<Longrightarrow> unat (StartOffset a) \<le> x \<Longrightarrow> x + n \<le> arena_end a \<Longrightarrow> mem_read c' x n = mem_read c x n"
  by (rule mem_read_cong) (simp add: same_range_def)

lemma arena_cong:
  assumes "same_range c c' a" and "arena_wf b a"
  shows "l < unat (ExternalNLbas a) \<Longrightarrow> map_entry c' a l = map_entry c a l"
    and "m < unat (InternalNLbas a) \<Longrightarrow> data_block b c' a m = data_block b c a m"
    and "mem_read c' (unat (FlogOffset a)) 64 = mem_read c (unat (FlogOffset a)) 64"
proof -
  note r = arena_regions [OF assms(2)]
  have "unat (StartOffset a) \<le> unat (MapOffset a)" "unat (MapOffset a) \<le> unat (FlogOffset a)"
    using assms(2) unfolding arena_wf_def by linarith+
  moreover from this have "unat (MapOffset a) \<le> arena_end a" using r(4) by linarith
  ultimately show "l < unat (ExternalNLbas a) \<Longrightarrow> map_entry c' a l = map_entry c a l"
    "m < unat (InternalNLbas a) \<Longrightarrow> data_block b c' a m = data_block b c a m"
    "mem_read c' (unat (FlogOffset a)) 64 = mem_read c (unat (FlogOffset a)) 64"
    using r(1) [of m] r(2) [of m] r(3) [of l] r(4) unfolding map_entry_def data_block_def
    by (simp_all add: same_range_read [OF assms(1)])
qed

lemma arena_inv_cong:
  assumes same: "same_range c c' a" and inv: "arena_inv b c a"
  shows "arena_inv b c' a" and "l < unat (ExternalNLbas a) \<Longrightarrow> arena_abs b c' a l = arena_abs b c a l"
proof -
  have wf: "arena_wf b a" using inv by (simp add: arena_inv_def)
  note r = arena_cong [OF same wf]
  have "blk c' a l = blk c a l" if "l < unat (ExternalNLbas a)" for l
    using that r(1) by (simp add: blk_def)
  then have "all_blocks c' a = all_blocks c a" by (simp add: all_blocks_def)
  moreover have "unat (fLba (cur_flog (pFlogs a ! 0))) < unat (ExternalNLbas a)"
    using inv by (auto simp: arena_inv_def flog_synced_def Let_def cur_flog_def flog_at_def)
  ultimately show "arena_inv b c' a"
    using inv r(1) r(3) by (simp add: arena_inv_def flog_synced_def Let_def)
  assume l: "l < unat (ExternalNLbas a)"
  show "arena_abs b c' a l = arena_abs b c a l"
  proof (cases "MapEntryIsZeroOrInitial (map_entry c a l)")
    case False
    then have "blk c a l = unat (map_entry c a l AND BTT_MAP_ENTRY_LBA_MASK)"
      by (intro blk_of_entry) (auto simp: MapEntryIsZeroOrInitial_def MapEntryIsInitial_def)
    with arena_inv_blk [OF inv l] r(1) [OF l] r(2) show ?thesis by (simp add: arena_abs_def Let_def)
  qed (simp add: arena_abs_def r(1) [OF l] Let_def)
qed

lemma arena_abs_write:
  assumes inv: "arena_inv b c a" and l: "l < unat (ExternalNLbas a)" and buf: "length buf = unat (LbaSize b)"
    and l': "l' < unat (ExternalNLbas a)"
  shows "arena_abs b (replay c (take j (write_steps c a l buf))) a l' =
           (if 4 \<le> j \<and> l' = l then Some buf else arena_abs b c a l')"
proof (cases "4 \<le> j \<and> l' = l")
  case True
  then show ?thesis
    using write_steps_map [OF inv l buf l', of j] write_steps_data [OF inv l buf free_of_bound [OF inv], of j]
    by (simp add: arena_abs_def free_map_facts Let_def)
next
  case False
  then have e: "map_entry (replay c (take j (write_steps c a l buf))) a l' = map_entry c a l'"
    using write_steps_map [OF inv l buf l', of j] by auto
  have "data_block b (replay c (take j (write_steps c a l buf))) a (blk c a l') = data_block b c a (blk c a l')"
  proof -
    have ne: "pFlogs a \<noteq> []" using inv by (auto simp: arena_inv_def arena_wf_def)
    have "blk c a l' \<in> blk c a ` {0..<unat (ExternalNLbas a)}" using l' by simp
    then have "blk c a l' \<noteq> free_of (pFlogs a ! 0)"
      using inv ne unfolding arena_inv_def all_blocks_def by (cases "pFlogs a") auto
    then show ?thesis
      using write_steps_data [OF inv l buf arena_inv_blk [OF inv l'], of j] by simp
  qed
  moreover have "\<not> MapEntryIsZeroOrInitial (map_entry c a l') \<Longrightarrow>
      blk c a l' = unat (map_entry c a l' AND BTT_MAP_ENTRY_LBA_MASK)"
    by (intro blk_of_entry) (auto simp: MapEntryIsZeroOrInitial_def MapEntryIsInitial_def)
  ultimately show ?thesis using False e by (auto simp: arena_abs_def Let_def)
qed

lemma arena_walk_Some:
  "arena_walk as k Lba = Some (n, p) \<Longrightarrow>
     \<exists>i < length as. n = k + i \<and> unat p < unat (ExternalNLbas (as ! i))
       \<and> unat Lba = (\<Sum>a\<leftarrow>take i as. unat (ExternalNLbas a)) + unat p"
proof (induction as arbitrary: k Lba)
  case (Cons a as)
  show ?case
  proof (cases "Lba < ucast (ExternalNLbas a)")
    case True
    with Cons.prems show ?thesis by (intro exI [of _ 0]) (simp add: word_less_nat_alt)
  next
    case False
    then have le: "unat (ExternalNLbas a) \<le> unat Lba" by (simp add: word_less_nat_alt)
    then have "unat (Lba - ucast (ExternalNLbas a)) = unat Lba - unat (ExternalNLbas a)"
      by (simp add: unat_sub word_le_nat_alt)
    with Cons.IH [of "Suc k" "Lba - ucast (ExternalNLbas a)"] Cons.prems False le
    obtain i where "i < length as" "n = Suc k + i" "unat p < unat (ExternalNLbas (as ! i))"
      "unat Lba - unat (ExternalNLbas a) = (\<Sum>a\<leftarrow>take i as. unat (ExternalNLbas a)) + unat p" by auto
    with le show ?thesis by (intro exI [of _ "Suc i"]) simp
  qed
qed simp

section \<open>The device after a write\<close>

definition btt_after :: "btt \<Rightarrow> nat \<Rightarrow> u32 \<Rightarrow> sys \<Rightarrow> btt" where
  "btt_after b i p s =
     (let a = Arenas b ! i in set_arena b i (arena_after a (unat p) (old_map (ns_content (pNamespace b) s) a (unat p))))"

lemma arenas_disjoint:
  assumes "btt_inv b s" and "i < length (Arenas b)" and "k < length (Arenas b)" and "i \<noteq> k"
  shows "arena_end (Arenas b ! i) \<le> unat (StartOffset (Arenas b ! k))
       \<or> arena_end (Arenas b ! k) \<le> unat (StartOffset (Arenas b ! i))"
  using assms sorted_wrt_nth_less [of _ "Arenas b" i k] sorted_wrt_nth_less [of _ "Arenas b" k i]
  by (auto simp: btt_inv_def linorder_neq_iff)

lemma write_same_range:
  assumes inv: "btt_inv b s" and i: "i < length (Arenas b)" and k: "k < length (Arenas b)" "i \<noteq> k"
    and p: "unat p < unat (ExternalNLbas (Arenas b ! i))" and buf: "length buf = unat (LbaSize b)"
  defines "c \<equiv> ns_content (pNamespace b) s"
  shows "same_range c (replay c (take j (write_steps c (Arenas b ! i) (unat p) buf))) (Arenas b ! k)"
proof -
  let ?a = "Arenas b ! i"
  have ainv: "arena_inv b c ?a" using inv i by (simp add: btt_inv_def c_def)
  have "list_all (\<lambda>(x, bs). unat (StartOffset ?a) \<le> x \<and> x + length bs \<le> arena_end ?a) (take j (write_steps c ?a (unat p) buf))"
    unfolding list_all_iff using write_steps_inside [OF ainv p buf] by (fastforce dest: in_set_takeD)
  from replay_outside [OF this] arenas_disjoint [OF inv i k] show ?thesis
    unfolding same_range_def by (meson le_trans not_le order_less_le_trans)
qed

lemma sorted_wrt_same_keys:
  "map f xs = map f ys \<Longrightarrow> sorted_wrt (\<lambda>x y. R (f x) (f y)) xs = sorted_wrt (\<lambda>x y. R (f x) (f y)) ys"
  by (metis sorted_wrt_map)

lemma sum_list_same_keys: "map g xs = map g ys \<Longrightarrow> (\<Sum>x\<leftarrow>xs. h (g x)) = (\<Sum>x\<leftarrow>ys. h (g x))"
proof -
  have "map (\<lambda>x. h (g x)) zs = map h (map g zs)" for zs by simp
  then show "map g xs = map g ys \<Longrightarrow> (\<Sum>x\<leftarrow>xs. h (g x)) = (\<Sum>x\<leftarrow>ys. h (g x))" by (simp only:)
qed

lemma btt_abs_point:
  fixes p :: u32
  assumes w: "arena_walk (Arenas b) 0 Lba = Some (i, ucast p)"
    and ext: "map ExternalNLbas (Arenas b') = map ExternalNLbas (Arenas b)"
    and abs: "\<And>k l'. k < length (Arenas b) \<Longrightarrow> l' < unat (ExternalNLbas (Arenas b ! k)) \<Longrightarrow>
      arena_abs b' (ns_content (pNamespace b') s') (Arenas b' ! k) l' =
        (if upd \<and> k = i \<and> l' = unat p then Some buf
         else arena_abs b (ns_content (pNamespace b) s) (Arenas b ! k) l')"
  shows "btt_abs b' s' = (if upd then (btt_abs b s)(Lba := Some buf) else btt_abs b s)"
proof
  fix Lba'
  show "btt_abs b' s' Lba' = (if upd then (btt_abs b s)(Lba := Some buf) else btt_abs b s) Lba'"
  proof (cases "arena_walk (Arenas b) 0 Lba'")
    case None
    then show ?thesis using w arena_walk_cong [OF ext, of 0 Lba'] by (auto simp: btt_abs_def)
  next
    case (Some kq)
    obtain k q where kq: "kq = (k, q)" by fastforce
    from arena_walk_Some [OF Some [unfolded kq]] have k: "k < length (Arenas b)" "unat q < unat (ExternalNLbas (Arenas b ! k))"
      "unat Lba' = (\<Sum>a\<leftarrow>take k (Arenas b). unat (ExternalNLbas a)) + unat q" by auto
    from arena_walk_Some [OF w] have lba: "unat Lba = (\<Sum>a\<leftarrow>take i (Arenas b). unat (ExternalNLbas a)) + unat p" by auto
    have "Lba' = Lba \<Longrightarrow> k = i \<and> unat q = unat p" using Some w kq by auto
    moreover have "k = i \<Longrightarrow> unat q = unat p \<Longrightarrow> Lba' = Lba"
      using k(3) lba by (simp add: word_unat_eq_iff)
    ultimately have same: "Lba' = Lba \<longleftrightarrow> k = i \<and> unat q = unat p" by blast
    show ?thesis
      using arena_walk_cong [OF ext, of 0 Lba'] Some kq same abs [OF k(1,2)] by (auto simp: btt_abs_def)
  qed
qed

lemma btt_after_write:
  assumes inv: "btt_inv b s" and i: "i < length (Arenas b)"
    and p: "unat p < unat (ExternalNLbas (Arenas b ! i))" and buf: "length buf = unat (LbaSize b)"
  defines "b' \<equiv> btt_after b i p s" and "s' \<equiv> write_state b (Arenas b ! i) p buf s"
  shows "btt_inv b' s'"
    and "arena_walk (Arenas b) 0 Lba = Some (i, ucast p) \<Longrightarrow> btt_abs b' s' = (btt_abs b s)(Lba := Some buf)"
proof -
  let ?a = "Arenas b ! i" and ?c = "ns_content (pNamespace b) s"
  let ?c' = "replay ?c (write_steps ?c ?a (unat p) buf)"
  let ?a' = "arena_after ?a (unat p) (old_map ?c ?a (unat p))"
  have ainv: "arena_inv b ?c a" if "a \<in> set (Arenas b)" for a using inv that by (simp add: btt_inv_def)
  have ia: "arena_inv b ?c ?a" using ainv i by simp
  have tk: "take 4 (write_steps ?c ?a (unat p) buf) = write_steps ?c ?a (unat p) buf"
    by (simp add: write_steps_def Let_def)
  have c': "ns_content (pNamespace b) s' = ?c'"
    using write_state_content(1) [OF ia p buf refl] by (simp add: s'_def)
  have b': "b' = set_arena b i ?a'" by (simp add: b'_def btt_after_def Let_def)
  have other: "arena_inv b ?c' (Arenas b ! k)"
      "\<And>l. l < unat (ExternalNLbas (Arenas b ! k)) \<Longrightarrow> arena_abs b ?c' (Arenas b ! k) l = arena_abs b ?c (Arenas b ! k) l"
    if "k < length (Arenas b)" "i \<noteq> k" for k
    using arena_inv_cong [OF write_same_range [OF inv i that p buf, of 4, unfolded tk] ainv] that by simp_all
  have "arena_inv b ?c' a" if "a \<in> set ((Arenas b)[i := ?a'])" for a
    using that i arena_inv_write [OF ia p buf] other(1)
    by (auto simp: in_set_conv_nth nth_list_update)
  moreover have "map f ((Arenas b)[i := ?a']) = map f (Arenas b)" if "f ?a' = f ?a" for f :: "arena \<Rightarrow> 'x"
    using that by (simp add: map_update) (metis list_update_id map_update)
  from this [of "\<lambda>a. (arena_end a, StartOffset a)"] have
    "sorted_wrt (\<lambda>a a'. arena_end a \<le> unat (StartOffset a')) ((Arenas b)[i := ?a'])"
    using inv sorted_wrt_same_keys [of "\<lambda>a. (arena_end a, StartOffset a)" "(Arenas b)[i := ?a']" "Arenas b"
        "\<lambda>x y. fst x \<le> unat (snd y)"]
    by (simp add: btt_inv_def)
  moreover have ext: "map ExternalNLbas ((Arenas b)[i := ?a']) = map ExternalNLbas (Arenas b)"
    by (simp add: map_update) (metis list_update_id map_update)
  then have "(\<Sum>a\<leftarrow>(Arenas b)[i := ?a']. unat (ExternalNLbas a)) = (\<Sum>a\<leftarrow>Arenas b. unat (ExternalNLbas a))"
    by (rule sum_list_same_keys)
  ultimately show "btt_inv b' s'"
    using inv c' by (simp add: btt_inv_def b' s'_def)
  assume w: "arena_walk (Arenas b) 0 Lba = Some (i, ucast p)"
  have "arena_abs b' (ns_content (pNamespace b') s') (Arenas b' ! k) l' =
      (if True \<and> k = i \<and> l' = unat p then Some buf else arena_abs b ?c (Arenas b ! k) l')"
    if "k < length (Arenas b)" "l' < unat (ExternalNLbas (Arenas b ! k))" for k l'
    using that c' i other(2) [of k l'] arena_abs_write [OF ia p buf, of l' 4]
    by (cases "k = i") (auto simp: b' tk)
  from btt_abs_point [OF w _ this] ext show "btt_abs b' s' = (btt_abs b s)(Lba := Some buf)"
    by (simp add: b')
qed

section \<open>Refinement to a block device\<close>

definition btt_writable :: "btt \<Rightarrow> sys \<Rightarrow> bool" where
  "btt_writable b s \<longleftrightarrow> btt_inv b s \<and> (\<forall>a \<in> set (Arenas b). Flags a AND BTTINFO_FLAG_ERROR_MASK = 0)"

lemma btt_after_fields [simp]:
  "NLbas (btt_after b i p s) = NLbas b" "LbaSize (btt_after b i p s) = LbaSize b"
  "pNamespace (btt_after b i p s) = pNamespace b"
  by (simp_all add: btt_after_def Let_def)

lemma BttWrite_ok:
  assumes inv: "btt_inv b s" and lba: "Lba < NLbas b" and buf: "length buf = unat (LbaSize b)"
  obtains i p where "arena_walk (Arenas b) 0 Lba = Some (i, ucast p)" and "i < length (Arenas b)"
    and "unat p < unat (ExternalNLbas (Arenas b ! i))"
    and "BttWrite b Lba buf s =
           (if Flags (Arenas b ! i) AND BTTINFO_FLAG_ERROR_MASK = 0
            then Some (EFI_SUCCESS, btt_after b i p s, write_state b (Arenas b ! i) p buf s)
            else Some (EFI_ABORTED, b, s))"
proof -
  obtain i p where walk: "BttLbaToArenaLba b Lba = Inr (i, p)"
      "arena_walk (Arenas b) 0 Lba = Some (i, ucast p)" "i < length (Arenas b)"
      "unat p < unat (ExternalNLbas (Arenas b ! i))"
    using BttLbaToArenaLba_found [OF inv lba] by metis
  have "arena_inv b (ns_content (pNamespace b) s) (Arenas b ! i)" and b: "Laidout b" "NLanes b = 0" "ns_ready (pNamespace b) s"
    using inv walk by (auto simp: btt_inv_def)
  from BttWriteToArena_ok [OF this(1) walk(4) buf refl b(3,2) refl]
  have "BttWrite b Lba buf s =
           (if Flags (Arenas b ! i) AND BTTINFO_FLAG_ERROR_MASK = 0
            then Some (EFI_SUCCESS, btt_after b i p s, write_state b (Arenas b ! i) p buf s)
            else Some (EFI_ABORTED, b, s))"
    using lba b(1) walk(1) by (auto simp: BttWrite_def IsLbaValid_def btt_after_def Let_def BttWriteToArena_def)
  with that walk show ?thesis by blast
qed

lemma BttWrite_step:
  assumes w: "btt_writable b s" and lba: "Lba < NLbas b" and buf: "length buf = unat (LbaSize b)"
  shows "\<exists>b' s'. BttWrite b Lba buf s = Some (EFI_SUCCESS, b', s') \<and> btt_writable b' s'
           \<and> btt_abs b' s' = (btt_abs b s)(Lba := Some buf) \<and> NLbas b' = NLbas b \<and> LbaSize b' = LbaSize b"
proof -
  have inv: "btt_inv b s" and fl: "\<And>a. a \<in> set (Arenas b) \<Longrightarrow> Flags a AND BTTINFO_FLAG_ERROR_MASK = 0"
    using w by (auto simp: btt_writable_def)
  obtain i p where walk: "arena_walk (Arenas b) 0 Lba = Some (i, ucast p)" "i < length (Arenas b)"
      "unat p < unat (ExternalNLbas (Arenas b ! i))"
    and eq: "BttWrite b Lba buf s = Some (EFI_SUCCESS, btt_after b i p s, write_state b (Arenas b ! i) p buf s)"
    using BttWrite_ok [OF inv lba buf] fl by (metis nth_mem)
  note after = btt_after_write [OF inv walk(2,3) buf]
  have "Flags a AND BTTINFO_FLAG_ERROR_MASK = 0" if "a \<in> set (Arenas (btt_after b i p s))" for a
    using that fl fl [OF nth_mem [OF walk(2)]]
    by (auto simp: btt_after_def Let_def dest!: subsetD [OF set_update_subset_insert])
  with eq after(1) after(2) [OF walk(1)] show ?thesis by (auto simp: btt_writable_def)
qed

section \<open>A small device\<close>

text \<open>
  One arena with two external blocks, three internal blocks of 64 bytes and one flog pair,
  freshly laid out: the map is zero and block 2 is free.
\<close>

definition ex_ns :: namespace where
  "ex_ns = \<lparr>SpaNamespaceBase = 0x10000, pParentIS = Some [0], MediaBlockSize = 4, BlockSize = 4,
     BlockCount = 4194304, NsMajor = 1, NsMinor = 2, UsableSize = 8\<rparr>"

definition ex_info :: btt_info where
  "ex_info = sealed \<lparr>iSig = Sig, iUuid = replicate 16 0, iParentUuid = replicate 16 0, iFlags = 0,
     iMajor = 2, iMinor = 0, iExternalLbaSize = 4, iExternalNLbas = 2, iInternalLbaSize = 64,
     iInternalNLbas = 3, iNFree = 1, iInfoSize = 4096, iNextOffset = 0, iDataOffset = 4096,
     iMapOffset = 4288, iFlogOffset = 4352, iInfoOffset = 8192, iUnused = replicate 3968 0, iChecksum = 0\<rparr>"

definition ex_sys :: sys where
  "ex_sys = \<lparr>cpu = mem_write (mem_write (\<lambda>_. 0) 0x10000 (info_bytes ex_info))
                    (0x10000 + 4352) (flog_pair_bytes (initial_flog_pair 2)),
     media = (\<lambda>_. 0), wtrace = [], gArsBadRecordsCount = 0, gArsBadRecords = None,
     ars_count = (EFI_SUCCESS, 0), ars_records = (EFI_SUCCESS, 0, []), allocs = [], rng = []\<rparr>"

definition ex_arena :: arena where
  "ex_arena = \<lparr>Flags = 0, ExternalNLbas = 2, InternalLbaSize = 64, InternalNLbas = 3,
     StartOffset = 0, DataOffset = 4096, MapOffset = 4288, FlogOffset = 4352, NextOffset = 0,
     pFlogs = [\<lparr>FlogPair = initial_flog_pair 2, Entry = 4352, Next = 1\<rparr>], pRtt = [BTT_MAP_ENTRY_ERROR]\<rparr>"

definition ex_btt :: btt where
  "ex_btt = \<lparr>Laidout = True, NLanes = 0, Uuid = replicate 16 0, ParentUuid = replicate 16 0,
     RawSize = 16777216, LbaSize = 4, BttInternalLbaSize = 64, NFree = 1, NLbas = 2, NArenas = 1,
     PrimaryInfoOffset = 0, Arenas = [ex_arena], pNamespace = ex_ns\<rparr>"

lemma ex_content:
  "ns_content ex_ns ex_sys =
     mem_write (mem_write (\<lambda>_. 0) 0 (info_bytes ex_info)) 4352 (flog_pair_bytes (initial_flog_pair 2))"
  by (auto simp: ns_content_def ex_ns_def ex_sys_def mem_write_def fun_eq_iff)

lemma ex_info_length [simp]: "length (info_bytes ex_info) = 4096"
  by (rule length_codecs(3)) (simp add: info_wf_def ex_info_def Sig_def)

lemma ex_pair_length [simp]: "length (flog_pair_bytes (initial_flog_pair x)) = 64"
  by (simp add: flog_pair_bytes_def initial_flog_pair_def zero_flog_pair_def)

lemma mem_read_zero [simp]: "mem_read (\<lambda>_. 0) x n = replicate n 0"
  by (rule nth_equalityI) auto

lemma ex_map_entry: "l < 2 \<Longrightarrow> map_entry (ns_content ex_ns ex_sys) ex_arena l = 0"
  by (simp add: ex_content map_entry_def ex_arena_def mem_simps)

lemma ex_arena_inv: "arena_inv ex_btt (ns_content ex_ns ex_sys) ex_arena"
proof -
  have "blk (ns_content ex_ns ex_sys) ex_arena l = l" if "l < 2" for l
    using that by (auto simp: blk_def ex_map_entry norm_entry_def MapEntryIsInitial_def less_2_cases_iff)
  moreover have "unat (ExternalNLbas ex_arena) = 2" "map free_of (pFlogs ex_arena) = [2]" "[0..<2] = [0, 1 :: nat]"
    by (simp_all add: ex_arena_def free_of_def cur_flog_def flog_at_def initial_flog_pair_def upt_rec)
  ultimately have "all_blocks (ns_content ex_ns ex_sys) ex_arena = [0, 1, 2]"
    by (simp add: all_blocks_def)
  moreover have "arena_wf ex_btt ex_arena"
    by (simp add: arena_wf_def ex_btt_def ex_arena_def arena_end_def ex_ns_def)
  moreover have "parse_flog_pair (mem_read (ns_content ex_ns ex_sys) 4352 64) = initial_flog_pair 2"
    by (simp add: ex_content mem_write_same, subst parse_flog_pair_bytes) 
      (simp_all add: initial_flog_pair_def zero_flog_pair_def)
  then have "flog_synced (ns_content ex_ns ex_sys) ex_arena"
    by (simp add: flog_synced_def ex_arena_def cur_flog_def flog_at_def Let_def)
      (simp add: initial_flog_pair_def zero_flog_pair_def zero_flog_def FlogSelect_def)
  ultimately show ?thesis
    by (auto simp: arena_inv_def ex_arena_def)
qed

lemma ex_writable: "btt_writable ex_btt ex_sys"
proof -
  have "pNamespace ex_btt = ex_ns" "Arenas ex_btt = [ex_arena]" by (simp_all add: ex_btt_def)
  moreover have "ns_ready ex_ns ex_sys" by (simp add: ns_ready_def ex_ns_def ex_sys_def)
  ultimately show ?thesis
    using ex_arena_inv by (simp add: btt_writable_def btt_inv_def) (simp add: ex_btt_def ex_arena_def)
qed

section \<open>Properties\<close>

text \<open>
  C3: on a consistent device \<open>BttRead\<close> is a function of the abstract contents: an address out
  of range is refused, a poisoned block gives \<open>EFI_ABORTED\<close> and leaves the buffer alone, any
  other block is returned in full; handle and system state do not change.
\<close>

theorem BttRead_correct:
  assumes "btt_inv b s" and "length buf = unat (LbaSize b)"
  shows "BttRead b Lba buf s =
           (if NLbas b \<le> Lba then (EFI_INVALID_PARAMETER, buf, b, s)
            else case btt_abs b s Lba of
                   None \<Rightarrow> (EFI_ABORTED, buf, b, s)
                 | Some d \<Rightarrow> (EFI_SUCCESS, d, b, s))"
proof (cases "Lba < NLbas b")
  case True
  then show ?thesis using BttRead_refines [OF assms(1) True assms(2)] by (simp flip: not_less)
next
  case False
  then show ?thesis by (simp add: BttRead_def IsLbaValid_def not_less)
qed

theorem BttRead_correct_witness:
  "BttRead ex_btt 1 [9, 9, 9, 9] ex_sys = (EFI_SUCCESS, [0, 0, 0, 0], ex_btt, ex_sys)"
proof -
  have four: "replicate 4 0 = [0, 0, 0, 0 :: u8]" by (simp add: numeral_eq_Suc)
  have "arena_walk (Arenas ex_btt) 0 1 = Some (0, 1)" by (simp add: ex_btt_def ex_arena_def)
  then have "btt_abs ex_btt ex_sys 1 = Some [0, 0, 0, 0]"
    using ex_map_entry [of 1]
    by (simp add: btt_abs_def ex_btt_def arena_abs_def MapEntryIsError_def MapEntryIsZeroOrInitial_def
        Let_def four)
  then show ?thesis
    using BttRead_correct [of ex_btt ex_sys "[9, 9, 9, 9]" 1] ex_writable
    by (simp add: btt_writable_def ex_btt_def flip: not_less)
qed

text \<open>
  C2: \<open>BttWrite\<close> refines the write of a block device: on a consistent device without error flags
  it ends with \<open>EFI_SUCCESS\<close>, the device is consistent again, and exactly the written address
  changes, to the given buffer.
\<close>

theorem BttWrite_refines:
  assumes "btt_writable b s" and "Lba < NLbas b" and "length buf = unat (LbaSize b)"
  shows "\<exists>b' s'. BttWrite b Lba buf s = Some (EFI_SUCCESS, b', s') \<and> btt_writable b' s'
           \<and> btt_abs b' s' = (btt_abs b s)(Lba := Some buf)
           \<and> NLbas b' = NLbas b \<and> LbaSize b' = LbaSize b"
  using assms by (rule BttWrite_step)

theorem BttWrite_refines_witness:
  "\<exists>b' s'. BttWrite ex_btt 1 [1, 2, 3, 4] ex_sys = Some (EFI_SUCCESS, b', s') \<and> btt_writable b' s'
     \<and> btt_abs b' s' 1 = Some [1, 2, 3, 4]"
  using BttWrite_refines [of ex_btt ex_sys 1 "[1, 2, 3, 4]"] ex_writable
  by (auto simp: ex_btt_def)

text \<open>
  C4: a write exchanges the free block of the flog with the block its address was mapped to:
  the blocks named by map and flog are the same multiset before and after, so no block is lost
  and none is used twice.
\<close>

theorem BttWrite_conserves_blocks:
  assumes "btt_writable b s" and "Lba < NLbas b" and "length buf = unat (LbaSize b)"
    and "BttWrite b Lba buf s = Some (rc, b', s')" and "k < length (Arenas b)"
  shows "mset (all_blocks (ns_content (pNamespace b) s') (Arenas b' ! k))
       = mset (all_blocks (ns_content (pNamespace b) s) (Arenas b ! k))"
proof -
  have inv: "btt_inv b s" and fl: "\<And>i. i < length (Arenas b) \<Longrightarrow> Flags (Arenas b ! i) AND BTTINFO_FLAG_ERROR_MASK = 0"
    using assms(1) by (auto simp: btt_writable_def)
  obtain i p where i: "i < length (Arenas b)" and p: "unat p < unat (ExternalNLbas (Arenas b ! i))"
    and eq: "BttWrite b Lba buf s = Some (EFI_SUCCESS, btt_after b i p s, write_state b (Arenas b ! i) p buf s)"
    using BttWrite_ok [OF inv assms(2,3)] fl by metis
  let ?c = "ns_content (pNamespace b) s"
  have ia: "arena_inv b ?c (Arenas b ! i)" and ik: "arena_inv b ?c (Arenas b ! k)"
    using inv i assms(5) by (auto simp: btt_inv_def)
  have c': "ns_content (pNamespace b) s' = replay ?c (write_steps ?c (Arenas b ! i) (unat p) buf)"
    using eq assms(4) write_state_content(1) [OF ia p assms(3) refl] by simp
  show ?thesis
  proof (cases "k = i")
    case True
    then show ?thesis
      using eq assms(4) all_blocks_write [OF ia p assms(3)] i c' by (auto simp: btt_after_def Let_def)
  next
    case False
    have "same_range ?c (ns_content (pNamespace b) s') (Arenas b ! k)"
      using write_same_range [OF inv i assms(5) _ p assms(3), of 4] False
      by (simp add: c' write_steps_def Let_def)
    from arena_cong(1) [OF this] ik
    have "all_blocks (ns_content (pNamespace b) s') (Arenas b ! k) = all_blocks ?c (Arenas b ! k)"
      by (auto simp: all_blocks_def blk_def arena_inv_def)
    with False eq assms(4) show ?thesis by (auto simp: btt_after_def Let_def)
  qed
qed

theorem BttWrite_conserves_blocks_witness:
  "\<exists>b' s'. BttWrite ex_btt 1 [1, 2, 3, 4] ex_sys = Some (EFI_SUCCESS, b', s')
     \<and> mset (all_blocks (ns_content ex_ns s') (Arenas b' ! 0)) = mset (all_blocks (ns_content ex_ns ex_sys) ex_arena)"
proof -
  have small: "1 < NLbas ex_btt" "length [1, 2, 3, 4 :: u8] = unat (LbaSize ex_btt)" "0 < length (Arenas ex_btt)"
    and f: "pNamespace ex_btt = ex_ns" "Arenas ex_btt ! 0 = ex_arena"
    by (simp_all add: ex_btt_def)
  obtain b' s' where w: "BttWrite ex_btt 1 [1, 2, 3, 4] ex_sys = Some (EFI_SUCCESS, b', s')"
    using BttWrite_step [OF ex_writable small(1,2)] by blast
  from BttWrite_conserves_blocks [OF ex_writable small(1,2) w small(3)] w f show ?thesis by auto
qed

end
