(* ===== verification/Btt_Recovery.thy ===== *)
theory Btt_Recovery
  imports Btt_Write
begin

text \<open>
  Loading an arena from media, and what a power failure inside \<open>BttWrite\<close> leaves to load:
  for every prefix of the four stores, \<open>BttReadArena\<close> rebuilds a consistent arena in which the
  interrupted write has happened completely or not at all.
\<close>

section \<open>What an arena loads to\<close>

definition load_flog :: "memory \<Rightarrow> u64 \<Rightarrow> flog_runtime" where
  "load_flog c off =
     (let p = parse_flog_pair (mem_read c (unat off) 64)
      in \<lparr>FlogPair = p, Entry = off,
          Next = (case FlogSelect (fSeq (flog0 p)) (fSeq (flog1 p)) of None \<Rightarrow> 0 | Some i \<Rightarrow> 1 - i)\<rparr>)"

definition flog_pos :: "arena \<Rightarrow> nat \<Rightarrow> u64" where
  "flog_pos a i = FlogOffset a + 64 * of_nat i"

definition arena_of_info :: "u64 \<Rightarrow> btt_info \<Rightarrow> arena" where
  "arena_of_info off info =
     \<lparr>Flags = iFlags info, ExternalNLbas = iExternalNLbas info, InternalLbaSize = iInternalLbaSize info,
      InternalNLbas = iInternalNLbas info, StartOffset = off, DataOffset = off + iDataOffset info,
      MapOffset = off + iMapOffset info, FlogOffset = off + iFlogOffset info,
      NextOffset = off + iNextOffset info, pFlogs = [], pRtt = []\<rparr>"

definition loaded_arena :: "btt \<Rightarrow> memory \<Rightarrow> u64 \<Rightarrow> arena" where
  "loaded_arena b c off =
     (let a = arena_of_info off (parse_info (mem_read c (unat off) 4096))
      in a\<lparr>pFlogs := map (\<lambda>i. load_flog c (flog_pos a i)) [0..<unat (NFree b)],
           pRtt := replicate (unat (NFree b)) BTT_MAP_ENTRY_ERROR\<rparr>)"

definition pair_valid :: "arena \<Rightarrow> btt_flog_pair \<Rightarrow> bool" where
  "pair_valid a p \<longleftrightarrow> FlogSelect (fSeq (flog0 p)) (fSeq (flog1 p)) \<noteq> None
     \<and> unat (fLba (flog0 p)) < unat (ExternalNLbas a) \<and> unat (fLba (flog1 p)) < unat (ExternalNLbas a)"

text \<open>The run-time arena is consistent and is what the media contents load to.\<close>

definition arena_media :: "btt \<Rightarrow> memory \<Rightarrow> arena \<Rightarrow> bool" where
  "arena_media b c a \<longleftrightarrow>
     arena_inv b c a \<and> a = loaded_arena b c (StartOffset a)
   \<and> (\<forall>fr \<in> set (pFlogs a). pair_valid a (FlogPair fr))"

section \<open>Evaluating the loaders\<close>

lemma BttFlogRecover_eval:
  assumes wf: "arena_wf b a" and l: "unat (fLba f) < unat (ExternalNLbas a)" and r: "ns_ready (pNamespace b) s"
    and m: "MapOffset a1 = MapOffset a"
  defines "c \<equiv> ns_content (pNamespace b) s" and "pos \<equiv> unat (BttGetPositionInMapFromLba (fLba f))"
  shows "BttFlogRecover b a1 f s =
     (if fOldMap f \<noteq> fNewMap f \<and> fOldMap f = old_map c a (unat (fLba f))
      then (EFI_SUCCESS, ns_store (pNamespace b) (MapEntryAddr a (fLba f))
              (map_bytes ((map_line c a (fLba f))[pos := fNewMap f])) s)
      else (EFI_SUCCESS, s))"
proof -
  have addr: "MapOffset a1 + 64 * ucast (BttGetMapFromLba (fLba f)) = MapEntryAddr a (fLba f)"
    by (simp add: MapEntryAddr_def m)
  note rd = read_map_line(1) [OF wf l r] and ml = map_line_facts [OF wf l, of c]
  have wr: "WriteNamespaceBytes (pNamespace b) (MapEntryAddr a (fLba f)) (map_bytes ((map_line c a (fLba f))[pos := x])) 64 s
      = (EFI_SUCCESS, ns_store (pNamespace b) (MapEntryAddr a (fLba f)) (map_bytes ((map_line c a (fLba f))[pos := x])) s)" for x
    using arena_wf_map_addr(4) [OF wf l] ml(1) r by (simp add: WriteNamespaceBytes_ok)
  have pos: "pos < 16" by (simp add: pos_def map_number_position)
  let ?es = "map_line c a (fLba f)"
  have norm: "(if MapEntryIsInitial (?es ! pos) then ?es[pos := fLba f OR BTT_MAP_ENTRY_NORMAL] else ?es) =
      ?es[pos := old_map c a (unat (fLba f))]"
    using ml(2) list_update_id [of ?es pos] by (auto simp: old_map_def norm_entry_def pos_def)
  show ?thesis
    unfolding BttFlogRecover_def addr Let_def rd prod.case
    unfolding map_line_def [symmetric] c_def [symmetric] pos_def [symmetric] norm
    using wr ml(1) pos by simp
qed

lemma FlogSelect_bit: "FlogSelect q0 q1 = Some i \<Longrightarrow> i = 0 \<or> i = 1"
  by (auto simp: FlogSelect_def split: if_splits)

lemma BttReadFlogPair_eval:
  assumes r: "ns_ready (pNamespace b) s" and fit: "ns_fits (pNamespace b) off 64" and nz: "off \<noteq> 0"
    and c: "c = ns_content (pNamespace b) s" and v: "pair_valid a (FlogPair (load_flog c off))"
    and n: "unat (ExternalNLbas a) \<le> unat (NLbas b)"
  shows "BttReadFlogPair b a1 off fr0 s =
     (let (rc, s') = BttFlogRecover b a1 (cur_flog (load_flog c off)) s in (rc, a1, load_flog c off, s'))"
proof -
  define p where "p = parse_flog_pair (mem_read c (unat off) 64)"
  have rd: "ReadNamespaceBytes (pNamespace b) off (replicate 64 0) 64 s = (EFI_SUCCESS, mem_read c (unat off) 64, s)"
    using r fit by (simp add: ReadNamespaceBytes_ok c)
  from v obtain i where sel: "FlogSelect (fSeq (flog0 p)) (fSeq (flog1 p)) = Some i"
    and lba: "unat (fLba (flog0 p)) < unat (NLbas b)" "unat (fLba (flog1 p)) < unat (NLbas b)"
    using n by (auto simp: pair_valid_def load_flog_def p_def Let_def)
  then have ne: "fSeq (flog0 p) \<noteq> fSeq (flog1 p)" by (auto simp: FlogSelect_def)
  have ok: "IsLbaValid b (ucast (fLba (flog0 p))) = EFI_SUCCESS" "IsLbaValid b (ucast (fLba (flog1 p))) = EFI_SUCCESS"
    using lba by (simp_all add: IsLbaValid_def word_le_nat_alt)
  have fr: "load_flog c off = \<lparr>FlogPair = p, Entry = off, Next = 1 - i\<rparr>"
    by (simp add: load_flog_def p_def [symmetric] sel)
  show ?thesis
    using rd nz ne sel by (cases fr0) (simp add: BttReadFlogPair_def Let_def p_def [symmetric] ok fr cur_flog_def)
qed

text \<open>Loading the flog pairs from position \<open>k\<close> on, when none of them needs recovery.\<close>

lemma ROUNDUP_pair: "ROUNDUP 64 BTT_FLOG_PAIR_ALIGN = (64 :: u64)"
  by (simp add: ROUNDUP_def)

definition pairs_settled :: "btt \<Rightarrow> arena \<Rightarrow> sys \<Rightarrow> nat \<Rightarrow> nat \<Rightarrow> bool" where
  "pairs_settled b a s k n \<longleftrightarrow>
     (\<forall>i. k \<le> i \<and> i < n \<longrightarrow>
        (let off = flog_pos a i; fr = load_flog (ns_content (pNamespace b) s) off
         in off \<noteq> 0 \<and> ns_fits (pNamespace b) off 64 \<and> pair_valid a (FlogPair fr)
          \<and> BttFlogRecover b a (cur_flog fr) s = (EFI_SUCCESS, s)))"

lemma BttFlogRecover_arena_cong:
  "MapOffset a1 = MapOffset a \<Longrightarrow> BttFlogRecover b a1 f s = BttFlogRecover b a f s"
  by (simp add: BttFlogRecover_def)

lemma BttReadFlogsLoop_settled:
  assumes r: "ns_ready (pNamespace b) s" and n: "unat (ExternalNLbas a) \<le> unat (NLbas b)"
  shows "pairs_settled b a s k (k + m) \<Longrightarrow> MapOffset a1 = MapOffset a \<Longrightarrow> length (pFlogs a1) = k + m \<Longrightarrow>
     BttReadFlogsLoop b m k (flog_pos a k) a1 s =
       (EFI_SUCCESS, a1\<lparr>pFlogs := take k (pFlogs a1) @
          map (\<lambda>i. load_flog (ns_content (pNamespace b) s) (flog_pos a i)) [k..<k + m]\<rparr>, s)"
proof (induction m arbitrary: k a1)
  case 0
  then show ?case by simp
next
  case (Suc m)
  let ?fr = "load_flog (ns_content (pNamespace b) s) (flog_pos a k)"
  have here: "flog_pos a k \<noteq> 0" "ns_fits (pNamespace b) (flog_pos a k) 64" "pair_valid a (FlogPair ?fr)"
    "BttFlogRecover b a (cur_flog ?fr) s = (EFI_SUCCESS, s)"
    using Suc.prems(1) by (auto simp: pairs_settled_def Let_def)
  have pair: "BttReadFlogPair b a1 (flog_pos a k) x s = (EFI_SUCCESS, a1, ?fr, s)" for x
    using BttReadFlogPair_eval [OF r here(2,1) refl here(3) n] here(4) Suc.prems(2)
    by (simp add: BttFlogRecover_arena_cong [of a1 a])
  have next': "flog_pos a k + 64 = flog_pos a (Suc k)" by (simp add: flog_pos_def algebra_simps)
  have "pairs_settled b a s (Suc k) (Suc k + m)"
    using Suc.prems(1) by (auto simp: pairs_settled_def)
  from Suc.IH [OF this, of "a1\<lparr>pFlogs := (pFlogs a1)[k := ?fr]\<rparr>"] Suc.prems(2,3)
  have "BttReadFlogsLoop b m (Suc k) (flog_pos a (Suc k)) (a1\<lparr>pFlogs := (pFlogs a1)[k := ?fr]\<rparr>) s =
      (EFI_SUCCESS, a1\<lparr>pFlogs := (take k (pFlogs a1) @ [?fr]) @
         map (\<lambda>i. load_flog (ns_content (pNamespace b) s) (flog_pos a i)) [Suc k..<Suc k + m]\<rparr>, s)"
    by (simp add: take_Suc_conv_app_nth)
  moreover have "[k..<k + Suc m] = k # [Suc k..<Suc k + m]" by (simp add: upt_rec)
  ultimately show ?case by (simp add: pair ROUNDUP_pair next')
qed

lemma loaded_arena_facts:
  "StartOffset (loaded_arena b c off) = off"
  "length (pFlogs (loaded_arena b c off)) = unat (NFree b)"
  "pRtt (loaded_arena b c off) = replicate (unat (NFree b)) BTT_MAP_ENTRY_ERROR"
  "i < unat (NFree b) \<Longrightarrow> pFlogs (loaded_arena b c off) ! i = load_flog c (flog_pos (loaded_arena b c off) i)"
  by (simp_all add: loaded_arena_def arena_of_info_def Let_def flog_pos_def)

text \<open>
  Evaluation of \<open>BttReadArena\<close>, given what the flog loop does: the shell around the loop, which
  reads the info block first and builds the read tracking table last.
\<close>

lemma BttReadArena_shell:
  assumes r: "ns_ready (pNamespace b) s" and al: "allocs s = []" and fit: "ns_fits (pNamespace b) off 4096"
    and c: "c = ns_content (pNamespace b) s"
    and a0: "a0 = arena_of_info off (parse_info (mem_read c (unat off) 4096))"
    and loop: "BttReadFlogsLoop b (unat (NFree b)) 0 (FlogOffset a0)
         (a0\<lparr>pFlogs := replicate (unat (NFree b)) zero_flog_runtime\<rparr>) s = (EFI_SUCCESS, a0\<lparr>pFlogs := frs\<rparr>, s')"
    and al': "allocs s' = []"
  shows "BttReadArena b off zero_arena s =
     (EFI_SUCCESS, a0\<lparr>pFlogs := frs, pRtt := replicate (unat (NFree b)) BTT_MAP_ENTRY_ERROR\<rparr>, s')"
proof -
  have alloc: "AllocatePool s = (True, s)" "AllocatePool s' = (True, s')"
    using al al' by (simp_all add: AllocatePool_def)
  have rd: "ReadNamespaceBytes (pNamespace b) off (replicate 4096 0) BTT_INFO_SIZE s =
      (EFI_SUCCESS, mem_read c (unat off) 4096, s)"
    using r fit by (simp add: ReadNamespaceBytes_ok c)
  show ?thesis
    using alloc rd loop
    by (simp add: BttReadArena_def BttReadFlogs_def BttBuildRtt_def Let_def zero_arena_def a0 arena_of_info_def)
qed

section \<open>A consistent arena loads unchanged\<close>

lemma free_not_mapped:
  assumes "arena_inv b c a" and "l < unat (ExternalNLbas a)" and "fr \<in> set (pFlogs a)"
  shows "blk c a l \<noteq> free_of fr"
proof -
  have "blk c a l \<in> blk c a ` {0..<unat (ExternalNLbas a)}" "free_of fr \<in> free_of ` set (pFlogs a)"
    using assms(2,3) by auto
  moreover have "blk c a ` {0..<unat (ExternalNLbas a)} \<inter> free_of ` set (pFlogs a) = {}"
    using assms(1) by (simp add: arena_inv_def all_blocks_def)
  ultimately show ?thesis by (metis IntI empty_iff)
qed

lemma flog_pos_addr:
  assumes "arena_wf b a" and "i < unat (NFree b)"
  shows "unat (flog_pos a i) = unat (FlogOffset a) + 64 * i" and "flog_pos a i \<noteq> 0"
    and "ns_fits (pNamespace b) (flog_pos a i) 64"
proof -
  have e: "unat (FlogOffset a) + 64 * i + 64 \<le> arena_end a" "unat (SpaNamespaceBase (pNamespace b)) + arena_end a < 2 ^ 64"
    and ge: "4096 \<le> unat (FlogOffset a)"
    using assms unfolding arena_wf_def arena_end_def by linarith+
  then have i: "unat (of_nat i :: u64) = i" "unat (64 * of_nat i :: u64) = 64 * i"
    by (simp_all add: unat_of_nat unat_word_ariths take_bit_nat_eq_self)
  show u: "unat (flog_pos a i) = unat (FlogOffset a) + 64 * i"
    unfolding flog_pos_def using e i by (subst unat_plus_nowrap) simp_all
  with ge show "flog_pos a i \<noteq> 0" by auto
  show "ns_fits (pNamespace b) (flog_pos a i) 64"
    using e u by (simp add: ns_fits_def)
qed

lemma arena_media_flog:
  assumes "arena_media b c a" and "i < unat (NFree b)"
  shows "load_flog c (flog_pos a i) = pFlogs a ! i" and "pFlogs a ! i \<in> set (pFlogs a)"
proof -
  have a: "a = loaded_arena b c (StartOffset a)" using assms(1) by (simp add: arena_media_def)
  then have "pFlogs a ! i = load_flog c (flog_pos a i)" "length (pFlogs a) = unat (NFree b)"
    using loaded_arena_facts(4) [OF assms(2), of c "StartOffset a"] loaded_arena_facts(2) [of b c "StartOffset a"]
    by simp_all
  with assms(2) nth_mem [of i "pFlogs a"]
  show "load_flog c (flog_pos a i) = pFlogs a ! i" "pFlogs a ! i \<in> set (pFlogs a)" by simp_all
qed

lemma arena_media_settled:
  assumes med: "arena_media b (ns_content (pNamespace b) s) a" and r: "ns_ready (pNamespace b) s"
  shows "pairs_settled b a s k (unat (NFree b))"
  unfolding pairs_settled_def Let_def
proof (intro allI impI)
  fix i assume "k \<le> i \<and> i < unat (NFree b)"
  then have i: "i < unat (NFree b)" by simp
  let ?c = "ns_content (pNamespace b) s" and ?fr = "pFlogs a ! i"
  have inv: "arena_inv b ?c a" and wf: "arena_wf b a" using med by (simp_all add: arena_media_def arena_inv_def)
  note fl = arena_media_flog [OF med i]
  have v: "pair_valid a (FlogPair ?fr)" using med fl(2) by (simp add: arena_media_def)
  then have l: "unat (fLba (cur_flog ?fr)) < unat (ExternalNLbas a)"
    by (simp add: pair_valid_def cur_flog_def flog_at_def)
  have "old_map ?c a (unat (fLba (cur_flog ?fr))) \<noteq> fOldMap (cur_flog ?fr)"
    using free_not_mapped [OF inv l fl(2)] blk_old_map [of ?c a "unat (fLba (cur_flog ?fr))"]
    by (auto simp: free_of_def)
  then have "BttFlogRecover b a (cur_flog ?fr) s = (EFI_SUCCESS, s)"
    using BttFlogRecover_eval [OF wf l r refl] by auto
  then show "flog_pos a i \<noteq> 0 \<and> ns_fits (pNamespace b) (flog_pos a i) 64
      \<and> pair_valid a (FlogPair (load_flog ?c (flog_pos a i)))
      \<and> BttFlogRecover b a (cur_flog (load_flog ?c (flog_pos a i))) s = (EFI_SUCCESS, s)"
    using flog_pos_addr [OF wf i] v by (simp add: fl(1))
qed

lemma arena_info_fits: "arena_wf b a \<Longrightarrow> ns_fits (pNamespace b) (StartOffset a) 4096"
  unfolding arena_wf_def arena_end_def ns_fits_def by (intro conjI) (linarith, simp)

lemma loaded_arena_unfold:
  assumes "a = loaded_arena b c (StartOffset a)"
  defines "a0 \<equiv> arena_of_info (StartOffset a) (parse_info (mem_read c (unat (StartOffset a)) 4096))"
  shows "a = a0\<lparr>pFlogs := pFlogs a, pRtt := replicate (unat (NFree b)) BTT_MAP_ENTRY_ERROR\<rparr>"
    and "FlogOffset a0 = FlogOffset a" "MapOffset a0 = MapOffset a"
    and "pFlogs a = map (\<lambda>i. load_flog c (flog_pos a i)) [0..<unat (NFree b)]"
proof -
  have a: "a = a0\<lparr>pFlogs := map (\<lambda>i. load_flog c (flog_pos a0 i)) [0..<unat (NFree b)],
      pRtt := replicate (unat (NFree b)) BTT_MAP_ENTRY_ERROR\<rparr>"
    using assms(1) by (simp add: loaded_arena_def a0_def [symmetric] Let_def)
  show f: "FlogOffset a0 = FlogOffset a" "MapOffset a0 = MapOffset a"
    using arg_cong [OF a, of FlogOffset] arg_cong [OF a, of MapOffset] by simp_all
  have "pFlogs a = map (\<lambda>i. load_flog c (flog_pos a0 i)) [0..<unat (NFree b)]"
    using arg_cong [OF a, of pFlogs] by simp
  then show "pFlogs a = map (\<lambda>i. load_flog c (flog_pos a i)) [0..<unat (NFree b)]"
    by (simp add: flog_pos_def f)
  then show "a = a0\<lparr>pFlogs := pFlogs a, pRtt := replicate (unat (NFree b)) BTT_MAP_ENTRY_ERROR\<rparr>"
    by (subst a) (simp add: flog_pos_def f)
qed

lemma BttReadArena_media:
  assumes med: "arena_media b (ns_content (pNamespace b) s) a" and r: "ns_ready (pNamespace b) s"
    and al: "allocs s = []" and n: "unat (ExternalNLbas a) \<le> unat (NLbas b)"
  shows "BttReadArena b (StartOffset a) zero_arena s = (EFI_SUCCESS, a, s)"
proof -
  let ?c = "ns_content (pNamespace b) s"
  define a0 where "a0 = arena_of_info (StartOffset a) (parse_info (mem_read ?c (unat (StartOffset a)) 4096))"
  have wf: "arena_wf b a" and ld: "a = loaded_arena b ?c (StartOffset a)"
    using med by (simp_all add: arena_media_def arena_inv_def)
  note u = loaded_arena_unfold [OF ld, folded a0_def]
  have pos: "flog_pos a 0 = FlogOffset a0" by (simp add: flog_pos_def u(2))
  have "BttReadFlogsLoop b (unat (NFree b)) 0 (FlogOffset a0)
      (a0\<lparr>pFlogs := replicate (unat (NFree b)) zero_flog_runtime\<rparr>) s = (EFI_SUCCESS, a0\<lparr>pFlogs := pFlogs a\<rparr>, s)"
  proof -
    have "pairs_settled b a s 0 (0 + unat (NFree b))" using arena_media_settled [OF med r, of 0] by simp
    from BttReadFlogsLoop_settled [OF r n this, of "a0\<lparr>pFlogs := replicate (unat (NFree b)) zero_flog_runtime\<rparr>"]
    show ?thesis unfolding pos u(4) by (simp add: u(3))
  qed
  from BttReadArena_shell [OF r al arena_info_fits [OF wf] refl a0_def this al]
  show ?thesis unfolding u(1) [symmetric] .
qed

section \<open>What a power failure leaves\<close>

text \<open>The arena that the contents after \<open>j\<close> stores load to.\<close>

definition arena_torn :: "memory \<Rightarrow> arena \<Rightarrow> nat \<Rightarrow> nat \<Rightarrow> arena" where
  "arena_torn c a l j =
     (let fr = pFlogs a ! 0; old = old_map c a l
      in if j \<le> 1 then a
         else if j = 2 then a\<lparr>pFlogs := (pFlogs a)[0 := fr\<lparr>FlogPair := set_flog (FlogPair fr) (Next fr) (half_flog a l old)\<rparr>]\<rparr>
         else arena_after a l old)"

lemma arena_torn_fields [simp]:
  "Flags (arena_torn c a l j) = Flags a" "ExternalNLbas (arena_torn c a l j) = ExternalNLbas a"
  "InternalLbaSize (arena_torn c a l j) = InternalLbaSize a" "InternalNLbas (arena_torn c a l j) = InternalNLbas a"
  "StartOffset (arena_torn c a l j) = StartOffset a" "DataOffset (arena_torn c a l j) = DataOffset a"
  "MapOffset (arena_torn c a l j) = MapOffset a" "FlogOffset (arena_torn c a l j) = FlogOffset a"
  "NextOffset (arena_torn c a l j) = NextOffset a"
  "pRtt (arena_torn c a l j) = pRtt a" "length (pFlogs (arena_torn c a l j)) = length (pFlogs a)"
  "arena_end (arena_torn c a l j) = arena_end a"
  by (simp_all add: arena_torn_def Let_def arena_end_def arena_after_def)

lemma arena_torn_view [simp]:
  "map_entry c' (arena_torn c a l j) = map_entry c' a" "blk c' (arena_torn c a l j) = blk c' a"
  "data_block b c' (arena_torn c a l j) = data_block b c' a"
  "arena_abs b c' (arena_torn c a l j) = arena_abs b c' a"
  "old_map c' (arena_torn c a l j) = old_map c' a" "arena_wf b (arena_torn c a l j) = arena_wf b a"
  "MapEntryAddr (arena_torn c a l j) = MapEntryAddr a"
  "flog_pos (arena_torn c a l j) = flog_pos a"
  by (simp_all add: fun_eq_iff map_entry_def blk_def data_block_def arena_abs_def Let_def old_map_def
      arena_wf_def MapEntryAddr_def flog_pos_def)

text \<open>The stores of a write leave the info block and the other flog pairs alone.\<close>

lemma write_steps_elsewhere:
  fixes j :: nat
  assumes inv: "arena_inv b c a" and l: "l < unat (ExternalNLbas a)" and buf: "length buf = unat (LbaSize b)"
  defines "c' \<equiv> replay c (take j (write_steps c a l buf))"
  shows "mem_read c' (unat (StartOffset a)) 4096 = mem_read c (unat (StartOffset a)) 4096"
    and "1 \<le> i \<Longrightarrow> mem_read c' (unat (FlogOffset a) + 64 * i) 64 = mem_read c (unat (FlogOffset a) + 64 * i) 64"
proof -
  have wf: "arena_wf b a" using inv by (simp add: arena_inv_def)
  note r = arena_regions [OF wf] free_of_bound [OF inv] flog_addr_bounds [OF inv]
  have in': "unat (StartOffset a) + 4096 \<le> x \<and> x + length bs \<le> unat (FlogOffset a) + 32"
    if "(x, bs) \<in> set (write_steps c a l buf)" for x bs
    using write_steps_inside [OF inv l buf that] that r(2) [OF r(6)] r(3) [OF l] r(7) buf
    by (auto simp: write_steps_def Let_def)
  have la: "list_all (\<lambda>(x, bs). unat (StartOffset a) + 4096 \<le> x \<and> x + length bs \<le> unat (FlogOffset a) + 32)
      (take j (write_steps c a l buf))"
    unfolding list_all_iff using in' by (fastforce dest: in_set_takeD)
  show "mem_read c' (unat (StartOffset a)) 4096 = mem_read c (unat (StartOffset a)) 4096"
    unfolding c'_def using replay_outside [OF la] by (intro mem_read_cong) simp
  assume "1 \<le> i"
  then show "mem_read c' (unat (FlogOffset a) + 64 * i) 64 = mem_read c (unat (FlogOffset a) + 64 * i) 64"
    unfolding c'_def using replay_outside [OF la] by (intro mem_read_cong) simp
qed

text \<open>Rewriting the inactive half of a pair up to its sequence number keeps the current half.\<close>

lemma set_flog_half:
  assumes "i = 0 \<or> i = 1" and "fSeq h = fSeq (flog_at p i)"
  shows "fSeq (flog0 (set_flog p i h)) = fSeq (flog0 p)" "fSeq (flog1 (set_flog p i h)) = fSeq (flog1 p)"
    and "flog_at (set_flog p i h) (1 - i) = flog_at p (1 - i)"
  using assms by (auto simp: set_flog_def flog_at_def)

lemma load_flog_torn:
  fixes j :: nat
  assumes inv: "arena_inv b c a" and l: "l < unat (ExternalNLbas a)" and buf: "length buf = unat (LbaSize b)"
  defines "c' \<equiv> replay c (take j (write_steps c a l buf))"
  shows "load_flog c' (FlogOffset a) = pFlogs (arena_torn c a l j) ! 0"
proof -
  let ?fr = "pFlogs a ! 0" and ?old = "old_map c a l"
  have sy: "flog_synced c a" and ne: "pFlogs a \<noteq> []" using inv by (auto simp: arena_inv_def arena_wf_def)
  note nx = arena_inv_next [OF inv]
  have ent: "Entry ?fr = FlogOffset a"
    and sel: "FlogSelect (fSeq (flog0 (FlogPair ?fr))) (fSeq (flog1 (FlogPair ?fr))) = Some (1 - Next ?fr)"
    using sy by (simp_all add: flog_synced_def Let_def)
  have half: "fSeq (flog0 (set_flog (FlogPair ?fr) (Next ?fr) (half_flog a l ?old))) = fSeq (flog0 (FlogPair ?fr))"
    "fSeq (flog1 (set_flog (FlogPair ?fr) (Next ?fr) (half_flog a l ?old))) = fSeq (flog1 (FlogPair ?fr))"
    using set_flog_half [OF nx, of "half_flog a l ?old"] by (simp_all add: half_flog_def)
  have "flog_seq_valid (fSeq (flog_at (FlogPair ?fr) (1 - Next ?fr)))"
    using sy by (simp add: flog_synced_def Let_def cur_flog_def flog_seq_valid_def)
  then have full: "FlogSelect (fSeq (flog0 (set_flog (FlogPair ?fr) (Next ?fr) (next_flog a l ?old))))
      (fSeq (flog1 (set_flog (FlogPair ?fr) (Next ?fr) (next_flog a l ?old)))) = Some (Next ?fr)"
    by (intro flog_select_next [OF _ nx]) (simp_all add: next_flog_def cur_flog_def)
  show ?thesis
    using write_steps_flog [OF inv l buf, of j] ne ent sel half full nx
    by (auto simp: load_flog_def Let_def c'_def arena_torn_def arena_after_def)
qed

lemma loaded_torn:
  fixes j :: nat
  assumes med: "arena_media b c a" and l: "l < unat (ExternalNLbas a)" and buf: "length buf = unat (LbaSize b)"
  defines "c' \<equiv> replay c (take j (write_steps c a l buf))"
  shows "loaded_arena b c' (StartOffset a) = arena_torn c a l j"
proof -
  have inv: "arena_inv b c a" and wf: "arena_wf b a" and ld: "a = loaded_arena b c (StartOffset a)"
    using med by (simp_all add: arena_media_def arena_inv_def)
  define a0 where "a0 = arena_of_info (StartOffset a) (parse_info (mem_read c (unat (StartOffset a)) 4096))"
  note u = loaded_arena_unfold [OF ld, folded a0_def]
  note el = write_steps_elsewhere [OF inv l buf, where j = j, folded c'_def]
  have len: "length (pFlogs a) = unat (NFree b)" and pos: "0 < unat (NFree b)"
    using wf by (simp_all add: arena_wf_def)
  have "load_flog c' (flog_pos a0 i) = pFlogs (arena_torn c a l j) ! i" if i: "i < unat (NFree b)" for i
  proof (cases "i = 0")
    case True
    then show ?thesis
      using load_flog_torn [OF inv l buf, of j] by (simp add: c'_def flog_pos_def u(2))
  next
    case False
    then have "load_flog c' (flog_pos a i) = load_flog c (flog_pos a i)"
      using el(2) [of i] flog_pos_addr(1) [OF wf i] by (simp add: load_flog_def)
    also have "\<dots> = pFlogs (arena_torn c a l j) ! i"
      using arena_media_flog(1) [OF med i] False by (simp add: arena_torn_def arena_after_def Let_def)
    finally show ?thesis by (simp add: flog_pos_def u(2))
  qed
  then have fl: "map (\<lambda>i. load_flog c' (flog_pos a0 i)) [0..<unat (NFree b)] = pFlogs (arena_torn c a l j)"
    using len by (intro nth_equalityI) simp_all
  have "loaded_arena b c' (StartOffset a) = a0\<lparr>pFlogs := pFlogs (arena_torn c a l j),
      pRtt := replicate (unat (NFree b)) BTT_MAP_ENTRY_ERROR\<rparr>"
    by (simp add: loaded_arena_def el(1) a0_def [symmetric] fl Let_def)
  also have "\<dots> = a\<lparr>pFlogs := pFlogs (arena_torn c a l j)\<rparr>"
    by (subst (2) u(1)) simp
  also have "\<dots> = arena_torn c a l j"
    by (cases a) (simp add: arena_torn_def arena_after_def Let_def)
  finally show ?thesis .
qed

lemma of_nat_lba: "l < unat (n :: u32) \<Longrightarrow> unat (of_nat l :: u32) = l"
  using unat_bound [of n] by (simp add: unat_of_nat take_bit_nat_eq_self)

lemma torn_pair_valid:
  assumes med: "arena_media b c a" and l: "l < unat (ExternalNLbas a)"
    and fr: "fr \<in> set (pFlogs (arena_torn c a l j))"
  shows "pair_valid a (FlogPair fr)"
proof -
  let ?fr = "pFlogs a ! 0" and ?old = "old_map c a l"
  have inv: "arena_inv b c a" using med by (simp add: arena_media_def)
  note nx = arena_inv_next [OF inv] and l32 = of_nat_lba [OF l]
  have old: "pair_valid a (FlogPair x)" if "x \<in> set (pFlogs a)" for x
    using med that by (simp add: arena_media_def)
  have v: "pair_valid a (FlogPair ?fr)"
    using inv by (intro old nth_mem) (auto simp: arena_inv_def arena_wf_def)
  have sv: "flog_seq_valid (fSeq (flog_at (FlogPair ?fr) (1 - Next ?fr)))"
    using inv by (simp add: arena_inv_def flog_synced_def Let_def cur_flog_def flog_seq_valid_def)
  have half: "pair_valid a (set_flog (FlogPair ?fr) (Next ?fr) (half_flog a l ?old))"
    using v set_flog_half [OF nx, of "half_flog a l ?old" "FlogPair ?fr"] l l32 nx
    unfolding pair_valid_def by (auto simp: half_flog_def) (auto simp: set_flog_def)
  have "FlogSelect (fSeq (flog0 (set_flog (FlogPair ?fr) (Next ?fr) (next_flog a l ?old))))
      (fSeq (flog1 (set_flog (FlogPair ?fr) (Next ?fr) (next_flog a l ?old)))) = Some (Next ?fr)"
    by (intro flog_select_next [OF sv nx]) (simp add: next_flog_def cur_flog_def)
  then have full: "pair_valid a (set_flog (FlogPair ?fr) (Next ?fr) (next_flog a l ?old))"
    using v l l32 nx unfolding pair_valid_def by (auto simp: set_flog_def next_flog_def)
  show ?thesis
    using fr old half full
    by (auto simp: arena_torn_def arena_after_def Let_def dest!: subsetD [OF set_update_subset_insert] split: if_splits)
qed

lemma arena_inv_torn:
  assumes inv: "arena_inv b c a" and l: "l < unat (ExternalNLbas a)" and buf: "length buf = unat (LbaSize b)"
    and j: "j \<le> 2"
  shows "arena_inv b (replay c (take j (write_steps c a l buf))) (arena_torn c a l j)"
proof -
  let ?c = "replay c (take j (write_steps c a l buf))" and ?a = "arena_torn c a l j" and ?fr = "pFlogs a ! 0"
  have wf: "arena_wf b a" and sy: "flog_synced c a" using inv by (simp_all add: arena_inv_def)
  then have ne: "pFlogs a \<noteq> []" by (auto simp: arena_wf_def)
  note nx = arena_inv_next [OF inv] and l32 = of_nat_lba [OF l]
  note hf = set_flog_half [OF nx, of "half_flog a l (old_map c a l)" "FlogPair ?fr"]
  have hs: "fSeq (half_flog a l (old_map c a l)) = fSeq (flog_at (FlogPair ?fr) (Next ?fr))"
    by (simp add: half_flog_def)
  have fr0: "pFlogs ?a ! 0 = (if j = 2 then ?fr\<lparr>FlogPair := set_flog (FlogPair ?fr) (Next ?fr) (half_flog a l (old_map c a l))\<rparr> else ?fr)"
    using j ne by (auto simp: arena_torn_def Let_def)
  have cur: "cur_flog (pFlogs ?a ! 0) = cur_flog ?fr"
    using hf(3) [OF hs] by (auto simp: fr0 cur_flog_def)
  have "map free_of (pFlogs ?a) = map free_of (pFlogs a)"
  proof -
    have "free_of (pFlogs ?a ! 0) = free_of ?fr" by (simp add: free_of_def cur)
    then show ?thesis
      using j by (cases "pFlogs a") (auto simp: arena_torn_def Let_def split: if_splits)
  qed
  moreover have me: "map_entry ?c a l' = map_entry c a l'" if "l' < unat (ExternalNLbas a)" for l'
    using write_steps_map [OF inv l buf that, of j] j by simp
  ultimately have blocks: "all_blocks ?c ?a = all_blocks c a"
    by (simp add: all_blocks_def blk_def)
  have lb: "unat (fLba (cur_flog ?fr)) < unat (ExternalNLbas a)"
    using sy by (auto simp: flog_synced_def Let_def cur_flog_def flog_at_def)
  have lbas: "unat (fLba (flog0 (FlogPair (pFlogs ?a ! 0)))) < unat (ExternalNLbas a)
      \<and> unat (fLba (flog1 (FlogPair (pFlogs ?a ! 0)))) < unat (ExternalNLbas a)"
    using sy l nx by (auto simp: fr0 set_flog_def half_flog_def flog_synced_def Let_def l32)
  have "flog_synced ?c ?a"
    unfolding flog_synced_def Let_def cur
    using sy lbas write_steps_flog [OF inv l buf, of j] j hf(1,2) [OF hs] me [OF lb]
    by (auto simp: fr0 flog_synced_def Let_def)
  then show ?thesis using inv blocks by (simp add: arena_inv_def)
qed

lemma arena_media_torn:
  assumes med: "arena_media b c a" and l: "l < unat (ExternalNLbas a)" and buf: "length buf = unat (LbaSize b)"
    and j: "j \<noteq> 3"
  shows "arena_media b (replay c (take j (write_steps c a l buf))) (arena_torn c a l j)"
proof -
  have inv: "arena_inv b c a" using med by (simp add: arena_media_def)
  have "arena_inv b (replay c (take j (write_steps c a l buf))) (arena_torn c a l j)"
  proof (cases "j \<le> 2")
    case True
    then show ?thesis by (rule arena_inv_torn [OF inv l buf])
  next
    case False
    with j have "4 \<le> j" by simp
    then show ?thesis
      using arena_inv_write [OF inv l buf] by (simp add: arena_torn_def write_steps_def Let_def)
  qed
  then show ?thesis
    using loaded_torn [OF med l buf, of j] torn_pair_valid [OF med l]
    by (auto simp: arena_media_def pair_valid_def)
qed

section \<open>Recovery\<close>

lemma replay_write_steps_4:
  "replay c (take 4 (write_steps c a l buf)) =
     mem_write (replay c (take 3 (write_steps c a l buf))) (unat (MapOffset a) + 4 * l) (le32 (free_map a))"
  by (simp add: write_steps_def Let_def numeral_3_eq_3)

lemma arena_torn_34: "arena_torn c a l 3 = arena_torn c a l 4"
  by (simp add: arena_torn_def Let_def)

text \<open>
  After three stores the flog names the update and the map does not have it yet: loading the
  first pair completes the map.
\<close>

lemma BttFlogRecover_torn:
  assumes med: "arena_media b c a" and l: "l < unat (ExternalNLbas a)" and buf: "length buf = unat (LbaSize b)"
    and r: "ns_ready (pNamespace b) s" and c3: "ns_content (pNamespace b) s = replay c (take 3 (write_steps c a l buf))"
    and m: "MapOffset a1 = MapOffset a"
  shows "\<exists>s'. BttFlogRecover b a1 (cur_flog (pFlogs (arena_torn c a l 3) ! 0)) s = (EFI_SUCCESS, s')
     \<and> ns_content (pNamespace b) s' = replay c (take 4 (write_steps c a l buf))
     \<and> ns_ready (pNamespace b) s' \<and> allocs s' = allocs s"
proof -
  let ?c3 = "replay c (take 3 (write_steps c a l buf))" and ?old = "old_map c a l"
  have inv: "arena_inv b c a" and wf: "arena_wf b a" using med by (simp_all add: arena_media_def arena_inv_def)
  have ne: "pFlogs a \<noteq> []" using wf by (auto simp: arena_wf_def)
  note l32 = of_nat_lba [OF l]
  define f where "f = next_flog a l ?old"
  have f: "cur_flog (pFlogs (arena_torn c a l 3) ! 0) = f"
    using arena_after_flog(1) [OF ne arena_inv_next [OF inv]] by (simp add: arena_torn_def Let_def f_def)
  have fl: "fLba f = of_nat l" "fOldMap f = ?old" "fNewMap f = free_map a" by (simp_all add: f_def next_flog_def)
  have lf: "unat (fLba f) < unat (ExternalNLbas a)" using l l32 fl by simp
  have "blk c a l \<noteq> free_of (pFlogs a ! 0)" using free_not_mapped [OF inv l] ne by simp
  then have "fOldMap f \<noteq> fNewMap f"
    using blk_old_map [of c a l] free_map_facts(1) [of a] by (auto simp: fl)
  moreover have "old_map ?c3 a l = ?old"
    using write_steps_map [OF inv l buf l, of 3] by (simp add: old_map_def)
  ultimately have rec: "BttFlogRecover b a1 f s = (EFI_SUCCESS, ns_store (pNamespace b) (MapEntryAddr a (fLba f))
      (map_bytes ((map_line ?c3 a (fLba f))[unat (BttGetPositionInMapFromLba (fLba f)) := fNewMap f])) s)"
    using BttFlogRecover_eval [OF wf lf r m] c3 fl l32 by simp
  have "length (map_bytes ((map_line ?c3 a (fLba f))[p := x])) = 64" for p x
    using map_line_facts(1) [OF wf lf, of ?c3] by simp
  then have "ns_content (pNamespace b) (ns_store (pNamespace b) (MapEntryAddr a (fLba f))
      (map_bytes ((map_line ?c3 a (fLba f))[unat (BttGetPositionInMapFromLba (fLba f)) := fNewMap f])) s)
    = mem_write ?c3 (unat (MapOffset a) + 4 * l) (le32 (free_map a))"
    using arena_wf_map_addr(4) [OF wf lf] map_line_facts(3) [OF wf lf, of ?c3] c3 fl l32
    by (simp add: ns_content_store)
  with rec f r show ?thesis by (simp add: replay_write_steps_4)
qed

lemma BttReadArena_recover:
  assumes med: "arena_media b c a" and l: "l < unat (ExternalNLbas a)" and buf: "length buf = unat (LbaSize b)"
    and r: "ns_ready (pNamespace b) s" and al: "allocs s = []" and n: "unat (ExternalNLbas a) \<le> unat (NLbas b)"
    and c3: "ns_content (pNamespace b) s = replay c (take 3 (write_steps c a l buf))"
  shows "\<exists>s'. BttReadArena b (StartOffset a) zero_arena s = (EFI_SUCCESS, arena_torn c a l 3, s')
     \<and> ns_content (pNamespace b) s' = replay c (take 4 (write_steps c a l buf))
     \<and> ns_ready (pNamespace b) s' \<and> allocs s' = []"
proof -
  let ?c3 = "replay c (take 3 (write_steps c a l buf))" and ?c4 = "replay c (take 4 (write_steps c a l buf))"
  let ?a = "arena_torn c a l 3"
  define a0 where "a0 = arena_of_info (StartOffset a) (parse_info (mem_read ?c3 (unat (StartOffset a)) 4096))"
  define a1 where "a1 = a0\<lparr>pFlogs := replicate (unat (NFree b)) zero_flog_runtime\<rparr>"
  have wf: "arena_wf b a" using med by (simp add: arena_media_def arena_inv_def)
  then obtain m where m: "unat (NFree b) = Suc m" by (auto simp: arena_wf_def gr0_conv_Suc)
  have "?a = loaded_arena b ?c3 (StartOffset ?a)" using loaded_torn [OF med l buf, of 3] by simp
  note u = loaded_arena_unfold [OF this, simplified, folded a0_def]
  have med4: "arena_media b ?c4 ?a" using arena_media_torn [OF med l buf, of 4] by (simp add: arena_torn_34)
  have fp: "flog_pos a 0 = FlogOffset a" by (simp add: flog_pos_def)
  have fr3: "load_flog ?c3 (FlogOffset a) = pFlogs ?a ! 0"
    using u(4) m by (simp add: fp upt_rec)
  have fr4: "load_flog ?c4 (flog_pos ?a i) = pFlogs ?a ! i" if "i < Suc m" for i
    using arena_media_flog(1) [OF med4, of i] that m by simp
  obtain s' where rec: "BttFlogRecover b a1 (cur_flog (pFlogs ?a ! 0)) s = (EFI_SUCCESS, s')"
    and s': "ns_content (pNamespace b) s' = ?c4" "ns_ready (pNamespace b) s'" "allocs s' = []"
    using BttFlogRecover_torn [OF med l buf r c3, of a1] u(3) al by (auto simp: a1_def)
  have "pair_valid a (FlogPair (load_flog ?c3 (FlogOffset a)))"
    using torn_pair_valid [OF med l, of "pFlogs ?a ! 0" 3] wf by (simp add: fr3 arena_wf_def)
  from BttReadFlogPair_eval [OF r _ _ c3 [symmetric] this n] flog_pos_addr [OF wf, of 0] m rec
  have pair: "BttReadFlogPair b a1 (FlogOffset a) x s = (EFI_SUCCESS, a1, pFlogs ?a ! 0, s')" for x
    by (simp add: fr3 flog_pos_def)
  have "pairs_settled b ?a s' 1 (1 + m)"
    using arena_media_settled [of b s' ?a 1] med4 s' m by simp
  from BttReadFlogsLoop_settled [OF s'(2) _ this, of "a1\<lparr>pFlogs := (pFlogs a1)[0 := pFlogs ?a ! 0]\<rparr>"] u(3) m n s'(1)
  have rest: "BttReadFlogsLoop b m 1 (flog_pos ?a 1) (a1\<lparr>pFlogs := (pFlogs a1)[0 := pFlogs ?a ! 0]\<rparr>) s' =
      (EFI_SUCCESS, a0\<lparr>pFlogs := pFlogs ?a ! 0 # map (\<lambda>i. load_flog ?c4 (flog_pos ?a i)) [1..<1 + m]\<rparr>, s')"
    by (simp add: a1_def)
  have "pFlogs ?a ! 0 # map (\<lambda>i. load_flog ?c4 (flog_pos ?a i)) [1..<1 + m] = pFlogs ?a"
  proof (rule nth_equalityI)
    show len: "length (pFlogs ?a ! 0 # map (\<lambda>i. load_flog ?c4 (flog_pos ?a i)) [1..<1 + m]) = length (pFlogs ?a)"
      using wf m by (simp add: arena_wf_def)
    fix i assume "i < length (pFlogs ?a ! 0 # map (\<lambda>i. load_flog ?c4 (flog_pos ?a i)) [1..<1 + m])"
    then show "(pFlogs ?a ! 0 # map (\<lambda>i. load_flog ?c4 (flog_pos ?a i)) [1..<1 + m]) ! i = pFlogs ?a ! i"
      using fr4 by (cases i) (simp_all del: upt_Suc)
  qed
  with rest pair have "BttReadFlogsLoop b (unat (NFree b)) 0 (FlogOffset a0) a1 s = (EFI_SUCCESS, a0\<lparr>pFlogs := pFlogs ?a\<rparr>, s')"
    by (simp add: m u(2) ROUNDUP_pair flog_pos_def)
  from BttReadArena_shell [OF r al arena_info_fits [OF wf] refl _ this [unfolded a1_def] s'(3)] c3
  have "BttReadArena b (StartOffset a) zero_arena s =
      (EFI_SUCCESS, a0\<lparr>pFlogs := pFlogs ?a, pRtt := replicate (unat (NFree b)) BTT_MAP_ENTRY_ERROR\<rparr>, s')"
    by (simp add: a0_def)
  with u(1) s' show ?thesis by metis
qed

lemma BttReadArena_torn:
  assumes med: "arena_media b c a" and l: "l < unat (ExternalNLbas a)" and buf: "length buf = unat (LbaSize b)"
    and r: "ns_ready (pNamespace b) s" and al: "allocs s = []" and n: "unat (ExternalNLbas a) \<le> unat (NLbas b)"
    and cj: "ns_content (pNamespace b) s = replay c (take j (write_steps c a l buf))"
  shows "\<exists>a' s'. BttReadArena b (StartOffset a) zero_arena s = (EFI_SUCCESS, a', s')
     \<and> a' = arena_torn c a l j
     \<and> ns_content (pNamespace b) s' = replay c (take (if j = 3 then 4 else j) (write_steps c a l buf))
     \<and> arena_media b (ns_content (pNamespace b) s') a'
     \<and> (\<forall>l' < unat (ExternalNLbas a). arena_abs b (ns_content (pNamespace b) s') a' l' =
           (if 3 \<le> j \<and> l' = l then Some buf else arena_abs b c a l'))
     \<and> ns_ready (pNamespace b) s' \<and> allocs s' = []"
proof -
  have inv: "arena_inv b c a" using med by (simp add: arena_media_def)
  note ab = arena_abs_write [OF inv l buf]
  show ?thesis
  proof (cases "j = 3")
    case True
    have "arena_media b (replay c (take 4 (write_steps c a l buf))) (arena_torn c a l 3)"
      using arena_media_torn [OF med l buf, of 4] by (simp add: arena_torn_34)
    with BttReadArena_recover [OF med l buf r al n] cj True ab [of _ 4] show ?thesis by force
  next
    case False
    have m: "arena_media b (ns_content (pNamespace b) s) (arena_torn c a l j)"
      using arena_media_torn [OF med l buf False] by (simp add: cj)
    have "(3 \<le> j) = (4 \<le> j)" using False by auto
    with BttReadArena_media [OF m r al] n ab [of _ j] m False cj r al show ?thesis by auto
  qed
qed

end
