(* ===== verification/Btt_Crash.thy ===== *)
theory Btt_Crash
  imports Btt_Recovery
begin

text \<open>
  Power-failure atomicity of the block translation table as a whole: after any number of the
  stores that \<open>BttWrite\<close> issues, \<open>BttReadArenas\<close> brings the device up again, consistent, with the
  contents from before or from after the write.
\<close>

section \<open>The device on media\<close>

text \<open>Each arena starts where its predecessor's info block says.\<close>

fun arena_chain :: "u64 \<Rightarrow> arena list \<Rightarrow> bool" where
  "arena_chain off [] = True"
| "arena_chain off (a # as) = (StartOffset a = off \<and> arena_chain (NextOffset a) as)"

lemma arena_chain_update:
  "k < length as \<Longrightarrow> StartOffset x = StartOffset (as ! k) \<Longrightarrow> NextOffset x = NextOffset (as ! k) \<Longrightarrow>
     arena_chain off (as[k := x]) = arena_chain off as"
  by (induction as arbitrary: off k) (auto split: nat.splits)

definition btt_media :: "btt \<Rightarrow> sys \<Rightarrow> bool" where
  "btt_media b s \<longleftrightarrow>
     btt_writable b s \<and> arena_chain (PrimaryInfoOffset b) (Arenas b)
   \<and> (\<forall>a \<in> set (Arenas b). arena_media b (ns_content (pNamespace b) s) a)"

text \<open>The parts of the handle that loading depends on.\<close>

definition same_handle :: "btt \<Rightarrow> btt \<Rightarrow> bool" where
  "same_handle b b' \<longleftrightarrow> NFree b' = NFree b \<and> NLbas b' = NLbas b \<and> LbaSize b' = LbaSize b
     \<and> pNamespace b' = pNamespace b \<and> PrimaryInfoOffset b' = PrimaryInfoOffset b
     \<and> NArenas b' = NArenas b \<and> NLanes b' = NLanes b"

lemma same_handle_view:
  assumes "same_handle b b'"
  shows "arena_wf b' = arena_wf b" "arena_inv b' = arena_inv b" "loaded_arena b' = loaded_arena b"
    and "arena_media b' = arena_media b" "arena_abs b' = arena_abs b"
  using assms
  by (simp_all add: same_handle_def fun_eq_iff arena_wf_def arena_inv_def loaded_arena_def arena_media_def
      arena_abs_def data_block_def Let_def)

lemma arena_media_cong:
  assumes same: "same_range c c' a" and med: "arena_media b c a"
  shows "arena_media b c' a"
proof -
  have inv: "arena_inv b c a" and wf: "arena_wf b a" and ld: "a = loaded_arena b c (StartOffset a)"
    using med by (simp_all add: arena_media_def arena_inv_def)
  have r: "unat (StartOffset a) + 4096 \<le> arena_end a" "unat (StartOffset a) \<le> unat (FlogOffset a)"
    and e: "arena_end a = unat (FlogOffset a) + 64 * unat (NFree b)"
    using wf unfolding arena_wf_def arena_end_def by (linarith, linarith, simp)
  have info: "mem_read c' (unat (StartOffset a)) 4096 = mem_read c (unat (StartOffset a)) 4096"
    using r by (intro same_range_read [OF same]) simp_all
  define a0 where "a0 = arena_of_info (StartOffset a) (parse_info (mem_read c (unat (StartOffset a)) 4096))"
  note u = loaded_arena_unfold [OF ld, folded a0_def]
  have "load_flog c' (flog_pos a0 i) = load_flog c (flog_pos a0 i)" if i: "i < unat (NFree b)" for i
  proof -
    have "unat (flog_pos a0 i) = unat (FlogOffset a) + 64 * i"
      using flog_pos_addr(1) [OF wf i] by (simp add: flog_pos_def u(2))
    moreover have "mem_read c' (unat (FlogOffset a) + 64 * i) 64 = mem_read c (unat (FlogOffset a) + 64 * i) 64"
      using r e i by (intro same_range_read [OF same]) simp_all
    ultimately show ?thesis by (simp add: load_flog_def)
  qed
  then have "loaded_arena b c' (StartOffset a) = loaded_arena b c (StartOffset a)"
    by (simp add: loaded_arena_def info a0_def [symmetric] Let_def)
  with ld arena_inv_cong(1) [OF same inv] med show ?thesis by (simp add: arena_media_def)
qed

section \<open>Loading all arenas\<close>

lemma BttReadArenasLoop_media:
  assumes r: "ns_ready (pNamespace b) s" and al: "allocs s = []"
  shows "arena_chain off as \<Longrightarrow>
     (\<And>a. a \<in> set as \<Longrightarrow> arena_media b (ns_content (pNamespace b) s) a \<and> unat (ExternalNLbas a) \<le> unat (NLbas b)) \<Longrightarrow>
     BttReadArenasLoop b (length as) off done s = (EFI_SUCCESS, done @ as, s)"
proof (induction as arbitrary: off "done")
  case (Cons a as)
  have "BttReadArena b off zero_arena s = (EFI_SUCCESS, a, s)"
    using BttReadArena_media [of b s a] Cons.prems r al by simp
  with Cons show ?case by simp
qed simp

lemma BttReadArenasLoop_torn:
  assumes r: "ns_ready (pNamespace b) s" and al: "allocs s = []"
    and med: "arena_media b c a" and l: "l < unat (ExternalNLbas a)" and buf: "length buf = unat (LbaSize b)"
    and cj: "ns_content (pNamespace b) s = replay c (take j (write_steps c a l buf))"
    and c4: "c4 = replay c (take (if j = 3 then 4 else j) (write_steps c a l buf))"
  shows "arena_chain off as \<Longrightarrow> i < length as \<Longrightarrow> as ! i = a \<Longrightarrow>
     (\<And>k. k < length as \<Longrightarrow> unat (ExternalNLbas (as ! k)) \<le> unat (NLbas b)) \<Longrightarrow>
     (\<And>k. k < length as \<Longrightarrow> k \<noteq> i \<Longrightarrow>
        arena_media b (ns_content (pNamespace b) s) (as ! k) \<and> arena_media b c4 (as ! k)) \<Longrightarrow>
     \<exists>s'. BttReadArenasLoop b (length as) off done s = (EFI_SUCCESS, done @ as[i := arena_torn c a l j], s')
        \<and> ns_content (pNamespace b) s' = c4 \<and> ns_ready (pNamespace b) s' \<and> allocs s' = []"
proof (induction as arbitrary: off "done" i)
  case (Cons a' as)
  have n: "unat (ExternalNLbas a') \<le> unat (NLbas b)" using Cons.prems(4) [of 0] by simp
  have rest: "\<And>k. k < length as \<Longrightarrow> unat (ExternalNLbas (as ! k)) \<le> unat (NLbas b)"
    using Cons.prems(4) [of "Suc k" for k] by simp
  show ?case
  proof (cases i)
    case 0
    then have a: "a' = a" using Cons.prems by simp
    from BttReadArena_torn [OF med l buf r al _ cj] n Cons.prems(1) obtain s' where
      ld: "BttReadArena b off zero_arena s = (EFI_SUCCESS, arena_torn c a l j, s')"
      and s': "ns_content (pNamespace b) s' = c4" "ns_ready (pNamespace b) s'" "allocs s' = []"
      by (auto simp: a c4)
    have "\<And>x. x \<in> set as \<Longrightarrow> arena_media b c4 x \<and> unat (ExternalNLbas x) \<le> unat (NLbas b)"
      using Cons.prems(5) [of "Suc k" for k] 0 rest by (auto simp: in_set_conv_nth)
    with BttReadArenasLoop_media [OF s'(2,3), of "NextOffset a" as "done @ [arena_torn c a l j]"] s' Cons.prems(1) ld 0
    show ?thesis by (simp add: a)
  next
    case (Suc i')
    have "BttReadArena b off zero_arena s = (EFI_SUCCESS, a', s)"
      using BttReadArena_media [of b s a'] Cons.prems(1) Cons.prems(5) [of 0] Suc n r al by simp
    moreover from Cons.IH [of "NextOffset a'" i' "done @ [a']"] Cons.prems Suc rest Cons.prems(5) [of "Suc k" for k]
    obtain s' where "BttReadArenasLoop b (length as) (NextOffset a') (done @ [a']) s =
        (EFI_SUCCESS, (done @ [a']) @ as[i' := arena_torn c a l j], s')"
        "ns_content (pNamespace b) s' = c4" "ns_ready (pNamespace b) s'" "allocs s' = []" by auto
    ultimately show ?thesis using Suc by simp
  qed
qed simp

section \<open>Power failure during a write\<close>

lemma external_le_total: "btt_inv b s \<Longrightarrow> a \<in> set (Arenas b) \<Longrightarrow> unat (ExternalNLbas a) \<le> unat (NLbas b)"
  by (auto simp: btt_inv_def intro: member_le_sum_list)

lemma BttReadArenas_torn:
  fixes p :: u32
  assumes med: "btt_media b s" and i: "i < length (Arenas b)" and w: "arena_walk (Arenas b) 0 Lba = Some (i, ucast p)"
    and p: "unat p < unat (ExternalNLbas (Arenas b ! i))" and buf: "length buf = unat (LbaSize b)"
    and sc: "ns_content (pNamespace b) sc = replay (ns_content (pNamespace b) s)
               (take j (write_steps (ns_content (pNamespace b) s) (Arenas b ! i) (unat p) buf))"
    and r: "ns_ready (pNamespace b) sc" and al: "allocs sc = []" and b0: "same_handle b b0"
  shows "\<exists>b' s'. BttReadArenas b0 (NArenas b) sc = (EFI_SUCCESS, b', s') \<and> btt_media b' s' \<and> same_handle b b'
     \<and> b' = b0\<lparr>Arenas := (Arenas b)[i := arena_torn (ns_content (pNamespace b) s) (Arenas b ! i) (unat p) j], Laidout := True\<rparr>
     \<and> ns_content (pNamespace b) s' = replay (ns_content (pNamespace b) s) (take (if j = 3 then 4 else j)
           (write_steps (ns_content (pNamespace b) s) (Arenas b ! i) (unat p) buf))
     \<and> btt_abs b' s' = (if 3 \<le> j then (btt_abs b s)(Lba := Some buf) else btt_abs b s)"
proof -
  let ?c = "ns_content (pNamespace b) s" and ?a = "Arenas b ! i"
  let ?a' = "arena_torn ?c ?a (unat p) j"
  define c4 where "c4 = replay ?c (take (if j = 3 then 4 else j) (write_steps ?c ?a (unat p) buf))"
  have inv: "btt_inv b s" and wr: "btt_writable b s" using med by (simp_all add: btt_media_def btt_writable_def)
  have hb: "pNamespace b0 = pNamespace b" "PrimaryInfoOffset b0 = PrimaryInfoOffset b" "NLbas b0 = NLbas b" "LbaSize b0 = LbaSize b"
    "NFree b0 = NFree b" "NArenas b0 = NArenas b" "NLanes b0 = NLanes b"
    using b0 by (simp_all add: same_handle_def)
  note view = same_handle_view [OF b0]
  have am: "arena_media b ?c (Arenas b ! k)" if "k < length (Arenas b)" for k
    using med that by (simp add: btt_media_def)
  have ia: "arena_media b ?c ?a" by (rule am [OF i])
  have ai: "arena_inv b ?c (Arenas b ! k)" if "k < length (Arenas b)" for k
    using am [OF that] by (simp add: arena_media_def)
  have sr: "same_range ?c (replay ?c (take n (write_steps ?c ?a (unat p) buf))) (Arenas b ! k)"
    if "k < length (Arenas b)" "k \<noteq> i" for k n
    using write_same_range [OF inv i _ _ p buf] that by blast
  have other: "arena_media b (ns_content (pNamespace b) sc) (Arenas b ! k) \<and> arena_media b c4 (Arenas b ! k)"
    if "k < length (Arenas b)" "k \<noteq> i" for k
    using arena_media_cong [OF sr [OF that] am] that by (simp add: sc c4_def)
  obtain s' where load: "BttReadArenasLoop b0 (length (Arenas b)) (PrimaryInfoOffset b) [] sc =
      (EFI_SUCCESS, (Arenas b)[i := ?a'], s')"
    and s': "ns_content (pNamespace b) s' = c4" "ns_ready (pNamespace b) s'" "allocs s' = []"
    using BttReadArenasLoop_torn [of b0 sc ?c ?a "unat p" buf j c4 "PrimaryInfoOffset b" "Arenas b" i "[]"]
      r al ia p buf sc c4_def i med other external_le_total [OF inv] by (auto simp: hb view btt_media_def)
  define b' where "b' = b0\<lparr>Arenas := (Arenas b)[i := ?a'], Laidout := True\<rparr>"
  have hb': "Arenas b' = (Arenas b)[i := ?a']" "Laidout b'" "pNamespace b' = pNamespace b" "NLbas b' = NLbas b"
    "NArenas b' = NArenas b" "NLanes b' = NLanes b" "PrimaryInfoOffset b' = PrimaryInfoOffset b"
    by (simp_all add: b'_def hb)
  have ld: "BttReadArenas b0 (NArenas b) sc = (EFI_SUCCESS, b', s')"
    using load inv al by (simp add: BttReadArenas_def AllocatePool_def Let_def b'_def btt_inv_def hb)
  have sb: "same_handle b b'" using b0 by (simp add: same_handle_def b'_def)
  note view' = same_handle_view [OF sb]
  have keys: "map f ((Arenas b)[i := ?a']) = map f (Arenas b)" if "f ?a' = f ?a" for f :: "arena \<Rightarrow> 'x"
    using that by (simp add: map_update) (metis list_update_id map_update)
  have new: "arena_media b c4 ?a'"
    using arena_media_torn [OF ia p buf, of "if j = 3 then 4 else j"] arena_torn_34 [of ?c ?a "unat p"]
    by (cases "j = 3") (simp_all add: c4_def)
  have am': "arena_media b c4 x" if "x \<in> set ((Arenas b)[i := ?a'])" for x
    using that new other i by (auto simp: in_set_conv_nth nth_list_update)
  have "Flags x AND BTTINFO_FLAG_ERROR_MASK = 0" if "x \<in> set ((Arenas b)[i := ?a'])" for x
    using that wr i by (auto simp: btt_writable_def dest!: subsetD [OF set_update_subset_insert])
  moreover have "btt_inv b' s'"
    using inv am' s' sorted_wrt_same_keys [of "\<lambda>a. (arena_end a, StartOffset a)" "(Arenas b)[i := ?a']" "Arenas b"
        "\<lambda>x y. fst x \<le> unat (snd y)"] keys [of "\<lambda>a. (arena_end a, StartOffset a)"]
      sum_list_same_keys [OF keys [of ExternalNLbas], of unat]
    by (simp add: btt_inv_def view' arena_media_def hb')
  moreover have "arena_chain (PrimaryInfoOffset b) ((Arenas b)[i := ?a'])"
    using med i by (simp add: btt_media_def arena_chain_update)
  ultimately have bm: "btt_media b' s'"
    using med am' s' i by (simp add: btt_media_def btt_writable_def view' hb')
  have "arena_abs b' (ns_content (pNamespace b') s') (Arenas b' ! k) l' =
      (if 3 \<le> j \<and> k = i \<and> l' = unat p then Some buf else arena_abs b ?c (Arenas b ! k) l')"
    if "k < length (Arenas b)" "l' < unat (ExternalNLbas (Arenas b ! k))" for k l'
    using that i s' arena_inv_cong(2) [OF sr [of k] ai, of l'] arena_abs_write [OF ai [OF i] p buf, of l' "if j = 3 then 4 else j"]
    by (cases "k = i") (auto simp: hb' view' c4_def)
  from btt_abs_point [OF w _ this] keys [of ExternalNLbas]
  have "btt_abs b' s' = (if 3 \<le> j then (btt_abs b s)(Lba := Some buf) else btt_abs b s)" by (simp add: hb')
  with ld bm sb s'(1) show ?thesis unfolding b'_def c4_def by blast
qed

section \<open>Opening the device again\<close>

text \<open>
  The info blocks that \<open>BttReadLayout\<close> accepts: each is valid for this namespace and names the
  handle's block size and free-block count, and all but the last point to the next full-size arena.
\<close>

definition info_at :: "memory \<Rightarrow> u64 \<Rightarrow> btt_info" where
  "info_at c off = parse_info (mem_read c (unat off) 4096)"

definition info_accepted :: "btt \<Rightarrow> btt_info \<Rightarrow> bool" where
  "info_accepted b info \<longleftrightarrow> BttReadInfo info (Some b) = EFI_SUCCESS \<and> iExternalLbaSize info = LbaSize b
     \<and> iNFree info = NFree b \<and> iNFree info \<noteq> 0 \<and> iExternalNLbas info \<noteq> 0"

fun scan_ok :: "btt \<Rightarrow> memory \<Rightarrow> u64 \<Rightarrow> arena list \<Rightarrow> bool" where
  "scan_ok b c Raw [] = False"
| "scan_ok b c Raw (a # as) =
     (BTT_NAMESPACE_MIN_SIZE \<le> Raw \<and> info_accepted b (info_at c (StartOffset a))
      \<and> (if as = [] then iNextOffset (info_at c (StartOffset a)) = 0
         else iNextOffset (info_at c (StartOffset a)) = BTT_MAX_ARENA_SIZE \<and> BTT_MAX_ARENA_SIZE \<le> Raw
            \<and> scan_ok b c (Raw - BTT_MAX_ARENA_SIZE) as))"

definition btt_opened :: "btt \<Rightarrow> sys \<Rightarrow> bool" where
  "btt_opened b s \<longleftrightarrow>
     btt_media b s \<and> scan_ok b (ns_content (pNamespace b) s) (RawSize b) (Arenas b)
   \<and> NFree b \<le> BTT_DEFAULT_NFREE
   \<and> PrimaryInfoOffset b = (if NsMajor (pNamespace b) = NSINDEX_MAJOR \<and> NsMinor (pNamespace b) = NSINDEX_MINOR_1
        then BTT_PRIMARY_INFO_BLOCK_OFFSET_1_1 else BTT_PRIMARY_INFO_BLOCK_OFFSET)"

lemma scan_ok_cong:
  "(\<And>a. a \<in> set as \<Longrightarrow> info_at c' (StartOffset a) = info_at c (StartOffset a)) \<Longrightarrow>
     scan_ok b c' Raw as = scan_ok b c Raw as"
  by (induction as arbitrary: Raw) auto

definition info_names :: "btt_info \<Rightarrow> arena \<Rightarrow> bool" where
  "info_names info a \<longleftrightarrow> iExternalNLbas info = ExternalNLbas a \<and> NextOffset a = StartOffset a + iNextOffset info"

lemma loaded_info:
  assumes "a = loaded_arena b c (StartOffset a)"
  shows "info_names (info_at c (StartOffset a)) a"
  using arg_cong [OF assms, of ExternalNLbas] arg_cong [OF assms, of NextOffset]
  by (simp add: info_names_def loaded_arena_def arena_of_info_def info_at_def Let_def)

lemma BttReadLayoutLoop_ok:
  assumes r: "ns_ready (pNamespace b0) s" and c: "c = ns_content (pNamespace b0) s"
    and b0: "ParentUuid b0 = ParentUuid b" "LbaSize b0 = LbaSize b"
  shows "scan_ok b c Raw as \<Longrightarrow> arena_chain off as \<Longrightarrow>
     (\<And>a. a \<in> set as \<Longrightarrow> info_names (info_at c (StartOffset a)) a \<and> ns_fits (pNamespace b0) (StartOffset a) 4096) \<Longrightarrow>
     NFree b \<le> Small \<Longrightarrow>
     BttReadLayoutLoop b0 Raw off n Small Tot s =
       (Inr (n + of_nat (length as), NFree b, Tot + (\<Sum>a\<leftarrow>as. ucast (ExternalNLbas a))), s)"
proof (induction as arbitrary: Raw off n Small Tot)
  case (Cons a as)
  let ?i = "info_at c (StartOffset a)"
  have fit: "ns_fits (pNamespace b0) (StartOffset a) 4096" and off: "off = StartOffset a"
    and li: "iExternalNLbas ?i = ExternalNLbas a" "NextOffset a = StartOffset a + iNextOffset ?i"
    using Cons.prems by (auto simp: info_names_def)
  have rd: "ReadNamespaceBytes (pNamespace b0) off (replicate 4096 0) BTT_INFO_SIZE s =
      (EFI_SUCCESS, mem_read c (unat off) 4096, s)"
    using r fit by (simp add: ReadNamespaceBytes_ok c off)
  have p: "parse_info (mem_read c (unat off) 4096) = ?i" by (simp add: info_at_def off)
  have acc: "info_accepted b ?i" and raw: "BTT_NAMESPACE_MIN_SIZE \<le> Raw" using Cons.prems(1) by simp_all
  moreover have "BttReadInfo ?i (Some b0) = BttReadInfo ?i (Some b)" by (simp add: BttReadInfo_def b0)
  ultimately have ok: "BttReadInfo ?i (Some b0) = EFI_SUCCESS" "iExternalLbaSize ?i = LbaSize b0"
    "iNFree ?i = NFree b" "iNFree ?i \<noteq> 0" "iExternalNLbas ?i \<noteq> 0"
    using b0 by (auto simp: info_accepted_def)
  have small: "\<not> NFree b < Small \<Longrightarrow> Small = NFree b"
    using Cons.prems(4) by (auto simp: not_less)
  show ?case
  proof (cases "as = []")
    case True
    with Cons.prems(1) rd p ok raw li small show ?thesis
      by (subst BttReadLayoutLoop.simps) (auto simp: Let_def)
  next
    case False
    with Cons.prems(1) have nx: "iNextOffset ?i = BTT_MAX_ARENA_SIZE" "BTT_MAX_ARENA_SIZE \<le> Raw"
      "scan_ok b c (Raw - BTT_MAX_ARENA_SIZE) as" by simp_all
    have "arena_chain (off + BTT_MAX_ARENA_SIZE) as" using Cons.prems(2) li(2) nx(1) off by simp
    from Cons.IH [OF nx(3) this, of "NFree b" "n + 1" "Tot + ucast (ExternalNLbas a)"] Cons.prems(3)
    have "BttReadLayoutLoop b0 (Raw - BTT_MAX_ARENA_SIZE) (off + BTT_MAX_ARENA_SIZE) (n + 1) (NFree b)
        (Tot + ucast (ExternalNLbas a)) s =
        (Inr (n + of_nat (length (a # as)), NFree b, Tot + (\<Sum>a\<leftarrow>a # as. ucast (ExternalNLbas a))), s)"
      by (simp add: algebra_simps)
    moreover have "\<not> Raw < BTT_MAX_ARENA_SIZE" using nx(2) by (simp add: not_less)
    ultimately show ?thesis
      using rd p ok raw li nx small by (subst BttReadLayoutLoop.simps) (auto simp: Let_def)
  qed
qed simp

lemma write_info_at:
  fixes p :: u32 and n :: nat
  assumes inv: "btt_inv b s" and i: "i < length (Arenas b)" and p: "unat p < unat (ExternalNLbas (Arenas b ! i))"
    and buf: "length buf = unat (LbaSize b)" and a: "a \<in> set (Arenas b)"
  defines "c \<equiv> ns_content (pNamespace b) s"
  shows "info_at (replay c (take n (write_steps c (Arenas b ! i) (unat p) buf))) (StartOffset a) = info_at c (StartOffset a)"
proof -
  obtain k where k: "k < length (Arenas b)" "a = Arenas b ! k" using a by (auto simp: in_set_conv_nth)
  have ai: "arena_inv b c (Arenas b ! i)" and wf: "arena_wf b a"
    using inv i a by (auto simp: btt_inv_def c_def arena_inv_def)
  have "mem_read (replay c (take n (write_steps c (Arenas b ! i) (unat p) buf))) (unat (StartOffset a)) 4096
      = mem_read c (unat (StartOffset a)) 4096"
  proof (cases "k = i")
    case True
    then show ?thesis using write_steps_elsewhere(1) [OF ai p buf] k by simp
  next
    case False
    have "unat (StartOffset a) + 4096 \<le> arena_end a"
      using wf unfolding arena_wf_def arena_end_def by linarith
    with write_same_range [OF inv i k(1) _ p buf, of n] False k(2) show ?thesis
      by (intro same_range_read) (auto simp: c_def)
  qed
  then show ?thesis by (simp add: info_at_def)
qed

lemma sum_list_ucast:
  "(\<Sum>a\<leftarrow>as. ucast (ExternalNLbas a) :: u64) = of_nat (\<Sum>a\<leftarrow>as. unat (ExternalNLbas a))"
  by (induction as) simp_all

lemma info_accepted_cong:
  "ParentUuid b' = ParentUuid b \<Longrightarrow> LbaSize b' = LbaSize b \<Longrightarrow> NFree b' = NFree b \<Longrightarrow>
     info_accepted b' = info_accepted b"
  by (simp add: fun_eq_iff info_accepted_def BttReadInfo_def)

lemma scan_ok_handle:
  "ParentUuid b' = ParentUuid b \<Longrightarrow> LbaSize b' = LbaSize b \<Longrightarrow> NFree b' = NFree b \<Longrightarrow>
     map StartOffset as' = map StartOffset as \<Longrightarrow> scan_ok b' c Raw as' = scan_ok b c Raw as"
proof (induction as arbitrary: Raw as')
  case (Cons a as)
  from Cons.prems(4) obtain x xs where "as' = x # xs" "StartOffset x = StartOffset a" "map StartOffset xs = map StartOffset as"
    by (cases as') auto
  with Cons.IH [OF Cons.prems(1-3), of xs] info_accepted_cong [OF Cons.prems(1-3)] show ?case by auto
qed auto

lemma BttInit_torn:
  fixes p :: u32
  assumes op: "btt_opened b s" and i: "i < length (Arenas b)" and w: "arena_walk (Arenas b) 0 Lba = Some (i, ucast p)"
    and p: "unat p < unat (ExternalNLbas (Arenas b ! i))" and buf: "length buf = unat (LbaSize b)"
    and sc: "ns_content (pNamespace b) sc = replay (ns_content (pNamespace b) s)
               (take j (write_steps (ns_content (pNamespace b) s) (Arenas b ! i) (unat p) buf))"
    and r: "ns_ready (pNamespace b) sc" and al: "allocs sc = []"
  shows "\<exists>b' ns' s'. BttInit (RawSize b) (LbaSize b) (ParentUuid b) (pNamespace b) sc = (Some b', ns', s')
     \<and> btt_opened b' s' \<and> btt_abs b' s' = (if 3 \<le> j then (btt_abs b s)(Lba := Some buf) else btt_abs b s)
     \<and> LbaSize b' = LbaSize b"
proof -
  let ?c = "ns_content (pNamespace b) s" and ?as = "Arenas b"
  have med: "btt_media b s" and scan: "scan_ok b ?c (RawSize b) ?as" and free: "NFree b \<le> BTT_DEFAULT_NFREE"
    and prim: "PrimaryInfoOffset b = (if NsMajor (pNamespace b) = NSINDEX_MAJOR \<and> NsMinor (pNamespace b) = NSINDEX_MINOR_1
        then BTT_PRIMARY_INFO_BLOCK_OFFSET_1_1 else BTT_PRIMARY_INFO_BLOCK_OFFSET)"
    using op unfolding btt_opened_def by blast+
  have inv: "btt_inv b s" and ch: "arena_chain (PrimaryInfoOffset b) ?as"
    using med by (simp_all add: btt_media_def btt_writable_def)
  define b1 where "b1 = \<lparr>Laidout = False, NLanes = 0, Uuid = replicate 16 0, ParentUuid = ParentUuid b,
     RawSize = RawSize b, LbaSize = LbaSize b, BttInternalLbaSize = 0, NFree = BTT_DEFAULT_NFREE, NLbas = 0,
     NArenas = 0, PrimaryInfoOffset = PrimaryInfoOffset b, Arenas = [], pNamespace = pNamespace b\<rparr>"
  define b2 where "b2 = b1\<lparr>NArenas := NArenas b, NLbas := NLbas b, NFree := NFree b\<rparr>"
  note same = write_info_at [OF inv i p buf]
  have scan': "scan_ok b (ns_content (pNamespace b) sc) (RawSize b) ?as"
    using scan scan_ok_cong [of ?as "ns_content (pNamespace b) sc" ?c] same by (simp add: sc)
  have names: "info_names (info_at (ns_content (pNamespace b) sc) (StartOffset a)) a
      \<and> ns_fits (pNamespace b1) (StartOffset a) 4096" if "a \<in> set ?as" for a
    using med that arena_info_fits loaded_info [of a b ?c] same
    by (auto simp: btt_media_def arena_media_def arena_inv_def sc b1_def)
  have ne: "?as \<noteq> []" using i by auto
  have n: "0 + of_nat (length ?as) = NArenas b" "NArenas b \<noteq> 0"
    using inv ne by (auto simp: btt_inv_def)
  have tot: "0 + (\<Sum>a\<leftarrow>?as. ucast (ExternalNLbas a)) = NLbas b"
  proof -
    have "of_nat (\<Sum>a\<leftarrow>?as. unat (ExternalNLbas a)) = (of_nat (unat (NLbas b)) :: u64)"
      using inv by (simp add: btt_inv_def)
    then show ?thesis by (simp add: sum_list_ucast)
  qed
  have "BttReadLayoutLoop b1 (RawSize b) (PrimaryInfoOffset b) 0 0xFFFFFFFF 0 sc = (Inr (NArenas b, NFree b, NLbas b), sc)"
    using BttReadLayoutLoop_ok [of b1 sc "ns_content (pNamespace b) sc" b "RawSize b" ?as "PrimaryInfoOffset b"
        "0xFFFFFFFF" 0 0] r scan' ch names n(1) tot order_trans [OF free, of "0xFFFFFFFF"]
    by (simp add: b1_def)
  moreover have "\<not> NFree b < BTT_DEFAULT_NFREE \<Longrightarrow> NFree b = BTT_DEFAULT_NFREE" using free by simp
  moreover have alloc: "AllocatePool sc = (True, sc)" using al by (simp add: AllocatePool_def)
  ultimately have layout: "BttReadLayout (b1\<lparr>NFree := 0\<rparr>) sc = BttReadArenas b2 (NArenas b) sc"
    using n(2) by (auto simp: BttReadLayout_def Let_def b2_def b1_def)
  have h2: "same_handle b b2" using inv by (simp add: same_handle_def b2_def b1_def btt_inv_def)
  from BttReadArenas_torn [OF med i w p buf sc r al h2] obtain b' s' where
    ld: "BttReadArenas b2 (NArenas b) sc = (EFI_SUCCESS, b', s')" and bm: "btt_media b' s'" and sb: "same_handle b b'"
    and b': "b' = b2\<lparr>Arenas := ?as[i := arena_torn ?c (?as ! i) (unat p) j], Laidout := True\<rparr>"
    and c4: "ns_content (pNamespace b) s' = replay ?c (take (if j = 3 then 4 else j) (write_steps ?c (?as ! i) (unat p) buf))"
    and abs: "btt_abs b' s' = (if 3 \<le> j then (btt_abs b s)(Lba := Some buf) else btt_abs b s)"
    by metis
  have f': "ParentUuid b' = ParentUuid b" "LbaSize b' = LbaSize b" "NFree b' = NFree b" "RawSize b' = RawSize b"
    "pNamespace b' = pNamespace b" "PrimaryInfoOffset b' = PrimaryInfoOffset b"
    "Arenas b' = ?as[i := arena_torn ?c (?as ! i) (unat p) j]"
    by (simp_all add: b' b2_def b1_def)
  have "map StartOffset (Arenas b') = map StartOffset ?as"
    by (simp add: f' map_update) (metis list_update_id map_update)
  then have "scan_ok b' (ns_content (pNamespace b') s') (RawSize b') (Arenas b')"
    using scan scan_ok_handle [OF f'(1-3)] scan_ok_cong [of ?as "ns_content (pNamespace b) s'" ?c b "RawSize b"] same c4
    by (simp add: f')
  then have op': "btt_opened b' s'"
    using bm free prim unfolding btt_opened_def f' by blast
  have raw: "\<not> RawSize b < BTT_NAMESPACE_MIN_SIZE" using scan ne by (cases ?as) (auto simp: not_less)
  have "BttInit (RawSize b) (LbaSize b) (ParentUuid b) (pNamespace b) sc =
      (Some b', (pNamespace b)\<lparr>UsableSize := NLbas b' * ucast (LbaSize b')\<rparr>, s')"
    using raw alloc layout ld unfolding BttInit_def prim [symmetric] by (simp add: b1_def Let_def)
  with op' abs f'(2) show ?thesis by blast
qed

section \<open>Writing keeps the device reopenable\<close>

lemma btt_opened_write:
  fixes p :: u32
  assumes op: "btt_opened b s" and i: "i < length (Arenas b)" and w: "arena_walk (Arenas b) 0 Lba = Some (i, ucast p)"
    and p: "unat p < unat (ExternalNLbas (Arenas b ! i))" and buf: "length buf = unat (LbaSize b)"
    and wr: "btt_writable (btt_after b i p s) (write_state b (Arenas b ! i) p buf s)"
  shows "btt_opened (btt_after b i p s) (write_state b (Arenas b ! i) p buf s)"
proof -
  let ?c = "ns_content (pNamespace b) s" and ?as = "Arenas b" and ?b = "btt_after b i p s"
  let ?a = "arena_after (?as ! i) (unat p) (old_map ?c (?as ! i) (unat p))"
  let ?s = "write_state b (?as ! i) p buf s"
  have med: "btt_media b s" and scan: "scan_ok b ?c (RawSize b) ?as" using op by (simp_all add: btt_opened_def)
  have inv: "btt_inv b s" using med by (simp add: btt_media_def btt_writable_def)
  have am: "arena_media b ?c a" if "a \<in> set ?as" for a using med that by (simp add: btt_media_def)
  have ia: "arena_inv b ?c (?as ! i)" using am [of "?as ! i"] i by (simp add: arena_media_def)
  have c4: "ns_content (pNamespace b) ?s = replay ?c (take 4 (write_steps ?c (?as ! i) (unat p) buf))"
    using write_state_content(1) [OF ia p buf refl] by (simp add: write_steps_def Let_def)
  have f: "Arenas ?b = ?as[i := ?a]" "pNamespace ?b = pNamespace b" "RawSize ?b = RawSize b" "NFree ?b = NFree b"
    "LbaSize ?b = LbaSize b" "ParentUuid ?b = ParentUuid b" "PrimaryInfoOffset ?b = PrimaryInfoOffset b"
    by (simp_all add: btt_after_def set_arena_def Let_def)
  have sb: "same_handle b ?b" by (simp add: same_handle_def btt_after_def set_arena_def Let_def)
  have torn: "?a = arena_torn ?c (?as ! i) (unat p) 4" by (simp add: arena_torn_def Let_def)
  have "arena_media b (ns_content (pNamespace b) ?s) x" if x: "x \<in> set (?as[i := ?a])" for x
  proof -
    have "arena_media b (ns_content (pNamespace b) ?s) ?a"
      using arena_media_torn [OF am [OF nth_mem [OF i]] p buf, of 4] by (simp add: c4 torn)
    moreover have "arena_media b (ns_content (pNamespace b) ?s) (?as ! k)" if "k < length ?as" "k \<noteq> i" for k
      using arena_media_cong [OF write_same_range [OF inv i that(1) _ p buf, of 4] am] that by (auto simp: c4)
    ultimately show ?thesis using x i by (auto simp: in_set_conv_nth nth_list_update)
  qed
  moreover have "arena_chain (PrimaryInfoOffset b) (?as[i := ?a])"
    using med i by (simp add: btt_media_def arena_chain_update torn)
  ultimately have "btt_media ?b ?s"
    using wr by (simp add: btt_media_def f same_handle_view [OF sb])
  moreover have "map StartOffset (Arenas ?b) = map StartOffset ?as"
    by (simp add: f map_update) (metis list_update_id map_update)
  then have "scan_ok ?b (ns_content (pNamespace b) ?s) (RawSize b) (Arenas ?b)"
    using scan scan_ok_handle [OF f(6,5,4)] scan_ok_cong [of ?as "ns_content (pNamespace b) ?s" ?c b "RawSize b"]
      write_info_at [OF inv i p buf] c4 by simp
  ultimately show ?thesis
    using op unfolding btt_opened_def f by blast
qed

section \<open>Properties\<close>


text \<open>The small device is reopenable.\<close>

lemma ex_opened: "btt_opened ex_btt ex_sys"
proof -
  have ns: "pNamespace ex_btt = ex_ns" and as: "Arenas ex_btt = [ex_arena]" by (simp_all add: ex_btt_def)
  have "mem_read (ns_content ex_ns ex_sys) 0 4096 = info_bytes ex_info"
    by (simp add: ex_content mem_simps)
  moreover have wf: "info_wf ex_info" by (simp add: ex_info_def info_wf_def Sig_def)
  ultimately have info: "info_at (ns_content ex_ns ex_sys) 0 = ex_info"
    by (simp add: info_at_def parse_info_bytes)
  then have pi: "parse_info (mem_read (ns_content ex_ns ex_sys) 0 4096) = ex_info" by (simp add: info_at_def)
  have pair: "parse_flog_pair (mem_read (ns_content ex_ns ex_sys) 4352 64) = initial_flog_pair 2"
    using ex_arena_inv by (simp add: arena_inv_def flog_synced_def ex_arena_def Let_def)
  have sel: "FlogSelect (fSeq (flog0 (initial_flog_pair 2))) (fSeq (flog1 (initial_flog_pair 2))) = Some 0"
    by (simp add: initial_flog_pair_def zero_flog_pair_def zero_flog_def FlogSelect_def)
  have "loaded_arena ex_btt (ns_content ex_ns ex_sys) 0 = ex_arena"
    by (simp add: loaded_arena_def pi arena_of_info_def ex_info_def Let_def ex_btt_def flog_pos_def
        load_flog_def pair sel ex_arena_def)
  moreover have "pair_valid ex_arena (initial_flog_pair 2)"
    unfolding pair_valid_def sel by (simp add: initial_flog_pair_def zero_flog_pair_def zero_flog_def ex_arena_def)
  ultimately have "arena_media ex_btt (ns_content ex_ns ex_sys) ex_arena"
    using ex_arena_inv by (simp add: arena_media_def) (simp add: ex_arena_def)
  then have "btt_media ex_btt ex_sys"
    using ex_writable unfolding btt_media_def ns as by (simp add: ex_btt_def ex_arena_def)
  moreover have "info_accepted ex_btt ex_info"
    using seal_bytes(2) wf
    by (simp add: info_accepted_def BttReadInfo_def ex_btt_def ex_info_def)
  then have "scan_ok ex_btt (ns_content ex_ns ex_sys) 16777216 [ex_arena]"
    using info by (simp add: ex_arena_def ex_info_def)
  ultimately show ?thesis
    unfolding btt_opened_def ns as by (simp add: ex_btt_def ex_ns_def)
qed




end
