(* ===== verification/Btt_Flush.thy ===== *)
theory Btt_Flush
  imports Btt_Crash Namespace_Safety
begin

text \<open>
  What \<open>BttWrite\<close> leaves in the persistence domain. The flog halves are eight-byte stores, which
  the flush loop of \<open>AppDirectIo\<close> skips, while the map line is flushed: a power failure right
  after a completed write can preserve the new map entry together with the old flog entry.
\<close>

lemma media_ns_store:
  "media (ns_store ns off bs s) =
     (let a = unat (SpaNamespaceBase ns + off)
      in (\<lambda>x. if \<exists>i < length bs div CACHE_LINE_SIZE. x div CACHE_LINE_SIZE = (a + i * CACHE_LINE_SIZE) div CACHE_LINE_SIZE
           then mem_write (cpu s) a bs x else media s x))"
  by (auto simp: ns_store_def Let_def media_fold_gClFlush fun_eq_iff)

lemma cpu_ns_store: "cpu (ns_store ns off bs s) = mem_write (cpu s) (unat (SpaNamespaceBase ns + off)) bs"
  by (simp add: ns_store_def Let_def)

text \<open>A store leaves the durable contents of a line alone that lies behind everything it writes.\<close>

lemma media_ns_store_behind:
  assumes "ns_fits ns off (length bs)" and "unat (SpaNamespaceBase ns) + unat off + length bs \<le> y" and "y mod 64 = 0" and "y \<le> x"
  shows "media (ns_store ns off bs s) x = media s x"
proof -
  let ?a = "unat (SpaNamespaceBase ns) + unat off"
  have "x div 64 \<noteq> (?a + i * 64) div 64" if "i < length bs div 64" for i
  proof -
    have "i * 64 + 64 \<le> length bs"
      using that by (metis Suc_leI add.commute div_times_less_eq_dividend le_trans mult_Suc mult_le_mono1)
    then have "?a + i * 64 < y" using assms(2) by linarith
    then have "(?a + i * 64) div 64 < y div 64" using assms(3) by (intro less_mult_imp_div_less) auto
    also have "\<dots> \<le> x div 64" using assms(4) by (rule div_le_mono)
    finally show ?thesis by simp
  qed
  then show ?thesis
    by (auto simp: media_ns_store Let_def ns_fits_addr [OF assms(1)])
qed

definition durable :: "btt \<Rightarrow> sys \<Rightarrow> memory" where
  "durable b s = (\<lambda>off. media s (unat (SpaNamespaceBase (pNamespace b)) + off))"

lemma write_state_durable:
  fixes p :: u32
  assumes inv: "arena_inv b c a" and l: "unat p < unat (ExternalNLbas a)" and buf: "length buf = unat (LbaSize b)"
    and c: "c = ns_content (pNamespace b) s"
    and al: "(unat (SpaNamespaceBase (pNamespace b)) + unat (MapOffset a)) mod 64 = 0"
      "(unat (SpaNamespaceBase (pNamespace b)) + unat (FlogOffset a)) mod 64 = 0"
  defines "s' \<equiv> write_state b a p buf s"
  shows "map_entry (durable b s') a (unat p) = free_map a"
    and "mem_read (durable b s') (unat (FlogOffset a)) 64 = mem_read (durable b s) (unat (FlogOffset a)) 64"
proof -
  let ?B = "unat (SpaNamespaceBase (pNamespace b))" and ?m = "unat (MapEntryAddr a p)"
  have wf: "arena_wf b a" using inv by (simp add: arena_inv_def)
  note d = data_store_facts [OF inv] and fl = flog_off_facts [OF inv] and m = arena_wf_map_addr [OF wf l]
  note r = arena_regions [OF wf]
  define f where "f = next_flog a (unat p) (old_map c a (unat p))"
  define s1 where "s1 = ns_store (pNamespace b) (DataBlockAddr a (free_map a)) buf s"
  define s2 where "s2 = ns_store (pNamespace b) (flog_off a) (le32 (fLba f) @ le32 (fOldMap f)) s1"
  define s3 where "s3 = ns_store (pNamespace b) (flog_off a + 8) (le32 (fNewMap f) @ le32 (fSeq f)) s2"
  define line where "line = map_bytes ((map_line c a p)[unat (BttGetPositionInMapFromLba p) := free_map a])"
  have s': "s' = ns_store (pNamespace b) (MapEntryAddr a p) line s3"
    by (simp add: s'_def write_state_def Let_def s3_def s2_def s1_def f_def line_def c)
  have len: "length line = 64" using map_line_facts(1) [OF wf l, of c] by (simp add: line_def)
  have am: "(?B + ?m) mod 64 = 0"
  proof -
    have "?B + ?m = (?B + unat (MapOffset a)) + (unat p div 16) * 64" using m(1) by simp
    with al(1) show ?thesis by (simp only: mod_mult_self1)
  qed
  have flushed: "media s' (?B + unat (MapOffset a) + 4 * unat p + k) = cpu s' (?B + unat (MapOffset a) + 4 * unat p + k)" if "k < 4" for k
  proof -
    have "?B + unat (MapOffset a) + 4 * unat p + k = ?B + ?m + (4 * (unat p mod 16) + k)" using m(3) by simp
    moreover have "4 * (unat p mod 16) + k < 64" using that by linarith
    ultimately have "(?B + unat (MapOffset a) + 4 * unat p + k) div 64 = (?B + ?m) div 64"
      using am by (auto simp: mod_eq_0_iff_dvd elim!: dvdE)
    then show ?thesis by (auto simp: s' media_ns_store cpu_ns_store Let_def len ns_fits_addr [OF m(4)])
  qed
  have "map_entry (durable b s') a (unat p) = map_entry (ns_content (pNamespace b) s') a (unat p)"
    unfolding map_entry_def using flushed
    by (intro arg_cong [of _ _ of_le] mem_read_cong) (simp add: durable_def ns_content_def add.assoc)
  also have "\<dots> = free_map a"
    using write_steps_map [OF inv l buf l, of 4] write_state_content(1) [OF inv l buf c]
    by (simp add: s'_def write_steps_def Let_def)
  finally show "map_entry (durable b s') a (unat p) = free_map a" .
  have "media s' x = media s x" if "?B + unat (FlogOffset a) \<le> x" for x
  proof -
    have "media s' x = media s3 x"
      unfolding s' using m(4) m(2) len al(2) that by (intro media_ns_store_behind) auto
    also have "\<dots> = media s1 x" by (simp add: s3_def s2_def media_ns_store Let_def)
    also have "\<dots> = media s x"
      unfolding s1_def using d buf r(2) [OF free_of_bound [OF inv]] r(3) [OF l] al(2) that
      by (intro media_ns_store_behind) auto
    finally show ?thesis .
  qed
  then show "mem_read (durable b s') (unat (FlogOffset a)) 64 = mem_read (durable b s) (unat (FlogOffset a)) 64"
    by (intro mem_read_cong) (simp add: durable_def)
qed

lemma btt_opened_same_content:
  assumes "btt_opened b s" and "ns_content (pNamespace b) s' = ns_content (pNamespace b) s"
    and "ns_ready (pNamespace b) s' = ns_ready (pNamespace b) s"
  shows "btt_opened b s'"
  using assms(1) unfolding btt_opened_def btt_media_def btt_writable_def btt_inv_def assms(2,3) .



end
