(* ===== verification/Pfn.thy ===== *)
theory Pfn
  imports Checksum Namespace_Io
begin

text \<open>
  The page-frame-number abstraction of a namespace (\<open>DcpmPkg/driver/Core/Pfn.c\<close>, \<open>PfnLayout.h\<close>,
  \<open>Pfn.h\<close>): an info block behind the first 4 KiB names the padding and the offset at which the
  data begins; blocks are read and written in place behind that offset.
\<close>

section \<open>Info block\<close>

abbreviation (input) PFN_INFO_BLOCK_OFFSET :: u64 where "PFN_INFO_BLOCK_OFFSET \<equiv> 4096"
abbreviation (input) PFNINFO_SIG_LEN :: nat where "PFNINFO_SIG_LEN \<equiv> 16"
abbreviation (input) PFN_INFO_SIZE :: nat where "PFN_INFO_SIZE \<equiv> 4096"

definition PfnSig :: "u8 list" where
  "PfnSig = map (\<lambda>c. of_nat (of_char c)) ''NVDIMM_PFN_INFO'' @ [0]"

record pfn_info =
  pSig :: "u8 list"
  pUuid :: "u8 list"
  pParentUuid :: "u8 list"
  pFlags :: u32
  pMajor :: u16
  pMinor :: u16
  pDataOff :: u64
  pNpfns :: u64
  pMode :: u32
  pStartPad :: u32
  pEndTrunc :: u32
  pAlign :: u32
  pUnused :: "u8 list"
  pChecksum :: u64

definition pfn_info_bytes :: "pfn_info \<Rightarrow> u8 list" where
  "pfn_info_bytes i =
     pSig i @ pUuid i @ pParentUuid i @ le32 (pFlags i) @ le16 (pMajor i) @ le16 (pMinor i) @
     le64 (pDataOff i) @ le64 (pNpfns i) @ le32 (pMode i) @ le32 (pStartPad i) @
     le32 (pEndTrunc i) @ le32 (pAlign i) @ pUnused i @ le64 (pChecksum i)"

definition parse_pfn_info :: "u8 list \<Rightarrow> pfn_info" where
  "parse_pfn_info bs =
     \<lparr>pSig = take 16 bs, pUuid = take 16 (drop 16 bs), pParentUuid = take 16 (drop 32 bs),
      pFlags = get32 48 bs, pMajor = get16 52 bs, pMinor = get16 54 bs,
      pDataOff = get64 56 bs, pNpfns = get64 64 bs, pMode = get32 72 bs,
      pStartPad = get32 76 bs, pEndTrunc = get32 80 bs, pAlign = get32 84 bs,
      pUnused = take 4000 (drop 88 bs), pChecksum = get64 4088 bs\<rparr>"

definition pfn_info_wf :: "pfn_info \<Rightarrow> bool" where
  "pfn_info_wf i \<longleftrightarrow> length (pSig i) = 16 \<and> length (pUuid i) = 16 \<and> length (pParentUuid i) = 16
     \<and> length (pUnused i) = 4000"

section \<open>Handle and operations\<close>

record pfn =
  pfnParentUuid :: "u8 list"
  pfnRawSize :: u64
  pfnLbaSize :: u32
  pfnStartPad :: u32
  pfnDataOff :: u64
  pfnNamespace :: namespace

text \<open>
  \<open>PfnInit\<close> returns the status, the handle it stores in the namespace and the namespace with its
  new usable size. The info block it reads is not validated here; \<open>CheckPfnExistence\<close> does that
  before, through \<open>PfnValidateInfo\<close>.
\<close>

definition PfnInit :: "u64 \<Rightarrow> u32 \<Rightarrow> u8 list \<Rightarrow> namespace \<Rightarrow> sys \<Rightarrow> efi_status \<times> pfn option \<times> namespace \<times> sys" where
  "PfnInit RawSize LbaSize Parent pNamespace s =
     (let (ok, s) = AllocatePool s
      in if \<not> ok then (EFI_OUT_OF_RESOURCES, None, pNamespace, s)
         else
           let (ok, s) = AllocatePool s
           in if \<not> ok then (EFI_OUT_OF_RESOURCES, None, pNamespace, s)
              else
                let (rc, buf, s) = ReadNamespaceBytes pNamespace PFN_INFO_BLOCK_OFFSET
                       (replicate PFN_INFO_SIZE 0) (of_nat PFN_INFO_SIZE) s
                in if EFI_ERROR rc then (rc, None, pNamespace, s)
                   else
                     let pPfnInfo = parse_pfn_info buf;
                         pNamespace = pNamespace\<lparr>UsableSize := BlockCount pNamespace - ucast (pStartPad pPfnInfo)
                                         - ucast (pEndTrunc pPfnInfo) - pDataOff pPfnInfo\<rparr>
                     in (rc, Some \<lparr>pfnParentUuid = Parent, pfnRawSize = RawSize, pfnLbaSize = LbaSize,
                                   pfnStartPad = pStartPad pPfnInfo, pfnDataOff = pDataOff pPfnInfo,
                                   pfnNamespace = pNamespace\<rparr>,
                         pNamespace, s))"

definition PfnOffset :: "pfn \<Rightarrow> u64 \<Rightarrow> u64" where
  "PfnOffset pPfn LBA =
     ucast (pfnStartPad pPfn) + pfnDataOff pPfn + LBA * ucast (MediaBlockSize (pfnNamespace pPfn))"

definition PfnRead :: "pfn \<Rightarrow> u64 \<Rightarrow> u8 list \<Rightarrow> sys \<Rightarrow> efi_status \<times> u8 list \<times> sys" where
  "PfnRead pPfn LBA pBuffer s =
     (let (rc, buf, s) = ReadNamespaceBytes (pfnNamespace pPfn) (PfnOffset pPfn LBA) pBuffer (ucast (pfnLbaSize pPfn)) s
      in if EFI_ERROR rc then (rc, buf, s) else (EFI_SUCCESS, buf, s))"

definition PfnWrite :: "pfn \<Rightarrow> u64 \<Rightarrow> u8 list \<Rightarrow> sys \<Rightarrow> efi_status \<times> sys" where
  "PfnWrite pPfn LBA pBuffer s =
     (let (rc, s) = WriteNamespaceBytes (pfnNamespace pPfn) (PfnOffset pPfn LBA) pBuffer (ucast (pfnLbaSize pPfn)) s
      in if EFI_ERROR rc then (rc, s) else (EFI_SUCCESS, s))"

text \<open>The signature is compared up to \<open>PFNINFO_SIG_LEN\<close> bytes; the handle is optional.\<close>

definition PfnValidateInfo :: "pfn_info \<Rightarrow> pfn option \<Rightarrow> efi_status" where
  "PfnValidateInfo pInfo pPfn =
     (if pSig pInfo \<noteq> take PFNINFO_SIG_LEN PfnSig then EFI_ABORTED
      else if (case pPfn of None \<Rightarrow> False | Some p \<Rightarrow> pParentUuid pInfo \<noteq> pfnParentUuid p) then EFI_ABORTED
      else if \<not> fst (ChecksumOperations (pfn_info_bytes pInfo) PFN_INFO_SIZE 4088 False) then EFI_ABORTED
      else if pMajor pInfo = 0 then EFI_ABORTED
      else EFI_SUCCESS)"

section \<open>Codec\<close>

lemma length_pfn_info_bytes [simp, codec_simps]: "pfn_info_wf i \<Longrightarrow> length (pfn_info_bytes i) = 4096"
  by (simp add: pfn_info_bytes_def pfn_info_wf_def)

lemma parse_pfn_info_bytes: "pfn_info_wf i \<Longrightarrow> parse_pfn_info (pfn_info_bytes i) = i"
  by (simp add: parse_pfn_info_def pfn_info_bytes_def pfn_info_wf_def)

lemma pfn_info_wf_parse: "length bs = 4096 \<Longrightarrow> pfn_info_wf (parse_pfn_info bs)"
  by (simp add: pfn_info_wf_def parse_pfn_info_def)

lemma pfn_info_bytes_parse:
  assumes "length bs = 4096"
  shows "pfn_info_bytes (parse_pfn_info bs) = bs"
proof -
  have "pfn_info_bytes (parse_pfn_info bs) =
    take 16 (drop 0 bs) @ take 16 (drop 16 bs) @ take 16 (drop 32 bs) @ take 4 (drop 48 bs) @
    take 2 (drop 52 bs) @ take 2 (drop 54 bs) @ take 8 (drop 56 bs) @ take 8 (drop 64 bs) @
    take 4 (drop 72 bs) @ take 4 (drop 76 bs) @ take 4 (drop 80 bs) @ take 4 (drop 84 bs) @
    take 4000 (drop 88 bs) @ take 8 (drop 4088 bs) @ []"
    using assms by (simp add: pfn_info_bytes_def parse_pfn_info_def le_get)
  also have "\<dots> = take 4096 (drop 0 bs) @ []"
    by (simp only: take_drop_join_rest arith_simps)
  finally show ?thesis using assms by simp
qed

section \<open>Blocks in place\<close>

text \<open>
  The blocks of a namespace that keeps them in place: \<open>n\<close> blocks of \<open>bs\<close> bytes from byte \<open>base\<close>
  of the namespace.
\<close>

definition flat_block :: "memory \<Rightarrow> nat \<Rightarrow> nat \<Rightarrow> nat \<Rightarrow> u8 list" where
  "flat_block c base bs l = mem_read c (base + l * bs) bs"

lemma flat_block_write:
  assumes "length buf = bs"
  shows "flat_block (mem_write c (base + l * bs) buf) base bs k = (if k = l then buf else flat_block c base bs k)"
proof (cases "k = l")
  case False
  then have "k * bs + bs \<le> l * bs \<or> l * bs + bs \<le> k * bs"
    by (metis Suc_leI add.commute linorder_neqE_nat mult_Suc mult_le_mono1)
  with False assms show ?thesis by (auto simp: flat_block_def mem_simps)
qed (use assms in \<open>simp add: flat_block_def mem_simps\<close>)

definition pfn_fits :: "pfn \<Rightarrow> u64 \<Rightarrow> bool" where
  "pfn_fits p n \<longleftrightarrow> pfnLbaSize p = MediaBlockSize (pfnNamespace p)
     \<and> unat (SpaNamespaceBase (pfnNamespace p)) + unat (pfnStartPad p) + unat (pfnDataOff p)
         + unat n * unat (pfnLbaSize p) < 2 ^ 64"

abbreviation pfn_base :: "pfn \<Rightarrow> nat" where
  "pfn_base p \<equiv> unat (pfnStartPad p) + unat (pfnDataOff p)"

lemma pfn_offset:
  assumes "pfn_fits p n" and "LBA < n"
  shows "unat (PfnOffset p LBA) = pfn_base p + unat LBA * unat (pfnLbaSize p)"
    and "ns_fits (pfnNamespace p) (PfnOffset p LBA) (unat (pfnLbaSize p))"
proof -
  have "unat LBA < unat n" using assms(2) by (simp add: word_less_nat_alt)
  then have "Suc (unat LBA) * unat (pfnLbaSize p) \<le> unat n * unat (pfnLbaSize p)"
    by (intro mult_le_mono1) simp
  with assms(1) have b: "unat (SpaNamespaceBase (pfnNamespace p)) + pfn_base p
      + unat LBA * unat (pfnLbaSize p) + unat (pfnLbaSize p) < 2 ^ 64"
    by (auto simp: pfn_fits_def)
  have "unat (LBA * ucast (MediaBlockSize (pfnNamespace p))) = unat LBA * unat (pfnLbaSize p)"
    using assms(1) b by (subst unat_times_nowrap) (auto simp: pfn_fits_def)
  moreover have "unat (ucast (pfnStartPad p) + pfnDataOff p) = pfn_base p"
    using b by (subst unat_plus_nowrap) auto
  ultimately show "unat (PfnOffset p LBA) = pfn_base p + unat LBA * unat (pfnLbaSize p)"
    unfolding PfnOffset_def using b by (subst unat_plus_nowrap) auto
  with b show "ns_fits (pfnNamespace p) (PfnOffset p LBA) (unat (pfnLbaSize p))"
    using unat_bound [of "pfnLbaSize p"] by (simp add: ns_fits_def)
qed

end
