(* ===== verification/Block_Device.thy ===== *)
theory Block_Device
  imports Btt_Write Pfn
begin

text \<open>
  Block devices. The locale states what the block I/O layer relies on, reads and writes of single
  blocks, and proves the multi-block transfer loops of \<open>NvmDimmBlockIo.c\<close> correct once. It is
  interpreted on the three ways a namespace stores its blocks (through the block translation
  table, behind a PFN info block, raw) and on the dispatch between them, \<open>ReadBlockDevice\<close> and
  \<open>WriteBlockDevice\<close> of \<open>Namespace.c\<close>.
\<close>

section \<open>Transfer loops\<close>

text \<open>
  The loops of \<open>NvmDimmDriverBlockIoReadBlocks\<close> and \<open>NvmDimmDriverBlockIoWriteBlocks\<close> over a device
  operation. The counter is a \<open>UINT32\<close>, compared with a \<open>UINT64\<close> bound, and the buffer offset
  \<open>Index * BlockSize\<close> is a product of two \<open>UINT32\<close>. \<open>None\<close>: the loop does not end.
\<close>

partial_function (option) BlockReadLoop ::
  "('d \<Rightarrow> u64 \<Rightarrow> u8 list \<Rightarrow> efi_status \<times> u8 list \<times> 'd) \<Rightarrow> u32 \<Rightarrow> u64 \<Rightarrow> u64 \<Rightarrow> u32 \<Rightarrow> u8 list \<Rightarrow> 'd
     \<Rightarrow> (efi_status \<times> u8 list \<times> 'd) option" where
  "BlockReadLoop rd BlkSize Lba BlocksToRead Index buf d =
     (if ucast Index < BlocksToRead then
        let off = unat (Index * BlkSize);
            (rc, out, d') = rd d (Lba + ucast Index) (drop off buf);
            buf' = take off buf @ out
        in if EFI_ERROR rc then Some (rc, buf', d')
           else BlockReadLoop rd BlkSize Lba BlocksToRead (Index + 1) buf' d'
      else Some (EFI_SUCCESS, buf, d))"

partial_function (option) BlockWriteLoop ::
  "('d \<Rightarrow> u64 \<Rightarrow> u8 list \<Rightarrow> (efi_status \<times> 'd) option) \<Rightarrow> u32 \<Rightarrow> u64 \<Rightarrow> u64 \<Rightarrow> u32 \<Rightarrow> u8 list \<Rightarrow> 'd
     \<Rightarrow> (efi_status \<times> 'd) option" where
  "BlockWriteLoop wr BlkSize Lba BlocksToWrite Index buf d =
     (if ucast Index < BlocksToWrite then
        case wr d (Lba + ucast Index) (drop (unat (Index * BlkSize)) buf) of
          None \<Rightarrow> None
        | Some (rc, d') \<Rightarrow>
            if EFI_ERROR rc then Some (rc, d')
            else BlockWriteLoop wr BlkSize Lba BlocksToWrite (Index + 1) buf d'
      else Some (EFI_SUCCESS, d))"

text \<open>Below \<open>2 ^ 32\<close> blocks the read loop ends, whatever the device answers.\<close>

lemma ucast_less_bound: "ucast (i :: u32) < (n :: u64) \<longleftrightarrow> unat i < unat n"
  by (simp add: word_less_nat_alt)

lemma index_step:
  assumes "unat (Index :: u32) < unat (n :: u64)" and "unat n < 2 ^ 32"
  shows "unat (Index + 1) = Suc (unat Index)"
  using assms by (subst unat_plus_nowrap) auto

lemma BlockReadLoop_ends:
  assumes "unat BlocksToRead < 2 ^ 32"
  shows "\<exists>r. BlockReadLoop rd BlkSize Lba BlocksToRead Index buf d = Some r"
proof (induction "unat BlocksToRead - unat Index" arbitrary: Index buf d rule: less_induct)
  case less
  show ?case
  proof (cases "unat Index < unat BlocksToRead")
    case True
    then have "unat BlocksToRead - unat (Index + 1) < unat BlocksToRead - unat Index"
      using index_step [OF True assms] by simp
    from less [OF this] show ?thesis
      by (subst BlockReadLoop.simps) (auto simp: Let_def split: prod.split)
  next
    case False
    then show ?thesis by (subst BlockReadLoop.simps) (simp add: ucast_less_bound)
  qed
qed

section \<open>The interface\<close>

text \<open>The blocks of a range, one after the other; a block that cannot be read counts as empty.\<close>

definition block_range :: "(u64 \<Rightarrow> u8 list option) \<Rightarrow> u64 \<Rightarrow> nat \<Rightarrow> u8 list" where
  "block_range f Lba n = concat (map (\<lambda>i. case f (Lba + of_nat i) of None \<Rightarrow> [] | Some x \<Rightarrow> x) [0..<n])"

lemma block_range_Suc: "block_range f Lba (Suc k) = block_range f Lba k @ (case f (Lba + of_nat k) of None \<Rightarrow> [] | Some x \<Rightarrow> x)"
  by (simp add: block_range_def)

text \<open>Replacing \<open>n\<close> blocks of \<open>bs\<close> bytes from address \<open>Lba\<close> on.\<close>

definition overwrite :: "(u64 \<Rightarrow> u8 list option) \<Rightarrow> u64 \<Rightarrow> nat \<Rightarrow> nat \<Rightarrow> u8 list \<Rightarrow> u64 \<Rightarrow> u8 list option" where
  "overwrite f Lba n bs buf l =
     (if unat Lba \<le> unat l \<and> unat l < unat Lba + n
      then Some (take bs (drop ((unat l - unat Lba) * bs) buf)) else f l)"

lemma overwrite_0 [simp]: "overwrite f Lba 0 bs buf = f"
  by (auto simp: overwrite_def fun_eq_iff)

lemma overwrite_Suc:
  assumes "unat l = unat Lba + k"
  shows "(overwrite f Lba k bs buf)(l := Some (take bs (drop (k * bs) buf))) = overwrite f Lba (Suc k) bs buf"
proof
  fix x
  show "((overwrite f Lba k bs buf)(l := Some (take bs (drop (k * bs) buf)))) x = overwrite f Lba (Suc k) bs buf x"
  proof (cases "x = l")
    case True
    with assms show ?thesis by (simp add: overwrite_def)
  next
    case False
    then have "unat x \<noteq> unat Lba + k" using assms by (metis unsigned_word_eqI)
    with False show ?thesis by (auto simp: overwrite_def)
  qed
qed

locale block_device =
  fixes rd :: "'d \<Rightarrow> u64 \<Rightarrow> u8 list \<Rightarrow> efi_status \<times> u8 list \<times> 'd"
    and wr :: "'d \<Rightarrow> u64 \<Rightarrow> u8 list \<Rightarrow> (efi_status \<times> 'd) option"
    and inv :: "'d \<Rightarrow> bool"
    and contents :: "'d \<Rightarrow> u64 \<Rightarrow> u8 list option"
    and nblocks :: "'d \<Rightarrow> u64"
    and bsize :: "'d \<Rightarrow> nat"
  assumes rd_ok: "inv d \<Longrightarrow> Lba < nblocks d \<Longrightarrow> bsize d \<le> length buf \<Longrightarrow> contents d Lba = Some x
        \<Longrightarrow> rd d Lba buf = (EFI_SUCCESS, patch buf 0 x, d)"
    and rd_bad: "inv d \<Longrightarrow> Lba < nblocks d \<Longrightarrow> bsize d \<le> length buf \<Longrightarrow> contents d Lba = None
        \<Longrightarrow> \<exists>e. EFI_ERROR e \<and> rd d Lba buf = (e, buf, d)"
    and contents_length: "inv d \<Longrightarrow> Lba < nblocks d \<Longrightarrow> contents d Lba = Some x \<Longrightarrow> length x = bsize d"
    and wr_ok: "inv d \<Longrightarrow> Lba < nblocks d \<Longrightarrow> bsize d \<le> length buf
        \<Longrightarrow> \<exists>d'. wr d Lba buf = Some (EFI_SUCCESS, d') \<and> inv d' \<and> nblocks d' = nblocks d \<and> bsize d' = bsize d
              \<and> contents d' = (contents d)(Lba := Some (take (bsize d) buf))"
begin

definition transfer_ok :: "'d \<Rightarrow> u32 \<Rightarrow> u64 \<Rightarrow> nat \<Rightarrow> bool" where
  "transfer_ok d BlkSize Lba n \<longleftrightarrow> inv d \<and> bsize d = unat BlkSize \<and> n * unat BlkSize < 2 ^ 32 \<and> n < 2 ^ 32
     \<and> unat Lba + n \<le> unat (nblocks d)"

lemma transfer_index:
  assumes "transfer_ok d BlkSize Lba n" and "unat Index < n"
  shows "unat (Index * BlkSize) = unat Index * unat BlkSize"
    and "unat (Lba + ucast Index) = unat Lba + unat Index"
    and "Lba + ucast Index < nblocks d" and "unat (Index + 1) = Suc (unat Index)"
proof -
  have "unat Index * unat BlkSize \<le> n * unat BlkSize" using assms(2) by (intro mult_le_mono1) simp
  also have "\<dots> < 2 ^ 32" using assms(1) by (simp add: transfer_ok_def)
  finally show "unat (Index * BlkSize) = unat Index * unat BlkSize" by (intro unat_times_nowrap) simp
  have "unat Lba + unat Index < 2 ^ 64"
    using assms unat_bound [of "nblocks d"] by (auto simp: transfer_ok_def)
  then show l: "unat (Lba + ucast Index) = unat Lba + unat Index"
    by (subst unat_plus_nowrap) auto
  show "Lba + ucast Index < nblocks d"
    using assms by (auto simp: transfer_ok_def word_less_nat_alt l)
  show "unat (Index + 1) = Suc (unat Index)"
    using assms by (subst unat_plus_nowrap) (auto simp: transfer_ok_def)
qed

lemma length_blocks:
  assumes "inv d" and "unat Lba + n \<le> unat (nblocks d)" and "\<And>i. i < n \<Longrightarrow> contents d (Lba + of_nat i) \<noteq> None"
  shows "length (block_range (contents d) Lba n) = n * bsize d"
  using assms
proof (induction n)
  case (Suc n)
  have "Lba + of_nat n < nblocks d"
    using Suc.prems(2) unat_bound [of "nblocks d"]
    by (simp add: word_less_nat_alt unat_word_ariths unsigned_of_nat take_bit_nat_eq_self)
  with Suc contents_length [OF assms(1)] show ?case
    by (fastforce simp: block_range_Suc)
qed (simp add: block_range_def)

text \<open>The read loop stops at the first unreadable block, with everything before it in place.\<close>

lemma read_loop:
  assumes ok: "transfer_ok d BlkSize Lba n" and N: "unat N = n" and len: "length buf = n * unat BlkSize"
    and m: "m \<le> n" and good: "\<And>i. i < m \<Longrightarrow> contents d (Lba + of_nat i) \<noteq> None"
    and stop: "m < n \<Longrightarrow> contents d (Lba + of_nat m) = None"
  shows "\<exists>rc. BlockReadLoop rd BlkSize Lba N 0 buf d = Some (rc, block_range (contents d) Lba m @ drop (m * unat BlkSize) buf, d)
      \<and> (EFI_ERROR rc \<longleftrightarrow> m < n)"
proof -
  have inv: "inv d" and bs: "bsize d = unat BlkSize" and bound: "unat Lba + n \<le> unat (nblocks d)"
    using ok by (auto simp: transfer_ok_def)
  have "\<exists>rc. BlockReadLoop rd BlkSize Lba N Index (block_range (contents d) Lba k @ drop (k * unat BlkSize) buf) d
          = Some (rc, block_range (contents d) Lba m @ drop (m * unat BlkSize) buf, d) \<and> (EFI_ERROR rc \<longleftrightarrow> m < n)"
    if "k \<le> m" "unat Index = k" for k Index
    using that
  proof (induction "m - k" arbitrary: k Index rule: less_induct)
    case less
    let ?buf = "block_range (contents d) Lba k @ drop (k * unat BlkSize) buf"
    have lb: "length (block_range (contents d) Lba k) = k * unat BlkSize"
      using length_blocks [OF inv, of Lba k] bound less.prems m good bs by force
    show ?case
    proof (cases "k < n")
      case True
      then have In: "unat Index < n" using less.prems by simp
      note ix = transfer_index [OF ok In]
      have w: "Lba + ucast Index = Lba + of_nat k"
        by (simp flip: less.prems(2))
      have room: "bsize d \<le> length (drop (k * unat BlkSize) buf)"
      proof -
        have "Suc k * unat BlkSize \<le> n * unat BlkSize" using True by (intro mult_le_mono1) simp
        then show ?thesis using len bs by simp
      qed
      show ?thesis
      proof (cases "k < m")
        case True
        then obtain x where x: "contents d (Lba + of_nat k) = Some x" using good by blast
        have "rd d (Lba + ucast Index) (drop (k * unat BlkSize) buf) = (EFI_SUCCESS, patch (drop (k * unat BlkSize) buf) 0 x, d)"
          using rd_ok [OF inv ix(3) room] x w by simp
        moreover have "length x = unat BlkSize"
          using contents_length [OF inv ix(3)] x w bs by simp
        ultimately have "BlockReadLoop rd BlkSize Lba N Index ?buf d
            = BlockReadLoop rd BlkSize Lba N (Index + 1) (block_range (contents d) Lba (Suc k) @ drop (Suc k * unat BlkSize) buf) d"
          using In lb less.prems(2) N x
          by (subst BlockReadLoop.simps)
            (simp add: ucast_less_bound ix(1) block_range_Suc patch_def add.commute)
        then show ?thesis
          using less.hyps [of "Suc k" "Index + 1"] True ix(4) less.prems(2) by simp
      next
        case False
        then have km: "k = m" using less.prems(1) by simp
        then have "contents d (Lba + ucast Index) = None" using stop True w by simp
        from rd_bad [OF inv ix(3) room this] km less.prems(2) In N lb True show ?thesis
          by (subst BlockReadLoop.simps) (auto simp: ucast_less_bound ix(1))
      qed
    next
      case False
      then have "k = m" "m = n" using less.prems m by simp_all
      then show ?thesis using less.prems N
        by (subst BlockReadLoop.simps) (auto simp: ucast_less_bound)
    qed
  qed
  from this [of 0 0] show ?thesis by (simp add: block_range_def)
qed

text \<open>The write loop replaces exactly the blocks of its range.\<close>

lemma write_loop:
  assumes ok: "transfer_ok d BlkSize Lba n" and N: "unat N = n" and len: "n * unat BlkSize \<le> length buf"
  shows "\<exists>d'. BlockWriteLoop wr BlkSize Lba N 0 buf d = Some (EFI_SUCCESS, d') \<and> inv d'
      \<and> nblocks d' = nblocks d \<and> bsize d' = bsize d
      \<and> contents d' = overwrite (contents d) Lba n (unat BlkSize) buf"
proof -
  have "\<exists>d'. BlockWriteLoop wr BlkSize Lba N Index buf e = Some (EFI_SUCCESS, d') \<and> inv d'
      \<and> nblocks d' = nblocks d \<and> bsize d' = bsize d
      \<and> contents d' = overwrite (contents d) Lba n (unat BlkSize) buf"
    if "unat Index = k" "k \<le> n" "transfer_ok e BlkSize Lba n" "nblocks e = nblocks d" "bsize e = bsize d"
      "contents e = overwrite (contents d) Lba k (unat BlkSize) buf" for k Index e
    using that
  proof (induction "n - k" arbitrary: k Index e rule: less_induct)
    case less
    show ?case
    proof (cases "k < n")
      case True
      then have In: "unat Index < n" using less.prems by simp
      note ix = transfer_index [OF less.prems(3) In]
      have bs: "bsize e = unat BlkSize" "inv e" using less.prems(3) by (simp_all add: transfer_ok_def)
      have "Suc k * unat BlkSize \<le> n * unat BlkSize" using True by (intro mult_le_mono1) simp
      then have "bsize e \<le> length (drop (k * unat BlkSize) buf)" using len bs by simp
      from wr_ok [OF bs(2) ix(3) this] obtain e' where
        e': "wr e (Lba + ucast Index) (drop (k * unat BlkSize) buf) = Some (EFI_SUCCESS, e')" "inv e'"
          "nblocks e' = nblocks e" "bsize e' = bsize e"
          "contents e' = (contents e)(Lba + ucast Index := Some (take (unat BlkSize) (drop (k * unat BlkSize) buf)))"
        using bs(1) by auto
      have c: "contents e' = overwrite (contents d) Lba (Suc k) (unat BlkSize) buf"
        unfolding e'(5) less.prems(6) using ix(2) less.prems(1) by (intro overwrite_Suc) simp
      have "BlockWriteLoop wr BlkSize Lba N Index buf e = BlockWriteLoop wr BlkSize Lba N (Index + 1) buf e'"
        using In N e'(1) less.prems(1) by (subst BlockWriteLoop.simps) (simp add: ucast_less_bound ix(1))
      moreover have "transfer_ok e' BlkSize Lba n"
        using less.prems(3) e' by (simp add: transfer_ok_def)
      ultimately show ?thesis
        using less.hyps [of "Suc k" "Index + 1" e'] True ix(4) less.prems e' c by auto
    next
      case False
      then have "k = n" using less.prems by simp
      with less.prems N show ?thesis
        by (subst BlockWriteLoop.simps) (auto simp: ucast_less_bound transfer_ok_def)
    qed
  qed
  from this [of 0 0 d] ok show ?thesis by simp
qed

text \<open>What was written is what a read of the same range returns.\<close>

lemma blocks_overwrite:
  assumes "contents d' = overwrite (contents d) Lba n bs buf" and "unat Lba + n < 2 ^ 64" and "length buf = n * bs"
  shows "block_range (contents d') Lba n = buf" and "i < n \<Longrightarrow> contents d' (Lba + of_nat i) \<noteq> None"
proof -
  have l: "unat (Lba + of_nat i :: u64) = unat Lba + i" if "i < n" for i
    using that assms(2) by (simp add: unat_word_ariths unsigned_of_nat take_bit_nat_eq_self)
  have c: "contents d' (Lba + of_nat i) = Some (take bs (drop (i * bs) buf))" if "i < n" for i
    using that by (simp add: assms(1) overwrite_def l)
  then show "i < n \<Longrightarrow> contents d' (Lba + of_nat i) \<noteq> None" by simp
  have "block_range (contents d') Lba k = take (k * bs) buf" if "k \<le> n" for k
    using that
  proof (induction k)
    case (Suc k)
    then show ?case by (simp add: block_range_Suc c take_add add.commute [of bs])
  qed (simp add: block_range_def)
  from this [of n] show "block_range (contents d') Lba n = buf" using assms(3) by simp
qed

end

section \<open>Device types\<close>

lemma patch_whole: "length xs \<le> length buf \<Longrightarrow> patch buf 0 xs = patch (take (length xs) buf) 0 xs @ drop (length xs) buf"
  by (simp add: patch_def)

lemma ReadNamespaceBytes_prefix:
  assumes "ns_ready ns s" and "ns_fits ns off (unat len)" and "unat len \<le> length buf"
  shows "ReadNamespaceBytes ns off buf len s =
           (EFI_SUCCESS, patch buf 0 (mem_read (ns_content ns s) (unat off) (unat len)), s)"
proof -
  have "ReadNamespaceBytes ns off buf len s =
      (let (rc, out, s') = ReadNamespaceBytes ns off (take (unat len) buf) len s in (rc, out @ drop (unat len) buf, s'))"
    using assms by (simp add: ReadNamespaceBytes_def IoNamespaceBytes_def AppDirectIo_def ns_ready_def
        ns_fits_def unat_len32 patch_def)
  with assms show ?thesis by (simp add: ReadNamespaceBytes_ok patch_def)
qed

lemma WriteNamespaceBytes_prefix:
  "WriteNamespaceBytes ns off buf len s = WriteNamespaceBytes ns off (take (unat len) buf) len s"
proof -
  have "take (unat (ucast (ucast len :: u32) :: u64)) buf = take (unat (ucast (ucast len :: u32) :: u64)) (take (unat len) buf)"
    by (simp add: unsigned_ucast_eq unsigned_take_bit_eq take_bit_nat_def min_def)
  then show ?thesis
    by (simp add: WriteNamespaceBytes_def IoNamespaceBytes_def AppDirectIo_def Let_def case_prod_beta)
qed

text \<open>Raw namespaces: block access is byte access at \<open>Lba * BlockSize\<close>.\<close>

lemma ucast_32_64 [simp]: "ucast (ucast (x :: u32) :: u64) = x"
  by (rule bit_word_eqI) (auto simp: bit_simps)

lemma namespace_block:
  "ReadNamespaceBlock ns Lba buf s = ReadNamespaceBytes ns (Lba * ucast (MediaBlockSize ns)) buf (ucast (MediaBlockSize ns)) s"
  "WriteNamespaceBlock ns Lba buf s = WriteNamespaceBytes ns (Lba * ucast (MediaBlockSize ns)) buf (ucast (MediaBlockSize ns)) s"
  by (simp_all add: ReadNamespaceBlock_def WriteNamespaceBlock_def IoNamespaceBlock_def
      ReadNamespaceBytes_def WriteNamespaceBytes_def IoNamespaceBytes_def)

text \<open>
  PFN namespaces with \<open>n\<close> blocks, and raw namespaces as the case of data at offset 0.
\<close>

definition pfn_ready :: "u64 \<Rightarrow> pfn \<times> sys \<Rightarrow> bool" where
  "pfn_ready n d = (case d of (p, s) \<Rightarrow> ns_ready (pfnNamespace p) s \<and> pfn_fits p n)"

definition pfn_contents :: "u64 \<Rightarrow> pfn \<times> sys \<Rightarrow> u64 \<Rightarrow> u8 list option" where
  "pfn_contents n d Lba = (case d of (p, s) \<Rightarrow>
     if Lba < n then Some (flat_block (ns_content (pfnNamespace p) s) (pfn_base p) (unat (pfnLbaSize p)) (unat Lba))
     else None)"

definition pfn_rd :: "pfn \<times> sys \<Rightarrow> u64 \<Rightarrow> u8 list \<Rightarrow> efi_status \<times> u8 list \<times> pfn \<times> sys" where
  "pfn_rd d Lba buf = (case d of (p, s) \<Rightarrow> case PfnRead p Lba buf s of (rc, out, s') \<Rightarrow> (rc, out, p, s'))"

definition pfn_wr :: "pfn \<times> sys \<Rightarrow> u64 \<Rightarrow> u8 list \<Rightarrow> (efi_status \<times> pfn \<times> sys) option" where
  "pfn_wr d Lba buf = (case d of (p, s) \<Rightarrow> case PfnWrite p Lba buf s of (rc, s') \<Rightarrow> Some (rc, p, s'))"

lemma PfnRead_ok:
  assumes "pfn_ready n (p, s)" and "Lba < n" and "unat (pfnLbaSize p) \<le> length buf"
  shows "PfnRead p Lba buf s = (EFI_SUCCESS, patch buf 0 (flat_block (ns_content (pfnNamespace p) s) (pfn_base p) (unat (pfnLbaSize p)) (unat Lba)), s)"
  using assms pfn_offset [of p n Lba]
  by (simp add: pfn_ready_def PfnRead_def ReadNamespaceBytes_prefix flat_block_def)

lemma PfnWrite_ok:
  assumes "pfn_ready n (p, s)" and "Lba < n" and "unat (pfnLbaSize p) \<le> length buf"
  shows "\<exists>s'. PfnWrite p Lba buf s = (EFI_SUCCESS, s') \<and> pfn_ready n (p, s')
      \<and> pfn_contents n (p, s') = (pfn_contents n (p, s))(Lba := Some (take (unat (pfnLbaSize p)) buf))"
proof -
  let ?b = "take (unat (pfnLbaSize p)) buf" and ?ns = "pfnNamespace p"
  note o = pfn_offset [of p n Lba]
  let ?s = "ns_store ?ns (PfnOffset p Lba) ?b s"
  have "PfnWrite p Lba buf s = (EFI_SUCCESS, ?s)"
    using assms o by (simp add: pfn_ready_def PfnWrite_def WriteNamespaceBytes_prefix [of _ _ buf] WriteNamespaceBytes_ok)
  moreover have "pfn_ready n (p, ?s)" using assms(1) by (simp add: pfn_ready_def)
  moreover have "pfn_contents n (p, ?s) = (pfn_contents n (p, s))(Lba := Some ?b)"
  proof
    fix x
    have "ns_content ?ns ?s = mem_write (ns_content ?ns s) (pfn_base p + unat Lba * unat (pfnLbaSize p)) ?b"
      using assms o by (simp add: ns_content_store pfn_ready_def)
    then show "pfn_contents n (p, ?s) x = ((pfn_contents n (p, s))(Lba := Some ?b)) x"
      using assms by (auto simp: pfn_contents_def flat_block_write word_unat_eq_iff word_less_nat_alt)
  qed
  ultimately show ?thesis by blast
qed

interpretation pfn_dev: block_device pfn_rd pfn_wr "pfn_ready n" "pfn_contents n" "\<lambda>_. n" "\<lambda>(p, s). unat (pfnLbaSize p)"
  for n :: u64
proof unfold_locales
  fix d :: "pfn \<times> sys" and Lba x and buf :: "u8 list"
  obtain p s where d: "d = (p, s)" by (cases d)
  assume a: "pfn_ready n d" "Lba < n"
  { assume "(case d of (p, s) \<Rightarrow> unat (pfnLbaSize p)) \<le> length buf" "pfn_contents n d Lba = Some x"
    with a show "pfn_rd d Lba buf = (EFI_SUCCESS, patch buf 0 x, d)"
      by (auto simp: d pfn_rd_def pfn_contents_def PfnRead_ok) }
  { assume "pfn_contents n d Lba = None"
    with a show "\<exists>e. EFI_ERROR e \<and> pfn_rd d Lba buf = (e, buf, d)" by (simp add: d pfn_contents_def) }
  { assume "pfn_contents n d Lba = Some x"
    with a show "length x = (case d of (p, s) \<Rightarrow> unat (pfnLbaSize p))"
      by (auto simp: d pfn_contents_def flat_block_def) }
  { assume "(case d of (p, s) \<Rightarrow> unat (pfnLbaSize p)) \<le> length buf"
    with a PfnWrite_ok [of n p s Lba buf]
    show "\<exists>d'. pfn_wr d Lba buf = Some (EFI_SUCCESS, d') \<and> pfn_ready n d' \<and> n = n
      \<and> (case d' of (p, s) \<Rightarrow> unat (pfnLbaSize p)) = (case d of (p, s) \<Rightarrow> unat (pfnLbaSize p))
      \<and> pfn_contents n d' = (pfn_contents n d)(Lba := Some (take (case d of (p, s) \<Rightarrow> unat (pfnLbaSize p)) buf))"
      by (auto simp: d pfn_wr_def) }
qed

definition raw_pfn :: "namespace \<Rightarrow> pfn" where
  "raw_pfn ns = \<lparr>pfnParentUuid = [], pfnRawSize = 0, pfnLbaSize = MediaBlockSize ns,
     pfnStartPad = 0, pfnDataOff = 0, pfnNamespace = ns\<rparr>"

lemma raw_as_pfn:
  "ReadNamespaceBlock ns Lba buf s = PfnRead (raw_pfn ns) Lba buf s"
  "WriteNamespaceBlock ns Lba buf s = PfnWrite (raw_pfn ns) Lba buf s"
  by (simp_all add: namespace_block PfnRead_def PfnWrite_def PfnOffset_def raw_pfn_def Let_def case_prod_beta prod_eq_iff)

text \<open>
  The block translation table touches the first \<open>LbaSize\<close> bytes of a buffer only.
\<close>

lemma ReadNamespaceBytes_split:
  assumes "unat (n :: u32) \<le> length buf"
  shows "ReadNamespaceBytes ns off buf (ucast n) s =
     (let (rc, out, s') = ReadNamespaceBytes ns off (take (unat n) buf) (ucast n) s in (rc, out @ drop (unat n) buf, s'))"
  using assms
  by (auto simp: ReadNamespaceBytes_def IoNamespaceBytes_def AppDirectIo_def Let_def case_prod_beta patch_def)

definition with_rest :: "u8 list \<Rightarrow> (efi_status \<times> u8 list + u32) \<times> arena \<times> sys \<Rightarrow> (efi_status \<times> u8 list + u32) \<times> arena \<times> sys" where
  "with_rest rest r = (case r of (Inl (rc, out), a, s) \<Rightarrow> (Inl (rc, out @ rest), a, s) | (Inr m, a, s) \<Rightarrow> (Inr m, a, s))"

lemma BttReadRetry_split:
  assumes "unat (LbaSize b) \<le> length buf"
  shows "BttReadRetry b a off Pos cur buf s = with_rest (drop (unat (LbaSize b)) buf) (BttReadRetry b a off Pos cur (take (unat (LbaSize b)) buf) s)"
  using assms
proof (induction b a off Pos cur buf s rule: BttReadRetry.induct)
  case (1 b a off Pos cur buf s)
  obtain rc out s' where r: "ReadNamespaceBytes (pNamespace b) off (replicate 64 0) 64 s = (rc, out, s')"
    by (metis prod_cases3)
  show ?case
    using 1 r
    by (subst (1 2) BttReadRetry.simps) (auto simp: with_rest_def BttZeroBlock_def patch_def Let_def)
qed

lemma BttRead_split:
  assumes "unat (LbaSize b) \<le> length buf"
  shows "BttRead b Lba buf s = (let (rc, out, b', s') = BttRead b Lba (take (unat (LbaSize b)) buf) s
     in (rc, out @ drop (unat (LbaSize b)) buf, b', s'))"
  using assms
  by (auto simp: BttRead_def Let_def BttZeroBlock_def patch_def BttReadRetry_split [OF assms]
      ReadNamespaceBytes_split [OF assms] with_rest_def split: sum.split prod.split)

lemma BttWrite_split:
  assumes "Laidout b"
  shows "BttWrite b Lba buf s = BttWrite b Lba (take (unat (LbaSize b)) buf) s"
proof -
  have w: "WriteNamespaceBytes ns off buf (ucast (LbaSize b)) s =
      WriteNamespaceBytes ns off (take (unat (LbaSize b)) buf) (ucast (LbaSize b)) s" for ns off s
    using WriteNamespaceBytes_prefix [of ns off buf "ucast (LbaSize b)"] by simp
  have "BttWriteToArena b i p buf s = BttWriteToArena b i p (take (unat (LbaSize b)) buf) s" for i p s
    unfolding BttWriteToArena_def w ..
  then show ?thesis using assms by (simp add: BttWrite_def Let_def cong: if_cong sum.case_cong)
qed

lemma btt_abs_length:
  assumes "btt_inv b s" and "btt_abs b s Lba = Some x"
  shows "length x = unat (LbaSize b)"
  using assms by (auto simp: btt_abs_def arena_abs_def data_block_def Let_def split: option.splits if_splits)

definition btt_rd :: "btt \<times> sys \<Rightarrow> u64 \<Rightarrow> u8 list \<Rightarrow> efi_status \<times> u8 list \<times> btt \<times> sys" where
  "btt_rd d Lba buf = (case d of (b, s) \<Rightarrow> BttRead b Lba buf s)"

definition btt_wr :: "btt \<times> sys \<Rightarrow> u64 \<Rightarrow> u8 list \<Rightarrow> (efi_status \<times> btt \<times> sys) option" where
  "btt_wr d Lba buf = (case d of (b, s) \<Rightarrow> BttWrite b Lba buf s)"

interpretation btt_dev: block_device btt_rd btt_wr "\<lambda>(b, s). btt_writable b s" "\<lambda>(b, s). btt_abs b s"
  "\<lambda>(b, s). NLbas b" "\<lambda>(b, s). unat (LbaSize b)"
proof (unfold_locales, goal_cases)
  case (1 d Lba buf x)
  obtain b s where d: "d = (b, s)" by (cases d)
  have inv: "btt_inv b s" using 1 by (simp add: d btt_writable_def)
  from 1 btt_abs_length [OF inv] have "length x = unat (LbaSize b)" by (simp add: d)
  with 1 show ?case
    by (simp add: d btt_rd_def BttRead_split [of b buf] BttRead_refines [OF inv] patch_def)
next
  case (2 d Lba buf)
  obtain b s where d: "d = (b, s)" by (cases d)
  have "btt_inv b s" using 2 by (simp add: d btt_writable_def)
  with 2 show ?case
    by (simp add: d btt_rd_def BttRead_split [of b buf] BttRead_refines)
next
  case (3 d Lba x)
  then show ?case by (cases d) (auto simp: btt_writable_def dest: btt_abs_length)
next
  case (4 d Lba buf)
  obtain b s where d: "d = (b, s)" by (cases d)
  have "Laidout b" using 4 by (simp add: d btt_writable_def btt_inv_def)
  from 4 BttWrite_step [of b s Lba "take (unat (LbaSize b)) buf"] show ?case
    by (auto simp: d btt_wr_def BttWrite_split [OF \<open>Laidout b\<close>, of Lba buf])
qed

end
