(* ===== verification/Block_Io.thy ===== *)
theory Block_Io
  imports Block_Device
begin

text \<open>
  The block I/O protocol of a namespace: the abstraction that \<open>RetrieveNamespacesFromLsa\<close> detects
  (\<open>CheckBttExistence\<close>, \<open>CheckPfnExistence\<close>), the dispatch of single blocks (\<open>ReadBlockDevice\<close>,
  \<open>WriteBlockDevice\<close>), the media that \<open>InstallNamespaceProtocols\<close> publishes, and the protocol calls
  of \<open>DcpmPkg/driver/Protocol/Namespace/NvmDimmBlockIo.c\<close>.
\<close>

section \<open>State\<close>

text \<open>
  The part of \<open>NAMESPACE\<close> that block I/O uses. \<open>HasMedia\<close> says whether \<open>BlockIoInstance.Media\<close> has
  been set; it then points to the \<open>Media\<close> field of the same namespace, whose \<open>BlockSize\<close> is
  \<open>MediaBlockSize\<close> of the byte-level namespace.
\<close>

record block_ns =
  Ns :: namespace
  NamespaceGuid :: "u8 list"
  HealthCritical :: bool
  IsBttEnabled :: bool
  pBtt :: "btt option"
  IsPfnEnabled :: bool
  pPfn :: "pfn option"
  IsRawNamespace :: bool
  HasMedia :: bool
  MediaId :: u32
  IoAlign :: u32
  LastBlock :: u64

section \<open>Detection of the address abstraction\<close>

definition CheckBttExistence :: "block_ns \<Rightarrow> sys \<Rightarrow> efi_status \<times> bool \<times> sys" where
  "CheckBttExistence n s =
     (let ns = Ns n;
          BttInfoOffset = (if NsMajor ns = NSINDEX_MAJOR \<and> NsMinor ns = NSINDEX_MINOR_1
             then BTT_PRIMARY_INFO_BLOCK_OFFSET_1_1 else BTT_PRIMARY_INFO_BLOCK_OFFSET);
          (ok, s) = AllocatePool s
      in if \<not> ok then (EFI_OUT_OF_RESOURCES, False, s)
         else
           let (rc, buf, s) = ReadNamespaceBytes ns BttInfoOffset (replicate 4096 0) BTT_INFO_SIZE s
           in if EFI_ERROR rc then (rc, False, s)
              else
                let found = (BttReadInfo (parse_info buf) (pBtt n) = EFI_SUCCESS)
                in if found then
                     (EFI_SUCCESS, NamespaceGuid n = iParentUuid (parse_info buf), s)
                   else
                     let BttInfoOffset = (if BTT_MAX_ARENA_SIZE < GetAccessibleCapacity ns
                            then BTT_MAX_ARENA_SIZE - BTT_INFO_SIZE else GetAccessibleCapacity ns - BTT_INFO_SIZE);
                         (rc, buf, s) = ReadNamespaceBytes ns BttInfoOffset buf BTT_INFO_SIZE s
                     in if EFI_ERROR rc then (rc, False, s)
                        else
                          (EFI_SUCCESS,
                           BttReadInfo (parse_info buf) (pBtt n) = EFI_SUCCESS
                             \<and> NamespaceGuid n = iParentUuid (parse_info buf), s))"

definition CheckPfnExistence :: "block_ns \<Rightarrow> sys \<Rightarrow> efi_status \<times> bool \<times> sys" where
  "CheckPfnExistence n s =
     (let (ok, s) = AllocatePool s
      in if \<not> ok then (EFI_OUT_OF_RESOURCES, False, s)
         else
           let (rc, buf, s) = ReadNamespaceBytes (Ns n) PFN_INFO_BLOCK_OFFSET
                  (replicate PFN_INFO_SIZE 0) (of_nat PFN_INFO_SIZE) s
           in if EFI_ERROR rc then (rc, False, s)
              else (EFI_SUCCESS, PfnValidateInfo (parse_pfn_info buf) None = EFI_SUCCESS, s))"

text \<open>
  The detection step of \<open>RetrieveNamespacesFromLsa\<close>: which abstraction is enabled, and its
  initialisation. \<open>PfnInit\<close> and \<open>BttInit\<close> store their handle and the usable size.
\<close>

definition DetectAbstraction :: "bool \<Rightarrow> block_ns \<Rightarrow> sys \<Rightarrow> block_ns \<times> sys" where
  "DetectAbstraction Use_Namespace1_1 n s =
     (let (rc1, BttFound, s) = (if Use_Namespace1_1 \<or> IsBttEnabled n then CheckBttExistence n s
             else (EFI_INVALID_PARAMETER, False, s));
          (rc2, PfnFound, s) = (if Use_Namespace1_1 \<or> IsPfnEnabled n then CheckPfnExistence n s
             else (EFI_INVALID_PARAMETER, False, s));
          n = (if (EFI_ERROR rc1 \<and> EFI_ERROR rc2) \<or> (BttFound \<and> PfnFound) then n\<lparr>HealthCritical := True\<rparr> else n);
          n = (if BttFound then n\<lparr>IsBttEnabled := True\<rparr>
               else if PfnFound then n\<lparr>IsPfnEnabled := True\<rparr>
               else n\<lparr>IsBttEnabled := False, IsPfnEnabled := False, IsRawNamespace := True,
                      HealthCritical := (HealthCritical n \<or> \<not> Use_Namespace1_1)\<rparr>);
          Cap = GetAccessibleCapacity (Ns n);
          LbaSz = ucast (GetBlockDeviceBlockSize (Ns n))
      in if IsBttEnabled n then
           let (b, ns, s) = BttInit Cap LbaSz (NamespaceGuid n) (Ns n) s
           in (n\<lparr>pBtt := b, Ns := ns, HealthCritical := (HealthCritical n \<or> b = None)\<rparr>, s)
         else if IsPfnEnabled n then
           let (rc, p, ns, s) = PfnInit Cap LbaSz (NamespaceGuid n) (Ns n) s
           in (n\<lparr>pPfn := (if EFI_ERROR rc then pPfn n else p), Ns := ns, HealthCritical := (HealthCritical n \<or> EFI_ERROR rc)\<rparr>, s)
         else (n, s))"

section \<open>Media\<close>

text \<open>
  The media part of \<open>InstallNamespaceProtocols\<close>: the static template with the block size and the
  last block of this namespace.
\<close>

definition InstallMedia :: "block_ns \<Rightarrow> efi_status \<times> block_ns" where
  "InstallMedia n =
     (let MediaBlkSize = ucast (GetBlockDeviceBlockSize (Ns n)) :: u32
      in if MediaBlkSize = 0 then (EFI_INVALID_PARAMETER, n)
         else
           let n = n\<lparr>MediaId := 0, IoAlign := 2, Ns := (Ns n)\<lparr>MediaBlockSize := MediaBlkSize\<rparr>\<rparr>;
               n = n\<lparr>LastBlock := GetAccessibleCapacity (Ns n) div ucast (MediaBlockSize (Ns n)) - 1\<rparr>
           in if IsBttEnabled n then
                case pBtt n of
                  None \<Rightarrow> (EFI_ABORTED, n)
                | Some b \<Rightarrow> (EFI_SUCCESS, n\<lparr>LastBlock := NLbas b - 1, HasMedia := True\<rparr>)
              else (EFI_SUCCESS, n\<lparr>HasMedia := True\<rparr>))"

section \<open>Single blocks\<close>

definition ReadBlockDevice ::
  "block_ns \<times> sys \<Rightarrow> u64 \<Rightarrow> u8 list \<Rightarrow> efi_status \<times> u8 list \<times> block_ns \<times> sys" where
  "ReadBlockDevice d Lba pBuffer = (case d of (n, s) \<Rightarrow>
     if IsBttEnabled n then
       (case pBtt n of
          None \<Rightarrow> (EFI_NOT_READY, pBuffer, n, s)
        | Some b \<Rightarrow> case BttRead b Lba pBuffer s of (rc, out, b', s') \<Rightarrow> (rc, out, n\<lparr>pBtt := Some b'\<rparr>, s'))
     else if IsPfnEnabled n then
       (case pPfn n of
          None \<Rightarrow> (EFI_NOT_READY, pBuffer, n, s)
        | Some p \<Rightarrow> case PfnRead p Lba pBuffer s of (rc, out, s') \<Rightarrow> (rc, out, n, s'))
     else if IsRawNamespace n then
       (case ReadNamespaceBlock (Ns n) Lba pBuffer s of (rc, out, s') \<Rightarrow> (rc, out, n, s'))
     else (EFI_UNSUPPORTED, pBuffer, n, s))"

definition WriteBlockDevice ::
  "block_ns \<times> sys \<Rightarrow> u64 \<Rightarrow> u8 list \<Rightarrow> (efi_status \<times> block_ns \<times> sys) option" where
  "WriteBlockDevice d Lba pBuffer = (case d of (n, s) \<Rightarrow>
     if IsBttEnabled n then
       (case pBtt n of
          None \<Rightarrow> Some (EFI_NOT_READY, n, s)
        | Some b \<Rightarrow> case BttWrite b Lba pBuffer s of
                      None \<Rightarrow> None
                    | Some (rc, b', s') \<Rightarrow> Some (rc, n\<lparr>pBtt := Some b'\<rparr>, s'))
     else if IsPfnEnabled n then
       (case pPfn n of
          None \<Rightarrow> Some (EFI_NOT_READY, n, s)
        | Some p \<Rightarrow> case PfnWrite p Lba pBuffer s of (rc, s') \<Rightarrow> Some (rc, n, s'))
     else if IsRawNamespace n then
       (case WriteNamespaceBlock (Ns n) Lba pBuffer s of (rc, s') \<Rightarrow> Some (rc, n, s'))
     else Some (EFI_UNSUPPORTED, n, s))"

section \<open>Protocol calls\<close>

text \<open>
  \<open>addr\<close> and \<open>buf\<close> are the address and the contents of the caller's buffer, \<open>BufferSize\<close> its
  length in bytes. \<open>None\<close>: the call does not return (a division by a zero block size or alignment,
  or a loop that does not end).
\<close>

definition NvmDimmDriverBlockIoReadBlocks ::
  "u32 \<Rightarrow> u64 \<Rightarrow> u64 \<Rightarrow> u64 \<Rightarrow> u8 list \<Rightarrow> block_ns \<times> sys \<Rightarrow> (efi_status \<times> u8 list \<times> block_ns \<times> sys) option" where
  "NvmDimmDriverBlockIoReadBlocks Mid Lba BufferSize addr buf d =
     (let n = fst d; bs = MediaBlockSize (Ns n)
      in if \<not> HasMedia n then Some (EFI_NO_MEDIA, buf, d)
         else if Mid \<noteq> MediaId n then Some (EFI_MEDIA_CHANGED, buf, d)
         else if bs = 0 then None
         else if BufferSize mod ucast bs \<noteq> 0 then Some (EFI_BAD_BUFFER_SIZE, buf, d)
         else if BufferSize = 0 then Some (EFI_SUCCESS, buf, d)
         else
           let BlocksToRead = BufferSize div ucast bs
           in if LastBlock n < Lba + BlocksToRead - 1 \<or> addr = 0 then Some (EFI_INVALID_PARAMETER, buf, d)
              else if IoAlign n = 0 then None
              else if addr mod ucast (IoAlign n) \<noteq> 0 then Some (EFI_INVALID_PARAMETER, buf, d)
              else BlockReadLoop ReadBlockDevice bs Lba BlocksToRead 0 buf d)"

definition NvmDimmDriverBlockIoWriteBlocks ::
  "u32 \<Rightarrow> u64 \<Rightarrow> u64 \<Rightarrow> u64 \<Rightarrow> u8 list \<Rightarrow> block_ns \<times> sys \<Rightarrow> (efi_status \<times> block_ns \<times> sys) option" where
  "NvmDimmDriverBlockIoWriteBlocks Mid Lba BufferSize addr buf d =
     (let n = fst d; bs = MediaBlockSize (Ns n)
      in if \<not> HasMedia n then Some (EFI_NO_MEDIA, d)
         else if Mid \<noteq> MediaId n then Some (EFI_MEDIA_CHANGED, d)
         else if bs = 0 then None
         else if BufferSize mod ucast bs \<noteq> 0 then Some (EFI_BAD_BUFFER_SIZE, d)
         else if BufferSize = 0 then Some (EFI_SUCCESS, d)
         else
           let BlocksToWrite = BufferSize div ucast bs
           in if LastBlock n < Lba + BlocksToWrite - 1 \<or> addr = 0 then Some (EFI_INVALID_PARAMETER, d)
              else if IoAlign n = 0 then None
              else if addr mod ucast (IoAlign n) \<noteq> 0 then Some (EFI_INVALID_PARAMETER, d)
              else BlockWriteLoop WriteBlockDevice bs Lba BlocksToWrite 0 buf d)"

definition NvmDimmDriverBlockIoFlushBlocks :: "block_ns \<times> sys \<Rightarrow> efi_status \<times> block_ns \<times> sys" where
  "NvmDimmDriverBlockIoFlushBlocks d = (EFI_SUCCESS, d)"

definition NvmDimmDriverBlockIoReset :: "bool \<Rightarrow> block_ns \<times> sys \<Rightarrow> efi_status \<times> block_ns \<times> sys" where
  "NvmDimmDriverBlockIoReset ExtendedVerification d = (EFI_SUCCESS, d)"

section \<open>The dispatch is a block device\<close>

definition handle_ok :: "block_ns \<times> sys \<Rightarrow> bool" where
  "handle_ok d = (case d of (n, s) \<Rightarrow>
     if IsBttEnabled n then
       (case pBtt n of None \<Rightarrow> False
        | Some b \<Rightarrow> btt_writable b s \<and> LbaSize b = MediaBlockSize (Ns n) \<and> NLbas b = LastBlock n + 1)
     else if IsPfnEnabled n then
       (case pPfn n of None \<Rightarrow> False
        | Some p \<Rightarrow> pfn_ready (LastBlock n + 1) (p, s) \<and> pfnLbaSize p = MediaBlockSize (Ns n))
     else IsRawNamespace n \<and> pfn_ready (LastBlock n + 1) (raw_pfn (Ns n), s))"

definition dev_contents :: "block_ns \<times> sys \<Rightarrow> u64 \<Rightarrow> u8 list option" where
  "dev_contents d = (case d of (n, s) \<Rightarrow>
     if IsBttEnabled n then (case pBtt n of None \<Rightarrow> Map.empty | Some b \<Rightarrow> btt_abs b s)
     else if IsPfnEnabled n then
       (case pPfn n of None \<Rightarrow> Map.empty | Some p \<Rightarrow> pfn_contents (LastBlock n + 1) (p, s))
     else pfn_contents (LastBlock n + 1) (raw_pfn (Ns n), s))"

text \<open>The published media, which block access leaves alone.\<close>

definition media_of :: "block_ns \<Rightarrow> bool \<times> u32 \<times> u32 \<times> u32 \<times> u64" where
  "media_of n = (HasMedia n, MediaId n, MediaBlockSize (Ns n), IoAlign n, LastBlock n)"

definition dev_ok :: "bool \<times> u32 \<times> u32 \<times> u32 \<times> u64 \<Rightarrow> block_ns \<times> sys \<Rightarrow> bool" where
  "dev_ok M d \<longleftrightarrow> handle_ok d \<and> media_of (fst d) = M"

definition dev_blocks :: "block_ns \<times> sys \<Rightarrow> u64" where
  "dev_blocks d = LastBlock (fst d) + 1"

definition dev_bsize :: "block_ns \<times> sys \<Rightarrow> nat" where
  "dev_bsize d = unat (MediaBlockSize (Ns (fst d)))"

lemma handle_ok_cases:
  assumes "handle_ok (n, s)"
  obtains (Btt) b where "IsBttEnabled n" "pBtt n = Some b" "btt_writable b s" "LbaSize b = MediaBlockSize (Ns n)"
      "NLbas b = LastBlock n + 1"
  | (Pfn) p where "\<not> IsBttEnabled n" "IsPfnEnabled n" "pPfn n = Some p" "pfn_ready (LastBlock n + 1) (p, s)"
      "pfnLbaSize p = MediaBlockSize (Ns n)"
  | (Raw) "\<not> IsBttEnabled n" "\<not> IsPfnEnabled n" "IsRawNamespace n" "pfn_ready (LastBlock n + 1) (raw_pfn (Ns n), s)"
  using assms by (auto simp: handle_ok_def split: if_splits option.splits)

lemma dev_simps [simp]:
  "dev_blocks (n, s) = LastBlock n + 1" "dev_bsize (n, s) = unat (MediaBlockSize (Ns n))"
  "pfnLbaSize (raw_pfn ns) = MediaBlockSize ns"
  by (simp_all add: dev_blocks_def dev_bsize_def raw_pfn_def)

interpretation nsdev: block_device ReadBlockDevice WriteBlockDevice "dev_ok M" dev_contents dev_blocks dev_bsize
  for M
proof (unfold_locales, goal_cases)
  case (1 d Lba buf x)
  obtain n s where d: "d = (n, s)" by (cases d)
  from 1(1) have "handle_ok (n, s)" by (simp add: d dev_ok_def)
  then show ?case
  proof (cases rule: handle_ok_cases)
    case (Btt b)
    with 1 btt_dev.rd_ok [of "(b, s)" Lba buf x] show ?thesis
      by (simp add: d ReadBlockDevice_def dev_contents_def btt_rd_def)
  next
    case (Pfn p)
    with 1 pfn_dev.rd_ok [of "LastBlock n + 1" "(p, s)" Lba buf x] show ?thesis
      by (simp add: d ReadBlockDevice_def dev_contents_def pfn_rd_def split: prod.splits)
  next
    case Raw
    with 1 pfn_dev.rd_ok [of "LastBlock n + 1" "(raw_pfn (Ns n), s)" Lba buf x] show ?thesis
      by (simp add: d ReadBlockDevice_def dev_contents_def pfn_rd_def raw_as_pfn split: prod.splits)
  qed
next
  case (2 d Lba buf)
  obtain n s where d: "d = (n, s)" by (cases d)
  from 2(1) have "handle_ok (n, s)" by (simp add: d dev_ok_def)
  then show ?case
  proof (cases rule: handle_ok_cases)
    case (Btt b)
    with 2 btt_dev.rd_bad [of "(b, s)" Lba buf] show ?thesis
      by (auto simp: d ReadBlockDevice_def dev_contents_def btt_rd_def)
  qed (use 2 in \<open>simp_all add: d dev_contents_def pfn_contents_def\<close>)
next
  case (3 d Lba x)
  obtain n s where d: "d = (n, s)" by (cases d)
  from 3(1) have "handle_ok (n, s)" by (simp add: d dev_ok_def)
  then show ?case
  proof (cases rule: handle_ok_cases)
    case (Btt b)
    with 3 btt_dev.contents_length [of "(b, s)" Lba x] show ?thesis by (simp add: d dev_contents_def)
  qed (use 3 in \<open>auto simp: d dev_contents_def pfn_contents_def flat_block_def\<close>)
next
  case (4 d Lba buf)
  obtain n s where d: "d = (n, s)" by (cases d)
  from 4(1) have "handle_ok (n, s)" by (simp add: d dev_ok_def)
  then show ?case
  proof (cases rule: handle_ok_cases)
    case (Btt b)
    with 4 btt_dev.wr_ok [of "(b, s)" Lba buf] obtain b' s' where
      w: "BttWrite b Lba buf s = Some (EFI_SUCCESS, b', s')" "btt_writable b' s'" "NLbas b' = NLbas b"
        "LbaSize b' = LbaSize b" "btt_abs b' s' = (btt_abs b s)(Lba := Some (take (unat (LbaSize b)) buf))"
      by (auto simp: d btt_wr_def word_unat_eq_iff)
    with Btt show ?thesis
      by (intro exI [of _ "(n\<lparr>pBtt := Some b'\<rparr>, s')"])
        (use 4(1) in \<open>simp add: d WriteBlockDevice_def dev_ok_def media_of_def handle_ok_def dev_contents_def\<close>)
  next
    case (Pfn p)
    with 4 PfnWrite_ok [of "LastBlock n + 1" p s Lba buf] obtain s' where
      w: "PfnWrite p Lba buf s = (EFI_SUCCESS, s')" "pfn_ready (LastBlock n + 1) (p, s')"
        "pfn_contents (LastBlock n + 1) (p, s') = (pfn_contents (LastBlock n + 1) (p, s))(Lba := Some (take (unat (pfnLbaSize p)) buf))"
      by (auto simp: d)
    with Pfn show ?thesis
      by (intro exI [of _ "(n, s')"]) (use 4(1) in \<open>simp add: d WriteBlockDevice_def dev_ok_def media_of_def handle_ok_def dev_contents_def\<close>)
  next
    case Raw
    with 4 PfnWrite_ok [of "LastBlock n + 1" "raw_pfn (Ns n)" s Lba buf] obtain s' where
      w: "PfnWrite (raw_pfn (Ns n)) Lba buf s = (EFI_SUCCESS, s')" "pfn_ready (LastBlock n + 1) (raw_pfn (Ns n), s')"
        "pfn_contents (LastBlock n + 1) (raw_pfn (Ns n), s')
           = (pfn_contents (LastBlock n + 1) (raw_pfn (Ns n), s))(Lba := Some (take (unat (MediaBlockSize (Ns n))) buf))"
      by (auto simp: d)
    with Raw show ?thesis
      by (intro exI [of _ "(n, s')"]) (use 4(1) in \<open>simp add: d WriteBlockDevice_def dev_ok_def media_of_def handle_ok_def dev_contents_def raw_as_pfn\<close>)
  qed
qed

end
