(* ===== verification/Block_Io_Correct.thy ===== *)
theory Block_Io_Correct
  imports Block_Io
begin

text \<open>
  What the block I/O protocol promises: multi-block reads and writes are reads and writes of the
  abstract block map, on every kind of namespace; and where the range checks fall short.
\<close>

section \<open>Requests that pass the checks\<close>

definition valid_request :: "block_ns \<Rightarrow> u32 \<Rightarrow> u64 \<Rightarrow> nat \<Rightarrow> u64 \<Rightarrow> bool" where
  "valid_request n Mid Lba k addr \<longleftrightarrow>
     HasMedia n \<and> Mid = MediaId n \<and> MediaBlockSize (Ns n) \<noteq> 0 \<and> addr \<noteq> 0 \<and> IoAlign n \<noteq> 0
   \<and> addr mod ucast (IoAlign n) = 0 \<and> 0 < k \<and> k * unat (MediaBlockSize (Ns n)) < 2 ^ 32
   \<and> unat Lba + k \<le> unat (LastBlock n + 1)"

definition request_bytes :: "block_ns \<Rightarrow> nat \<Rightarrow> u64" where
  "request_bytes n k = of_nat (k * unat (MediaBlockSize (Ns n)))"

lemma request_arith:
  assumes "valid_request n Mid Lba k addr"
  defines "bs \<equiv> ucast (MediaBlockSize (Ns n)) :: u64"
  shows "unat (of_nat k :: u64) = k" and "k < 2 ^ 32" and "bs \<noteq> 0"
    and "request_bytes n k mod bs = 0" and "request_bytes n k \<noteq> 0" and "request_bytes n k div bs = of_nat k"
    and "\<not> LastBlock n < Lba + of_nat k - 1"
proof -
  let ?b = "unat (MediaBlockSize (Ns n))"
  have b: "0 < ?b" "0 < k" "k * ?b < 2 ^ 32" and r: "unat Lba + k \<le> unat (LastBlock n + 1)"
    using assms by (auto simp: valid_request_def unat_gt_0)
  have "k \<le> k * ?b" using b by simp
  then show k: "k < 2 ^ 32" using b(3) by (rule order_le_less_trans)
  then show uk: "unat (of_nat k :: u64) = k" by (simp add: unsigned_of_nat take_bit_nat_eq_self)
  have ub: "unat bs = ?b" by (simp add: bs_def)
  then show nz: "bs \<noteq> 0" using b(1) by (metis less_numeral_extra(3) unsigned_0)
  have up: "unat (request_bytes n k) = k * ?b"
    using b(3) by (simp add: request_bytes_def unsigned_of_nat take_bit_nat_eq_self del: of_nat_mult)
  show "request_bytes n k mod bs = 0" "request_bytes n k div bs = of_nat k"
    using b(1) ub up uk by (simp_all add: word_arith_nat_mod word_arith_nat_div)
  show "request_bytes n k \<noteq> 0"
    using b up by (metis mult_is_0 less_numeral_extra(3) unsigned_0)
  have "LastBlock n + 1 \<noteq> 0" using r b(2) by (auto simp: word_unat_eq_iff)
  then have "unat (LastBlock n + 1) = Suc (unat (LastBlock n))" using unatSuc [of "LastBlock n"] by (simp add: add.commute)
  moreover have "unat (Lba + of_nat k - 1) = unat Lba + k - 1"
  proof -
    have "unat Lba + k < 2 ^ 64"
      using r unat_bound [of "LastBlock n + 1"] by simp
    then have "unat (Lba + of_nat k) = unat Lba + k" by (subst unat_plus_nowrap) (simp_all add: uk)
    then show ?thesis using b(2) by (subst unat_minus_one) (auto simp: word_unat_eq_iff)
  qed
  ultimately show "\<not> LastBlock n < Lba + of_nat k - 1"
    using r b(2) by (simp add: word_less_nat_alt)
qed

lemma ReadBlocks_loop:
  assumes "valid_request (fst d) Mid Lba k addr"
  shows "NvmDimmDriverBlockIoReadBlocks Mid Lba (request_bytes (fst d) k) addr buf d
       = BlockReadLoop ReadBlockDevice (MediaBlockSize (Ns (fst d))) Lba (of_nat k) 0 buf d"
  using request_arith(3-7) [OF assms] assms
  by (simp add: NvmDimmDriverBlockIoReadBlocks_def Let_def valid_request_def)

lemma WriteBlocks_loop:
  assumes "valid_request (fst d) Mid Lba k addr"
  shows "NvmDimmDriverBlockIoWriteBlocks Mid Lba (request_bytes (fst d) k) addr buf d
       = BlockWriteLoop WriteBlockDevice (MediaBlockSize (Ns (fst d))) Lba (of_nat k) 0 buf d"
  using request_arith(3-7) [OF assms] assms
  by (simp add: NvmDimmDriverBlockIoWriteBlocks_def Let_def valid_request_def)

lemma request_transfer:
  assumes "handle_ok d" and "valid_request (fst d) Mid Lba k addr"
  shows "nsdev.transfer_ok (media_of (fst d)) d (MediaBlockSize (Ns (fst d))) Lba k"
  using assms request_arith(2) [OF assms(2)]
  by (simp add: nsdev.transfer_ok_def dev_ok_def valid_request_def dev_bsize_def dev_blocks_def)

section \<open>Example devices\<close>

definition ex_dev :: block_ns where
  "ex_dev = \<lparr>Ns = ex_ns, NamespaceGuid = replicate 16 0, HealthCritical = False, IsBttEnabled = True,
     pBtt = Some ex_btt, IsPfnEnabled = False, pPfn = None, IsRawNamespace = False, HasMedia = True,
     MediaId = 0, IoAlign = 2, LastBlock = 1\<rparr>"

lemma ex_dev_ok: "handle_ok (ex_dev, ex_sys)"
  using ex_writable by (simp add: handle_ok_def ex_dev_def) (simp add: ex_btt_def ex_ns_def)

lemma ex_dev_request: "k \<in> {1, 2} \<Longrightarrow> valid_request (fst (ex_dev, s)) 0 0 k 0x1000"
  by (auto simp: valid_request_def ex_dev_def ex_ns_def)

text \<open>The same device after the second block has been marked bad in the map.\<close>

definition bad_sys :: sys where
  "bad_sys = ex_sys\<lparr>cpu := mem_write (cpu ex_sys) (0x10000 + 4292) (le32 0x40000001)\<rparr>"

lemma bad_content: "ns_content ex_ns bad_sys = mem_write (ns_content ex_ns ex_sys) 4292 (le32 0x40000001)"
  by (auto simp: ns_content_def ex_ns_def bad_sys_def mem_write_def fun_eq_iff)

lemma bad_map_entry: "map_entry (ns_content ex_ns bad_sys) ex_arena l = (if l = 1 then 0x40000001 else 0)" if "l < 2"
  using that ex_map_entry [of 0]
  by (auto simp: bad_content map_entry_def ex_arena_def mem_simps less_2_cases_iff)

lemma bad_writable: "btt_writable ex_btt bad_sys"
proof -
  let ?c = "ns_content ex_ns bad_sys"
  have "blk ?c ex_arena l = l" if "l < 2" for l
    using that by (auto simp: blk_def bad_map_entry norm_entry_def MapEntryIsInitial_def less_2_cases_iff)
  moreover have "unat (ExternalNLbas ex_arena) = 2" "map free_of (pFlogs ex_arena) = [2]" "[0..<2] = [0, 1 :: nat]"
    by (simp_all add: ex_arena_def free_of_def cur_flog_def flog_at_def initial_flog_pair_def upt_rec)
  ultimately have "all_blocks ?c ex_arena = [0, 1, 2]" by (simp add: all_blocks_def)
  moreover have "flog_synced ?c ex_arena"
  proof -
    have "mem_read ?c 4352 64 = mem_read (ns_content ex_ns ex_sys) 4352 64"
      by (simp add: bad_content mem_simps)
    moreover have "flog_synced (ns_content ex_ns ex_sys) ex_arena" "unat (fLba (cur_flog (pFlogs ex_arena ! 0))) = 0"
      using ex_arena_inv by (simp_all add: arena_inv_def ex_arena_def cur_flog_def flog_at_def initial_flog_pair_def zero_flog_def)
    moreover have "unat (FlogOffset ex_arena) = 4352" by (simp add: ex_arena_def)
    ultimately show ?thesis
      using bad_map_entry [of 0] ex_map_entry [of 0] by (simp add: flog_synced_def Let_def)
  qed
  moreover have "arena_wf ex_btt ex_arena" using ex_arena_inv by (simp add: arena_inv_def)
  ultimately have "arena_inv ex_btt ?c ex_arena" by (auto simp: arena_inv_def ex_arena_def)
  moreover have "pNamespace ex_btt = ex_ns" "Arenas ex_btt = [ex_arena]" by (simp_all add: ex_btt_def)
  moreover have "ns_ready ex_ns bad_sys" by (simp add: ns_ready_def ex_ns_def bad_sys_def ex_sys_def)
  ultimately show ?thesis
    by (simp add: btt_writable_def btt_inv_def) (simp add: ex_btt_def ex_arena_def)
qed

lemma bad_dev_ok: "handle_ok (ex_dev, bad_sys)"
  using bad_writable by (simp add: handle_ok_def ex_dev_def) (simp add: ex_btt_def ex_ns_def)

lemma ex_dev_arena: "l < 2 \<Longrightarrow> dev_contents (ex_dev, s) l = arena_abs ex_btt (ns_content ex_ns s) ex_arena (unat l)"
proof -
  assume "l < 2"
  then have "arena_walk [ex_arena] 0 l = Some (0, l)" by (simp add: ex_arena_def)
  then show ?thesis by (simp add: dev_contents_def ex_dev_def btt_abs_def) (simp add: ex_btt_def ucast_id)
qed

lemma ex_dev_contents:
  "dev_contents (ex_dev, ex_sys) 0 = Some (replicate 4 0)" "dev_contents (ex_dev, ex_sys) 1 = Some (replicate 4 0)"
  "dev_contents (ex_dev, bad_sys) 0 = Some (replicate 4 0)" "dev_contents (ex_dev, bad_sys) 1 = None"
proof -
  have "unat (LbaSize ex_btt) = 4" by (simp add: ex_btt_def)
  then show "dev_contents (ex_dev, ex_sys) 0 = Some (replicate 4 0)" "dev_contents (ex_dev, ex_sys) 1 = Some (replicate 4 0)"
    "dev_contents (ex_dev, bad_sys) 0 = Some (replicate 4 0)" "dev_contents (ex_dev, bad_sys) 1 = None"
    by (simp_all add: ex_dev_arena arena_abs_def ex_map_entry bad_map_entry MapEntryIsError_def
        MapEntryIsZeroOrInitial_def MapEntryIsInitial_def Let_def)
qed

section \<open>Properties\<close>

text \<open>
  C24: on a well-formed device of any kind, a valid read request returns \<open>EFI_SUCCESS\<close> with the blocks
  of the range in order and leaves the device unchanged, provided all of them are readable.
\<close>

theorem ReadBlocks_correct:
  assumes "handle_ok d" and "valid_request (fst d) Mid Lba k addr"
    and "length buf = k * unat (MediaBlockSize (Ns (fst d)))"
    and "\<And>i. i < k \<Longrightarrow> dev_contents d (Lba + of_nat i) \<noteq> None"
  shows "NvmDimmDriverBlockIoReadBlocks Mid Lba (request_bytes (fst d) k) addr buf d
       = Some (EFI_SUCCESS, block_range (dev_contents d) Lba k, d)"
  using nsdev.read_loop [OF request_transfer [OF assms(1,2)] request_arith(1) [OF assms(2)] assms(3) order_refl assms(4)]
    assms(3)
  by (auto simp: ReadBlocks_loop [OF assms(2)])

theorem ReadBlocks_correct_witness:
  "NvmDimmDriverBlockIoReadBlocks 0 0 8 0x1000 (replicate 8 7) (ex_dev, ex_sys)
     = Some (EFI_SUCCESS, replicate 8 0, (ex_dev, ex_sys))"
proof -
  have b: "unat (MediaBlockSize (Ns ex_dev)) = 4" by (simp add: ex_dev_def ex_ns_def)
  have "dev_contents (ex_dev, ex_sys) (0 + of_nat i) \<noteq> None" if "i < 2" for i
    using that ex_dev_contents by (auto simp: less_2_cases_iff)
  from ReadBlocks_correct [OF ex_dev_ok ex_dev_request [of 2] _ this, of "replicate 8 7"]
  show ?thesis by (simp add: b request_bytes_def block_range_Suc [of _ _ 1] block_range_Suc [of _ _ 0]
      block_range_def ex_dev_contents numeral_2_eq_2 replicate_add [symmetric])
qed

text \<open>
  C29: a read that meets an unreadable block ends with an error; the buffer holds every block before
  the unreadable one and its old contents from there on, and the device is unchanged.
\<close>

theorem ReadBlocks_stops_at_bad_block:
  assumes "handle_ok d" and "valid_request (fst d) Mid Lba k addr"
    and "length buf = k * unat (MediaBlockSize (Ns (fst d)))"
    and "m < k" and "\<And>i. i < m \<Longrightarrow> dev_contents d (Lba + of_nat i) \<noteq> None" and "dev_contents d (Lba + of_nat m) = None"
  shows "\<exists>e. EFI_ERROR e \<and> NvmDimmDriverBlockIoReadBlocks Mid Lba (request_bytes (fst d) k) addr buf d
       = Some (e, block_range (dev_contents d) Lba m @ drop (m * unat (MediaBlockSize (Ns (fst d)))) buf, d)"
  using nsdev.read_loop [OF request_transfer [OF assms(1,2)] request_arith(1) [OF assms(2)] assms(3)
      less_imp_le [OF assms(4)] assms(5) assms(6)] assms(4)
  by (auto simp: ReadBlocks_loop [OF assms(2)])

theorem ReadBlocks_stops_at_bad_block_witness:
  "\<exists>e. EFI_ERROR e \<and> NvmDimmDriverBlockIoReadBlocks 0 0 8 0x1000 (replicate 8 7) (ex_dev, bad_sys)
     = Some (e, replicate 4 0 @ replicate 4 7, (ex_dev, bad_sys))"
proof -
  have b: "unat (MediaBlockSize (Ns ex_dev)) = 4" by (simp add: ex_dev_def ex_ns_def)
  have "dev_contents (ex_dev, bad_sys) (0 + of_nat i) \<noteq> None" if "i < 1" for i
    using that ex_dev_contents by simp
  from ReadBlocks_stops_at_bad_block [OF bad_dev_ok ex_dev_request [of 2], where m = 1 and buf = "replicate 8 7"] this
  show ?thesis by (simp add: b request_bytes_def block_range_def ex_dev_contents)
qed

lemma WriteBlocks_step:
  assumes "handle_ok d" and "valid_request (fst d) Mid Lba k addr"
    and "length buf = k * unat (MediaBlockSize (Ns (fst d)))"
  shows "\<exists>d'. NvmDimmDriverBlockIoWriteBlocks Mid Lba (request_bytes (fst d) k) addr buf d = Some (EFI_SUCCESS, d')
       \<and> handle_ok d' \<and> media_of (fst d') = media_of (fst d)
       \<and> dev_contents d' = overwrite (dev_contents d) Lba k (unat (MediaBlockSize (Ns (fst d)))) buf"
  using nsdev.write_loop [OF request_transfer [OF assms(1,2)] request_arith(1) [OF assms(2)], of buf] assms(3)
  by (auto simp: WriteBlocks_loop [OF assms(2)] dev_ok_def)

lemma media_of_eq:
  assumes "media_of n' = media_of n"
  shows "valid_request n' = valid_request n" "request_bytes n' = request_bytes n" "MediaBlockSize (Ns n') = MediaBlockSize (Ns n)"
  using assms by (auto simp: media_of_def valid_request_def request_bytes_def fun_eq_iff)

text \<open>
  C23: a valid write request on a well-formed device of any kind returns \<open>EFI_SUCCESS\<close>; the device is
  well-formed again with the same media, and exactly the blocks of the range change, to the blocks
  of the buffer.
\<close>

theorem WriteBlocks_refines:
  assumes "handle_ok d" and "valid_request (fst d) Mid Lba k addr"
    and "length buf = k * unat (MediaBlockSize (Ns (fst d)))"
  shows "\<exists>d'. NvmDimmDriverBlockIoWriteBlocks Mid Lba (request_bytes (fst d) k) addr buf d = Some (EFI_SUCCESS, d')
       \<and> handle_ok d' \<and> media_of (fst d') = media_of (fst d)
       \<and> dev_contents d' = overwrite (dev_contents d) Lba k (unat (MediaBlockSize (Ns (fst d)))) buf"
  using assms by (rule WriteBlocks_step)

theorem WriteBlocks_refines_witness:
  "\<exists>d'. NvmDimmDriverBlockIoWriteBlocks 0 0 8 0x1000 [1, 2, 3, 4, 5, 6, 7, 8] (ex_dev, ex_sys) = Some (EFI_SUCCESS, d')
     \<and> dev_contents d' 0 = Some [1, 2, 3, 4] \<and> dev_contents d' 1 = Some [5, 6, 7, 8]"
proof -
  have b: "unat (MediaBlockSize (Ns ex_dev)) = 4" by (simp add: ex_dev_def ex_ns_def)
  from WriteBlocks_refines [OF ex_dev_ok ex_dev_request [of 2], of "[1, 2, 3, 4, 5, 6, 7, 8]"]
  show ?thesis by (auto simp: b request_bytes_def overwrite_def)
qed

text \<open>
  a range that has been written reads back as the buffer, on every kind of namespace, also
  where blocks of the range were unreadable before.
\<close>

theorem write_read_roundtrip:
  assumes "handle_ok d" and "valid_request (fst d) Mid Lba k addr"
    and "length data = k * unat (MediaBlockSize (Ns (fst d)))" and "length buf = length data"
    and "NvmDimmDriverBlockIoWriteBlocks Mid Lba (request_bytes (fst d) k) addr data d = Some (rc, d')"
  shows "NvmDimmDriverBlockIoReadBlocks Mid Lba (request_bytes (fst d) k) addr buf d' = Some (EFI_SUCCESS, data, d')"
proof -
  let ?bs = "unat (MediaBlockSize (Ns (fst d)))"
  from WriteBlocks_step [OF assms(1-3)] assms(5)
  have d': "handle_ok d'" "media_of (fst d') = media_of (fst d)" "dev_contents d' = overwrite (dev_contents d) Lba k ?bs data"
    by auto
  note m = media_of_eq [OF d'(2)]
  have v: "valid_request (fst d') Mid Lba k addr" using assms(2) m(1) by simp
  have "unat Lba + k < 2 ^ 64"
    using assms(2) unat_bound [of "LastBlock (fst d) + 1"] by (simp add: valid_request_def)
  note w = nsdev.blocks_overwrite [OF d'(3) this assms(3)]
  have "length buf = k * unat (MediaBlockSize (Ns (fst d')))" using assms(3,4) m(3) by simp
  from nsdev.read_loop [OF request_transfer [OF d'(1) v] request_arith(1) [OF v] this order_refl w(2)] this
  show ?thesis by (auto simp: ReadBlocks_loop [OF v, unfolded m(2)] w(1))
qed

theorem write_read_roundtrip_witness:
  "\<exists>d'. NvmDimmDriverBlockIoWriteBlocks 0 0 8 0x1000 [1, 2, 3, 4, 5, 6, 7, 8] (ex_dev, bad_sys) = Some (EFI_SUCCESS, d')
     \<and> NvmDimmDriverBlockIoReadBlocks 0 0 8 0x1000 (replicate 8 9) d' = Some (EFI_SUCCESS, [1, 2, 3, 4, 5, 6, 7, 8], d')"
proof -
  have b: "unat (MediaBlockSize (Ns ex_dev)) = 4" by (simp add: ex_dev_def ex_ns_def)
  have r: "request_bytes (fst (ex_dev, bad_sys)) 2 = 8" by (simp add: b request_bytes_def)
  have v: "valid_request (fst (ex_dev, bad_sys)) 0 0 2 0x1000" by (rule ex_dev_request) simp
  have l: "length [1, 2, 3, 4, 5, 6, 7, 8 :: u8] = 2 * unat (MediaBlockSize (Ns (fst (ex_dev, bad_sys))))" by (simp add: b)
  from WriteBlocks_step [OF bad_dev_ok v l] obtain d' where
    w: "NvmDimmDriverBlockIoWriteBlocks 0 0 8 0x1000 [1, 2, 3, 4, 5, 6, 7, 8] (ex_dev, bad_sys) = Some (EFI_SUCCESS, d')"
    unfolding r by blast
  from write_read_roundtrip [OF bad_dev_ok v l _ w [folded r], of "replicate 8 9"] w show ?thesis
    unfolding r by auto
qed



section \<open>The range check at its limits\<close>

lemma AppDirectIo_write_cpu:
  assumes "pParentIS ns \<noteq> None" and "gArsBadRecordsCount s = 0"
  shows "\<exists>s'. WriteNamespaceBlock ns Lba buf s = (EFI_SUCCESS, s') \<and> gArsBadRecordsCount s' = 0
    \<and> cpu s' = mem_write (cpu s) (unat (SpaNamespaceBase ns + Lba * ucast (MediaBlockSize ns))) (take (unat (MediaBlockSize ns)) buf)"
  using assms by (simp add: WriteNamespaceBlock_def IoNamespaceBlock_def AppDirectIo_def Let_def)

text \<open>
  C34: the range check adds without looking for overflow. On a raw namespace a request for two blocks
  at the highest block address passes it, and the write succeeds: the first of the two blocks is
  stored right below the namespace, at addresses that do not belong to it.
\<close>

theorem wrapped_request_writes_below_namespace:
  fixes n :: block_ns
  defines "bs \<equiv> unat (MediaBlockSize (Ns n))" and "base \<equiv> unat (SpaNamespaceBase (Ns n))"
  assumes "\<not> IsBttEnabled n" and "\<not> IsPfnEnabled n" and "IsRawNamespace n" and "HasMedia n" and "IoAlign n = 2"
    and "ns_ready (Ns n) s" and "0 < bs" and "2 * bs < 2 ^ 32" and "bs \<le> base" and "base + bs < 2 ^ 64"
    and "addr \<noteq> 0" and "addr mod 2 = 0" and "length buf = 2 * bs"
  shows "\<exists>s'. NvmDimmDriverBlockIoWriteBlocks (MediaId n) (- 1) (of_nat (2 * bs)) addr buf (n, s) = Some (EFI_SUCCESS, n, s')
     \<and> cpu s' = mem_write (cpu s) (base - bs) buf"
proof -
  let ?w = "ucast (MediaBlockSize (Ns n)) :: u64" and ?ns = "Ns n"
  have ub: "unat ?w = bs" by (simp add: bs_def)
  have r: "pParentIS ?ns \<noteq> None" "gArsBadRecordsCount s = 0" using assms by (simp_all add: ns_ready_def)
  have u2: "unat (of_nat (2 * bs) :: u64) = 2 * bs"
    using assms by (simp add: unsigned_of_nat take_bit_nat_eq_self del: of_nat_mult)
  have nz: "MediaBlockSize ?ns \<noteq> 0" "?w \<noteq> 0" using assms(9) ub by (auto simp: bs_def word_unat_eq_iff)
  have m: "of_nat (2 * bs) mod ?w = 0" "of_nat (2 * bs) div ?w = 2" "of_nat (2 * bs) \<noteq> (0 :: u64)"
    using assms(9) u2 ub by (simp_all add: word_arith_nat_mod word_arith_nat_div word_unat_eq_iff [of _ 0] del: of_nat_mult)
  have a: "unat (SpaNamespaceBase ?ns - ?w) = base - bs"
    using assms by (subst unat_sub) (auto simp: word_le_nat_alt base_def bs_def)
  obtain s1 where s1: "WriteNamespaceBlock ?ns (- 1) buf s = (EFI_SUCCESS, s1)" "gArsBadRecordsCount s1 = 0"
    "cpu s1 = mem_write (cpu s) (base - bs) (take bs buf)"
    using AppDirectIo_write_cpu [OF r(1,2), of "- 1" buf] a by (auto simp: bs_def)
  obtain s2 where s2: "WriteNamespaceBlock ?ns 0 (drop bs buf) s1 = (EFI_SUCCESS, s2)"
    "cpu s2 = mem_write (cpu s1) base (drop bs buf)"
    using AppDirectIo_write_cpu [OF r(1) s1(2), of 0 "drop bs buf"] assms(15) by (auto simp: bs_def base_def)
  have loop: "BlockWriteLoop WriteBlockDevice (MediaBlockSize ?ns) (- 1) 2 0 buf (n, s) = Some (EFI_SUCCESS, n, s2)"
  proof -
    let ?L = "BlockWriteLoop WriteBlockDevice (MediaBlockSize ?ns) (- 1) 2"
    have "?L 0 buf (n, s) = ?L 1 buf (n, s1)"
      using assms s1(1) by (subst BlockWriteLoop.simps) (simp add: WriteBlockDevice_def)
    also have "\<dots> = ?L 2 buf (n, s2)"
      using assms s2(1) by (subst BlockWriteLoop.simps) (simp add: WriteBlockDevice_def)
    also have "\<dots> = Some (EFI_SUCCESS, n, s2)" by (subst BlockWriteLoop.simps) simp
    finally show ?thesis .
  qed
  have "cpu s2 = mem_write (cpu s) (base - bs) (take bs buf @ drop bs buf)"
    using s1(3) s2(2) assms(11,15) by (subst mem_write_append) simp
  moreover have "NvmDimmDriverBlockIoWriteBlocks (MediaId n) (- 1) (of_nat (2 * bs)) addr buf (n, s)
      = BlockWriteLoop WriteBlockDevice (MediaBlockSize ?ns) (- 1) 2 0 buf (n, s)"
    using assms m nz by (simp add: NvmDimmDriverBlockIoWriteBlocks_def Let_def del: of_nat_mult)
  ultimately show ?thesis using loop by (auto simp del: of_nat_mult)
qed

text \<open>A raw namespace of 8 KiB in blocks of 512 bytes, and a PFN namespace whose data begins at 4 KiB.\<close>

definition raw_dev :: block_ns where
  "raw_dev = ex_dev\<lparr>Ns := ex_ns\<lparr>MediaBlockSize := 512, BlockSize := 512, BlockCount := 16\<rparr>, IsBttEnabled := False,
     pBtt := None, IsRawNamespace := True, LastBlock := 15\<rparr>"

definition pfn_dev_ex :: block_ns where
  "pfn_dev_ex = raw_dev\<lparr>IsPfnEnabled := True, IsRawNamespace := False,
     pPfn := Some \<lparr>pfnParentUuid = replicate 16 0, pfnRawSize = 8192, pfnLbaSize = 512, pfnStartPad = 0,
        pfnDataOff = 4096, pfnNamespace = Ns raw_dev\<rparr>\<rparr>"

theorem wrapped_request_writes_below_namespace_witness:
  "\<exists>s'. NvmDimmDriverBlockIoWriteBlocks 0 (- 1) 1024 0x1000 (replicate 1024 7) (raw_dev, ex_sys) = Some (EFI_SUCCESS, raw_dev, s')
     \<and> cpu s' 0xFFFF = 7"
proof -
  have u: "unat (MediaBlockSize (Ns raw_dev)) = 512" "unat (SpaNamespaceBase (Ns raw_dev)) = 0x10000" "MediaId raw_dev = 0"
    by (simp_all add: raw_dev_def ex_dev_def ex_ns_def)
  have "\<exists>s'. NvmDimmDriverBlockIoWriteBlocks (MediaId raw_dev) (- 1) (of_nat (2 * 512)) 0x1000 (replicate 1024 7) (raw_dev, ex_sys)
      = Some (EFI_SUCCESS, raw_dev, s') \<and> cpu s' = mem_write (cpu ex_sys) (0x10000 - 512) (replicate 1024 7)"
    by (rule wrapped_request_writes_below_namespace [of raw_dev, unfolded u(1,2)])
      (simp_all add: raw_dev_def ex_dev_def ex_ns_def ex_sys_def ns_ready_def)
  then show ?thesis by (auto simp: u mem_write_def)
qed

text \<open>
  the block addresses that \<open>InstallNamespaceProtocols\<close> publishes for a raw namespace lie inside its
  capacity: no valid request reaches a byte behind it.
\<close>

theorem raw_requests_inside_capacity:
  assumes "InstallMedia n = (EFI_SUCCESS, n')" and "\<not> IsBttEnabled n"
    and "valid_request n' Mid Lba k addr"
  shows "(unat Lba + k) * unat (MediaBlockSize (Ns n')) \<le> unat (GetAccessibleCapacity (Ns n))"
proof -
  let ?bs = "ucast (MediaBlockSize (Ns n)) :: u64" and ?cap = "GetAccessibleCapacity (Ns n)"
  have n': "MediaBlockSize (Ns n') = MediaBlockSize (Ns n)" "LastBlock n' + 1 = ?cap div ?bs"
    using assms(1,2)
    by (auto simp: InstallMedia_def Let_def GetBlockDeviceBlockSize_def GetAccessibleCapacity_def split: if_splits)
  have "unat Lba + k \<le> unat ?cap div unat ?bs"
    using assms(3) by (simp add: valid_request_def n'(2) unat_div)
  then have "(unat Lba + k) * unat ?bs \<le> unat ?cap div unat ?bs * unat ?bs" by (rule mult_le_mono1)
  also have "\<dots> \<le> unat ?cap" by simp
  finally show ?thesis by (simp add: n'(1))
qed

theorem raw_requests_inside_capacity_witness: "(10 + 6) * (512 :: nat) \<le> unat (GetAccessibleCapacity (Ns raw_dev))"
proof -
  have "(unat (10 :: u64) + 6) * unat (MediaBlockSize (Ns (snd (InstallMedia raw_dev)))) \<le> unat (GetAccessibleCapacity (Ns raw_dev))"
    by (rule raw_requests_inside_capacity [of raw_dev _ 0 _ _ "0x1000"])
      (simp_all add: raw_dev_def ex_dev_def ex_ns_def InstallMedia_def GetBlockDeviceBlockSize_def
        GetAccessibleCapacity_def valid_request_def Let_def prod_eq_iff)
  then show ?thesis
    by (simp add: raw_dev_def ex_dev_def ex_ns_def InstallMedia_def GetBlockDeviceBlockSize_def Let_def)
qed

text \<open>
  C33: for a PFN namespace the published last block is computed from the whole capacity, while the data
  begins behind padding and metadata. A write to the last block is accepted and stores its bytes
  \<open>StartPad + DataOff\<close> behind the last block of the namespace: outside, unless both are zero.
\<close>

theorem pfn_last_block_outside:
  assumes "InstallMedia n = (EFI_SUCCESS, n')" and "\<not> IsBttEnabled n" and "IsPfnEnabled n" and "pPfn n = Some p"
    and "pfnNamespace p = Ns n" and "pfnLbaSize p = MediaBlockSize (Ns n)" and "ns_ready (Ns n) s"
    and "unat (GetAccessibleCapacity (Ns n)) = Suc m * unat (MediaBlockSize (Ns n))"
    and "unat (SpaNamespaceBase (Ns n)) + pfn_base p + unat (GetAccessibleCapacity (Ns n)) < 2 ^ 64"
    and "addr \<noteq> 0" and "addr mod 2 = 0" and "length buf = unat (MediaBlockSize (Ns n))"
  shows "\<exists>s'. NvmDimmDriverBlockIoWriteBlocks 0 (LastBlock n') (ucast (MediaBlockSize (Ns n))) addr buf (n', s) = Some (EFI_SUCCESS, n', s')
     \<and> mem_read (ns_content (Ns n) s')
         (unat (GetAccessibleCapacity (Ns n)) + pfn_base p - unat (MediaBlockSize (Ns n))) (unat (MediaBlockSize (Ns n))) = buf"
proof -
  let ?bs = "unat (MediaBlockSize (Ns n))" and ?w = "ucast (MediaBlockSize (Ns n)) :: u64" and ?cap = "GetAccessibleCapacity (Ns n)"
  have n': "n' = n\<lparr>MediaId := 0, IoAlign := 2, LastBlock := ?cap div ?w - 1, HasMedia := True\<rparr>" and nz: "MediaBlockSize (Ns n) \<noteq> 0"
    using assms(1,2)
    by (auto simp: InstallMedia_def Let_def GetBlockDeviceBlockSize_def GetAccessibleCapacity_def split: if_splits)
  have bs: "0 < ?bs" using nz by (simp add: unat_gt_0)
  have q: "unat (?cap div ?w) = Suc m" using assms(8) bs by (simp add: unat_div)
  have q0: "?cap div ?w \<noteq> 0" using q by auto
  then have lb: "unat (LastBlock n') = m" using q by (simp add: n' unat_minus_one)
  have lb1: "LastBlock n' + 1 = ?cap div ?w" by (simp add: n')
  have "pfn_fits p (LastBlock n' + 1)"
    using assms(5,6,8,9) lb1 q by (simp add: pfn_fits_def)
  then have rdy: "pfn_ready (LastBlock n' + 1) (p, s)" using assms(5,7) by (simp add: pfn_ready_def)
  have less: "LastBlock n' < LastBlock n' + 1" using lb lb1 q by (simp add: word_less_nat_alt)
  from PfnWrite_ok [OF rdy less, of buf] assms(6,12) obtain s' where
    w: "PfnWrite p (LastBlock n') buf s = (EFI_SUCCESS, s')"
      "pfn_contents (LastBlock n' + 1) (p, s') (LastBlock n') = Some buf"
    by auto
  have "flat_block (ns_content (Ns n) s') (pfn_base p) ?bs m = buf"
    using w(2) less lb assms(5,6) by (simp add: pfn_contents_def)
  moreover have "unat ?cap + pfn_base p - ?bs = pfn_base p + m * ?bs" using assms(8) by simp
  moreover have "NvmDimmDriverBlockIoWriteBlocks 0 (LastBlock n') ?w addr buf (n', s) = Some (EFI_SUCCESS, n', s')"
  proof -
    have w0: "?w \<noteq> 0" using nz bs by (auto simp: word_unat_eq_iff)
    have w1: "?w div ?w = 1" using bs by (simp add: word_unat_eq_iff unat_div)
    have "NvmDimmDriverBlockIoWriteBlocks 0 (LastBlock n') ?w addr buf (n', s)
        = BlockWriteLoop WriteBlockDevice (MediaBlockSize (Ns n)) (LastBlock n') 1 0 buf (n', s)"
      using assms(10,11) nz w0 by (simp add: NvmDimmDriverBlockIoWriteBlocks_def Let_def n' w1)
    also have "\<dots> = BlockWriteLoop WriteBlockDevice (MediaBlockSize (Ns n)) (LastBlock n') 1 1 buf (n', s')"
      using w(1) assms(2-4) by (subst BlockWriteLoop.simps) (simp add: WriteBlockDevice_def n')
    also have "\<dots> = Some (EFI_SUCCESS, n', s')" by (subst BlockWriteLoop.simps) simp
    finally show ?thesis .
  qed
  ultimately show ?thesis by (simp add: flat_block_def)
qed

theorem pfn_last_block_outside_witness:
  "\<exists>s'. NvmDimmDriverBlockIoWriteBlocks 0 15 512 0x1000 (replicate 512 7) (pfn_dev_ex, ex_sys) = Some (EFI_SUCCESS, pfn_dev_ex, s')
     \<and> mem_read (ns_content (Ns raw_dev) s') (8192 + 3584) 512 = replicate 512 7"
proof -
  have f: "Ns pfn_dev_ex = Ns raw_dev" "MediaBlockSize (Ns raw_dev) = 512" "GetAccessibleCapacity (Ns raw_dev) = 8192"
    "LastBlock pfn_dev_ex = 15"
    by (simp_all add: pfn_dev_ex_def raw_dev_def ex_ns_def ex_dev_def GetAccessibleCapacity_def)
  let ?p = "\<lparr>pfnParentUuid = replicate 16 0, pfnRawSize = 8192, pfnLbaSize = 512, pfnStartPad = 0,
        pfnDataOff = 4096, pfnNamespace = Ns raw_dev\<rparr>"
  have "InstallMedia pfn_dev_ex = (EFI_SUCCESS, pfn_dev_ex)"
    by (simp add: InstallMedia_def GetBlockDeviceBlockSize_def GetAccessibleCapacity_def pfn_dev_ex_def raw_dev_def ex_ns_def ex_dev_def Let_def)
  from pfn_last_block_outside [OF this, of ?p ex_sys 15 "0x1000" "replicate 512 7"] f show ?thesis
    by (simp add: ns_ready_def) (simp add: pfn_dev_ex_def raw_dev_def ex_ns_def ex_dev_def ex_sys_def)
qed

end
