(* ===== verification/Block_Boot.thy ===== *)
theory Block_Boot
  imports Block_Io_Correct Btt_Crash
begin

text \<open>
  Starting the driver on a namespace that holds a block translation table: detection, opening and
  publication of the media bring the block device back that was there before.
\<close>

lemma opened_first_info:
  assumes "btt_opened b s"
  defines "c \<equiv> ns_content (pNamespace b) s" and "a \<equiv> hd (Arenas b)"
  shows "Arenas b = a # tl (Arenas b)" and "StartOffset a = PrimaryInfoOffset b"
    and "info_accepted b (info_at c (StartOffset a))" and "ns_fits (pNamespace b) (StartOffset a) 4096"
    and "0 < unat (ExternalNLbas a)"
proof -
  have med: "btt_media b s" and scan: "scan_ok b c (RawSize b) (Arenas b)"
    using assms(1) unfolding btt_opened_def c_def by blast+
  then show as: "Arenas b = a # tl (Arenas b)" by (cases "Arenas b") (simp_all add: a_def)
  then have in_set: "a \<in> set (Arenas b)" by (metis list.set_intros(1))
  have am: "arena_media b c a" using med in_set by (simp add: btt_media_def c_def)
  have "arena_chain (PrimaryInfoOffset b) (a # tl (Arenas b))" using med as by (simp add: btt_media_def)
  then show "StartOffset a = PrimaryInfoOffset b" by simp
  have "scan_ok b c (RawSize b) (a # tl (Arenas b))" using scan as by simp
  then show acc: "info_accepted b (info_at c (StartOffset a))" by simp
  show "ns_fits (pNamespace b) (StartOffset a) 4096"
    using am arena_info_fits by (auto simp: arena_media_def arena_inv_def)
  have "a = loaded_arena b c (StartOffset a)" using am by (simp add: arena_media_def)
  from loaded_info [OF this] acc show "0 < unat (ExternalNLbas a)"
    by (auto simp: info_names_def info_accepted_def unat_gt_0)
qed

lemma CheckBttExistence_opened:
  assumes op: "btt_opened b s" and al: "allocs s = []" and n: "Ns n = pNamespace b" "pBtt n = None" "NamespaceGuid n = ParentUuid b"
  shows "CheckBttExistence n s = (EFI_SUCCESS, True, s)"
proof -
  note a = opened_first_info [OF op]
  have r: "ns_ready (pNamespace b) s" and prim: "PrimaryInfoOffset b = (if NsMajor (pNamespace b) = NSINDEX_MAJOR \<and> NsMinor (pNamespace b) = NSINDEX_MINOR_1
        then BTT_PRIMARY_INFO_BLOCK_OFFSET_1_1 else BTT_PRIMARY_INFO_BLOCK_OFFSET)"
    using op unfolding btt_opened_def btt_media_def btt_writable_def btt_inv_def by blast+
  have "ReadNamespaceBytes (pNamespace b) (PrimaryInfoOffset b) (replicate 4096 0) BTT_INFO_SIZE s
      = (EFI_SUCCESS, mem_read (ns_content (pNamespace b) s) (unat (PrimaryInfoOffset b)) 4096, s)"
    using ReadNamespaceBytes_ok [OF r, of "PrimaryInfoOffset b" BTT_INFO_SIZE "replicate 4096 0"] a(2,4) by simp
  moreover have "AllocatePool s = (True, s)" using al by (simp add: AllocatePool_def)
  moreover have "BttReadInfo (info_at (ns_content (pNamespace b) s) (PrimaryInfoOffset b)) None = EFI_SUCCESS
      \<and> iParentUuid (info_at (ns_content (pNamespace b) s) (PrimaryInfoOffset b)) = ParentUuid b"
    using a(2,3) by (auto simp: info_accepted_def BttReadInfo_def split: if_splits)
  ultimately show ?thesis
    unfolding CheckBttExistence_def n Let_def prim [symmetric] by (simp add: info_at_def)
qed

text \<open>
  C6: when the driver starts on a namespace whose media hold a consistent block translation table, it
  detects the table, opens it without touching the health state, publishes its blocks, and the
  block device it offers is well-formed with exactly the contents from before.
\<close>

theorem restart_keeps_contents:
  assumes op: "btt_opened b s" and al: "allocs s = []" and n: "Ns n = pNamespace b" "pBtt n = None" "NamespaceGuid n = ParentUuid b"
    and f: "IsBttEnabled n" "\<not> IsPfnEnabled n" and g: "GetAccessibleCapacity (Ns n) = RawSize b" "MediaBlockSize (Ns n) = LbaSize b" "LbaSize b \<noteq> 0"
  shows "\<exists>n1 n2 s'. DetectAbstraction False n s = (n1, s') \<and> InstallMedia n1 = (EFI_SUCCESS, n2)
     \<and> HealthCritical n2 = HealthCritical n \<and> handle_ok (n2, s') \<and> dev_contents (n2, s') = btt_abs b s"
proof -
  define a where "a = hd (Arenas b)"
  have as: "Arenas b = a # tl (Arenas b)" and a: "0 < unat (ExternalNLbas a)"
    using opened_first_info(1,5) [OF op] unfolding a_def by blast+
  have a0: "unat (0 :: u32) < unat (ExternalNLbas (Arenas b ! 0))" using a as by (metis nth_Cons_0 unsigned_0)
  have ln: "0 < length (Arenas b)" using as by (metis length_greater_0_conv list.distinct(1))
  have "arena_walk (a # tl (Arenas b)) 0 0 = Some (0, ucast (0 :: u32))"
    using a by (simp add: word_less_nat_alt)
  then have w: "arena_walk (Arenas b) 0 0 = Some (0, ucast (0 :: u32))" using as by simp
  have r: "ns_ready (pNamespace b) s"
    using op unfolding btt_opened_def btt_media_def btt_writable_def btt_inv_def by blast
  have "\<exists>b' ns' s'. BttInit (RawSize b) (LbaSize b) (ParentUuid b) (pNamespace b) s = (Some b', ns', s')
     \<and> btt_opened b' s' \<and> btt_abs b' s' = (if 3 \<le> (0 :: nat) then (btt_abs b s)(0 := Some (replicate (unat (LbaSize b)) 0)) else btt_abs b s)
     \<and> LbaSize b' = LbaSize b"
    by (rule BttInit_torn [OF op ln w a0 _ _ r al]) simp_all
  then obtain b' ns' s' where b': "BttInit (RawSize b) (LbaSize b) (ParentUuid b) (pNamespace b) s = (Some b', ns', s')"
    "btt_opened b' s'" "btt_abs b' s' = btt_abs b s" "LbaSize b' = LbaSize b"
    by auto
  have ns': "MediaBlockSize ns' = LbaSize b"
    using b'(1) g(2) n(1) by (auto simp: BttInit_def Let_def split: if_splits prod.splits)
  let ?n1 = "n\<lparr>IsBttEnabled := True, pBtt := Some b', Ns := ns', HealthCritical := HealthCritical n\<rparr>"
  have d: "DetectAbstraction False n s = (?n1, s')"
    using CheckBttExistence_opened [OF op al n] f b'(1) g
    by (simp add: DetectAbstraction_def n(1,3) GetBlockDeviceBlockSize_def)
  obtain n2 where i: "InstallMedia ?n1 = (EFI_SUCCESS, n2)" "HealthCritical n2 = HealthCritical n"
    "IsBttEnabled n2" "pBtt n2 = Some b'" "LastBlock n2 + 1 = NLbas b'" "MediaBlockSize (Ns n2) = LbaSize b"
    using ns' g(3) by (simp add: InstallMedia_def GetBlockDeviceBlockSize_def Let_def)
  have "btt_writable b' s'" using b'(2) unfolding btt_opened_def btt_media_def by blast
  with d i b'(3,4) show ?thesis
    by (intro exI [of _ ?n1] exI [of _ n2] exI [of _ s']) (simp add: handle_ok_def dev_contents_def)
qed

theorem restart_keeps_contents_witness:
  "\<exists>n1 n2 s'. DetectAbstraction False (ex_dev\<lparr>pBtt := None, HasMedia := False\<rparr>) ex_sys = (n1, s')
     \<and> InstallMedia n1 = (EFI_SUCCESS, n2) \<and> handle_ok (n2, s')
     \<and> dev_contents (n2, s') = dev_contents (ex_dev, ex_sys)"
proof -
  let ?n = "ex_dev\<lparr>pBtt := None, HasMedia := False\<rparr>"
  have e: "dev_contents (ex_dev, ex_sys) = btt_abs ex_btt ex_sys" by (simp add: dev_contents_def ex_dev_def)
  have "\<exists>n1 n2 s'. DetectAbstraction False ?n ex_sys = (n1, s') \<and> InstallMedia n1 = (EFI_SUCCESS, n2)
     \<and> HealthCritical n2 = HealthCritical ?n \<and> handle_ok (n2, s') \<and> dev_contents (n2, s') = btt_abs ex_btt ex_sys"
    by (rule restart_keeps_contents [OF ex_opened])
      (simp_all add: ex_sys_def ex_dev_def ex_btt_def ex_ns_def GetAccessibleCapacity_def)
  then show ?thesis unfolding e by blast
qed

end
