(* ===== verification/Label_Area.thy ===== *)
theory Label_Area
  imports Checksum Seq_Pair
begin

text \<open>
  The label storage area of a DIMM: two index blocks and an array of label slots
  (\<open>DcpmPkg/common/LbaCommon.h\<close>, \<open>LbaCommon.c\<close> and the index functions of
  \<open>DcpmPkg/driver/Core/Namespace.c\<close>). The index block with the newer sequence number holds the
  bitmap of free slots; an update is prepared in the other one.
\<close>

section \<open>Structures\<close>

abbreviation (input) NSINDEX_ALIGN :: u64 where "NSINDEX_ALIGN \<equiv> 256"
abbreviation (input) NSINDEX_FREE_ALIGN :: u32 where "NSINDEX_FREE_ALIGN \<equiv> 8"
abbreviation (input) NSINDEX_MAJOR :: u16 where "NSINDEX_MAJOR \<equiv> 1"
abbreviation (input) NSINDEX_MINOR_1 :: u16 where "NSINDEX_MINOR_1 \<equiv> 1"
abbreviation (input) NSINDEX_MINOR_2 :: u16 where "NSINDEX_MINOR_2 \<equiv> 2"
abbreviation (input) FIRST_INDEX_BLOCK :: nat where "FIRST_INDEX_BLOCK \<equiv> 0"
abbreviation (input) SECOND_INDEX_BLOCK :: nat where "SECOND_INDEX_BLOCK \<equiv> 1"
abbreviation (input) ALL_INDEX_BLOCKS :: nat where "ALL_INDEX_BLOCKS \<equiv> 2"
abbreviation (input) UNDEFINED_SLOT_ID :: u16 where "UNDEFINED_SLOT_ID \<equiv> 0xFFFF"
abbreviation (input) MIN_NAMESPACE_LABEL_INDEX_SIZE :: u32 where "MIN_NAMESPACE_LABEL_INDEX_SIZE \<equiv> 256"

text \<open>\<open>OFFSET_OF(NAMESPACE_INDEX, pFree)\<close> and \<open>OFFSET_OF(NAMESPACE_INDEX, Checksum)\<close>.\<close>

abbreviation (input) FREE_OFFSET :: "'a::len word" where "FREE_OFFSET \<equiv> 72"
abbreviation (input) CHECKSUM_OFFSET :: nat where "CHECKSUM_OFFSET \<equiv> 64"

definition LSA_NAMESPACE_INDEX_SIG :: "u8 list" where
  "LSA_NAMESPACE_INDEX_SIG = map (\<lambda>c. of_nat (of_char c)) ''NAMESPACE_INDEX'' @ [0]"

text \<open>
  \<open>nFree\<close> is the array behind \<open>pFree\<close>; the empty list also stands for the NULL pointer of a
  zeroed structure. \<open>pReserved\<close> is never used.
\<close>

record namespace_index =
  nSignature :: "u8 list"
  nFlags :: "u8 list"
  nLabelSize :: u8
  nSequence :: u32
  nMyOffset :: u64
  nMySize :: u64
  nOtherOffset :: u64
  nLabelOffset :: u64
  nNumberOfLabels :: u32
  nMajor :: u16
  nMinor :: u16
  nChecksum :: u64
  nFree :: "u8 list"

record namespace_label =
  lUuid :: "u8 list"
  lName :: "u8 list"
  lFlags :: u32
  lNumberOfLabels :: u16
  lPosition :: u16
  lInterleaveSetCookie :: u64
  lLbaSize :: u64
  lDpa :: u64
  lRawSize :: u64
  lSlot :: u32
  lAlignment :: u8
  lReserved :: "u8 list"
  lTypeGuid :: "u8 list"
  lAddressAbstractionGuid :: "u8 list"
  lReserved1 :: "u8 list"
  lChecksum :: u64

record lsa =
  Index :: "namespace_index list"
  pLabels :: "namespace_label list"

definition zero_index :: namespace_index where
  "zero_index = \<lparr>nSignature = replicate 16 0, nFlags = replicate 3 0, nLabelSize = 0, nSequence = 0,
     nMyOffset = 0, nMySize = 0, nOtherOffset = 0, nLabelOffset = 0, nNumberOfLabels = 0, nMajor = 0,
     nMinor = 0, nChecksum = 0, nFree = []\<rparr>"

definition zero_label :: namespace_label where
  "zero_label = \<lparr>lUuid = replicate 16 0, lName = replicate 64 0, lFlags = 0, lNumberOfLabels = 0,
     lPosition = 0, lInterleaveSetCookie = 0, lLbaSize = 0, lDpa = 0, lRawSize = 0, lSlot = 0,
     lAlignment = 0, lReserved = replicate 3 0, lTypeGuid = replicate 16 0,
     lAddressAbstractionGuid = replicate 16 0, lReserved1 = replicate 88 0, lChecksum = 0\<rparr>"

definition zero_lsa :: lsa where
  "zero_lsa = \<lparr>Index = [zero_index, zero_index], pLabels = []\<rparr>"

section \<open>Codecs\<close>

text \<open>The part of an index block in front of the bitmap.\<close>

definition index_header :: "namespace_index \<Rightarrow> u8 list" where
  "index_header i =
     nSignature i @ nFlags i @ [nLabelSize i] @ le32 (nSequence i) @ le64 (nMyOffset i) @
     le64 (nMySize i) @ le64 (nOtherOffset i) @ le64 (nLabelOffset i) @ le32 (nNumberOfLabels i) @
     le16 (nMajor i) @ le16 (nMinor i) @ le64 (nChecksum i)"

definition parse_index :: "u8 list \<Rightarrow> u8 list \<Rightarrow> namespace_index" where
  "parse_index bs free =
     \<lparr>nSignature = take 16 bs, nFlags = take 3 (drop 16 bs), nLabelSize = bs ! 19,
      nSequence = get32 20 bs, nMyOffset = get64 24 bs, nMySize = get64 32 bs,
      nOtherOffset = get64 40 bs, nLabelOffset = get64 48 bs, nNumberOfLabels = get32 56 bs,
      nMajor = get16 60 bs, nMinor = get16 62 bs, nChecksum = get64 64 bs, nFree = free\<rparr>"

definition label_bytes :: "namespace_label \<Rightarrow> u8 list" where
  "label_bytes l =
     lUuid l @ lName l @ le32 (lFlags l) @ le16 (lNumberOfLabels l) @ le16 (lPosition l) @
     le64 (lInterleaveSetCookie l) @ le64 (lLbaSize l) @ le64 (lDpa l) @ le64 (lRawSize l) @
     le32 (lSlot l) @ [lAlignment l] @ lReserved l @ lTypeGuid l @ lAddressAbstractionGuid l @
     lReserved1 l @ le64 (lChecksum l)"

definition parse_label :: "u8 list \<Rightarrow> namespace_label" where
  "parse_label bs =
     \<lparr>lUuid = take 16 bs, lName = take 64 (drop 16 bs), lFlags = get32 80 bs,
      lNumberOfLabels = get16 84 bs, lPosition = get16 86 bs, lInterleaveSetCookie = get64 88 bs,
      lLbaSize = get64 96 bs, lDpa = get64 104 bs, lRawSize = get64 112 bs, lSlot = get32 120 bs,
      lAlignment = bs ! 124, lReserved = take 3 (drop 125 bs), lTypeGuid = take 16 (drop 128 bs),
      lAddressAbstractionGuid = take 16 (drop 144 bs), lReserved1 = take 88 (drop 160 bs),
      lChecksum = get64 248 bs\<rparr>"

definition index_wf :: "namespace_index \<Rightarrow> bool" where
  "index_wf i \<longleftrightarrow> length (nSignature i) = 16 \<and> length (nFlags i) = 3"

definition label_wf :: "namespace_label \<Rightarrow> bool" where
  "label_wf l \<longleftrightarrow> length (lUuid l) = 16 \<and> length (lName l) = 64 \<and> length (lReserved l) = 3
     \<and> length (lTypeGuid l) = 16 \<and> length (lAddressAbstractionGuid l) = 16 \<and> length (lReserved1 l) = 88"

lemma length_index_header [simp, codec_simps]: "index_wf i \<Longrightarrow> length (index_header i) = 72"
  by (simp add: index_header_def index_wf_def)

lemma length_label_bytes [simp, codec_simps]: "label_wf l \<Longrightarrow> length (label_bytes l) = 256"
  by (simp add: label_bytes_def label_wf_def)

lemma get_here_cons [simp]: "Suc 0 \<le> off \<Longrightarrow> get32 off (b # ys) = get32 (off - 1) ys"
  "Suc 0 \<le> off \<Longrightarrow> get64 off (b # ys) = get64 (off - 1) ys"
  "Suc 0 \<le> off \<Longrightarrow> get16 off (b # ys) = get16 (off - 1) ys"
  by (cases off; simp add: get32_def get64_def get16_def)+

lemma parse_index_header: "index_wf i \<Longrightarrow> parse_index (index_header i @ rest) (nFree i) = i"
  by (simp add: parse_index_def index_header_def index_wf_def nth_append)

lemma parse_label_bytes: "label_wf l \<Longrightarrow> parse_label (label_bytes l @ rest) = l"
  by (simp add: parse_label_def label_bytes_def label_wf_def nth_append)

lemma zero_wf [simp]: "index_wf zero_index" "label_wf zero_label"
  by (simp_all add: index_wf_def zero_index_def label_wf_def zero_label_def)

section \<open>Current and next index block\<close>

text \<open>\<open>LsaSelect\<close> is the choice that \<open>GetLsaIndexes\<close> makes from the two sequence numbers.\<close>

definition LsaSelect :: "u32 \<Rightarrow> u32 \<Rightarrow> nat option" where
  "LsaSelect FirstSeq SecondSeq =
     (let SeqSum = FirstSeq + SecondSeq
      in if SeqSum = 0 \<or> 6 < SeqSum then None
         else
           let CurrentSeq = (if SeqSum = 4 then min FirstSeq SecondSeq else max FirstSeq SecondSeq)
           in Some (if CurrentSeq = SecondSeq then SECOND_INDEX_BLOCK else FIRST_INDEX_BLOCK))"

definition GetLsaIndexes :: "lsa \<Rightarrow> efi_status + nat \<times> nat" where
  "GetLsaIndexes pLsa =
     (case LsaSelect (nSequence (Index pLsa ! 0)) (nSequence (Index pLsa ! 1)) of
        None \<Rightarrow> Inl EFI_INVALID_PARAMETER
      | Some c \<Rightarrow> Inr (c, if c = 1 then 0 else 1))"

definition NextSequence :: "u32 \<Rightarrow> u32" where
  "NextSequence q = q mod 3 + 1"

definition lsa_seq_valid :: "u32 \<Rightarrow> bool" where
  "lsa_seq_valid q \<longleftrightarrow> q = 1 \<or> q = 2 \<or> q = 3"

interpretation lsa_seq: seq_pair LsaSelect NextSequence lsa_seq_valid
  by unfold_locales (auto simp: lsa_seq_valid_def LsaSelect_def NextSequence_def)

section \<open>Slot bitmap\<close>

datatype slot_status = SLOT_UNKNOWN | SLOT_FREE | SLOT_USED

text \<open>
  A set bit of the bitmap is a free slot. The callers stay below the number of labels, for which
  the bitmap has room; the array access behind its end is not defined.
\<close>

definition CheckSlotStatus :: "namespace_index \<Rightarrow> u16 \<Rightarrow> slot_status" where
  "CheckSlotStatus pIndex SlotNumber =
     (let BlockNumber = unat (SlotNumber div 8);
          BitNumber = unat (SlotNumber mod 8)
      in if nFree pIndex ! BlockNumber AND push_bit BitNumber 1 = 0 then SLOT_USED else SLOT_FREE)"

definition ChangeSlotStatus :: "namespace_index \<Rightarrow> u16 \<Rightarrow> slot_status \<Rightarrow> efi_status \<times> namespace_index" where
  "ChangeSlotStatus pIndex SlotNumber NewStatus =
     (let BlockNumber = unat (SlotNumber div 8);
          BitNumber = unat (SlotNumber mod 8);
          Block = nFree pIndex ! BlockNumber
      in case NewStatus of
           SLOT_FREE \<Rightarrow> (EFI_SUCCESS, pIndex\<lparr>nFree := (nFree pIndex)[BlockNumber := Block OR push_bit BitNumber 1]\<rparr>)
         | SLOT_USED \<Rightarrow> (EFI_SUCCESS, pIndex\<lparr>nFree := (nFree pIndex)[BlockNumber := Block AND NOT (push_bit BitNumber 1)]\<rparr>)
         | SLOT_UNKNOWN \<Rightarrow> (EFI_INVALID_PARAMETER, pIndex))"

text \<open>The bitmap as a set of slots.\<close>

definition slot_free :: "namespace_index \<Rightarrow> nat \<Rightarrow> bool" where
  "slot_free i k \<longleftrightarrow> k div 8 < length (nFree i) \<and> bit (nFree i ! (k div 8)) (k mod 8)"

lemma slot_numbers:
  assumes "k < 65536"
  shows "unat ((of_nat k :: u16) div 8) = k div 8" and "unat ((of_nat k :: u16) mod 8) = k mod 8"
  using assms by (simp_all add: unat_div unat_mod unsigned_of_nat take_bit_nat_eq_self)

lemma CheckSlotStatus_iff:
  assumes "k < 65536" and "k div 8 < length (nFree i)"
  shows "CheckSlotStatus i (of_nat k) = (if slot_free i k then SLOT_FREE else SLOT_USED)"
  using assms by (simp add: CheckSlotStatus_def slot_numbers slot_free_def and_exp_eq_0_iff_not_bit)

lemma ChangeSlotStatus_free:
  assumes "k < 65536" and "k div 8 < length (nFree i)" and "st \<noteq> SLOT_UNKNOWN"
  shows "fst (ChangeSlotStatus i (of_nat k) st) = EFI_SUCCESS"
    and "slot_free (snd (ChangeSlotStatus i (of_nat k) st)) = (slot_free i)(k := (st = SLOT_FREE))"
    and "length (nFree (snd (ChangeSlotStatus i (of_nat k) st))) = length (nFree i)"
proof -
  have eq: "j = k" if "j div 8 = k div 8" "j mod 8 = k mod 8" for j
    using that by (metis div_mult_mod_eq)
  show "fst (ChangeSlotStatus i (of_nat k) st) = EFI_SUCCESS"
    and "length (nFree (snd (ChangeSlotStatus i (of_nat k) st))) = length (nFree i)"
    using assms(3) by (cases st; simp add: ChangeSlotStatus_def Let_def)+
  show "slot_free (snd (ChangeSlotStatus i (of_nat k) st)) = (slot_free i)(k := (st = SLOT_FREE))"
  proof
    fix j
    show "slot_free (snd (ChangeSlotStatus i (of_nat k) st)) j = ((slot_free i)(k := (st = SLOT_FREE))) j"
    proof (cases "j div 8 = k div 8")
      case True
      then show ?thesis using assms eq [OF True] unfolding slot_free_def
        by (cases st; cases "j = k")
          (auto simp: ChangeSlotStatus_def Let_def slot_numbers bit_or_iff bit_and_iff bit_not_iff bit_exp_iff possible_bit_word)
    next
      case False
      then have "j \<noteq> k" by auto
      with False assms show ?thesis
        by (cases st) (auto simp: ChangeSlotStatus_def Let_def slot_numbers slot_free_def)
    qed
  qed
qed

section \<open>Free slots\<close>

text \<open>
  \<open>GetLsaFreeSlots\<close> counts the free slots of the current index block and finds the first. The loop
  counter is a \<open>UINT16\<close>; with 65536 labels or more the loop does not end, which is \<open>None\<close>.
\<close>

fun FreeSlotsLoop :: "namespace_index \<Rightarrow> nat \<Rightarrow> nat \<Rightarrow> u16 \<Rightarrow> u16 \<Rightarrow> u16 \<times> u16" where
  "FreeSlotsLoop idx k 0 cnt first = (cnt, first)"
| "FreeSlotsLoop idx k (Suc n) cnt first =
     (if CheckSlotStatus idx (of_nat k) = SLOT_FREE
      then FreeSlotsLoop idx (Suc k) n (cnt + 1) (if first = UNDEFINED_SLOT_ID then of_nat k else first)
      else FreeSlotsLoop idx (Suc k) n cnt first)"

definition GetLsaFreeSlots :: "lsa \<Rightarrow> (efi_status \<times> u16 \<times> u16) option" where
  "GetLsaFreeSlots pLsa =
     (case GetLsaIndexes pLsa of
        Inl e \<Rightarrow> Some (e, 0, UNDEFINED_SLOT_ID)
      | Inr (CurrentIndex, _) \<Rightarrow>
          let idx = Index pLsa ! CurrentIndex; n = unat (nNumberOfLabels idx)
          in if 65536 \<le> n then None
             else Some (EFI_SUCCESS, FreeSlotsLoop idx 0 n 0 UNDEFINED_SLOT_ID))"

section \<open>Layout of the index area\<close>

definition LABELS_TO_FREE_BYTES :: "'a::len word \<Rightarrow> 'a word" where
  "LABELS_TO_FREE_BYTES a = drop_bit 3 a"

definition FREE_BLOCKS_TO_LABELS :: "'a::len word \<Rightarrow> 'a word" where
  "FREE_BLOCKS_TO_LABELS a = push_bit 3 a"

text \<open>\<open>128 << LabelSize\<close> is computed in \<open>int\<close>; the sizes in use are 0 and 1.\<close>

definition INDEX_LABEL_SIZE_TO_BYTE :: "u8 \<Rightarrow> u64" where
  "INDEX_LABEL_SIZE_TO_BYTE a = scast (push_bit (unat a) (128 :: u32))"

definition BYTE_TO_INDEX_LABEL_SIZE :: "u32 \<Rightarrow> u8" where
  "BYTE_TO_INDEX_LABEL_SIZE a = ucast (drop_bit 8 a)"

text \<open>Bytes of the bitmap of an index block.\<close>

definition num_free_bytes :: "namespace_index \<Rightarrow> u64" where
  "num_free_bytes i = ucast (LABELS_TO_FREE_BYTES (ROUNDUP (nNumberOfLabels i) NSINDEX_FREE_ALIGN))"

text \<open>\<open>AlignLabelStorageArea\<close>: its status is \<open>EFI_INVALID_PARAMETER\<close> on every path.\<close>

definition AlignLabelStorageArea :: "u32 \<Rightarrow> bool \<Rightarrow> efi_status \<times> u32 \<times> u32" where
  "AlignLabelStorageArea PcdSize UseLatestLabelVersion =
     (let LabelSize = (if UseLatestLabelVersion then 256 else 128);
          TotalLabels = PcdSize div LabelSize;
          FreeBlocks = LABELS_TO_FREE_BYTES TotalLabels;
          IndexSize = (if MIN_NAMESPACE_LABEL_INDEX_SIZE < FREE_OFFSET + FreeBlocks
             then ROUNDUP (FREE_OFFSET + FreeBlocks) 256 else MIN_NAMESPACE_LABEL_INDEX_SIZE)
      in (EFI_INVALID_PARAMETER, FreeBlocks, IndexSize - (FREE_OFFSET + FreeBlocks)))"

text \<open>One index block as it is copied into the raw buffer.\<close>

definition index_raw :: "u64 \<Rightarrow> namespace_index \<Rightarrow> u8 list" where
  "index_raw n i = index_header i @ take (unat n) (nFree i)"

text \<open>
  \<open>LabelIndexAreaToRawData\<close> on a buffer that the pool provides (\<open>ok\<close>): the blocks from \<open>LabelIndex\<close>,
  or both, one behind the other. The byte count of the bitmap is that of the first block copied.
\<close>

definition LabelIndexAreaToRawData :: "lsa \<Rightarrow> nat \<Rightarrow> bool \<Rightarrow> efi_status \<times> u8 list option" where
  "LabelIndexAreaToRawData pLsa LabelIndex ok =
     (let i = Index pLsa ! (if LabelIndex = ALL_INDEX_BLOCKS then 0 else LabelIndex);
          IndexSize = nMySize i;
          n = num_free_bytes i
      in if IndexSize = 0 then (EFI_INVALID_PARAMETER, None)
         else
           let TotalIndexSize = (if LabelIndex = ALL_INDEX_BLOCKS then 2 * IndexSize else IndexSize)
           in if \<not> ok then (EFI_OUT_OF_RESOURCES, None)
              else
                let buf = replicate (unat TotalIndexSize) 0;
                    buf0 = patch buf 0 (index_header i)
                in if TotalIndexSize < FREE_OFFSET then (EFI_BAD_BUFFER_SIZE, Some buf0)
                   else
                     let buf1 = patch buf 0 (index_raw n i)
                     in if LabelIndex \<noteq> ALL_INDEX_BLOCKS then (EFI_SUCCESS, Some buf1)
                        else
                          let j = Index pLsa ! 1
                          in if TotalIndexSize - nMySize i < FREE_OFFSET
                             then (EFI_BAD_BUFFER_SIZE, Some (patch buf1 (unat (nMySize i)) (index_header j)))
                             else (EFI_SUCCESS, Some (patch buf1 (unat (nMySize i)) (index_raw n j))))"

text \<open>
  \<open>RawDataToLabelIndexArea\<close>: \<open>oks\<close> says whether the pool provides the two bitmaps. The sizes come
  from the first index block.
\<close>

definition RawDataToLabelIndexArea :: "u8 list \<Rightarrow> u32 \<Rightarrow> bool \<times> bool \<Rightarrow> lsa \<Rightarrow> efi_status \<times> lsa" where
  "RawDataToLabelIndexArea pRawData PcdLsaPartitionSize oks pLsa =
     (let raw = parse_index pRawData [];
          IndexSize = nMySize raw
      in if IndexSize = 0 then (EFI_SUCCESS, pLsa)
         else
           let LabelSize = INDEX_LABEL_SIZE_TO_BYTE (nLabelSize raw);
               TotalSize = IndexSize * 2 + LabelSize * ucast (nNumberOfLabels raw);
               NumFreeBytes = num_free_bytes raw;
               CalculatedIndexSize = ROUNDUP (FREE_OFFSET + NumFreeBytes) NSINDEX_ALIGN;
               block = (\<lambda>k. let b = drop (k * unat IndexSize) pRawData
                  in parse_index b (take (unat NumFreeBytes) (drop 72 b)))
           in if IndexSize \<noteq> CalculatedIndexSize then (EFI_VOLUME_CORRUPTED, pLsa)
              else if ucast PcdLsaPartitionSize < TotalSize then (EFI_VOLUME_CORRUPTED, pLsa)
              else if \<not> fst oks then
                (EFI_OUT_OF_RESOURCES, pLsa\<lparr>Index := (Index pLsa)[0 := (block 0)\<lparr>nFree := []\<rparr>]\<rparr>)
              else if \<not> snd oks then
                (EFI_OUT_OF_RESOURCES, pLsa\<lparr>Index := [block 0, (block 1)\<lparr>nFree := []\<rparr>]\<rparr>)
              else (EFI_SUCCESS, pLsa\<lparr>Index := [block 0, block 1]\<rparr>))"

section \<open>Validation and update of index blocks\<close>

text \<open>
  The checks of \<open>ValidateLsaData\<close> on one index block: \<open>Inl\<close> is the status of a failing conversion,
  which ends the validation; \<open>Inr\<close> says whether the block is valid. \<open>NvmWorkarounds.h\<close> defines
  \<open>WA_SKIP_LSA_CHECKSUM_FAIL\<close>, so a checksum that does not match is logged and has no effect.
\<close>

definition ValidateIndex :: "lsa \<Rightarrow> nat \<Rightarrow> bool \<Rightarrow> efi_status + bool" where
  "ValidateIndex pLsa k ok =
     (let i = Index pLsa ! k
      in if nSignature i \<noteq> LSA_NAMESPACE_INDEX_SIG then Inr False
         else case LabelIndexAreaToRawData pLsa k ok of
           (rc, None) \<Rightarrow> Inl rc
         | (rc, Some raw) \<Rightarrow>
             if EFI_ERROR rc then Inl rc
             else Inr (nMyOffset i = of_nat k * nMySize i
                 \<and> nOtherOffset i = (if k = 0 then nMySize i else 0)
                 \<and> nSequence i \<noteq> 0 \<and> nSequence i \<le> 3
                 \<and> nMajor i = NSINDEX_MAJOR
                 \<and> (nMinor i = NSINDEX_MINOR_1 \<or> nMinor i = NSINDEX_MINOR_2)
                 \<and> (NSINDEX_MINOR_2 \<le> nMinor i \<longrightarrow> nLabelSize i \<noteq> 0 \<and> nLabelSize i = BYTE_TO_INDEX_LABEL_SIZE 256)))"

text \<open>\<open>oks\<close>: the pool provides the empty area, and the raw buffers of the two blocks.\<close>

definition ValidateLsaData :: "lsa \<Rightarrow> bool \<times> bool \<times> bool \<Rightarrow> efi_status" where
  "ValidateLsaData pLsa oks =
     (if \<not> fst oks then EFI_OUT_OF_RESOURCES
      else if Index pLsa = [zero_index, zero_index] \<and> pLabels pLsa = [] then EFI_NOT_FOUND
      else case ValidateIndex pLsa 0 (fst (snd oks)) of
        Inl rc \<Rightarrow> rc
      | Inr v0 \<Rightarrow> (case ValidateIndex pLsa 1 (snd (snd oks)) of
          Inl rc \<Rightarrow> rc
        | Inr v1 \<Rightarrow> if \<not> v0 \<and> \<not> v1 then EFI_VOLUME_CORRUPTED else EFI_SUCCESS))"

definition UpdateLsaIndex :: "lsa \<Rightarrow> bool \<Rightarrow> efi_status \<times> lsa" where
  "UpdateLsaIndex pLsa ok =
     (case GetLsaIndexes pLsa of
        Inl e \<Rightarrow> (e, pLsa)
      | Inr (CurrentIndex, NextIndex) \<Rightarrow>
          let cur = Index pLsa ! CurrentIndex;
              nxt = (Index pLsa ! NextIndex)\<lparr>nSequence := NextSequence (nSequence cur)\<rparr>;
              pLsa = pLsa\<lparr>Index := (Index pLsa)[NextIndex := nxt]\<rparr>
          in case LabelIndexAreaToRawData pLsa NextIndex ok of
               (rc, None) \<Rightarrow> (rc, pLsa)
             | (rc, Some raw) \<Rightarrow>
                 if EFI_ERROR rc then (rc, pLsa)
                 else
                   let (inserted, raw) = ChecksumOperations raw (unat (nMySize cur)) CHECKSUM_OFFSET True;
                       nxt = nxt\<lparr>nChecksum := get64 CHECKSUM_OFFSET raw\<rparr>;
                       pLsa = pLsa\<lparr>Index := (Index pLsa)[NextIndex := nxt]\<rparr>
                   in if \<not> inserted then (EFI_OUT_OF_RESOURCES, pLsa) else (EFI_SUCCESS, pLsa))"

end
