(* ===== verification/Label_Store.thy ===== *)
theory Label_Store
  imports Label_Area "HOL-Library.Monad_Syntax"
begin

text \<open>
  The label storage area on a DIMM: access to the platform configuration data partition
  (\<open>DcpmPkg/driver/Core/Dimm.c\<close>), reading, writing and initialising the area, and inserting,
  modifying and removing labels (\<open>DcpmPkg/driver/Core/Namespace.c\<close>).

  The model is that of the UEFI driver (no \<open>OS_BUILD\<close>, no PCD cache), for which \<open>CopyMem_S\<close> is a plain
  copy. Operations that may fail to return (a loop that does not end, a NULL dereference, a stack
  array overrun) have an \<open>option\<close> result, where \<open>None\<close> stands for that.
\<close>

section \<open>State\<close>

datatype lsa_status = LSA_OK | LSA_CORRUPTED | LSA_COULD_NOT_INIT | LSA_CORRUPTED_AFTER_INIT
  | LSA_COULD_NOT_READ_NAMESPACES | LSA_NOT_INIT

text \<open>
  \<open>Manageable\<close>: the DIMM is found and manageable. \<open>AttribsStatus\<close>: what opening the configuration
  protocol and asking for its transport attributes returns. \<open>SizeQuery\<close>: the answer to the partition
  size command. \<open>pcd\<close> is the partition inside the DIMM, \<open>fw_results\<close> the status of the next
  firmware commands (all succeed once the list is used up), \<open>pool\<close> whether the next allocations
  succeed, \<open>pool_slack\<close> the bytes that lie behind a buffer of the pool.
\<close>

record dimm =
  Manageable :: bool
  LargePayload :: bool
  PcdLsaPartitionSize :: u32
  AttribsStatus :: efi_status
  SizeQuery :: "efi_status \<times> u32"
  LsaStatus :: lsa_status
  pcd :: memory
  fw_results :: "efi_status list"
  pool :: "bool list"
  pool_slack :: "nat \<Rightarrow> u8"

definition pool_alloc :: "dimm \<Rightarrow> bool \<times> dimm" where
  "pool_alloc d = (case pool d of [] \<Rightarrow> (True, d) | b # bs \<Rightarrow> (b, d\<lparr>pool := bs\<rparr>))"

definition fw_command :: "dimm \<Rightarrow> efi_status \<times> dimm" where
  "fw_command d = (case fw_results d of [] \<Rightarrow> (EFI_SUCCESS, d) | r # rs \<Rightarrow> (r, d\<lparr>fw_results := rs\<rparr>))"

abbreviation (input) PCD_PARTITION_SIZE :: u32 where "PCD_PARTITION_SIZE \<equiv> 0x20000"
abbreviation (input) PCD_SET_SMALL_PAYLOAD_DATA_SIZE :: nat where "PCD_SET_SMALL_PAYLOAD_DATA_SIZE \<equiv> 64"
abbreviation (input) PCD_GET_SMALL_PAYLOAD_DATA_SIZE :: nat where "PCD_GET_SMALL_PAYLOAD_DATA_SIZE \<equiv> 128"

section \<open>Access to the partition\<close>

text \<open>The chunk loops: \<open>k\<close> chunks from \<open>off\<close> on, ending at the first command that fails.\<close>

fun GetChunks :: "nat \<Rightarrow> nat \<Rightarrow> u8 list \<Rightarrow> dimm \<Rightarrow> efi_status \<times> u8 list \<times> dimm" where
  "GetChunks 0 off raw d = (EFI_SUCCESS, raw, d)"
| "GetChunks (Suc k) off raw d =
     (let (rc, d) = fw_command d
      in if EFI_ERROR rc then (rc, raw, d)
         else GetChunks k (off + PCD_GET_SMALL_PAYLOAD_DATA_SIZE)
                (patch raw off (mem_read (pcd d) off PCD_GET_SMALL_PAYLOAD_DATA_SIZE)) d)"

fun SetChunks :: "nat \<Rightarrow> nat \<Rightarrow> u8 list \<Rightarrow> dimm \<Rightarrow> efi_status \<times> dimm" where
  "SetChunks 0 off raw d = (EFI_SUCCESS, d)"
| "SetChunks (Suc k) off raw d =
     (let (rc, d) = fw_command d
      in if EFI_ERROR rc then (rc, d)
         else SetChunks k (off + PCD_SET_SMALL_PAYLOAD_DATA_SIZE) (drop PCD_SET_SMALL_PAYLOAD_DATA_SIZE raw)
                (d\<lparr>pcd := mem_write (pcd d) off (take PCD_SET_SMALL_PAYLOAD_DATA_SIZE raw)\<rparr>))"

text \<open>
  The partition size, asked for when it is not known: \<open>Inl\<close> ends the caller with that status, which
  is \<open>EFI_SUCCESS\<close> when the answer is zero.
\<close>

definition QueryPcdSize :: "dimm \<Rightarrow> (efi_status + u32) \<times> dimm" where
  "QueryPcdSize d =
     (if PcdLsaPartitionSize d \<noteq> 0 then (Inr (PcdLsaPartitionSize d), d)
      else
        let (rc, n) = SizeQuery d
        in if EFI_ERROR rc \<or> n = 0 then (Inl rc, d) else (Inr n, d\<lparr>PcdLsaPartitionSize := n\<rparr>))"

definition FwGetPCDFromOffsetSmallPayload ::
  "u32 \<Rightarrow> u32 \<Rightarrow> u8 list option \<Rightarrow> dimm \<Rightarrow> efi_status \<times> u8 list option \<times> dimm" where
  "FwGetPCDFromOffsetSmallPayload ReqOffset ReqDataSize raw d =
     (let StartingPageOffset = (ReqOffset div 128) * 128
      in if ReqDataSize = 0 then (EFI_INVALID_PARAMETER, raw, d)
         else case QueryPcdSize d of
           (Inl rc, d) \<Rightarrow> (rc, raw, d)
         | (Inr PcdSize, d) \<Rightarrow>
             if PcdSize < StartingPageOffset + ReqDataSize then (EFI_BUFFER_TOO_SMALL, raw, d)
             else
               let (ok, d) = (if raw = None then pool_alloc d else (True, d))
               in if \<not> ok then (EFI_OUT_OF_RESOURCES, None, d)
                  else
                    let buf = (case raw of None \<Rightarrow> replicate (unat PcdSize) 0 | Some r \<Rightarrow> r);
                        (ok, d) = pool_alloc d
                    in if \<not> ok then (EFI_OUT_OF_RESOURCES, Some buf, d)
                       else
                         let (rc, buf, d) = GetChunks ((unat (ReqOffset + ReqDataSize) + 127 - unat StartingPageOffset) div 128)
                                (unat StartingPageOffset) buf d
                         in (rc, Some buf, d))"

definition FwSetPCDFromOffsetSmallPayload :: "u8 list \<Rightarrow> u32 \<Rightarrow> u32 \<Rightarrow> dimm \<Rightarrow> efi_status \<times> dimm" where
  "FwSetPCDFromOffsetSmallPayload pRawData ReqOffset ReqDataSize d =
     (if PCD_PARTITION_SIZE < ReqOffset + ReqDataSize \<or> ReqDataSize = 0 \<or> ReqOffset mod 64 \<noteq> 0 \<or> ReqDataSize mod 64 \<noteq> 0
      then (EFI_INVALID_PARAMETER, d)
      else if PcdLsaPartitionSize d = 0 then (EFI_BAD_BUFFER_SIZE, d)
      else
        let (ok, d) = pool_alloc d
        in if \<not> ok then (EFI_OUT_OF_RESOURCES, d)
           else SetChunks ((unat (ReqOffset + ReqDataSize) - unat ReqOffset) div 64) (unat ReqOffset) pRawData d)"

text \<open>\<open>FwCmdGetPlatformConfigData\<close> on the LSA partition.\<close>

definition FwCmdGetPlatformConfigData :: "dimm \<Rightarrow> efi_status \<times> u8 list option \<times> dimm" where
  "FwCmdGetPlatformConfigData d =
     (case QueryPcdSize d of
        (Inl rc, d) \<Rightarrow> (rc, None, d)
      | (Inr PcdSize, d) \<Rightarrow>
          let (ok, d) = pool_alloc d
          in if \<not> ok then (EFI_OUT_OF_RESOURCES, None, d)
             else
               let zero = replicate (unat PcdSize) 0;
                   (ok, d) = pool_alloc d
               in if \<not> ok then (EFI_OUT_OF_RESOURCES, Some zero, d)
                  else if EFI_ERROR (AttribsStatus d) then (AttribsStatus d, Some zero, d)
                  else if \<not> LargePayload d then
                    let (ok, d) = pool_alloc d
                    in if \<not> ok then (EFI_OUT_OF_RESOURCES, Some zero, d)
                       else
                         let (rc, buf, d) = GetChunks ((unat PcdSize + 127) div 128) 0 zero d
                         in if EFI_ERROR rc then (rc, Some zero, d) else (rc, Some (take (unat PcdSize) buf), d)
                  else
                    let (rc, d) = fw_command d
                    in if EFI_ERROR rc then (rc, Some zero, d) else (rc, Some (mem_read (pcd d) 0 (unat PcdSize)), d))"

text \<open>
  \<open>FwCmdSetPlatformConfigData\<close> on the LSA partition: \<open>RawDataSize\<close> bytes from the buffer on, followed
  by zeros up to the partition size. The copy does not know how long the buffer is.
\<close>

definition FwCmdSetPlatformConfigData :: "u8 list \<Rightarrow> u32 \<Rightarrow> dimm \<Rightarrow> efi_status \<times> dimm" where
  "FwCmdSetPlatformConfigData pRawData RawDataSize d =
     (if PCD_PARTITION_SIZE < RawDataSize \<or> RawDataSize = 0 then (EFI_INVALID_PARAMETER, d)
      else
        let PcdSize = PcdLsaPartitionSize d
        in if PcdSize = 0 then (EFI_INVALID_PARAMETER, d)
           else if PcdSize < RawDataSize then (EFI_INVALID_PARAMETER, d)
           else
             let (ok, d) = pool_alloc d
             in if \<not> ok then (EFI_OUT_OF_RESOURCES, d)
                else
                  let (ok, d) = pool_alloc d
                  in if \<not> ok then (EFI_OUT_OF_RESOURCES, d)
                     else
                       let pPartition = patch (replicate (unat PcdSize) 0) 0 (take (unat RawDataSize) (pRawData @ map (pool_slack d) [0..<unat RawDataSize]))
                       in if EFI_ERROR (AttribsStatus d) then (AttribsStatus d, d)
                          else if \<not> LargePayload d then SetChunks ((unat PcdSize + 63) div 64) 0 pPartition d
                          else
                            let (rc, d) = fw_command d
                            in if EFI_ERROR rc then (rc, d)
                               else (rc, d\<lparr>pcd := mem_write (pcd d) 0 (take (unat PcdSize) pPartition)\<rparr>))"

section \<open>Reading the area\<close>

definition label_version_1_1 :: "namespace_index \<Rightarrow> bool" where
  "label_version_1_1 i \<longleftrightarrow> nMajor i = NSINDEX_MAJOR \<and> nMinor i = NSINDEX_MINOR_1"

text \<open>\<open>sizeof(NAMESPACE_LABEL_1_1)\<close> or \<open>sizeof(NAMESPACE_LABEL)\<close>.\<close>

definition page_size :: "namespace_index \<Rightarrow> nat" where
  "page_size i = (if label_version_1_1 i then 128 else 256)"

text \<open>A label copied over a zeroed structure: a version 1.1 label fills its first half.\<close>

definition label_page :: "nat \<Rightarrow> u8 list \<Rightarrow> namespace_label" where
  "label_page PageSize bs = parse_label (take PageSize bs @ replicate (256 - PageSize) 0)"

text \<open>
  The loop over the used slots with small payloads, from slot \<open>k\<close> on. The status of the single
  reads is not looked at.
\<close>

fun ReadLabelsSmall :: "namespace_index \<Rightarrow> u64 \<Rightarrow> nat \<Rightarrow> nat \<Rightarrow> u8 list \<Rightarrow> dimm \<Rightarrow> namespace_label list \<times> dimm" where
  "ReadLabelsSmall idx LabelIndexSize k 0 raw d = ([], d)"
| "ReadLabelsSmall idx LabelIndexSize k (Suc n) raw d =
     (if \<not> bit (nFree idx ! (k div 8)) (k mod 8) then
        let Offset = ucast (LabelIndexSize + of_nat (page_size idx) * of_nat k) :: u32;
            (_, raw', d) = FwGetPCDFromOffsetSmallPayload Offset (of_nat (page_size idx)) (Some raw) d;
            buf = (case raw' of None \<Rightarrow> raw | Some r \<Rightarrow> r);
            (ls, d) = ReadLabelsSmall idx LabelIndexSize (Suc k) n buf d
        in (label_page (page_size idx) (drop (unat Offset) buf) # ls, d)
      else
        let (ls, d) = ReadLabelsSmall idx LabelIndexSize (Suc k) n raw d
        in (zero_label # ls, d))"

text \<open>The first transfer of \<open>ReadLabelStorageArea\<close>; \<open>None\<close> is the read through a NULL buffer.\<close>

definition ReadIndexArea :: "dimm \<Rightarrow> (efi_status \<times> u8 list option \<times> dimm) option" where
  "ReadIndexArea d =
     (if LargePayload d then Some (FwCmdGetPlatformConfigData d)
      else case FwGetPCDFromOffsetSmallPayload 0 176 None d of
        (rc, raw, d) \<Rightarrow>
          if rc = EFI_SUCCESS then
            (case raw of
               None \<Rightarrow> None
             | Some r \<Rightarrow>
                 Some (FwGetPCDFromOffsetSmallPayload 176
                   (176 + 2 * LABELS_TO_FREE_BYTES (ROUNDUP (get32 56 r) NSINDEX_FREE_ALIGN)) raw d))
          else Some (rc, raw, d))"

definition ReadLabelStorageArea :: "dimm \<Rightarrow> (efi_status \<times> lsa option \<times> dimm) option" where
  "ReadLabelStorageArea d =
     (if \<not> Manageable d then Some (EFI_INVALID_PARAMETER, None, d)
      else if EFI_ERROR (AttribsStatus d) then Some (AttribsStatus d, None, d)
      else do {
        (rc, raw, d) \<leftarrow> ReadIndexArea d;
        if EFI_ERROR rc then Some (rc, None, d)
        else
          let (ok, d) = pool_alloc d
          in if \<not> ok then Some (EFI_OUT_OF_RESOURCES, None, d)
             else case raw of
               None \<Rightarrow> Some (EFI_INVALID_PARAMETER, None, d)
             | Some raw \<Rightarrow>
                 let (ok0, d) = pool_alloc d;
                     (ok1, d) = pool_alloc d;
                     (rc, pLsa) = RawDataToLabelIndexArea raw (PcdLsaPartitionSize d) (ok0, ok1) zero_lsa
                 in if EFI_ERROR rc then Some (rc, None, d)
                    else
                      let (v0, d) = pool_alloc d; (v1, d) = pool_alloc d; (v2, d) = pool_alloc d;
                          rc = ValidateLsaData pLsa (v0, v1, v2)
                      in if EFI_ERROR rc then Some (rc, None, d)
                         else case GetLsaIndexes pLsa of
                           Inl rc \<Rightarrow> Some (rc, None, d)
                         | Inr (CurrentIndex, _) \<Rightarrow>
                             let idx = Index pLsa ! CurrentIndex;
                                 LabelIndexSize = 2 * nMySize idx;
                                 n = unat (nNumberOfLabels idx);
                                 (ok, d) = pool_alloc d
                             in if \<not> ok then Some (EFI_SUCCESS, None, d)
                                else
                                  let (ls, d) =
                                        (if \<not> LargePayload d then ReadLabelsSmall idx LabelIndexSize 0 n raw d
                                         else (map (\<lambda>k. label_page (page_size idx)
                                                     (drop (unat LabelIndexSize + page_size idx * k) raw)) [0..<n], d))
                                  in Some (EFI_SUCCESS, Some (pLsa\<lparr>pLabels := ls\<rparr>), d)
      })"

section \<open>Writing the area\<close>

fun WriteLabelsSmall :: "namespace_index \<Rightarrow> namespace_label list \<Rightarrow> u64 \<Rightarrow> nat \<Rightarrow> nat \<Rightarrow> dimm \<Rightarrow> efi_status \<times> dimm" where
  "WriteLabelsSmall idx labels LabelIndexSize k 0 d = (EFI_SUCCESS, d)"
| "WriteLabelsSmall idx labels LabelIndexSize k (Suc n) d =
     (if \<not> bit (nFree idx ! (k div 8)) (k mod 8) then
        let (rc, d) = FwSetPCDFromOffsetSmallPayload (take (page_size idx) (label_bytes (labels ! k)))
               (ucast (LabelIndexSize + of_nat (page_size idx) * of_nat k)) (of_nat (page_size idx)) d
        in if EFI_ERROR rc then (rc, d) else WriteLabelsSmall idx labels LabelIndexSize (Suc k) n d
      else WriteLabelsSmall idx labels LabelIndexSize (Suc k) n d)"

text \<open>
  The result of \<open>GetLsaIndexes\<close> is not looked at: without a current index block the first is taken. A
  DIMM that is not manageable ends the function with the \<open>EFI_SUCCESS\<close> of the validation.
\<close>

definition WriteLabelStorageArea :: "lsa \<Rightarrow> dimm \<Rightarrow> efi_status \<times> dimm" where
  "WriteLabelStorageArea pLsa d =
     (let (v0, d) = pool_alloc d; (v1, d) = pool_alloc d; (v2, d) = pool_alloc d;
          rc = ValidateLsaData pLsa (v0, v1, v2)
      in if EFI_ERROR rc then (rc, d)
         else if \<not> Manageable d then (EFI_SUCCESS, d)
         else
           let idx = Index pLsa ! (case GetLsaIndexes pLsa of Inl _ \<Rightarrow> 0 | Inr (c, _) \<Rightarrow> c);
               LabelIndexSize = 2 * nMySize idx;
               n = unat (nNumberOfLabels idx);
               TotalPcdSize = LabelIndexSize + 256 * ucast (nNumberOfLabels idx)
           in if EFI_ERROR (AttribsStatus d) then (AttribsStatus d, d)
              else
                let (ok, d) = (if LargePayload d then pool_alloc d else (True, d))
                in if \<not> ok then (EFI_OUT_OF_RESOURCES, d)
                   else
                     let (ok, d) = pool_alloc d
                     in case LabelIndexAreaToRawData pLsa ALL_INDEX_BLOCKS ok of
                       (rc, None) \<Rightarrow> (rc, d)
                     | (rc, Some area) \<Rightarrow>
                         if EFI_ERROR rc then (rc, d)
                         else if \<not> LargePayload d then
                           let (rc, d) = FwSetPCDFromOffsetSmallPayload area 0 (ucast LabelIndexSize) d
                           in if EFI_ERROR rc then (rc, d)
                              else WriteLabelsSmall idx (pLabels pLsa) LabelIndexSize 0 n d
                         else
                           let raw = patch (replicate (unat TotalPcdSize) 0) 0 (take (unat LabelIndexSize) area);
                               raw = patch raw (unat LabelIndexSize)
                                       (concat (map (\<lambda>k. take (page_size idx) (label_bytes (pLabels pLsa ! k))) [0..<n]))
                           in FwCmdSetPlatformConfigData raw (PcdLsaPartitionSize d) d)"

definition ZeroLabelStorageArea :: "dimm \<Rightarrow> efi_status \<times> dimm" where
  "ZeroLabelStorageArea d =
     (if \<not> Manageable d then (EFI_INVALID_PARAMETER, d)
      else
        let (ok, d) = pool_alloc d
        in if \<not> ok then (EFI_OUT_OF_RESOURCES, d)
           else FwCmdSetPlatformConfigData (replicate (unat (PcdLsaPartitionSize d)) 0) (PcdLsaPartitionSize d) d)"

section \<open>Initialisation\<close>

text \<open>The fields that both index blocks share, for a block that has been read as empty.\<close>

definition NewIndex :: "u16 \<Rightarrow> u16 \<Rightarrow> u32 \<Rightarrow> u32 \<Rightarrow> u32 \<Rightarrow> namespace_index" where
  "NewIndex Major Minor FreeBlocks Padding LabelSize =
     (let MySize = FREE_OFFSET + ucast FreeBlocks + ucast Padding :: u64
      in zero_index\<lparr>nMySize := MySize, nLabelOffset := 2 * MySize,
           nNumberOfLabels := FREE_BLOCKS_TO_LABELS FreeBlocks - ucast (MySize div ucast LabelSize) * 2,
           nMajor := Major, nMinor := Minor, nFree := replicate (unat FreeBlocks) 0xFF,
           nSignature := LSA_NAMESPACE_INDEX_SIG, nLabelSize := BYTE_TO_INDEX_LABEL_SIZE LabelSize\<rparr>)"

text \<open>Numbering and sealing one of the two blocks; \<open>ok\<close>: the pool provides the raw buffer.\<close>

definition SealIndex :: "nat \<Rightarrow> u32 \<Rightarrow> lsa \<Rightarrow> bool \<Rightarrow> efi_status \<times> lsa" where
  "SealIndex k Sequence pLsa ok =
     (let i = Index pLsa ! k;
          i = i\<lparr>nSequence := Sequence, nMyOffset := (if k = 0 then 0 else nMySize i),
                nOtherOffset := (if k = 0 then nMySize i else 0)\<rparr>;
          pLsa = pLsa\<lparr>Index := (Index pLsa)[k := i]\<rparr>
      in case LabelIndexAreaToRawData pLsa k ok of
           (rc, None) \<Rightarrow> (rc, pLsa)
         | (rc, Some raw) \<Rightarrow>
             if EFI_ERROR rc then (rc, pLsa)
             else
               let (inserted, raw) = ChecksumOperations raw (unat (nMySize i)) CHECKSUM_OFFSET True
               in if \<not> inserted then (EFI_INVALID_PARAMETER, pLsa)
                  else (EFI_SUCCESS, pLsa\<lparr>Index := (Index pLsa)[k := i\<lparr>nChecksum := get64 CHECKSUM_OFFSET raw\<rparr>]\<rparr>))"

definition InitializeLabelStorageArea :: "u16 \<Rightarrow> u16 \<Rightarrow> dimm \<Rightarrow> (efi_status \<times> dimm) option" where
  "InitializeLabelStorageArea LabelVersionMajor LabelVersionMinor d = do {
     (rc, pLsa, d) \<leftarrow> ReadLabelStorageArea d;
     if rc \<noteq> EFI_NOT_FOUND then Some (rc, d)
     else
       let (ok, d) = pool_alloc d
       in if \<not> ok then Some (EFI_OUT_OF_RESOURCES, d)
          else
            let UseLatest = (LabelVersionMajor = NSINDEX_MAJOR \<and> LabelVersionMinor = NSINDEX_MINOR_2);
                (_, FreeBlocks, Padding) = AlignLabelStorageArea (PcdLsaPartitionSize d) UseLatest
            in if FreeBlocks = 0 \<and> Padding = 0 then Some (rc, d)
               else
                 let i = NewIndex LabelVersionMajor LabelVersionMinor FreeBlocks Padding (if UseLatest then 256 else 128);
                     (ok0, d) = pool_alloc d
                 in if \<not> ok0 then Some (EFI_OUT_OF_RESOURCES, d)
                    else
                      let (ok1, d) = pool_alloc d
                      in if \<not> ok1 then Some (EFI_OUT_OF_RESOURCES, d)
                         else
                           let (ok, d) = pool_alloc d;
                               (rc, pLsa) = SealIndex 0 1 (zero_lsa\<lparr>Index := [i, i]\<rparr>) ok
                           in if EFI_ERROR rc then Some (rc, d)
                              else
                                let (ok, d) = pool_alloc d;
                                    (rc, pLsa) = SealIndex 1 2 pLsa ok
                                in if EFI_ERROR rc then Some (rc, d)
                                   else
                                     let (ok, d) = pool_alloc d
                                     in if \<not> ok then Some (EFI_OUT_OF_RESOURCES, d)
                                        else Some (WriteLabelStorageArea
                                          (pLsa\<lparr>pLabels := replicate (unat (nNumberOfLabels (Index pLsa ! 0))) zero_label\<rparr>) d)
   }"

section \<open>Inserting, modifying and removing labels\<close>

abbreviation (input) MAX_NAMESPACE_RANGES :: nat where "MAX_NAMESPACE_RANGES \<equiv> 64"

text \<open>
  The update is prepared in the next index block: it starts from the bitmap of the current one.
\<close>

definition CopyFreeMap :: "nat \<Rightarrow> nat \<Rightarrow> lsa \<Rightarrow> lsa" where
  "CopyFreeMap CurrentIndex NextIndex pLsa =
     (let cur = Index pLsa ! CurrentIndex; nxt = Index pLsa ! NextIndex;
          FreeBlocks = unat (LABELS_TO_FREE_BYTES (ROUNDUP (nNumberOfLabels cur) 8))
      in pLsa\<lparr>Index := (Index pLsa)[NextIndex := nxt\<lparr>nFree := patch (nFree nxt) 0 (take FreeBlocks (nFree cur))\<rparr>]\<rparr>)"

definition SetSlot :: "nat \<Rightarrow> nat \<Rightarrow> slot_status \<Rightarrow> lsa \<Rightarrow> lsa" where
  "SetSlot k Slot st pLsa =
     pLsa\<lparr>Index := (Index pLsa)[k := snd (ChangeSlotStatus (Index pLsa ! k) (of_nat Slot) st)]\<rparr>"

text \<open>The labels are placed one after the other, each in the first slot that the current index block shows as free.\<close>

fun PlaceLabels :: "nat \<Rightarrow> namespace_label list \<Rightarrow> lsa \<Rightarrow> (efi_status \<times> lsa) option" where
  "PlaceLabels NextIndex [] pLsa = Some (EFI_SUCCESS, pLsa)"
| "PlaceLabels NextIndex (l # ls) pLsa = do {
     (rc, _, SlotNumber) \<leftarrow> GetLsaFreeSlots pLsa;
     if EFI_ERROR rc then Some (rc, pLsa)
     else
       let k = unat SlotNumber;
           pLsa = pLsa\<lparr>pLabels := (pLabels pLsa)[k := l\<lparr>lSlot := ucast SlotNumber\<rparr>]\<rparr>
       in PlaceLabels NextIndex ls (SetSlot NextIndex k SLOT_USED pLsa)
   }"

definition InsertIntoLsa :: "namespace_label list \<Rightarrow> dimm \<Rightarrow> (efi_status \<times> dimm) option" where
  "InsertIntoLsa labels d = do {
     (rc, lsa, d) \<leftarrow> ReadLabelStorageArea d;
     case lsa of
       None \<Rightarrow> Some (rc, d)
     | Some pLsa \<Rightarrow>
         if EFI_ERROR rc then Some (rc, d)
         else do {
           (_, FreeSlots, _) \<leftarrow> GetLsaFreeSlots pLsa;
           if unat FreeSlots < length labels + 1 then Some (EFI_OUT_OF_RESOURCES, d)
           else case GetLsaIndexes pLsa of
             Inl rc \<Rightarrow> Some (rc, d)
           | Inr (CurrentIndex, NextIndex) \<Rightarrow> do {
               (rc, pLsa) \<leftarrow> PlaceLabels NextIndex labels (CopyFreeMap CurrentIndex NextIndex pLsa);
               if EFI_ERROR rc then Some (rc, d)
               else
                 let (ok, d) = pool_alloc d;
                     (rc, pLsa) = UpdateLsaIndex pLsa ok
                 in if EFI_ERROR rc then Some (rc, d) else Some (WriteLabelStorageArea pLsa d)
             }
         }
   }"

definition InsertNamespaceLabels :: "namespace_label list \<Rightarrow> u16 \<Rightarrow> u16 \<Rightarrow> dimm \<Rightarrow> (efi_status \<times> dimm) option" where
  "InsertNamespaceLabels labels LabelVersionMajor LabelVersionMinor d =
     (if MAX_NAMESPACE_RANGES < length labels then Some (EFI_INVALID_PARAMETER, d)
      else if LsaStatus d = LSA_NOT_INIT then do {
        (rc, d) \<leftarrow> InitializeLabelStorageArea LabelVersionMajor LabelVersionMinor d;
        if EFI_ERROR rc then Some (rc, d\<lparr>LsaStatus := LSA_COULD_NOT_INIT\<rparr>)
        else do {
          (rc, _, d) \<leftarrow> ReadLabelStorageArea d;
          if EFI_ERROR rc then Some (rc, d\<lparr>LsaStatus := LSA_CORRUPTED_AFTER_INIT\<rparr>)
          else InsertIntoLsa labels (d\<lparr>LsaStatus := LSA_OK\<rparr>)
        }
      }
      else InsertIntoLsa labels d)"

text \<open>The fields that \<open>ModifyLabelAtSlot\<close> replaces in the moved label; a NULL pointer or a zero keeps the field.\<close>

definition ModifyLabel :: "u32 option \<Rightarrow> u8 list option \<Rightarrow> u16 \<Rightarrow> u16 option \<Rightarrow> u64 \<Rightarrow> namespace_label \<Rightarrow> namespace_label" where
  "ModifyLabel pFlags pName TotalLabelsNum pNewPosition NewRawSize l =
     (let l = (case pFlags of None \<Rightarrow> l | Some f \<Rightarrow> l\<lparr>lFlags := f\<rparr>);
          l = (case pName of None \<Rightarrow> l | Some n \<Rightarrow> l\<lparr>lName := patch (lName l) 0 (take 63 n)\<rparr>);
          l = (if TotalLabelsNum \<noteq> 0 then l\<lparr>lNumberOfLabels := TotalLabelsNum\<rparr> else l);
          l = (case pNewPosition of None \<Rightarrow> l | Some p \<Rightarrow> l\<lparr>lPosition := p\<rparr>)
      in if NewRawSize \<noteq> 0 then l\<lparr>lRawSize := NewRawSize\<rparr> else l)"

definition SealLabel :: "namespace_label \<Rightarrow> bool \<times> namespace_label" where
  "SealLabel l = (case ChecksumOperations (label_bytes l) 256 248 True of
     (inserted, bs) \<Rightarrow> (inserted, l\<lparr>lChecksum := get64 248 bs\<rparr>))"

definition ModifyLabelAtSlot ::
  "u16 \<Rightarrow> u32 option \<Rightarrow> u8 list option \<Rightarrow> u16 \<Rightarrow> u16 option \<Rightarrow> u64 \<Rightarrow> dimm \<Rightarrow> (efi_status \<times> dimm) option" where
  "ModifyLabelAtSlot SlotNumber pFlags pName TotalLabelsNum pNewPosition NewRawSize d = do {
     (rc, lsa, d) \<leftarrow> ReadLabelStorageArea d;
     case lsa of
       None \<Rightarrow> Some (rc, d)
     | Some pLsa \<Rightarrow>
         if EFI_ERROR rc then Some (rc, d)
         else do {
           (_, FreeSlots, NewSlot) \<leftarrow> GetLsaFreeSlots pLsa;
           if FreeSlots < 1 then Some (rc, d)
           else case GetLsaIndexes pLsa of
             Inl rc \<Rightarrow> Some (rc, d)
           | Inr (CurrentIndex, NextIndex) \<Rightarrow>
               let idx = Index pLsa ! CurrentIndex;
                   UseLatest = (nMajor idx = NSINDEX_MAJOR \<and> nMinor idx = NSINDEX_MINOR_2);
                   pLsa = CopyFreeMap CurrentIndex NextIndex pLsa;
                   l = ModifyLabel pFlags pName TotalLabelsNum pNewPosition NewRawSize
                         ((pLabels pLsa ! unat SlotNumber)\<lparr>lSlot := ucast NewSlot\<rparr>);
                   (inserted, l) = (if UseLatest then SealLabel l else (True, l))
               in if \<not> inserted then Some (EFI_INVALID_PARAMETER, d)
                  else
                    let pLsa = pLsa\<lparr>pLabels := (pLabels pLsa)[unat NewSlot := l]\<rparr>;
                        pLsa = SetSlot NextIndex (unat NewSlot) SLOT_USED pLsa;
                        pLsa = SetSlot NextIndex (unat SlotNumber) SLOT_FREE pLsa;
                        pLsa = pLsa\<lparr>pLabels := (pLabels pLsa)[unat SlotNumber := zero_label]\<rparr>;
                        (ok, d) = pool_alloc d;
                        (rc, pLsa) = UpdateLsaIndex pLsa ok
                    in if EFI_ERROR rc then Some (rc, d) else Some (WriteLabelStorageArea pLsa d)
         }
   }"

fun ModifySlots :: "u16 list \<Rightarrow> u32 option \<Rightarrow> u8 list option \<Rightarrow> u16 \<Rightarrow> dimm \<Rightarrow> (efi_status \<times> dimm) option" where
  "ModifySlots [] pFlags pName LabelsNum d = Some (EFI_SUCCESS, d)"
| "ModifySlots (k # ks) pFlags pName LabelsNum d = do {
     (rc, d) \<leftarrow> ModifyLabelAtSlot k pFlags pName LabelsNum None 0 d;
     if EFI_ERROR rc then Some (EFI_ABORTED, d) else ModifySlots ks pFlags pName LabelsNum d
   }"

text \<open>The slots of a namespace go into an array of \<open>MAX_NAMESPACE_RANGES\<close> without a bound check: \<open>None\<close> beyond it.\<close>

definition ModifyNamespaceLabels ::
  "u8 list \<Rightarrow> u32 option \<Rightarrow> u8 list option \<Rightarrow> u16 \<Rightarrow> dimm \<Rightarrow> (efi_status \<times> dimm) option" where
  "ModifyNamespaceLabels pUuid pFlags pName LabelsNum d = do {
     (rc, lsa, d) \<leftarrow> ReadLabelStorageArea d;
     case lsa of
       None \<Rightarrow> Some (rc, d)
     | Some pLsa \<Rightarrow>
         if EFI_ERROR rc then Some (rc, d)
         else do {
           (_, FreeSlots, _) \<leftarrow> GetLsaFreeSlots pLsa;
           if FreeSlots < 1 then Some (rc, d)
           else
             let n = unat (nNumberOfLabels (Index pLsa ! 0));
                 slots = filter (\<lambda>k. lUuid (pLabels pLsa ! k) = pUuid) [0..<n]
             in if 65536 \<le> n \<or> MAX_NAMESPACE_RANGES < length slots then None
                else if slots = [] then Some (rc, d)
                else ModifySlots (map of_nat slots) pFlags pName LabelsNum d
         }
   }"

text \<open>\<open>RemoveNamespaceLabels\<close>: the slots are visited in order; \<open>Dpa\<close> zero removes all labels of the namespace.\<close>

fun RemoveLoop :: "nat \<Rightarrow> u8 list \<Rightarrow> u64 \<Rightarrow> nat list \<Rightarrow> lsa \<Rightarrow> lsa" where
  "RemoveLoop NextIndex pUuid Dpa [] pLsa = pLsa"
| "RemoveLoop NextIndex pUuid Dpa (k # ks) pLsa =
     (let l = pLabels pLsa ! k
      in if lUuid l \<noteq> pUuid \<or> (Dpa \<noteq> 0 \<and> Dpa \<noteq> lDpa l) then RemoveLoop NextIndex pUuid Dpa ks pLsa
         else
           let pLsa = SetSlot NextIndex k SLOT_FREE pLsa
           in RemoveLoop NextIndex pUuid Dpa ks (pLsa\<lparr>pLabels := (pLabels pLsa)[k := zero_label]\<rparr>))"

definition RemoveNamespaceLabels :: "u8 list \<Rightarrow> u64 \<Rightarrow> dimm \<Rightarrow> (efi_status \<times> dimm) option" where
  "RemoveNamespaceLabels pUuid Dpa d = do {
     (rc, lsa, d) \<leftarrow> ReadLabelStorageArea d;
     case lsa of
       None \<Rightarrow> Some (rc, d)
     | Some pLsa \<Rightarrow>
         if EFI_ERROR rc then Some (rc, d)
         else case GetLsaIndexes pLsa of
           Inl rc \<Rightarrow> Some (rc, d)
         | Inr (CurrentIndex, NextIndex) \<Rightarrow>
             let pLsa = CopyFreeMap CurrentIndex NextIndex pLsa;
                 n = unat (nNumberOfLabels (Index pLsa ! NextIndex))
             in if 65536 \<le> n then None
                else
                  let pLsa = RemoveLoop NextIndex pUuid Dpa [0..<n] pLsa;
                      (ok, d) = pool_alloc d;
                      (rc, pLsa) = UpdateLsaIndex pLsa ok
                  in if EFI_ERROR rc then Some (rc, d) else Some (WriteLabelStorageArea pLsa d)
   }"

end
