(* ===== verification/Label_Correct.thy ===== *)
theory Label_Correct
  imports Label_Store
begin

text \<open>
  Correctness of the label storage area: the invariant of an area on a partition of at most
  128 KiB, the round trip through the partition with large and with small payloads, and the
  operations on labels as updates of a map from used slots to labels.
\<close>

section \<open>The invariant\<close>

text \<open>
  On a partition of at most 128 KiB there are at most 1020 labels, so that every index block takes
  256 bytes.
\<close>

definition index_ok :: "nat \<Rightarrow> namespace_index \<Rightarrow> bool" where
  "index_ok k i \<longleftrightarrow> index_wf i \<and> nSignature i = LSA_NAMESPACE_INDEX_SIG
   \<and> nMySize i = 256 \<and> nMyOffset i = of_nat k * 256 \<and> nOtherOffset i = (if k = 0 then 256 else 0)
   \<and> lsa_seq_valid (nSequence i) \<and> nMajor i = NSINDEX_MAJOR
   \<and> (nMinor i = NSINDEX_MINOR_1 \<and> nLabelSize i = 0 \<or> nMinor i = NSINDEX_MINOR_2 \<and> nLabelSize i = 1)
   \<and> unat (nNumberOfLabels i) \<le> 1020 \<and> length (nFree i) = (unat (nNumberOfLabels i) + 7) div 8"

definition label_ok :: "nat \<Rightarrow> namespace_label \<Rightarrow> bool" where
  "label_ok p l \<longleftrightarrow> label_wf l \<and> drop p (label_bytes l) = replicate (256 - p) 0"

text \<open>The index block in use and the area as a map from used slots to labels.\<close>

definition cur_index :: "lsa \<Rightarrow> nat" where
  "cur_index l = (case LsaSelect (nSequence (Index l ! 0)) (nSequence (Index l ! 1)) of Some c \<Rightarrow> c | None \<Rightarrow> 0)"

definition num_labels :: "lsa \<Rightarrow> nat" where
  "num_labels l = unat (nNumberOfLabels (Index l ! 0))"

definition lsa_ok :: "lsa \<Rightarrow> bool" where
  "lsa_ok l \<longleftrightarrow> length (Index l) = 2 \<and> index_ok 0 (Index l ! 0) \<and> index_ok 1 (Index l ! 1)
   \<and> nNumberOfLabels (Index l ! 1) = nNumberOfLabels (Index l ! 0) \<and> nMinor (Index l ! 1) = nMinor (Index l ! 0)
   \<and> lsa_seq.current_valid (nSequence (Index l ! 0), nSequence (Index l ! 1))
   \<and> length (pLabels l) = num_labels l \<and> (\<forall>x \<in> set (pLabels l). label_ok (page_size (Index l ! 0)) x)"

definition lsa_map :: "lsa \<Rightarrow> nat \<rightharpoonup> namespace_label" where
  "lsa_map l k = (if k < num_labels l \<and> \<not> slot_free (Index l ! cur_index l) k then Some (pLabels l ! k) else None)"

lemma page_size_cases: "index_ok k i \<Longrightarrow> page_size i = 128 \<or> page_size i = 256"
  by (simp add: page_size_def)

lemma index_ok_facts:
  assumes "index_ok k i"
  shows "num_free_bytes i = of_nat (length (nFree i))" and "length (nFree i) \<le> 128"
    and "ROUNDUP (72 + num_free_bytes i) NSINDEX_ALIGN = 256"
    and "INDEX_LABEL_SIZE_TO_BYTE (nLabelSize i) = of_nat (page_size i)"
proof -
  let ?n = "nNumberOfLabels i"
  have n: "unat ?n \<le> 1020" "length (nFree i) = (unat ?n + 7) div 8" using assms by (auto simp: index_ok_def)
  then show f: "length (nFree i) \<le> 128" by simp
  have "unat (?n + 8 - 1) = unat ?n + 7"
    using n(1) by (simp add: unat_word_ariths)
  then have "unat (LABELS_TO_FREE_BYTES (ROUNDUP ?n 8)) = (unat ?n + 7) div 8"
    using n(1) by (simp add: LABELS_TO_FREE_BYTES_def ROUNDUP_def unsigned_drop_bit_eq drop_bit_eq_div
        unat_word_ariths unat_div take_bit_nat_eq_self)
  then show nf: "num_free_bytes i = of_nat (length (nFree i))"
    unfolding num_free_bytes_def by (metis n(2) of_nat_unat)
  have "unat (72 + num_free_bytes i + 256 - 1) = 327 + length (nFree i)"
    using f by (simp add: nf unat_word_ariths unsigned_of_nat take_bit_nat_eq_self)
  moreover have "(327 + length (nFree i)) div 256 = 1" using f by simp
  ultimately have "(72 + num_free_bytes i + 256 - 1) div 256 = 1"
    by (simp add: word_unat_eq_iff unat_div)
  then show "ROUNDUP (72 + num_free_bytes i) NSINDEX_ALIGN = 256" by (simp add: ROUNDUP_def)
  show "INDEX_LABEL_SIZE_TO_BYTE (nLabelSize i) = of_nat (page_size i)"
    using assms by (auto simp: index_ok_def INDEX_LABEL_SIZE_TO_BYTE_def page_size_def label_version_1_1_def)
qed

section \<open>Index blocks as bytes\<close>

definition index_block :: "namespace_index \<Rightarrow> u8 list" where
  "index_block i = index_header i @ nFree i @ replicate (184 - length (nFree i)) 0"

lemma length_index_block [simp]: "index_ok k i \<Longrightarrow> length (index_block i) = 256"
  using index_ok_facts(2) [of k i] by (simp add: index_block_def index_ok_def)

lemma index_raw_block:
  assumes "index_ok k i"
  shows "index_raw (num_free_bytes i) i = take (72 + length (nFree i)) (index_block i)"
    and "length (index_raw (num_free_bytes i) i) = 72 + length (nFree i)"
  using assms index_ok_facts(1,2) [OF assms]
  by (simp_all add: index_raw_def index_block_def index_ok_def unsigned_of_nat take_bit_nat_eq_self)

lemma patch_zero_block:
  assumes "index_ok k i"
  shows "patch (replicate 256 0) 0 (index_raw (num_free_bytes i) i) = index_block i"
  using assms index_ok_facts(1,2) [OF assms]
  by (simp add: patch_def index_raw_def index_block_def index_ok_def unsigned_of_nat take_bit_nat_eq_self)

lemma LabelIndexAreaToRawData_one:
  assumes "index_ok k (Index l ! k)" and "k < 2"
  shows "LabelIndexAreaToRawData l k True = (EFI_SUCCESS, Some (index_block (Index l ! k)))"
  using assms patch_zero_block [OF assms(1)]
  by (simp add: LabelIndexAreaToRawData_def Let_def index_ok_def)

lemma LabelIndexAreaToRawData_both:
  assumes "index_ok 0 (Index l ! 0)" and "index_ok 1 (Index l ! 1)"
    and "nNumberOfLabels (Index l ! 1) = nNumberOfLabels (Index l ! 0)"
  shows "LabelIndexAreaToRawData l 2 True = (EFI_SUCCESS, Some (index_block (Index l ! 0) @ index_block (Index l ! 1)))"
proof -
  let ?i = "Index l ! 0" and ?j = "Index l ! 1"
  have n: "num_free_bytes ?j = num_free_bytes ?i" using assms(3) by (simp add: num_free_bytes_def)
  have s: "nMySize ?i = 256" "index_wf ?i" "index_wf ?j" using assms by (simp_all add: index_ok_def)
  have r: "(replicate 512 0 :: u8 list) = replicate 256 0 @ replicate 256 0" by (simp flip: replicate_add)
  have p0: "patch (replicate 512 0) 0 (index_raw (num_free_bytes ?i) ?i) = index_block ?i @ replicate 256 0"
    using patch_zero_block [OF assms(1)] index_raw_block(2) [OF assms(1)] index_ok_facts(2) [OF assms(1)]
    by (simp add: r patch_def)
  have "patch (index_block ?i @ replicate 256 0) 256 (index_raw (num_free_bytes ?j) ?j) = index_block ?i @ index_block ?j"
    using patch_zero_block [OF assms(2)] index_raw_block(2) [OF assms(2)] assms(1) by (simp add: patch_def)
  then have p1: "patch (index_block ?i @ replicate 256 0) 256 (index_raw (num_free_bytes ?i) ?j) = index_block ?i @ index_block ?j"
    unfolding n .
  show ?thesis by (simp add: LabelIndexAreaToRawData_def Let_def s p0 p1 [unfolded One_nat_def])
qed

lemma parse_index_free: "parse_index bs free = (parse_index bs free')\<lparr>nFree := free\<rparr>"
  by (simp add: parse_index_def)

lemma parse_block:
  assumes "index_ok k i" and "F = length (nFree i)"
  shows "parse_index (index_block i @ rest) (take F (drop 72 (index_block i @ rest))) = i"
proof -
  have "take F (drop 72 (index_block i @ rest)) = nFree i"
    using assms by (simp add: index_block_def index_ok_def)
  moreover have "parse_index (index_block i @ rest) (nFree i) = i"
    using assms(1) parse_index_header [of i "nFree i @ replicate (184 - length (nFree i)) 0 @ rest"]
    by (simp add: index_block_def index_ok_def)
  ultimately show ?thesis by simp
qed

lemma RawDataToLabelIndexArea_blocks:
  assumes i: "index_ok 0 i" and j: "index_ok 1 j" and n: "nNumberOfLabels j = nNumberOfLabels i"
    and fit: "512 + page_size i * unat (nNumberOfLabels i) \<le> unat P"
  shows "RawDataToLabelIndexArea (index_block i @ index_block j @ rest) P (True, True) l = (EFI_SUCCESS, l\<lparr>Index := [i, j]\<rparr>)"
proof -
  let ?raw = "index_block i @ index_block j @ rest"
  have h: "parse_index ?raw [] = i\<lparr>nFree := []\<rparr>"
    by (rule parse_index_free [of ?raw "[]" "take (length (nFree i)) (drop 72 ?raw)", unfolded parse_block [OF i refl]])
  have nf: "num_free_bytes (i\<lparr>nFree := []\<rparr>) = num_free_bytes i" by (simp add: num_free_bytes_def)
  have s: "nMySize i = 256" using i by (simp add: index_ok_def)
  have F: "unat (num_free_bytes i) = length (nFree i)" "length (nFree j) = length (nFree i)"
    using index_ok_facts(1,2) [OF i] i j n by (simp_all add: unsigned_of_nat take_bit_nat_eq_self index_ok_def)
  have total: "\<not> ucast P < (512 + of_nat (page_size i) * ucast (nNumberOfLabels i) :: u64)"
  proof -
    have "unat (512 + of_nat (page_size i) * ucast (nNumberOfLabels i) :: u64) = 512 + page_size i * unat (nNumberOfLabels i)"
      using i page_size_cases [OF i] by (auto simp: index_ok_def unat_word_ariths)
    with fit show ?thesis by (simp add: word_less_nat_alt)
  qed
  show ?thesis
    using parse_block [OF i refl, of "index_block j @ rest"] parse_block [OF j F(2) [symmetric], of rest] total
      index_ok_facts(3,4) [OF i]
    by (simp add: RawDataToLabelIndexArea_def h nf s F Let_def length_index_block [OF i] length_index_block [OF j])
qed

section \<open>Validation and the current block\<close>

lemma index_ok_sequence: "index_ok k i \<Longrightarrow> nSequence i \<noteq> 0 \<and> nSequence i \<le> 3"
  by (auto simp: index_ok_def lsa_seq_valid_def)

lemma sig_not_zero: "LSA_NAMESPACE_INDEX_SIG \<noteq> replicate 16 0"
proof
  assume "LSA_NAMESPACE_INDEX_SIG = replicate 16 0"
  then have "hd LSA_NAMESPACE_INDEX_SIG = hd (replicate 16 (0 :: u8))" by (rule arg_cong)
  then show False by (simp add: LSA_NAMESPACE_INDEX_SIG_def)
qed

lemma minor_1_less: "\<not> NSINDEX_MINOR_2 \<le> NSINDEX_MINOR_1"
  by (simp add: word_le_nat_alt)

lemma ValidateIndex_ok:
  assumes "index_ok k (Index l ! k)" and "k < 2"
  shows "ValidateIndex l k True = Inr True"
  using assms LabelIndexAreaToRawData_one [OF assms] index_ok_sequence [OF assms(1)] minor_1_less
  by (auto simp: ValidateIndex_def Let_def index_ok_def BYTE_TO_INDEX_LABEL_SIZE_def)

lemma ValidateLsaData_ok:
  assumes "index_ok 0 (Index l ! 0)" and "index_ok 1 (Index l ! 1)"
  shows "ValidateLsaData l (True, True, True) = EFI_SUCCESS"
proof -
  have "Index l \<noteq> [zero_index, zero_index]"
    using assms(1) sig_not_zero by (auto simp: index_ok_def zero_index_def)
  with ValidateIndex_ok [OF assms(1)] ValidateIndex_ok [OF assms(2)] show ?thesis
    by (simp add: ValidateLsaData_def)
qed

lemma current_index:
  assumes "lsa_seq.current_valid (nSequence (Index l ! 0), nSequence (Index l ! 1))"
  shows "LsaSelect (nSequence (Index l ! 0)) (nSequence (Index l ! 1)) = Some (cur_index l)"
    and "cur_index l = 0 \<or> cur_index l = 1"
    and "GetLsaIndexes l = Inr (cur_index l, 1 - cur_index l)"
proof -
  show s: "LsaSelect (nSequence (Index l ! 0)) (nSequence (Index l ! 1)) = Some (cur_index l)"
    and c: "cur_index l = 0 \<or> cur_index l = 1"
    using assms by (auto simp: lsa_seq.current_valid_def cur_index_def)
  show "GetLsaIndexes l = Inr (cur_index l, 1 - cur_index l)"
    using c s by (auto simp: GetLsaIndexes_def)
qed

lemma lsa_ok_index:
  assumes "lsa_ok l" and "k < 2"
  shows "index_ok k (Index l ! k)" and "nNumberOfLabels (Index l ! k) = nNumberOfLabels (Index l ! 0)"
    and "page_size (Index l ! k) = page_size (Index l ! 0)"
proof -
  from assms(2) have "k = 0 \<or> k = 1" by auto
  with assms(1) show "index_ok k (Index l ! k)" "nNumberOfLabels (Index l ! k) = nNumberOfLabels (Index l ! 0)"
    "page_size (Index l ! k) = page_size (Index l ! 0)"
    by (auto simp: lsa_ok_def page_size_def label_version_1_1_def index_ok_def)
qed

lemma lsa_ok_current:
  assumes "lsa_ok l"
  shows "cur_index l < 2" and "GetLsaIndexes l = Inr (cur_index l, 1 - cur_index l)"
  using assms current_index [of l] by (auto simp: lsa_ok_def)

lemma lsa_ok_cur:
  assumes "lsa_ok l"
  shows "index_ok (cur_index l) (Index l ! cur_index l)" and "nMySize (Index l ! cur_index l) = 256"
    and "unat (nNumberOfLabels (Index l ! cur_index l)) = num_labels l"
    and "page_size (Index l ! cur_index l) = page_size (Index l ! 0)"
    and "nNumberOfLabels (Index l ! cur_index l) = nNumberOfLabels (Index l ! 0)"
proof -
  note c = lsa_ok_current(1) [OF assms]
  show i: "index_ok (cur_index l) (Index l ! cur_index l)" by (rule lsa_ok_index(1) [OF assms c])
  then show "nMySize (Index l ! cur_index l) = 256" by (simp add: index_ok_def)
  show n: "nNumberOfLabels (Index l ! cur_index l) = nNumberOfLabels (Index l ! 0)" by (rule lsa_ok_index(2) [OF assms c])
  then show "unat (nNumberOfLabels (Index l ! cur_index l)) = num_labels l" by (simp only: num_labels_def)
  show "page_size (Index l ! cur_index l) = page_size (Index l ! 0)" by (rule lsa_ok_index(3) [OF assms c])
qed

section \<open>Labels as bytes\<close>

lemma label_page_bytes:
  assumes "label_ok p x" and "p = 128 \<or> p = 256"
  shows "label_page p (take p (label_bytes x) @ rest) = x"
proof -
  have len: "length (label_bytes x) = 256" "label_wf x" using assms(1) by (auto simp: label_ok_def)
  have "take p (label_bytes x) @ replicate (256 - p) 0 = label_bytes x"
    using assms(1) unfolding label_ok_def by (metis append_take_drop_id)
  then show ?thesis
    using assms(2) len parse_label_bytes [of x "[]"] by (auto simp: label_page_def)
qed

lemma length_concat_chunks:
  "(\<And>k. k < n \<Longrightarrow> length (f k) = p) \<Longrightarrow> length (concat (map f [0..<n])) = p * n"
  by (induction n) (auto simp: algebra_simps)

lemma drop_concat_chunks:
  assumes "\<And>k. k < n \<Longrightarrow> length (f k) = p" and "k < n"
  shows "\<exists>rest. drop (p * k) (concat (map f [0..<n])) = f k @ rest"
proof -
  have len: "length (concat (map f [0..<k])) = p * k"
    using assms by (intro length_concat_chunks) simp
  have "[0..<n] = [0..<k] @ k # [Suc k..<n]"
    using assms(2) by (metis le_add1 less_imp_add_positive plus_1_eq_Suc upt_add_eq_append upt_conv_Cons zero_le)
  then have "concat (map f [0..<n]) = concat (map f [0..<k]) @ f k @ concat (map f [Suc k..<n])" by simp
  then show ?thesis using len by simp
qed

section \<open>The partition\<close>

definition dimm_ready :: "dimm \<Rightarrow> bool" where
  "dimm_ready d \<longleftrightarrow> Manageable d \<and> AttribsStatus d = EFI_SUCCESS \<and> fw_results d = [] \<and> pool d = []
     \<and> 0 < unat (PcdLsaPartitionSize d) \<and> unat (PcdLsaPartitionSize d) \<le> 0x20000"

definition lsa_fits :: "dimm \<Rightarrow> lsa \<Rightarrow> bool" where
  "lsa_fits d l \<longleftrightarrow> 512 + page_size (Index l ! 0) * num_labels l \<le> unat (PcdLsaPartitionSize d)"

text \<open>What the partition holds: both index blocks and the labels of the used slots.\<close>

definition page_bytes :: "lsa \<Rightarrow> nat \<Rightarrow> u8 list" where
  "page_bytes l k = take (page_size (Index l ! 0)) (label_bytes (pLabels l ! k))"

definition stored :: "dimm \<Rightarrow> lsa \<Rightarrow> bool" where
  "stored d l \<longleftrightarrow> mem_read (pcd d) 0 512 = index_block (Index l ! 0) @ index_block (Index l ! 1)
   \<and> (\<forall>k < num_labels l. \<not> slot_free (Index l ! cur_index l) k \<longrightarrow>
        mem_read (pcd d) (512 + page_size (Index l ! 0) * k) (page_size (Index l ! 0)) = page_bytes l k)"

lemma dimm_ready_steps [simp]:
  "dimm_ready d \<Longrightarrow> pool_alloc d = (True, d)" "dimm_ready d \<Longrightarrow> fw_command d = (EFI_SUCCESS, d)"
  "dimm_ready d \<Longrightarrow> dimm_ready (d\<lparr>pcd := m\<rparr>)" "dimm_ready d \<Longrightarrow> QueryPcdSize d = (Inr (PcdLsaPartitionSize d), d)"
  by (auto simp: dimm_ready_def pool_alloc_def fw_command_def QueryPcdSize_def)

lemma SetChunks_ok:
  assumes "dimm_ready d" and "length raw = 64 * k"
  shows "SetChunks k off raw d = (EFI_SUCCESS, d\<lparr>pcd := mem_write (pcd d) off raw\<rparr>)"
  using assms
proof (induction k arbitrary: off raw d)
  case (Suc k)
  have "raw = take 64 raw @ drop 64 raw" by simp
  then have "mem_write (pcd d) off raw = mem_write (mem_write (pcd d) off (take 64 raw)) (off + 64) (drop 64 raw)"
    using Suc.prems(2) mem_write_append [of "pcd d" off "take 64 raw" "drop 64 raw"] by simp
  with Suc show ?case by simp
qed simp

lemma mem_read_split: "mem_read m a (j + n) = mem_read m a j @ mem_read m (a + j) n"
  by (simp add: mem_read_append)

lemma GetChunks_ok:
  assumes "dimm_ready d" and "off + 128 * k \<le> length raw"
  shows "GetChunks k off raw d = (EFI_SUCCESS, patch raw off (mem_read (pcd d) off (128 * k)), d)"
  using assms
proof (induction k arbitrary: off raw)
  case 0
  then show ?case by (simp add: patch_def mem_read_def)
next
  case (Suc k)
  have "GetChunks (Suc k) off raw d = GetChunks k (off + 128) (patch raw off (mem_read (pcd d) off 128)) d"
    using Suc.prems by simp
  also have "\<dots> = (EFI_SUCCESS, patch (patch raw off (mem_read (pcd d) off 128)) (off + 128) (mem_read (pcd d) (off + 128) (128 * k)), d)"
    using Suc.prems by (intro Suc.IH) simp_all
  also have "patch (patch raw off (mem_read (pcd d) off 128)) (off + 128) (mem_read (pcd d) (off + 128) (128 * k))
      = patch raw off (mem_read (pcd d) off (128 * Suc k))"
    using Suc.prems by (simp add: patch_def mem_read_split ac_simps)
  finally show ?case .
qed

lemma page_facts:
  assumes "lsa_ok l" and "lsa_fits d l" and "dimm_ready d" and "k < num_labels l"
  defines "p \<equiv> page_size (Index l ! 0)"
  shows "unat (ucast (512 + of_nat p * of_nat k :: u64) :: u32) = 512 + p * k" and "unat (of_nat p :: u32) = p"
    and "512 + p * k + p \<le> unat (PcdLsaPartitionSize d)" and "p = 128 \<or> p = 256" and "512 + p * k + p \<le> 0x20000"
proof -
  show p: "p = 128 \<or> p = 256" unfolding p_def using assms(1) page_size_cases by (auto simp: lsa_ok_def)
  then show "unat (of_nat p :: u32) = p" by auto
  have "p * Suc k \<le> p * num_labels l" using assms(4) by (intro mult_le_mono2) simp
  then show b: "512 + p * k + p \<le> unat (PcdLsaPartitionSize d)" using assms(2) by (simp add: lsa_fits_def p_def)
  then show b2: "512 + p * k + p \<le> 0x20000" using assms(3) by (simp add: dimm_ready_def)
  have k: "k < 65536" using assms(1,4) by (auto simp: lsa_ok_def index_ok_def num_labels_def)
  have "unat (512 + of_nat p * of_nat k :: u64) = 512 + p * k"
    using p b2 k by (auto simp: unat_word_ariths unsigned_of_nat take_bit_nat_eq_self)
  then show "unat (ucast (512 + of_nat p * of_nat k :: u64) :: u32) = 512 + p * k"
    using b2 by (simp add: unsigned_ucast_eq unsigned_take_bit_eq take_bit_nat_eq_self)
qed

section \<open>Writing\<close>

definition used :: "namespace_index \<Rightarrow> nat \<Rightarrow> bool" where
  "used i k \<longleftrightarrow> \<not> bit (nFree i ! (k div 8)) (k mod 8)"

lemma used_slot:
  assumes "lsa_ok l" and "c < 2" and "k < num_labels l"
  shows "used (Index l ! c) k \<longleftrightarrow> \<not> slot_free (Index l ! c) k" and "k div 8 < length (nFree (Index l ! c))" and "k < 65536"
proof -
  have "length (nFree (Index l ! c)) = (num_labels l + 7) div 8" "num_labels l \<le> 1020"
    using lsa_ok_index(1,2) [OF assms(1,2)] lsa_ok_index(1) [OF assms(1), of 0] by (auto simp: index_ok_def num_labels_def)
  with assms(3) show d: "k div 8 < length (nFree (Index l ! c))" and "k < 65536" by linarith+
  then show "used (Index l ! c) k \<longleftrightarrow> \<not> slot_free (Index l ! c) k" by (simp add: used_def slot_free_def)
qed

text \<open>The effect of the small payload loop on the partition.\<close>

fun put_pages :: "lsa \<Rightarrow> nat list \<Rightarrow> memory \<Rightarrow> memory" where
  "put_pages l [] m = m"
| "put_pages l (k # ks) m =
     put_pages l ks (if used (Index l ! cur_index l) k then mem_write m (512 + page_size (Index l ! 0) * k) (page_bytes l k) else m)"

lemma length_page_bytes:
  "lsa_ok l \<Longrightarrow> k < num_labels l \<Longrightarrow> length (page_bytes l k) = page_size (Index l ! 0)"
  using page_size_cases by (fastforce simp: lsa_ok_def page_bytes_def label_ok_def)

lemma put_pages_below:
  assumes "lsa_ok l" and "\<And>k. k \<in> set ks \<Longrightarrow> k < num_labels l \<and> a + n \<le> 512 + page_size (Index l ! 0) * k
     \<or> k < num_labels l \<and> 512 + page_size (Index l ! 0) * k + page_size (Index l ! 0) \<le> a"
  shows "mem_read (put_pages l ks m) a n = mem_read m a n"
  using assms(2)
proof (induction ks arbitrary: m)
  case (Cons k ks)
  have "mem_read (mem_write m (512 + page_size (Index l ! 0) * k) (page_bytes l k)) a n = mem_read m a n"
    using Cons.prems [of k] length_page_bytes [OF assms(1), of k] by (intro mem_write_other) auto
  with Cons show ?case by simp
qed simp

lemma page_order: "j \<noteq> k \<Longrightarrow> (p :: nat) * j + p \<le> p * k \<or> p * k + p \<le> p * j"
  by (metis Suc_leI add.commute linorder_neqE_nat mult_Suc_right mult_le_mono2)

lemma put_pages_page:
  assumes "lsa_ok l" and "distinct ks" and "\<And>k. k \<in> set ks \<Longrightarrow> k < num_labels l" and "k \<in> set ks" and "used (Index l ! cur_index l) k"
  shows "mem_read (put_pages l ks m) (512 + page_size (Index l ! 0) * k) (page_size (Index l ! 0)) = page_bytes l k"
  using assms(2-4)
proof (induction ks arbitrary: m)
  case (Cons j ks)
  let ?p = "page_size (Index l ! 0)"
  show ?case
  proof (cases "k = j")
    case True
    have "mem_read (put_pages l ks (mem_write m (512 + ?p * k) (page_bytes l k))) (512 + ?p * k) ?p
        = mem_read (mem_write m (512 + ?p * k) (page_bytes l k)) (512 + ?p * k) ?p"
    proof (rule put_pages_below [OF assms(1)])
      fix x assume x: "x \<in> set ks"
      with Cons.prems(1) True have "x \<noteq> k" by auto
      from page_order [OF this, of ?p] Cons.prems(2) x
      show "x < num_labels l \<and> 512 + ?p * k + ?p \<le> 512 + ?p * x \<or> x < num_labels l \<and> 512 + ?p * x + ?p \<le> 512 + ?p * k"
        by auto
    qed
    with True assms(5) length_page_bytes [OF assms(1)] Cons.prems(2) show ?thesis by (simp add: mem_simps)
  next
    case False
    with Cons show ?thesis by simp
  qed
qed simp

lemma put_pages_unused:
  assumes "lsa_ok l" and "\<And>j. j \<in> set ks \<Longrightarrow> j < num_labels l" and "\<not> used (Index l ! cur_index l) k"
  shows "mem_read (put_pages l ks m) (512 + page_size (Index l ! 0) * k) (page_size (Index l ! 0))
    = mem_read m (512 + page_size (Index l ! 0) * k) (page_size (Index l ! 0))"
  using assms(2)
proof (induction ks arbitrary: m)
  case (Cons j ks)
  let ?p = "page_size (Index l ! 0)"
  have "mem_read (mem_write m (512 + ?p * j) (page_bytes l j)) (512 + ?p * k) ?p = mem_read m (512 + ?p * k) ?p" if "j \<noteq> k"
    using page_order [OF that, of ?p] length_page_bytes [OF assms(1), of j] Cons.prems [of j] by (intro mem_write_other) auto
  with Cons assms(3) show ?case by (cases "j = k") auto
qed simp

lemma mod_64_zero: "unat (x :: u32) mod 64 = 0 \<Longrightarrow> x mod 64 = 0"
  by (simp add: word_unat_eq_iff unat_mod)

text \<open>Storing one label page passes the checks of \<open>FwSetPCDFromOffsetSmallPayload\<close>, whatever the firmware answers.\<close>

lemma FwSetPCD_page:
  assumes ok: "lsa_ok l" and fit: "lsa_fits d l" and rdy: "dimm_ready d" and k: "k < num_labels l"
  defines "p \<equiv> page_size (Index l ! 0)"
  shows "FwSetPCDFromOffsetSmallPayload bs (ucast (512 + of_nat p * of_nat k :: u64)) (of_nat p) (d\<lparr>fw_results := rs\<rparr>)
      = SetChunks (p div 64) (512 + p * k) bs (d\<lparr>fw_results := rs\<rparr>)"
proof -
  note f = page_facts [OF ok fit rdy k, folded p_def]
  let ?o = "ucast (512 + of_nat p * of_nat k :: u64) :: u32" and ?s = "of_nat p :: u32"
  have sum: "unat (?o + ?s) = 512 + p * k + p" using f(1,2,5) by (subst unat_plus_nowrap) auto
  have m64: "?o mod 64 = 0" "?s mod 64 = 0" "?s \<noteq> 0"
  proof -
    have "(512 + p * k) mod 64 = 0" "p mod 64 = 0" "p \<noteq> 0" using f(4) by (auto simp: mod_eq_0_iff_dvd)
    with f(1,2) show "?o mod 64 = 0" "?s mod 64 = 0" "?s \<noteq> 0" by (metis mod_64_zero, metis mod_64_zero, metis unsigned_0)
  qed
  have "\<not> PCD_PARTITION_SIZE < ?o + ?s" using sum f(5) by (simp add: word_less_nat_alt)
  moreover have "PcdLsaPartitionSize d \<noteq> 0" "pool d = []" using rdy by (auto simp: dimm_ready_def)
  ultimately show ?thesis
    using m64 sum f(1) by (simp add: FwSetPCDFromOffsetSmallPayload_def pool_alloc_def)
qed

lemma WriteLabelsSmall_ok:
  assumes ok: "lsa_ok l" and fit: "lsa_fits d l" and rdy: "dimm_ready d" and le: "k + n \<le> num_labels l"
  shows "WriteLabelsSmall (Index l ! cur_index l) (pLabels l) 512 k n d
      = (EFI_SUCCESS, d\<lparr>pcd := put_pages l [k..<k + n] (pcd d)\<rparr>)"
  using fit rdy le
proof (induction n arbitrary: k d)
  case (Suc n)
  let ?i = "Index l ! cur_index l" and ?p = "page_size (Index l ! 0)"
  have p: "page_size ?i = ?p" using lsa_ok_index(3) [OF ok lsa_ok_current(1) [OF ok]] .
  have k: "k < num_labels l" using Suc.prems by simp
  note f = page_facts [OF ok Suc.prems(1,2) k]
  have upt: "[k..<Suc (k + n)] = k # [Suc k..<Suc (k + n)]" by (simp add: upt_conv_Cons)
  define m where "m = (if used ?i k then mem_write (pcd d) (512 + ?p * k) (page_bytes l k) else pcd d)"
  have IH: "WriteLabelsSmall ?i (pLabels l) 512 (Suc k) n (d\<lparr>pcd := m\<rparr>) = (EFI_SUCCESS, d\<lparr>pcd := put_pages l [Suc k..<Suc k + n] m\<rparr>)"
    using Suc.IH [of "d\<lparr>pcd := m\<rparr>" "Suc k"] Suc.prems by (simp add: lsa_fits_def)
  have "d\<lparr>fw_results := []\<rparr> = d" using Suc.prems(2) by (simp add: dimm_ready_def)
  moreover have "SetChunks (?p div 64) (512 + ?p * k) (page_bytes l k) d = (EFI_SUCCESS, d\<lparr>pcd := mem_write (pcd d) (512 + ?p * k) (page_bytes l k)\<rparr>)"
    using f(4) length_page_bytes [OF ok k] Suc.prems(2) by (intro SetChunks_ok) auto
  ultimately have "FwSetPCDFromOffsetSmallPayload (page_bytes l k) (ucast (512 + of_nat ?p * of_nat k :: u64)) (of_nat ?p) d
      = (EFI_SUCCESS, d\<lparr>pcd := mem_write (pcd d) (512 + ?p * k) (page_bytes l k)\<rparr>)"
    using FwSetPCD_page [OF ok Suc.prems(1,2) k, of "page_bytes l k" "[]"] by simp
  with IH show ?case
    by (auto simp: upt p m_def used_def page_bytes_def simp del: upt_Suc)
qed simp

text \<open>Both payload sizes leave the area on the partition.\<close>

lemma write_small:
  assumes ok: "lsa_ok l" and fit: "lsa_fits d l" and rdy: "dimm_ready d" and small: "\<not> LargePayload d"
  defines "m \<equiv> mem_write (pcd d) 0 (index_block (Index l ! 0) @ index_block (Index l ! 1))"
  shows "WriteLabelStorageArea l d = (EFI_SUCCESS, d\<lparr>pcd := put_pages l [0..<num_labels l] m\<rparr>)"
proof -
  let ?i = "Index l ! cur_index l" and ?area = "index_block (Index l ! 0) @ index_block (Index l ! 1)"
  have ix: "index_ok 0 (Index l ! 0)" "index_ok 1 (Index l ! 1)" "nNumberOfLabels (Index l ! 1) = nNumberOfLabels (Index l ! 0)"
    using ok by (simp_all add: lsa_ok_def)
  note c = lsa_ok_cur(2,3) [OF ok]
  have size: "PcdLsaPartitionSize d \<noteq> 0" using rdy by (auto simp: dimm_ready_def)
  have "SetChunks 8 0 ?area d = (EFI_SUCCESS, d\<lparr>pcd := m\<rparr>)"
    using ix rdy unfolding m_def by (intro SetChunks_ok) simp_all
  with rdy size have set: "FwSetPCDFromOffsetSmallPayload ?area 0 512 d = (EFI_SUCCESS, d\<lparr>pcd := m\<rparr>)"
    by (simp add: FwSetPCDFromOffsetSmallPayload_def)
  have labels: "WriteLabelsSmall ?i (pLabels l) 512 0 (num_labels l) (d\<lparr>pcd := m\<rparr>)
      = (EFI_SUCCESS, d\<lparr>pcd := put_pages l [0..<num_labels l] m\<rparr>)"
    using WriteLabelsSmall_ok [OF ok, of "d\<lparr>pcd := m\<rparr>" 0 "num_labels l"] fit rdy by (simp add: lsa_fits_def)
  show ?thesis
    using rdy small set labels c ValidateLsaData_ok [OF ix(1,2)] LabelIndexAreaToRawData_both [OF ix] lsa_ok_current(2) [OF ok]
    by (simp add: WriteLabelStorageArea_def Let_def dimm_ready_def [of d])
qed


definition area_bytes :: "lsa \<Rightarrow> u8 list" where
  "area_bytes l = index_block (Index l ! 0) @ index_block (Index l ! 1)"

definition pages :: "lsa \<Rightarrow> u8 list" where
  "pages l = concat (map (page_bytes l) [0..<num_labels l])"

lemma length_area: "lsa_ok l \<Longrightarrow> length (area_bytes l) = 512"
  using length_index_block [of 0 "Index l ! 0"] length_index_block [of 1 "Index l ! 1"] by (simp add: area_bytes_def lsa_ok_def)

lemma length_all_pages: "lsa_ok l \<Longrightarrow> length (pages l) = page_size (Index l ! 0) * num_labels l"
  unfolding pages_def by (intro length_concat_chunks length_page_bytes)

lemma FwCmdSet_large:
  assumes rdy: "dimm_ready d" and large: "LargePayload d" and fit: "length xs \<le> unat (PcdLsaPartitionSize d)"
  shows "\<exists>tail. FwCmdSetPlatformConfigData (xs @ ys) (PcdLsaPartitionSize d) d
      = (EFI_SUCCESS, d\<lparr>pcd := mem_write (pcd d) 0 (xs @ tail)\<rparr>) \<and> length (xs @ tail) = unat (PcdLsaPartitionSize d)"
proof -
  let ?P = "unat (PcdLsaPartitionSize d)"
  let ?buf = "take ?P ((xs @ ys) @ map (pool_slack d) [0..<?P])"
  have len: "length ?buf = ?P" by simp
  have split: "?buf = xs @ drop (length xs) ?buf" using fit by simp
  have P: "PcdLsaPartitionSize d \<noteq> 0" "\<not> PCD_PARTITION_SIZE < PcdLsaPartitionSize d" "AttribsStatus d = EFI_SUCCESS"
    using rdy by (auto simp: dimm_ready_def word_less_nat_alt)
  have "patch (replicate ?P 0) 0 ?buf = ?buf" using len by (simp add: patch_def)
  then have "FwCmdSetPlatformConfigData (xs @ ys) (PcdLsaPartitionSize d) d = (EFI_SUCCESS, d\<lparr>pcd := mem_write (pcd d) 0 ?buf\<rparr>)"
    using rdy large P len by (simp add: FwCmdSetPlatformConfigData_def Let_def del: take_append append_assoc)
  with split len show ?thesis by metis
qed

lemma write_large:
  assumes ok: "lsa_ok l" and fit: "lsa_fits d l" and rdy: "dimm_ready d" and large: "LargePayload d"
  shows "\<exists>tail. WriteLabelStorageArea l d = (EFI_SUCCESS, d\<lparr>pcd := mem_write (pcd d) 0 (area_bytes l @ pages l @ tail)\<rparr>)
     \<and> length (area_bytes l @ pages l @ tail) = unat (PcdLsaPartitionSize d)"
proof -
  let ?i = "Index l ! cur_index l" and ?n = "num_labels l" and ?p = "page_size (Index l ! 0)"
  have ix: "index_ok 0 (Index l ! 0)" "index_ok 1 (Index l ! 1)" "nNumberOfLabels (Index l ! 1) = nNumberOfLabels (Index l ! 0)"
    using ok by (simp_all add: lsa_ok_def)
  note c = lsa_ok_cur(2-4) [OF ok] and len = length_area [OF ok] length_all_pages [OF ok]
  have pages: "concat (map (\<lambda>k. take ?p (label_bytes (pLabels l ! k))) [0..<?n]) = pages l"
    by (simp add: pages_def page_bytes_def [abs_def])
  have total: "unat (512 + 256 * ucast (nNumberOfLabels ?i) :: u64) = 512 + 256 * ?n"
    using ix(1) c(2) by (simp add: unat_word_ariths index_ok_def num_labels_def)
  have "?p * ?n \<le> 256 * ?n" using page_size_cases [OF ix(1)] by auto
  then have raw: "patch (patch (replicate (512 + 256 * ?n) 0) 0 (take 512 (area_bytes l))) 512 (pages l)
      = (area_bytes l @ pages l) @ replicate (256 * ?n - ?p * ?n) 0"
    using len by (simp add: patch_def)
  have "length (area_bytes l @ pages l) \<le> unat (PcdLsaPartitionSize d)"
    using fit len by (simp add: lsa_fits_def)
  from FwCmdSet_large [OF rdy large this, of "replicate (256 * ?n - ?p * ?n) 0"] obtain tail where
    set: "FwCmdSetPlatformConfigData ((area_bytes l @ pages l) @ replicate (256 * ?n - ?p * ?n) 0) (PcdLsaPartitionSize d) d
       = (EFI_SUCCESS, d\<lparr>pcd := mem_write (pcd d) 0 ((area_bytes l @ pages l) @ tail)\<rparr>)"
      "length ((area_bytes l @ pages l) @ tail) = unat (PcdLsaPartitionSize d)" by blast
  have "WriteLabelStorageArea l d = FwCmdSetPlatformConfigData ((area_bytes l @ pages l) @ replicate (256 * ?n - ?p * ?n) 0) (PcdLsaPartitionSize d) d"
    using rdy large c ValidateLsaData_ok [OF ix(1,2)] LabelIndexAreaToRawData_both [OF ix, folded area_bytes_def] lsa_ok_current(2) [OF ok]
    by (simp add: WriteLabelStorageArea_def Let_def dimm_ready_def [of d] total pages raw)
  with set show ?thesis by auto
qed

theorem Write_stores:
  assumes ok: "lsa_ok l" and fit: "lsa_fits d l" and rdy: "dimm_ready d"
  defines "page \<equiv> \<lambda>m k. mem_read m (512 + page_size (Index l ! 0) * k) (page_size (Index l ! 0))"
  shows "\<exists>m. WriteLabelStorageArea l d = (EFI_SUCCESS, d\<lparr>pcd := m\<rparr>) \<and> stored (d\<lparr>pcd := m\<rparr>) l
    \<and> (\<forall>k < num_labels l. slot_free (Index l ! cur_index l) k \<longrightarrow> page m k = (if LargePayload d then page_bytes l k else page (pcd d) k))"
proof (cases "LargePayload d")
  case True
  let ?p = "page_size (Index l ! 0)" and ?n = "num_labels l"
  from write_large [OF ok fit rdy True] obtain tail where
    w: "WriteLabelStorageArea l d = (EFI_SUCCESS, d\<lparr>pcd := mem_write (pcd d) 0 (area_bytes l @ pages l @ tail)\<rparr>)" by blast
  have page: "take ?p (drop (512 + ?p * k) (area_bytes l @ pages l @ tail)) = page_bytes l k"
    and bound: "512 + ?p * k + ?p \<le> length (area_bytes l @ pages l @ tail)" if k: "k < ?n" for k
  proof -
    obtain rest where "drop (?p * k) (pages l) = page_bytes l k @ rest"
      unfolding pages_def using drop_concat_chunks [of ?n "page_bytes l" ?p k] length_page_bytes [OF ok] k by blast
    moreover have "?p * k + ?p \<le> ?p * ?n" using k by (metis Suc_leI add.commute mult_Suc_right mult_le_mono2)
    ultimately show "take ?p (drop (512 + ?p * k) (area_bytes l @ pages l @ tail)) = page_bytes l k"
      and "512 + ?p * k + ?p \<le> length (area_bytes l @ pages l @ tail)"
      using length_area [OF ok] length_all_pages [OF ok] length_page_bytes [OF ok k] by simp_all
  qed
  have "mem_read (mem_write (pcd d) 0 (area_bytes l @ pages l @ tail)) 0 512 = area_bytes l"
    using length_area [OF ok] by (simp add: mem_read_inside)
  moreover have "mem_read (mem_write (pcd d) 0 (area_bytes l @ pages l @ tail)) (512 + ?p * k) ?p = page_bytes l k" if "k < ?n" for k
    using mem_read_inside [of 0 "512 + ?p * k" ?p "area_bytes l @ pages l @ tail" "pcd d"] page [OF that] bound [OF that] by (simp del: drop_append take_append)
  ultimately show ?thesis using w True by (auto simp: stored_def area_bytes_def page_def)
next
  case False
  let ?m = "mem_write (pcd d) 0 (area_bytes l)"
  have "mem_read (put_pages l [0..<num_labels l] ?m) 0 512 = mem_read ?m 0 512"
    by (rule put_pages_below [OF ok]) auto
  also have "\<dots> = area_bytes l" using length_area [OF ok] by (simp add: mem_simps)
  finally have area: "mem_read (put_pages l [0..<num_labels l] ?m) 0 512 = area_bytes l" .
  have "page (put_pages l [0..<num_labels l] ?m) k = page (pcd d) k" if "\<not> used (Index l ! cur_index l) k" for k
    using put_pages_unused [OF ok _ that, of "[0..<num_labels l]" ?m] length_area [OF ok] by (simp add: page_def mem_write_other)
  then show ?thesis
    using write_small [OF ok fit rdy False] put_pages_page [OF ok, of "[0..<num_labels l]"] used_slot(1) [OF ok lsa_ok_current(1) [OF ok]]
      area False
    by (auto simp: stored_def area_bytes_def)
qed

end
