(* ===== verification/Label_Read.thy ===== *)
theory Label_Read
  imports Label_Correct
begin

text \<open>
  Reading a label storage area that the partition holds: with large payloads in one transfer, with
  small payloads the index blocks first and then the label of every used slot.
\<close>

section \<open>Labels from bytes\<close>

lemma take_one_drop: "k < length bs \<Longrightarrow> take 1 (drop k bs) = [bs ! k]"
  by (simp add: take_Suc hd_drop_conv_nth)

lemma label_bytes_parse:
  assumes "length bs = 256"
  shows "label_bytes (parse_label bs) = bs"
proof -
  have one: "take (Suc 0) (drop 124 bs) = [bs ! 124]" using take_one_drop [of 124 bs] assms unfolding One_nat_def by linarith
  have "label_bytes (parse_label bs) =
    take 16 (drop 0 bs) @ take 64 (drop 16 bs) @ take 4 (drop 80 bs) @ take 2 (drop 84 bs) @
    take 2 (drop 86 bs) @ take 8 (drop 88 bs) @ take 8 (drop 96 bs) @ take 8 (drop 104 bs) @
    take 8 (drop 112 bs) @ take 4 (drop 120 bs) @ take 1 (drop 124 bs) @ take 3 (drop 125 bs) @
    take 16 (drop 128 bs) @ take 16 (drop 144 bs) @ take 88 (drop 160 bs) @ take 8 (drop 248 bs) @ []"
    using assms by (simp add: label_bytes_def parse_label_def le_get one)
  also have "\<dots> = take 256 (drop 0 bs) @ []"
    by (simp only: take_drop_join_rest arith_simps one_plus_numeral)
  finally show ?thesis using assms by simp
qed

lemma label_wf_parse: "length bs = 256 \<Longrightarrow> label_wf (parse_label bs)"
  by (simp add: label_wf_def parse_label_def)

lemma label_page_ok:
  assumes "p = 128 \<or> p = 256" and "p \<le> length bs"
  shows "label_ok p (label_page p bs)"
proof -
  have "length (take p bs @ replicate (256 - p) 0) = 256" using assms by auto
  from label_bytes_parse [OF this] label_wf_parse [OF this] assms(2) show ?thesis
    by (simp add: label_ok_def label_page_def)
qed

lemma le_bytes_zero [simp]: "le_bytes n 0 = replicate n 0"
  by (induction n) auto

lemma zero_label_ok: "label_ok p zero_label"
proof -
  have "label_bytes zero_label = replicate 256 0"
    by (simp add: label_bytes_def zero_label_def flip: replicate_add replicate_Suc)
  then show ?thesis by (simp add: label_ok_def)
qed

section \<open>Small payloads\<close>

lemma FwGetPCD_page:
  assumes ok: "lsa_ok l" and fit: "lsa_fits d l" and rdy: "dimm_ready d" and k: "k < num_labels l"
    and len: "length raw = unat (PcdLsaPartitionSize d)"
  defines "p \<equiv> page_size (Index l ! 0)"
  shows "FwGetPCDFromOffsetSmallPayload (ucast (512 + of_nat p * of_nat k :: u64)) (of_nat p) (Some raw) d
     = (EFI_SUCCESS, Some (patch raw (512 + p * k) (mem_read (pcd d) (512 + p * k) p)), d)"
proof -
  note f = page_facts [OF ok fit rdy k, folded p_def]
  let ?o = "ucast (512 + of_nat p * of_nat k :: u64) :: u32" and ?s = "of_nat p :: u32"
  have sum: "unat (?o + ?s) = 512 + p * k + p" using f(1,2,5) by (subst unat_plus_nowrap) auto
  have "unat ?o mod 128 = 0" using f(1,4) by (auto simp: mod_eq_0_iff_dvd)
  then have "?o mod 128 = 0" by (simp add: word_unat_eq_iff unat_mod)
  then have start: "?o div 128 * 128 = ?o" by (metis add.right_neutral div_mult_mod_eq)
  have "\<not> PcdLsaPartitionSize d < ?o + ?s" using sum f(3) by (simp add: word_less_nat_alt)
  moreover have "?s \<noteq> 0" using f(2,4) by (metis unsigned_0 zero_neq_numeral)
  moreover have "GetChunks ((512 + p * k + p + 127 - (512 + p * k)) div 128) (512 + p * k) raw d
     = (EFI_SUCCESS, patch raw (512 + p * k) (mem_read (pcd d) (512 + p * k) p), d)"
  proof -
    have "(512 + p * k + p + 127 - (512 + p * k)) div 128 = p div 128" "128 * (p div 128) = p" using f(4) by auto
    then show ?thesis using GetChunks_ok [OF rdy, of "512 + p * k" "p div 128" raw] f(3) len by simp
  qed
  ultimately show ?thesis
    using rdy by (simp add: FwGetPCDFromOffsetSmallPayload_def start sum f(1) Let_def)
qed

definition page_at :: "lsa \<Rightarrow> dimm \<Rightarrow> nat \<Rightarrow> namespace_label" where
  "page_at l d k = (let p = page_size (Index l ! 0) in label_page p (mem_read (pcd d) (512 + p * k) p))"

lemma label_page_take: "length xs = p \<Longrightarrow> label_page p (xs @ ys) = label_page p xs"
  by (simp add: label_page_def)

lemma ReadLabelsSmall_ok:
  assumes ok: "lsa_ok l" and fit: "lsa_fits d l" and rdy: "dimm_ready d" and le: "k + n \<le> num_labels l"
    and len: "length raw = unat (PcdLsaPartitionSize d)"
  shows "ReadLabelsSmall (Index l ! cur_index l) 512 k n raw d
      = (map (\<lambda>j. if used (Index l ! cur_index l) j then page_at l d j else zero_label) [k..<k + n], d)"
  using le len
proof (induction n arbitrary: k raw)
  case (Suc n)
  let ?i = "Index l ! cur_index l" and ?p = "page_size (Index l ! 0)"
  note p = lsa_ok_cur(4) [OF ok]
  have k: "k < num_labels l" using Suc.prems by simp
  have upt: "[k..<Suc (k + n)] = k # [Suc k..<Suc (k + n)]" by (simp add: upt_conv_Cons)
  note f = page_facts [OF ok fit rdy k] FwGetPCD_page [OF ok fit rdy k Suc.prems(2)]
  let ?raw = "patch raw (512 + ?p * k) (mem_read (pcd d) (512 + ?p * k) ?p)"
  have raw: "length ?raw = length raw" using f(3) Suc.prems(2) by simp
  have page: "label_page ?p (drop (512 + ?p * k) ?raw) = page_at l d k"
    using f(3) Suc.prems(2) by (simp add: patch_def page_at_def Let_def label_page_take)
  have IH: "length r = unat (PcdLsaPartitionSize d) \<Longrightarrow> ReadLabelsSmall ?i 512 (Suc k) n r d
      = (map (\<lambda>j. if used ?i j then page_at l d j else zero_label) [Suc k..<Suc (k + n)], d)" for r
    using Suc.IH [of "Suc k" r] Suc.prems(1) by simp
  show ?case
    using IH [of raw] IH [of ?raw] Suc.prems(2) raw page f(1) f(6)
    by (auto simp: upt p used_def Let_def simp del: upt_Suc)
qed simp

section \<open>The index area\<close>

lemma read_large:
  assumes rdy: "dimm_ready d" and large: "LargePayload d"
  shows "ReadIndexArea d = Some (EFI_SUCCESS, Some (mem_read (pcd d) 0 (unat (PcdLsaPartitionSize d))), d)"
proof -
  have "AttribsStatus d = EFI_SUCCESS" using rdy by (simp add: dimm_ready_def)
  with assms show ?thesis by (simp add: ReadIndexArea_def FwCmdGetPlatformConfigData_def)
qed

text \<open>
  The two transfers of small payloads cover the 328 bytes up to the second bitmap and that bitmap;
  behind it the block is padded with zeros, as is the buffer.
\<close>

lemma small_area:
  fixes P F :: nat
  defines "E \<equiv> 128 + 128 * ((351 + 2 * F) div 128)"
  assumes area: "mem_read m 0 512 = xs @ replicate (184 - F) 0" and P: "512 \<le> P" "E \<le> P" and F: "F \<le> 128"
  shows "take 512 (patch (patch (replicate P 0) 0 (mem_read m 0 256)) 128 (mem_read m 128 (E - 128))) = mem_read m 0 512"
proof (rule nth_equalityI)
  have E: "328 + F \<le> E" "256 \<le> E" 
    using div_mult_mod_eq [of "351 + 2 * F" 128] mod_less_divisor [of 128 "351 + 2 * F"] unfolding E_def by linarith+
  have len: "length xs = 328 + F" using arg_cong [OF area, of length] F by simp
  fix i assume i: "i < length (take 512 (patch (patch (replicate P 0) 0 (mem_read m 0 256)) 128 (mem_read m 128 (E - 128))))"
  then have i512: "i < 512" by simp
  have "mem_read m 0 512 ! i = 0" if "E \<le> i" using that area i512 E len by (simp add: nth_append)
  then show "take 512 (patch (patch (replicate P 0) 0 (mem_read m 0 256)) 128 (mem_read m 128 (E - 128))) ! i = mem_read m 0 512 ! i"
    using P i512 E by (auto simp: nth_patch not_less)
qed (use P in simp)

lemma free_bytes:
  assumes "index_ok k i"
  shows "unat (LABELS_TO_FREE_BYTES (ROUNDUP (nNumberOfLabels i) 8)) = length (nFree i)"
proof -
  have "unat (num_free_bytes i) = length (nFree i)"
    using index_ok_facts(1,2) [OF assms] by (simp add: unsigned_of_nat take_bit_nat_eq_self)
  then show ?thesis by (simp add: num_free_bytes_def)
qed

lemma stored_blocks:
  assumes "lsa_ok l" and "stored d l"
  shows "mem_read (pcd d) 0 256 = index_block (Index l ! 0)"
proof -
  have "mem_read (pcd d) 0 256 @ mem_read (pcd d) 256 256 = area_bytes l"
    using assms(2) mem_read_append [of "pcd d" 0 256 256] by (simp add: stored_def area_bytes_def)
  moreover have "length (index_block (Index l ! 0)) = 256" using assms(1) length_index_block unfolding lsa_ok_def by blast
  ultimately show ?thesis by (simp add: area_bytes_def)
qed

lemma area_padding:
  assumes "lsa_ok l"
  shows "\<exists>xs. area_bytes l = xs @ replicate (184 - length (nFree (Index l ! 0))) 0"
proof -
  have "length (nFree (Index l ! 1)) = length (nFree (Index l ! 0))"
    using assms by (simp add: lsa_ok_def index_ok_def)
  then show ?thesis by (simp add: area_bytes_def index_block_def)
qed

lemma read_small:
  assumes ok: "lsa_ok l" and fit: "lsa_fits d l" and rdy: "dimm_ready d" and small: "\<not> LargePayload d" and st: "stored d l"
  shows "\<exists>raw. ReadIndexArea d = Some (EFI_SUCCESS, Some raw, d) \<and> length raw = unat (PcdLsaPartitionSize d) \<and> take 512 raw = area_bytes l"
proof -
  let ?P = "unat (PcdLsaPartitionSize d)" and ?i = "Index l ! 0"
  define F where "F = length (nFree ?i)"
  define E where "E = 128 + 128 * ((351 + 2 * F) div 128)"
  define buf where "buf = patch (replicate ?P 0) 0 (mem_read (pcd d) 0 256)"
  have i: "index_ok 0 ?i" using ok by (simp add: lsa_ok_def)
  have F: "F \<le> 128" "F \<le> num_labels l" using i index_ok_facts(2) [OF i] by (auto simp: F_def index_ok_def num_labels_def)
  have "2 * num_labels l \<le> page_size ?i * num_labels l" using page_size_cases [OF i] by auto
  then have P: "512 + 2 * F \<le> ?P" using fit F(2) unfolding lsa_fits_def by linarith
  then have E: "E \<le> ?P" using div_times_less_eq_dividend [of "351 + 2 * F" 128] unfolding E_def by linarith
  have buf: "buf = index_block ?i @ replicate (?P - 256) 0"
    using P i by (simp add: buf_def patch_def stored_blocks [OF ok st])
  have n: "get32 56 buf = nNumberOfLabels ?i"
    using arg_cong [OF parse_block [OF i refl, of "replicate (?P - 256) 0"], of nNumberOfLabels] by (simp add: buf parse_index_def)
  have first: "FwGetPCDFromOffsetSmallPayload 0 176 None d = (EFI_SUCCESS, Some buf, d)"
    using P rdy GetChunks_ok [OF rdy, of 0 2 "replicate ?P 0"]
    by (simp add: FwGetPCDFromOffsetSmallPayload_def word_less_nat_alt buf_def)
  define s where "s = 176 + 2 * LABELS_TO_FREE_BYTES (ROUNDUP (nNumberOfLabels ?i) 8)"
  have s: "unat s = 176 + 2 * F" "unat (176 + s) = 352 + 2 * F" "unat (128 + s) = 304 + 2 * F" "s \<noteq> 0"
  proof -
    show u: "unat s = 176 + 2 * F" using free_bytes [OF i] F(1) by (simp add: s_def F_def unat_word_ariths)
    then show "unat (176 + s) = 352 + 2 * F" "unat (128 + s) = 304 + 2 * F" "s \<noteq> 0"
      using F(1) by (auto simp: unat_word_ariths)
  qed
  have second: "FwGetPCDFromOffsetSmallPayload 176 s (Some buf) d = (EFI_SUCCESS, Some (patch buf 128 (mem_read (pcd d) 128 (E - 128))), d)"
    using P E rdy s GetChunks_ok [OF rdy, of 128 "(351 + 2 * F) div 128" buf] i
    by (simp add: FwGetPCDFromOffsetSmallPayload_def word_less_nat_alt buf E_def)
  obtain xs where "mem_read (pcd d) 0 512 = xs @ replicate (184 - F) 0"
    using area_padding [OF ok] st by (auto simp: stored_def area_bytes_def F_def)
  from small_area [OF this, of ?P] P E F(1) have "take 512 (patch buf 128 (mem_read (pcd d) 128 (E - 128))) = mem_read (pcd d) 0 512"
    by (simp add: E_def buf_def)
  moreover have "length (patch buf 128 (mem_read (pcd d) 128 (E - 128))) = ?P" using P E i by (simp add: buf E_def)
  ultimately show ?thesis
    using small first second st by (simp add: ReadIndexArea_def n s_def [symmetric] stored_def area_bytes_def)
qed

section \<open>The whole area\<close>

lemma two_elements: "length xs = 2 \<Longrightarrow> xs = [xs ! 0, xs ! 1]"
  by (cases xs; cases "tl xs") auto

lemma relabel:
  assumes "lsa_ok l" and "length ls = num_labels l" and "\<forall>x \<in> set ls. label_ok (page_size (Index l ! 0)) x"
    and "\<And>k. k < num_labels l \<Longrightarrow> \<not> slot_free (Index l ! cur_index l) k \<Longrightarrow> ls ! k = pLabels l ! k"
  shows "lsa_ok (l\<lparr>pLabels := ls\<rparr>) \<and> lsa_map (l\<lparr>pLabels := ls\<rparr>) = lsa_map l"
  using assms by (auto simp: lsa_ok_def num_labels_def lsa_map_def cur_index_def fun_eq_iff)

lemma read_area:
  assumes ok: "lsa_ok l" and fit: "lsa_fits d l" and rdy: "dimm_ready d"
    and raw: "ReadIndexArea d = Some (EFI_SUCCESS, Some raw, d)" "take 512 raw = area_bytes l"
  defines "i \<equiv> Index l ! cur_index l"
  shows "ReadLabelStorageArea d = Some (EFI_SUCCESS, Some (l\<lparr>pLabels :=
      (if LargePayload d then map (\<lambda>k. label_page (page_size i) (drop (512 + page_size i * k) raw)) [0..<num_labels l]
       else fst (ReadLabelsSmall i 512 0 (num_labels l) raw d))\<rparr>),
      if LargePayload d then d else snd (ReadLabelsSmall i 512 0 (num_labels l) raw d))"
proof -
  let ?l = "zero_lsa\<lparr>Index := Index l\<rparr>"
  have ix: "index_ok 0 (Index l ! 0)" "index_ok 1 (Index l ! 1)" "nNumberOfLabels (Index l ! 1) = nNumberOfLabels (Index l ! 0)"
    "Index l = [Index l ! 0, Index l ! 1]"
    using ok two_elements [of "Index l"] by (auto simp: lsa_ok_def)
  have split: "raw = index_block (Index l ! 0) @ index_block (Index l ! 1) @ drop 512 raw"
    using raw(2) append_take_drop_id [of 512 raw] by (simp add: area_bytes_def)
  have conv: "RawDataToLabelIndexArea raw (PcdLsaPartitionSize d) (True, True) zero_lsa = (EFI_SUCCESS, ?l)"
    using RawDataToLabelIndexArea_blocks [OF ix(1-3), of "PcdLsaPartitionSize d" "drop 512 raw" zero_lsa, folded split] fit ix(4)
    by (simp add: lsa_fits_def num_labels_def)
  have val: "ValidateLsaData ?l (True, True, True) = EFI_SUCCESS"
    using ix by (intro ValidateLsaData_ok) simp_all
  have get: "GetLsaIndexes ?l = Inr (cur_index l, 1 - cur_index l)"
    using lsa_ok_current(2) [OF ok] by (simp add: GetLsaIndexes_def)
  have attr: "Manageable d" "AttribsStatus d = EFI_SUCCESS" using rdy by (auto simp: dimm_ready_def)
  show ?thesis
    using raw(1) rdy conv val get attr lsa_ok_cur(2,3) [OF ok]
    by (simp add: ReadLabelStorageArea_def i_def zero_lsa_def case_prod_unfold Let_def)
qed

theorem Read_stored:
  assumes ok: "lsa_ok l" and fit: "lsa_fits d l" and rdy: "dimm_ready d" and st: "stored d l"
  shows "\<exists>l'. ReadLabelStorageArea d = Some (EFI_SUCCESS, Some l', d) \<and> lsa_ok l' \<and> Index l' = Index l \<and> lsa_map l' = lsa_map l
    \<and> (\<forall>k < num_labels l. pLabels l' ! k =
         (if LargePayload d \<or> \<not> slot_free (Index l ! cur_index l) k then page_at l d k else zero_label))"
proof -
  let ?p = "page_size (Index l ! 0)" and ?n = "num_labels l" and ?P = "unat (PcdLsaPartitionSize d)" and ?i = "Index l ! cur_index l"
  have p: "?p = 128 \<or> ?p = 256" using ok page_size_cases by (auto simp: lsa_ok_def)
  have lab: "label_ok ?p (pLabels l ! k)" if "k < ?n" for k using ok that by (simp add: lsa_ok_def)
  have here: "page_at l d k = pLabels l ! k" if "k < ?n" "\<not> slot_free ?i k" for k
    using label_page_bytes [OF lab [OF that(1)] p, of "[]"] st that by (simp add: page_at_def stored_def page_bytes_def)
  have good: "label_ok ?p (page_at l d k)" for k using label_page_ok [OF p] by (simp add: page_at_def Let_def)
  show ?thesis
  proof (cases "LargePayload d")
    case True
    let ?raw = "mem_read (pcd d) 0 ?P"
    define ls where "ls = map (\<lambda>k. label_page ?p (drop (512 + ?p * k) ?raw)) [0..<?n]"
    have ls: "ls ! k = page_at l d k" if "k < ?n" for k
    proof -
      have "512 + ?p * k + ?p \<le> ?P" using page_facts(3) [OF ok fit rdy that] .
      then show ?thesis using that by (simp add: ls_def label_page_def page_at_def Let_def mem_read_sub)
    qed
    have "512 \<le> ?P" using fit by (simp add: lsa_fits_def)
    then have "take 512 ?raw = area_bytes l"
      using mem_read_sub [of 0 512 ?P "pcd d" 0] st by (simp add: stored_def area_bytes_def)
    from read_area [OF ok fit rdy read_large [OF rdy True] this] True
    have read: "ReadLabelStorageArea d = Some (EFI_SUCCESS, Some (l\<lparr>pLabels := ls\<rparr>), d)"
      by (simp add: lsa_ok_cur(4) [OF ok] ls_def)
    have "lsa_ok (l\<lparr>pLabels := ls\<rparr>) \<and> lsa_map (l\<lparr>pLabels := ls\<rparr>) = lsa_map l"
      using ls here good by (intro relabel [OF ok]) (auto simp: ls_def in_set_conv_nth)
    with read ls True show ?thesis by simp
  next
    case False
    from read_small [OF ok fit rdy False st] obtain raw where
      raw: "ReadIndexArea d = Some (EFI_SUCCESS, Some raw, d)" "length raw = ?P" "take 512 raw = area_bytes l" by blast
    define ls where "ls = map (\<lambda>k. if used ?i k then page_at l d k else zero_label) [0..<?n]"
    have read: "ReadLabelStorageArea d = Some (EFI_SUCCESS, Some (l\<lparr>pLabels := ls\<rparr>), d)"
      using read_area [OF ok fit rdy raw(1,3)] False ReadLabelsSmall_ok [OF ok fit rdy _ raw(2), of 0 ?n] by (simp add: ls_def)
    have "lsa_ok (l\<lparr>pLabels := ls\<rparr>) \<and> lsa_map (l\<lparr>pLabels := ls\<rparr>) = lsa_map l"
      using here lab zero_label_ok used_slot(1) [OF ok lsa_ok_current(1) [OF ok]]
      by (intro relabel [OF ok]) (auto simp: ls_def)
    with read show ?thesis using False used_slot(1) [OF ok lsa_ok_current(1) [OF ok]] by (simp add: ls_def)
  qed
qed

end
