(* ===== verification/Label_Update.thy ===== *)
theory Label_Update
  imports Label_Read
begin

text \<open>
  Updates of the label storage area: an update fills the next index block from the current one,
  changes its bitmap and the labels, makes it the current one and writes the area. The operations
  on labels are shown as updates of the map from used slots to labels.
\<close>

section \<open>Free slots\<close>

definition free_slots :: "lsa \<Rightarrow> nat list" where
  "free_slots l = filter (slot_free (Index l ! cur_index l)) [0..<num_labels l]"

definition first_slot :: "nat list \<Rightarrow> u16" where
  "first_slot ks = (case ks of [] \<Rightarrow> UNDEFINED_SLOT_ID | k # _ \<Rightarrow> of_nat k)"

lemma FreeSlotsLoop_filter:
  assumes "k + n < 65535" and "\<And>j. k \<le> j \<Longrightarrow> j < k + n \<Longrightarrow> j div 8 < length (nFree idx)"
  shows "FreeSlotsLoop idx k n cnt first =
    (cnt + of_nat (length (filter (slot_free idx) [k..<k + n])),
     if first = UNDEFINED_SLOT_ID then first_slot (filter (slot_free idx) [k..<k + n]) else first)"
  using assms
proof (induction n arbitrary: k cnt first)
  case 0
  then show ?case by (simp add: first_slot_def)
next
  case (Suc n)
  have upt: "[k..<Suc (k + n)] = k # [Suc k..<Suc (k + n)]" by (simp add: upt_conv_Cons)
  have neq: "(of_nat k :: u16) \<noteq> UNDEFINED_SLOT_ID"
    using Suc.prems(1) by (simp add: word_unat_eq_iff unsigned_of_nat take_bit_nat_eq_self)
  have chk: "CheckSlotStatus idx (of_nat k) = (if slot_free idx k then SLOT_FREE else SLOT_USED)"
    using Suc.prems by (intro CheckSlotStatus_iff) simp_all
  have IH: "FreeSlotsLoop idx (Suc k) n c f =
    (c + of_nat (length (filter (slot_free idx) [Suc k..<Suc (k + n)])),
     if f = UNDEFINED_SLOT_ID then first_slot (filter (slot_free idx) [Suc k..<Suc (k + n)]) else f)" for c f
    using Suc.IH [of "Suc k"] Suc.prems by simp
  show ?case using chk neq by (auto simp: IH upt first_slot_def simp del: upt_Suc)
qed

lemma GetLsaFreeSlots_ok:
  assumes "lsa_ok l"
  shows "GetLsaFreeSlots l = Some (EFI_SUCCESS, of_nat (length (free_slots l)), first_slot (free_slots l))"
proof -
  note c = lsa_ok_cur [OF assms]
  have n: "num_labels l \<le> 1020" using c(1,3) by (simp add: index_ok_def)
  have "FreeSlotsLoop (Index l ! cur_index l) 0 (num_labels l) 0 UNDEFINED_SLOT_ID = (of_nat (length (free_slots l)), first_slot (free_slots l))"
    using FreeSlotsLoop_filter [of 0 "num_labels l" "Index l ! cur_index l" 0 UNDEFINED_SLOT_ID] n
      used_slot(2) [OF assms lsa_ok_current(1) [OF assms]] by (simp add: free_slots_def)
  with n show ?thesis
    by (simp add: GetLsaFreeSlots_def lsa_ok_current(2) [OF assms] c(3))
qed

lemma free_slots_facts:
  assumes "lsa_ok l"
  shows "length (free_slots l) \<le> 1020" and "unat (of_nat (length (free_slots l)) :: u16) = length (free_slots l)"
    and "free_slots l = k # ks \<Longrightarrow> k < num_labels l \<and> k < 65535 \<and> slot_free (Index l ! cur_index l) k \<and> unat (first_slot (free_slots l)) = k"
proof -
  have n: "num_labels l \<le> 1020" using lsa_ok_cur(1,3) [OF assms] by (simp add: index_ok_def)
  have "length (free_slots l) \<le> num_labels l"
    unfolding free_slots_def by (metis length_filter_le length_upt diff_zero)
  with n show f: "length (free_slots l) \<le> 1020" by simp
  then show "unat (of_nat (length (free_slots l)) :: u16) = length (free_slots l)"
    by (simp add: unsigned_of_nat take_bit_nat_eq_self)
  assume ks: "free_slots l = k # ks"
  then have "k \<in> set (free_slots l)" by simp
  then have "k < num_labels l" "slot_free (Index l ! cur_index l) k" by (auto simp: free_slots_def)
  with n ks show "k < num_labels l \<and> k < 65535 \<and> slot_free (Index l ! cur_index l) k \<and> unat (first_slot (free_slots l)) = k"
    by (simp add: first_slot_def unsigned_of_nat take_bit_nat_eq_self)
qed

section \<open>Switching the index block\<close>

definition next_index :: "lsa \<Rightarrow> nat" where
  "next_index l = 1 - cur_index l"

text \<open>An area whose next index block has another bitmap, and other labels.\<close>

definition prepared :: "lsa \<Rightarrow> u8 list \<Rightarrow> namespace_label list \<Rightarrow> lsa" where
  "prepared l fr ls = l\<lparr>Index := (Index l)[next_index l := (Index l ! next_index l)\<lparr>nFree := fr\<rparr>], pLabels := ls\<rparr>"

definition prepared_ok :: "lsa \<Rightarrow> u8 list \<Rightarrow> namespace_label list \<Rightarrow> bool" where
  "prepared_ok l fr ls \<longleftrightarrow> lsa_ok l \<and> length fr = length (nFree (Index l ! 0)) \<and> length ls = num_labels l
     \<and> (\<forall>x \<in> set ls. label_ok (page_size (Index l ! 0)) x)"

text \<open>An index block whose checksum field matches its contents.\<close>

definition index_sealed :: "namespace_index \<Rightarrow> bool" where
  "index_sealed i \<longleftrightarrow> fst (ChecksumOperations (index_block i) 256 CHECKSUM_OFFSET False)"

definition seal :: "namespace_index \<Rightarrow> namespace_index" where
  "seal i = i\<lparr>nChecksum := fletcher64 (index_block i) CHECKSUM_OFFSET\<rparr>"

lemma index_ok_seal [simp]: "index_ok k (seal i) = index_ok k i"
  by (simp add: index_ok_def index_wf_def seal_def)

lemma seal_simps [simp]:
  "nSequence (seal i) = nSequence i" "nFree (seal i) = nFree i" "nNumberOfLabels (seal i) = nNumberOfLabels i"
  "nMinor (seal i) = nMinor i" "nMajor (seal i) = nMajor i" "page_size (seal i) = page_size i" "nMySize (seal i) = nMySize i"
  by (simp_all add: seal_def page_size_def label_version_1_1_def)

lemma index_block_checksum:
  assumes "index_wf i"
  shows "index_block (i\<lparr>nChecksum := c\<rparr>) = patch (index_block i) CHECKSUM_OFFSET (le64 c)"
proof -
  define pre where "pre = nSignature i @ nFlags i @ [nLabelSize i] @ le32 (nSequence i) @ le64 (nMyOffset i) @
     le64 (nMySize i) @ le64 (nOtherOffset i) @ le64 (nLabelOffset i) @ le32 (nNumberOfLabels i) @ le16 (nMajor i) @ le16 (nMinor i)"
  have "length pre = 64" using assms by (simp add: pre_def index_wf_def)
  moreover have "index_header (i\<lparr>nChecksum := x\<rparr>) = pre @ le64 x" for x by (simp add: index_header_def pre_def)
  moreover from this [of "nChecksum i"] have "index_header i = pre @ le64 (nChecksum i)" by simp
  ultimately show ?thesis by (simp add: index_block_def patch_def)
qed

lemma index_sealed_seal:
  assumes "index_ok k i"
  shows "index_sealed (seal i)" and "get64 CHECKSUM_OFFSET (snd (ChecksumOperations (index_block i) 256 CHECKSUM_OFFSET True)) = nChecksum (seal i)"
proof -
  let ?ck = "fletcher64 (index_block i) CHECKSUM_OFFSET"
  have len: "length (index_block i) = 256" using assms by simp
  have "index_block (seal i) = patch (index_block i) CHECKSUM_OFFSET (le64 ?ck)"
    using assms by (simp add: seal_def index_block_checksum index_ok_def)
  with len show "index_sealed (seal i)"
    by (simp add: index_sealed_def ChecksumOperations_def fletcher64_patch)
  show "get64 CHECKSUM_OFFSET (snd (ChecksumOperations (index_block i) 256 CHECKSUM_OFFSET True)) = nChecksum (seal i)"
    using len by (simp add: ChecksumOperations_def get64_def seal_def)
qed

lemma next_index_facts:
  assumes "lsa_ok l"
  shows "next_index l < 2" and "next_index l \<noteq> cur_index l" and "GetLsaIndexes l = Inr (cur_index l, next_index l)"
  using lsa_ok_current [OF assms] less_2_cases [of "cur_index l"] by (auto simp: next_index_def)

lemma length_sig [simp]: "length LSA_NAMESPACE_INDEX_SIG = 16"
  by (simp add: LSA_NAMESPACE_INDEX_SIG_def)

text \<open>The effect of \<open>UpdateLsaIndex\<close>: the next block receives the next sequence number and is sealed.\<close>

definition switched :: "lsa \<Rightarrow> lsa" where
  "switched l = l\<lparr>Index := (Index l)[next_index l :=
     seal ((Index l ! next_index l)\<lparr>nSequence := NextSequence (nSequence (Index l ! cur_index l))\<rparr>)]\<rparr>"

lemma UpdateLsaIndex_switched:
  assumes "lsa_ok l"
  shows "UpdateLsaIndex l True = (EFI_SUCCESS, switched l)"
proof -
  note x = next_index_facts [OF assms]
  define nxt where "nxt = (Index l ! next_index l)\<lparr>nSequence := NextSequence (nSequence (Index l ! cur_index l))\<rparr>"
  let ?l = "l\<lparr>Index := (Index l)[next_index l := nxt]\<rparr>"
  have q: "lsa_seq_valid (NextSequence (nSequence (Index l ! cur_index l)))"
    using lsa_ok_cur(1) [OF assms] by (intro lsa_seq.bump_valid) (simp add: index_ok_def)
  have ok: "index_ok (next_index l) nxt"
    using lsa_ok_index(1) [OF assms x(1)] q by (simp add: index_ok_def index_wf_def nxt_def)
  have two: "length (Index l) = 2" using assms by (simp add: lsa_ok_def)
  have raw: "LabelIndexAreaToRawData ?l (next_index l) True = (EFI_SUCCESS, Some (index_block nxt))"
    using LabelIndexAreaToRawData_one [of "next_index l" ?l] ok x(1) two by simp
  have "fst (ChecksumOperations (index_block nxt) 256 CHECKSUM_OFFSET True)" by (simp add: ChecksumOperations_def)
  with raw index_sealed_seal(2) [OF ok] lsa_ok_cur(2) [OF assms] show ?thesis
    by (simp add: UpdateLsaIndex_def x(3) Let_def case_prod_unfold switched_def seal_def flip: nxt_def)
qed

lemma switched_facts:
  assumes "lsa_ok l"
  shows "lsa_ok (switched l)" and "cur_index (switched l) = next_index l" and "pLabels (switched l) = pLabels l"
    and "num_labels (switched l) = num_labels l" and "page_size (Index (switched l) ! 0) = page_size (Index l ! 0)"
    and "nFree (Index (switched l) ! next_index l) = nFree (Index l ! next_index l)"
    and "Index (switched l) ! cur_index l = Index l ! cur_index l" and "index_sealed (Index (switched l) ! next_index l)"
proof -
  note x = next_index_facts [OF assms]
  define nxt where "nxt = (Index l ! next_index l)\<lparr>nSequence := NextSequence (nSequence (Index l ! cur_index l))\<rparr>"
  have v: "lsa_seq_valid (nSequence (Index l ! cur_index l))" using lsa_ok_cur(1) [OF assms] by (simp add: index_ok_def)
  have two: "length (Index l) = 2" using assms by (simp add: lsa_ok_def)
  have ok: "index_ok (next_index l) nxt"
    using lsa_ok_index(1) [OF assms x(1)] lsa_seq.bump_valid [OF v] by (simp add: index_ok_def index_wf_def nxt_def)
  have sw: "Index (switched l) = (Index l)[next_index l := seal nxt]" by (simp add: switched_def nxt_def)
  have c: "cur_index l = 0 \<and> next_index l = 1 \<or> cur_index l = 1 \<and> next_index l = 0"
    using lsa_ok_current(1) [OF assms] by (auto simp: next_index_def)
  have seq: "nSequence nxt = NextSequence (nSequence (Index l ! cur_index l))" by (simp add: nxt_def)
  have sel: "LsaSelect (nSequence (Index (switched l) ! 0)) (nSequence (Index (switched l) ! 1)) = Some (next_index l)"
    "lsa_seq.current_valid (nSequence (Index (switched l) ! 0), nSequence (Index (switched l) ! 1))"
    using c two lsa_seq.bump_first [OF v] lsa_seq.bump_second [OF v] lsa_seq.bump_valid [OF v]
    by (auto simp: sw seq lsa_seq.current_valid_def)
  show cur: "cur_index (switched l) = next_index l" using sel(1) by (simp add: cur_index_def)
  have same: "nNumberOfLabels nxt = nNumberOfLabels (Index l ! 0)" "nMinor nxt = nMinor (Index l ! 0)" "page_size nxt = page_size (Index l ! 0)"
    using c assms lsa_ok_index(3) [OF assms x(1)] by (auto simp: nxt_def lsa_ok_def page_size_def label_version_1_1_def)
  show n: "num_labels (switched l) = num_labels l" and p: "page_size (Index (switched l) ! 0) = page_size (Index l ! 0)"
    using c two same by (auto simp: num_labels_def sw)
  show l: "pLabels (switched l) = pLabels l" by (simp add: switched_def)
  show "nFree (Index (switched l) ! next_index l) = nFree (Index l ! next_index l)"
    and "Index (switched l) ! cur_index l = Index l ! cur_index l" and "index_sealed (Index (switched l) ! next_index l)"
    using c two index_sealed_seal(1) [OF ok] by (auto simp: sw nxt_def)
  have "index_ok 0 (Index (switched l) ! 0)" "index_ok 1 (Index (switched l) ! 1)"
    "nNumberOfLabels (Index (switched l) ! 1) = nNumberOfLabels (Index (switched l) ! 0)"
    "nMinor (Index (switched l) ! 1) = nMinor (Index (switched l) ! 0)"
    using c two same ok assms by (auto simp: sw lsa_ok_def)
  moreover have "length (Index (switched l)) = 2" using two by (simp add: sw)
  ultimately show "lsa_ok (switched l)"
    using assms sel(2) unfolding lsa_ok_def n p l by simp
qed

section \<open>Committing a prepared area\<close>

lemma prepared_facts:
  assumes "prepared_ok l fr ls"
  shows "lsa_ok (prepared l fr ls)" and "cur_index (prepared l fr ls) = cur_index l" and "next_index (prepared l fr ls) = next_index l"
    and "num_labels (prepared l fr ls) = num_labels l" and "page_size (Index (prepared l fr ls) ! 0) = page_size (Index l ! 0)"
    and "nFree (Index (prepared l fr ls) ! next_index l) = fr" and "Index (prepared l fr ls) ! cur_index l = Index l ! cur_index l"
    and "pLabels (prepared l fr ls) = ls" and "free_slots (prepared l fr ls) = free_slots l"
proof -
  have ok: "lsa_ok l" and len: "length fr = length (nFree (Index l ! 0))" using assms by (simp_all add: prepared_ok_def)
  note x = next_index_facts [OF ok]
  define nxt where "nxt = (Index l ! next_index l)\<lparr>nFree := fr\<rparr>"
  have two: "length (Index l) = 2" using ok by (simp add: lsa_ok_def)
  have ix: "Index (prepared l fr ls) = (Index l)[next_index l := nxt]" by (simp add: prepared_def nxt_def)
  have c: "cur_index l = 0 \<and> next_index l = 1 \<or> cur_index l = 1 \<and> next_index l = 0"
    using lsa_ok_current(1) [OF ok] by (auto simp: next_index_def)
  have seqs: "nSequence (Index (prepared l fr ls) ! k) = nSequence (Index l ! k)" for k
    using two by (cases "k = next_index l"; cases "k < 2") (auto simp: ix nxt_def x(1))
  show cur: "cur_index (prepared l fr ls) = cur_index l" by (simp add: cur_index_def seqs)
  then show "next_index (prepared l fr ls) = next_index l" by (simp add: next_index_def)
  show n: "num_labels (prepared l fr ls) = num_labels l" and p: "page_size (Index (prepared l fr ls) ! 0) = page_size (Index l ! 0)"
    using c two by (auto simp: num_labels_def ix nxt_def page_size_def label_version_1_1_def)
  show l: "pLabels (prepared l fr ls) = ls" by (simp add: prepared_def)
  show "nFree (Index (prepared l fr ls) ! next_index l) = fr"
    and i: "Index (prepared l fr ls) ! cur_index l = Index l ! cur_index l" using c two by (auto simp: ix nxt_def)
  show "free_slots (prepared l fr ls) = free_slots l" by (simp add: free_slots_def cur n i)
  have "length (nFree (Index l ! 1)) = length (nFree (Index l ! 0))" using ok by (simp add: lsa_ok_def index_ok_def)
  then have "index_ok (next_index l) nxt"
    using lsa_ok_index(1) [OF ok x(1)] len c by (auto simp: index_ok_def index_wf_def nxt_def)
  then have "index_ok 0 (Index (prepared l fr ls) ! 0)" "index_ok 1 (Index (prepared l fr ls) ! 1)"
    "nNumberOfLabels (Index (prepared l fr ls) ! 1) = nNumberOfLabels (Index (prepared l fr ls) ! 0)"
    "nMinor (Index (prepared l fr ls) ! 1) = nMinor (Index (prepared l fr ls) ! 0)" "length (Index (prepared l fr ls)) = 2"
    using c two ok by (auto simp: ix lsa_ok_def nxt_def)
  then show "lsa_ok (prepared l fr ls)"
    using assms ok unfolding prepared_ok_def lsa_ok_def n p l seqs by simp
qed

text \<open>A DIMM whose partition holds an area, and a bitmap and labels as a map.\<close>

definition holds :: "dimm \<Rightarrow> lsa \<Rightarrow> bool" where
  "holds d l \<longleftrightarrow> dimm_ready d \<and> lsa_ok l \<and> lsa_fits d l \<and> stored d l"

definition bit_free :: "u8 list \<Rightarrow> nat \<Rightarrow> bool" where
  "bit_free fr k \<longleftrightarrow> k div 8 < length fr \<and> bit (fr ! (k div 8)) (k mod 8)"

definition slot_map :: "u8 list \<Rightarrow> namespace_label list \<Rightarrow> nat \<rightharpoonup> namespace_label" where
  "slot_map fr ls k = (if k < length ls \<and> \<not> bit_free fr k then Some (ls ! k) else None)"

lemma slot_free_bit_free: "slot_free i = bit_free (nFree i)"
  by (simp add: fun_eq_iff slot_free_def bit_free_def)

lemma lsa_map_slot_map: "lsa_ok l \<Longrightarrow> lsa_map l = slot_map (nFree (Index l ! cur_index l)) (pLabels l)"
  by (simp add: fun_eq_iff lsa_map_def slot_map_def slot_free_bit_free lsa_ok_def)

theorem commit:
  assumes prep: "prepared_ok l fr ls" and fit: "lsa_fits d l" and rdy: "dimm_ready d"
  shows "\<exists>l2 m. UpdateLsaIndex (prepared l fr ls) True = (EFI_SUCCESS, l2)
    \<and> WriteLabelStorageArea l2 d = (EFI_SUCCESS, d\<lparr>pcd := m\<rparr>) \<and> holds (d\<lparr>pcd := m\<rparr>) l2 \<and> lsa_map l2 = slot_map fr ls
    \<and> cur_index l2 = next_index l \<and> index_sealed (Index l2 ! cur_index l2)
    \<and> num_labels l2 = num_labels l \<and> page_size (Index l2 ! 0) = page_size (Index l ! 0)
    \<and> (\<forall>k < num_labels l. slot_free (Index l2 ! cur_index l2) k \<longrightarrow>
         page_at l2 (d\<lparr>pcd := m\<rparr>) k = (if LargePayload d then ls ! k else page_at l d k))"
proof -
  note p = prepared_facts [OF prep]
  let ?l = "switched (prepared l fr ls)"
  note s = switched_facts [OF p(1)]
  have fits: "lsa_fits d ?l" using fit by (simp add: lsa_fits_def s p)
  from Write_stores [OF s(1) this rdy] obtain m where
    m: "WriteLabelStorageArea ?l d = (EFI_SUCCESS, d\<lparr>pcd := m\<rparr>)" "stored (d\<lparr>pcd := m\<rparr>) ?l"
    and free: "\<forall>k < num_labels ?l. slot_free (Index ?l ! cur_index ?l) k \<longrightarrow>
      mem_read m (512 + page_size (Index ?l ! 0) * k) (page_size (Index ?l ! 0)) =
        (if LargePayload d then page_bytes ?l k
         else mem_read (pcd d) (512 + page_size (Index ?l ! 0) * k) (page_size (Index ?l ! 0)))" by blast
  have lab: "label_page (page_size (Index l ! 0)) (page_bytes ?l k) = ls ! k" if "k < num_labels l" for k
  proof -
    have "length ls = num_labels l" using prep by (simp add: prepared_ok_def)
    then have "label_ok (page_size (Index l ! 0)) (ls ! k)" using prep that by (simp add: prepared_ok_def)
    moreover have "page_size (Index l ! 0) = 128 \<or> page_size (Index l ! 0) = 256"
      using prep page_size_cases by (auto simp: prepared_ok_def lsa_ok_def)
    ultimately show ?thesis
      using label_page_bytes [of "page_size (Index l ! 0)" "ls ! k" "[]"] by (simp add: page_bytes_def s(3,5) p(5,8))
  qed
  have pages: "page_at ?l (d\<lparr>pcd := m\<rparr>) k = (if LargePayload d then ls ! k else page_at l d k)"
    if "k < num_labels l" "slot_free (Index ?l ! cur_index ?l) k" for k
    using free that lab [OF that(1)] by (simp add: page_at_def Let_def s(4,5) p(4,5))
  have "lsa_map ?l = slot_map fr ls"
    using lsa_map_slot_map [OF s(1)] s(6) p(6) by (simp add: s(2,3) p(3,8))
  moreover have "lsa_fits (d\<lparr>pcd := m\<rparr>) ?l" using fits by (simp add: lsa_fits_def)
  ultimately show ?thesis
    using UpdateLsaIndex_switched [OF p(1)] m s(1,2,8) rdy pages
    by (intro exI [of _ ?l] exI [of _ m]) (simp add: holds_def p(3-5) s(4,5))
qed

end
