(* ===== verification/Label_Ops.thy ===== *)
theory Label_Ops
  imports Label_Update
begin

text \<open>
  Inserting, modifying and removing labels on a DIMM as updates of the map from used slots to
  labels, and the properties of the label storage area.
\<close>

section \<open>Labels that fit a version\<close>

definition upper_half :: "namespace_label \<Rightarrow> u8 list" where
  "upper_half x = lTypeGuid x @ lAddressAbstractionGuid x @ lReserved1 x @ le64 (lChecksum x)"

lemma label_ok_cases:
  assumes "p = 128 \<or> p = 256"
  shows "label_ok p x \<longleftrightarrow> label_wf x \<and> (p = 128 \<longrightarrow> upper_half x = replicate 128 0)"
proof -
  have "drop 128 (label_bytes x) = upper_half x" if "label_wf x"
    using that by (simp add: label_bytes_def upper_half_def label_wf_def)
  then show ?thesis using assms by (auto simp: label_ok_def)
qed

lemma label_ok_slot:
  "p = 128 \<or> p = 256 \<Longrightarrow> label_ok p (x\<lparr>lSlot := s\<rparr>) = label_ok p x"
  by (simp add: label_ok_cases label_wf_def upper_half_def)

lemma ModifyLabel_ok:
  assumes "p = 128 \<or> p = 256" and "label_ok p x" and "\<And>n. pName = Some n \<Longrightarrow> length n = 64"
  shows "label_ok p (ModifyLabel pFlags pName TotalLabelsNum pNewPosition NewRawSize x)"
proof -
  have "length (patch (lName x) 0 (take 63 n)) = 64" if "pName = Some n" for n
    using assms that by (simp add: label_ok_cases label_wf_def)
  with assms(1,2) show ?thesis
    by (auto simp: ModifyLabel_def label_ok_cases label_wf_def upper_half_def Let_def split: option.splits)
qed

lemma SealLabel_ok: "label_ok 256 x \<Longrightarrow> fst (SealLabel x) \<and> label_ok 256 (snd (SealLabel x))"
  by (simp add: SealLabel_def label_ok_cases label_wf_def ChecksumOperations_def)

section \<open>Steps on a prepared area\<close>

lemma CopyFreeMap_prepared:
  assumes "lsa_ok l"
  shows "CopyFreeMap (cur_index l) (next_index l) l = prepared l (nFree (Index l ! cur_index l)) (pLabels l)"
    and "prepared_ok l (nFree (Index l ! cur_index l)) (pLabels l)"
proof -
  note x = next_index_facts(1) [OF assms]
  have len: "length (nFree (Index l ! k)) = length (nFree (Index l ! 0))" if "k < 2" for k
    using lsa_ok_index(1,2) [OF assms that] lsa_ok_index(1) [OF assms, of 0] by (simp add: index_ok_def)
  show "prepared_ok l (nFree (Index l ! cur_index l)) (pLabels l)"
    using assms len [OF lsa_ok_current(1) [OF assms]] by (simp add: prepared_ok_def lsa_ok_def)
  have "patch (nFree (Index l ! next_index l)) 0 (nFree (Index l ! cur_index l)) = nFree (Index l ! cur_index l)"
    using len [OF lsa_ok_current(1) [OF assms]] len [OF x] by (simp add: patch_def)
  then show "CopyFreeMap (cur_index l) (next_index l) l = prepared l (nFree (Index l ! cur_index l)) (pLabels l)"
    by (simp add: CopyFreeMap_def Let_def free_bytes [OF lsa_ok_cur(1) [OF assms]] prepared_def)
qed

text \<open>\<open>ChangeSlotStatus\<close> on the bitmap alone.\<close>

definition change_bit :: "u8 list \<Rightarrow> nat \<Rightarrow> slot_status \<Rightarrow> u8 list" where
  "change_bit fr k st = nFree (snd (ChangeSlotStatus (zero_index\<lparr>nFree := fr\<rparr>) (of_nat k) st))"

lemma ChangeSlotStatus_bits: "snd (ChangeSlotStatus i (of_nat k) st) = i\<lparr>nFree := change_bit (nFree i) k st\<rparr>"
  by (cases st) (simp_all add: ChangeSlotStatus_def change_bit_def Let_def)

lemma change_bit_facts:
  assumes "k < 65536" and "k div 8 < length fr" and "st \<noteq> SLOT_UNKNOWN"
  shows "bit_free (change_bit fr k st) = (bit_free fr)(k := (st = SLOT_FREE))" and "length (change_bit fr k st) = length fr"
  using ChangeSlotStatus_free(2,3) [of k "zero_index\<lparr>nFree := fr\<rparr>" st] assms
  by (simp_all add: slot_free_bit_free change_bit_def)

lemma SetSlot_prepared:
  assumes "lsa_ok l"
  shows "SetSlot (next_index l) k st (prepared l fr ls) = prepared l (change_bit fr k st) ls"
  using next_index_facts(1) [OF assms] assms
  by (simp add: SetSlot_def prepared_def ChangeSlotStatus_bits lsa_ok_def)

lemma prepared_labels: "(prepared l fr ls)\<lparr>pLabels := ls'\<rparr> = prepared l fr ls'"
  by (simp add: prepared_def)

lemma pLabels_prepared [simp]: "pLabels (prepared l fr ls) = ls"
  by (simp add: prepared_def)

lemma slot_in_bitmap:
  assumes "lsa_ok l" and "k < num_labels l"
  shows "k div 8 < length (nFree (Index l ! 0))" and "k < 65536"
  using used_slot(2,3) [OF assms(1) _ assms(2), of 0] by auto

lemma prepared_change:
  assumes "prepared_ok l fr ls" and "k < num_labels l" and "st \<noteq> SLOT_UNKNOWN" and "label_ok (page_size (Index l ! 0)) x"
  shows "prepared_ok l (change_bit fr k st) (ls[j := x])"
    and "bit_free (change_bit fr k st) = (bit_free fr)(k := (st = SLOT_FREE))"
proof -
  have k: "k div 8 < length fr" "k < 65536"
    using assms(1) slot_in_bitmap [OF _ assms(2)] by (auto simp: prepared_ok_def)
  show "bit_free (change_bit fr k st) = (bit_free fr)(k := (st = SLOT_FREE))"
    by (rule change_bit_facts(1) [OF k(2,1) assms(3)])
  show "prepared_ok l (change_bit fr k st) (ls[j := x])"
    using assms change_bit_facts(2) [OF k(2,1) assms(3)] set_update_subset_insert [of ls j x] by (auto simp: prepared_ok_def)
qed

section \<open>Inserting\<close>

lemma PlaceLabels_prepared:
  assumes "prepared_ok l fr ls" and "free_slots l = k # ks" and "labels \<noteq> []"
    and "\<forall>x \<in> set labels. label_ok (page_size (Index l ! 0)) x"
  shows "\<exists>fr'. PlaceLabels (next_index l) labels (prepared l fr ls)
       = Some (EFI_SUCCESS, prepared l fr' (ls[k := (last labels)\<lparr>lSlot := of_nat k\<rparr>]))
     \<and> prepared_ok l fr' (ls[k := (last labels)\<lparr>lSlot := of_nat k\<rparr>]) \<and> bit_free fr' = (bit_free fr)(k := False)"
  using assms(1,3,4)
proof (induction labels arbitrary: fr ls)
  case (Cons x xs)
  have ok: "lsa_ok l" using Cons.prems(1) by (simp add: prepared_ok_def)
  note k = free_slots_facts(3) [OF ok assms(2)]
  let ?x = "x\<lparr>lSlot := of_nat k\<rparr>" and ?fr = "change_bit fr k SLOT_USED"
  have p: "page_size (Index l ! 0) = 128 \<or> page_size (Index l ! 0) = 256" using ok page_size_cases by (auto simp: lsa_ok_def)
  have x: "label_ok (page_size (Index l ! 0)) ?x" using Cons.prems(3) by (simp add: label_ok_slot [OF p])
  note f = prepared_facts [OF Cons.prems(1)]
  have slot: "(ucast (first_slot (free_slots l)) :: u32) = of_nat k"
    using k by (simp add: first_slot_def assms(2) word_unat_eq_iff unsigned_ucast_eq unsigned_of_nat take_bit_nat_eq_self)
  have ch: "prepared_ok l ?fr (ls[k := ?x])" "bit_free ?fr = (bit_free fr)(k := False)"
    using prepared_change(1) [OF Cons.prems(1) _ _ x, of k SLOT_USED k] prepared_change(2) [OF Cons.prems(1) _ _ x, of k SLOT_USED] k by simp_all
  have step: "PlaceLabels (next_index l) (x # xs) (prepared l fr ls) = PlaceLabels (next_index l) xs (prepared l ?fr (ls[k := ?x]))"
    using k slot by (simp add: GetLsaFreeSlots_ok [OF f(1)] f(8,9) prepared_labels SetSlot_prepared [OF ok] Let_def)
  show ?case
  proof (cases "xs = []")
    case True
    have "PlaceLabels (next_index l) (x # xs) (prepared l fr ls) = Some (EFI_SUCCESS, prepared l ?fr (ls[k := ?x]))"
      by (rule trans [OF step]) (simp add: True)
    with ch True show ?thesis by (intro exI [of _ ?fr]) (simp del: PlaceLabels.simps)
  next
    case False
    with Cons.IH [of ?fr "ls[k := ?x]"] ch k Cons.prems(3) show ?thesis
      by (simp add: step fun_upd_idem del: PlaceLabels.simps)
  qed
qed simp

lemma read_holds:
  assumes "holds d l"
  obtains l' where "ReadLabelStorageArea d = Some (EFI_SUCCESS, Some l', d)" and "lsa_ok l'" and "lsa_fits d l'"
    and "Index l' = Index l" and "lsa_map l' = lsa_map l" and "free_slots l' = free_slots l" and "cur_index l' = cur_index l"
    and "\<And>k. k < num_labels l \<Longrightarrow> pLabels l' ! k =
      (if LargePayload d \<or> \<not> slot_free (Index l ! cur_index l) k then page_at l d k else zero_label)"
proof -
  from Read_stored [of l d] assms obtain l' where
    r: "ReadLabelStorageArea d = Some (EFI_SUCCESS, Some l', d)" "lsa_ok l'" "Index l' = Index l" "lsa_map l' = lsa_map l"
    and free: "\<forall>k < num_labels l. pLabels l' ! k =
      (if LargePayload d \<or> \<not> slot_free (Index l ! cur_index l) k then page_at l d k else zero_label)"
    by (auto simp: holds_def)
  moreover from r(3) have "lsa_fits d l' = lsa_fits d l" "free_slots l' = free_slots l" "cur_index l' = cur_index l"
    by (simp_all add: lsa_fits_def num_labels_def free_slots_def cur_index_def)
  ultimately show ?thesis using assms that free by (simp add: holds_def)
qed

text \<open>
  Nothing of the DIMM but the partition changes; the other index block becomes the current one. The
  page behind a free slot is the old one or cleared.
\<close>

definition updated :: "dimm \<Rightarrow> lsa \<Rightarrow> dimm \<Rightarrow> lsa \<Rightarrow> (nat \<rightharpoonup> namespace_label) \<Rightarrow> bool" where
  "updated d l d' l' m \<longleftrightarrow> holds d' l' \<and> lsa_map l' = m \<and> d' = d\<lparr>pcd := pcd d'\<rparr> \<and> cur_index l' = next_index l
     \<and> index_sealed (Index l' ! cur_index l') \<and> num_labels l' = num_labels l \<and> page_size (Index l' ! 0) = page_size (Index l ! 0)
     \<and> (\<forall>k < num_labels l. slot_free (Index l' ! cur_index l') k \<longrightarrow> page_at l' d' k \<in> {zero_label, page_at l d k})"

lemma commit_updated:
  assumes "prepared_ok l fr ls" and "lsa_fits d l" and "dimm_ready d" and "Index l = Index l0"
    and "\<And>k. k < num_labels l \<Longrightarrow> bit_free fr k \<Longrightarrow> LargePayload d \<Longrightarrow> ls ! k \<in> {zero_label, page_at l d k}"
  shows "\<exists>l2 d' l'. UpdateLsaIndex (prepared l fr ls) True = (EFI_SUCCESS, l2) \<and> WriteLabelStorageArea l2 d = (EFI_SUCCESS, d')
     \<and> updated d l0 d' l' (slot_map fr ls)"
proof -
  from commit [OF assms(1-3)] obtain l2 m where
    "UpdateLsaIndex (prepared l fr ls) True = (EFI_SUCCESS, l2)" "WriteLabelStorageArea l2 d = (EFI_SUCCESS, d\<lparr>pcd := m\<rparr>)"
    "holds (d\<lparr>pcd := m\<rparr>) l2" "lsa_map l2 = slot_map fr ls" "cur_index l2 = next_index l" "index_sealed (Index l2 ! cur_index l2)"
    "num_labels l2 = num_labels l" "page_size (Index l2 ! 0) = page_size (Index l ! 0)"
    and free: "\<forall>k < num_labels l. slot_free (Index l2 ! cur_index l2) k \<longrightarrow>
      page_at l2 (d\<lparr>pcd := m\<rparr>) k = (if LargePayload d then ls ! k else page_at l d k)" by blast
  moreover have "next_index l = next_index l0" "num_labels l = num_labels l0" "page_size (Index l ! 0) = page_size (Index l0 ! 0)"
    "page_at l = page_at l0"
    using assms(4) by (simp_all add: next_index_def cur_index_def num_labels_def page_at_def [abs_def])
  moreover have "bit_free fr k" if "k < num_labels l" "slot_free (Index l2 ! cur_index l2) k" for k
  proof -
    have "lsa_map l2 k = None" using that by (simp add: lsa_map_def)
    then show ?thesis using \<open>lsa_map l2 = slot_map fr ls\<close> that(1) assms(1) by (auto simp: slot_map_def prepared_ok_def split: if_splits)
  qed
  moreover from this free have "page_at l2 (d\<lparr>pcd := m\<rparr>) k \<in> {zero_label, page_at l d k}"
    if "k < num_labels l" "slot_free (Index l2 ! cur_index l2) k" for k
    using assms(5) [OF that(1)] that by auto
  ultimately show ?thesis by (intro exI [of _ l2] exI [of _ "d\<lparr>pcd := m\<rparr>"]) (simp add: updated_def)
qed

lemma InsertIntoLsa_updated:
  assumes h: "holds d l" and labels: "labels \<noteq> []" "\<forall>x \<in> set labels. label_ok (page_size (Index l ! 0)) x"
    and room: "length labels + 1 \<le> length (free_slots l)"
  defines "k \<equiv> hd (free_slots l)"
  shows "\<exists>d' l'. InsertIntoLsa labels d = Some (EFI_SUCCESS, d')
     \<and> updated d l d' l' ((lsa_map l)(k \<mapsto> (last labels)\<lparr>lSlot := of_nat k\<rparr>))"
proof -
  obtain l1 where r: "ReadLabelStorageArea d = Some (EFI_SUCCESS, Some l1, d)" "lsa_ok l1" "lsa_fits d l1" "Index l1 = Index l"
    "lsa_map l1 = lsa_map l" "free_slots l1 = free_slots l" "cur_index l1 = cur_index l"
    and pg: "\<And>j. j < num_labels l \<Longrightarrow> LargePayload d \<Longrightarrow> pLabels l1 ! j = page_at l d j"
    by (rule read_holds [OF h]) simp
  have nl: "num_labels l1 = num_labels l" "page_at l1 = page_at l" using r(4) by (simp_all add: num_labels_def page_at_def [abs_def])
  have rdy: "dimm_ready d" using h by (simp add: holds_def)
  from room obtain ks where ks: "free_slots l1 = k # ks" unfolding r(6) k_def by (cases "free_slots l") auto
  note cp = CopyFreeMap_prepared [OF r(2)] and fs = free_slots_facts [OF r(2)] and kf = free_slots_facts(3) [OF r(2) ks]
  let ?ls = "(pLabels l1)[k := (last labels)\<lparr>lSlot := of_nat k\<rparr>]"
  from PlaceLabels_prepared [OF cp(2) ks labels(1)] labels(2) obtain fr where
    fr: "PlaceLabels (next_index l1) labels (prepared l1 (nFree (Index l1 ! cur_index l1)) (pLabels l1)) = Some (EFI_SUCCESS, prepared l1 fr ?ls)"
      "prepared_ok l1 fr ?ls" "bit_free fr = (bit_free (nFree (Index l1 ! cur_index l1)))(k := False)" by (auto simp: r(4))
  have "?ls ! j \<in> {zero_label, page_at l1 d j}" if "j < num_labels l1" "bit_free fr j" "LargePayload d" for j
    using that pg fr(3) nl by (cases "j = k") auto
  from commit_updated [OF fr(2) r(3) rdy r(4) this] obtain l2 d' l' where
    c: "UpdateLsaIndex (prepared l1 fr ?ls) True = (EFI_SUCCESS, l2)" "WriteLabelStorageArea l2 d = (EFI_SUCCESS, d')"
      "updated d l d' l' (slot_map fr ?ls)" by blast
  have "length (pLabels l1) = num_labels l1" using r(2) by (simp add: lsa_ok_def)
  then have m: "slot_map fr ?ls = (lsa_map l)(k \<mapsto> (last labels)\<lparr>lSlot := of_nat k\<rparr>)"
    using kf by (auto simp: fun_eq_iff slot_map_def fr(3) lsa_map_slot_map [OF r(2)] simp flip: r(5))
  have "InsertIntoLsa labels d = Some (EFI_SUCCESS, d')"
    using r(1) rdy fs(2) room c(1,2) fr(1)
    by (simp add: InsertIntoLsa_def GetLsaFreeSlots_ok [OF r(2)] next_index_facts(3) [OF r(2)] cp(1) r(6))
  with c(3) m show ?thesis by auto
qed

section \<open>Modifying\<close>

lemma ModifyLabelAtSlot_updated:
  fixes pFlags pName TotalLabelsNum pNewPosition NewRawSize
  assumes h: "holds d l" and s: "lsa_map l (unat s) = Some x" and name: "\<And>n. pName = Some n \<Longrightarrow> length n = 64" and free: "free_slots l \<noteq> []"
  defines "k \<equiv> hd (free_slots l)"
  defines "y \<equiv> ModifyLabel pFlags pName TotalLabelsNum pNewPosition NewRawSize (x\<lparr>lSlot := of_nat k\<rparr>)"
  shows "\<exists>d' l'. ModifyLabelAtSlot s pFlags pName TotalLabelsNum pNewPosition NewRawSize d = Some (EFI_SUCCESS, d')
     \<and> updated d l d' l' ((lsa_map l)(k \<mapsto> (if nMinor (Index l ! 0) = NSINDEX_MINOR_2 then snd (SealLabel y) else y), unat s := None))"
proof -
  obtain l1 where r: "ReadLabelStorageArea d = Some (EFI_SUCCESS, Some l1, d)" "lsa_ok l1" "lsa_fits d l1" "Index l1 = Index l"
    "lsa_map l1 = lsa_map l" "free_slots l1 = free_slots l" "cur_index l1 = cur_index l"
    and pg: "\<And>j. j < num_labels l \<Longrightarrow> LargePayload d \<Longrightarrow> pLabels l1 ! j = page_at l d j"
    by (rule read_holds [OF h]) simp
  have nl: "num_labels l1 = num_labels l" "page_at l1 = page_at l" using r(4) by (simp_all add: num_labels_def page_at_def [abs_def])
  have rdy: "dimm_ready d" using h by (simp add: holds_def)
  from free obtain ks where ks: "free_slots l1 = k # ks" unfolding r(6) k_def by (cases "free_slots l") auto
  note cp = CopyFreeMap_prepared [OF r(2)] and fs = free_slots_facts [OF r(2)] and kf = free_slots_facts(3) [OF r(2) ks]
  let ?p = "page_size (Index l1 ! 0)" and ?fr = "nFree (Index l1 ! cur_index l1)"
  have su: "unat s < num_labels l1" "\<not> slot_free (Index l1 ! cur_index l1) (unat s)" "pLabels l1 ! unat s = x"
    using s by (auto simp: lsa_map_def simp flip: r(5) split: if_splits)
  have len: "length (pLabels l1) = num_labels l1" using r(2) by (simp add: lsa_ok_def)
  have p: "?p = 128 \<or> ?p = 256" using r(2) page_size_cases by (auto simp: lsa_ok_def)
  have x: "label_ok ?p x" using r(2) su len by (auto simp: lsa_ok_def)
  have y: "label_ok ?p y" unfolding y_def using p x name by (intro ModifyLabel_ok) (simp_all add: label_ok_slot)
  define z where "z = (if nMinor (Index l ! 0) = NSINDEX_MINOR_2 then snd (SealLabel y) else y)"
  have minor: "nMajor (Index l1 ! cur_index l1) = NSINDEX_MAJOR" "nMinor (Index l1 ! cur_index l1) = nMinor (Index l ! 0)"
    using lsa_ok_cur(1) [OF r(2)] r(2) less_2_cases [OF lsa_ok_current(1) [OF r(2)]] by (auto simp: index_ok_def lsa_ok_def r(4))
  have p2: "?p = 256" if "nMinor (Index l ! 0) = NSINDEX_MINOR_2" using that r(4) by (simp add: page_size_def label_version_1_1_def)
  have z: "label_ok ?p z" "nMinor (Index l ! 0) = NSINDEX_MINOR_2 \<Longrightarrow> fst (SealLabel y)"
    using y SealLabel_ok [of y] p2 by (auto simp: z_def)
  let ?fr1 = "change_bit ?fr k SLOT_USED" and ?ls1 = "(pLabels l1)[k := z]"
  have c1: "prepared_ok l1 ?fr1 ?ls1" "bit_free ?fr1 = (bit_free ?fr)(k := False)"
    using prepared_change(1) [OF cp(2) _ _ z(1), of k SLOT_USED k] prepared_change(2) [OF cp(2) _ _ z(1), of k SLOT_USED] kf by simp_all
  let ?fr2 = "change_bit ?fr1 (unat s) SLOT_FREE" and ?ls2 = "?ls1[unat s := zero_label]"
  have c2: "prepared_ok l1 ?fr2 ?ls2" "bit_free ?fr2 = (bit_free ?fr1)(unat s := True)"
    using prepared_change(1) [OF c1(1) su(1) _ zero_label_ok, of SLOT_FREE "unat s"] prepared_change(2) [OF c1(1) su(1) _ zero_label_ok, of SLOT_FREE] by simp_all
  have "?ls2 ! j \<in> {zero_label, page_at l1 d j}" if "j < num_labels l1" "bit_free ?fr2 j" "LargePayload d" for j
    using that pg c1(2) c2(2) len nl by (cases "j = unat s"; cases "j = k") auto
  from commit_updated [OF c2(1) r(3) rdy r(4) this] obtain l2 d' l' where
    c: "UpdateLsaIndex (prepared l1 ?fr2 ?ls2) True = (EFI_SUCCESS, l2)" "WriteLabelStorageArea l2 d = (EFI_SUCCESS, d')"
      "updated d l d' l' (slot_map ?fr2 ?ls2)" by blast
  have "k \<noteq> unat s" using kf su(2) by auto
  then have m: "slot_map ?fr2 ?ls2 = (lsa_map l)(k \<mapsto> z, unat s := None)"
    using kf len su(1) by (auto simp: fun_eq_iff slot_map_def c2(2) c1(2) lsa_map_slot_map [OF r(2)] simp flip: r(5))
  have slot: "(ucast (first_slot (free_slots l1)) :: u32) = of_nat k" "(of_nat (length (free_slots l1)) :: u16) \<ge> 1"
    using kf fs(2) ks by (simp_all add: first_slot_def word_unat_eq_iff word_le_nat_alt unsigned_ucast_eq unsigned_of_nat take_bit_nat_eq_self)
  have "ModifyLabelAtSlot s pFlags pName TotalLabelsNum pNewPosition NewRawSize d = Some (EFI_SUCCESS, d')"
    using r(1) rdy slot(2) c(1,2) z(2)
    by (auto simp: ModifyLabelAtSlot_def GetLsaFreeSlots_ok [OF r(2)] next_index_facts(3) [OF r(2)] cp(1) minor slot(1)
        Let_def case_prod_unfold kf [THEN conjunct2, THEN conjunct2, THEN conjunct2] prepared_labels SetSlot_prepared [OF r(2)] su(3) y_def [symmetric] z_def)
  with c(3) m show ?thesis by (auto simp: z_def)
qed

section \<open>Removing\<close>

definition label_matches :: "u8 list \<Rightarrow> u64 \<Rightarrow> namespace_label \<Rightarrow> bool" where
  "label_matches pUuid Dpa x \<longleftrightarrow> lUuid x = pUuid \<and> (Dpa = 0 \<or> Dpa = lDpa x)"

definition remove_labels :: "u8 list \<Rightarrow> u64 \<Rightarrow> (nat \<rightharpoonup> namespace_label) \<Rightarrow> nat \<rightharpoonup> namespace_label" where
  "remove_labels pUuid Dpa m k = (case m k of None \<Rightarrow> None | Some x \<Rightarrow> if label_matches pUuid Dpa x then None else Some x)"

lemma RemoveLoop_prepared:
  assumes "prepared_ok l fr ls" and "distinct ks" and "\<forall>k \<in> set ks. k < num_labels l"
  shows "\<exists>fr' ls'. RemoveLoop (next_index l) u dpa ks (prepared l fr ls) = prepared l fr' ls' \<and> prepared_ok l fr' ls'
     \<and> (\<forall>k < num_labels l. bit_free fr' k = (bit_free fr k \<or> k \<in> set ks \<and> label_matches u dpa (ls ! k))
         \<and> ls' ! k = (if k \<in> set ks \<and> label_matches u dpa (ls ! k) then zero_label else ls ! k))"
  using assms
proof (induction ks arbitrary: fr ls)
  case Nil
  then show ?case by auto
next
  case (Cons k ks)
  have ok: "lsa_ok l" and len: "length ls = num_labels l" using Cons.prems(1) by (simp_all add: prepared_ok_def)
  show ?case
  proof (cases "label_matches u dpa (ls ! k)")
    case False
    then have step: "RemoveLoop (next_index l) u dpa (k # ks) (prepared l fr ls) = RemoveLoop (next_index l) u dpa ks (prepared l fr ls)"
      by (auto simp: label_matches_def)
    have eq: "(j \<in> set (k # ks) \<and> label_matches u dpa (ls ! j)) = (j \<in> set ks \<and> label_matches u dpa (ls ! j))" for j
      using False by auto
    show ?thesis unfolding step eq using Cons.IH [OF Cons.prems(1)] Cons.prems(2,3) by simp
  next
    case True
    let ?fr = "change_bit fr k SLOT_FREE" and ?ls = "ls[k := zero_label]"
    have ch: "prepared_ok l ?fr ?ls" "bit_free ?fr = (bit_free fr)(k := True)"
      using prepared_change(1) [OF Cons.prems(1) _ _ zero_label_ok, of k SLOT_FREE k] prepared_change(2) [OF Cons.prems(1) _ _ zero_label_ok, of k SLOT_FREE]
        Cons.prems(3) by simp_all
    have step: "RemoveLoop (next_index l) u dpa (k # ks) (prepared l fr ls) = RemoveLoop (next_index l) u dpa ks (prepared l ?fr ?ls)"
      using True by (auto simp: label_matches_def SetSlot_prepared [OF ok] prepared_labels Let_def)
    from Cons.IH [OF ch(1)] Cons.prems(2,3) obtain fr' ls' where
      IH: "RemoveLoop (next_index l) u dpa ks (prepared l ?fr ?ls) = prepared l fr' ls'" "prepared_ok l fr' ls'"
        "\<And>j. j < num_labels l \<Longrightarrow> bit_free fr' j = (bit_free ?fr j \<or> j \<in> set ks \<and> label_matches u dpa (?ls ! j))"
        "\<And>j. j < num_labels l \<Longrightarrow> ls' ! j = (if j \<in> set ks \<and> label_matches u dpa (?ls ! j) then zero_label else ?ls ! j)" by auto
    have "bit_free fr' j = (bit_free fr j \<or> j \<in> set (k # ks) \<and> label_matches u dpa (ls ! j))
       \<and> ls' ! j = (if j \<in> set (k # ks) \<and> label_matches u dpa (ls ! j) then zero_label else ls ! j)" if "j < num_labels l" for j
      using IH(3,4) [OF that] True Cons.prems(2) len that by (cases "j = k") (auto simp: ch(2))
    with IH(1,2) step show ?thesis by (metis (no_types, lifting))
  qed
qed

lemma RemoveNamespaceLabels_updated:
  assumes h: "holds d l"
  shows "\<exists>d' l'. RemoveNamespaceLabels u dpa d = Some (EFI_SUCCESS, d') \<and> updated d l d' l' (remove_labels u dpa (lsa_map l))"
proof -
  obtain l1 where r: "ReadLabelStorageArea d = Some (EFI_SUCCESS, Some l1, d)" "lsa_ok l1" "lsa_fits d l1" "Index l1 = Index l"
    "lsa_map l1 = lsa_map l" "free_slots l1 = free_slots l" "cur_index l1 = cur_index l"
    and pg: "\<And>j. j < num_labels l \<Longrightarrow> LargePayload d \<Longrightarrow> pLabels l1 ! j = page_at l d j"
    by (rule read_holds [OF h]) simp
  have nl: "num_labels l1 = num_labels l" "page_at l1 = page_at l" using r(4) by (simp_all add: num_labels_def page_at_def [abs_def])
  have rdy: "dimm_ready d" using h by (simp add: holds_def)
  note cp = CopyFreeMap_prepared [OF r(2)]
  let ?fr = "nFree (Index l1 ! cur_index l1)" and ?n = "num_labels l1"
  note pf = prepared_facts [OF cp(2)]
  have n: "unat (nNumberOfLabels (Index (prepared l1 ?fr (pLabels l1)) ! next_index l1)) = ?n" "?n \<le> 1020"
    using lsa_ok_index(2) [OF pf(1) next_index_facts(1) [OF r(2)]] pf(4) lsa_ok_cur(1,3) [OF r(2)]
    by (simp_all add: num_labels_def index_ok_def)
  from RemoveLoop_prepared [OF cp(2), of "[0..<?n]" u dpa] obtain fr ls where
    lo: "RemoveLoop (next_index l1) u dpa [0..<?n] (prepared l1 ?fr (pLabels l1)) = prepared l1 fr ls" "prepared_ok l1 fr ls"
      "\<And>k. k < ?n \<Longrightarrow> bit_free fr k = (bit_free ?fr k \<or> label_matches u dpa (pLabels l1 ! k))"
      "\<And>k. k < ?n \<Longrightarrow> ls ! k = (if label_matches u dpa (pLabels l1 ! k) then zero_label else pLabels l1 ! k)" by auto
  have "ls ! j \<in> {zero_label, page_at l1 d j}" if "j < num_labels l1" "LargePayload d" for j
    using lo(4) [OF that(1)] pg that nl by auto
  from commit_updated [OF lo(2) r(3) rdy r(4) this] obtain l2 d' l' where
    c: "UpdateLsaIndex (prepared l1 fr ls) True = (EFI_SUCCESS, l2)" "WriteLabelStorageArea l2 d = (EFI_SUCCESS, d')"
      "updated d l d' l' (slot_map fr ls)" by blast
  have len: "length (pLabels l1) = ?n" "length ls = ?n" using r(2) lo(2) by (simp_all add: lsa_ok_def prepared_ok_def)
  have m: "slot_map fr ls = remove_labels u dpa (lsa_map l)"
    using len lo(3,4) by (auto simp: fun_eq_iff slot_map_def remove_labels_def lsa_map_slot_map [OF r(2)] simp flip: r(5))
  have "RemoveNamespaceLabels u dpa d = Some (EFI_SUCCESS, d')"
    using r(1) rdy c(1,2) n lo(1) by (simp add: RemoveNamespaceLabels_def next_index_facts(3) [OF r(2)] cp(1) Let_def)
  with c(3) m show ?thesis by auto
qed

end
