(* ===== verification/Label_Init.thy ===== *)
theory Label_Init
  imports Label_Ops
begin

text \<open>
  Initialising the label storage area of a blank partition: the two index blocks take 256 bytes
  each, the rest of the partition is divided into free label slots.
\<close>

section \<open>A blank partition\<close>

definition blank :: "dimm \<Rightarrow> bool" where
  "blank d \<longleftrightarrow> mem_read (pcd d) 0 (unat (PcdLsaPartitionSize d)) = replicate (unat (PcdLsaPartitionSize d)) 0"

lemma blank_read: "blank d \<Longrightarrow> a + n \<le> unat (PcdLsaPartitionSize d) \<Longrightarrow> mem_read (pcd d) a n = replicate n 0"
  using mem_read_sub [of a n "unat (PcdLsaPartitionSize d)" "pcd d" 0] by (simp add: blank_def)

lemma patch_replicate: "a + n \<le> N \<Longrightarrow> patch (replicate N x) a (replicate n x) = replicate N x"
  by (rule nth_equalityI) (auto simp: nth_patch)

lemma ReadIndexArea_blank:
  assumes rdy: "dimm_ready d" and "blank d" and P: "512 \<le> unat (PcdLsaPartitionSize d)"
  shows "ReadIndexArea d = Some (EFI_SUCCESS, Some (replicate (unat (PcdLsaPartitionSize d)) 0), d)"
proof (cases "LargePayload d")
  case True
  then show ?thesis using read_large [OF rdy] assms(2) by (simp add: blank_def)
next
  case False
  let ?P = "unat (PcdLsaPartitionSize d)"
  have chunks: "GetChunks k off (replicate ?P 0) d = (EFI_SUCCESS, replicate ?P 0, d)" if "off + 128 * k \<le> ?P" for k off
    using that GetChunks_ok [OF rdy, of off k "replicate ?P 0"] by (simp add: blank_read [OF assms(2)] patch_replicate)
  have "get32 56 (replicate ?P (0 :: u8)) = 0" by (simp add: get32_def of_le_zero)
  then show ?thesis
    using False rdy P chunks [of 0 2] chunks [of 128 2]
    by (simp add: ReadIndexArea_def FwGetPCDFromOffsetSmallPayload_def word_less_nat_alt ROUNDUP_def LABELS_TO_FREE_BYTES_def)
qed

lemma ReadLabelStorageArea_blank:
  assumes rdy: "dimm_ready d" and "blank d" and P: "512 \<le> unat (PcdLsaPartitionSize d)"
  shows "ReadLabelStorageArea d = Some (EFI_NOT_FOUND, None, d)"
proof -
  have "nMySize (parse_index (replicate n 0) []) = 0" for n by (simp add: parse_index_def get64_def of_le_zero)
  then have "RawDataToLabelIndexArea (replicate n 0) p oks zero_lsa = (EFI_SUCCESS, zero_lsa)" for n p oks
    by (simp add: RawDataToLabelIndexArea_def)
  moreover have "ValidateLsaData zero_lsa (True, True, True) = EFI_NOT_FOUND" by (simp add: ValidateLsaData_def zero_lsa_def)
  moreover have "Manageable d" "AttribsStatus d = EFI_SUCCESS" using rdy by (auto simp: dimm_ready_def)
  ultimately show ?thesis
    using ReadIndexArea_blank [OF assms] rdy by (simp add: ReadLabelStorageArea_def)
qed

section \<open>The new index blocks\<close>

definition version_ok :: "u16 \<Rightarrow> u16 \<Rightarrow> bool" where
  "version_ok major minor \<longleftrightarrow> major = NSINDEX_MAJOR \<and> (minor = NSINDEX_MINOR_1 \<or> minor = NSINDEX_MINOR_2)"

definition label_size :: "u16 \<Rightarrow> nat" where
  "label_size minor = (if minor = NSINDEX_MINOR_2 then 256 else 128)"

lemma AlignLabelStorageArea_blocks:
  assumes "unat P \<le> 0x20000" and "F = unat P div (8 * (if latest then 256 else 128))"
  shows "AlignLabelStorageArea P latest = (EFI_INVALID_PARAMETER, of_nat F, of_nat (184 - F))" and "F \<le> 128"
proof -
  have "F * (8 * (if latest then 256 else 128)) \<le> unat P" unfolding assms(2) by (rule div_times_less_eq_dividend)
  with assms(1) show F: "F \<le> 128" by (cases latest) simp_all
  have "unat (LABELS_TO_FREE_BYTES (P div (if latest then 256 else 128))) = F"
    using assms(2) by (cases latest) (simp_all add: LABELS_TO_FREE_BYTES_def unsigned_drop_bit_eq drop_bit_eq_div unat_div flip: div_mult2_eq)
  with F have f: "LABELS_TO_FREE_BYTES (P div (if latest then 256 else 128)) = of_nat F"
    unfolding word_unat_eq_iff by (simp only: unsigned_of_nat) (simp add: take_bit_nat_eq_self)
  have "unat (72 + of_nat F :: u32) = 72 + F" using F by (simp add: unat_word_ariths unsigned_of_nat take_bit_nat_eq_self)
  then have "\<not> 256 < (72 + of_nat F :: u32)" using F by (simp add: word_less_nat_alt)
  moreover have "(256 :: u32) - (72 + of_nat F) = of_nat (184 - F)" using F by (simp add: of_nat_diff)
  ultimately show "AlignLabelStorageArea P latest = (EFI_INVALID_PARAMETER, of_nat F, of_nat (184 - F))"
    by (simp add: AlignLabelStorageArea_def Let_def f)
qed

definition num_slots :: "u16 \<Rightarrow> nat \<Rightarrow> nat" where
  "num_slots minor F = 8 * F - 512 div label_size minor"

lemma NewIndex_fields:
  assumes v: "version_ok major minor" and F: "0 < F" "F \<le> 128"
  defines "i \<equiv> NewIndex major minor (of_nat F) (of_nat (184 - F)) (of_nat (label_size minor))"
  shows "nMySize i = 256" and "nNumberOfLabels i = of_nat (num_slots minor F)" and "nFree i = replicate F 0xFF"
    and "nSignature i = LSA_NAMESPACE_INDEX_SIG" and "nMajor i = major" and "nMinor i = minor"
    and "nLabelSize i = (if minor = NSINDEX_MINOR_2 then 1 else 0)" and "nFlags i = replicate 3 0"
proof -
  have m: "FREE_OFFSET + ucast (of_nat F :: u32) + ucast (of_nat (184 - F) :: u32) = (256 :: u64)"
  proof -
    have u: "ucast (of_nat k :: u32) = (of_nat k :: u64)" if "k \<le> 256" for k
      using that by (simp add: word_unat_eq_iff unsigned_ucast_eq unsigned_of_nat take_bit_nat_eq_self)
    have "72 + of_nat F + of_nat (184 - F) = (of_nat (72 + F + (184 - F)) :: u64)" by (simp only: of_nat_add of_nat_numeral)
    moreover have "72 + F + (184 - F) = 256" using F by simp
    ultimately show ?thesis using F(2) by (simp only: u of_nat_numeral diff_le_self le_trans [OF F(2)] u [of "184 - F"])
  qed
  show s: "nMySize i = 256" unfolding i_def NewIndex_def m Let_def by simp
  have q: "(ucast ((256 :: u64) div ucast (of_nat (label_size minor) :: u32)) :: u32) * 2 = of_nat (512 div label_size minor)"
    by (simp add: label_size_def)
  have "512 div label_size minor \<le> 8 * F" using F(1) by (simp add: label_size_def)
  then have "(push_bit 3 (of_nat F) :: u32) - of_nat (512 div label_size minor) = of_nat (num_slots minor F)"
    by (simp add: num_slots_def push_bit_eq_mult of_nat_diff mult.commute)
  then show "nNumberOfLabels i = of_nat (num_slots minor F)"
    unfolding i_def NewIndex_def m Let_def q FREE_BLOCKS_TO_LABELS_def by simp
  show "nFree i = replicate F 0xFF" "nLabelSize i = (if minor = NSINDEX_MINOR_2 then 1 else 0)"
    using F by (simp_all add: i_def NewIndex_def Let_def unsigned_of_nat take_bit_nat_eq_self BYTE_TO_INDEX_LABEL_SIZE_def label_size_def)
qed (simp_all add: i_def NewIndex_def Let_def zero_index_def)

definition numbered :: "nat \<Rightarrow> u32 \<Rightarrow> namespace_index \<Rightarrow> namespace_index" where
  "numbered k q i = i\<lparr>nSequence := q, nMyOffset := (if k = 0 then 0 else nMySize i), nOtherOffset := (if k = 0 then nMySize i else 0)\<rparr>"

lemma numbered_ok:
  assumes v: "version_ok major minor" and F: "0 < F" "F \<le> 128" and S: "num_slots minor F \<le> 1020" and k: "k < 2" and q: "lsa_seq_valid q"
  defines "i \<equiv> NewIndex major minor (of_nat F) (of_nat (184 - F)) (of_nat (label_size minor))"
  shows "index_ok k (numbered k q i)"
proof -
  note f = NewIndex_fields [OF v F, folded i_def]
  have n: "num_slots minor F \<le> 1020" "(num_slots minor F + 7) div 8 = F"
    using F S by (auto simp: num_slots_def label_size_def)
  then have u: "unat (of_nat (num_slots minor F) :: u32) = num_slots minor F" by (simp add: unsigned_of_nat take_bit_nat_eq_self)
  show ?thesis
    using q v n less_2_cases [OF k] by (auto simp: index_ok_def index_wf_def numbered_def f u version_ok_def)
qed

lemma SealIndex_numbered:
  assumes "index_ok k (numbered k q (Index l ! k))" and "k < length (Index l)" and "k < 2"
  shows "SealIndex k q l True = (EFI_SUCCESS, l\<lparr>Index := (Index l)[k := seal (numbered k q (Index l ! k))]\<rparr>)"
proof -
  let ?i = "numbered k q (Index l ! k)"
  let ?l = "l\<lparr>Index := (Index l)[k := ?i]\<rparr>"
  have raw: "LabelIndexAreaToRawData ?l k True = (EFI_SUCCESS, Some (index_block ?i))"
    using LabelIndexAreaToRawData_one [of k ?l] assms by simp
  have size: "nMySize ?i = 256" using assms(1) by (simp add: index_ok_def)
  have "fst (ChecksumOperations (index_block ?i) 256 CHECKSUM_OFFSET True)" by (simp add: ChecksumOperations_def)
  with raw size index_sealed_seal(2) [OF assms(1)] show ?thesis
    by (simp add: SealIndex_def Let_def case_prod_unfold seal_def flip: numbered_def)
qed

section \<open>The new area\<close>

definition new_area :: "u16 \<Rightarrow> nat \<Rightarrow> namespace_index \<Rightarrow> lsa" where
  "new_area minor F i = \<lparr>Index = [seal (numbered 0 1 i), seal (numbered 1 2 i)], pLabels = replicate (num_slots minor F) zero_label\<rparr>"

lemma new_area_ok:
  assumes v: "version_ok major minor" and F: "0 < F" "F \<le> 128" and S: "num_slots minor F \<le> 1020"
  defines "i \<equiv> NewIndex major minor (of_nat F) (of_nat (184 - F)) (of_nat (label_size minor))"
  shows "lsa_ok (new_area minor F i)" and "num_labels (new_area minor F i) = num_slots minor F"
    and "page_size (Index (new_area minor F i) ! 0) = label_size minor" and "lsa_map (new_area minor F i) = Map.empty"
    and "length (free_slots (new_area minor F i)) = num_slots minor F" and "nMinor (Index (new_area minor F i) ! 0) = minor"
proof -
  note f = NewIndex_fields [OF v F, folded i_def]
  let ?a = "new_area minor F i"
  have n: "num_slots minor F \<le> 1020" "num_slots minor F < 8 * F" using F S by (auto simp: num_slots_def label_size_def)
  have nf [simp]: "nFree (numbered k q i) = replicate F 0xFF" "nNumberOfLabels (numbered k q i) = of_nat (num_slots minor F)"
    "nMinor (numbered k q i) = minor" "nMajor (numbered k q i) = major" "nSequence (numbered k q i) = q" for k q
    by (simp_all add: numbered_def f)
  show num: "num_labels ?a = num_slots minor F"
    using n(1) by (simp add: num_labels_def new_area_def unsigned_of_nat take_bit_nat_eq_self)
  show p: "page_size (Index ?a ! 0) = label_size minor"
    using v by (auto simp: page_size_def label_version_1_1_def label_size_def version_ok_def new_area_def)
  show "nMinor (Index ?a ! 0) = minor" by (simp add: new_area_def)
  have cur: "LsaSelect 1 2 = Some 1" by (simp add: LsaSelect_def)
  then have c: "cur_index ?a = 1" by (simp add: cur_index_def new_area_def)
  have fr: "nFree (Index ?a ! cur_index ?a) = replicate F 0xFF" unfolding c by (simp add: new_area_def)
  have free: "slot_free (Index ?a ! cur_index ?a) k" if "k < num_slots minor F" for k
  proof -
    have "bit (0xFF :: u8) (k mod 8)"
    proof -
      have "k mod 8 \<in> {0, 1, 2, 3, 4, 5, 6, 7}" by auto
      then show ?thesis by auto
    qed
    with that n(2) show ?thesis by (simp add: slot_free_def fr less_mult_imp_div_less mult.commute)
  qed
  show "lsa_map ?a = Map.empty" using free by (auto simp: lsa_map_def num fun_eq_iff)
  have "free_slots ?a = [0..<num_slots minor F]" using free by (simp add: free_slots_def num)
  then show "length (free_slots ?a) = num_slots minor F" by simp
  have "index_ok 0 (numbered 0 1 i)" "index_ok 1 (numbered 1 2 i)"
    unfolding i_def by (rule numbered_ok [OF v F S], simp, simp add: lsa_seq_valid_def)+
  moreover have "lsa_seq.current_valid (1, 2)" using cur by (simp add: lsa_seq.current_valid_def lsa_seq_valid_def)
  ultimately show "lsa_ok ?a" using num unfolding lsa_ok_def p by (simp add: new_area_def zero_label_ok)
qed

lemma InitializeLabelStorageArea_new:
  assumes rdy: "dimm_ready d" and b: "blank d" and v: "version_ok major minor"
    and P: "8 * label_size minor \<le> unat (PcdLsaPartitionSize d)"
  defines "F \<equiv> unat (PcdLsaPartitionSize d) div (8 * label_size minor)"
  shows "\<exists>d' l. InitializeLabelStorageArea major minor d = Some (EFI_SUCCESS, d') \<and> holds d' l \<and> lsa_map l = Map.empty
     \<and> length (free_slots l) = num_slots minor F \<and> num_labels l = num_slots minor F \<and> nMinor (Index l ! 0) = minor \<and> d' = d\<lparr>pcd := pcd d'\<rparr>"
proof -
  let ?P = "unat (PcdLsaPartitionSize d)"
  define latest where "latest \<longleftrightarrow> major = NSINDEX_MAJOR \<and> minor = NSINDEX_MINOR_2"
  have ls: "(if latest then 256 else 128) = label_size minor" "(if latest then 256 else 128) = (of_nat (label_size minor) :: u32)"
    using v by (auto simp: label_size_def version_ok_def latest_def)
  have P512: "512 \<le> ?P" "?P \<le> 0x20000" using P rdy by (auto simp: label_size_def dimm_ready_def split: if_splits)
  have al: "AlignLabelStorageArea (PcdLsaPartitionSize d) latest = (EFI_INVALID_PARAMETER, of_nat F, of_nat (184 - F))" "F \<le> 128"
    using AlignLabelStorageArea_blocks [OF P512(2), of F latest] unfolding F_def ls(1) by simp_all
  have F: "0 < F" unfolding F_def using P by (simp add: div_greater_zero_iff label_size_def)
  have bound: "8 * label_size minor * F \<le> ?P" unfolding F_def by (simp add: mult.commute [of _ "_ div _"])
  have S: "num_slots minor F \<le> 1020" using bound P512(2) by (auto simp: num_slots_def label_size_def split: if_splits)
  define i where "i = NewIndex major minor (of_nat F) (of_nat (184 - F)) (of_nat (label_size minor))"
  note new = new_area_ok [OF v F al(2) S, folded i_def]
  have nz: "(of_nat F :: u32) \<noteq> 0"
    using F al(2) by (simp add: word_unat_eq_iff unsigned_of_nat take_bit_nat_eq_self)
  have ok: "index_ok 0 (numbered 0 1 i)" "index_ok 1 (numbered 1 2 i)"
    unfolding i_def by (rule numbered_ok [OF v F al(2) S], simp, simp add: lsa_seq_valid_def)+
  have s0: "SealIndex 0 1 (zero_lsa\<lparr>Index := [i, i]\<rparr>) True = (EFI_SUCCESS, zero_lsa\<lparr>Index := [seal (numbered 0 1 i), i]\<rparr>)"
    using SealIndex_numbered [of 0 1 "zero_lsa\<lparr>Index := [i, i]\<rparr>"] ok(1) by simp
  have s1: "SealIndex 1 2 (zero_lsa\<lparr>Index := [seal (numbered 0 1 i), i]\<rparr>) True
      = (EFI_SUCCESS, zero_lsa\<lparr>Index := [seal (numbered 0 1 i), seal (numbered 1 2 i)]\<rparr>)"
    using SealIndex_numbered [of 1 2 "zero_lsa\<lparr>Index := [seal (numbered 0 1 i), i]\<rparr>"] ok(2) by simp
  have area: "zero_lsa\<lparr>Index := [seal (numbered 0 1 i), seal (numbered 1 2 i)], pLabels := replicate (num_slots minor F) zero_label\<rparr> = new_area minor F i"
    by (simp add: zero_lsa_def new_area_def)
  have n: "unat (nNumberOfLabels (seal (numbered 0 1 i))) = num_slots minor F" using new(2) by (simp add: num_labels_def new_area_def)
  have "512 + label_size minor * num_slots minor F \<le> 8 * label_size minor * F" using F by (auto simp: num_slots_def label_size_def diff_mult_distrib2)
  also note bound
  finally have fit: "lsa_fits d (new_area minor F i)" by (simp add: lsa_fits_def new(2,3))
  from Write_stores [OF new(1) fit rdy] obtain m where
    w: "WriteLabelStorageArea (new_area minor F i) d = (EFI_SUCCESS, d\<lparr>pcd := m\<rparr>)" "stored (d\<lparr>pcd := m\<rparr>) (new_area minor F i)" by blast
  have "InitializeLabelStorageArea major minor d = Some (EFI_SUCCESS, d\<lparr>pcd := m\<rparr>)"
    using ReadLabelStorageArea_blank [OF rdy b P512(1)] rdy al(1) nz s0 s1 n area w(1)
    by (simp add: InitializeLabelStorageArea_def Let_def ls(2) flip: i_def latest_def)
  moreover have "holds (d\<lparr>pcd := m\<rparr>) (new_area minor F i)" using w(2) new(1) rdy fit by (simp add: holds_def lsa_fits_def)
  ultimately show ?thesis using new(2,4-6) by auto
qed

end
