(* ===== verification/Label_Table.thy ===== *)
theory Label_Table
  imports Label_Init
begin

text \<open>
  What the label storage area promises its clients: a table of label slots. The table is the
  abstract state, the operations of the driver are shown to implement those of the table, and the
  consequences for sequences of operations are derived from the contract alone.
\<close>

section \<open>The abstract table\<close>

record label_table_state =
  slots :: nat
  page :: nat
  labels :: "nat \<rightharpoonup> namespace_label"

definition free_list :: "label_table_state \<Rightarrow> nat list" where
  "free_list t = filter (\<lambda>k. labels t k = None) [0..<slots t]"

definition table_insert :: "namespace_label \<Rightarrow> label_table_state \<Rightarrow> label_table_state" where
  "table_insert x t = (let k = hd (free_list t) in t\<lparr>labels := (labels t)(k \<mapsto> x\<lparr>lSlot := of_nat k\<rparr>)\<rparr>)"

definition table_remove :: "u8 list \<Rightarrow> u64 \<Rightarrow> label_table_state \<Rightarrow> label_table_state" where
  "table_remove u dpa t = t\<lparr>labels := remove_labels u dpa (labels t)\<rparr>"

lemma hd_free_list:
  assumes "free_list t \<noteq> []"
  shows "labels t (hd (free_list t)) = None" and "hd (free_list t) < slots t"
  using hd_in_set [OF assms] by (auto simp: free_list_def)

lemma free_list_insert:
  assumes "free_list t \<noteq> []"
  shows "free_list (table_insert x t) = tl (free_list t)"
proof -
  let ?k = "hd (free_list t)"
  have "free_list (table_insert x t) = filter (\<lambda>k. k \<noteq> ?k) (free_list t)"
    by (simp add: free_list_def table_insert_def Let_def) (rule filter_cong, auto)
  moreover have "distinct (free_list t)" by (simp add: free_list_def)
  ultimately show ?thesis using assms by (cases "free_list t") (auto simp: filter_id_conv)
qed

lemma remove_labels_insert:
  assumes "m k = None" and "\<forall>y \<in> ran m. lUuid y \<noteq> lUuid x"
  shows "remove_labels (lUuid x) 0 (m(k \<mapsto> x\<lparr>lSlot := s\<rparr>)) = m"
proof
  fix j
  have "lUuid y \<noteq> lUuid x" if "m j = Some y" for y using assms(2) that by (auto simp: ran_def)
  then show "remove_labels (lUuid x) 0 (m(k \<mapsto> x\<lparr>lSlot := s\<rparr>)) j = m j"
    using assms(1) by (auto simp: remove_labels_def label_matches_def split: option.splits)
qed

section \<open>The contract\<close>

locale label_table =
  fixes table :: "'d \<Rightarrow> label_table_state \<Rightarrow> bool"
    and insert_label :: "namespace_label \<Rightarrow> 'd \<Rightarrow> (efi_status \<times> 'd) option"
    and delete_labels :: "u8 list \<Rightarrow> u64 \<Rightarrow> 'd \<Rightarrow> (efi_status \<times> 'd) option"
    and lookup :: "'d \<Rightarrow> (nat \<rightharpoonup> namespace_label) option"
  assumes insert_law: "table d t \<Longrightarrow> label_ok (page t) x \<Longrightarrow> 2 \<le> length (free_list t) \<Longrightarrow>
      \<exists>d'. insert_label x d = Some (EFI_SUCCESS, d') \<and> table d' (table_insert x t)"
    and delete_law: "table d t \<Longrightarrow> \<exists>d'. delete_labels u dpa d = Some (EFI_SUCCESS, d') \<and> table d' (table_remove u dpa t)"
    and lookup_law: "table d t \<Longrightarrow> lookup d = Some (labels t)"
begin

text \<open>Labels inserted one after the other each keep a slot of their own.\<close>

fun insert_all :: "namespace_label list \<Rightarrow> 'd \<Rightarrow> (efi_status \<times> 'd) option" where
  "insert_all [] d = Some (EFI_SUCCESS, d)"
| "insert_all (x # xs) d = (case insert_label x d of
     None \<Rightarrow> None
   | Some (rc, d') \<Rightarrow> if EFI_ERROR rc then Some (rc, d') else insert_all xs d')"

lemma insert_all_table:
  assumes "table d t" and "\<forall>x \<in> set xs. label_ok (page t) x" and "length xs < length (free_list t)"
  shows "\<exists>d'. insert_all xs d = Some (EFI_SUCCESS, d') \<and> table d' (fold table_insert xs t)"
  using assms
proof (induction xs arbitrary: d t)
  case (Cons x xs)
  from insert_law [of d t x] Cons.prems obtain d1 where d1: "insert_label x d = Some (EFI_SUCCESS, d1)" "table d1 (table_insert x t)" by auto
  have "page (table_insert x t) = page t" by (simp add: table_insert_def Let_def)
  moreover have "free_list t \<noteq> []" "length xs < length (free_list t) - 1" using Cons.prems(3) by auto
  ultimately obtain d' where "insert_all xs d1 = Some (EFI_SUCCESS, d')" "table d' (fold table_insert xs (table_insert x t))"
    using Cons.IH [OF d1(2)] Cons.prems(2,3) by (auto simp: free_list_insert)
  with d1(1) show ?case by simp
qed simp

lemma insert_delete:
  assumes "table d t" and "label_ok (page t) x" and "2 \<le> length (free_list t)" and "\<forall>y \<in> ran (labels t). lUuid y \<noteq> lUuid x"
  shows "\<exists>d' d''. insert_label x d = Some (EFI_SUCCESS, d') \<and> delete_labels (lUuid x) 0 d' = Some (EFI_SUCCESS, d'') \<and> lookup d'' = lookup d"
proof -
  from insert_law [OF assms(1-3)] obtain d' where d': "insert_label x d = Some (EFI_SUCCESS, d')" "table d' (table_insert x t)" by blast
  from delete_law [OF d'(2), of "lUuid x" 0] obtain d'' where
    d'': "delete_labels (lUuid x) 0 d' = Some (EFI_SUCCESS, d'')" "table d'' (table_remove (lUuid x) 0 (table_insert x t))" by blast
  have "free_list t \<noteq> []" using assms(3) by auto
  then have "labels (table_remove (lUuid x) 0 (table_insert x t)) = labels t"
    using remove_labels_insert [OF hd_free_list(1) assms(4)] by (simp add: table_remove_def table_insert_def Let_def)
  with d'(1) d'' lookup_law assms(1) show ?thesis by simp
qed

lemma delete_all:
  assumes "table d t"
  shows "\<exists>d' m. delete_labels u 0 d = Some (EFI_SUCCESS, d') \<and> lookup d' = Some m \<and> (\<forall>y \<in> ran m. lUuid y \<noteq> u)"
proof -
  from delete_law [OF assms, of u 0] obtain d' where
    d': "delete_labels u 0 d = Some (EFI_SUCCESS, d')" "table d' (table_remove u 0 t)" by blast
  then show ?thesis using lookup_law [OF d'(2)]
    by (auto simp: table_remove_def remove_labels_def label_matches_def ran_def split: option.splits if_splits)
qed

end

section \<open>The driver implements the table\<close>

definition lsa_table :: "lsa \<Rightarrow> label_table_state" where
  "lsa_table l = \<lparr>slots = num_labels l, page = page_size (Index l ! 0), labels = lsa_map l\<rparr>"

definition dimm_table :: "dimm \<Rightarrow> label_table_state \<Rightarrow> bool" where
  "dimm_table d t \<longleftrightarrow> LsaStatus d \<noteq> LSA_NOT_INIT \<and> (\<exists>l. holds d l \<and> lsa_table l = t)"

definition dimm_lookup :: "dimm \<Rightarrow> (nat \<rightharpoonup> namespace_label) option" where
  "dimm_lookup d = (case ReadLabelStorageArea d of Some (rc, Some l, d') \<Rightarrow> Some (lsa_map l) | _ \<Rightarrow> None)"

lemma lsa_table_simps [simp]:
  "slots (lsa_table l) = num_labels l" "page (lsa_table l) = page_size (Index l ! 0)" "labels (lsa_table l) = lsa_map l"
  "free_list (lsa_table l) = free_slots l"
  by (auto simp: lsa_table_def free_list_def free_slots_def lsa_map_def intro: filter_cong)

lemma updated_table:
  "updated d l d' l' m \<Longrightarrow> LsaStatus d \<noteq> LSA_NOT_INIT \<Longrightarrow> dimm_table d' ((lsa_table l)\<lparr>labels := m\<rparr>)"
  unfolding updated_def dimm_table_def lsa_table_def
  by (intro conjI exI [of _ l']) (auto, metis dimm.select_convs(6) dimm.surjective dimm.update_convs(7))

interpretation dimm_labels: label_table dimm_table
  "\<lambda>x. InsertNamespaceLabels [x] major minor" RemoveNamespaceLabels dimm_lookup for major minor
proof unfold_locales
  fix d t x assume "dimm_table d t" "label_ok (page t) x" "2 \<le> length (free_list t)"
  then obtain l where l: "LsaStatus d \<noteq> LSA_NOT_INIT" "holds d l" "lsa_table l = t" "label_ok (page_size (Index l ! 0)) x" "2 \<le> length (free_slots l)"
    by (auto simp: dimm_table_def)
  from InsertIntoLsa_updated [OF l(2), of "[x]"] l(4,5) obtain d' l' where
    "InsertIntoLsa [x] d = Some (EFI_SUCCESS, d')" "updated d l d' l' ((lsa_map l)(hd (free_slots l) \<mapsto> x\<lparr>lSlot := of_nat (hd (free_slots l))\<rparr>))" by auto
  with updated_table [OF this(2) l(1)] l(1,3)
  show "\<exists>d'. InsertNamespaceLabels [x] major minor d = Some (EFI_SUCCESS, d') \<and> dimm_table d' (table_insert x t)"
    by (auto simp: InsertNamespaceLabels_def table_insert_def Let_def)
next
  fix d t u dpa assume "dimm_table d t"
  then obtain l where l: "LsaStatus d \<noteq> LSA_NOT_INIT" "holds d l" "lsa_table l = t" by (auto simp: dimm_table_def)
  from RemoveNamespaceLabels_updated [OF l(2), of u dpa] updated_table [OF _ l(1)] l(3)
  show "\<exists>d'. RemoveNamespaceLabels u dpa d = Some (EFI_SUCCESS, d') \<and> dimm_table d' (table_remove u dpa t)"
    by (fastforce simp: table_remove_def)
next
  fix d t assume "dimm_table d t"
  then obtain l where l: "holds d l" "lsa_table l = t" by (auto simp: dimm_table_def)
  then show "dimm_lookup d = Some (labels t)" by (auto elim!: read_holds simp: dimm_lookup_def)
qed

end
