(* ===== verification/Label_Props.thy ===== *)
theory Label_Props
  imports Label_Table
begin

text \<open>
  The properties of the label storage area, each with an application to a concrete DIMM: a
  partition of 2048 bytes with version 1.2 labels, which has six slots.
\<close>

section \<open>Example areas\<close>

definition ex_blank :: "bool \<Rightarrow> lsa_status \<Rightarrow> dimm" where
  "ex_blank large st = \<lparr>Manageable = True, LargePayload = large, PcdLsaPartitionSize = 2048, AttribsStatus = EFI_SUCCESS,
     SizeQuery = (EFI_SUCCESS, 2048), LsaStatus = st, pcd = (\<lambda>_. 0), fw_results = [], pool = [], pool_slack = (\<lambda>_. 0xA5)\<rparr>"

definition ex_label :: "u8 \<Rightarrow> namespace_label" where
  "ex_label b = zero_label\<lparr>lUuid := replicate 16 b, lNumberOfLabels := 1, lRawSize := 4096\<rparr>"

definition ex_area :: lsa where
  "ex_area = new_area NSINDEX_MINOR_2 1 (NewIndex NSINDEX_MAJOR NSINDEX_MINOR_2 (of_nat 1) (of_nat (184 - 1)) (of_nat (label_size NSINDEX_MINOR_2)))"

definition ex_bits :: "u8 list" where
  "ex_bits = change_bit (nFree (Index ex_area ! cur_index ex_area)) 0 SLOT_USED"

definition ex_area_used :: lsa where
  "ex_area_used = switched (prepared ex_area ex_bits ((pLabels ex_area)[0 := ex_label 7]))"

lemma ex_blank_facts:
  "dimm_ready (ex_blank large st)" "blank (ex_blank large st)" "LargePayload (ex_blank large st) = large" "LsaStatus (ex_blank large st) = st"
  "PcdLsaPartitionSize (ex_blank large st) = 2048"
  by (simp_all add: ex_blank_def dimm_ready_def blank_def mem_read_def map_replicate_const)

lemma ex_label_ok: "label_ok 256 (ex_label b)"
  by (simp add: label_ok_cases ex_label_def label_wf_def zero_label_def)

lemma ex_area_facts:
  "lsa_ok ex_area" "num_labels ex_area = 6" "page_size (Index ex_area ! 0) = 256" "lsa_map ex_area = Map.empty" "length (free_slots ex_area) = 6"
  using new_area_ok [of NSINDEX_MAJOR NSINDEX_MINOR_2 1]
  by (simp_all add: version_ok_def num_slots_def label_size_def ex_area_def)

lemma ex_area_used_facts:
  "lsa_ok ex_area_used" "num_labels ex_area_used = 6" "page_size (Index ex_area_used ! 0) = 256" "lsa_map ex_area_used = [0 \<mapsto> ex_label 7]"
proof -
  let ?ls = "(pLabels ex_area)[0 := ex_label 7]"
  note cp = CopyFreeMap_prepared(2) [OF ex_area_facts(1)]
  have x: "label_ok (page_size (Index ex_area ! 0)) (ex_label 7)" by (simp add: ex_area_facts(3) ex_label_ok)
  have p: "prepared_ok ex_area ex_bits ?ls" and b: "bit_free ex_bits = (bit_free (nFree (Index ex_area ! cur_index ex_area)))(0 := False)"
    unfolding ex_bits_def using prepared_change [OF cp _ _ x, of 0 SLOT_USED] ex_area_facts(2) by simp_all
  note pf = prepared_facts [OF p] and s = switched_facts [OF prepared_facts(1) [OF p], folded ex_area_used_def]
  show "lsa_ok ex_area_used" "num_labels ex_area_used = 6" "page_size (Index ex_area_used ! 0) = 256"
    using s(1,4,5) pf(4,5) ex_area_facts(2,3) by simp_all
  have len: "length (pLabels ex_area) = 6" using ex_area_facts(1,2) by (simp add: lsa_ok_def)
  have "slot_map ex_bits ?ls = [0 \<mapsto> ex_label 7]"
    using ex_area_facts(4) lsa_map_slot_map [OF ex_area_facts(1)] len by (auto simp: fun_eq_iff slot_map_def b split: if_splits)
  then show "lsa_map ex_area_used = [0 \<mapsto> ex_label 7]"
    using lsa_map_slot_map [OF s(1)] s(6) pf(6) by (simp add: s(2,3) pf(3))
qed

text \<open>The DIMMs that hold these areas.\<close>

definition ex_dimm :: "bool \<Rightarrow> lsa \<Rightarrow> dimm" where
  "ex_dimm large l = snd (WriteLabelStorageArea l (ex_blank large LSA_OK))"

lemma ex_dimm_facts:
  assumes "lsa_ok l" and "num_labels l = 6" and "page_size (Index l ! 0) = 256"
  shows "holds (ex_dimm large l) l" and "dimm_table (ex_dimm large l) (lsa_table l)"
proof -
  have fit: "lsa_fits (ex_blank large LSA_OK) l" by (simp add: lsa_fits_def assms ex_blank_facts)
  from Write_stores [OF assms(1) this ex_blank_facts(1)] obtain m where
    "WriteLabelStorageArea l (ex_blank large LSA_OK) = (EFI_SUCCESS, (ex_blank large LSA_OK)\<lparr>pcd := m\<rparr>)"
    "stored ((ex_blank large LSA_OK)\<lparr>pcd := m\<rparr>) l" by blast
  then show h: "holds (ex_dimm large l) l" and "dimm_table (ex_dimm large l) (lsa_table l)"
    using fit assms(1) ex_blank_facts(1,4) [of large LSA_OK] by (auto simp: holds_def ex_dimm_def lsa_fits_def dimm_table_def)
qed

lemmas ex_held = ex_dimm_facts [OF ex_area_facts(1-3)] and ex_held_used = ex_dimm_facts [OF ex_area_used_facts(1-3)]

section \<open>Round trip\<close>

text \<open>
  C14: Writing a well-formed label storage area that fits the partition succeeds, and reading it back
  from the resulting DIMM succeeds and gives the same index blocks and the same labels in the used
  slots, with large and with small payloads and with version 1.1 and 1.2 labels.
\<close>

theorem lsa_write_read:
  assumes "lsa_ok l" and "lsa_fits d l" and "dimm_ready d"
  shows "\<exists>d' l'. WriteLabelStorageArea l d = (EFI_SUCCESS, d') \<and> ReadLabelStorageArea d' = Some (EFI_SUCCESS, Some l', d')
     \<and> Index l' = Index l \<and> lsa_map l' = lsa_map l"
proof -
  from Write_stores [OF assms] obtain m where
    m: "WriteLabelStorageArea l d = (EFI_SUCCESS, d\<lparr>pcd := m\<rparr>)" "stored (d\<lparr>pcd := m\<rparr>) l" by blast
  with assms have "holds (d\<lparr>pcd := m\<rparr>) l" by (simp add: holds_def lsa_fits_def)
  then show ?thesis using m(1) by (auto elim!: read_holds)
qed

theorem lsa_write_read_witness:
  "\<exists>d' l'. WriteLabelStorageArea ex_area_used (ex_blank False LSA_OK) = (EFI_SUCCESS, d')
     \<and> ReadLabelStorageArea d' = Some (EFI_SUCCESS, Some l', d') \<and> lsa_map l' = [0 \<mapsto> ex_label 7]"
  using lsa_write_read [OF ex_area_used_facts(1), of "ex_blank False LSA_OK"] ex_area_used_facts
  by (auto simp: lsa_fits_def ex_blank_facts)

section \<open>Operations on labels\<close>

text \<open>
  C15: Inserting one label into an initialised area with at least two free slots succeeds. The label
  goes to the first free slot and nothing else of the table changes; the DIMM holds a well-formed
  area again.
\<close>

theorem InsertNamespaceLabels_refines:
  assumes "dimm_table d t" and "label_ok (page t) x" and "2 \<le> length (free_list t)"
  shows "\<exists>d'. InsertNamespaceLabels [x] major minor d = Some (EFI_SUCCESS, d') \<and> dimm_table d' (table_insert x t)"
  using assms by (rule dimm_labels.insert_law)

theorem InsertNamespaceLabels_refines_witness:
  "\<exists>d'. InsertNamespaceLabels [ex_label 9] 1 2 (ex_dimm True ex_area) = Some (EFI_SUCCESS, d')
     \<and> dimm_table d' (table_insert (ex_label 9) (lsa_table ex_area))"
  by (rule InsertNamespaceLabels_refines [OF ex_held(2)]) (simp_all add: ex_area_facts ex_label_ok)

text \<open>
  C16: Removing the labels of a namespace, all of them or the one at a given DPA, succeeds and clears
  exactly the slots whose label matches.
\<close>

theorem RemoveNamespaceLabels_refines:
  assumes "dimm_table d t"
  shows "\<exists>d'. RemoveNamespaceLabels u dpa d = Some (EFI_SUCCESS, d') \<and> dimm_table d' (table_remove u dpa t)"
  using assms by (rule dimm_labels.delete_law)

theorem RemoveNamespaceLabels_refines_witness:
  "\<exists>d'. RemoveNamespaceLabels (replicate 16 7) 0 (ex_dimm False ex_area_used) = Some (EFI_SUCCESS, d')
     \<and> dimm_table d' (table_remove (replicate 16 7) 0 (lsa_table ex_area_used))"
  by (rule RemoveNamespaceLabels_refines [OF ex_held_used(2)])

text \<open>
  C17: Modifying the label in a used slot moves it: the first free slot receives the label with the
  new fields and slot number, sealed with a checksum for version 1.2, and the old slot becomes free.
  No other slot changes.
\<close>

theorem ModifyLabelAtSlot_refines:
  assumes "dimm_table d t" and "labels t (unat s) = Some x" and "free_list t \<noteq> []" and "\<forall>n. pName = Some n \<longrightarrow> length n = 64"
  shows "\<exists>d'. ModifyLabelAtSlot s pFlags pName num pos sz d = Some (EFI_SUCCESS, d')
     \<and> dimm_table d' (let k = hd (free_list t); y = ModifyLabel pFlags pName num pos sz (x\<lparr>lSlot := of_nat k\<rparr>)
          in t\<lparr>labels := (labels t)(k \<mapsto> (if page t = 256 then snd (SealLabel y) else y), unat s := None)\<rparr>)"
proof -
  obtain l where l: "LsaStatus d \<noteq> LSA_NOT_INIT" "holds d l" "lsa_table l = t" using assms(1) by (auto simp: dimm_table_def)
  then have "index_ok 0 (Index l ! 0)" by (simp add: holds_def lsa_ok_def)
  then have v: "nMinor (Index l ! 0) = NSINDEX_MINOR_2 \<longleftrightarrow> page t = 256"
    using l(3) [symmetric] by (auto simp: index_ok_def page_size_def label_version_1_1_def)
  from ModifyLabelAtSlot_updated [OF l(2), of s x pName pFlags num pos sz] assms(2-4) l(3) [symmetric] obtain d' l' where
    "ModifyLabelAtSlot s pFlags pName num pos sz d = Some (EFI_SUCCESS, d')"
    "updated d l d' l' ((lsa_map l)(hd (free_slots l) \<mapsto> (if nMinor (Index l ! 0) = NSINDEX_MINOR_2
        then snd (SealLabel (ModifyLabel pFlags pName num pos sz (x\<lparr>lSlot := of_nat (hd (free_slots l))\<rparr>)))
        else ModifyLabel pFlags pName num pos sz (x\<lparr>lSlot := of_nat (hd (free_slots l))\<rparr>)), unat s := None))" by auto
  with updated_table [OF this(2) l(1)] show ?thesis using v l(3) [symmetric] by (auto simp: Let_def)
qed

theorem ModifyLabelAtSlot_refines_witness:
  "\<exists>d'. ModifyLabelAtSlot 0 (Some 8) None 0 None 0 (ex_dimm False ex_area_used) = Some (EFI_SUCCESS, d')
     \<and> (\<exists>t'. dimm_table d' t' \<and> labels t' 0 = None)"
proof -
  have "free_slots ex_area_used \<noteq> []"
    using ex_area_used_facts(2,4) by (auto simp: filter_empty_conv free_list_def simp flip: lsa_table_simps(4) intro: bexI [of _ 1])
  from ModifyLabelAtSlot_refines [OF ex_held_used(2) [of False], of 0 "ex_label 7" None "Some 8" 0 None 0] this ex_area_used_facts(4)
  show ?thesis by (fastforce simp: Let_def)
qed

text \<open>
  C22: The first label inserted on a DIMM with a blank partition initialises the area with as many
  slots as the partition has room for, marks the area as good, and puts the label into slot 0.
\<close>

theorem first_insert_initialises:
  assumes "dimm_ready d" and "blank d" and "LsaStatus d = LSA_NOT_INIT" and "version_ok major minor"
    and "8 * label_size minor \<le> unat (PcdLsaPartitionSize d)" and "label_ok (label_size minor) x"
  shows "\<exists>d'. InsertNamespaceLabels [x] major minor d = Some (EFI_SUCCESS, d') \<and> LsaStatus d' = LSA_OK
     \<and> dimm_table d' \<lparr>slots = num_slots minor (unat (PcdLsaPartitionSize d) div (8 * label_size minor)), page = label_size minor,
          labels = [0 \<mapsto> x\<lparr>lSlot := 0\<rparr>]\<rparr>"
proof -
  let ?n = "num_slots minor (unat (PcdLsaPartitionSize d) div (8 * label_size minor))"
  obtain d1 l where i: "InitializeLabelStorageArea major minor d = Some (EFI_SUCCESS, d1)" "holds d1 l" "lsa_map l = Map.empty"
    "length (free_slots l) = ?n" "num_labels l = ?n" "nMinor (Index l ! 0) = minor" "d1 = d\<lparr>pcd := pcd d1\<rparr>"
    using InitializeLabelStorageArea_new [OF assms(1,2,4,5)] by blast
  obtain l1 where r: "ReadLabelStorageArea d1 = Some (EFI_SUCCESS, Some l1, d1)" by (rule read_holds [OF i(2)])
  let ?d = "d1\<lparr>LsaStatus := LSA_OK\<rparr>"
  have h: "holds ?d l" using i(2) by (simp add: holds_def dimm_ready_def lsa_fits_def stored_def)
  have p: "page_size (Index l ! 0) = label_size minor"
    using h i(6) assms(4) by (auto simp: holds_def lsa_ok_def index_ok_def page_size_def label_version_1_1_def label_size_def version_ok_def)
  have "1 \<le> unat (PcdLsaPartitionSize d) div (8 * label_size minor)" using assms(5) by (simp add: less_eq_div_iff_mult_less_eq label_size_def)
  then have n: "2 \<le> ?n" by (auto simp: num_slots_def label_size_def)
  have "free_slots l = [0..<?n]" unfolding lsa_table_simps(4) [symmetric] by (simp add: free_list_def i(3,5))
  then have hd: "hd (free_slots l) = 0" using n by (simp add: upt_conv_Cons)
  have "2 \<le> length (free_slots l)" using i(4) n by simp
  then obtain d' l' where
    u: "InsertIntoLsa [x] ?d = Some (EFI_SUCCESS, d')" "updated ?d l d' l' [0 \<mapsto> x\<lparr>lSlot := 0\<rparr>]"
    using InsertIntoLsa_updated [OF h, of "[x]"] assms(6) p by (auto simp: hd i(3))
  have "LsaStatus d' = LSA_OK" using u(2) unfolding updated_def by (metis dimm.select_convs(6) dimm.surjective dimm.update_convs(6,7))
  moreover have "dimm_table d' \<lparr>slots = ?n, page = label_size minor, labels = [0 \<mapsto> x\<lparr>lSlot := 0\<rparr>]\<rparr>"
    using updated_table [OF u(2)] by (simp add: lsa_table_def p i(5))
  moreover have "InsertNamespaceLabels [x] major minor d = Some (EFI_SUCCESS, d')"
    using assms(3) i(1) r u(1) by (simp add: InsertNamespaceLabels_def)
  ultimately show ?thesis by blast
qed

theorem first_insert_initialises_witness:
  "\<exists>d'. InsertNamespaceLabels [ex_label 9] 1 2 (ex_blank False LSA_NOT_INIT) = Some (EFI_SUCCESS, d') \<and> LsaStatus d' = LSA_OK
     \<and> dimm_table d' \<lparr>slots = 6, page = 256, labels = [0 \<mapsto> (ex_label 9)\<lparr>lSlot := 0\<rparr>]\<rparr>"
  using first_insert_initialises [of "ex_blank False LSA_NOT_INIT" 1 2 "ex_label 9"]
  by (simp add: ex_blank_facts version_ok_def label_size_def ex_label_ok num_slots_def)

section \<open>The index blocks\<close>

text \<open>
  \<open>UpdateLsaIndex\<close> on a well-formed area succeeds and keeps the area well-formed; the prepared
  block becomes the current one, with its bitmap and a checksum that verifies, and the block that was
  current is not touched.
\<close>

theorem UpdateLsaIndex_switches:
  assumes "lsa_ok l"
  shows "\<exists>l'. UpdateLsaIndex l True = (EFI_SUCCESS, l') \<and> lsa_ok l' \<and> cur_index l' = 1 - cur_index l
     \<and> nFree (Index l' ! cur_index l') = nFree (Index l ! (1 - cur_index l)) \<and> Index l' ! cur_index l = Index l ! cur_index l
     \<and> pLabels l' = pLabels l \<and> fst (ChecksumOperations (index_block (Index l' ! cur_index l')) 256 64 False)"
  using UpdateLsaIndex_switched [OF assms] switched_facts [OF assms] by (auto simp: next_index_def index_sealed_def)

theorem UpdateLsaIndex_switches_witness:
  "\<exists>l'. UpdateLsaIndex ex_area True = (EFI_SUCCESS, l') \<and> lsa_ok l' \<and> cur_index l' = 1 - cur_index ex_area"
  using UpdateLsaIndex_switches [OF ex_area_facts(1)] by blast

section \<open>Several labels, full areas and interrupted writes\<close>

text \<open>
  When several labels are inserted in one call they all go to the same slot, because the free
  slot is looked up in the current index block while the slots are marked in the next one: the call
  succeeds and only the last label is on the DIMM.
\<close>

theorem insert_several_keeps_last:
  assumes "dimm_table d t" and "xs \<noteq> []" and "length xs \<le> 64" and "\<forall>x \<in> set xs. label_ok (page t) x" and "length xs < length (free_list t)"
  shows "\<exists>d'. InsertNamespaceLabels xs major minor d = Some (EFI_SUCCESS, d') \<and> dimm_table d' (table_insert (last xs) t)"
proof -
  obtain l where l: "LsaStatus d \<noteq> LSA_NOT_INIT" "holds d l" "lsa_table l = t" using assms(1) by (auto simp: dimm_table_def)
  with InsertIntoLsa_updated [OF l(2) assms(2)] assms(4,5) obtain d' l' where
    "InsertIntoLsa xs d = Some (EFI_SUCCESS, d')"
    "updated d l d' l' ((lsa_map l)(hd (free_slots l) \<mapsto> (last xs)\<lparr>lSlot := of_nat (hd (free_slots l))\<rparr>))" by auto
  with updated_table [OF this(2) l(1)] l(1,3) assms(3) show ?thesis
    by (auto simp: InsertNamespaceLabels_def table_insert_def Let_def)
qed

theorem insert_several_keeps_last_witness:
  "\<exists>d'. InsertNamespaceLabels [ex_label 8, ex_label 9] 1 2 (ex_dimm False ex_area) = Some (EFI_SUCCESS, d')
     \<and> dimm_table d' (table_insert (ex_label 9) (lsa_table ex_area))"
  using insert_several_keeps_last [OF ex_held(2) [of False], of "[ex_label 8, ex_label 9]" 1 2]
  by (simp add: ex_area_facts ex_label_ok)

definition ex_area_full :: lsa where
  "ex_area_full = switched (prepared ex_area [0] (pLabels ex_area))"

lemma ex_area_full_facts:
  "lsa_ok ex_area_full" "num_labels ex_area_full = 6" "page_size (Index ex_area_full ! 0) = 256" "free_slots ex_area_full = []"
proof -
  have "length (nFree (Index ex_area ! 0)) = 1"
    using lsa_ok_index(1) [OF ex_area_facts(1), of 0] ex_area_facts(2) by (simp add: index_ok_def num_labels_def)
  then have p: "prepared_ok ex_area [0] (pLabels ex_area)" using ex_area_facts(1) by (simp add: prepared_ok_def lsa_ok_def)
  note pf = prepared_facts [OF p] and s = switched_facts [OF prepared_facts(1) [OF p], folded ex_area_full_def]
  show "lsa_ok ex_area_full" and n: "num_labels ex_area_full = 6" and "page_size (Index ex_area_full ! 0) = 256"
    using s(1,4,5) pf(4,5) ex_area_facts(2,3) by simp_all
  have "nFree (Index ex_area_full ! cur_index ex_area_full) = [0]" using s(6) pf(6) by (simp add: s(2) pf(3))
  then show "free_slots ex_area_full = []" by (auto simp: free_slots_def filter_empty_conv slot_free_def n)
qed

text \<open>
  When no slot is free, \<open>ModifyLabelAtSlot\<close> leaves the DIMM as it is and still reports success.
\<close>

lemma modify_without_free_slot:
  assumes "dimm_table d t" and "free_list t = []"
  shows "ModifyLabelAtSlot s pFlags pName num pos sz d = Some (EFI_SUCCESS, d)"
proof -
  obtain l where l: "holds d l" "lsa_table l = t" using assms(1) by (auto simp: dimm_table_def)
  obtain l1 where r: "ReadLabelStorageArea d = Some (EFI_SUCCESS, Some l1, d)" "lsa_ok l1" "free_slots l1 = free_slots l"
    by (rule read_holds [OF l(1)])
  with assms(2) l(2) show ?thesis by (auto simp: ModifyLabelAtSlot_def GetLsaFreeSlots_ok [OF r(2)])
qed

lemma SetChunks_fw:
  assumes "fw_results d = replicate k EFI_SUCCESS @ rs" and "length raw = 64 * k"
  shows "SetChunks k off raw d = (EFI_SUCCESS, d\<lparr>pcd := mem_write (pcd d) off raw, fw_results := rs\<rparr>)"
  using assms
proof (induction k arbitrary: off raw d)
  case (Suc k)
  have "mem_write (pcd d) off raw = mem_write (mem_write (pcd d) off (take 64 raw)) (off + 64) (drop 64 raw)"
    using Suc.prems(2) mem_write_append [of "pcd d" off "take 64 raw" "drop 64 raw"] by simp
  with Suc show ?case by (simp add: fw_command_def)
qed simp

lemma WriteLabelsSmall_fails:
  assumes ok: "lsa_ok l" and fit: "lsa_fits d l" and rdy: "dimm_ready d" and e: "e \<noteq> EFI_SUCCESS"
    and "k + n \<le> num_labels l" and "\<exists>j. k \<le> j \<and> j < k + n \<and> used (Index l ! cur_index l) j"
  shows "WriteLabelsSmall (Index l ! cur_index l) (pLabels l) 512 k n (d\<lparr>fw_results := [e]\<rparr>) = (e, d)"
  using assms(5,6)
proof (induction n arbitrary: k)
  case (Suc n)
  note p = lsa_ok_cur(4) [OF ok]
  have empty: "d\<lparr>fw_results := []\<rparr> = d" using rdy by (simp add: dimm_ready_def)
  have k: "k < num_labels l" using Suc.prems(1) by simp
  obtain q where q: "page_size (Index l ! 0) div 64 = Suc q" using page_facts(4) [OF ok fit rdy k] by auto
  show ?case
  proof (cases "used (Index l ! cur_index l) k")
    case True
    then show ?thesis using e FwSetPCD_page [OF ok fit rdy k] empty by (simp add: used_def p q fw_command_def)
  next
    case False
    with Suc.prems(2) have "\<exists>j. Suc k \<le> j \<and> j < Suc k + n \<and> used (Index l ! cur_index l) j"
      by (metis Suc_leI add_Suc_shift le_neq_implies_less)
    with Suc.IH [of "Suc k"] Suc.prems(1) False show ?thesis by (simp add: used_def)
  qed
qed auto

text \<open>
  C40: With small payloads the index blocks are written before the labels. When the firmware fails
  right after the index blocks, they are the new ones while every label page is still the old one: a
  slot can be in use without its label.
\<close>

theorem interrupted_small_write:
  assumes ok: "lsa_ok l" and fit: "lsa_fits d l" and rdy: "dimm_ready d" and small: "\<not> LargePayload d"
    and e: "e \<noteq> EFI_SUCCESS" and slot: "lsa_map l k \<noteq> None"
  shows "\<exists>d'. WriteLabelStorageArea l (d\<lparr>fw_results := replicate 8 EFI_SUCCESS @ [e]\<rparr>) = (e, d')
     \<and> mem_read (pcd d') 0 512 = index_block (Index l ! 0) @ index_block (Index l ! 1)
     \<and> (\<forall>a n. 512 \<le> a \<longrightarrow> mem_read (pcd d') a n = mem_read (pcd d) a n)"
proof -
  let ?d = "d\<lparr>fw_results := replicate 8 EFI_SUCCESS @ [e]\<rparr>" and ?m = "mem_write (pcd d) 0 (area_bytes l)"
  have ix: "index_ok 0 (Index l ! 0)" "index_ok 1 (Index l ! 1)" "nNumberOfLabels (Index l ! 1) = nNumberOfLabels (Index l ! 0)"
    using ok by (simp_all add: lsa_ok_def)
  have r: "pool d = []" "Manageable d" "AttribsStatus d = EFI_SUCCESS" "PcdLsaPartitionSize d \<noteq> 0" using rdy by (auto simp: dimm_ready_def)
  have "SetChunks 8 0 (area_bytes l) ?d = (EFI_SUCCESS, d\<lparr>pcd := ?m, fw_results := [e]\<rparr>)"
    using SetChunks_fw [of ?d 8 "[e]" "area_bytes l" 0] length_area [OF ok] by simp
  then have set: "FwSetPCDFromOffsetSmallPayload (area_bytes l) 0 512 ?d = (EFI_SUCCESS, d\<lparr>pcd := ?m, fw_results := [e]\<rparr>)"
    using r by (simp add: FwSetPCDFromOffsetSmallPayload_def pool_alloc_def)
  have k: "k < num_labels l" "used (Index l ! cur_index l) k"
    using slot used_slot(1) [OF ok lsa_ok_current(1) [OF ok]] by (auto simp: lsa_map_def split: if_splits)
  have labels: "WriteLabelsSmall (Index l ! cur_index l) (pLabels l) 512 0 (num_labels l) (d\<lparr>pcd := ?m, fw_results := [e]\<rparr>) = (e, d\<lparr>pcd := ?m\<rparr>)"
    using WriteLabelsSmall_fails [OF ok, of "d\<lparr>pcd := ?m\<rparr>" e 0 "num_labels l"] fit rdy e k by (auto simp: lsa_fits_def)
  have w: "WriteLabelStorageArea l ?d = (e, d\<lparr>pcd := ?m\<rparr>)"
    using small r set labels lsa_ok_cur(2,3) [OF ok] ValidateLsaData_ok [OF ix(1,2)] LabelIndexAreaToRawData_both [OF ix, folded area_bytes_def]
      lsa_ok_current(2) [OF ok]
    by (simp add: WriteLabelStorageArea_def Let_def pool_alloc_def)
  have "mem_read ?m 0 512 = area_bytes l" using length_area [OF ok] by (simp add: mem_simps)
  moreover have "\<forall>a n. 512 \<le> a \<longrightarrow> mem_read ?m a n = mem_read (pcd d) a n" using length_area [OF ok] by (simp add: mem_simps)
  ultimately show ?thesis using w by (auto simp: area_bytes_def)
qed

theorem interrupted_small_write_witness:
  "\<exists>d'. WriteLabelStorageArea ex_area_used ((ex_blank False LSA_OK)\<lparr>fw_results := replicate 8 EFI_SUCCESS @ [EFI_DEVICE_ERROR]\<rparr>) = (EFI_DEVICE_ERROR, d')
     \<and> mem_read (pcd d') 512 256 = replicate 256 0"
proof -
  have "mem_read (pcd (ex_blank False LSA_OK)) 512 256 = replicate 256 0" by (simp add: ex_blank_def mem_read_def map_replicate_const)
  moreover have "lsa_fits (ex_blank False LSA_OK) ex_area_used" by (simp add: lsa_fits_def ex_area_used_facts ex_blank_facts)
  ultimately show ?thesis
    using interrupted_small_write [OF ex_area_used_facts(1), of "ex_blank False LSA_OK" EFI_DEVICE_ERROR 0] ex_blank_facts
    by (fastforce simp: ex_area_used_facts(4))
qed

end
