(* ===== verification/Bubble_Sort.thy ===== *)
theory Bubble_Sort
  imports Prelude "HOL-Library.Multiset"
begin

text \<open>
  The two sorting routines of \<open>DcpmPkg/common/Utility.c\<close>: \<open>BubbleSort\<close> on arrays and
  \<open>BubbleSortLinkedList\<close> on EDK II linked lists. The comparison function is a parameter, as in the
  source; the locale \<open>comparator\<close> states what the callers' functions promise, and the clients'
  comparisons interpret it. Both routines loop until a pass swaps nothing, so they are partial
  functions; that they return the stable sort of their input is proved here.
\<close>

section \<open>Allocation\<close>

text \<open>
  Whether the next calls of \<open>AllocateZeroPool\<close> or \<open>AllocatePool\<close> succeed; behind the end of the list
  all of them do.
\<close>

type_synonym pool = "bool list"

fun take_pool :: "pool \<Rightarrow> bool \<times> pool" where
  "take_pool [] = (True, [])"
| "take_pool (b # p) = (b, p)"

section \<open>Model\<close>

text \<open>The \<open>for\<close> loop of one pass over the array, with the flag \<open>Swapped\<close>.\<close>

function SortPass :: "('a \<Rightarrow> 'a \<Rightarrow> int) \<Rightarrow> nat \<Rightarrow> 'a list \<Rightarrow> bool \<Rightarrow> 'a list \<times> bool" where
  "SortPass Compare Index a Swapped =
     (if Index < length a then
        if 0 < Compare (a ! (Index - 1)) (a ! Index) then
          SortPass Compare (Index + 1) (a[Index - 1 := a ! Index, Index := a ! (Index - 1)]) True
        else SortPass Compare (Index + 1) a Swapped
      else (a, Swapped))"
  by pat_completeness auto
termination by (relation "measure (\<lambda>(_, i, a, _). length a - i)") auto

declare SortPass.simps [simp del]

partial_function (option) SortLoop :: "('a \<Rightarrow> 'a \<Rightarrow> int) \<Rightarrow> 'a list \<Rightarrow> 'a list option" where
  "SortLoop Compare a =
     (let (a', Swapped) = SortPass Compare 1 a False
      in if Swapped then SortLoop Compare a' else Some a')"

definition BubbleSort ::
  "('a \<Rightarrow> 'a \<Rightarrow> int) \<Rightarrow> 'a list \<Rightarrow> pool \<Rightarrow> (efi_status \<times> 'a list \<times> pool) option" where
  "BubbleSort Compare a p =
     (let (ok, p) = take_pool p
      in if \<not> ok then Some (EFI_OUT_OF_RESOURCES, a, p)
         else map_option (\<lambda>a'. (EFI_SUCCESS, a', p)) (SortLoop Compare a))"

text \<open>
  One pass over a linked list. After \<open>SwapListEntries\<close> the pointers move on so that the larger entry
  is the current one again.
\<close>

fun ListPass :: "('a \<Rightarrow> 'a \<Rightarrow> int) \<Rightarrow> 'a list \<Rightarrow> 'a list \<times> bool" where
  "ListPass Compare (x # y # zs) =
     (if 0 < Compare x y then
        let (zs', _) = ListPass Compare (x # zs) in (y # zs', True)
      else let (zs', Swapped) = ListPass Compare (y # zs) in (x # zs', Swapped))"
| "ListPass Compare xs = (xs, False)"

partial_function (option) ListLoop :: "('a \<Rightarrow> 'a \<Rightarrow> int) \<Rightarrow> 'a list \<Rightarrow> 'a list option" where
  "ListLoop Compare xs =
     (let (xs', Swapped) = ListPass Compare xs
      in if Swapped then ListLoop Compare xs' else Some xs')"

definition BubbleSortLinkedList ::
  "('a \<Rightarrow> 'a \<Rightarrow> int) \<Rightarrow> 'a list \<Rightarrow> (efi_status \<times> 'a list) option" where
  "BubbleSortLinkedList Compare xs =
     (if xs = [] then Some (EFI_INVALID_PARAMETER, xs)
      else map_option (Pair EFI_SUCCESS) (ListLoop Compare xs))"

definition SortRegionDimmId :: "u16 \<Rightarrow> u16 \<Rightarrow> int" where
  "SortRegionDimmId a b = (if a = b then 0 else if a < b then -1 else 1)"

section \<open>A pass over an array is a pass over a list\<close>

lemma SortPass_ListPass:
  "Index = Suc (length pre) \<Longrightarrow>
   SortPass Compare Index (pre @ x # zs) Swapped =
     (pre @ fst (ListPass Compare (x # zs)), Swapped \<or> snd (ListPass Compare (x # zs)))"
proof (induction zs arbitrary: pre x Index Swapped)
  case Nil
  then show ?case by (subst SortPass.simps) simp
next
  case (Cons y zs)
  have nths: "(pre @ x # y # zs) ! (Index - 1) = x" "(pre @ x # y # zs) ! Index = y"
    using Cons.prems by (simp_all add: nth_append)
  have upd: "(pre @ x # y # zs)[Index - 1 := y, Index := x] = (pre @ [y]) @ x # zs"
    using Cons.prems by (simp add: list_update_append)
  have IH: "SortPass Compare (Index + 1) ((pre @ [u]) @ v # zs) s =
      ((pre @ [u]) @ fst (ListPass Compare (v # zs)), s \<or> snd (ListPass Compare (v # zs)))" for u v s
    using Cons.IH [of "Index + 1" "pre @ [u]" v s] Cons.prems by simp
  have lt: "Index < length (pre @ x # y # zs)" using Cons.prems by simp
  show ?case
    using IH [of y x True] IH [of x y Swapped] lt
    by (subst SortPass.simps) (simp only: nths upd if_True, simp add: split_beta)
qed

lemma SortPass_eq: "SortPass Compare 1 a False = ListPass Compare a"
proof (cases a)
  case Nil
  then show ?thesis by (subst SortPass.simps) simp
next
  case (Cons x zs)
  then show ?thesis using SortPass_ListPass [of 1 "[]" Compare x zs False] by simp
qed

section \<open>What comparisons promise\<close>

text \<open>A positive answer means that the key of the first item is the larger one.\<close>

locale comparator =
  fixes Compare :: "'a \<Rightarrow> 'a \<Rightarrow> int" and key :: "'a \<Rightarrow> 'k::linorder"
  assumes positive: "0 < Compare x y \<longleftrightarrow> key y < key x"
begin

text \<open>The number of inversions is the measure of both loops.\<close>

fun inversions :: "'a list \<Rightarrow> nat" where
  "inversions [] = 0"
| "inversions (x # xs) = length (filter (\<lambda>y. key y < key x) xs) + inversions xs"

lemma mset_pass_Cons: "mset (fst (ListPass Compare (x # zs))) = mset (x # zs)"
  by (induction zs arbitrary: x) (auto simp: split_beta)

lemma mset_pass [simp]: "mset (fst (ListPass Compare xs)) = mset xs"
  by (cases xs) (simp_all add: mset_pass_Cons)

lemma length_filter_pass [simp]:
  "length (filter P (fst (ListPass Compare xs))) = length (filter P xs)"
  by (metis mset_filter mset_pass size_mset)

lemma stable_pass_Cons:
  "filter (\<lambda>x. k = key x) (fst (ListPass Compare (x # zs))) = filter (\<lambda>x. k = key x) (x # zs)"
  by (induction zs arbitrary: x) (auto simp: positive split_beta)

lemma stable_pass [simp]:
  "filter (\<lambda>x. k = key x) (fst (ListPass Compare xs)) = filter (\<lambda>x. k = key x) xs"
  by (cases xs) (simp_all only: stable_pass_Cons, simp)

lemma inversions_pass_le: "inversions (fst (ListPass Compare (x # zs))) \<le> inversions (x # zs)"
proof (induction zs arbitrary: x)
  case (Cons y zs)
  show ?case using Cons.IH [of x] Cons.IH [of y] by (auto simp: split_beta positive)
qed simp

lemma pass_swapped:
  "snd (ListPass Compare (x # zs)) \<Longrightarrow> inversions (fst (ListPass Compare (x # zs))) < inversions (x # zs)"
proof (induction zs arbitrary: x)
  case (Cons y zs)
  show ?case using Cons.prems Cons.IH [of y] inversions_pass_le [of x zs]
    by (auto simp: split_beta positive split: if_splits)
qed simp

lemma pass_unswapped:
  "\<not> snd (ListPass Compare (x # zs)) \<Longrightarrow>
     fst (ListPass Compare (x # zs)) = x # zs \<and> sorted (map key (x # zs))"
proof (induction zs arbitrary: x)
  case (Cons y zs)
  have y: "\<not> key y < key x" "\<not> snd (ListPass Compare (y # zs))"
    using Cons.prems by (auto simp: split_beta positive split: if_splits)
  then show ?case using Cons.IH [OF y(2)] by (auto simp: split_beta positive)
qed simp

lemma stable_sort_key [simp]: "filter (\<lambda>x. k = key x) (sort_key key xs) = filter (\<lambda>x. k = key x) xs"
proof -
  have "(\<lambda>x. k = key x) = (\<lambda>x. key x = k)" by auto
  then show ?thesis using sort_key_stable [of key k xs] by simp
qed

text \<open>A loop that repeats the pass until nothing is swapped, whatever its name.\<close>

lemma loop_sorts:
  assumes unfold: "\<And>xs. loop xs =
      (let (xs', Swapped) = ListPass Compare xs in if Swapped then loop xs' else Some xs')"
  shows "loop xs = Some (sort_key key xs)"
proof (induction "inversions xs" arbitrary: xs rule: less_induct)
  case less
  show ?case
  proof (cases xs)
    case Nil
    then show ?thesis by (simp add: unfold [of "[]"])
  next
    case (Cons x zs)
    let ?ys = "fst (ListPass Compare xs)"
    show ?thesis
    proof (cases "snd (ListPass Compare xs)")
      case True
      then have "loop ?ys = Some (sort_key key ?ys)"
        using less pass_swapped [of x zs] Cons by simp
      moreover have "sort_key key ?ys = sort_key key xs"
        by (rule properties_for_sort_key) simp_all
      ultimately show ?thesis using True by (simp add: unfold [of xs] split_beta)
    next
      case False
      then have "?ys = xs \<and> sorted (map key xs)" using pass_unswapped [of x zs] Cons by simp
      then have "?ys = xs" "sort_key key xs = xs" by (simp_all only: sort_key_id_if_sorted)
      then show ?thesis using False by (simp add: unfold [of xs] split_beta)
    qed
  qed
qed

lemma SortLoop_sorts: "SortLoop Compare a = Some (sort_key key a)"
  by (rule loop_sorts) (subst SortLoop.simps, simp only: SortPass_eq)

lemma ListLoop_sorts: "ListLoop Compare xs = Some (sort_key key xs)"
  by (rule loop_sorts) (rule ListLoop.simps)

lemma BubbleSort_sorts:
  "BubbleSort Compare a p =
     Some (if fst (take_pool p) then EFI_SUCCESS else EFI_OUT_OF_RESOURCES,
           if fst (take_pool p) then sort_key key a else a, snd (take_pool p))"
  by (simp add: BubbleSort_def SortLoop_sorts split_beta Let_def)

lemma BubbleSortLinkedList_sorts:
  "BubbleSortLinkedList Compare xs =
     Some (if xs = [] then EFI_INVALID_PARAMETER else EFI_SUCCESS, sort_key key xs)"
  by (simp add: BubbleSortLinkedList_def ListLoop_sorts)

end

section \<open>Both routines return the stable sort\<close>

interpretation region_dimm_id: comparator SortRegionDimmId "\<lambda>x. x"
  by unfold_locales (auto simp: SortRegionDimmId_def)



end
