(* ===== verification/Nfit.thy ===== *)
theory Nfit
  imports Bubble_Sort "HOL-Library.Monad_Syntax"
begin

text \<open>
  The NVDIMM firmware interface table of \<open>DcpmPkg/driver/Utils/AcpiParsing.c\<close>: \<open>ParseNfitTable\<close>, which
  copies the subtables out of the ACPI table, the lookups in the parsed table, and \<open>RdpaToSpa\<close>, which
  translates an address of a DIMM region to a system physical address. A copied subtable is the list
  of its bytes; the fields of its packed structure (\<open>common/NvmTables.h\<close>) are read at their offsets
  (bytes that a short subtable lacks read as zero).
\<close>

section \<open>Structures\<close>

type_synonym subtable = "u8 list"

text \<open>\<open>SpaRangeTbl\<close>\<close>

definition SpaRangeIndex :: "subtable \<Rightarrow> u16" where "SpaRangeIndex t = get16 4 t"
definition AddressRangeTypeGuid :: "subtable \<Rightarrow> u8 list" where "AddressRangeTypeGuid t = take 16 (drop 16 t)"
definition SystemPhysicalAddressRangeBase :: "subtable \<Rightarrow> u64" where
  "SystemPhysicalAddressRangeBase t = get64 32 t"
definition SystemPhysicalAddressRangeLength :: "subtable \<Rightarrow> u64" where
  "SystemPhysicalAddressRangeLength t = get64 40 t"

text \<open>\<open>NvDimmRegionMappingStructure\<close>\<close>

definition RegionDeviceHandle :: "subtable \<Rightarrow> u32" where "RegionDeviceHandle t = get32 4 t"
definition NvDimmPhysicalId :: "subtable \<Rightarrow> u16" where "NvDimmPhysicalId t = get16 8 t"
definition RegionSpaRangeIndex :: "subtable \<Rightarrow> u16" where "RegionSpaRangeIndex t = get16 12 t"
definition NvdimmControlRegionDescriptorTableIndex :: "subtable \<Rightarrow> u16" where
  "NvdimmControlRegionDescriptorTableIndex t = get16 14 t"
definition NvDimmRegionSize :: "subtable \<Rightarrow> u64" where "NvDimmRegionSize t = get64 16 t"
definition RegionOffset :: "subtable \<Rightarrow> u64" where "RegionOffset t = get64 24 t"
definition NvDimmPhysicalAddressRegionBase :: "subtable \<Rightarrow> u64" where
  "NvDimmPhysicalAddressRegionBase t = get64 32 t"
definition RegionInterleaveIndex :: "subtable \<Rightarrow> u16" where "RegionInterleaveIndex t = get16 40 t"
definition InterleaveWays :: "subtable \<Rightarrow> u16" where "InterleaveWays t = get16 42 t"

text \<open>\<open>InterleaveStruct\<close>\<close>

definition InterleaveStructureIndex :: "subtable \<Rightarrow> u16" where "InterleaveStructureIndex t = get16 4 t"
definition NumberOfLinesDescribed :: "subtable \<Rightarrow> u32" where "NumberOfLinesDescribed t = get32 8 t"
definition LineSize :: "subtable \<Rightarrow> u32" where "LineSize t = get32 12 t"
definition LinesOffsets :: "subtable \<Rightarrow> nat \<Rightarrow> u32" where "LinesOffsets t i = get32 (16 + 4 * i) t"

text \<open>\<open>ControlRegionTbl\<close>\<close>

definition ControlRegionDescriptorTableIndex :: "subtable \<Rightarrow> u16" where
  "ControlRegionDescriptorTableIndex t = get16 4 t"
definition VendorId :: "subtable \<Rightarrow> u16" where "VendorId t = get16 6 t"
definition ManufacturingLocation :: "subtable \<Rightarrow> u8" where "ManufacturingLocation t = of_le (take 1 (drop 19 t))"
definition ManufacturingDate :: "subtable \<Rightarrow> u16" where "ManufacturingDate t = get16 20 t"
definition SerialNumber :: "subtable \<Rightarrow> u32" where "SerialNumber t = get32 24 t"

text \<open>\<open>BWRegionTbl\<close> and \<open>FlushHintTbl\<close>\<close>

definition ControlRegionStructureIndex :: "subtable \<Rightarrow> u16" where
  "ControlRegionStructureIndex t = get16 4 t"
definition FlushDeviceHandle :: "subtable \<Rightarrow> u32" where "FlushDeviceHandle t = get32 4 t"

text \<open>The parsed table. The counters of the source are the lengths of the lists.\<close>

record ParsedFitHeader =
  pFit :: "u8 list"
  ppSpaRangeTbles :: "subtable list"
  ppNvDimmRegionMappingStructures :: "subtable list"
  ppInterleaveTbles :: "subtable list"
  ppSmbiosTbles :: "subtable list"
  ppControlRegionTbles :: "subtable list"
  ppBWRegionTbles :: "subtable list"
  ppFlushHintTbles :: "subtable list"
  ppPlatformCapabilitiesTbles :: "subtable list"

section \<open>Parsing\<close>

text \<open>
  Appending a copy of \<open>DataSize\<close> bytes to an array of pointers. \<open>None\<close> is a NULL result. When only the
  allocation of the copy fails, the new array of pointers is returned with its contents uninitialised
  and the counter unchanged; \<open>uninit\<close> is what those pointers happen to address.
\<close>

definition CopyMemoryAndAddPointerToArray ::
  "(nat \<Rightarrow> subtable) \<Rightarrow> subtable list \<Rightarrow> memory \<Rightarrow> nat \<Rightarrow> nat \<Rightarrow> pool \<Rightarrow> subtable list option \<times> pool" where
  "CopyMemoryAndAddPointerToArray uninit ppTable m pToAdd DataSize p =
     (let (ok_table, p) = take_pool p;
          (ok_data, p) = take_pool p
      in (if \<not> ok_table then None
          else if \<not> ok_data then Some (map uninit [0..<length ppTable])
          else Some (ppTable @ [mem_read m pToAdd DataSize]), p))"

definition AddSubtable ::
  "(nat \<Rightarrow> subtable) \<Rightarrow> u16 \<Rightarrow> memory \<Rightarrow> nat \<Rightarrow> nat \<Rightarrow> ParsedFitHeader \<Rightarrow> pool \<Rightarrow> ParsedFitHeader option \<times> pool" where
  "AddSubtable uninit Type m pTab Length h p =
     (let add = (\<lambda>get set.
            let (t, p) = CopyMemoryAndAddPointerToArray uninit (get h) m pTab Length p
            in (map_option (\<lambda>t. set (\<lambda>_. t) h) t, p))
      in if Type = 0 then add ppSpaRangeTbles ppSpaRangeTbles_update
         else if Type = 1 then add ppNvDimmRegionMappingStructures ppNvDimmRegionMappingStructures_update
         else if Type = 2 then add ppInterleaveTbles ppInterleaveTbles_update
         else if Type = 3 then add ppSmbiosTbles ppSmbiosTbles_update
         else if Type = 4 then add ppControlRegionTbles ppControlRegionTbles_update
         else if Type = 5 then add ppBWRegionTbles ppBWRegionTbles_update
         else if Type = 6 then add ppFlushHintTbles ppFlushHintTbles_update
         else if Type = 7 then add ppPlatformCapabilitiesTbles ppPlatformCapabilitiesTbles_update
         else (Some h, p))"

text \<open>
  The loop over the subtables. \<open>Remaining\<close> is \<open>RemainingNFITBytes\<close>, which wraps when a subtable is
  longer than what remains of the table. The outer \<open>None\<close> is a loop that does not end, \<open>Some None\<close> the
  NULL result.
\<close>

partial_function (option) NfitLoop ::
  "(nat \<Rightarrow> subtable) \<Rightarrow> memory \<Rightarrow> nat \<Rightarrow> u32 \<Rightarrow> ParsedFitHeader \<Rightarrow> pool \<Rightarrow> (ParsedFitHeader option \<times> pool) option" where
  "NfitLoop uninit m pTab Remaining h p =
     (if 0 < Remaining then
        let Type = get16 0 (mem_read m pTab 4); Length = get16 2 (mem_read m pTab 4)
        in if Length = 0 then Some (None, p)
           else (case AddSubtable uninit Type m pTab (unat Length) h p of
               (None, p) \<Rightarrow> Some (None, p)
             | (Some h, p) \<Rightarrow> NfitLoop uninit m (pTab + unat Length) (Remaining - ucast Length) h p)
      else Some (Some h, p))"

definition ParseNfitTable ::
  "(nat \<Rightarrow> subtable) \<Rightarrow> memory \<Rightarrow> nat \<Rightarrow> pool \<Rightarrow> (ParsedFitHeader option \<times> pool) option" where
  "ParseNfitTable uninit m pTable p =
     (let Remaining = get32 4 (mem_read m pTable 40) - 40;
          (ok, p) = take_pool p
      in if \<not> ok then Some (None, p)
         else let (ok, p) = take_pool p
           in if \<not> ok then Some (None, p)
              else NfitLoop uninit m (pTable + 40) Remaining
                \<lparr>pFit = mem_read m pTable 40, ppSpaRangeTbles = [], ppNvDimmRegionMappingStructures = [],
                 ppInterleaveTbles = [], ppSmbiosTbles = [], ppControlRegionTbles = [],
                 ppBWRegionTbles = [], ppFlushHintTbles = [], ppPlatformCapabilitiesTbles = []\<rparr> p)"

section \<open>Lookups\<close>

text \<open>
  The search loop of the lookups, whose index has 16 bits while the counters have 32: with more than
  65535 tables and no match it does not end.
\<close>

partial_function (option) find_u16 :: "('a \<Rightarrow> bool) \<Rightarrow> 'a list \<Rightarrow> u16 \<Rightarrow> 'a option option" where
  "find_u16 P xs Index =
     (if unat Index < length xs then
        if P (xs ! unat Index) then Some (Some (xs ! unat Index)) else find_u16 P xs (Index + 1)
      else Some None)"

definition found :: "'a option \<Rightarrow> efi_status \<times> 'a option" where
  "found r = (if r = None then EFI_NOT_FOUND else EFI_SUCCESS, r)"

definition GetFlushHintTableForNvDimmRegionTable ::
  "ParsedFitHeader \<Rightarrow> subtable \<Rightarrow> efi_status \<times> subtable option" where
  "GetFlushHintTableForNvDimmRegionTable h region =
     fold (\<lambda>t r. if RegionDeviceHandle region = FlushDeviceHandle t then (EFI_SUCCESS, Some t) else r)
       (ppFlushHintTbles h) (EFI_NOT_FOUND, None)"

definition GetBlockDataWindowRegDescTabl ::
  "ParsedFitHeader \<Rightarrow> subtable \<Rightarrow> (efi_status \<times> subtable option) option" where
  "GetBlockDataWindowRegDescTabl h ctrl =
     map_option found
       (find_u16 (\<lambda>t. ControlRegionStructureIndex t = ControlRegionDescriptorTableIndex ctrl)
         (ppBWRegionTbles h) 0)"

definition GetControlRegionTableForNvDimmRegionTable ::
  "ParsedFitHeader \<Rightarrow> subtable \<Rightarrow> (efi_status \<times> subtable option) option" where
  "GetControlRegionTableForNvDimmRegionTable h region =
     map_option found
       (find_u16 (\<lambda>t. ControlRegionDescriptorTableIndex t = NvdimmControlRegionDescriptorTableIndex region)
         (ppControlRegionTbles h) 0)"

definition GetSpaRangeTable :: "ParsedFitHeader \<Rightarrow> u16 \<Rightarrow> (efi_status \<times> subtable option) option" where
  "GetSpaRangeTable h i = map_option found (find_u16 (\<lambda>t. SpaRangeIndex t = i) (ppSpaRangeTbles h) 0)"

definition GetInterleaveTable :: "ParsedFitHeader \<Rightarrow> u16 \<Rightarrow> (efi_status \<times> subtable option) option" where
  "GetInterleaveTable h i =
     map_option found (find_u16 (\<lambda>t. InterleaveStructureIndex t = i) (ppInterleaveTbles h) 0)"

definition DIMM_PID_ALL :: u16 where "DIMM_PID_ALL = 0xFFFF"
definition DIMM_PID_INVALID :: u16 where "DIMM_PID_INVALID = 0xFFFE"

text \<open>The test of one mapping structure with the right physical id: is it the requested one?\<close>

definition RegionMatches ::
  "ParsedFitHeader \<Rightarrow> u8 list option \<Rightarrow> u16 option \<Rightarrow> subtable \<Rightarrow> bool option" where
  "RegionMatches h guid spa region =
     (let ok = (case spa of None \<Rightarrow> True | Some i \<Rightarrow> RegionSpaRangeIndex region = i)
      in case guid of
           None \<Rightarrow> Some ok
         | Some g \<Rightarrow> do {
             (rc, t) \<leftarrow> GetSpaRangeTable h (RegionSpaRangeIndex region);
             Some (ok \<and> (case t of None \<Rightarrow> False | Some t \<Rightarrow> AddressRangeTypeGuid t = g))
           })"

partial_function (option) RegionLoop ::
  "ParsedFitHeader \<Rightarrow> u16 \<Rightarrow> u8 list option \<Rightarrow> u16 option \<Rightarrow> u16 \<Rightarrow> efi_status
     \<Rightarrow> (efi_status \<times> subtable option) option" where
  "RegionLoop h Pid guid spa Index rc =
     (if unat Index < length (ppNvDimmRegionMappingStructures h) then
        let region = ppNvDimmRegionMappingStructures h ! unat Index
        in if NvDimmPhysicalId region \<noteq> Pid then RegionLoop h Pid guid spa (Index + 1) rc
           else (case RegionMatches h guid spa region of
               None \<Rightarrow> None
             | Some b \<Rightarrow> if b then Some (EFI_SUCCESS, Some region)
                 else RegionLoop h Pid guid spa (Index + 1) EFI_NOT_FOUND)
      else Some (rc, None))"

definition GetNvDimmRegionMappingStructureForPid ::
  "ParsedFitHeader \<Rightarrow> u16 \<Rightarrow> u8 list option \<Rightarrow> u16 option \<Rightarrow> (efi_status \<times> subtable option) option" where
  "GetNvDimmRegionMappingStructureForPid h Pid guid spa =
     (if Pid = DIMM_PID_ALL \<or> Pid = DIMM_PID_INVALID then Some (EFI_INVALID_PARAMETER, None)
      else RegionLoop h Pid guid spa 0 EFI_INVALID_PARAMETER)"

section \<open>Address translation\<close>

text \<open>
  \<open>RdpaToSpa\<close>. The products of the \<open>UINT32\<close> fields are taken in 32 bits before they are widened.
  \<open>None\<close> is a division by zero or a line offset behind the end of the table.
\<close>

definition RdpaToSpa ::
  "u64 \<Rightarrow> subtable \<Rightarrow> subtable \<Rightarrow> subtable option \<Rightarrow> (efi_status + u64) option" where
  "RdpaToSpa Rdpa region spa interleave =
     (let StartSpaAddress = SystemPhysicalAddressRangeBase spa + RegionOffset region
      in case interleave of
           None \<Rightarrow> Some (Inr (StartSpaAddress + Rdpa))
         | Some t \<Rightarrow>
             if LineSize t = 0 \<or> NumberOfLinesDescribed t = 0 then Some (Inl EFI_INVALID_PARAMETER)
             else
               let RotationSize = ucast (LineSize t * NumberOfLinesDescribed t) :: u64
               in if RotationSize = 0 then None
                  else
                    let RotationNum = Rdpa div RotationSize;
                        LineNum = ucast ((Rdpa mod RotationSize) div ucast (LineSize t)) :: u32
                    in if length t < 16 + 4 * unat LineNum + 4 then None
                       else Some (Inr (StartSpaAddress
                         + RotationNum * RotationSize * ucast (InterleaveWays region)
                         + ucast (LinesOffsets t (unat LineNum) * LineSize t)
                         + Rdpa mod ucast (LineSize t))))"

section \<open>The search loops\<close>

lemma find_u16_drop:
  "length xs < 2 ^ 16 \<Longrightarrow> unat i \<le> length xs \<Longrightarrow> find_u16 P xs i = Some (find P (drop (unat i) xs))"
proof (induction "length xs - unat i" arbitrary: i)
  case 0
  then show ?case by (subst find_u16.simps) simp
next
  case (Suc n)
  then have lt: "unat i < length xs" by simp
  then have up: "unat (i + 1) = Suc (unat i)" using Suc.prems by (simp add: unat_word_ariths)
  have d: "drop (unat i) xs = xs ! unat i # drop (Suc (unat i)) xs"
    using lt by (simp add: Cons_nth_drop_Suc)
  show ?case using Suc lt up by (subst find_u16.simps) (simp add: d)
qed

lemma find_u16_find: "length xs < 2 ^ 16 \<Longrightarrow> find_u16 P xs 0 = Some (find P xs)"
  using find_u16_drop [of xs 0 P] by simp

text \<open>Tables small enough for 16-bit loops.\<close>

definition nfit_small :: "ParsedFitHeader \<Rightarrow> bool" where
  "nfit_small h \<longleftrightarrow> length (ppSpaRangeTbles h) < 2 ^ 16 \<and> length (ppNvDimmRegionMappingStructures h) < 2 ^ 16
     \<and> length (ppInterleaveTbles h) < 2 ^ 16 \<and> length (ppControlRegionTbles h) < 2 ^ 16
     \<and> length (ppBWRegionTbles h) < 2 ^ 16"

lemma lookups [simp]:
  assumes "nfit_small h"
  shows "GetSpaRangeTable h i = Some (found (find (\<lambda>t. SpaRangeIndex t = i) (ppSpaRangeTbles h)))"
    "GetInterleaveTable h i = Some (found (find (\<lambda>t. InterleaveStructureIndex t = i) (ppInterleaveTbles h)))"
    "GetControlRegionTableForNvDimmRegionTable h r = Some (found
       (find (\<lambda>t. ControlRegionDescriptorTableIndex t = NvdimmControlRegionDescriptorTableIndex r)
         (ppControlRegionTbles h)))"
    "GetBlockDataWindowRegDescTabl h r = Some (found
       (find (\<lambda>t. ControlRegionStructureIndex t = ControlRegionDescriptorTableIndex r) (ppBWRegionTbles h)))"
  using assms
  by (simp_all add: GetSpaRangeTable_def GetInterleaveTable_def GetBlockDataWindowRegDescTabl_def
      GetControlRegionTableForNvDimmRegionTable_def find_u16_find nfit_small_def)

text \<open>The mapping structure of a DIMM in an interleave set: the first with its id and SPA range.\<close>

definition region_for :: "ParsedFitHeader \<Rightarrow> u16 \<Rightarrow> u16 \<Rightarrow> subtable option" where
  "region_for h Pid spa =
     find (\<lambda>r. NvDimmPhysicalId r = Pid \<and> RegionSpaRangeIndex r = spa) (ppNvDimmRegionMappingStructures h)"

lemma RegionLoop_spa:
  assumes "length (ppNvDimmRegionMappingStructures h) < 2 ^ 16"
  shows "unat i \<le> length (ppNvDimmRegionMappingStructures h) \<Longrightarrow> rc \<noteq> EFI_SUCCESS \<Longrightarrow>
    \<exists>rc'. rc' \<noteq> EFI_SUCCESS \<and> RegionLoop h Pid None (Some spa) i rc =
      Some (let r = find (\<lambda>r. NvDimmPhysicalId r = Pid \<and> RegionSpaRangeIndex r = spa)
                     (drop (unat i) (ppNvDimmRegionMappingStructures h))
            in (if r = None then rc' else EFI_SUCCESS, r))"
proof (induction "length (ppNvDimmRegionMappingStructures h) - unat i" arbitrary: i rc)
  case 0
  then show ?case by (subst RegionLoop.simps) auto
next
  case (Suc n)
  let ?rs = "ppNvDimmRegionMappingStructures h"
  have lt: "unat i < length ?rs" using Suc by simp
  then have up: "unat (i + 1) = Suc (unat i)" using assms by (simp add: unat_word_ariths)
  have d: "drop (unat i) ?rs = ?rs ! unat i # drop (Suc (unat i)) ?rs"
    using lt by (simp add: Cons_nth_drop_Suc)
  have n: "n = length ?rs - unat (i + 1)" "unat (i + 1) \<le> length ?rs" using Suc.hyps(2) up lt by simp_all
  note IH1 = Suc.hyps(1) [OF n Suc.prems(2)]
  note IH2 = Suc.hyps(1) [OF n, of EFI_NOT_FOUND, simplified]
  show ?case
    using lt up IH1 IH2 Suc.prems(2)
    by (subst RegionLoop.simps) (auto simp: d RegionMatches_def Let_def)
qed

lemma GetNvDimmRegion_spa:
  assumes "nfit_small h" "Pid \<noteq> DIMM_PID_ALL" "Pid \<noteq> DIMM_PID_INVALID"
  shows "\<exists>rc. rc \<noteq> EFI_SUCCESS \<and> GetNvDimmRegionMappingStructureForPid h Pid None (Some spa) =
    Some (if region_for h Pid spa = None then rc else EFI_SUCCESS, region_for h Pid spa)"
  using RegionLoop_spa [of h 0 EFI_INVALID_PARAMETER Pid spa] assms
  by (simp add: GetNvDimmRegionMappingStructureForPid_def region_for_def nfit_small_def Let_def)

end
