(* ===== verification/Nfit_Correct.thy ===== *)
theory Nfit_Correct
  imports Nfit
begin

text \<open>
  Properties of the NFIT: parsing a well-formed table returns its subtables by type and in order;
  a subtable that overstates its length makes the parser read behind the table; the translation of
  region addresses is injective and stays inside the SPA range where its 32-bit products do not wrap,
  and is not injective where they do.
\<close>

section \<open>Parsing a well-formed table\<close>

abbreviation sub_type :: "subtable \<Rightarrow> u16" where "sub_type t \<equiv> get16 0 t"

definition sub_ok :: "subtable \<Rightarrow> bool" where
  "sub_ok t \<longleftrightarrow> 4 \<le> length t \<and> unat (get16 2 t) = length t"

definition add_all :: "subtable list \<Rightarrow> ParsedFitHeader \<Rightarrow> ParsedFitHeader" where
  "add_all ts h = h\<lparr>
     ppSpaRangeTbles := ppSpaRangeTbles h @ filter (\<lambda>t. sub_type t = 0) ts,
     ppNvDimmRegionMappingStructures := ppNvDimmRegionMappingStructures h @ filter (\<lambda>t. sub_type t = 1) ts,
     ppInterleaveTbles := ppInterleaveTbles h @ filter (\<lambda>t. sub_type t = 2) ts,
     ppSmbiosTbles := ppSmbiosTbles h @ filter (\<lambda>t. sub_type t = 3) ts,
     ppControlRegionTbles := ppControlRegionTbles h @ filter (\<lambda>t. sub_type t = 4) ts,
     ppBWRegionTbles := ppBWRegionTbles h @ filter (\<lambda>t. sub_type t = 5) ts,
     ppFlushHintTbles := ppFlushHintTbles h @ filter (\<lambda>t. sub_type t = 6) ts,
     ppPlatformCapabilitiesTbles := ppPlatformCapabilitiesTbles h @ filter (\<lambda>t. sub_type t = 7) ts\<rparr>"

lemma AddSubtable_add_all:
  "mem_read m a n = t \<Longrightarrow>
     AddSubtable uninit (sub_type t) m a n h [] = (Some (add_all [t] h), [])"
  by (simp add: AddSubtable_def CopyMemoryAndAddPointerToArray_def add_all_def)

lemma add_all_Cons: "add_all ts (add_all [t] h) = add_all (t # ts) h"
  by (simp add: add_all_def)

lemma get_mem_read:
  "k \<le> n \<Longrightarrow> get16 0 (mem_read m a n) = get16 0 (mem_read m a k)" if "2 \<le> k"
  using that by (simp add: get16_def mem_read_sub [of 0, simplified])

lemma get2_mem_read:
  "k \<le> n \<Longrightarrow> get16 2 (mem_read m a n) = get16 2 (mem_read m a k)" if "4 \<le> k"
  using that by (simp add: get16_def mem_read_sub)

lemma mem_read_halves:
  "mem_read m a (n + k) = xs @ ys \<Longrightarrow> length xs = n \<Longrightarrow>
     mem_read m a n = xs \<and> mem_read m (a + n) k = ys"
  by (metis append_eq_append_conv length_mem_read mem_read_append)

lemma NfitLoop_ok:
  assumes "\<forall>t\<in>set ts. sub_ok t" "mem_read m a (length (concat ts)) = concat ts"
    "length (concat ts) < 2 ^ 32"
  shows "NfitLoop uninit m a (of_nat (length (concat ts))) h [] = Some (Some (add_all ts h), [])"
  using assms
proof (induction ts arbitrary: a h)
  case Nil
  then show ?case by (subst NfitLoop.simps) (simp add: add_all_def)
next
  case (Cons t ts)
  let ?n = "length t" and ?k = "length (concat ts)"
  have ok: "4 \<le> ?n" "unat (get16 2 t) = ?n" using Cons.prems by (simp_all add: sub_ok_def)
  have rd: "mem_read m a ?n = t" "mem_read m (a + ?n) ?k = concat ts"
    using mem_read_halves [of m a ?n ?k t "concat ts"] Cons.prems(2) by simp_all
  have hdr: "get16 0 (mem_read m a 4) = sub_type t" "get16 2 (mem_read m a 4) = get16 2 t"
    using get_mem_read [of 4 ?n m a] get2_mem_read [of 4 ?n m a] ok rd by simp_all
  have nz: "get16 2 t \<noteq> 0" using ok by auto
  have pos: "0 < (of_nat (?n + ?k) :: u32)"
    using ok Cons.prems(3) by (auto simp: word_less_nat_alt unat_of_nat take_bit_nat_eq_self simp del: of_nat_add)
  have len: "ucast (get16 2 t) = (of_nat ?n :: u32)"
    by (metis ok(2) of_nat_unat)
  have "NfitLoop uninit m (a + ?n) (of_nat ?k) (add_all [t] h) [] = Some (Some (add_all (t # ts) h), [])"
    using Cons.IH [of "a + ?n" "add_all [t] h"] Cons.prems rd by (simp add: add_all_Cons)
  then show ?case
    using pos nz AddSubtable_add_all [OF rd(1), of uninit h]
    by (subst NfitLoop.simps) (simp add: hdr ok len)
qed

text \<open>
  C26: \<open>ParseNfitTable\<close> ends on a well-formed table and returns its header and, for each of the eight
  subtable types, exactly the subtables of that type in table order; subtables of other types are
  skipped, and the memory behind the table has no influence. Well formed means that the length field
  of the header counts the header and all subtables, and that of each subtable its own bytes.
\<close>

theorem ParseNfitTable_roundtrip:
  assumes "length hdr = 40" "unat (get32 4 hdr) = 40 + length (concat ts)" "\<forall>t\<in>set ts. sub_ok t"
  shows "ParseNfitTable uninit (mem_write m a (hdr @ concat ts)) a [] =
    Some (Some \<lparr>pFit = hdr,
      ppSpaRangeTbles = filter (\<lambda>t. sub_type t = 0) ts,
      ppNvDimmRegionMappingStructures = filter (\<lambda>t. sub_type t = 1) ts,
      ppInterleaveTbles = filter (\<lambda>t. sub_type t = 2) ts,
      ppSmbiosTbles = filter (\<lambda>t. sub_type t = 3) ts,
      ppControlRegionTbles = filter (\<lambda>t. sub_type t = 4) ts,
      ppBWRegionTbles = filter (\<lambda>t. sub_type t = 5) ts,
      ppFlushHintTbles = filter (\<lambda>t. sub_type t = 6) ts,
      ppPlatformCapabilitiesTbles = filter (\<lambda>t. sub_type t = 7) ts\<rparr>, [])"
proof -
  let ?m = "mem_write m a (hdr @ concat ts)"
  have rd: "mem_read ?m a 40 = hdr" "mem_read ?m (a + 40) (length (concat ts)) = concat ts"
    using assms(1) mem_read_halves [of ?m a 40 "length (concat ts)" hdr "concat ts"]
    by (simp_all add: mem_write_same)
  have small: "length (concat ts) < 2 ^ 32" using assms(2) unat_bound [of "get32 4 hdr"] by simp
  have "get32 4 hdr = of_nat (40 + length (concat ts))" by (metis assms(2) of_nat_unat ucast_id)
  then have rem: "get32 4 hdr - 40 = of_nat (length (concat ts))" by simp
  show ?thesis
    using NfitLoop_ok [OF assms(3) rd(2) small]
    by (simp add: ParseNfitTable_def rd rem add_all_def)
qed

section \<open>Translation of region addresses\<close>

text \<open>The translation on naturals: lines of \<open>L\<close> bytes, \<open>n\<close> lines to a rotation.\<close>

definition spa_of :: "nat \<Rightarrow> nat \<Rightarrow> nat \<Rightarrow> (nat \<Rightarrow> nat) \<Rightarrow> nat \<Rightarrow> nat" where
  "spa_of L n ways offs r = ((r div (L * n)) * (n * ways) + offs (r mod (L * n) div L)) * L + r mod L"

lemma line_lt: "0 < L \<Longrightarrow> 0 < n \<Longrightarrow> r mod (L * n) div L < (n :: nat)"
  by (simp add: less_mult_imp_div_less mult.commute)

lemma rdpa_parts: "r = (r div (L * n)) * (L * n) + (r mod (L * n) div L) * L + r mod (L :: nat)"
proof -
  have "r mod (L * n) = (r mod (L * n) div L) * L + r mod L"
    using div_mult_mod_eq [of "r mod (L * n)" L] by (simp add: mod_mod_cancel)
  then show ?thesis using div_mult_mod_eq [of r "L * n"] by linarith
qed

lemma spa_of_inj:
  assumes L: "0 < L" "0 < n" and offs: "\<forall>i<n. offs i < n * ways" "inj_on offs {..<n}"
    and eq: "spa_of L n ways offs r = spa_of L n ways offs r'"
  shows "r = r'"
proof -
  let ?x = "\<lambda>r. (r div (L * n)) * (n * ways) + offs (r mod (L * n) div L)"
  have "?x r = ?x r'" "r mod L = r' mod L"
    using arg_cong [OF eq, of "\<lambda>s. s div L"] arg_cong [OF eq, of "\<lambda>s. s mod L"] L
    by (simp_all add: spa_of_def)
  moreover have o: "offs (r mod (L * n) div L) < n * ways" for r using offs(1) line_lt [OF L] by blast
  have dm: "(q * d + e) div d = q" "(q * d + e) mod d = e" if "e < d" for q d e :: nat using that by simp_all
  have "?x r div (n * ways) = r div (L * n)" "?x r mod (n * ways) = offs (r mod (L * n) div L)" for r
    by (rule dm [OF o])+
  ultimately have "r div (L * n) = r' div (L * n)"
    "offs (r mod (L * n) div L) = offs (r' mod (L * n) div L)" "r mod L = r' mod L" by metis+
  moreover then have "r mod (L * n) div L = r' mod (L * n) div L"
    using inj_onD [OF offs(2)] line_lt [OF L] by blast
  ultimately show ?thesis using rdpa_parts [of r L n] rdpa_parts [of r' L n] by presburger
qed

lemma spa_of_lt:
  assumes L: "0 < L" "0 < n" and offs: "\<forall>i<n. offs i < n * ways" and R: "r < R" "L * n dvd R"
  shows "spa_of L n ways offs r < R * ways"
proof -
  obtain k where k: "R = L * n * k" using R(2) by blast
  then have q: "r div (L * n) < k" using R(1) by (simp add: less_mult_imp_div_less mult.commute)
  have "(r div (L * n)) * (n * ways) + offs (r mod (L * n) div L) < Suc (r div (L * n)) * (n * ways)"
    using offs line_lt [OF L, of r] by simp
  also have "\<dots> \<le> k * (n * ways)" using q by (intro mult_le_mono1) simp
  finally have "Suc ((r div (L * n)) * (n * ways) + offs (r mod (L * n) div L)) * L \<le> k * (n * ways) * L"
    by (intro mult_le_mono1) simp
  moreover have "spa_of L n ways offs r < Suc ((r div (L * n)) * (n * ways) + offs (r mod (L * n) div L)) * L"
    using L by (simp add: spa_of_def)
  ultimately show ?thesis by (simp add: k ac_simps)
qed

lemma unat_sum_nowrap:
  "unat a + unat b + unat c + unat d + unat e < 2 ^ LENGTH('a) \<Longrightarrow>
     unat (a + b + c + d + e :: 'a::len word) = unat a + unat b + unat c + unat d + unat e"
  by (simp add: unat_plus_nowrap)

text \<open>An interleave table that fits its region, whose products stay below \<open>2^32\<close>.\<close>

definition interleave_ok :: "subtable \<Rightarrow> subtable \<Rightarrow> bool" where
  "interleave_ok region t \<longleftrightarrow>
     0 < unat (LineSize t) \<and> 0 < unat (NumberOfLinesDescribed t)
   \<and> unat (LineSize t) * unat (NumberOfLinesDescribed t) < 2 ^ 32
   \<and> 16 + 4 * unat (NumberOfLinesDescribed t) \<le> length t
   \<and> list_all (\<lambda>i. unat (LinesOffsets t i) < unat (NumberOfLinesDescribed t) * unat (InterleaveWays region)
        \<and> unat (LinesOffsets t i) * unat (LineSize t) < 2 ^ 32) [0..<unat (NumberOfLinesDescribed t)]
   \<and> distinct (map (\<lambda>i. unat (LinesOffsets t i)) [0..<unat (NumberOfLinesDescribed t)])"

lemma RdpaToSpa_nat:
  assumes ok: "interleave_ok region t"
    and R: "unat Rdpa < unat (NvDimmRegionSize region)"
      "unat (LineSize t) * unat (NumberOfLinesDescribed t) dvd unat (NvDimmRegionSize region)"
    and fit: "unat (SystemPhysicalAddressRangeBase spa) + unat (RegionOffset region)
        + unat (NvDimmRegionSize region) * unat (InterleaveWays region) \<le> 2 ^ 64"
  shows "\<exists>a. RdpaToSpa Rdpa region spa (Some t) = Some (Inr a)
    \<and> unat a = unat (SystemPhysicalAddressRangeBase spa) + unat (RegionOffset region)
        + spa_of (unat (LineSize t)) (unat (NumberOfLinesDescribed t)) (unat (InterleaveWays region))
            (\<lambda>i. unat (LinesOffsets t i)) (unat Rdpa)"
proof -
  let ?L = "unat (LineSize t)" and ?n = "unat (NumberOfLinesDescribed t)"
    and ?w = "unat (InterleaveWays region)" and ?r = "unat Rdpa" and ?offs = "\<lambda>i. unat (LinesOffsets t i)"
  have L: "0 < ?L" "0 < ?n" "?L * ?n < 2 ^ 32" "16 + 4 * ?n \<le> length t"
    and offs: "\<forall>i<?n. ?offs i < ?n * ?w" "\<forall>i<?n. ?offs i * ?L < 2 ^ 32"
    using ok by (auto simp: interleave_ok_def list_all_iff)
  define rot :: u64 where "rot = ucast (LineSize t * NumberOfLinesDescribed t)"
  have rot: "unat rot = ?L * ?n"
    using L(3) by (simp add: rot_def unat_times_nowrap)
  define j where "j = ?r mod (?L * ?n) div ?L"
  have j: "j < ?n" using line_lt [OF L(1,2)] by (simp add: j_def)
  define line :: u32 where "line = ucast ((Rdpa mod rot) div ucast (LineSize t))"
  have j32: "j < 2 ^ 32" using j unat_bound [of "NumberOfLinesDescribed t"] by simp
  have line: "unat line = j"
    using j32 by (simp add: line_def unsigned_ucast_eq unat_div_distrib unat_mod_distrib rot j_def
        take_bit_nat_eq_self)
  have lt: "spa_of ?L ?n ?w ?offs ?r < unat (NvDimmRegionSize region) * ?w"
    by (rule spa_of_lt) (use L offs R in auto)
  have spa: "spa_of ?L ?n ?w ?offs ?r = ?r div (?L * ?n) * (?L * ?n) * ?w + ?offs j * ?L + ?r mod ?L"
    by (simp add: spa_of_def j_def algebra_simps)
  have nz: "LineSize t \<noteq> 0" "NumberOfLinesDescribed t \<noteq> 0" "rot \<noteq> 0"
    using L(1,2) rot by (metis unat_0 less_irrefl nat_0_less_mult_iff)+
  let ?q = "Rdpa div rot" and ?lo = "ucast (LinesOffsets t j * LineSize t) :: u64"
  have off: "unat ?lo = ?offs j * ?L" using offs(2) j by (simp add: unat_times_nowrap)
  have b: "unat (SystemPhysicalAddressRangeBase spa) + unat (RegionOffset region)
      + (?r div (?L * ?n) * (?L * ?n) * ?w + ?offs j * ?L + ?r mod ?L) < 2 ^ 64"
    using lt fit spa by linarith
  have "?r div (?L * ?n) * (?L * ?n) < 2 ^ LENGTH(64)"
    by (rule le_less_trans [OF div_times_less_eq_dividend unat_bound])
  then have "unat (?q * rot) = ?r div (?L * ?n) * (?L * ?n)"
    by (subst unat_times_nowrap) (simp_all add: unat_div_distrib rot)
  then have x: "unat (?q * rot * ucast (InterleaveWays region)) = ?r div (?L * ?n) * (?L * ?n) * ?w"
    using b by (subst unat_times_nowrap) simp_all
  have m: "unat (Rdpa mod ucast (LineSize t)) = ?r mod ?L" by (simp add: unat_mod_distrib)
  let ?a = "SystemPhysicalAddressRangeBase spa + RegionOffset region
      + ?q * rot * ucast (InterleaveWays region) + ?lo + Rdpa mod ucast (LineSize t)"
  have "unat ?a = unat (SystemPhysicalAddressRangeBase spa) + unat (RegionOffset region)
      + ?r div (?L * ?n) * (?L * ?n) * ?w + ?offs j * ?L + ?r mod ?L"
    using b by (subst unat_sum_nowrap) (simp_all only: x off m, simp)
  moreover have "RdpaToSpa Rdpa region spa (Some t) = Some (Inr ?a)"
    using nz line j L(4)
    by (simp add: RdpaToSpa_def Let_def rot_def [symmetric] line_def [symmetric])
  ultimately show ?thesis by (simp add: spa)
qed

text \<open>
  C27: where the interleave table describes its lines without repetition and inside one rotation of all
  ways, and its products fit 32 bits, \<open>RdpaToSpa\<close> maps the addresses of a region of whole rotations
  injectively into the part of the SPA range that starts at the region offset and has the size of the
  region times its ways: no two bytes of a DIMM share a system address and none lies outside.
\<close>

theorem RdpaToSpa_injective:
  assumes "interleave_ok region t"
    and "unat (LineSize t) * unat (NumberOfLinesDescribed t) dvd unat (NvDimmRegionSize region)"
    and "unat (SystemPhysicalAddressRangeBase spa) + unat (RegionOffset region)
        + unat (NvDimmRegionSize region) * unat (InterleaveWays region) \<le> 2 ^ 64"
    and "Rdpa < NvDimmRegionSize region" "Rdpa' < NvDimmRegionSize region"
  shows "\<exists>a a'. RdpaToSpa Rdpa region spa (Some t) = Some (Inr a)
    \<and> RdpaToSpa Rdpa' region spa (Some t) = Some (Inr a')
    \<and> (a = a' \<longleftrightarrow> Rdpa = Rdpa')
    \<and> unat (SystemPhysicalAddressRangeBase spa) + unat (RegionOffset region) \<le> unat a
    \<and> unat a < unat (SystemPhysicalAddressRangeBase spa) + unat (RegionOffset region)
        + unat (NvDimmRegionSize region) * unat (InterleaveWays region)"
proof -
  let ?L = "unat (LineSize t)" and ?n = "unat (NumberOfLinesDescribed t)"
    and ?w = "unat (InterleaveWays region)" and ?offs = "\<lambda>i. unat (LinesOffsets t i)"
  have L: "0 < ?L" "0 < ?n" and offs: "\<forall>i<?n. ?offs i < ?n * ?w" "inj_on ?offs {..<?n}"
    using assms(1) by (auto simp: interleave_ok_def list_all_iff distinct_map lessThan_atLeast0)
  have lt: "unat Rdpa < unat (NvDimmRegionSize region)" "unat Rdpa' < unat (NvDimmRegionSize region)"
    using assms(4,5) by (simp_all add: word_less_nat_alt)
  show ?thesis
    using RdpaToSpa_nat [OF assms(1) lt(1) assms(2,3)] RdpaToSpa_nat [OF assms(1) lt(2) assms(2,3)]
      spa_of_inj [OF L offs] spa_of_lt [OF L offs(1) lt(1) assms(2)]
    by (smt (verit) add_left_cancel add_mono_thms_linordered_field(4) le_add1 nat_add_left_cancel_less unsigned_word_eqI)
qed

text \<open>A two-way region of two rotations of two lines with 256 bytes.\<close>

definition ex_region :: subtable where
  "ex_region = le16 1 @ le16 48 @ le32 1 @ le16 0x10 @ le16 0 @ le16 1 @ le16 1 @ le64 1024 @ le64 0 @ le64 0
     @ le16 1 @ le16 2 @ le16 0 @ [0, 0]"

definition ex_spa :: subtable where
  "ex_spa = le16 0 @ le16 56 @ le16 1 @ le16 0 @ le32 0 @ le32 0 @ replicate 16 0
     @ le64 0x100000 @ le64 2048 @ le64 0"

definition ex_interleave :: subtable where
  "ex_interleave = le16 2 @ le16 24 @ le16 1 @ le16 0 @ le32 2 @ le32 256 @ le32 0 @ le32 2"

lemmas ex_nfit = ex_region_def ex_spa_def ex_interleave_def NvDimmRegionSize_def RegionOffset_def
  InterleaveWays_def SystemPhysicalAddressRangeBase_def LineSize_def NumberOfLinesDescribed_def
  LinesOffsets_def

lemma ex_fields:
  "NvDimmRegionSize ex_region = 1024" "RegionOffset ex_region = 0" "InterleaveWays ex_region = 2"
  "SystemPhysicalAddressRangeBase ex_spa = 0x100000"
  "LineSize ex_interleave = 256" "NumberOfLinesDescribed ex_interleave = 2"
  "LinesOffsets ex_interleave 0 = 0" "LinesOffsets ex_interleave (Suc 0) = 2" "length ex_interleave = 24"
  by (simp_all add: ex_nfit)

lemma ex_interleave_ok: "interleave_ok ex_region ex_interleave"
  by (simp add: interleave_ok_def ex_fields upt_rec)

theorem RdpaToSpa_injective_witness:
  "\<exists>a a'. RdpaToSpa 300 ex_region ex_spa (Some ex_interleave) = Some (Inr a)
    \<and> RdpaToSpa 812 ex_region ex_spa (Some ex_interleave) = Some (Inr a')
    \<and> a \<noteq> a' \<and> unat a < 0x100000 + 2048"
  using RdpaToSpa_injective [OF ex_interleave_ok, of ex_spa 300 812]
  by (auto simp: ex_fields)

text \<open>A table with three of the subtables and one of an unknown type.\<close>

definition ex_unknown :: subtable where "ex_unknown = le16 9 @ le16 6 @ [1, 2]"

definition ex_hdr :: "u8 list" where "ex_hdr = le32 0x5449464E @ le32 174 @ replicate 32 0"

theorem ParseNfitTable_roundtrip_witness:
  "ParseNfitTable (\<lambda>_. []) (mem_write (\<lambda>_. 0xFF) 0x1000
       (ex_hdr @ concat [ex_spa, ex_unknown, ex_region, ex_interleave])) 0x1000 [] =
    Some (Some \<lparr>pFit = ex_hdr, ppSpaRangeTbles = [ex_spa], ppNvDimmRegionMappingStructures = [ex_region],
      ppInterleaveTbles = [ex_interleave], ppSmbiosTbles = [], ppControlRegionTbles = [],
      ppBWRegionTbles = [], ppFlushHintTbles = [], ppPlatformCapabilitiesTbles = []\<rparr>, [])"
proof -
  have types: "sub_type ex_spa = 0" "sub_type ex_unknown = 9" "sub_type ex_region = 1" "sub_type ex_interleave = 2"
    by (simp_all add: ex_spa_def ex_unknown_def ex_region_def ex_interleave_def)
  have lens: "length ex_spa = 56" "length ex_unknown = 6" "length ex_region = 48" "length ex_interleave = 24"
    "get16 2 ex_spa = 56" "get16 2 ex_unknown = 6" "get16 2 ex_region = 48" "get16 2 ex_interleave = 24"
    by (simp_all add: ex_spa_def ex_unknown_def ex_region_def ex_interleave_def)
  have hdr: "length ex_hdr = 40" "get32 4 ex_hdr = 174" by (simp_all add: ex_hdr_def)
  show ?thesis
    using ParseNfitTable_roundtrip [of ex_hdr "[ex_spa, ex_unknown, ex_region, ex_interleave]", where
        uninit = "\<lambda>_. []" and m = "\<lambda>_. 0xFF" and a = "0x1000"]
    by (simp add: types lens hdr sub_ok_def)
qed

section \<open>Where the parser and the translation go wrong\<close>

text \<open>
  A subtable that is longer than what remains of the table makes the counter wrap: the loop goes on
  behind the end of the table with nearly \<open>2^32\<close> bytes to read.
\<close>

lemma overlong_subtable_continues:
  assumes "get16 2 (mem_read m a 4) = Length" "0 < Remaining" "Remaining < ucast Length"
    and "AddSubtable uninit (get16 0 (mem_read m a 4)) m a (unat Length) h p = (Some h', p')"
  shows "NfitLoop uninit m a Remaining h p = NfitLoop uninit m (a + unat Length) (Remaining - ucast Length) h' p'
    \<and> unat (Remaining - ucast Length) = 2 ^ 32 + unat Remaining - unat Length"
proof
  have "Length \<noteq> 0" using assms(2,3) by auto
  then show "NfitLoop uninit m a Remaining h p = NfitLoop uninit m (a + unat Length) (Remaining - ucast Length) h' p'"
    using assms by (subst NfitLoop.simps) simp
  have "unat (ucast Length :: u32) = unat Length" by (simp add: unsigned_ucast_eq take_bit_nat_eq_self
        order_less_le_trans [OF unsigned_less])
  then show "unat (Remaining - ucast Length) = 2 ^ 32 + unat Remaining - unat Length"
    using assms(3) unat_bound [of Length] by (simp add: word_less_nat_alt unat_sub_if_size word_size)
qed

text \<open>
  The product of a line offset and the line size is taken in 32 bits. With pages of 4 KiB a line at
  offset \<open>2^20\<close>, four gigabytes into the rotation, is translated as if it were the first line.
\<close>

definition far_interleave :: subtable where
  "far_interleave = le16 2 @ le16 24 @ le16 1 @ le16 0 @ le32 2 @ le32 4096 @ le32 0 @ le32 0x100000"

lemma RdpaToSpa_wraps:
  "RdpaToSpa 0 ex_region ex_spa (Some far_interleave) = Some (Inr 0x100000)
   \<and> RdpaToSpa 4096 ex_region ex_spa (Some far_interleave) = Some (Inr 0x100000)"
proof -
  have f: "LineSize far_interleave = 4096" "NumberOfLinesDescribed far_interleave = 2"
    "LinesOffsets far_interleave 0 = 0" "LinesOffsets far_interleave (Suc 0) = 0x100000"
    "length far_interleave = 24"
    by (simp_all add: far_interleave_def ex_nfit)
  then show ?thesis by (simp add: RdpaToSpa_def ex_fields)
qed

end
