(* ===== verification/Dimm_Memmap.thy ===== *)
theory Dimm_Memmap
  imports Nfit
begin

text \<open>
  The memory map of a DIMM and its free ranges (\<open>DcpmPkg/driver/Core/Dimm.c\<close>): which ranges of device
  physical addresses the partitions, interleave sets and namespaces of a DIMM take, and what is left for
  a new namespace. DIMMs, interleave sets and namespaces are addressed by number where the source
  compares pointers. Linked lists are lists.
\<close>

section \<open>State\<close>

type_synonym dimm_ref = nat

record pm_dimm =
  DimmID :: u16
  VolatileStart :: u64
  VolatileCapacity :: u64
  PmStart :: u64
  PmCapacity :: u64
  RawCapacity :: u64

record dimm_region =
  RegionDimm :: dimm_ref
  PartitionOffset :: u64
  PartitionSize :: u64
  SpaRegionOffset :: u64

record nvm_is =
  RegionId :: u16
  IS_State :: u8
  MirrorEnable :: bool
  DimmRegionList :: "dimm_region list"
  AppDirectNamespaceList :: "nat list"
  pSpaTbl :: "subtable option"
  InterleaveSetCookie :: u64
  InterleaveSetCookie_1_1 :: u64

record ns_range =
  NsDimm :: dimm_ref
  NsDpa :: u64
  NsSize :: u64

text \<open>The fields of \<open>NAMESPACE\<close> that provisioning uses; \<open>Range\<close> has \<open>RangesCount\<close> entries.\<close>

record pm_namespace =
  NamespaceType :: u8
  Range :: "ns_range list"
  SpaNamespaceBase :: u64
  NsCookie :: u64
  NsMajor :: u16
  NsMinor :: u16
  pParentIS :: "nat option"

record pmem_dev =
  dimm_at :: "dimm_ref \<Rightarrow> pm_dimm"
  ISs :: "nvm_is list"
  Namespaces :: "pm_namespace list"
  pFitHead :: ParsedFitHeader

datatype range_type =
    MEMMAP_RANGE_UNDEFINED
  | MEMMAP_RANGE_RESERVED
  | MEMMAP_RANGE_VOLATILE
  | MEMMAP_RANGE_PERSISTENT
  | MEMMAP_RANGE_IS
  | MEMMAP_RANGE_IS_NOT_INTERLEAVED
  | MEMMAP_RANGE_IS_MIRROR
  | MEMMAP_RANGE_APPDIRECT_NAMESPACE
  | MEMMAP_RANGE_FREE
  | MEMMAP_RANGE_LAST_USABLE_DPA

datatype free_capacity_type = FreeCapacityForPersistentRegion | FreeCapacityForMirrorRegion | FreeCapacityForADMode

record memmap_range =
  RangeDimm :: dimm_ref
  RangeType :: range_type
  RangeStartDpa :: u64
  RangeLength :: u64

section \<open>Building the map\<close>

text \<open>
  Where \<open>AddMemmapRange\<close> links a new range: behind the last range that starts at or before it, if the
  next one starts behind it; otherwise before or after the last range of the list.
\<close>

fun insert_range :: "memmap_range \<Rightarrow> memmap_range list \<Rightarrow> memmap_range list" where
  "insert_range r [] = [r]"
| "insert_range r [c] = (if RangeStartDpa c \<le> RangeStartDpa r then [c, r] else [r, c])"
| "insert_range r (c # n # rest) =
     (if RangeStartDpa c \<le> RangeStartDpa r \<and> RangeStartDpa r < RangeStartDpa n then c # r # n # rest
      else c # insert_range r (n # rest))"

definition AddMemmapRange ::
  "memmap_range list \<Rightarrow> dimm_ref \<Rightarrow> u64 \<Rightarrow> u64 \<Rightarrow> range_type \<Rightarrow> pool \<Rightarrow> efi_status \<times> memmap_range list \<times> pool" where
  "AddMemmapRange pMemmapList pDimm Start Length Type p =
     (let (ok, p) = take_pool p
      in if \<not> ok then (EFI_OUT_OF_RESOURCES, pMemmapList, p)
         else (EFI_SUCCESS,
               insert_range \<lparr>RangeDimm = pDimm, RangeType = Type, RangeStartDpa = Start, RangeLength = Length\<rparr>
                 pMemmapList, p))"

text \<open>Every caller in this file ignores the status of \<open>AddMemmapRange\<close>.\<close>

type_synonym memmap_state = "memmap_range list \<times> pool"

definition add_range :: "dimm_ref \<Rightarrow> u64 \<Rightarrow> u64 \<Rightarrow> range_type \<Rightarrow> memmap_state \<Rightarrow> memmap_state" where
  "add_range pDimm Start Length Type st = snd (AddMemmapRange (fst st) pDimm Start Length Type (snd st))"

text \<open>The loop over the interleave sets; \<open>False\<close> when it leaves at a set without regions.\<close>

definition is_range_type :: "nvm_is \<Rightarrow> range_type" where
  "is_range_type i =
     (if MirrorEnable i then MEMMAP_RANGE_IS_MIRROR
      else if 1 < length (DimmRegionList i) then MEMMAP_RANGE_IS
      else MEMMAP_RANGE_IS_NOT_INTERLEAVED)"

fun MemmapISs :: "pm_dimm \<Rightarrow> dimm_ref \<Rightarrow> nvm_is list \<Rightarrow> memmap_state \<Rightarrow> bool \<times> memmap_state" where
  "MemmapISs dimm d [] st = (True, st)"
| "MemmapISs dimm d (i # is) st =
     (if DimmRegionList i = [] then (False, st)
      else MemmapISs dimm d is
        (fold (\<lambda>reg st. if RegionDimm reg \<noteq> d then st
            else add_range d (PmStart dimm + PartitionOffset reg) (PartitionSize reg) (is_range_type i) st)
          (DimmRegionList i) st))"

definition MemmapNamespaces :: "dimm_ref \<Rightarrow> pm_namespace list \<Rightarrow> memmap_state \<Rightarrow> memmap_state" where
  "MemmapNamespaces d nss st =
     fold (\<lambda>ns. fold (\<lambda>r st. if NsDimm r \<noteq> d then st
         else add_range d (NsDpa r) (NsSize r) MEMMAP_RANGE_APPDIRECT_NAMESPACE st) (Range ns)) nss st"

definition GetDimmMemmap :: "pmem_dev \<Rightarrow> dimm_ref \<Rightarrow> pool \<Rightarrow> efi_status \<times> memmap_state" where
  "GetDimmMemmap dev d p =
     (let dimm = dimm_at dev d;
          st = ([], p);
          st = (if 0 < VolatileStart dimm
                then add_range d 0 (VolatileStart dimm) MEMMAP_RANGE_RESERVED st else st);
          st = (if 0 < VolatileCapacity dimm
                then add_range d (VolatileStart dimm) (VolatileCapacity dimm) MEMMAP_RANGE_VOLATILE st else st);
          st = (if 0 < PmCapacity dimm
                then add_range d (PmStart dimm) (PmCapacity dimm) MEMMAP_RANGE_PERSISTENT st else st);
          Offset = VolatileStart dimm + VolatileCapacity dimm + PmCapacity dimm;
          Length = RawCapacity dimm - Offset;
          st = (if 0 < Length then add_range d Offset Length MEMMAP_RANGE_RESERVED st else st);
          (complete, st) = MemmapISs dimm d (ISs dev) st
      in if \<not> complete then (EFI_SUCCESS, st)
         else
           let st = MemmapNamespaces d (Namespaces dev) st
           in (EFI_SUCCESS, add_range d (PmStart dimm + PmCapacity dimm) 0 MEMMAP_RANGE_LAST_USABLE_DPA st))"

section \<open>Merging and subtracting ranges\<close>

text \<open>The loop of \<open>MergeMemmapItems\<close> behind the first range: start, length and end of the current one.\<close>

fun MergeLoop :: "dimm_ref \<Rightarrow> u64 \<Rightarrow> u64 \<Rightarrow> u64 \<Rightarrow> memmap_range list \<Rightarrow> memmap_state \<Rightarrow> memmap_state" where
  "MergeLoop d s l e [] st = add_range d s l MEMMAP_RANGE_UNDEFINED st"
| "MergeLoop d s l e (r # rs) st =
     (if RangeStartDpa r \<le> e then
        if e < RangeStartDpa r + RangeLength r - 1 then
          let e' = RangeStartDpa r + RangeLength r - 1 in MergeLoop d s (e' - s + 1) e' rs st
        else MergeLoop d s l e rs st
      else
        MergeLoop d (RangeStartDpa r) (RangeLength r) (RangeStartDpa r + RangeLength r - 1) rs
          (add_range d s l MEMMAP_RANGE_UNDEFINED st))"

fun MergeMemmapItems :: "memmap_range list \<Rightarrow> memmap_state \<Rightarrow> memmap_state" where
  "MergeMemmapItems [] st = st"
| "MergeMemmapItems (r # rs) st =
     MergeLoop (RangeDimm r) (RangeStartDpa r) (RangeLength r) (RangeStartDpa r + RangeLength r - 1) rs st"

text \<open>
  The inner loop of \<open>FindFreeRanges\<close>: \<open>ue\<close> is the end of the usable range, \<open>fs\<close> the start of the
  current free range.
\<close>

fun SubtractLoop :: "dimm_ref \<Rightarrow> u64 \<Rightarrow> u64 \<Rightarrow> memmap_range list \<Rightarrow> memmap_state \<Rightarrow> memmap_state" where
  "SubtractLoop d ue fs [] st = add_range d fs (ue - fs) MEMMAP_RANGE_FREE st"
| "SubtractLoop d ue fs (occ # os) st =
     (let oe = RangeStartDpa occ + RangeLength occ
      in if RangeStartDpa occ \<le> fs then
           if ue \<le> oe then st
           else if fs < oe then SubtractLoop d ue oe os st
           else SubtractLoop d ue fs os st
         else
           let fe = (if ue < RangeStartDpa occ then ue else RangeStartDpa occ);
               st = add_range d fs (fe - fs) MEMMAP_RANGE_FREE st
           in if ue \<le> RangeStartDpa occ \<or> ue \<le> oe then st else SubtractLoop d ue oe os st)"

definition FindFreeRanges ::
  "memmap_range list \<Rightarrow> memmap_range list \<Rightarrow> memmap_state \<Rightarrow> efi_status \<times> memmap_state" where
  "FindFreeRanges usable occupied st =
     (let (free, p) = st; (ok, p) = take_pool p
      in if \<not> ok then (EFI_OUT_OF_RESOURCES, free, p)
         else let (ok, p) = take_pool p
           in if \<not> ok then (EFI_OUT_OF_RESOURCES, free, p)
              else
                let (usable, p) = MergeMemmapItems usable ([], p);
                    (occupied, p) = MergeMemmapItems occupied ([], p)
                in (EFI_SUCCESS,
                    fold (\<lambda>u. SubtractLoop (RangeDimm u) (RangeStartDpa u + RangeLength u)
                        (RangeStartDpa u) occupied) usable (free, p)))"

definition is_usable :: "free_capacity_type \<Rightarrow> range_type \<Rightarrow> bool" where
  "is_usable c t \<longleftrightarrow>
     (if t = MEMMAP_RANGE_PERSISTENT then c = FreeCapacityForPersistentRegion
      else if t = MEMMAP_RANGE_IS_MIRROR then c = FreeCapacityForMirrorRegion \<or> c = FreeCapacityForADMode
      else if t = MEMMAP_RANGE_IS \<or> t = MEMMAP_RANGE_IS_NOT_INTERLEAVED then c = FreeCapacityForADMode
      else False)"

definition is_occupied :: "free_capacity_type \<Rightarrow> range_type \<Rightarrow> bool" where
  "is_occupied c t \<longleftrightarrow>
     (if t = MEMMAP_RANGE_APPDIRECT_NAMESPACE then True
      else t = MEMMAP_RANGE_IS_MIRROR \<and> c = FreeCapacityForPersistentRegion)"

text \<open>One step of the loop that sorts the map into usable and occupied ranges.\<close>

definition copy_range :: "memmap_range \<Rightarrow> memmap_state \<Rightarrow> memmap_state" where
  "copy_range r = add_range (RangeDimm r) (RangeStartDpa r) (RangeLength r) (RangeType r)"

fun ClassifyLoop ::
  "free_capacity_type \<Rightarrow> memmap_range list \<Rightarrow> memmap_range list \<Rightarrow> memmap_range list \<Rightarrow> pool
     \<Rightarrow> memmap_range list \<times> memmap_range list \<times> pool" where
  "ClassifyLoop c [] us os p = (us, os, p)"
| "ClassifyLoop c (r # rs) us os p =
     (let (us, p) = (if is_usable c (RangeType r) then copy_range r (us, p) else (us, p));
          (os, p) = (if is_occupied c (RangeType r) then copy_range r (os, p) else (os, p))
      in ClassifyLoop c rs us os p)"

definition GetDimmFreemap :: "pmem_dev \<Rightarrow> dimm_ref \<Rightarrow> free_capacity_type \<Rightarrow> pool \<Rightarrow> efi_status \<times> memmap_state" where
  "GetDimmFreemap dev d c p =
     (let (ok, p) = take_pool p
      in if \<not> ok then (EFI_OUT_OF_RESOURCES, [], p)
      else let (ok, p) = take_pool p
      in if \<not> ok then (EFI_OUT_OF_RESOURCES, [], p)
      else let (ok, p) = take_pool p
      in if \<not> ok then (EFI_OUT_OF_RESOURCES, [], p)
      else
        let (rc, memmap, p) = GetDimmMemmap dev d p
        in if EFI_ERROR rc then (rc, [], p)
           else
             let (usable, occupied, p) = ClassifyLoop c memmap [] [] p
             in FindFreeRanges usable occupied ([], p))"

end
