(* ===== verification/Dimm_Free.thy ===== *)
theory Dimm_Free
  imports Dimm_Memmap
begin

text \<open>
  Correctness of the free map of a DIMM: the ranges that \<open>GetDimmFreemap\<close> returns are exactly the
  addresses of its interleave sets that no namespace occupies, as ordered, disjoint ranges. Ranges are
  read as sets of naturals, so that no end address wraps.
\<close>

section \<open>Ranges as sets of addresses\<close>

abbreviation rstart :: "memmap_range \<Rightarrow> nat" where "rstart r \<equiv> unat (RangeStartDpa r)"
abbreviation rend :: "memmap_range \<Rightarrow> nat" where "rend r \<equiv> unat (RangeStartDpa r) + unat (RangeLength r)"

definition range_ok :: "memmap_range \<Rightarrow> bool" where
  "range_ok r \<longleftrightarrow> 0 < unat (RangeLength r) \<and> rend r < 2 ^ 64"

definition dpas :: "memmap_range list \<Rightarrow> nat set" where
  "dpas rs = (\<Union>r\<in>set rs. {rstart r..<rend r})"

lemma dpas_simps [simp]:
  "dpas [] = {}" "dpas (r # rs) = {rstart r..<rend r} \<union> dpas rs" "dpas (rs @ ss) = dpas rs \<union> dpas ss"
  by (auto simp: dpas_def)

text \<open>Disjoint ranges in ascending order.\<close>

abbreviation chain :: "memmap_range list \<Rightarrow> bool" where
  "chain \<equiv> sorted_wrt (\<lambda>a b. rend a \<le> rstart b)"

abbreviation by_start :: "memmap_range list \<Rightarrow> bool" where
  "by_start \<equiv> sorted_wrt (\<lambda>a b. rstart a \<le> rstart b)"

lemma range_end:
  assumes "range_ok r"
  shows "unat (RangeStartDpa r + RangeLength r) = rend r"
    and "unat (RangeStartDpa r + RangeLength r - 1) = rend r - 1"
proof -
  show e: "unat (RangeStartDpa r + RangeLength r) = rend r"
    using assms by (simp add: range_ok_def unat_plus_nowrap)
  have "RangeStartDpa r + RangeLength r \<noteq> 0" using e assms by (metis range_ok_def add_is_0 less_irrefl unat_0)
  then show "unat (RangeStartDpa r + RangeLength r - 1) = rend r - 1"
    using e by (simp add: unat_minus_one)
qed

section \<open>Insertion\<close>

lemma set_insert_range [simp]: "set (insert_range r rs) = insert r (set rs)"
  by (induction r rs rule: insert_range.induct) auto

lemma insert_range_last: "\<forall>c\<in>set rs. rstart c \<le> rstart r \<Longrightarrow> insert_range r rs = rs @ [r]"
  by (induction r rs rule: insert_range.induct) (auto simp: word_le_nat_alt word_less_nat_alt)

text \<open>
  An insertion keeps the order if the new range does not start before the head, or if the list has at
  most one range. For other lists it does not: the case is a finding.
\<close>

lemma insert_range_sorted:
  assumes "by_start rs" "rs = [] \<or> length rs = 1 \<or> rstart (hd rs) \<le> rstart r"
  shows "by_start (insert_range r rs)"
  using assms
proof (induction r rs rule: insert_range.induct)
  case (3 r c n rest)
  show ?case
  proof (cases "RangeStartDpa c \<le> RangeStartDpa r \<and> RangeStartDpa r < RangeStartDpa n")
    case True
    then show ?thesis using 3 by (auto simp: word_le_nat_alt word_less_nat_alt)
  next
    case False
    then have "rstart n \<le> rstart r" using 3 by (auto simp: word_le_nat_alt word_less_nat_alt)
    then have "by_start (insert_range r (n # rest))" using 3 False by simp
    then show ?thesis using 3 False by (auto simp: word_le_nat_alt word_less_nat_alt)
  qed
qed (auto simp: word_le_nat_alt)

lemma hd_insert_range:
  "rs \<noteq> [] \<Longrightarrow> rstart (hd rs) \<le> rstart r \<Longrightarrow> hd (insert_range r rs) = hd rs"
  by (induction r rs rule: insert_range.induct) (auto simp: word_le_nat_alt)

lemma insert_range_unsorted:
  "\<exists>r rs. by_start rs \<and> \<not> by_start (insert_range r rs)"
proof -
  let ?r = "\<lambda>s. \<lparr>RangeDimm = 0, RangeType = MEMMAP_RANGE_FREE, RangeStartDpa = s, RangeLength = 1\<rparr>"
  have "by_start [?r 2, ?r 4, ?r 6] \<and> \<not> by_start (insert_range (?r 0) [?r 2, ?r 4, ?r 6])" by simp
  then show ?thesis by blast
qed

lemma add_range_simp:
  "add_range d s l t (rs, []) =
     (insert_range \<lparr>RangeDimm = d, RangeType = t, RangeStartDpa = s, RangeLength = l\<rparr> rs, [])"
  by (simp add: add_range_def AddMemmapRange_def)

lemma copy_range_simp [simp]: "copy_range r (rs, []) = (insert_range r rs, [])"
  by (cases r) (simp add: copy_range_def add_range_simp)

section \<open>Merging\<close>

text \<open>Merging ranges that are sorted by start denotes the same set with disjoint ranges.\<close>

lemma MergeLoop_correct:
  assumes "by_start rs" "\<forall>r\<in>set rs. range_ok r \<and> unat s \<le> rstart r"
    and "0 < unat l" "unat s + unat l < 2 ^ 64" "unat e = unat s + unat l - 1"
    and "\<forall>c\<in>set acc. rend c \<le> unat s \<and> rstart c \<le> unat s" "chain acc"
  shows "\<exists>out. MergeLoop d s l e rs (acc, []) = (out, [])
      \<and> dpas out = dpas acc \<union> {unat s..<unat s + unat l} \<union> dpas rs
      \<and> chain out \<and> (\<forall>r\<in>set out. r \<in> set acc \<or> range_ok r)"
  using assms
proof (induction d s l e rs "(acc, [] :: pool)" arbitrary: acc rule: MergeLoop.induct)
  case (1 d s l e)
  then show ?case
    by (auto simp: add_range_simp insert_range_last sorted_wrt_append range_ok_def)
next
  case (2 d s l e r rs)
  have r: "range_ok r" "unat s \<le> rstart r" "\<forall>x\<in>set rs. rstart r \<le> rstart x" using 2 by auto
  note re = range_end [OF r(1)]
  have rpos: "rstart r < rend r" "rend r < 2 ^ 64" using r(1) by (auto simp: range_ok_def)
  show ?case
  proof (cases "RangeStartDpa r \<le> e")
    case True
    then have ov: "rstart r < unat s + unat l" using 2 by (simp add: word_le_nat_alt)
    show ?thesis
    proof (cases "e < RangeStartDpa r + RangeLength r - 1")
      case True
      define e' where "e' = RangeStartDpa r + RangeLength r - 1"
      have e': "unat e' = rend r - 1" using re by (simp add: e'_def)
      have lt: "unat s + unat l < rend r"
        using True re 2 rpos by (simp add: word_less_nat_alt)
      have l': "unat (e' - s + 1) = rend r - unat s"
      proof -
        have "unat (e' - s) = rend r - 1 - unat s"
          using e' r(2) rpos by (simp add: unat_sub word_le_nat_alt)
        moreover have "rend r - 1 - unat s + 1 < 2 ^ 64" using rpos by simp
        ultimately show ?thesis using r(2) rpos by (simp add: unat_plus_nowrap)
      qed
      have "\<exists>out. MergeLoop d s (e' - s + 1) e' rs (acc, []) = (out, [])
          \<and> dpas out = dpas acc \<union> {unat s..<unat s + unat (e' - s + 1)} \<union> dpas rs
          \<and> chain out \<and> (\<forall>r\<in>set out. r \<in> set acc \<or> range_ok r)"
        using 2(1) [OF \<open>RangeStartDpa r \<le> e\<close> True e'_def] 2(4-) l' lt e' r rpos by force
      moreover have "{unat s..<unat s + unat l} \<union> {rstart r..<rend r} = {unat s..<unat s + unat (e' - s + 1)}"
        using l' lt r(2) ov by auto
      ultimately show ?thesis
        using True \<open>RangeStartDpa r \<le> e\<close> by (simp add: e'_def [symmetric] Let_def Un_ac)
    next
      case False
      then have le: "rend r \<le> unat s + unat l" using re 2 rpos by (simp add: word_less_nat_alt)
      have "{unat s..<unat s + unat l} \<union> {rstart r..<rend r} = {unat s..<unat s + unat l}"
        using le r(2) by auto
      moreover have "\<exists>out. MergeLoop d s l e rs (acc, []) = (out, [])
          \<and> dpas out = dpas acc \<union> {unat s..<unat s + unat l} \<union> dpas rs
          \<and> chain out \<and> (\<forall>r\<in>set out. r \<in> set acc \<or> range_ok r)"
        using 2(2) [OF \<open>RangeStartDpa r \<le> e\<close> False] 2(4-) by force
      ultimately show ?thesis using False \<open>RangeStartDpa r \<le> e\<close> by (simp add: Un_ac)
    qed
  next
    case False
    let ?new = "\<lparr>RangeDimm = d, RangeType = MEMMAP_RANGE_UNDEFINED, RangeStartDpa = s, RangeLength = l\<rparr>"
    have gap: "unat s + unat l \<le> rstart r" using False 2 by (simp add: word_le_nat_alt)
    have new: "add_range d s l MEMMAP_RANGE_UNDEFINED (acc, []) = (acc @ [?new], [])"
      using 2 by (simp add: add_range_simp insert_range_last)
    have "\<exists>out. MergeLoop d (RangeStartDpa r) (RangeLength r) (RangeStartDpa r + RangeLength r - 1) rs
          (acc @ [?new], []) = (out, [])
        \<and> dpas out = dpas (acc @ [?new]) \<union> {rstart r..<rend r} \<union> dpas rs
        \<and> chain out \<and> (\<forall>r\<in>set out. r \<in> set (acc @ [?new]) \<or> range_ok r)"
      by (rule 2(3) [OF False new]) (use 2(4-) r rpos re gap in \<open>auto simp: sorted_wrt_append\<close>)
    moreover have "range_ok ?new" using 2 by (simp add: range_ok_def)
    ultimately show ?thesis using False by (auto simp: new)
  qed
qed

lemma MergeMemmapItems_correct:
  assumes "by_start rs" "\<forall>r\<in>set rs. range_ok r"
  shows "\<exists>out. MergeMemmapItems rs ([], []) = (out, []) \<and> dpas out = dpas rs \<and> chain out
      \<and> (\<forall>r\<in>set out. range_ok r)"
proof (cases rs)
  case (Cons r rs')
  have "\<exists>out. MergeLoop (RangeDimm r) (RangeStartDpa r) (RangeLength r) (RangeStartDpa r + RangeLength r - 1)
          rs' ([], []) = (out, [])
      \<and> dpas out = dpas [] \<union> {rstart r..<rend r} \<union> dpas rs'
      \<and> chain out \<and> (\<forall>r\<in>set out. r \<in> set [] \<or> range_ok r)"
    by (rule MergeLoop_correct) (use assms Cons range_end in \<open>auto simp: range_ok_def\<close>)
  then show ?thesis using Cons by simp
qed simp

section \<open>Subtracting\<close>

lemma SubtractLoop_correct:
  assumes "chain os" "\<forall>r\<in>set os. range_ok r" "unat fs < unat ue"
    and "\<forall>c\<in>set acc. rend c \<le> unat fs \<and> rstart c \<le> unat fs" "chain acc"
  shows "\<exists>out. SubtractLoop d ue fs os (acc, []) = (acc @ out, [])
      \<and> dpas out = {unat fs..<unat ue} - dpas os
      \<and> chain (acc @ out) \<and> (\<forall>r\<in>set out. range_ok r \<and> RangeDimm r = d \<and> rend r \<le> unat ue)"
  using assms
proof (induction d ue fs os "(acc, [] :: pool)" arbitrary: acc rule: SubtractLoop.induct)
  case (1 d ue fs)
  have "unat (ue - fs) = unat ue - unat fs" using 1 by (simp add: unat_sub word_le_nat_alt)
  then show ?case using 1 unat_bound [of ue]
    by (auto simp: add_range_simp insert_range_last sorted_wrt_append range_ok_def)
next
  case (2 d ue fs occ os)
  define oe where "oe = RangeStartDpa occ + RangeLength occ"
  have ok: "range_ok occ" using 2 by simp
  have oe: "unat oe = rend occ" using range_end [OF ok] by (simp add: oe_def)
  have pos: "rstart occ < rend occ" using ok by (simp add: range_ok_def)
  have later: "\<forall>x\<in>set os. rend occ \<le> rstart x" using 2 by simp
  then have away: "dpas os \<inter> {..<rend occ} = {}" by (fastforce simp: dpas_def)
  note IH = 2(1-3) [OF oe_def]
  show ?case
  proof (cases "RangeStartDpa occ \<le> fs")
    case le: True
    then have le': "rstart occ \<le> unat fs" by (simp add: word_le_nat_alt)
    show ?thesis
    proof (cases "ue \<le> oe")
      case True
      then have "{unat fs..<unat ue} - dpas (occ # os) = {}" using le' oe by (auto simp: word_le_nat_alt)
      then show ?thesis using le True 2 by (auto simp: oe_def [symmetric] Let_def)
    next
      case ue: False
      then have ue': "rend occ < unat ue" using oe by (simp add: word_le_nat_alt)
      show ?thesis
      proof (cases "fs < oe")
        case True
        have eq: "{unat fs..<unat ue} - dpas (occ # os) = {unat oe..<unat ue} - dpas os"
          using le' oe True by (auto simp: word_less_nat_alt)
        have "\<exists>out. SubtractLoop d ue oe os (acc, []) = (acc @ out, [])
            \<and> dpas out = {unat oe..<unat ue} - dpas os
            \<and> chain (acc @ out) \<and> (\<forall>r\<in>set out. range_ok r \<and> RangeDimm r = d \<and> rend r \<le> unat ue)"
          by (rule IH(1) [OF le ue True])
            (use 2(4-) ue' oe True in \<open>auto simp: word_less_nat_alt intro: order_trans\<close>)
        then show ?thesis using le ue True eq by (simp add: oe_def [symmetric] Let_def)
      next
        case False
        then have "{unat fs..<unat ue} - dpas (occ # os) = {unat fs..<unat ue} - dpas os"
          using oe by (auto simp: word_less_nat_alt)
        moreover have "\<exists>out. SubtractLoop d ue fs os (acc, []) = (acc @ out, [])
            \<and> dpas out = {unat fs..<unat ue} - dpas os
            \<and> chain (acc @ out) \<and> (\<forall>r\<in>set out. range_ok r \<and> RangeDimm r = d \<and> rend r \<le> unat ue)"
          by (rule IH(2) [OF le ue False]) (use 2(4-) in auto)
        ultimately show ?thesis using le ue False by (simp add: oe_def [symmetric] Let_def)
      qed
    qed
  next
    case gt: False
    then have gt': "unat fs < rstart occ" by (simp add: word_le_nat_alt)
    define fe where "fe = (if ue < RangeStartDpa occ then ue else RangeStartDpa occ)"
    let ?new = "\<lparr>RangeDimm = d, RangeType = MEMMAP_RANGE_FREE, RangeStartDpa = fs, RangeLength = fe - fs\<rparr>"
    have fe: "unat fe = min (unat ue) (rstart occ)" by (auto simp: fe_def word_less_nat_alt min_def)
    have len: "unat (fe - fs) = unat fe - unat fs" using fe gt' 2(6)
      by (subst unat_sub) (auto simp: word_le_nat_alt)
    have new: "add_range d fs (fe - fs) MEMMAP_RANGE_FREE (acc, []) = (acc @ [?new], [])"
      using 2 by (simp add: add_range_simp insert_range_last)
    have r: "range_ok ?new" "rend ?new = unat fe" "chain (acc @ [?new])"
      using fe len gt' 2 unat_bound [of fe] by (auto simp: range_ok_def sorted_wrt_append)
    show ?thesis
    proof (cases "ue \<le> RangeStartDpa occ \<or> ue \<le> oe")
      case True
      have "{unat fs..<unat ue} - dpas (occ # os) = {unat fs..<unat fe}"
        using True fe oe gt' pos away later by (auto simp: word_le_nat_alt min_def)
      then show ?thesis using gt True r new fe gt' 2(6)
        by (intro exI [of _ "[?new]"]) (auto simp: oe_def [symmetric] fe_def [symmetric] Let_def)
    next
      case False
      then have F: "rstart occ < unat ue" "rend occ < unat ue" using oe by (auto simp: word_le_nat_alt)
      have eq: "{unat fs..<unat ue} - dpas (occ # os) = {rstart ?new..<rend ?new} \<union> ({unat oe..<unat ue} - dpas os)"
        using F fe r(2) oe pos gt' away by (auto simp: min_def)
      have "\<exists>out. SubtractLoop d ue oe os (acc @ [?new], []) = ((acc @ [?new]) @ out, [])
          \<and> dpas out = {unat oe..<unat ue} - dpas os
          \<and> chain ((acc @ [?new]) @ out) \<and> (\<forall>r\<in>set out. range_ok r \<and> RangeDimm r = d \<and> rend r \<le> unat ue)"
        by (rule IH(3) [OF gt fe_def new [symmetric] False]) (use 2(4-) r F oe fe pos gt' in \<open>auto intro: order_trans\<close>)
      then obtain out where out: "SubtractLoop d ue oe os (acc @ [?new], []) = (acc @ ?new # out, [])"
        "dpas out = {unat oe..<unat ue} - dpas os" "chain (acc @ ?new # out)"
        "\<forall>r\<in>set out. range_ok r \<and> RangeDimm r = d \<and> rend r \<le> unat ue" by auto
      then show ?thesis
        using gt False new r eq fe F
        by (intro exI [of _ "?new # out"]) (auto simp: oe_def [symmetric] fe_def [symmetric] Let_def)
    qed
  qed
qed

lemma FreeLoop_correct:
  assumes "chain us" "\<forall>r\<in>set us. range_ok r" "chain os" "\<forall>r\<in>set os. range_ok r"
    and "chain acc" "\<forall>c\<in>set acc. \<forall>u\<in>set us. rend c \<le> rstart u"
  shows "\<exists>out. fold (\<lambda>u. SubtractLoop (RangeDimm u) (RangeStartDpa u + RangeLength u) (RangeStartDpa u) os)
        us (acc, []) = (acc @ out, [])
      \<and> dpas out = dpas us - dpas os \<and> chain (acc @ out) \<and> (\<forall>r\<in>set out. range_ok r)"
  using assms
proof (induction us arbitrary: acc)
  case (Cons u us)
  note ue = range_end(1) [of u]
  have u: "range_ok u" "rstart u < rend u" using Cons.prems by (auto simp: range_ok_def)
  have "\<exists>out. SubtractLoop (RangeDimm u) (RangeStartDpa u + RangeLength u) (RangeStartDpa u) os (acc, [])
        = (acc @ out, [])
      \<and> dpas out = {rstart u..<unat (RangeStartDpa u + RangeLength u)} - dpas os \<and> chain (acc @ out)
      \<and> (\<forall>r\<in>set out. range_ok r \<and> RangeDimm r = RangeDimm u \<and> rend r \<le> unat (RangeStartDpa u + RangeLength u))"
    by (rule SubtractLoop_correct) (use Cons.prems u ue in \<open>auto intro: order_trans [OF le_add1]\<close>)
  then obtain out where out: "SubtractLoop (RangeDimm u) (RangeStartDpa u + RangeLength u) (RangeStartDpa u) os (acc, [])
        = (acc @ out, [])" "dpas out = {rstart u..<rend u} - dpas os" "chain (acc @ out)"
      "\<forall>r\<in>set out. range_ok r" "\<forall>r\<in>set out. rend r \<le> rend u"
    using ue u by auto
  have "\<forall>c\<in>set (acc @ out). \<forall>v\<in>set us. rend c \<le> rstart v"
    using Cons.prems out(5) by (auto intro: order_trans)
  then obtain out' where out': "fold (\<lambda>u. SubtractLoop (RangeDimm u) (RangeStartDpa u + RangeLength u) (RangeStartDpa u) os)
        us (acc @ out, []) = ((acc @ out) @ out', [])"
      "dpas out' = dpas us - dpas os" "chain ((acc @ out) @ out')" "\<forall>r\<in>set out'. range_ok r"
    using Cons.IH [of "acc @ out"] Cons.prems out(3) by auto
  then show ?case using out by (intro exI [of _ "out @ out'"]) auto
qed simp

lemma FindFreeRanges_correct:
  assumes "by_start us" "\<forall>r\<in>set us. range_ok r" "by_start os" "\<forall>r\<in>set os. range_ok r"
  shows "\<exists>free. FindFreeRanges us os ([], []) = (EFI_SUCCESS, free, [])
      \<and> dpas free = dpas us - dpas os \<and> chain free \<and> (\<forall>r\<in>set free. range_ok r)"
proof -
  obtain us' where us': "MergeMemmapItems us ([], []) = (us', [])" "dpas us' = dpas us" "chain us'"
      "\<forall>r\<in>set us'. range_ok r" using MergeMemmapItems_correct [OF assms(1,2)] by auto
  obtain os' where os': "MergeMemmapItems os ([], []) = (os', [])" "dpas os' = dpas os" "chain os'"
      "\<forall>r\<in>set os'. range_ok r" using MergeMemmapItems_correct [OF assms(3,4)] by auto
  obtain out where "fold (\<lambda>u. SubtractLoop (RangeDimm u) (RangeStartDpa u + RangeLength u) (RangeStartDpa u) os')
        us' ([], []) = (out, [])" "dpas out = dpas us' - dpas os'" "chain out" "\<forall>r\<in>set out. range_ok r"
    using FreeLoop_correct [of us' os' "[]"] us' os' by auto
  then show ?thesis by (simp add: FindFreeRanges_def us' os')
qed

section \<open>The memory map\<close>

lemma ClassifyLoop_filter:
  assumes "by_start m" "\<forall>x\<in>set us \<union> set os. \<forall>r\<in>set m. rstart x \<le> rstart r"
  shows "ClassifyLoop c m us os [] =
    (us @ filter (\<lambda>r. is_usable c (RangeType r)) m, os @ filter (\<lambda>r. is_occupied c (RangeType r)) m, [])"
  using assms
proof (induction m arbitrary: us os)
  case (Cons r m)
  have "insert_range r us = us @ [r]" "insert_range r os = os @ [r]"
    using Cons.prems by (auto intro!: insert_range_last)
  then show ?case using Cons.prems by (auto simp: Let_def Cons.IH)
qed simp

abbreviation mk_range :: "dimm_ref \<Rightarrow> u64 \<Rightarrow> u64 \<Rightarrow> range_type \<Rightarrow> memmap_range" where
  "mk_range d s l t \<equiv> \<lparr>RangeDimm = d, RangeType = t, RangeStartDpa = s, RangeLength = l\<rparr>"

definition partition_items :: "pm_dimm \<Rightarrow> dimm_ref \<Rightarrow> memmap_range list" where
  "partition_items dimm d =
     (let Offset = VolatileStart dimm + VolatileCapacity dimm + PmCapacity dimm
      in (if 0 < VolatileStart dimm then [mk_range d 0 (VolatileStart dimm) MEMMAP_RANGE_RESERVED] else [])
       @ (if 0 < VolatileCapacity dimm
          then [mk_range d (VolatileStart dimm) (VolatileCapacity dimm) MEMMAP_RANGE_VOLATILE] else [])
       @ (if 0 < PmCapacity dimm then [mk_range d (PmStart dimm) (PmCapacity dimm) MEMMAP_RANGE_PERSISTENT] else [])
       @ (if 0 < RawCapacity dimm - Offset
          then [mk_range d Offset (RawCapacity dimm - Offset) MEMMAP_RANGE_RESERVED] else []))"

definition is_items :: "pm_dimm \<Rightarrow> dimm_ref \<Rightarrow> nvm_is \<Rightarrow> memmap_range list" where
  "is_items dimm d i =
     map (\<lambda>reg. mk_range d (PmStart dimm + PartitionOffset reg) (PartitionSize reg) (is_range_type i))
       (filter (\<lambda>reg. RegionDimm reg = d) (DimmRegionList i))"

definition ns_items :: "dimm_ref \<Rightarrow> pm_namespace \<Rightarrow> memmap_range list" where
  "ns_items d ns =
     map (\<lambda>r. mk_range d (NsDpa r) (NsSize r) MEMMAP_RANGE_APPDIRECT_NAMESPACE)
       (filter (\<lambda>r. NsDimm r = d) (Range ns))"

definition late_items :: "pmem_dev \<Rightarrow> dimm_ref \<Rightarrow> memmap_range list" where
  "late_items dev d =
     concat (map (is_items (dimm_at dev d) d) (ISs dev)) @ concat (map (ns_items d) (Namespaces dev))
     @ [mk_range d (PmStart (dimm_at dev d) + PmCapacity (dimm_at dev d)) 0 MEMMAP_RANGE_LAST_USABLE_DPA]"

lemma MemmapISs_items:
  "\<forall>i\<in>set is. DimmRegionList i \<noteq> [] \<Longrightarrow>
   MemmapISs dimm d is (rs, []) = (True, fold insert_range (concat (map (is_items dimm d) is)) rs, [])"
proof (induction "is" arbitrary: rs)
  case (Cons i iset)
  have loop: "fold (\<lambda>reg st. if RegionDimm reg \<noteq> d then st
            else add_range d (PmStart dimm + PartitionOffset reg) (PartitionSize reg) t st) regs (rs, [])
      = (fold insert_range (map (\<lambda>reg. mk_range d (PmStart dimm + PartitionOffset reg) (PartitionSize reg) t)
          (filter (\<lambda>reg. RegionDimm reg = d) regs)) rs, [])" for regs t rs
    by (induction regs arbitrary: rs) (auto simp: add_range_simp)
  show ?case using Cons by (simp add: is_items_def loop)
qed simp

lemma MemmapNamespaces_items:
  "MemmapNamespaces d nss (rs, []) = (fold insert_range (concat (map (ns_items d) nss)) rs, [])"
proof (induction nss arbitrary: rs)
  case (Cons ns nss)
  have loop: "fold (\<lambda>r st. if NsDimm r \<noteq> d then st
         else add_range d (NsDpa r) (NsSize r) MEMMAP_RANGE_APPDIRECT_NAMESPACE st) rgs (rs, [])
      = (fold insert_range (map (\<lambda>r. mk_range d (NsDpa r) (NsSize r) MEMMAP_RANGE_APPDIRECT_NAMESPACE)
          (filter (\<lambda>r. NsDimm r = d) rgs)) rs, [])" for rgs rs
    by (induction rgs arbitrary: rs) (auto simp: add_range_simp)
  show ?case using Cons by (simp add: MemmapNamespaces_def ns_items_def loop)
qed (simp add: MemmapNamespaces_def)

lemma GetDimmMemmap_items:
  assumes "\<forall>i\<in>set (ISs dev). DimmRegionList i \<noteq> []"
  shows "GetDimmMemmap dev d [] =
    (EFI_SUCCESS, fold insert_range (late_items dev d) (fold insert_range (partition_items (dimm_at dev d) d) []), [])"
  by (simp add: GetDimmMemmap_def Let_def late_items_def partition_items_def add_range_simp
      MemmapISs_items [OF assms] MemmapNamespaces_items)

lemma set_fold_insert [simp]: "set (fold insert_range xs rs) = set xs \<union> set rs"
  by (induction xs arbitrary: rs) auto

lemma fold_insert_sorted:
  "by_start rs \<Longrightarrow> rs \<noteq> [] \<Longrightarrow> \<forall>x\<in>set xs. rstart (hd rs) \<le> rstart x \<Longrightarrow> by_start (fold insert_range xs rs)"
proof (induction xs arbitrary: rs)
  case (Cons x xs)
  have "insert_range x rs \<noteq> []" by (metis empty_iff insertI1 list.set(1) set_insert_range)
  then show ?case
    using Cons by (simp add: insert_range_sorted hd_insert_range)
qed simp

lemma partition_sorted:
  "by_start (fold insert_range (partition_items dimm d) [])"
  by (simp add: partition_items_def Let_def word_le_nat_alt word_less_nat_alt)

text \<open>The addresses of the interleave sets and of the namespaces on a DIMM.\<close>

definition is_dpas :: "pmem_dev \<Rightarrow> dimm_ref \<Rightarrow> nat set" where
  "is_dpas dev d = (\<Union>i\<in>set (ISs dev). \<Union>reg\<in>{reg \<in> set (DimmRegionList i). RegionDimm reg = d}.
     {unat (PmStart (dimm_at dev d)) + unat (PartitionOffset reg)
      ..< unat (PmStart (dimm_at dev d)) + unat (PartitionOffset reg) + unat (PartitionSize reg)})"

definition ns_dpas :: "pmem_dev \<Rightarrow> dimm_ref \<Rightarrow> nat set" where
  "ns_dpas dev d = (\<Union>ns\<in>set (Namespaces dev). \<Union>r\<in>{r \<in> set (Range ns). NsDimm r = d}.
     {unat (NsDpa r)..<unat (NsDpa r) + unat (NsSize r)})"

text \<open>
  A device whose interleave sets and namespaces on DIMM \<open>d\<close> are ranges that do not wrap, in or behind
  the persistent partition, and whose interleave sets have regions.
\<close>

definition dimm_ok :: "pmem_dev \<Rightarrow> dimm_ref \<Rightarrow> bool" where
  "dimm_ok dev d \<longleftrightarrow>
     0 < PmCapacity (dimm_at dev d)
   \<and> unat (PmStart (dimm_at dev d)) + unat (PmCapacity (dimm_at dev d)) < 2 ^ 64
   \<and> (\<forall>i\<in>set (ISs dev). DimmRegionList i \<noteq> [] \<and> (\<forall>reg\<in>set (DimmRegionList i). RegionDimm reg = d \<longrightarrow>
        0 < PartitionSize reg
      \<and> unat (PmStart (dimm_at dev d)) + unat (PartitionOffset reg) + unat (PartitionSize reg) < 2 ^ 64))
   \<and> (\<forall>ns\<in>set (Namespaces dev). \<forall>r\<in>set (Range ns). NsDimm r = d \<longrightarrow>
        0 < NsSize r \<and> PmStart (dimm_at dev d) \<le> NsDpa r \<and> unat (NsDpa r) + unat (NsSize r) < 2 ^ 64)"

lemma region_start:
  assumes "dimm_ok dev d" "i \<in> set (ISs dev)" "reg \<in> set (DimmRegionList i)" "RegionDimm reg = d"
  shows "unat (PmStart (dimm_at dev d) + PartitionOffset reg) =
      unat (PmStart (dimm_at dev d)) + unat (PartitionOffset reg)"
    and "range_ok (mk_range d (PmStart (dimm_at dev d) + PartitionOffset reg) (PartitionSize reg) t)"
proof -
  have *: "0 < PartitionSize reg"
    "unat (PmStart (dimm_at dev d)) + unat (PartitionOffset reg) + unat (PartitionSize reg) < 2 ^ 64"
    using assms unfolding dimm_ok_def by blast+
  show "unat (PmStart (dimm_at dev d) + PartitionOffset reg) =
      unat (PmStart (dimm_at dev d)) + unat (PartitionOffset reg)"
    using * by (intro unat_plus_nowrap) simp
  then show "range_ok (mk_range d (PmStart (dimm_at dev d) + PartitionOffset reg) (PartitionSize reg) t)"
    using * by (simp add: range_ok_def word_less_nat_alt)
qed

lemma late_start:
  assumes ok: "dimm_ok dev d" and x: "x \<in> set (late_items dev d)"
  shows "unat (PmStart (dimm_at dev d)) \<le> rstart x"
proof -
  have "unat (PmStart (dimm_at dev d) + PmCapacity (dimm_at dev d)) =
      unat (PmStart (dimm_at dev d)) + unat (PmCapacity (dimm_at dev d))"
    using ok by (intro unat_plus_nowrap) (simp add: dimm_ok_def)
  moreover have "unat (PmStart (dimm_at dev d)) \<le> unat (NsDpa r)"
    if "ns \<in> set (Namespaces dev)" "r \<in> set (Range ns)" "NsDimm r = d" for ns r
    using ok that unfolding dimm_ok_def word_le_nat_alt by blast
  ultimately show ?thesis
    using x region_start(1) [OF ok] by (auto simp: late_items_def is_items_def ns_items_def)
qed

lemma memmap_correct:
  assumes ok: "dimm_ok dev d"
  shows "\<exists>m. GetDimmMemmap dev d [] = (EFI_SUCCESS, m, []) \<and> by_start m
    \<and> set m = set (late_items dev d) \<union> set (partition_items (dimm_at dev d) d)"
proof -
  let ?p = "fold insert_range (partition_items (dimm_at dev d) d) []"
  let ?pm = "mk_range d (PmStart (dimm_at dev d)) (PmCapacity (dimm_at dev d)) MEMMAP_RANGE_PERSISTENT"
  have pm: "?pm \<in> set ?p" using ok by (simp add: partition_items_def dimm_ok_def Let_def)
  then obtain h t where p: "?p = h # t" by (cases ?p) auto
  have "rstart h \<le> rstart ?pm" using pm partition_sorted [of "dimm_at dev d" d] unfolding p by auto
  then have "\<forall>x\<in>set (late_items dev d). rstart (hd ?p) \<le> rstart x"
    using late_start [OF ok] p by (auto intro: order_trans)
  then have "by_start (fold insert_range (late_items dev d) ?p)"
    using fold_insert_sorted [OF partition_sorted, of "dimm_at dev d" d "late_items dev d"] p by simp
  then show ?thesis using GetDimmMemmap_items [of dev d] ok by (auto simp: dimm_ok_def)
qed

lemma is_range_usable [simp]:
  "is_usable FreeCapacityForADMode (is_range_type i)" "\<not> is_occupied FreeCapacityForADMode (is_range_type i)"
  by (simp_all add: is_range_type_def is_usable_def is_occupied_def)

lemma filter_usable:
  "filter (\<lambda>r. is_usable FreeCapacityForADMode (RangeType r)) (is_items dimm d i) = is_items dimm d i"
  "filter (\<lambda>r. is_usable FreeCapacityForADMode (RangeType r)) (ns_items d ns) = []"
  "filter (\<lambda>r. is_usable FreeCapacityForADMode (RangeType r)) (partition_items dimm d) = []"
  by (simp_all add: is_items_def ns_items_def partition_items_def Let_def filter_id_conv filter_map o_def
      is_usable_def [of _ MEMMAP_RANGE_APPDIRECT_NAMESPACE] is_usable_def [of _ MEMMAP_RANGE_RESERVED]
      is_usable_def [of _ MEMMAP_RANGE_VOLATILE] is_usable_def [of _ MEMMAP_RANGE_PERSISTENT])

lemma filter_occupied:
  "filter (\<lambda>r. is_occupied FreeCapacityForADMode (RangeType r)) (is_items dimm d i) = []"
  "filter (\<lambda>r. is_occupied FreeCapacityForADMode (RangeType r)) (ns_items d ns) = ns_items d ns"
  "filter (\<lambda>r. is_occupied FreeCapacityForADMode (RangeType r)) (partition_items dimm d) = []"
  by (simp_all add: is_items_def ns_items_def partition_items_def Let_def filter_id_conv filter_map o_def
      is_occupied_def [of _ MEMMAP_RANGE_APPDIRECT_NAMESPACE] is_occupied_def [of _ MEMMAP_RANGE_RESERVED]
      is_occupied_def [of _ MEMMAP_RANGE_VOLATILE] is_occupied_def [of _ MEMMAP_RANGE_PERSISTENT])

lemma usable_set:
  assumes "set m = set (late_items dev d @ partition_items (dimm_at dev d) d)"
  shows "set (filter (\<lambda>r. is_usable FreeCapacityForADMode (RangeType r)) m) =
    (\<Union>i\<in>set (ISs dev). set (is_items (dimm_at dev d) d i))"
proof -
  have "set (filter P m) = set (filter P (late_items dev d @ partition_items (dimm_at dev d) d))" for P
    using assms by (simp only: set_filter)
  then show ?thesis
    by (simp add: late_items_def filter_concat filter_usable o_def del: set_filter
        add: is_usable_def [of _ MEMMAP_RANGE_LAST_USABLE_DPA])
qed

lemma occupied_set:
  assumes "set m = set (late_items dev d @ partition_items (dimm_at dev d) d)"
  shows "set (filter (\<lambda>r. is_occupied FreeCapacityForADMode (RangeType r)) m) =
    (\<Union>ns\<in>set (Namespaces dev). set (ns_items d ns))"
proof -
  have "set (filter P m) = set (filter P (late_items dev d @ partition_items (dimm_at dev d) d))" for P
    using assms by (simp only: set_filter)
  then show ?thesis
    by (simp add: late_items_def filter_concat filter_occupied o_def del: set_filter
        add: is_occupied_def [of _ MEMMAP_RANGE_LAST_USABLE_DPA])
qed

section \<open>Free ranges of a DIMM\<close>

lemma GetDimmFreemap_free:
  assumes ok: "dimm_ok dev d"
  shows "\<exists>free. GetDimmFreemap dev d FreeCapacityForADMode [] = (EFI_SUCCESS, free, [])
    \<and> dpas free = is_dpas dev d - ns_dpas dev d
    \<and> sorted_wrt (\<lambda>a b. rend a \<le> rstart b) free \<and> (\<forall>r\<in>set free. range_ok r)"
proof -
  obtain m where m: "GetDimmMemmap dev d [] = (EFI_SUCCESS, m, [])" "by_start m"
    "set m = set (late_items dev d) \<union> set (partition_items (dimm_at dev d) d)"
    using memmap_correct [OF ok] by blast
  define us where "us = filter (\<lambda>r. is_usable FreeCapacityForADMode (RangeType r)) m"
  define os where "os = filter (\<lambda>r. is_occupied FreeCapacityForADMode (RangeType r)) m"
  have cl: "ClassifyLoop FreeCapacityForADMode m [] [] [] = (us, os, [])"
    using ClassifyLoop_filter [OF m(2), of "[]" "[]"] by (simp add: us_def os_def)
  have us: "set us = (\<Union>i\<in>set (ISs dev). set (is_items (dimm_at dev d) d i))"
    unfolding us_def by (rule usable_set) (simp add: m(3))
  have os: "set os = (\<Union>ns\<in>set (Namespaces dev). set (ns_items d ns))"
    unfolding os_def by (rule occupied_set) (simp add: m(3))
  have "\<forall>r\<in>set us. range_ok r" unfolding us using region_start(2) [OF ok] by (auto simp: is_items_def)
  moreover have "\<forall>r\<in>set os. range_ok r" unfolding os using ok
    by (fastforce simp: dimm_ok_def range_ok_def word_less_nat_alt ns_items_def)
  moreover have "by_start us" "by_start os" using m(2) by (simp_all add: us_def os_def sorted_wrt_filter)
  ultimately obtain free where free: "FindFreeRanges us os ([], []) = (EFI_SUCCESS, free, [])"
    "dpas free = dpas us - dpas os" "chain free" "\<forall>r\<in>set free. range_ok r"
    using FindFreeRanges_correct [of us os] by blast
  have "dpas us = is_dpas dev d" unfolding dpas_def us is_dpas_def is_items_def
    by (simp add: region_start(1) [OF ok])
  moreover have "dpas os = ns_dpas dev d" unfolding dpas_def os ns_dpas_def ns_items_def by simp
  ultimately show ?thesis using free by (simp add: GetDimmFreemap_def m(1) cl)
qed

text \<open>
  C9: for AppDirect capacity \<open>GetDimmFreemap\<close> returns exactly the free space of a DIMM: the addresses
  of the returned ranges are those of the interleave sets on the DIMM that no namespace occupies, the
  ranges are not empty, disjoint and in ascending order. In particular a namespace placed in a
  free range overlaps no other namespace. The allocations are assumed to succeed.
\<close>

theorem GetDimmFreemap_exact:
  assumes ok: "dimm_ok dev d"
  shows "\<exists>free. GetDimmFreemap dev d FreeCapacityForADMode [] = (EFI_SUCCESS, free, [])
    \<and> dpas free = is_dpas dev d - ns_dpas dev d
    \<and> sorted_wrt (\<lambda>a b. rend a \<le> rstart b) free \<and> (\<forall>r\<in>set free. range_ok r)"
  by (rule GetDimmFreemap_free [OF ok])

text \<open>
  An example: two DIMMs with 32 KiB of persistent memory each, one interleave set over both and a
  namespace in the middle of it.
\<close>

definition ex_pm_dimm :: "u16 \<Rightarrow> pm_dimm" where
  "ex_pm_dimm pid = \<lparr>DimmID = pid, VolatileStart = 0, VolatileCapacity = 0x2000, PmStart = 0x2000,
     PmCapacity = 0x8000, RawCapacity = 0xC000\<rparr>"

definition ex_is :: nvm_is where
  "ex_is = \<lparr>RegionId = 1, IS_State = 0, MirrorEnable = False,
     DimmRegionList = [\<lparr>RegionDimm = 0, PartitionOffset = 0, PartitionSize = 0x8000, SpaRegionOffset = 0\<rparr>,
                       \<lparr>RegionDimm = 1, PartitionOffset = 0, PartitionSize = 0x8000, SpaRegionOffset = 0x1000\<rparr>],
     AppDirectNamespaceList = [0], pSpaTbl = None, InterleaveSetCookie = 0, InterleaveSetCookie_1_1 = 0\<rparr>"

definition ex_pm_ns :: pm_namespace where
  "ex_pm_ns = \<lparr>NamespaceType = 2, Range = [\<lparr>NsDimm = 0, NsDpa = 0x4000, NsSize = 0x1000\<rparr>,
       \<lparr>NsDimm = 1, NsDpa = 0x4000, NsSize = 0x1000\<rparr>],
     SpaNamespaceBase = 0, NsCookie = 0, NsMajor = 1, NsMinor = 2, pParentIS = Some 0\<rparr>"

definition ex_pmem :: pmem_dev where
  "ex_pmem = \<lparr>dimm_at = (\<lambda>d. ex_pm_dimm (of_nat d + 1)), ISs = [ex_is], Namespaces = [ex_pm_ns],
     pFitHead = \<lparr>pFit = [], ppSpaRangeTbles = [], ppNvDimmRegionMappingStructures = [], ppInterleaveTbles = [],
       ppSmbiosTbles = [], ppControlRegionTbles = [], ppBWRegionTbles = [], ppFlushHintTbles = [],
       ppPlatformCapabilitiesTbles = []\<rparr>\<rparr>"

lemmas ex_pmem_defs = ex_pmem_def ex_pm_dimm_def ex_is_def ex_pm_ns_def

lemma ex_pmem_ok: "dimm_ok ex_pmem 0"
  by (simp add: dimm_ok_def ex_pmem_defs)

theorem GetDimmFreemap_exact_witness:
  "\<exists>free. GetDimmFreemap ex_pmem 0 FreeCapacityForADMode [] = (EFI_SUCCESS, free, [])
    \<and> 0x3FFF \<in> dpas free \<and> 0x4000 \<notin> dpas free \<and> 0x4FFF \<notin> dpas free \<and> 0x5000 \<in> dpas free"
proof -
  have "{r \<in> set (Range ex_pm_ns). NsDimm r = 0} = {\<lparr>NsDimm = 0, NsDpa = 0x4000, NsSize = 0x1000\<rparr>}"
    by (auto simp: ex_pm_ns_def)
  then have ns: "ns_dpas ex_pmem 0 = {0x4000..<0x5000}" by (simp add: ns_dpas_def ex_pmem_def)
  have "{reg \<in> set (DimmRegionList ex_is). RegionDimm reg = 0} =
      {\<lparr>RegionDimm = 0, PartitionOffset = 0, PartitionSize = 0x8000, SpaRegionOffset = 0\<rparr>}"
    by (auto simp: ex_is_def)
  then have "is_dpas ex_pmem 0 = {0x2000..<0xA000}" by (simp add: is_dpas_def ex_pmem_def ex_pm_dimm_def)
  then have "0x3FFF \<in> is_dpas ex_pmem 0 - ns_dpas ex_pmem 0" "0x4000 \<notin> is_dpas ex_pmem 0 - ns_dpas ex_pmem 0"
    "0x4FFF \<notin> is_dpas ex_pmem 0 - ns_dpas ex_pmem 0" "0x5000 \<in> is_dpas ex_pmem 0 - ns_dpas ex_pmem 0"
    by (simp_all add: ns)
  moreover obtain free where "GetDimmFreemap ex_pmem 0 FreeCapacityForADMode [] = (EFI_SUCCESS, free, [])"
    "dpas free = is_dpas ex_pmem 0 - ns_dpas ex_pmem 0" using GetDimmFreemap_exact [OF ex_pmem_ok] by blast
  ultimately show ?thesis by (intro exI [of _ free]) simp
qed

text \<open>
  The status of \<open>AddMemmapRange\<close> is ignored. When the allocation for an occupied range fails, the
  namespace is missing from the list of occupied ranges and its memory is reported as free.
\<close>

lemma failed_allocation_frees_namespace:
  "GetDimmFreemap ex_pmem 0 FreeCapacityForADMode (replicate 10 True @ [False]) =
     (EFI_SUCCESS, [mk_range 0 0x2000 0x8000 MEMMAP_RANGE_FREE], [])"
  by code_simp

end
