(* ===== verification/Provisioning.thy ===== *)
theory Provisioning
  imports Dimm_Free Checksum
begin

text \<open>
  Provisioning of AppDirect namespaces (\<open>DcpmPkg/driver/Core/Namespace.c\<close>, \<open>Region.c\<close>): finding room for
  a namespace on all DIMMs of an interleave set, aligning its capacity, writing its ranges and its base
  address, the interleave set cookies that bind labels to an interleave set, and matching an interleave
  set with its SPA range.
\<close>

section \<open>Model\<close>

definition CompareRegionLengthInMemoryRange :: "memmap_range \<Rightarrow> memmap_range \<Rightarrow> int" where
  "CompareRegionLengthInMemoryRange r r2 =
     (if RangeLength r < RangeLength r2 then -1 else if RangeLength r2 < RangeLength r then 1 else 0)"

definition CompareRegionDpaStartInMemoryRange :: "memmap_range \<Rightarrow> memmap_range \<Rightarrow> int" where
  "CompareRegionDpaStartInMemoryRange r r2 =
     (if RangeStartDpa r < RangeStartDpa r2 then -1
      else if RangeStartDpa r2 < RangeStartDpa r then 1 else 0)"

definition MAX_UINT64_VALUE :: u64 where "MAX_UINT64_VALUE = 0xFFFFFFFFFFFFFFFF"

text \<open>The free maps of the DIMMs of an interleave set.\<close>

fun FreemapLoop :: "pmem_dev \<Rightarrow> dimm_region list \<Rightarrow> pool \<Rightarrow> efi_status \<times> memmap_range list list \<times> pool" where
  "FreemapLoop dev [] p = (EFI_SUCCESS, [], p)"
| "FreemapLoop dev (reg # regs) p =
     (let (ok, p) = take_pool p
      in if \<not> ok then (EFI_OUT_OF_RESOURCES, [], p)
         else
           let (rc, fm, p) = GetDimmFreemap dev (RegionDimm reg) FreeCapacityForADMode p
           in if EFI_ERROR rc then (rc, [], p)
              else if fm = [] then (EFI_NOT_FOUND, [], p)
              else let (rc, fms, p) = FreemapLoop dev regs p in (rc, fm # fms, p))"

text \<open>The tests on a range: inside the interleave set, and inside a free range of another DIMM.\<close>

definition in_is :: "u64 \<Rightarrow> u64 \<Rightarrow> memmap_range \<Rightarrow> bool" where
  "in_is ISStartDpa ISEndDpa r \<longleftrightarrow>
     ISStartDpa \<le> RangeStartDpa r \<and> RangeStartDpa r + RangeLength r \<le> ISEndDpa"

definition within :: "memmap_range \<Rightarrow> memmap_range \<Rightarrow> bool" where
  "within r r2 \<longleftrightarrow> RangeStartDpa r2 \<le> RangeStartDpa r
     \<and> RangeStartDpa r + RangeLength r \<le> RangeStartDpa r2 + RangeLength r2"

definition candidate :: "u64 \<Rightarrow> u64 \<Rightarrow> u64 \<Rightarrow> memmap_range list list \<Rightarrow> memmap_range \<Rightarrow> bool" where
  "candidate Size s e others r \<longleftrightarrow>
     Size \<le> RangeLength r \<and> in_is s e r
   \<and> list_all (\<lambda>fm. list_ex (\<lambda>r2. Size \<le> RangeLength r2 \<and> in_is s e r2 \<and> within r r2) fm) others"

text \<open>
  \<open>FindADMemmapRangeInIS\<close>. When the largest range is asked for there is no test on sizes, which is a
  test against zero.
\<close>

definition FindADMemmapRangeInIS ::
  "pmem_dev \<Rightarrow> nvm_is \<Rightarrow> u64 \<Rightarrow> pool \<Rightarrow> (efi_status \<times> memmap_range option \<times> pool) option" where
  "FindADMemmapRangeInIS dev pIS Size p =
     (if DimmRegionList pIS = [] then Some (EFI_INVALID_PARAMETER, None, p)
      else
        let (ok, p) = take_pool p
        in if \<not> ok then Some (EFI_OUT_OF_RESOURCES, None, p)
           else
             let (rc, fms, p) = FreemapLoop dev (DimmRegionList pIS) p
             in if EFI_ERROR rc then Some (rc, None, p)
                else
                  let reg = hd (DimmRegionList pIS);
                      ISStartDpa = PmStart (dimm_at dev (RegionDimm reg)) + PartitionOffset reg;
                      ISEndDpa = ISStartDpa + PartitionSize reg
                  in do {
                    (rc, first) \<leftarrow> BubbleSortLinkedList
                        (if Size = MAX_UINT64_VALUE then CompareRegionLengthInMemoryRange
                         else CompareRegionDpaStartInMemoryRange) (hd fms);
                    if EFI_ERROR rc then Some (rc, None, p)
                    else
                      let r = (if Size = MAX_UINT64_VALUE
                               then find (candidate 0 ISStartDpa ISEndDpa (tl fms)) (rev first)
                               else find (candidate Size ISStartDpa ISEndDpa (tl fms)) first)
                      in Some (if r = None then EFI_NOT_FOUND else EFI_SUCCESS, r, p)
                  })"

definition AlignNamespaceCapacity :: "u64 \<Rightarrow> u64 \<Rightarrow> u64" where
  "AlignNamespaceCapacity NamespaceCapacity DimmCount =
     (let per = NamespaceCapacity div DimmCount;
          perDimm = (if NamespaceCapacity < 32 * 2 ^ 30 then ROUNDUP per 0x1000
                     else if NamespaceCapacity < 2 ^ 40 then ROUNDUP per 0x1000
                     else if NamespaceCapacity < 256 * 2 ^ 40 then ROUNDUP per 0x10000
                     else ROUNDUP per (32 * 2 ^ 30))
      in perDimm * DimmCount)"

text \<open>
  \<open>CalculateAppDirectNamespaceBaseSpa\<close> looks for the range whose region has offset 0. \<open>Inl\<close> is a
  status without a base address, which may be \<open>EFI_SUCCESS\<close> when no region has offset 0.
\<close>

fun BaseSpaLoop ::
  "pmem_dev \<Rightarrow> subtable \<Rightarrow> efi_status \<Rightarrow> ns_range list \<Rightarrow> (efi_status + u64) option" where
  "BaseSpaLoop dev spa rc [] = Some (Inl rc)"
| "BaseSpaLoop dev spa rc (r # rs) = do {
     (rc, region) \<leftarrow> GetNvDimmRegionMappingStructureForPid (pFitHead dev)
         (DimmID (dimm_at dev (NsDimm r))) None (Some (SpaRangeIndex spa));
     case region of
       None \<Rightarrow> Some (Inl rc)
     | Some region \<Rightarrow>
         if EFI_ERROR rc then Some (Inl rc)
         else if RegionOffset region \<noteq> 0 then BaseSpaLoop dev spa rc rs
         else do {
           (rc, interleave) \<leftarrow> (if RegionInterleaveIndex region \<noteq> 0
              then GetInterleaveTable (pFitHead dev) (RegionInterleaveIndex region)
              else Some (EFI_SUCCESS, None));
           if EFI_ERROR rc then Some (Inl rc)
           else if NsDpa r < NvDimmPhysicalAddressRegionBase region then Some (Inl EFI_INVALID_PARAMETER)
           else RdpaToSpa (NsDpa r - NvDimmPhysicalAddressRegionBase region) region spa interleave
         }
   }"

definition CalculateAppDirectNamespaceBaseSpa ::
  "pmem_dev \<Rightarrow> pm_namespace \<Rightarrow> nvm_is \<Rightarrow> (efi_status \<times> pm_namespace) option" where
  "CalculateAppDirectNamespaceBaseSpa dev ns pIS =
     (if Range ns = [] then Some (EFI_INVALID_PARAMETER, ns)
      else case pSpaTbl pIS of
          None \<Rightarrow> None
        | Some spa \<Rightarrow> map_option
            (case_sum (\<lambda>rc. (rc, ns)) (\<lambda>a. (EFI_SUCCESS, ns\<lparr>SpaNamespaceBase := a\<rparr>)))
            (BaseSpaLoop dev spa EFI_INVALID_PARAMETER (Range ns)))"

text \<open>\<open>AllocateNamespaceCapacity\<close>; \<open>dimm\<close> says whether a DIMM was passed.\<close>

definition AllocateNamespaceCapacity ::
  "pmem_dev \<Rightarrow> bool \<Rightarrow> nvm_is option \<Rightarrow> u64 \<Rightarrow> pm_namespace \<Rightarrow> pool
     \<Rightarrow> (efi_status \<times> u64 \<times> pm_namespace \<times> pool) option" where
  "AllocateNamespaceCapacity dev dimm is_opt cap ns p =
     (if \<not> dimm \<and> is_opt = None \<or> dimm \<and> is_opt \<noteq> None \<or> is_opt = None \<and> NamespaceType ns = 2
      then Some (EFI_INVALID_PARAMETER, cap, ns, p)
      else if NamespaceType ns \<noteq> 2 then Some (EFI_SUCCESS, cap, ns, p)
      else
        let pIS = the is_opt; regs = DimmRegionList pIS
        in if IS_State pIS \<noteq> 0 then Some (EFI_NOT_READY, cap, ns, p)
           else if regs = [] then Some (EFI_SUCCESS, cap, ns, p)
           else
             let DimmCount = of_nat (length regs);
                 Aligned = AlignNamespaceCapacity cap DimmCount;
                 RegionSize = Aligned div DimmCount
             in do {
               (rc, r, p) \<leftarrow> FindADMemmapRangeInIS dev pIS RegionSize p;
               case r of
                 None \<Rightarrow> Some (EFI_OUT_OF_RESOURCES, cap, ns, p)
               | Some r \<Rightarrow> do {
                   (rc, ns) \<leftarrow> CalculateAppDirectNamespaceBaseSpa dev
                       (ns\<lparr>Range := map (\<lambda>reg. \<lparr>NsDimm = RegionDimm reg, NsDpa = RangeStartDpa r,
                          NsSize = RegionSize\<rparr>) regs\<rparr>) pIS;
                   Some (rc, Aligned, ns, p)
                 }
             })"

definition ADNamespaceMinAndMaxAvailableSizeOnIS ::
  "pmem_dev \<Rightarrow> u64 \<Rightarrow> nvm_is \<Rightarrow> pool \<Rightarrow> (efi_status \<times> u64 \<times> u64 \<times> pool) option" where
  "ADNamespaceMinAndMaxAvailableSizeOnIS dev PmNamespaceMinSize pIS p =
     (if DimmRegionList pIS = [] then Some (EFI_SUCCESS, 0, 0, p)
      else do {
        (rc, r, p) \<leftarrow> FindADMemmapRangeInIS dev pIS MAX_UINT64_VALUE p;
        if EFI_ERROR rc \<and> rc \<noteq> EFI_NOT_FOUND then Some (rc, 0, 0, p)
        else
          let n = of_nat (length (DimmRegionList pIS));
              MinSize = PmNamespaceMinSize * n;
              MaxSize = (case r of None \<Rightarrow> 0 | Some r \<Rightarrow> RangeLength r) * n
          in Some (if MaxSize < MinSize then (EFI_SUCCESS, 0, 0, p) else (EFI_SUCCESS, MinSize, MaxSize, p))
      })"

text \<open>\<open>Inl\<close> is the refusal of a capacity that rounds to zero; \<open>None\<close> a division by zero.\<close>

definition ConvertUsableSizeToActualSize :: "u32 \<Rightarrow> u64 \<Rightarrow> (efi_status + u64 \<times> u64) option" where
  "ConvertUsableSizeToActualSize BlockSize Capacity =
     (if BlockSize = 0 then None
      else
        let bs = ucast BlockSize;
            ActualCapacity = (if Capacity mod bs \<noteq> 0 then ROUNDUP Capacity bs else Capacity)
        in Some (if ActualCapacity = 0 then Inl EFI_INVALID_PARAMETER
                 else Inr (ActualCapacity div bs, ActualCapacity)))"

definition GetPersistentMemoryType :: "pmem_dev \<Rightarrow> pm_namespace \<Rightarrow> u8 \<Rightarrow> efi_status \<times> u8" where
  "GetPersistentMemoryType dev ns t =
     (if NamespaceType ns = 2 then
        case pParentIS ns of
          None \<Rightarrow> (EFI_INVALID_PARAMETER, t)
        | Some i \<Rightarrow> (EFI_SUCCESS, if 1 < length (DimmRegionList (ISs dev ! i)) then 1 else 2)
      else (EFI_SUCCESS, t))"

section \<open>Interleave set cookies\<close>

record cookie_data =
  RegionSpaOffset :: u64
  SerialNum :: u32
  CookieVendorId :: u16
  CookieManufacturingDate :: u16
  CookieManufacturingLocation :: u8

definition cookie_bytes :: "cookie_data \<Rightarrow> u8 list" where
  "cookie_bytes c = le64 (RegionSpaOffset c) @ le32 (SerialNum c) @ le16 (CookieVendorId c)
     @ le16 (CookieManufacturingDate c) @ [CookieManufacturingLocation c] @ replicate 31 0"

definition cookie_bytes_1_1 :: "cookie_data \<Rightarrow> u8 list" where
  "cookie_bytes_1_1 c = le64 (RegionSpaOffset c) @ le32 (SerialNum c) @ le32 0"

definition CompareRegionSpaOffsetInISet :: "cookie_data \<Rightarrow> cookie_data \<Rightarrow> int" where
  "CompareRegionSpaOffsetInISet a b =
     (if RegionSpaOffset a < RegionSpaOffset b then -1
      else if RegionSpaOffset b < RegionSpaOffset a then 1 else 0)"

text \<open>
  Collecting the data of the DIMMs. The array has \<open>MAX_NAMESPACE_RANGES\<close>, that is 64, entries and the loop
  does not compare its index with it: a store behind the array is \<open>None\<close>.
\<close>

fun CookieLoop :: "pmem_dev \<Rightarrow> subtable \<Rightarrow> nat \<Rightarrow> dimm_region list \<Rightarrow> (efi_status + cookie_data list) option" where
  "CookieLoop dev spa Index [] = Some (Inr [])"
| "CookieLoop dev spa Index (reg # regs) = do {
     (rc, region) \<leftarrow> GetNvDimmRegionMappingStructureForPid (pFitHead dev)
         (DimmID (dimm_at dev (RegionDimm reg))) None (Some (SpaRangeIndex spa));
     case region of
       None \<Rightarrow> Some (Inl rc)
     | Some region \<Rightarrow> do {
         (rc, ctrl) \<leftarrow> GetControlRegionTableForNvDimmRegionTable (pFitHead dev) region;
         case ctrl of
           None \<Rightarrow> Some (Inl rc)
         | Some ctrl \<Rightarrow>
             if 64 \<le> Index then None
             else map_option (map_sum id (Cons
               \<lparr>RegionSpaOffset = RegionOffset region, SerialNum = SerialNumber ctrl,
                CookieVendorId = VendorId ctrl, CookieManufacturingDate = ManufacturingDate ctrl,
                CookieManufacturingLocation = ManufacturingLocation ctrl\<rparr>)) (CookieLoop dev spa (Index + 1) regs)
       }
   }"

text \<open>
  The checksum of an array when the variable that receives it lies outside: no word is skipped.
  \<open>aligned\<close> says whether the two addresses agree modulo 4, as the checksum requires.
\<close>

definition checksum_outside :: "u8 list \<Rightarrow> u64" where
  "checksum_outside area =
     (let (lo, hi) = fletcher None (words32 area) 0 0 in push_bit 32 (ucast hi) OR ucast lo)"

definition cookie_of ::
  "(cookie_data \<Rightarrow> u8 list) \<Rightarrow> bool \<Rightarrow> pmem_dev \<Rightarrow> nvm_is \<Rightarrow> pool \<Rightarrow> ((efi_status + u64) \<times> pool) option" where
  "cookie_of enc aligned dev pIS p =
     (case pSpaTbl pIS of
        None \<Rightarrow> Some (Inl EFI_INVALID_PARAMETER, p)
      | Some spa \<Rightarrow> do {
          d \<leftarrow> CookieLoop dev spa 0 (DimmRegionList pIS);
          case d of
            Inl rc \<Rightarrow> Some (Inl rc, p)
          | Inr cs \<Rightarrow> do {
              (rc, cs, p) \<leftarrow> BubbleSort CompareRegionSpaOffsetInISet cs p;
              Some (if EFI_ERROR rc then Inl rc
                    else if \<not> aligned then Inl EFI_LOAD_ERROR
                    else Inr (checksum_outside (concat (map enc cs))), p)
            }
        })"

definition CalculateISetCookie ::
  "bool \<Rightarrow> pmem_dev \<Rightarrow> nvm_is \<Rightarrow> pool \<Rightarrow> (efi_status \<times> nvm_is \<times> pool) option" where
  "CalculateISetCookie aligned dev pIS p =
     map_option (\<lambda>(r, p). case r of Inl rc \<Rightarrow> (rc, pIS, p)
         | Inr c \<Rightarrow> (EFI_SUCCESS, pIS\<lparr>InterleaveSetCookie := c\<rparr>, p)) (cookie_of cookie_bytes aligned dev pIS p)"

definition CalculateISetCookieVer1_1 ::
  "bool \<Rightarrow> pmem_dev \<Rightarrow> nvm_is \<Rightarrow> pool \<Rightarrow> (efi_status \<times> nvm_is \<times> pool) option" where
  "CalculateISetCookieVer1_1 aligned dev pIS p =
     map_option (\<lambda>(r, p). case r of Inl rc \<Rightarrow> (rc, pIS, p)
         | Inr c \<Rightarrow> (EFI_SUCCESS, pIS\<lparr>InterleaveSetCookie_1_1 := c\<rparr>, p)) (cookie_of cookie_bytes_1_1 aligned dev pIS p)"

end
