(* ===== verification/Provisioning_Props.thy ===== *)
theory Provisioning_Props
  imports Provisioning Nfit_Correct
begin

text \<open>
  Properties of provisioning: a namespace is only placed where every DIMM of its interleave set has
  free memory, what rounding does to a capacity, and that a cookie does not depend on the order in which
  the DIMMs of an interleave set were found.
\<close>

section \<open>Sorting\<close>

interpretation by_length: comparator CompareRegionLengthInMemoryRange RangeLength
  by unfold_locales (auto simp: CompareRegionLengthInMemoryRange_def)

interpretation by_dpa: comparator CompareRegionDpaStartInMemoryRange RangeStartDpa
  by unfold_locales (auto simp: CompareRegionDpaStartInMemoryRange_def)

interpretation by_spa_offset: comparator CompareRegionSpaOffsetInISet RegionSpaOffset
  by unfold_locales (auto simp: CompareRegionSpaOffsetInISet_def)

section \<open>Finding room\<close>

lemma find_SomeD: "find P xs = Some x \<Longrightarrow> x \<in> set xs \<and> P x"
  by (induction xs) (auto split: if_splits)

text \<open>The free addresses of a DIMM, and the free maps of several.\<close>

abbreviation free_dpas :: "pmem_dev \<Rightarrow> dimm_ref \<Rightarrow> nat set" where
  "free_dpas dev d \<equiv> is_dpas dev d - ns_dpas dev d"

definition free_maps :: "pmem_dev \<Rightarrow> dimm_region list \<Rightarrow> memmap_range list list \<Rightarrow> bool" where
  "free_maps dev = list_all2 (\<lambda>reg fm. GetDimmFreemap dev (RegionDimm reg) FreeCapacityForADMode [] = (EFI_SUCCESS, fm, [])
     \<and> dpas fm = free_dpas dev (RegionDimm reg) \<and> fm \<noteq> [] \<and> (\<forall>r\<in>set fm. range_ok r))"

lemma FreemapLoop_ok:
  assumes "\<forall>reg\<in>set regs. dimm_ok dev (RegionDimm reg)" "FreemapLoop dev regs [] = (rc, fms, p)"
  shows "p = [] \<and> (rc = EFI_SUCCESS \<longrightarrow> free_maps dev regs fms)"
  using assms
proof (induction regs arbitrary: rc fms)
  case (Cons reg regs)
  obtain fm where fm: "GetDimmFreemap dev (RegionDimm reg) FreeCapacityForADMode [] = (EFI_SUCCESS, fm, [])"
    "dpas fm = free_dpas dev (RegionDimm reg)" "\<forall>r\<in>set fm. range_ok r"
    using GetDimmFreemap_free [of dev "RegionDimm reg"] Cons.prems(1) by auto
  then show ?case using Cons by (auto simp: free_maps_def split: prod.splits if_splits)
qed (simp add: free_maps_def)

lemma range_in_dpas: "r \<in> set rs \<Longrightarrow> {rstart r..<rend r} \<subseteq> dpas rs"
  by (auto simp: dpas_def)

lemma within_subset:
  assumes "range_ok r" "range_ok r2" "within r r2"
  shows "{rstart r..<rend r} \<subseteq> {rstart r2..<rend r2}"
  using assms by (auto simp: within_def word_le_nat_alt range_end)

text \<open>A range that passes the tests is free on every DIMM of the interleave set.\<close>

lemma candidate_free:
  assumes c: "candidate Size s e (tl fms) r" and r: "r \<in> set (hd fms)"
    and fms: "free_maps dev regs fms" and reg: "reg \<in> set regs"
  shows "range_ok r" "{rstart r..<rend r} \<subseteq> free_dpas dev (RegionDimm reg)"
proof -
  note fms = fms [unfolded free_maps_def]
  obtain i where i: "i < length regs" "regs ! i = reg" using reg by (meson in_set_conv_nth)
  have len: "length fms = length regs" using fms by (simp add: list_all2_lengthD)
  have fmi: "dpas (fms ! i) = free_dpas dev (RegionDimm reg)" "\<forall>r\<in>set (fms ! i). range_ok r"
    using list_all2_nthD [OF fms i(1)] i by simp_all
  have "0 < length regs" "fms \<noteq> []" using i len by auto
  then show r_ok: "range_ok r" using list_all2_nthD [OF fms, of 0] r by (simp add: hd_conv_nth)
  show "{rstart r..<rend r} \<subseteq> free_dpas dev (RegionDimm reg)"
  proof (cases i)
    case 0
    then have "r \<in> set (fms ! i)" using r \<open>fms \<noteq> []\<close> by (simp add: hd_conv_nth)
    then show ?thesis using range_in_dpas fmi by blast
  next
    case (Suc j)
    then have "fms ! i = tl fms ! j" "j < length (tl fms)" using i len by (simp_all add: nth_tl)
    then have "fms ! i \<in> set (tl fms)" by (metis nth_mem)
    then obtain r2 where r2: "r2 \<in> set (fms ! i)" "within r r2"
      using c by (auto simp: candidate_def list_all_iff list_ex_iff)
    then have "range_ok r2" using fmi by blast
    then show ?thesis
      using within_subset [OF r_ok] r2 range_in_dpas fmi by blast
  qed
qed

text \<open>The range is a candidate from the free map of the first DIMM.\<close>

lemma FindADMemmapRangeInIS_candidate:
  assumes ok: "\<forall>reg\<in>set (DimmRegionList pIS). dimm_ok dev (RegionDimm reg)"
  shows "\<exists>rc r. FindADMemmapRangeInIS dev pIS Size [] = Some (rc, r, []) \<and> (r = None \<longleftrightarrow> rc \<noteq> EFI_SUCCESS)
    \<and> (\<forall>x. r = Some x \<longrightarrow> (\<exists>fms s e. free_maps dev (DimmRegionList pIS) fms \<and> x \<in> set (hd fms)
        \<and> candidate (if Size = MAX_UINT64_VALUE then 0 else Size) s e (tl fms) x))"
proof (cases "DimmRegionList pIS = []")
  case True
  then show ?thesis by (simp add: FindADMemmapRangeInIS_def)
next
  case ne: False
  obtain rc fms p where l: "FreemapLoop dev (DimmRegionList pIS) [] = (rc, fms, p)" by (metis prod_cases3)
  note fl = FreemapLoop_ok [OF ok l]
  show ?thesis
  proof (cases "rc = EFI_SUCCESS")
    case False
    then show ?thesis using ne l fl by (simp add: FindADMemmapRangeInIS_def)
  next
    case True
    then have fms: "free_maps dev (DimmRegionList pIS) fms" "p = []" using fl by auto
    then have hd: "hd fms \<noteq> []" using ne by (cases fms; cases "DimmRegionList pIS") (auto simp: free_maps_def)
    define z where "z = (if Size = MAX_UINT64_VALUE then 0 else Size)"
    define s where "s = PmStart (dimm_at dev (RegionDimm (hd (DimmRegionList pIS)))) + PartitionOffset (hd (DimmRegionList pIS))"
    define e where "e = s + PartitionSize (hd (DimmRegionList pIS))"
    define r where "r = (if Size = MAX_UINT64_VALUE
        then find (candidate z s e (tl fms)) (rev (sort_key RangeLength (hd fms)))
        else find (candidate z s e (tl fms)) (sort_key RangeStartDpa (hd fms)))"
    have eq: "FindADMemmapRangeInIS dev pIS Size [] = Some (if r = None then EFI_NOT_FOUND else EFI_SUCCESS, r, [])"
      using ne l True fms(2) hd
      by (simp add: FindADMemmapRangeInIS_def Let_def by_length.BubbleSortLinkedList_sorts
          by_dpa.BubbleSortLinkedList_sorts r_def s_def e_def z_def)
    have "x \<in> set (hd fms)" "candidate z s e (tl fms) x" if "r = Some x" for x
      using that find_SomeD [of "candidate z s e (tl fms)"] unfolding r_def by (metis set_rev set_sort)+
    then have "\<forall>x. r = Some x \<longrightarrow> (\<exists>fms s e. free_maps dev (DimmRegionList pIS) fms \<and> x \<in> set (hd fms) \<and> candidate z s e (tl fms) x)"
      using fms(1) by blast
    then show ?thesis using eq unfolding z_def by simp
  qed
qed

lemma FindADMemmapRangeInIS_ok:
  assumes ok: "\<forall>reg\<in>set (DimmRegionList pIS). dimm_ok dev (RegionDimm reg)"
  shows "\<exists>rc r. FindADMemmapRangeInIS dev pIS Size [] = Some (rc, r, []) \<and> (r = None \<longleftrightarrow> rc \<noteq> EFI_SUCCESS)
    \<and> (\<forall>x. r = Some x \<longrightarrow> range_ok x \<and> (Size \<noteq> MAX_UINT64_VALUE \<longrightarrow> Size \<le> RangeLength x)
        \<and> (\<forall>reg\<in>set (DimmRegionList pIS). {rstart x..<rend x} \<subseteq> free_dpas dev (RegionDimm reg)))"
proof -
  obtain rc r where f: "FindADMemmapRangeInIS dev pIS Size [] = Some (rc, r, [])" "r = None \<longleftrightarrow> rc \<noteq> EFI_SUCCESS"
    "\<forall>x. r = Some x \<longrightarrow> (\<exists>fms s e. free_maps dev (DimmRegionList pIS) fms \<and> x \<in> set (hd fms)
        \<and> candidate (if Size = MAX_UINT64_VALUE then 0 else Size) s e (tl fms) x)"
    using FindADMemmapRangeInIS_candidate [OF ok] by blast
  have "range_ok x \<and> (Size \<noteq> MAX_UINT64_VALUE \<longrightarrow> Size \<le> RangeLength x)
      \<and> (\<forall>reg\<in>set (DimmRegionList pIS). {rstart x..<rend x} \<subseteq> free_dpas dev (RegionDimm reg))" if "r = Some x" for x
  proof -
    from that f(3) obtain fms s e where c: "free_maps dev (DimmRegionList pIS) fms" "x \<in> set (hd fms)"
      "candidate (if Size = MAX_UINT64_VALUE then 0 else Size) s e (tl fms) x" by blast
    have "DimmRegionList pIS \<noteq> []" using f(1) that by (auto simp: FindADMemmapRangeInIS_def)
    then have "hd (DimmRegionList pIS) \<in> set (DimmRegionList pIS)" by simp
    then show ?thesis using candidate_free [OF c(3,2,1)] c(3) by (auto simp: candidate_def)
  qed
  then show ?thesis using f(1,2) by auto
qed

section \<open>Allocation\<close>

text \<open>A parsed table on which the translation of addresses does not fail.\<close>

definition fit_ok :: "ParsedFitHeader \<Rightarrow> bool" where
  "fit_ok h \<longleftrightarrow> nfit_small h \<and> list_all (\<lambda>t. unat (LineSize t) * unat (NumberOfLinesDescribed t) < 2 ^ 32
     \<and> 16 + 4 * unat (NumberOfLinesDescribed t) \<le> length t) (ppInterleaveTbles h)"

lemma RdpaToSpa_returns:
  assumes "case interleave of None \<Rightarrow> True | Some t \<Rightarrow>
      unat (LineSize t) * unat (NumberOfLinesDescribed t) < 2 ^ 32 \<and> 16 + 4 * unat (NumberOfLinesDescribed t) \<le> length t"
  shows "\<exists>a. RdpaToSpa Rdpa region spa interleave = Some a"
proof (cases interleave)
  case None
  then show ?thesis by (simp add: RdpaToSpa_def)
next
  case (Some t)
  show ?thesis
  proof (cases "LineSize t = 0 \<or> NumberOfLinesDescribed t = 0")
    case True
    then show ?thesis using Some by (auto simp: RdpaToSpa_def)
  next
    case False
    let ?L = "unat (LineSize t)" and ?n = "unat (NumberOfLinesDescribed t)"
    define rot :: u64 where "rot = ucast (LineSize t * NumberOfLinesDescribed t)"
    have rot: "unat rot = ?L * ?n" using assms Some by (simp add: rot_def unat_times_nowrap)
    have pos: "0 < ?L" "0 < ?n" using False by (simp_all add: unat_gt_0)
    have "unat Rdpa mod (?L * ?n) div ?L < ?n" using line_lt [OF pos] .
    moreover have "?n < 2 ^ 32" using unat_bound [of "NumberOfLinesDescribed t"] by simp
    ultimately have line: "unat (ucast ((Rdpa mod rot) div ucast (LineSize t)) :: u32) < ?n"
      by (simp add: unsigned_ucast_eq unat_div_distrib unat_mod_distrib rot take_bit_nat_eq_self)
    have "rot \<noteq> 0" using rot pos by (metis nat_0_less_mult_iff less_irrefl unat_0)
    then show ?thesis using Some False line assms
      by (auto simp: RdpaToSpa_def Let_def rot_def [symmetric])
  qed
qed

lemma GetNvDimmRegion_returns:
  assumes "nfit_small h"
  shows "\<exists>rc region. GetNvDimmRegionMappingStructureForPid h Pid None (Some spa) = Some (rc, region)
    \<and> (region = None \<longleftrightarrow> rc \<noteq> EFI_SUCCESS)"
proof (cases "Pid = DIMM_PID_ALL \<or> Pid = DIMM_PID_INVALID")
  case True
  then show ?thesis by (simp add: GetNvDimmRegionMappingStructureForPid_def)
next
  case False
  then show ?thesis using GetNvDimmRegion_spa [OF assms, of Pid spa] by auto
qed

lemma BaseSpaLoop_returns:
  assumes "fit_ok (pFitHead dev)"
  shows "\<exists>a. BaseSpaLoop dev spa rc rs = Some a"
proof (induction rs arbitrary: rc)
  case (Cons r rs)
  have small: "nfit_small (pFitHead dev)" using assms by (simp add: fit_ok_def)
  obtain rc' region where g: "GetNvDimmRegionMappingStructureForPid (pFitHead dev)
      (DimmID (dimm_at dev (NsDimm r))) None (Some (SpaRangeIndex spa)) = Some (rc', region)"
    "region = None \<longleftrightarrow> rc' \<noteq> EFI_SUCCESS" using GetNvDimmRegion_returns [OF small] by blast
  have t: "case t of None \<Rightarrow> True | Some t \<Rightarrow>
      unat (LineSize t) * unat (NumberOfLinesDescribed t) < 2 ^ 32 \<and> 16 + 4 * unat (NumberOfLinesDescribed t) \<le> length t"
    if "t = find P (ppInterleaveTbles (pFitHead dev))" for t P
    using that assms find_SomeD [of P "ppInterleaveTbles (pFitHead dev)"]
    by (auto simp: fit_ok_def list_all_iff split: option.splits)
  show ?case
  proof (cases region)
    case None
    then show ?thesis using g by simp
  next
    case (Some reg)
    note rs1 = RdpaToSpa_returns [OF t [OF refl]]
    note rs2 = RdpaToSpa_returns [of None, simplified]
    show ?thesis using g Some Cons.IH small rs1 rs2 by (simp add: found_def)
  qed
qed simp

lemma CalculateAppDirectNamespaceBaseSpa_returns:
  assumes "fit_ok (pFitHead dev)" "pSpaTbl pIS = Some spa" "Range ns \<noteq> []"
  obtains rc ns' where "CalculateAppDirectNamespaceBaseSpa dev ns pIS = Some (rc, ns')" "Range ns' = Range ns"
proof -
  obtain a where "BaseSpaLoop dev spa EFI_INVALID_PARAMETER (Range ns) = Some a"
    using BaseSpaLoop_returns [OF assms(1)] by blast
  then show ?thesis
    using assms(2,3) that by (cases a) (auto simp: CalculateAppDirectNamespaceBaseSpa_def)
qed

lemma odd_max: "even (unat c) \<Longrightarrow> x * c \<noteq> (MAX_UINT64_VALUE :: u64)"
proof
  assume "even (unat c)" and m: "x * c = MAX_UINT64_VALUE"
  then have "even (unat (x * c))" unfolding unat_word_ariths by (intro dvd_mod) simp_all
  then show False unfolding m by (simp add: MAX_UINT64_VALUE_def)
qed

lemma region_size_not_max:
  assumes "n \<noteq> 0"
  shows "AlignNamespaceCapacity cap n div n \<noteq> MAX_UINT64_VALUE"
proof (cases "n = 1")
  case True
  then show ?thesis by (simp add: AlignNamespaceCapacity_def ROUNDUP_def Let_def odd_max)
next
  case False
  then have "2 \<le> unat n" using assms by (metis One_nat_def less_2_cases not_less unat_0 unat_1 word_unat_eq_iff)
  then have "unat (x div n) \<le> unat x div 2" for x by (simp add: unat_div_distrib div_le_mono2)
  moreover have "unat x div 2 < 2 ^ 63" for x :: u64 using unat_bound [of x] by simp
  ultimately have "unat (x div n) < 2 ^ 63" for x by (rule le_less_trans)
  moreover have "\<not> unat MAX_UINT64_VALUE < 2 ^ 63" by (simp add: MAX_UINT64_VALUE_def)
  ultimately show ?thesis by metis
qed


text \<open>The example device of \<open>Dimm_Free\<close> with a table that describes its interleave set.\<close>

definition ex_region_of :: "u16 \<Rightarrow> u64 \<Rightarrow> subtable" where
  "ex_region_of pid off = le16 1 @ le16 48 @ le32 0 @ le16 pid @ le16 0 @ le16 1 @ le16 pid @ le64 0x8000 @ le64 off
     @ le64 0x2000 @ le16 0 @ le16 2 @ le16 0 @ [0, 0]"

definition ex_control :: "u16 \<Rightarrow> u32 \<Rightarrow> subtable" where
  "ex_control pid serial = le16 4 @ le16 80 @ le16 pid @ le16 0x8980 @ le16 0 @ le16 0 @ le16 0 @ le16 0 @ le16 0
     @ [0, 1] @ le16 0x1020 @ [0, 0] @ le32 serial @ replicate 52 0"

definition ex_fit :: ParsedFitHeader where
  "ex_fit = \<lparr>pFit = ex_hdr, ppSpaRangeTbles = [ex_spa],
     ppNvDimmRegionMappingStructures = [ex_region_of 1 0, ex_region_of 2 0x1000], ppInterleaveTbles = [],
     ppSmbiosTbles = [], ppControlRegionTbles = [ex_control 1 0xA1, ex_control 2 0xB2], ppBWRegionTbles = [],
     ppFlushHintTbles = [], ppPlatformCapabilitiesTbles = []\<rparr>"

definition ex_pm :: pmem_dev where "ex_pm = ex_pmem\<lparr>pFitHead := ex_fit\<rparr>"

definition ex_set :: nvm_is where "ex_set = ex_is\<lparr>pSpaTbl := Some ex_spa\<rparr>"

lemma ex_pm_ok: "dimm_ok ex_pm 0" "dimm_ok ex_pm (Suc 0)" "fit_ok (pFitHead ex_pm)"
  by (simp_all add: dimm_ok_def ex_pm_def ex_pmem_defs fit_ok_def nfit_small_def ex_fit_def)


section \<open>Rounding\<close>

lemma ROUNDUP_bounds:
  assumes "0 < unat s" "unat x + unat s \<le> 2 ^ 64"
  shows "unat (ROUNDUP x s :: u64) = (unat x + unat s - 1) div unat s * unat s"
    and "unat x \<le> unat (ROUNDUP x s)" "unat (ROUNDUP x s) < unat x + unat s" "unat s dvd unat (ROUNDUP x s)"
proof -
  have "x + s - 1 = x + (s - 1)" by simp
  moreover have "unat (s - 1) = unat s - 1" using assms(1) by (metis unat_0 less_irrefl unat_minus_one)
  ultimately have e: "unat (x + s - 1) = unat x + unat s - 1"
    using assms by (simp only:) (subst unat_plus_nowrap, auto)
  have le: "(unat x + unat s - 1) div unat s * unat s \<le> unat x + unat s - 1" by (rule div_times_less_eq_dividend)
  have "unat x + unat s - 1 < 2 ^ 64" using assms by linarith
  then have "(unat x + unat s - 1) div unat s * unat s < 2 ^ LENGTH(64)" using le_less_trans [OF le] by simp
  then show eq: "unat (ROUNDUP x s) = (unat x + unat s - 1) div unat s * unat s"
    unfolding ROUNDUP_def using e by (subst unat_times_nowrap) (simp_all add: unat_div_distrib)
  have "unat x + unat s - 1 < Suc ((unat x + unat s - 1) div unat s) * unat s"
    using assms(1) dividend_less_div_times [of "unat s" "unat x + unat s - 1"] by simp
  then show "unat x \<le> unat (ROUNDUP x s)" using eq by simp
  show "unat (ROUNDUP x s) < unat x + unat s" using eq le assms(1) by linarith
  show "unat s dvd unat (ROUNDUP x s)" using eq by simp
qed

text \<open>
  \<open>AlignNamespaceCapacity\<close> gives every DIMM a whole number of 4 KiB pages and stays within one
  alignment unit per DIMM above the request (4 KiB below one tebibyte, 64 KiB below 256, else 32 GiB).
  It does not always reach the request: the capacity is divided by the number of DIMMs with the
  remainder lost before it is rounded up, so up to one byte less than the number of DIMMs may be missing.
  For a multiple of the number of DIMMs the result is at least the request.
\<close>

theorem AlignNamespaceCapacity_bounds:
  assumes "0 < unat n" "unat n \<le> 64" "unat cap < 2 ^ 62"
  shows "4096 * unat n dvd unat (AlignNamespaceCapacity cap n)
    \<and> unat cap < unat (AlignNamespaceCapacity cap n) + unat n
    \<and> unat (AlignNamespaceCapacity cap n) < unat cap + unat n *
        (if unat cap < 2 ^ 40 then 2 ^ 12 else if unat cap < 2 ^ 48 then 2 ^ 16 else 2 ^ 35)
    \<and> (unat n dvd unat cap \<longrightarrow> unat cap \<le> unat (AlignNamespaceCapacity cap n))"
proof -
  define s :: u64 where "s = (if unat cap < 2 ^ 40 then 0x1000 else if unat cap < 2 ^ 48 then 0x10000 else 32 * 2 ^ 30)"
  have s: "unat s = (if unat cap < 2 ^ 40 then 2 ^ 12 else if unat cap < 2 ^ 48 then 2 ^ 16 else 2 ^ 35)"
    by (simp add: s_def)
  then have s': "0 < unat s" "unat s \<le> 2 ^ 35" "4096 dvd unat s" by (auto simp: dvd_def)
  let ?p = "cap div n"
  have p: "unat ?p = unat cap div unat n" by (simp add: unat_div_distrib)
  have "unat ?p \<le> unat cap" by (simp add: p)
  then have "unat ?p + unat s \<le> 2 ^ 64" using assms(3) s'(2) by simp
  note b = ROUNDUP_bounds [OF s'(1) this]
  have A: "AlignNamespaceCapacity cap n = ROUNDUP ?p s * n"
    by (simp add: AlignNamespaceCapacity_def s_def Let_def word_less_nat_alt)
  have "unat (ROUNDUP ?p s) * unat n < (unat ?p + unat s) * unat n" using b(3) assms(1) by simp
  also have "\<dots> \<le> unat cap + unat n * unat s" using div_times_less_eq_dividend [of "unat cap" "unat n"] by (simp add: p algebra_simps)
  finally have lt: "unat (ROUNDUP ?p s) * unat n < unat cap + unat n * unat s" .
  moreover have "unat n * unat s \<le> 64 * 2 ^ 35" by (rule mult_le_mono) (use assms s' in auto)
  then have "unat cap + unat n * unat s < 2 ^ 64" using assms(3) by simp
  ultimately have u: "unat (AlignNamespaceCapacity cap n) = unat (ROUNDUP ?p s) * unat n"
    unfolding A by (subst unat_times_nowrap) simp_all
  have "unat cap < Suc (unat ?p) * unat n"
    using dividend_less_div_times [of "unat n" "unat cap"] assms(1) by (simp add: p)
  also have "\<dots> \<le> Suc (unat (ROUNDUP ?p s)) * unat n" using b(2) by (intro mult_le_mono1) simp
  finally have "unat cap < unat (ROUNDUP ?p s) * unat n + unat n" by simp
  moreover have "4096 * unat n dvd unat (ROUNDUP ?p s) * unat n"
    using b(4) s'(3) by (intro mult_dvd_mono) (auto intro: dvd_trans)
  moreover have "unat cap \<le> unat (ROUNDUP ?p s) * unat n" if "unat n dvd unat cap"
    using that mult_le_mono1 [OF b(2), of "unat n"] by (simp add: p)
  ultimately show ?thesis using lt unfolding u s by blast
qed

theorem AlignNamespaceCapacity_bounds_witness:
  "unat (AlignNamespaceCapacity 8193 2) < 8193 + 2 * 4096 \<and> AlignNamespaceCapacity 8193 2 = 8192"
  using AlignNamespaceCapacity_bounds [of 2 8193] by (simp add: AlignNamespaceCapacity_def ROUNDUP_def)

section \<open>Cookies\<close>

text \<open>The data of one DIMM of an interleave set, as the tables give it.\<close>

definition cookie_entry :: "pmem_dev \<Rightarrow> subtable \<Rightarrow> dimm_region \<Rightarrow> cookie_data option" where
  "cookie_entry dev spa reg = do {
     region \<leftarrow> region_for (pFitHead dev) (DimmID (dimm_at dev (RegionDimm reg))) (SpaRangeIndex spa);
     ctrl \<leftarrow> find (\<lambda>t. ControlRegionDescriptorTableIndex t = NvdimmControlRegionDescriptorTableIndex region)
         (ppControlRegionTbles (pFitHead dev));
     Some \<lparr>RegionSpaOffset = RegionOffset region, SerialNum = SerialNumber ctrl,
       CookieVendorId = VendorId ctrl, CookieManufacturingDate = ManufacturingDate ctrl,
       CookieManufacturingLocation = ManufacturingLocation ctrl\<rparr>
   }"

definition dimm_id_ok :: "u16 \<Rightarrow> bool" where
  "dimm_id_ok Pid \<longleftrightarrow> Pid \<noteq> DIMM_PID_ALL \<and> Pid \<noteq> DIMM_PID_INVALID"

lemma CookieLoop_map:
  assumes "nfit_small (pFitHead dev)"
    and "\<forall>reg\<in>set regs. dimm_id_ok (DimmID (dimm_at dev (RegionDimm reg))) \<and> cookie_entry dev spa reg \<noteq> None"
    and "Index + length regs \<le> 64"
  shows "CookieLoop dev spa Index regs = Some (Inr (map (the \<circ> cookie_entry dev spa) regs))"
  using assms(2,3)
proof (induction regs arbitrary: Index)
  case (Cons reg regs)
  let ?pid = "DimmID (dimm_at dev (RegionDimm reg))"
  have "cookie_entry dev spa reg \<noteq> None" using Cons.prems by simp
  then obtain region ctrl where e: "region_for (pFitHead dev) ?pid (SpaRangeIndex spa) = Some region"
    "find (\<lambda>t. ControlRegionDescriptorTableIndex t = NvdimmControlRegionDescriptorTableIndex region)
       (ppControlRegionTbles (pFitHead dev)) = Some ctrl"
    by (auto simp: cookie_entry_def bind_eq_None_conv)
  have "GetNvDimmRegionMappingStructureForPid (pFitHead dev) ?pid None (Some (SpaRangeIndex spa)) =
      Some (EFI_SUCCESS, Some region)"
    using GetNvDimmRegion_spa [OF assms(1), of ?pid "SpaRangeIndex spa"] Cons.prems e by (simp add: dimm_id_ok_def)
  then show ?case using Cons e assms(1) by (simp add: found_def cookie_entry_def)
qed simp

lemma cookie_of_sorted:
  assumes "nfit_small (pFitHead dev)" "pSpaTbl pIS = Some spa" "length (DimmRegionList pIS) \<le> 64"
    and "\<forall>reg\<in>set (DimmRegionList pIS).
        dimm_id_ok (DimmID (dimm_at dev (RegionDimm reg))) \<and> cookie_entry dev spa reg \<noteq> None"
  shows "cookie_of enc True dev pIS [] = Some (Inr (checksum_outside (concat (map enc
    (sort_key RegionSpaOffset (map (the \<circ> cookie_entry dev spa) (DimmRegionList pIS)))))), [])"
  using assms(2) CookieLoop_map [OF assms(1,4), of 0] assms(3)
  by (simp add: cookie_of_def by_spa_offset.BubbleSort_sorts)

text \<open>
  C13: both cookies of an interleave set are computed for every set of at most 64 DIMMs that the tables
  describe, and depend only on the DIMMs and not on the order in which they are listed: any permutation
  of the regions with distinct SPA offsets gives the same cookies. A label written under one order is
  recognised under another.
\<close>

theorem ISetCookie_order_independent:
  assumes "nfit_small (pFitHead dev)" "pSpaTbl pIS = Some spa" "length (DimmRegionList pIS) \<le> 64"
    and "\<forall>reg\<in>set (DimmRegionList pIS).
        dimm_id_ok (DimmID (dimm_at dev (RegionDimm reg))) \<and> cookie_entry dev spa reg \<noteq> None"
    and "inj_on (RegionSpaOffset \<circ> the \<circ> cookie_entry dev spa) (set (DimmRegionList pIS))"
    and perm: "mset regs = mset (DimmRegionList pIS)"
  shows "\<exists>c c11. \<forall>q \<in> {pIS, pIS\<lparr>DimmRegionList := regs\<rparr>}.
      CalculateISetCookie True dev q [] = Some (EFI_SUCCESS, q\<lparr>InterleaveSetCookie := c\<rparr>, [])
    \<and> CalculateISetCookieVer1_1 True dev q [] = Some (EFI_SUCCESS, q\<lparr>InterleaveSetCookie_1_1 := c11\<rparr>, [])"
proof -
  let ?f = "the \<circ> cookie_entry dev spa" and ?q = "pIS\<lparr>DimmRegionList := regs\<rparr>"
  have set: "set regs = set (DimmRegionList pIS)" "length regs = length (DimmRegionList pIS)"
    using perm by (metis set_mset_mset, metis size_mset)
  have "sort_key RegionSpaOffset (map ?f regs) = sort_key RegionSpaOffset (map ?f (DimmRegionList pIS))"
  proof (rule sort_key_inj_key_eq)
    show "mset (map ?f regs) = mset (sort_key RegionSpaOffset (map ?f (DimmRegionList pIS)))" using perm by simp
    show "inj_on RegionSpaOffset (set (map ?f regs))" using assms(5) unfolding set_map set(1)
      by (metis comp_inj_on_iff inj_on_imageI o_assoc)
    show "sorted (map RegionSpaOffset (sort_key RegionSpaOffset (map ?f (DimmRegionList pIS))))" by simp
  qed
  moreover have "cookie_of enc True dev ?q [] = Some (Inr (checksum_outside (concat (map enc
      (sort_key RegionSpaOffset (map ?f regs))))), [])" for enc
    using cookie_of_sorted [OF assms(1), of ?q spa enc] assms(2-4) set by simp
  moreover have "cookie_of enc True dev pIS [] = Some (Inr (checksum_outside (concat (map enc
      (sort_key RegionSpaOffset (map ?f (DimmRegionList pIS)))))), [])" for enc
    by (rule cookie_of_sorted [OF assms(1-4)])
  ultimately show ?thesis
    by (intro exI [of _ "checksum_outside (concat (map cookie_bytes (sort_key RegionSpaOffset (map ?f (DimmRegionList pIS)))))"]
        exI [of _ "checksum_outside (concat (map cookie_bytes_1_1 (sort_key RegionSpaOffset (map ?f (DimmRegionList pIS)))))"])
      (simp add: CalculateISetCookie_def CalculateISetCookieVer1_1_def)
qed

lemma ex_pm_regions:
  "region_for ex_fit 1 1 = Some (ex_region_of 1 0)" "region_for ex_fit 2 1 = Some (ex_region_of 2 0x1000)"
  by (simp_all add: region_for_def ex_fit_def ex_region_of_def NvDimmPhysicalId_def RegionSpaRangeIndex_def)

lemma ex_pm_controls:
  "ControlRegionDescriptorTableIndex (ex_control pid serial) = pid" "RegionOffset (ex_region_of pid off) = off"
  "NvdimmControlRegionDescriptorTableIndex (ex_region_of pid off) = pid"
  by (simp_all add: ex_control_def ex_region_of_def ControlRegionDescriptorTableIndex_def RegionOffset_def
      NvdimmControlRegionDescriptorTableIndex_def)

theorem ISetCookie_order_independent_witness:
  "\<exists>c c11. \<forall>q \<in> {ex_set, ex_set\<lparr>DimmRegionList := rev (DimmRegionList ex_set)\<rparr>}.
      CalculateISetCookie True ex_pm q [] = Some (EFI_SUCCESS, q\<lparr>InterleaveSetCookie := c\<rparr>, [])
    \<and> CalculateISetCookieVer1_1 True ex_pm q [] = Some (EFI_SUCCESS, q\<lparr>InterleaveSetCookie_1_1 := c11\<rparr>, [])"
proof (rule ISetCookie_order_independent)
  have spa: "SpaRangeIndex ex_spa = 1" by (simp add: SpaRangeIndex_def ex_spa_def)
  have fit: "pFitHead ex_pm = ex_fit" "ppControlRegionTbles ex_fit = [ex_control 1 0xA1, ex_control 2 0xB2]"
    by (simp_all add: ex_pm_def ex_fit_def)
  have dimm: "DimmID (dimm_at ex_pm 0) = 1" "DimmID (dimm_at ex_pm (Suc 0)) = 2"
    by (simp_all add: ex_pm_def ex_pmem_def ex_pm_dimm_def)
  have regs: "DimmRegionList ex_set = DimmRegionList ex_is" by (simp add: ex_set_def)
  have entry: "map_option RegionSpaOffset (cookie_entry ex_pm ex_spa reg) = Some (SpaRegionOffset reg)"
    if "reg \<in> set (DimmRegionList ex_is)" for reg
    using that by (auto simp: ex_is_def cookie_entry_def spa fit dimm ex_pm_regions ex_pm_controls)
  then have off: "(RegionSpaOffset \<circ> the \<circ> cookie_entry ex_pm ex_spa) reg = SpaRegionOffset reg"
    if "reg \<in> set (DimmRegionList ex_is)" for reg using that by fastforce
  show "nfit_small (pFitHead ex_pm)" using ex_pm_ok by (simp add: fit_ok_def)
  show "pSpaTbl ex_set = Some ex_spa" by (simp add: ex_set_def)
  show "length (DimmRegionList ex_set) \<le> 64" by (simp add: regs ex_is_def)
  show "mset (rev (DimmRegionList ex_set)) = mset (DimmRegionList ex_set)" by simp
  have "\<forall>reg\<in>set (DimmRegionList ex_is). dimm_id_ok (DimmID (dimm_at ex_pm (RegionDimm reg)))"
    by (simp add: ex_is_def dimm dimm_id_ok_def DIMM_PID_ALL_def DIMM_PID_INVALID_def)
  then show "\<forall>reg\<in>set (DimmRegionList ex_set).
      dimm_id_ok (DimmID (dimm_at ex_pm (RegionDimm reg))) \<and> cookie_entry ex_pm ex_spa reg \<noteq> None"
    unfolding regs using entry by (metis option.simps(8) option.distinct(1))
  have "inj_on SpaRegionOffset (set (DimmRegionList ex_is))" by (simp add: ex_is_def)
  then show "inj_on (RegionSpaOffset \<circ> the \<circ> cookie_entry ex_pm ex_spa) (set (DimmRegionList ex_set))"
    unfolding regs by (rule iffD2 [OF inj_on_cong [OF off], rotated]) assumption
qed

end
