(* ===== verification/Interleave.thy ===== *)
theory Interleave
  imports Bubble_Sort
begin

text \<open>
  Choosing interleave sets for the DIMMs of a socket (\<open>DcpmPkg/driver/Utils/Interleave.c\<close>,
  \<open>ProcessorAndTopologyInfo.c\<close>, \<open>RetrieveInterleaveSetMap\<close> of \<open>AcpiParsing.c\<close>, \<open>CreateRegionGoal\<close> of
  \<open>driver/Core/Region.c\<close>), and the order of the DIMMs inside a set (\<open>PlatformConfigData.c\<close>). An interleave map
  is a bit mask of DIMM locations; the list of maps is ordered by preference.
\<close>

section \<open>Model\<close>

text \<open>A DIMM with its position; the handle stands for the identity of the pointer.\<close>

record topo_dimm =
  DimmHandle :: nat
  ImcId :: u16
  ChannelId :: u16

record region_goal =
  SequenceIndex :: u32
  GoalSize :: u64
  InterleaveSetType :: u8
  ImcInterleaving :: u8
  ChannelInterleaving :: u8
  NumOfChannelWays :: u16
  InterleaveSetIndex :: u16
  GoalDimms :: "topo_dimm list"

record driver_preferences =
  PrefImcInterleaving :: u8
  PrefChannelInterleaving :: u8

text \<open>
  What the parsed PCAT says about interleaving: the revision byte of the header, the number of
  capability tables, and the formats of the first one.
\<close>

record pcat_interleave =
  PcatRevision :: u8
  MemoryInterleaveCapabilityInfoNum :: nat
  InterleaveFormatList :: "u32 list"

definition IMCS_PER_CPU_2_3 :: nat where "IMCS_PER_CPU_2_3 = 2"
definition CHANNELS_PER_IMC_2_3 :: nat where "CHANNELS_PER_IMC_2_3 = 3"

definition INTERLEAVE_SETS_2_3 :: "u32 list" where
  "INTERLEAVE_SETS_2_3 =
     [0x3F,
      0x1B, 0x2D, 0x36,
      0x07, 0x38,
      0x09, 0x12, 0x24,
      0x03, 0x05, 0x06, 0x18, 0x28, 0x30,
      0x01, 0x02, 0x04, 0x08, 0x10, 0x20,
      0]"

definition INTERLEAVE_SETS_2_3_x1 :: "u32 list" where
  "INTERLEAVE_SETS_2_3_x1 = [0x01, 0x02, 0x04, 0x08, 0x10, 0x20, 0]"

definition RetrieveInterleaveSetMap :: "pcat_interleave option \<Rightarrow> pool \<Rightarrow> efi_status \<times> u32 list \<times> pool" where
  "RetrieveInterleaveSetMap pcat p =
     (case pcat of
        None \<Rightarrow> (EFI_NOT_FOUND, [], p)
      | Some t \<Rightarrow>
          if MemoryInterleaveCapabilityInfoNum t \<noteq> 1 then (EFI_NOT_FOUND, [], p)
          else if PcatRevision t \<noteq> 0x11 \<and> PcatRevision t \<noteq> 0x12 then (EFI_NOT_FOUND, [], p)
          else
            let (ok, p) = take_pool p
            in if \<not> ok then (EFI_OUT_OF_RESOURCES, [], p)
               else (EFI_SUCCESS, map (take_bit 16) (InterleaveFormatList t), p))"

definition GetTopologyAndInterleaveSetMapInfoBasedOnProcessorType ::
  "pcat_interleave option \<Rightarrow> pool \<Rightarrow> efi_status \<times> u32 list \<times> pool" where
  "GetTopologyAndInterleaveSetMapInfoBasedOnProcessorType pcat p =
     (let (rc, maps, p) = RetrieveInterleaveSetMap pcat p
      in if rc = EFI_NOT_FOUND then
           let (ok, p) = take_pool p
           in if \<not> ok then (EFI_OUT_OF_RESOURCES, [], p) else (EFI_SUCCESS, INTERLEAVE_SETS_2_3, p)
         else if EFI_ERROR rc then (rc, [], p)
         else
           let (ok, p) = take_pool p
           in if \<not> ok then (EFI_OUT_OF_RESOURCES, [], p) else (EFI_SUCCESS, maps @ INTERLEAVE_SETS_2_3_x1, p))"

definition DIMM_LOCATION :: "topo_dimm \<Rightarrow> nat" where
  "DIMM_LOCATION d =
     CHANNELS_PER_IMC_2_3 * (unat (ImcId d) mod IMCS_PER_CPU_2_3) + unat (ChannelId d)"

text \<open>One step of the matching loop: the DIMMs found so far and the flags not yet found.\<close>

definition match_step :: "u32 \<Rightarrow> topo_dimm \<Rightarrow> topo_dimm list \<times> u32 \<Rightarrow> topo_dimm list \<times> u32" where
  "match_step InterleaveMap d st =
     (if bit InterleaveMap (DIMM_LOCATION d) then (fst st @ [d], unset_bit (DIMM_LOCATION d) (snd st)) else st)"

definition GetDimmsFromListMatchingInterleaveSet :: "topo_dimm list \<Rightarrow> u32 \<Rightarrow> topo_dimm list" where
  "GetDimmsFromListMatchingInterleaveSet pDimms InterleaveMap =
     (let (found, DimmsNotFound) = fold (match_step InterleaveMap) pDimms ([], InterleaveMap)
      in if DimmsNotFound \<noteq> 0 then [] else found)"

text \<open>The search through the maps up to the end marker, or to a zero map that BIOS reports.\<close>

fun FindMapLoop :: "topo_dimm list \<Rightarrow> u32 list \<Rightarrow> topo_dimm list" where
  "FindMapLoop pDimms [] = []"
| "FindMapLoop pDimms (m # ms) =
     (if m = 0 then []
      else
        let used = GetDimmsFromListMatchingInterleaveSet pDimms m
        in if used \<noteq> [] then used else FindMapLoop pDimms ms)"

definition FindBestInterleavingForDimms ::
  "pcat_interleave option \<Rightarrow> topo_dimm list \<Rightarrow> pool \<Rightarrow> efi_status \<times> topo_dimm list \<times> pool" where
  "FindBestInterleavingForDimms pcat pDimms p =
     (let (rc, maps, p) = GetTopologyAndInterleaveSetMapInfoBasedOnProcessorType pcat p
      in if EFI_ERROR rc then (rc, [], p)
         else
           let used = FindMapLoop pDimms maps
           in (if used = [] then EFI_ABORTED else EFI_SUCCESS, used, p))"

definition RemoveDimmFromList :: "topo_dimm \<Rightarrow> topo_dimm list \<Rightarrow> topo_dimm list" where
  "RemoveDimmFromList pDimm pDimmsList = remove1 pDimm pDimmsList"

definition RemoveDimmArrayFromList :: "topo_dimm list \<Rightarrow> topo_dimm list \<Rightarrow> topo_dimm list" where
  "RemoveDimmArrayFromList pDimmsList pDimmsArray = fold RemoveDimmFromList pDimmsArray pDimmsList"

definition channel_ways :: "nat \<Rightarrow> u16" where
  "channel_ways n =
     (if n = 1 then 0x001 else if n = 2 then 0x002 else if n = 3 then 0x004 else if n = 4 then 0x008
      else if n = 6 then 0x010 else if n = 8 then 0x020 else if n = 12 then 0x040
      else if n = 16 then 0x080 else if n = 24 then 0x100 else 0)"

text \<open>\<open>CreateRegionGoal\<close>; the template contributes the type of the interleave set, of which 2 is non-interleaved.\<close>

definition CreateRegionGoal ::
  "u8 \<Rightarrow> topo_dimm list \<Rightarrow> u64 \<Rightarrow> driver_preferences option \<Rightarrow> u16 \<Rightarrow> u16 \<Rightarrow> pool
     \<Rightarrow> region_goal option \<times> u16 \<times> pool" where
  "CreateRegionGoal SetType pDimms Size prefs Seq SetIndex p =
     (let (ok, p) = take_pool p
      in if \<not> ok then (None, SetIndex, p)
         else
           let (imc, ch) = (if SetType = 2 then (0, 0)
                 else case prefs of None \<Rightarrow> (0, 0)
                      | Some pr \<Rightarrow> (PrefImcInterleaving pr, PrefChannelInterleaving pr))
           in (Some \<lparr>SequenceIndex = ucast Seq, GoalSize = Size, InterleaveSetType = SetType,
                  ImcInterleaving = imc, ChannelInterleaving = ch,
                  NumOfChannelWays = channel_ways (length pDimms), InterleaveSetIndex = SetIndex,
                  GoalDimms = pDimms\<rparr>, SetIndex + 1, p))"

section \<open>Matching a map\<close>

lemma match_fold:
  "fold (match_step m) ds (acc, r) =
     (acc @ filter (\<lambda>d. bit m (DIMM_LOCATION d)) ds,
      fold (\<lambda>d r. if bit m (DIMM_LOCATION d) then unset_bit (DIMM_LOCATION d) r else r) ds r)"
  by (induction ds arbitrary: acc r) (simp_all add: match_step_def)

lemma bit_unset_fold:
  "bit (fold (\<lambda>d r. if bit m (DIMM_LOCATION d) then unset_bit (DIMM_LOCATION d) r else r) ds r) i \<longleftrightarrow>
     bit r i \<and> \<not> (bit m i \<and> i \<in> DIMM_LOCATION ` set ds)" for r :: u32
  by (induction ds arbitrary: r) (auto simp: bit_unset_bit_iff)

text \<open>The DIMMs at the locations of the map, provided that every location is populated.\<close>

lemma match_eq:
  "GetDimmsFromListMatchingInterleaveSet ds m =
     (if \<forall>i. bit m i \<longrightarrow> i \<in> DIMM_LOCATION ` set ds
      then filter (\<lambda>d. bit m (DIMM_LOCATION d)) ds else [])"
proof -
  have "fold (\<lambda>d r. if bit m (DIMM_LOCATION d) then unset_bit (DIMM_LOCATION d) r else r) ds m = 0
      \<longleftrightarrow> (\<forall>i. bit m i \<longrightarrow> i \<in> DIMM_LOCATION ` set ds)"
    using bit_imp_le_length [of m] by (auto simp: bit_eq_iff bit_unset_fold)
  then show ?thesis by (auto simp: GetDimmsFromListMatchingInterleaveSet_def match_fold)
qed

lemma FindMapLoop_found:
  "FindMapLoop ds ms = used \<Longrightarrow> used \<noteq> [] \<Longrightarrow>
     \<exists>m\<in>set ms. m \<noteq> 0 \<and> used = filter (\<lambda>d. bit m (DIMM_LOCATION d)) ds \<and> {i. bit m i} = DIMM_LOCATION ` set used"
proof (induction ds ms rule: FindMapLoop.induct)
  case (2 ds m ms)
  show ?case
  proof (cases "m \<noteq> 0 \<and> GetDimmsFromListMatchingInterleaveSet ds m \<noteq> []")
    case True
    then have "used = GetDimmsFromListMatchingInterleaveSet ds m" using 2 by (auto simp: Let_def)
    then show ?thesis using True by (intro bexI [of _ m]) (auto simp: match_eq split: if_splits)
  next
    case False
    then show ?thesis using 2 by (auto simp: Let_def split: if_splits)
  qed
qed simp

lemma FindBest_subset:
  assumes "FindBestInterleavingForDimms pcat ds p = (EFI_SUCCESS, used, p')"
  shows "used \<noteq> [] \<and> (\<exists>P. used = filter P ds)"
  using assms FindMapLoop_found [OF refl]
  by (fastforce simp: FindBestInterleavingForDimms_def Let_def split: prod.splits if_splits)

lemma remove_filter: "RemoveDimmArrayFromList ds (filter P ds) = filter (\<lambda>d. \<not> P d) ds"
proof (induction ds)
  case (Cons d ds)
  have skip: "fold remove1 ys (d # zs) = d # fold remove1 ys zs" if "d \<notin> set ys" for ys zs
    using that by (induction ys arbitrary: zs) auto
  show ?case using Cons
    by (cases "P d") (simp_all add: RemoveDimmArrayFromList_def RemoveDimmFromList_def [abs_def] skip)
qed (simp add: RemoveDimmArrayFromList_def)

lemma FindBest_shrinks:
  assumes "FindBestInterleavingForDimms pcat ds p = (EFI_SUCCESS, used, p')"
  shows "length (RemoveDimmArrayFromList ds used) < length ds"
proof -
  obtain P where P: "used = filter P ds" "used \<noteq> []" using FindBest_subset [OF assms] by blast
  then have "length (filter P ds) + length (filter (\<lambda>d. \<not> P d) ds) = length ds"
    by (simp add: sum_length_filter_compl)
  moreover have "0 < length (filter P ds)" using P by simp
  ultimately have "length (filter (\<lambda>d. \<not> P d) ds) < length ds" by linarith
  then show ?thesis using P remove_filter [of ds P] by simp
qed

section \<open>Creating the goals\<close>

text \<open>
  The loop of \<open>PerformInterleavingAndCreateGoal\<close>: remaining DIMMs, number of DIMMs used, goals so far. It
  ends because every set that is found takes at least one DIMM.
\<close>

function GoalLoop ::
  "pcat_interleave option \<Rightarrow> u8 \<Rightarrow> driver_preferences option \<Rightarrow> u16 \<Rightarrow> u64 \<Rightarrow> nat \<Rightarrow> topo_dimm list \<Rightarrow> nat
     \<Rightarrow> region_goal list \<Rightarrow> u16 \<Rightarrow> pool \<Rightarrow> efi_status \<times> region_goal list \<times> u16 \<times> pool" where
  "GoalLoop pcat SetType prefs Seq Size DimmsNum ds UsedNum goals SetIndex p =
     (if ds = [] then (EFI_SUCCESS, goals, SetIndex, p)
      else
        (case FindBestInterleavingForDimms pcat ds p of (rc, used, p) \<Rightarrow>
           if rc \<noteq> EFI_SUCCESS then (rc, goals, SetIndex, p)
           else if DimmsNum < UsedNum + length used then (EFI_BAD_BUFFER_SIZE, goals, SetIndex, p)
           else
             (case CreateRegionGoal SetType used (Size * of_nat (length used) div of_nat DimmsNum) prefs Seq SetIndex p of
                (None, SetIndex, p) \<Rightarrow> (EFI_OUT_OF_RESOURCES, goals, SetIndex, p)
              | (Some g, SetIndex, p) \<Rightarrow>
                  GoalLoop pcat SetType prefs Seq Size DimmsNum (RemoveDimmArrayFromList ds used)
                    (UsedNum + length used) (goals @ [g]) SetIndex p)))"
  by pat_completeness auto
termination
  by (relation "measure (\<lambda>(_, _, _, _, _, _, ds, _). length ds)") (auto intro: FindBest_shrinks [OF sym])

declare GoalLoop.simps [simp del]

definition PerformInterleavingAndCreateGoal ::
  "pcat_interleave option \<Rightarrow> u8 \<Rightarrow> topo_dimm list \<Rightarrow> u64 \<Rightarrow> driver_preferences option \<Rightarrow> u16
     \<Rightarrow> region_goal list \<Rightarrow> u16 \<Rightarrow> pool \<Rightarrow> efi_status \<times> region_goal list \<times> u16 \<times> pool" where
  "PerformInterleavingAndCreateGoal pcat SetType pDimms InterleaveSetSize prefs Seq goals SetIndex p =
     (if InterleaveSetSize = 0 then (EFI_SUCCESS, goals, SetIndex, p)
      else GoalLoop pcat SetType prefs Seq InterleaveSetSize (length pDimms) pDimms 0 goals SetIndex p)"

text \<open>
  The order of the DIMMs of a goal in the platform configuration data: by channel and controller, and
  for six ways alternating between the controllers.
\<close>

definition CompareDimmOrderInInterleaveSet :: "topo_dimm \<Rightarrow> topo_dimm \<Rightarrow> int" where
  "CompareDimmOrderInInterleaveSet a b =
     (if ChannelId a < ChannelId b then -1
      else if ChannelId b < ChannelId a then 1
      else if ImcId a < ImcId b then -1
      else if ImcId b < ImcId a then 1
      else 0)"

definition CompareDimmOrderInInterleaveSet6Way :: "topo_dimm \<Rightarrow> topo_dimm \<Rightarrow> int" where
  "CompareDimmOrderInInterleaveSet6Way a b =
     (let pa = (unat (ChannelId a) + unat (ImcId a)) mod 2; pb = (unat (ChannelId b) + unat (ImcId b)) mod 2
      in if pa < pb then -1
         else if pb < pa then 1
         else if ChannelId a < ChannelId b then -1
         else if ChannelId b < ChannelId a then 1
         else 0)"

section \<open>Correctness\<close>

text \<open>The maps that are tried, and when they can be searched to their end.\<close>

definition interleave_maps :: "pcat_interleave option \<Rightarrow> u32 list" where
  "interleave_maps pcat = fst (snd (GetTopologyAndInterleaveSetMapInfoBasedOnProcessorType pcat []))"

definition pcat_ok :: "pcat_interleave option \<Rightarrow> bool" where
  "pcat_ok pcat \<longleftrightarrow> (case pcat of None \<Rightarrow> True
     | Some t \<Rightarrow> list_all (\<lambda>f. take_bit 16 f \<noteq> 0) (InterleaveFormatList t))"

lemma topology_maps:
  "GetTopologyAndInterleaveSetMapInfoBasedOnProcessorType pcat [] = (EFI_SUCCESS, interleave_maps pcat, [])"
  by (auto simp: GetTopologyAndInterleaveSetMapInfoBasedOnProcessorType_def interleave_maps_def
      RetrieveInterleaveSetMap_def Let_def split: option.splits)

lemma maps_x1:
  assumes "pcat_ok pcat"
  shows "\<exists>ms. interleave_maps pcat = ms @ INTERLEAVE_SETS_2_3_x1 \<and> 0 \<notin> set ms"
proof -
  have "INTERLEAVE_SETS_2_3 = take 15 INTERLEAVE_SETS_2_3 @ INTERLEAVE_SETS_2_3_x1"
    "0 \<notin> set (take 15 INTERLEAVE_SETS_2_3)"
    by (simp_all add: INTERLEAVE_SETS_2_3_def INTERLEAVE_SETS_2_3_x1_def)
  then show ?thesis using assms
    by (fastforce simp: interleave_maps_def GetTopologyAndInterleaveSetMapInfoBasedOnProcessorType_def
        RetrieveInterleaveSetMap_def pcat_ok_def list_all_iff Let_def split: option.splits)
qed

lemma FindMapLoop_append:
  "0 \<notin> set ms \<Longrightarrow> FindMapLoop ds (ms @ ns) = (if FindMapLoop ds ms \<noteq> [] then FindMapLoop ds ms else FindMapLoop ds ns)"
  by (induction ms) (auto simp: Let_def)

lemma match_single:
  "DIMM_LOCATION ` set ds \<inter> {k} \<noteq> {} \<Longrightarrow> k < 32 \<Longrightarrow>
     GetDimmsFromListMatchingInterleaveSet ds (2 ^ k) \<noteq> []"
  by (auto simp: match_eq bit_exp_iff filter_empty_conv)

lemma FindMapLoop_x1:
  assumes "d \<in> set ds" "DIMM_LOCATION d < 6"
  shows "FindMapLoop ds INTERLEAVE_SETS_2_3_x1 \<noteq> []"
proof -
  have m: "GetDimmsFromListMatchingInterleaveSet ds (2 ^ DIMM_LOCATION d) \<noteq> []"
    by (rule match_single) (use assms in auto)
  have "DIMM_LOCATION d \<in> {0, 1, 2, 3, 4, 5}" using assms(2) by auto
  then show ?thesis using m by (auto simp: INTERLEAVE_SETS_2_3_x1_def Let_def)
qed

lemma FindBest_succeeds:
  assumes "pcat_ok pcat" "ds \<noteq> []" "\<forall>d\<in>set ds. DIMM_LOCATION d < 6"
  shows "\<exists>m\<in>set (interleave_maps pcat). \<exists>used. FindBestInterleavingForDimms pcat ds [] = (EFI_SUCCESS, used, [])
    \<and> used = filter (\<lambda>d. bit m (DIMM_LOCATION d)) ds \<and> used \<noteq> [] \<and> {i. bit m i} = DIMM_LOCATION ` set used"
proof -
  obtain ms where ms: "interleave_maps pcat = ms @ INTERLEAVE_SETS_2_3_x1" "0 \<notin> set ms"
    using maps_x1 [OF assms(1)] by blast
  have "FindMapLoop ds INTERLEAVE_SETS_2_3_x1 \<noteq> []"
    using FindMapLoop_x1 [of "hd ds" ds] assms(2,3) by simp
  then have ne: "FindMapLoop ds (interleave_maps pcat) \<noteq> []" by (simp add: ms FindMapLoop_append)
  then show ?thesis using FindMapLoop_found [OF refl ne]
    by (auto simp: FindBestInterleavingForDimms_def topology_maps)
qed

definition goal_ok :: "pcat_interleave option \<Rightarrow> u64 \<Rightarrow> nat \<Rightarrow> region_goal \<Rightarrow> bool" where
  "goal_ok pcat Size DimmsNum g \<longleftrightarrow>
     (\<exists>m\<in>set (interleave_maps pcat). {i. bit m i} = DIMM_LOCATION ` set (GoalDimms g))
   \<and> GoalDimms g \<noteq> [] \<and> NumOfChannelWays g = channel_ways (length (GoalDimms g))
   \<and> GoalSize g = Size * of_nat (length (GoalDimms g)) div of_nat DimmsNum"

lemma CreateRegionGoal_some:
  "\<exists>g. CreateRegionGoal SetType used Size prefs Seq SetIndex [] = (Some g, SetIndex + 1, [])
     \<and> GoalDimms g = used \<and> InterleaveSetIndex g = SetIndex \<and> GoalSize g = Size
     \<and> NumOfChannelWays g = channel_ways (length used)"
  by (simp add: CreateRegionGoal_def split_beta)

lemma GoalLoop_correct:
  assumes "pcat_ok pcat" "\<forall>d\<in>set ds. DIMM_LOCATION d < 6" "UsedNum + length ds \<le> DimmsNum"
  shows "\<exists>new. GoalLoop pcat SetType prefs Seq Size DimmsNum ds UsedNum goals SetIndex [] =
        (EFI_SUCCESS, goals @ new, SetIndex + of_nat (length new), [])
      \<and> mset (concat (map GoalDimms new)) = mset ds \<and> (\<forall>g\<in>set new. goal_ok pcat Size DimmsNum g)
      \<and> (\<forall>i<length new. InterleaveSetIndex (new ! i) = SetIndex + of_nat i)"
  using assms(2,3)
proof (induction "length ds" arbitrary: ds UsedNum goals SetIndex rule: less_induct)
  case less
  show ?case
  proof (cases "ds = []")
    case True
    then show ?thesis by (subst GoalLoop.simps) simp
  next
    case False
    obtain m used where u: "m \<in> set (interleave_maps pcat)"
      "FindBestInterleavingForDimms pcat ds [] = (EFI_SUCCESS, used, [])"
      "used = filter (\<lambda>d. bit m (DIMM_LOCATION d)) ds" "used \<noteq> []" "{i. bit m i} = DIMM_LOCATION ` set used"
      using FindBest_succeeds [OF assms(1) False less.prems(1)] by blast
    define rest where "rest = RemoveDimmArrayFromList ds used"
    have rest: "rest = filter (\<lambda>d. \<not> bit m (DIMM_LOCATION d)) ds" by (simp add: rest_def u(3) remove_filter)
    have len: "length used + length rest = length ds" "mset used + mset rest = mset ds"
      unfolding u(3) rest by (simp_all add: sum_length_filter_compl flip: multiset_partition)
    have lt: "length rest < length ds" using len(1) u(4) by (cases used) auto
    obtain g where g: "CreateRegionGoal SetType used (Size * of_nat (length used) div of_nat DimmsNum) prefs Seq SetIndex []
        = (Some g, SetIndex + 1, [])" "goal_ok pcat Size DimmsNum g" "GoalDimms g = used"
        "InterleaveSetIndex g = SetIndex"
      using CreateRegionGoal_some [of SetType used _ prefs Seq SetIndex] u(1,4,5) unfolding goal_ok_def by metis
    have "\<forall>d\<in>set rest. DIMM_LOCATION d < 6" "UsedNum + length used + length rest \<le> DimmsNum"
      using less.prems rest len by auto
    then obtain new where new: "GoalLoop pcat SetType prefs Seq Size DimmsNum rest (UsedNum + length used) (goals @ [g]) (SetIndex + 1) [] =
        (EFI_SUCCESS, (goals @ [g]) @ new, SetIndex + 1 + of_nat (length new), [])"
      "mset (concat (map GoalDimms new)) = mset rest" "\<forall>g\<in>set new. goal_ok pcat Size DimmsNum g"
      "\<forall>i<length new. InterleaveSetIndex (new ! i) = SetIndex + 1 + of_nat i"
      using less.hyps [OF lt] by blast
    have "\<forall>i<length (g # new). InterleaveSetIndex ((g # new) ! i) = SetIndex + of_nat i"
      using new(4) g(4) by (auto simp: nth_Cons less_Suc_eq_0_disj split: nat.splits)
    moreover have "GoalLoop pcat SetType prefs Seq Size DimmsNum ds UsedNum goals SetIndex [] =
        (EFI_SUCCESS, goals @ g # new, SetIndex + of_nat (length (g # new)), [])"
      using False u(2) g(1) new(1) len less.prems(2)
      by (subst GoalLoop.simps) (simp add: rest_def [symmetric] add.assoc)
    ultimately show ?thesis
      using new g len by (intro exI [of _ "g # new"]) auto
  qed
qed

text \<open>
  C10: for a socket whose DIMMs have distinct locations on its two controllers and three channels,
  \<open>PerformInterleavingAndCreateGoal\<close> returns with success and goals that partition the DIMMs: every DIMM is in
  exactly one new goal, the DIMMs of a goal sit exactly at the locations of one of the supported
  interleave maps (so their number is the number of its bits, and the channel ways agree), the size of a
  goal is its share of the total, and the set indices are consecutive. The loop ends because single
  DIMMs are always a supported map; a zero map in the list that BIOS reports is excluded, since it would
  end the search early.
\<close>

theorem interleaving_partitions_dimms:
  assumes "pcat_ok pcat" "\<forall>d\<in>set ds. DIMM_LOCATION d < 6" "distinct (map DIMM_LOCATION ds)" "Size \<noteq> 0"
  shows "\<exists>new. PerformInterleavingAndCreateGoal pcat SetType ds Size prefs Seq goals SetIndex [] =
        (EFI_SUCCESS, goals @ new, SetIndex + of_nat (length new), [])
      \<and> mset (concat (map GoalDimms new)) = mset ds
      \<and> (\<forall>g\<in>set new. \<exists>m\<in>set (interleave_maps pcat).
          {i. bit m i} = DIMM_LOCATION ` set (GoalDimms g) \<and> length (GoalDimms g) = card {i. bit m i}
        \<and> NumOfChannelWays g = channel_ways (length (GoalDimms g))
        \<and> GoalSize g = Size * of_nat (length (GoalDimms g)) div of_nat (length ds))
      \<and> (\<forall>i<length new. InterleaveSetIndex (new ! i) = SetIndex + of_nat i)"
proof -
  obtain new where new: "GoalLoop pcat SetType prefs Seq Size (length ds) ds 0 goals SetIndex [] =
        (EFI_SUCCESS, goals @ new, SetIndex + of_nat (length new), [])"
      "mset (concat (map GoalDimms new)) = mset ds" "\<forall>g\<in>set new. goal_ok pcat Size (length ds) g"
      "\<forall>i<length new. InterleaveSetIndex (new ! i) = SetIndex + of_nat i"
    using GoalLoop_correct [OF assms(1,2), of 0 "length ds" SetType prefs Seq Size goals SetIndex] by auto
  have "mset (map DIMM_LOCATION (concat (map GoalDimms new))) = mset (map DIMM_LOCATION ds)"
    using new(2) by (metis mset_map)
  then have "distinct (map DIMM_LOCATION (concat (map GoalDimms new)))"
    using assms(3) by (metis mset_eq_imp_distinct_iff)
  then have "distinct (concat (map (map DIMM_LOCATION \<circ> GoalDimms) new))" by (simp add: map_concat o_def)
  then have "distinct (map DIMM_LOCATION (GoalDimms g))" if "g \<in> set new" for g
    using that by (induction new) auto
  then have "card (DIMM_LOCATION ` set (GoalDimms g)) = length (GoalDimms g)" if "g \<in> set new" for g
    using that by (metis distinct_card length_map set_map)
  then show ?thesis using new assms(4) by (fastforce simp: PerformInterleavingAndCreateGoal_def goal_ok_def)
qed

definition ex_topo :: "nat \<Rightarrow> u16 \<Rightarrow> u16 \<Rightarrow> topo_dimm" where
  "ex_topo h imc ch = \<lparr>DimmHandle = h, ImcId = imc, ChannelId = ch\<rparr>"

theorem interleaving_partitions_dimms_witness:
  "\<exists>new. PerformInterleavingAndCreateGoal None 1 [ex_topo 0 0 0, ex_topo 1 0 1, ex_topo 2 1 2] 0x300 None 0 [] 1 [] =
        (EFI_SUCCESS, new, 1 + of_nat (length new), [])
      \<and> mset (concat (map GoalDimms new)) = {#ex_topo 0 0 0, ex_topo 1 0 1, ex_topo 2 1 2#}"
proof -
  have loc: "DIMM_LOCATION (ex_topo h imc ch) = 3 * (unat imc mod 2) + unat ch" for h imc ch
    by (simp add: DIMM_LOCATION_def ex_topo_def IMCS_PER_CPU_2_3_def CHANNELS_PER_IMC_2_3_def)
  show ?thesis
    using interleaving_partitions_dimms [of None "[ex_topo 0 0 0, ex_topo 1 0 1, ex_topo 2 1 2]" "0x300" 1 None 0 "[]" 1]
    by (auto simp: pcat_ok_def loc)
qed

text \<open>Both orders are comparisons by a key, so that sorting a goal is well defined.\<close>

interpretation by_channel: comparator CompareDimmOrderInInterleaveSet
    "\<lambda>d. 65536 * unat (ChannelId d) + unat (ImcId d)"
proof
  fix a b :: topo_dimm
  have "unat (ImcId a) < 65536" "unat (ImcId b) < 65536" using unat_bound [of "ImcId a"] unat_bound [of "ImcId b"] by simp_all
  then show "0 < CompareDimmOrderInInterleaveSet a b \<longleftrightarrow>
      65536 * unat (ChannelId b) + unat (ImcId b) < 65536 * unat (ChannelId a) + unat (ImcId a)"
    by (auto simp: CompareDimmOrderInInterleaveSet_def word_less_nat_alt)
qed

interpretation by_parity: comparator CompareDimmOrderInInterleaveSet6Way
    "\<lambda>d. 65536 * ((unat (ChannelId d) + unat (ImcId d)) mod 2) + unat (ChannelId d)"
proof
  fix a b :: topo_dimm
  have "unat (ChannelId a) < 65536" "unat (ChannelId b) < 65536"
    using unat_bound [of "ChannelId a"] unat_bound [of "ChannelId b"] by simp_all
  then show "0 < CompareDimmOrderInInterleaveSet6Way a b \<longleftrightarrow>
      65536 * ((unat (ChannelId b) + unat (ImcId b)) mod 2) + unat (ChannelId b)
      < 65536 * ((unat (ChannelId a) + unat (ImcId a)) mod 2) + unat (ChannelId a)"
    by (auto simp: CompareDimmOrderInInterleaveSet6Way_def Let_def word_less_nat_alt)
qed

text \<open>The documented order of a six-way set, given as (channel, controller), from any order of its DIMMs.\<close>

lemma six_way_order:
  assumes "mset ds = mset [ex_topo 0 0 0, ex_topo 1 0 1, ex_topo 2 0 2, ex_topo 3 1 0, ex_topo 4 1 1, ex_topo 5 1 2]"
  shows "BubbleSort CompareDimmOrderInInterleaveSet6Way ds [] =
    Some (EFI_SUCCESS, [ex_topo 0 0 0, ex_topo 4 1 1, ex_topo 2 0 2, ex_topo 3 1 0, ex_topo 1 0 1, ex_topo 5 1 2], [])"
proof -
  let ?k = "\<lambda>d. 65536 * ((unat (ChannelId d) + unat (ImcId d)) mod 2) + unat (ChannelId d)"
  have set: "set ds = {ex_topo 0 0 0, ex_topo 1 0 1, ex_topo 2 0 2, ex_topo 3 1 0, ex_topo 4 1 1, ex_topo 5 1 2}"
    using mset_eq_setD [OF assms] by simp
  have "sort_key ?k ds = [ex_topo 0 0 0, ex_topo 4 1 1, ex_topo 2 0 2, ex_topo 3 1 0, ex_topo 1 0 1, ex_topo 5 1 2]"
    by (rule sort_key_inj_key_eq) (simp_all add: assms set ex_topo_def)
  then show ?thesis by (simp add: by_parity.BubbleSort_sorts)
qed

end
