(* ===== verification/Namespace_Labels.thy ===== *)
theory Namespace_Labels
  imports Label_Table Provisioning
begin

text \<open>
  The labels of a namespace over all DIMMs of its interleave set: creating and deleting the set of
  labels (\<open>CreateNamespace\<close> and \<open>DeleteNamespace\<close> of \<open>DcpmPkg/driver/Protocol/Driver/NvmDimmConfig.c\<close>,
  \<open>CreateNamespaceLabels\<close> of \<open>DcpmPkg/driver/Core/Namespace.c\<close>) and finding the namespaces again from the
  labels when the driver starts (\<open>InitializeNamespaces\<close>, \<open>RetrieveNamespacesFromLsa\<close>,
  \<open>FindAndAssignISForNamespace\<close>). A DIMM is its number in a list; the same number addresses its
  capacities in \<open>pmem_dev\<close> and its label storage area here.
\<close>

section \<open>State\<close>

definition guid :: "u32 \<Rightarrow> u16 \<Rightarrow> u16 \<Rightarrow> u8 list \<Rightarrow> u8 list" where
  "guid a b c d = le32 a @ le16 b @ le16 c @ d"

definition gSpaRangeVolatileRegionGuid :: "u8 list" where
  "gSpaRangeVolatileRegionGuid = guid 0x7305944F 0xFDDA 0x44E3 [0xB1, 0x6C, 0x3F, 0x22, 0xD2, 0x52, 0xE5, 0xD0]"
definition gSpaRangePmRegionGuid :: "u8 list" where
  "gSpaRangePmRegionGuid = guid 0x66F0D379 0xB4F3 0x4074 [0xAC, 0x43, 0x0D, 0x33, 0x18, 0xB7, 0x8C, 0xDB]"
definition gSpaRangeRawVolatileRegionGuid :: "u8 list" where
  "gSpaRangeRawVolatileRegionGuid = guid 0x77AB535A 0x45FC 0x624B [0x55, 0x60, 0xF7, 0xB2, 0x81, 0xD1, 0xF9, 0x6E]"
definition gSpaRangeIsoVolatileRegionGuid :: "u8 list" where
  "gSpaRangeIsoVolatileRegionGuid = guid 0x3D5ABD30 0x4175 0x87CE [0x6D, 0x64, 0xD2, 0xAD, 0xE5, 0x23, 0xC4, 0xBB]"
definition gSpaRangeRawPmRegionGuid :: "u8 list" where
  "gSpaRangeRawPmRegionGuid = guid 0x5CEA02C9 0x4D07 0x69D3 [0x26, 0x9F, 0x44, 0x96, 0xFB, 0xE0, 0x96, 0xF9]"
definition gSpaRangeIsoPmRegionGuid :: "u8 list" where
  "gSpaRangeIsoPmRegionGuid = guid 0x08018188 0x42CD 0xBB48 [0x10, 0x0F, 0x53, 0x87, 0xD5, 0x3D, 0xED, 0x3D]"
definition gAppDirectPmTypeGuid :: "u8 list" where
  "gAppDirectPmTypeGuid = guid 0x66F0D379 0xB4F3 0x4074 [0xAC, 0x43, 0x0D, 0x33, 0x18, 0xB7, 0x8C, 0xDB]"
definition gBttAbstractionGuid :: "u8 list" where
  "gBttAbstractionGuid = guid 0x18633BFC 0x1735 0x4217 [0x8A, 0xC9, 0x17, 0x23, 0x92, 0x82, 0xD3, 0xF8]"
definition gPfnAbstractionGuid :: "u8 list" where
  "gPfnAbstractionGuid = guid 0x266400BA 0xFB9F 0x4677 [0xBC, 0xB0, 0x96, 0x8F, 0x11, 0xD0, 0xD2, 0x25]"

datatype health_state = NAMESPACE_HEALTH_UNKNOWN | NAMESPACE_HEALTH_OK | NAMESPACE_HEALTH_WARNING
  | NAMESPACE_HEALTH_CRITICAL | NAMESPACE_HEALTH_UNSUPPORTED | NAMESPACE_HEALTH_LOCKED

text \<open>The namespace as the labels describe it; \<open>Core\<close> is the part that provisioning works on.\<close>

record label_ns =
  Core :: pm_namespace
  NamespaceGuid :: "u8 list"
  Name :: "u8 list"
  NsFlags :: u32
  NamespaceId :: u16
  HealthState :: health_state
  Enabled :: bool
  IsBttEnabled :: bool
  IsPfnEnabled :: bool
  IsRawNamespace :: bool
  MediaBlockSize :: u32
  BlockCount :: u64
  UsableSize :: u64

text \<open>
  A DIMM with its label partition, the cached label storage area and the answer to the query of its
  security state. \<open>Namespaces\<close> of \<open>Pm\<close> and \<open>NsList\<close> are the same list of namespaces, the first as the
  memory map sees it.
\<close>

record label_dimm =
  LsaDimm :: dimm
  pLsaCache :: "lsa option"
  SecurityState :: "efi_status \<times> u32"

record label_dev =
  Pm :: pmem_dev
  LabelDimms :: "label_dimm list"
  NsList :: "label_ns list"
  heap :: pool

abbreviation (input) ReadOnlyBit :: nat where "ReadOnlyBit \<equiv> 0"
abbreviation (input) LocalBit :: nat where "LocalBit \<equiv> 1"
abbreviation (input) UpdatingBit :: nat where "UpdatingBit \<equiv> 3"
abbreviation (input) APPDIRECT_NAMESPACE :: u8 where "APPDIRECT_NAMESPACE \<equiv> 2"

section \<open>Creating the labels\<close>

definition CreateNamespaceLabels ::
  "pmem_dev \<Rightarrow> label_ns \<Rightarrow> nat \<Rightarrow> bool \<Rightarrow> namespace_label \<Rightarrow> efi_status \<times> namespace_label" where
  "CreateNamespaceLabels dev ns i UseLatestVersion pLabel =
     (let r = Range (Core ns) ! i;
          l = pLabel\<lparr>lDpa := NsDpa r, lRawSize := NsSize r, lFlags := NsFlags ns, lUuid := NamespaceGuid ns, lName := Name ns\<rparr>
      in case pParentIS (Core ns) of
           None \<Rightarrow> (EFI_INVALID_PARAMETER, l)
         | Some j \<Rightarrow>
             let pIS = ISs dev ! j;
                 l = l\<lparr>lPosition := of_nat i, lNumberOfLabels := of_nat (length (Range (Core ns))),
                       lInterleaveSetCookie := (if UseLatestVersion then InterleaveSetCookie pIS else InterleaveSetCookie_1_1 pIS),
                       lLbaSize := (if UseLatestVersion then 4096 else 0)\<rparr>
             in if \<not> UseLatestVersion then (EFI_SUCCESS, l)
                else
                  let l = l\<lparr>lTypeGuid := gSpaRangePmRegionGuid\<rparr>;
                      l = (if IsBttEnabled ns then l\<lparr>lAddressAbstractionGuid := gBttAbstractionGuid\<rparr> else l);
                      (inserted, l) = SealLabel l
                  in (if inserted then EFI_SUCCESS else EFI_INVALID_PARAMETER, l))"

text \<open>The loop of \<open>CreateNamespace\<close> that builds one label per range.\<close>

fun MakeLabels :: "pmem_dev \<Rightarrow> label_ns \<Rightarrow> bool \<Rightarrow> nat list \<Rightarrow> pool \<Rightarrow> efi_status \<times> namespace_label list \<times> pool" where
  "MakeLabels dev ns latest [] p = (EFI_SUCCESS, [], p)"
| "MakeLabels dev ns latest (i # is) p =
     (let (ok, p) = take_pool p
      in if \<not> ok then (EFI_OUT_OF_RESOURCES, [], p)
         else
           let (rc, l) = CreateNamespaceLabels dev ns i latest zero_label
           in if EFI_ERROR rc then (EFI_ABORTED, [], p)
              else let (rc, ls, p) = MakeLabels dev ns latest is p in (rc, l # ls, p))"

text \<open>
  Removing the labels of a namespace, with the number of DIMMs on which that succeeded: the loop of
  \<open>DeleteNamespace\<close>, and what \<open>CreateNamespace\<close> does with the labels already written when a DIMM fails.
\<close>

fun RemoveLabelSet :: "(dimm_ref \<times> u8 list) list \<Rightarrow> dimm list \<Rightarrow> (nat \<times> dimm list) option" where
  "RemoveLabelSet [] ds = Some (0, ds)"
| "RemoveLabelSet ((d, pUuid) # rest) ds = do {
     (rc, dimm) \<leftarrow> RemoveNamespaceLabels pUuid 0 (ds ! d);
     (n, ds) \<leftarrow> RemoveLabelSet rest (ds[d := dimm]);
     Some (if EFI_ERROR rc then n else Suc n, ds)
   }"

text \<open>
  Writing the set, one label to each DIMM of the interleave set; \<open>i\<close> is \<open>Index2\<close>. A DIMM for which
  there is no label is an access through a NULL pointer.
\<close>

fun InsertLabelSet ::
  "u16 \<Rightarrow> u16 \<Rightarrow> namespace_label list \<Rightarrow> dimm_ref list \<Rightarrow> nat \<Rightarrow> dimm_ref list \<Rightarrow> dimm list \<Rightarrow> (efi_status \<times> dimm list) option" where
  "InsertLabelSet Major Minor ls refs i [] ds = Some (EFI_SUCCESS, ds)"
| "InsertLabelSet Major Minor ls refs i (d # rest) ds =
     (if length ls \<le> i then None
      else do {
        (rc, dimm) \<leftarrow> InsertNamespaceLabels [ls ! i] Major Minor (ds ! d);
        if EFI_ERROR rc then do {
          (_, ds) \<leftarrow> RemoveLabelSet (take i (zip refs (map lUuid ls))) (ds[d := dimm]);
          Some (rc, ds)
        }
        else InsertLabelSet Major Minor ls refs (Suc i) rest (ds[d := dimm])
      })"

fun ClearUpdating :: "namespace_label list \<Rightarrow> dimm_ref list \<Rightarrow> dimm list \<Rightarrow> (efi_status \<times> dimm list) option" where
  "ClearUpdating (l # ls) (d # refs) ds = do {
     (rc, dimm) \<leftarrow> ModifyNamespaceLabels (lUuid l) (Some (unset_bit UpdatingBit (lFlags l))) None 0 (ds ! d);
     if EFI_ERROR rc then Some (EFI_ABORTED, ds[d := dimm]) else ClearUpdating ls refs (ds[d := dimm])
   }"
| "ClearUpdating ls refs ds = Some (EFI_SUCCESS, ds)"

definition WriteLabelSet ::
  "u16 \<Rightarrow> u16 \<Rightarrow> dimm_ref list \<Rightarrow> namespace_label list \<Rightarrow> dimm list \<Rightarrow> (efi_status \<times> dimm list) option" where
  "WriteLabelSet Major Minor refs ls ds = do {
     (rc, ds) \<leftarrow> InsertLabelSet Major Minor ls refs 0 refs ds;
     if EFI_ERROR rc then Some (EFI_ABORTED, ds)
     else if length refs \<noteq> length ls then Some (EFI_ABORTED, ds)
     else ClearUpdating ls refs ds
   }"

section \<open>Label versions\<close>

definition CheckDimmNsLabelVersion :: "dimm \<Rightarrow> ((efi_status + bool) \<times> dimm) option" where
  "CheckDimmNsLabelVersion d =
     (if LsaStatus d = LSA_NOT_INIT then Some (Inl EFI_NOT_FOUND, d)
      else do {
        (rc, lsa, d) \<leftarrow> ReadLabelStorageArea d;
        if EFI_ERROR rc then Some (Inl rc, d)
        else case lsa of
          None \<Rightarrow> Some (Inl EFI_INVALID_PARAMETER, d)
        | Some pLsa \<Rightarrow>
            (case GetLsaIndexes pLsa of
               Inl rc \<Rightarrow> Some (Inl rc, d)
             | Inr (CurrentIndex, _) \<Rightarrow>
                 let idx = Index pLsa ! CurrentIndex
                 in Some (Inr (nMajor idx = NSINDEX_MAJOR \<and> nMinor idx = NSINDEX_MINOR_2), d))
      })"

text \<open>
  The loop over the DIMMs of an interleave set: \<open>first\<close> is the version of the first DIMM that has
  index blocks, \<open>latest\<close> the version of the last one.
\<close>

fun VersionLoop :: "dimm_ref list \<Rightarrow> bool option \<Rightarrow> bool \<Rightarrow> dimm list \<Rightarrow> ((efi_status + bool) \<times> dimm list) option" where
  "VersionLoop [] first latest ds = Some (Inr (if first = None then True else latest), ds)"
| "VersionLoop (d # refs) first latest ds = do {
     (r, dimm) \<leftarrow> CheckDimmNsLabelVersion (ds ! d);
     let ds = ds[d := dimm];
     case r of
       Inl rc \<Rightarrow> if rc = EFI_NOT_FOUND then VersionLoop refs first latest ds else Some (Inl rc, ds)
     | Inr v \<Rightarrow>
         if first = Some (\<not> v) then Some (Inl EFI_DEVICE_ERROR, ds)
         else VersionLoop refs (if first = None then Some v else first) v ds
   }"

definition UseLatestNsLabelVersion :: "dimm_ref list \<Rightarrow> dimm list \<Rightarrow> ((efi_status + bool) \<times> dimm list) option" where
  "UseLatestNsLabelVersion refs ds = VersionLoop refs None False ds"

section \<open>Reading the labels of a namespace\<close>

definition IsNameSpaceTypeAppDirect :: "namespace_label \<Rightarrow> bool \<Rightarrow> bool" where
  "IsNameSpaceTypeAppDirect l Is_Namespace1_1 \<longleftrightarrow>
     (if \<not> Is_Namespace1_1 then lTypeGuid l = gAppDirectPmTypeGuid else \<not> bit (lFlags l) LocalBit)"

definition ValidateNamespaceLabel :: "namespace_label \<Rightarrow> bool \<Rightarrow> efi_status" where
  "ValidateNamespaceLabel l Use_Namespace1_1 =
     (if lRawSize l = 0 then EFI_VOLUME_CORRUPTED
      else if \<not> IsNameSpaceTypeAppDirect l Use_Namespace1_1
              \<and> (lLbaSize l = 0 \<or> lPosition l \<noteq> 0 \<or> lNumberOfLabels l \<noteq> 0) then EFI_VOLUME_CORRUPTED
      else if IsNameSpaceTypeAppDirect l Use_Namespace1_1 \<and> lNumberOfLabels l < lPosition l then EFI_VOLUME_CORRUPTED
      else EFI_SUCCESS)"

text \<open>The loop over the slots of \<open>GetAppDirectLabelByUUID\<close>; \<open>lab\<close> is the label found so far.\<close>

fun LabelLoop ::
  "namespace_index \<Rightarrow> namespace_label list \<Rightarrow> u8 list \<Rightarrow> nat list \<Rightarrow> namespace_label option \<Rightarrow> dimm
     \<Rightarrow> efi_status \<times> namespace_label option \<times> dimm" where
  "LabelLoop idx ls pUuid [] lab d = (if lab = None then EFI_NOT_FOUND else EFI_SUCCESS, lab, d)"
| "LabelLoop idx ls pUuid (k # ks) lab d =
     (if CheckSlotStatus idx (of_nat k) = SLOT_FREE then LabelLoop idx ls pUuid ks lab d
      else if \<not> IsNameSpaceTypeAppDirect (ls ! k) (label_version_1_1 idx) then LabelLoop idx ls pUuid ks lab d
      else if lUuid (ls ! k) \<noteq> pUuid then LabelLoop idx ls pUuid ks lab d
      else if lab \<noteq> None then (EFI_DEVICE_ERROR, lab, d)
      else
        let (ok, d) = pool_alloc d
        in if \<not> ok then (EFI_OUT_OF_RESOURCES, lab, d) else LabelLoop idx ls pUuid ks (Some (ls ! k)) d)"

definition SearchLabel :: "lsa \<Rightarrow> u8 list \<Rightarrow> dimm \<Rightarrow> (efi_status \<times> namespace_label option \<times> dimm) option" where
  "SearchLabel pLsa pUuid d =
     (case GetLsaIndexes pLsa of
        Inl rc \<Rightarrow> Some (rc, None, d)
      | Inr (CurrentIndex, _) \<Rightarrow>
          let idx = Index pLsa ! CurrentIndex; n = unat (nNumberOfLabels idx)
          in if 65536 \<le> n then None else Some (LabelLoop idx (pLabels pLsa) pUuid [0..<n] None d))"

definition GetAppDirectLabelByUUID ::
  "label_dimm \<Rightarrow> u8 list \<Rightarrow> (efi_status \<times> namespace_label option \<times> label_dimm) option" where
  "GetAppDirectLabelByUUID dm pUuid = do {
     (rc, lab, d) \<leftarrow> (case pLsaCache dm of
        Some l \<Rightarrow> SearchLabel l pUuid (LsaDimm dm)
      | None \<Rightarrow> do {
          (rc, lsa, d) \<leftarrow> ReadLabelStorageArea (LsaDimm dm);
          case lsa of
            None \<Rightarrow> Some (rc, None, d)
          | Some l \<Rightarrow> if EFI_ERROR rc then Some (rc, None, d) else SearchLabel l pUuid d
        });
     Some (rc, lab, dm\<lparr>LsaDimm := d\<rparr>)
   }"

section \<open>Assembling a namespace\<close>

definition known_type :: "namespace_label \<Rightarrow> bool" where
  "known_type l \<longleftrightarrow> lTypeGuid l = gSpaRangeIsoPmRegionGuid \<or> lTypeGuid l = gSpaRangeVolatileRegionGuid
     \<or> lTypeGuid l = gSpaRangeIsoVolatileRegionGuid \<or> lTypeGuid l = gSpaRangePmRegionGuid
     \<or> lTypeGuid l = gSpaRangeRawPmRegionGuid \<or> lTypeGuid l = gSpaRangeRawVolatileRegionGuid"

definition IsConfiguringAllowed :: "u32 \<Rightarrow> bool" where
  "IsConfiguringAllowed f \<longleftrightarrow> \<not> bit f 1 \<or> \<not> bit f 2 \<or> bit f 5"

definition label_checksum_ok :: "namespace_label \<Rightarrow> bool" where
  "label_checksum_ok l = fst (ChecksumOperations (label_bytes l) 256 248 False)"

type_synonym collected = "label_ns \<times> u32 \<times> u64"

text \<open>
  What the loop of \<open>RetrieveNamespacesFromLsa\<close> does with the label \<open>l2\<close> of DIMM \<open>d\<close>, given the label \<open>l\<close>
  it started from: the namespace, \<open>LabelsFound\<close> and \<open>RawCapacity\<close>. \<open>Inl\<close> ends the function; \<open>None\<close> is a
  range behind the end of the array.
\<close>

definition CollectLabel ::
  "bool \<Rightarrow> namespace_label \<Rightarrow> dimm_ref \<Rightarrow> efi_status \<times> u32 \<Rightarrow> namespace_label \<Rightarrow> collected \<Rightarrow> (efi_status + collected) option" where
  "CollectLabel v11 l d sec l2 c =
     (let (ns, LabelsFound, RawCap) = c
      in if lFlags l \<noteq> lFlags l2 \<or> lLbaSize l \<noteq> lLbaSize l2 \<or> lName l \<noteq> lName l2
            \<or> NsCookie (Core ns) \<noteq> lInterleaveSetCookie l2 then Some (Inr c)
         else
           let ns = (if lLbaSize l2 = 0 \<or> lLbaSize l2 = 512 then ns\<lparr>MediaBlockSize := 512\<rparr>
                     else if lLbaSize l2 = 4096 then ns\<lparr>MediaBlockSize := 4096\<rparr>
                     else ns\<lparr>MediaBlockSize := 512, HealthState := NAMESPACE_HEALTH_WARNING\<rparr>)
           in if EFI_ERROR (ValidateNamespaceLabel l2 v11) then Some (Inr (ns, LabelsFound, RawCap))
              else if \<not> v11 \<and> \<not> label_checksum_ok l2
                then Some (Inr (ns\<lparr>HealthState := NAMESPACE_HEALTH_CRITICAL\<rparr>, LabelsFound, RawCap))
              else if \<not> v11 \<and> \<not> known_type l2 then Some (Inr (ns, LabelsFound, RawCap))
              else
                let ns = (if v11 then ns
                          else if lAddressAbstractionGuid l2 = gBttAbstractionGuid then ns\<lparr>IsBttEnabled := True\<rparr>
                          else if lAddressAbstractionGuid l2 = gPfnAbstractionGuid then ns\<lparr>IsPfnEnabled := True\<rparr>
                          else if lAddressAbstractionGuid l2 = replicate 16 0 then ns\<lparr>IsRawNamespace := True\<rparr>
                          else ns)
                in if EFI_ERROR (fst sec) then Some (Inl (fst sec))
                   else
                     let ns = (if IsConfiguringAllowed (snd sec) then ns
                               else ns\<lparr>HealthState := NAMESPACE_HEALTH_LOCKED\<rparr>);
                         core = Core ns
                     in if MAX_NAMESPACE_RANGES \<le> length (Range core) then None
                        else Some (Inr (ns\<lparr>Core := core\<lparr>Range := Range core @
                               [\<lparr>NsDimm = d, NsDpa = lDpa l2, NsSize = lRawSize l2\<rparr>]\<rparr>\<rparr>,
                             LabelsFound + 1, RawCap + lRawSize l2)))"

fun CollectLabels ::
  "bool \<Rightarrow> namespace_label \<Rightarrow> dimm_ref list \<Rightarrow> label_dimm list \<Rightarrow> collected
     \<Rightarrow> ((efi_status + collected) \<times> label_dimm list) option" where
  "CollectLabels v11 l [] ds c = Some (Inr c, ds)"
| "CollectLabels v11 l (d # refs) ds c =
     (if \<not> Manageable (LsaDimm (ds ! d)) then CollectLabels v11 l refs ds c
      else do {
        (rc, lab, dm) \<leftarrow> GetAppDirectLabelByUUID (ds ! d) (lUuid l);
        let ds = ds[d := dm];
        if rc = EFI_NOT_FOUND \<or> rc = EFI_NO_MEDIA then CollectLabels v11 l refs ds c
        else if EFI_ERROR rc then Some (Inl rc, ds)
        else do {
          l2 \<leftarrow> lab;
          r \<leftarrow> CollectLabel v11 l d (SecurityState dm) l2 c;
          case r of
            Inl rc \<Rightarrow> Some (Inl rc, ds)
          | Inr c \<Rightarrow> CollectLabels v11 l refs ds c
        }
      })"

section \<open>The interleave set of a namespace\<close>

definition range_free :: "dimm_ref \<Rightarrow> memmap_range list \<Rightarrow> ns_range list \<Rightarrow> bool" where
  "range_free d freemap rs \<longleftrightarrow>
     list_ex (\<lambda>r. list_ex (\<lambda>f. NsDimm r = d \<and> RangeStartDpa f \<le> NsDpa r
        \<and> NsDpa r + NsSize r \<le> RangeStartDpa f + RangeLength f) freemap) rs"

text \<open>Is there a range of the namespace in free memory of every DIMM? \<open>Inl\<close> ends the function.\<close>

fun RegionsFree :: "pmem_dev \<Rightarrow> ns_range list \<Rightarrow> dimm_region list \<Rightarrow> pool \<Rightarrow> (efi_status + bool) \<times> pool" where
  "RegionsFree dev rs [] p = (Inr True, p)"
| "RegionsFree dev rs (reg # regs) p =
     (let (ok, p) = take_pool p
      in if \<not> ok then (Inl EFI_OUT_OF_RESOURCES, p)
         else
           let (rc, freemap, p) = GetDimmFreemap dev (RegionDimm reg) FreeCapacityForADMode p
           in if EFI_ERROR rc then (Inl rc, p)
              else if range_free (RegionDimm reg) freemap rs then RegionsFree dev rs regs p
              else (Inr False, p))"

text \<open>
  The loop over the interleave sets; \<open>node\<close> is the namespace as a list node, \<open>Found\<close> is \<open>ISetFound\<close>. A set
  with a matching cookie and another number of DIMMs leaves \<open>ISetFound\<close> set when it is the last one. A
  second set with the same cookie links the node into a second list, which destroys the first: \<open>None\<close>.
\<close>

fun AssignLoop ::
  "nat \<Rightarrow> nat list \<Rightarrow> bool \<Rightarrow> pm_namespace \<Rightarrow> pmem_dev \<Rightarrow> pool \<Rightarrow> (efi_status \<times> pm_namespace \<times> pmem_dev \<times> pool) option" where
  "AssignLoop node [] Found ns dev p = Some (if Found then EFI_SUCCESS else EFI_NOT_FOUND, ns, dev, p)"
| "AssignLoop node (j # js) Found ns dev p =
     (let pIs = ISs dev ! j;
          ISCookie = (if NsMajor ns = NSINDEX_MAJOR \<and> NsMinor ns = NSINDEX_MINOR_1
                      then InterleaveSetCookie_1_1 pIs else InterleaveSetCookie pIs)
      in if NsCookie ns \<noteq> ISCookie then AssignLoop node js False ns dev p
         else if pParentIS ns \<noteq> None then None
         else
           let ns = ns\<lparr>pParentIS := Some j\<rparr>;
               dev = dev\<lparr>ISs := (ISs dev)[j := pIs\<lparr>AppDirectNamespaceList := AppDirectNamespaceList pIs @ [node]\<rparr>]\<rparr>
           in if length (DimmRegionList pIs) \<noteq> length (Range ns) then AssignLoop node js True ns dev p
              else
                (case RegionsFree dev (Range ns) (DimmRegionList pIs) p of
                   (Inl rc, p) \<Rightarrow> Some (rc, ns, dev, p)
                 | (Inr False, p) \<Rightarrow> AssignLoop node js False ns dev p
                 | (Inr True, p) \<Rightarrow> do {
                     (rc, ns) \<leftarrow> CalculateAppDirectNamespaceBaseSpa dev ns pIs;
                     Some (rc, ns, dev, p)
                   }))"

definition FindAndAssignISForNamespace ::
  "nat \<Rightarrow> pm_namespace \<Rightarrow> pmem_dev \<Rightarrow> pool \<Rightarrow> (efi_status \<times> pm_namespace \<times> pmem_dev \<times> pool) option" where
  "FindAndAssignISForNamespace node ns dev p = AssignLoop node [0..<length (ISs dev)] False ns dev p"

section \<open>Finding the namespaces at start\<close>

text \<open>The namespace before its labels are collected.\<close>

definition NewNamespace :: "bool \<Rightarrow> namespace_label \<Rightarrow> label_ns" where
  "NewNamespace v11 l =
     \<lparr>Core = \<lparr>NamespaceType = 0, Range = [], SpaNamespaceBase = 0, NsCookie = lInterleaveSetCookie l, NsMajor = NSINDEX_MAJOR,
         NsMinor = (if v11 then NSINDEX_MINOR_1 else NSINDEX_MINOR_2), pParentIS = None\<rparr>,
      NamespaceGuid = lUuid l, Name = take 63 (lName l) @ [0], NsFlags = lFlags l, NamespaceId = 0,
      HealthState = NAMESPACE_HEALTH_OK, Enabled = False, IsBttEnabled = False, IsPfnEnabled = False, IsRawNamespace = False,
      MediaBlockSize = 0, BlockCount = 0, UsableSize = 0\<rparr>"

definition CREATE_NAMESPACE_ID :: "u16 \<Rightarrow> nat \<Rightarrow> u16" where
  "CREATE_NAMESPACE_ID RegId i = push_bit 8 (RegId AND 0xFF) + of_nat (i mod 256)"

text \<open>The health of a namespace that is not healthy follows the state of its interleave set.\<close>

definition ParentHealth :: "nvm_is \<Rightarrow> health_state \<Rightarrow> health_state" where
  "ParentHealth pIS h =
     (if h = NAMESPACE_HEALTH_OK \<or> IS_State pIS = 0 then h
      else if (IS_State pIS = 4 \<or> IS_State pIS = 3) \<and> MirrorEnable pIS then NAMESPACE_HEALTH_WARNING
      else NAMESPACE_HEALTH_CRITICAL)"

text \<open>
  From one used slot to a namespace: \<open>Inl (Some rc)\<close> ends the function, \<open>Inl None\<close> skips the slot. A
  label that is not of AppDirect type has no interleave set, whose region id is read all the same.
\<close>

definition AssembleNamespace ::
  "bool \<Rightarrow> nat \<Rightarrow> namespace_label \<Rightarrow> label_dev \<Rightarrow> ((efi_status option + label_ns) \<times> label_dev) option" where
  "AssembleNamespace v11 slot l st =
     (let (ok, p) = take_pool (heap st); st = st\<lparr>heap := p\<rparr>
      in if \<not> ok then Some (Inl (Some EFI_OUT_OF_RESOURCES), st)
         else if \<not> IsNameSpaceTypeAppDirect l v11 then None
         else if \<not> v11 \<and> \<not> known_type l then Some (Inl None, st)
         else do {
           (r, ds) \<leftarrow> CollectLabels v11 l [0..<length (LabelDimms st)] (LabelDimms st) (NewNamespace v11 l, 0, 0);
           let st = st\<lparr>LabelDimms := ds\<rparr>;
           case r of
             Inl rc \<Rightarrow> Some (Inl (Some rc), st)
           | Inr (ns, LabelsFound, RawCap) \<Rightarrow> do {
               (rc, core, dev, p) \<leftarrow> FindAndAssignISForNamespace (length (NsList st))
                  ((Core ns)\<lparr>NamespaceType := APPDIRECT_NAMESPACE\<rparr>) (Pm st) (heap st);
               let st = st\<lparr>Pm := dev, heap := p\<rparr>;
               let ns = ns\<lparr>Core := core, BlockCount := RawCap, UsableSize := RawCap,
                   HealthState := (if EFI_ERROR rc then NAMESPACE_HEALTH_CRITICAL else HealthState ns)\<rparr>;
               (case pParentIS core of
                  None \<Rightarrow> Some (Inl None, st)
                | Some j \<Rightarrow>
                    let pIS = ISs dev ! j;
                        ns = ns\<lparr>HealthState := ParentHealth pIS (HealthState ns)\<rparr>;
                        ns = (if ucast (lNumberOfLabels l) \<noteq> LabelsFound
                              then ns\<lparr>HealthState := NAMESPACE_HEALTH_CRITICAL, Enabled := False\<rparr> else ns)
                    in Some (Inr (ns\<lparr>NamespaceId := CREATE_NAMESPACE_ID (RegionId pIS) slot\<rparr>), st))
             }
         })"

text \<open>
  \<open>detect\<close> stands for the detection of BTT and PFN metadata in the memory of the namespace, which
  \<open>DetectAbstraction\<close> of \<open>Block_Io\<close> models on the state \<open>'s\<close> of that memory.
\<close>

definition EnableNamespace ::
  "(bool \<Rightarrow> label_ns \<Rightarrow> 's \<Rightarrow> label_ns \<times> 's) \<Rightarrow> bool \<Rightarrow> label_ns \<Rightarrow> 's \<Rightarrow> label_ns \<times> 's" where
  "EnableNamespace detect v11 ns s =
     (let (ns, s) =
        (if HealthState ns \<notin> {NAMESPACE_HEALTH_CRITICAL, NAMESPACE_HEALTH_UNSUPPORTED, NAMESPACE_HEALTH_LOCKED}
            \<and> (v11 \<or> IsBttEnabled ns \<or> IsPfnEnabled ns)
         then detect v11 ns s else (ns, s))
      in (if NamespaceType (Core ns) = APPDIRECT_NAMESPACE
            \<and> HealthState ns \<in> {NAMESPACE_HEALTH_OK, NAMESPACE_HEALTH_WARNING}
          then ns\<lparr>Enabled := True\<rparr> else ns, s))"

definition AddNamespace :: "label_ns \<Rightarrow> label_dev \<Rightarrow> label_dev" where
  "AddNamespace ns st = st\<lparr>Pm := (Pm st)\<lparr>Namespaces := Namespaces (Pm st) @ [Core ns]\<rparr>, NsList := NsList st @ [ns]\<rparr>"

fun RetrieveLoop ::
  "(bool \<Rightarrow> label_ns \<Rightarrow> 's \<Rightarrow> label_ns \<times> 's) \<Rightarrow> namespace_index \<Rightarrow> namespace_label list \<Rightarrow> nat list \<Rightarrow> label_dev \<Rightarrow> 's
     \<Rightarrow> (efi_status \<times> label_dev \<times> 's) option" where
  "RetrieveLoop detect idx ls [] st s = Some (EFI_SUCCESS, st, s)"
| "RetrieveLoop detect idx ls (k # ks) st s =
     (let v11 = label_version_1_1 idx; l = ls ! k
      in if CheckSlotStatus idx (of_nat k) = SLOT_FREE then RetrieveLoop detect idx ls ks st s
         else if list_ex (\<lambda>ns. NamespaceGuid ns = lUuid l) (NsList st) then RetrieveLoop detect idx ls ks st s
         else if EFI_ERROR (ValidateNamespaceLabel l v11) then RetrieveLoop detect idx ls ks st s
         else do {
           (r, st) \<leftarrow> AssembleNamespace v11 k l st;
           case r of
             Inl (Some rc) \<Rightarrow> Some (rc, st, s)
           | Inl None \<Rightarrow> RetrieveLoop detect idx ls ks st s
           | Inr ns \<Rightarrow>
               let (ns, s) = EnableNamespace detect v11 ns s
               in RetrieveLoop detect idx ls ks (AddNamespace ns st) s
         })"

definition RetrieveNamespacesFromLsa ::
  "(bool \<Rightarrow> label_ns \<Rightarrow> 's \<Rightarrow> label_ns \<times> 's) \<Rightarrow> dimm_ref \<Rightarrow> label_dev \<Rightarrow> 's \<Rightarrow> (efi_status \<times> label_dev \<times> 's) option" where
  "RetrieveNamespacesFromLsa detect d st s =
     (case pLsaCache (LabelDimms st ! d) of
        None \<Rightarrow> Some (EFI_INVALID_PARAMETER, st, s)
      | Some lsa \<Rightarrow>
          (case GetLsaIndexes lsa of
             Inl rc \<Rightarrow> Some (rc, st, s)
           | Inr (CurrentIndex, _) \<Rightarrow>
               let idx = Index lsa ! CurrentIndex
               in RetrieveLoop detect idx (pLabels lsa) [0..<unat (nNumberOfLabels idx)] st s))"

text \<open>The three loops of \<open>InitializeNamespaces\<close>.\<close>

fun CacheLsas :: "label_dimm list \<Rightarrow> efi_status \<Rightarrow> (efi_status \<times> label_dimm list) option" where
  "CacheLsas [] rc = Some (rc, [])"
| "CacheLsas (dm # dms) rc =
     (if \<not> Manageable (LsaDimm dm) then do {
        (rc, dms) \<leftarrow> CacheLsas dms rc;
        Some (rc, dm\<lparr>pLsaCache := None\<rparr> # dms)
      }
      else do {
        (rc1, lsa, d) \<leftarrow> ReadLabelStorageArea (LsaDimm dm);
        (rc, dms) \<leftarrow> CacheLsas dms (if EFI_ERROR rc1 then rc1 else rc);
        Some (rc,
          (if rc1 = EFI_NOT_FOUND then dm\<lparr>LsaDimm := d\<lparr>LsaStatus := LSA_NOT_INIT\<rparr>, pLsaCache := None\<rparr>
           else if EFI_ERROR rc1 then dm\<lparr>LsaDimm := d\<lparr>LsaStatus := LSA_CORRUPTED\<rparr>, pLsaCache := None\<rparr>
           else dm\<lparr>LsaDimm := d, pLsaCache := lsa\<rparr>) # dms)
      })"

definition set_lsa_status :: "dimm_ref \<Rightarrow> lsa_status \<Rightarrow> label_dev \<Rightarrow> label_dev" where
  "set_lsa_status d x st = st\<lparr>LabelDimms := (LabelDimms st)[d :=
     (LabelDimms st ! d)\<lparr>LsaDimm := (LsaDimm (LabelDimms st ! d))\<lparr>LsaStatus := x\<rparr>\<rparr>]\<rparr>"

fun RetrieveAll ::
  "(bool \<Rightarrow> label_ns \<Rightarrow> 's \<Rightarrow> label_ns \<times> 's) \<Rightarrow> dimm_ref list \<Rightarrow> efi_status \<Rightarrow> label_dev \<Rightarrow> 's
     \<Rightarrow> (efi_status \<times> label_dev \<times> 's) option" where
  "RetrieveAll detect [] rc st s = Some (rc, st, s)"
| "RetrieveAll detect (d # refs) rc st s =
     (let dimm = LsaDimm (LabelDimms st ! d)
      in if \<not> Manageable dimm \<or> LsaStatus dimm = LSA_NOT_INIT then RetrieveAll detect refs rc st s
         else do {
           (rc1, st, s) \<leftarrow> RetrieveNamespacesFromLsa detect d st s;
           if EFI_ERROR rc1 then RetrieveAll detect refs rc1 (set_lsa_status d LSA_COULD_NOT_READ_NAMESPACES st) s
           else RetrieveAll detect refs rc (set_lsa_status d LSA_OK st) s
         })"

definition InitializeNamespaces ::
  "(bool \<Rightarrow> label_ns \<Rightarrow> 's \<Rightarrow> label_ns \<times> 's) \<Rightarrow> label_dev \<Rightarrow> 's \<Rightarrow> (efi_status \<times> label_dev \<times> 's) option" where
  "InitializeNamespaces detect st s = do {
     (rc, ds) \<leftarrow> CacheLsas (LabelDimms st) EFI_SUCCESS;
     (rc, st, s) \<leftarrow> RetrieveAll detect [0..<length ds] rc (st\<lparr>LabelDimms := ds\<rparr>) s;
     Some (rc, st\<lparr>LabelDimms := map (\<lambda>dm. dm\<lparr>pLsaCache := None\<rparr>) (LabelDimms st)\<rparr>, s)
   }"

end
