(* ===== verification/Label_Set.thy ===== *)
theory Label_Set
  imports Namespace_Labels
begin

text \<open>
  The label set of a namespace as an update of the label tables of its DIMMs: a label is inserted with
  the updating flag, then moved to another slot without it and sealed.
\<close>

section \<open>One DIMM\<close>

text \<open>No label of the namespace \<open>u\<close> is left behind a free slot.\<close>

definition fresh_table :: "u8 list \<Rightarrow> dimm \<Rightarrow> label_table_state \<Rightarrow> bool" where
  "fresh_table u d t \<longleftrightarrow> LsaStatus d \<noteq> LSA_NOT_INIT \<and> u \<noteq> replicate 16 0
     \<and> (\<exists>l. holds d l \<and> lsa_table l = t
          \<and> (\<forall>k < num_labels l. slot_free (Index l ! cur_index l) k \<longrightarrow> lUuid (page_at l d k) \<noteq> u))"

text \<open>Only the partition of a DIMM differs.\<close>

definition relabelled :: "dimm \<Rightarrow> dimm \<Rightarrow> bool" where
  "relabelled d d' \<longleftrightarrow> (\<exists>m. d' = d\<lparr>pcd := m\<rparr>)"

lemma relabelled_trans [trans]: "relabelled d d' \<Longrightarrow> relabelled d' d'' \<Longrightarrow> relabelled d d''"
  by (auto simp: relabelled_def)

lemma updated_relabelled: "updated d l d' l' m \<Longrightarrow> relabelled d d'"
  unfolding updated_def relabelled_def by metis

lemma fresh_table_table: "fresh_table u d t \<Longrightarrow> dimm_table d t"
  by (auto simp: fresh_table_def dimm_table_def)

lemma updated_fresh:
  assumes "updated d l d' l' m" and "LsaStatus d \<noteq> LSA_NOT_INIT" and "u \<noteq> replicate 16 0"
    and "\<forall>k < num_labels l. slot_free (Index l ! cur_index l) k \<longrightarrow> lUuid (page_at l d k) \<noteq> u"
    and "\<And>k. m k = None \<Longrightarrow> lsa_map l k = None"
  shows "fresh_table u d' ((lsa_table l)\<lparr>labels := m\<rparr>)"
proof -
  have "lUuid (page_at l' d' k) \<noteq> u" if k: "k < num_labels l'" "slot_free (Index l' ! cur_index l') k" for k
  proof -
    have "lsa_map l' k = None" using k by (simp add: lsa_map_def)
    then have "lsa_map l k = None" using assms(1,5) by (simp add: updated_def)
    moreover have n: "num_labels l' = num_labels l" using assms(1) by (simp add: updated_def)
    ultimately have "lUuid (page_at l d k) \<noteq> u" using assms(4) k(1) by (simp add: lsa_map_def split: if_splits)
    moreover have "page_at l' d' k = zero_label \<or> page_at l' d' k = page_at l d k"
      using assms(1) k n by (simp add: updated_def)
    ultimately show ?thesis using assms(3) by (auto simp: zero_label_def)
  qed
  moreover have "LsaStatus d' = LsaStatus d"
    using assms(1) unfolding updated_def by (metis dimm.select_convs(6) dimm.surjective dimm.update_convs(7))
  ultimately show ?thesis
    using assms(1-3) unfolding fresh_table_def updated_def
    by (intro conjI exI [of _ l']) (auto simp: lsa_table_def)
qed

lemma insert_fresh:
  assumes "fresh_table u d t" and "label_ok (page t) x" and "2 \<le> length (free_list t)"
  shows "\<exists>d'. InsertNamespaceLabels [x] major minor d = Some (EFI_SUCCESS, d') \<and> fresh_table u d' (table_insert x t)
     \<and> relabelled d d'"
proof -
  obtain l where l: "LsaStatus d \<noteq> LSA_NOT_INIT" "u \<noteq> replicate 16 0" "holds d l" "lsa_table l = t"
    "\<forall>k < num_labels l. slot_free (Index l ! cur_index l) k \<longrightarrow> lUuid (page_at l d k) \<noteq> u"
    using assms(1) by (auto simp: fresh_table_def)
  let ?k = "hd (free_slots l)" and ?x = "x\<lparr>lSlot := of_nat (hd (free_slots l))\<rparr>"
  obtain d' l' where u: "InsertIntoLsa [x] d = Some (EFI_SUCCESS, d')" "updated d l d' l' ((lsa_map l)(?k \<mapsto> ?x))"
    using InsertIntoLsa_updated [OF l(3), of "[x]"] assms(2,3) l(4) by auto
  have "fresh_table u d' ((lsa_table l)\<lparr>labels := (lsa_map l)(?k \<mapsto> ?x)\<rparr>)"
    by (rule updated_fresh [OF u(2) l(1,2,5)]) (simp split: if_splits)
  moreover have "relabelled d d'" by (rule updated_relabelled [OF u(2)])
  ultimately show ?thesis
    using u(1) l(1,4) by (auto simp: InsertNamespaceLabels_def table_insert_def Let_def)
qed

text \<open>The label as \<open>ModifyNamespaceLabels\<close> leaves it in slot \<open>k\<close>, on a DIMM with pages of \<open>p\<close> bytes.\<close>

definition reflagged :: "nat \<Rightarrow> u32 \<Rightarrow> nat \<Rightarrow> namespace_label \<Rightarrow> namespace_label" where
  "reflagged p f k x = (let y = x\<lparr>lSlot := of_nat k, lFlags := f\<rparr> in if p = 256 then snd (SealLabel y) else y)"

lemma page_minor:
  assumes "lsa_ok l"
  shows "page_size (Index l ! 0) = 256 \<longleftrightarrow> nMinor (Index l ! 0) = NSINDEX_MINOR_2"
  using assms by (auto simp: lsa_ok_def index_ok_def page_size_def label_version_1_1_def)

lemma ModifyLabel_flags: "ModifyLabel (Some f) None 0 None 0 y = y\<lparr>lFlags := f\<rparr>"
  by (simp add: ModifyLabel_def)

lemma filter_eq_single: "k < n \<Longrightarrow> filter (\<lambda>j. j = k) [0..<n] = [k]"
  by (induction n) (auto simp: less_Suc_eq filter_empty_conv)

lemma modify_fresh:
  assumes fresh: "fresh_table u d t" and x: "labels t k = Some x" "lUuid x = u"
    and unique: "\<And>j y. labels t j = Some y \<Longrightarrow> lUuid y = u \<Longrightarrow> j = k" and room: "free_list t \<noteq> []"
  shows "\<exists>d'. ModifyNamespaceLabels u (Some f) None 0 d = Some (EFI_SUCCESS, d')
     \<and> dimm_table d' (t\<lparr>labels := (labels t)(hd (free_list t) \<mapsto> reflagged (page t) f (hd (free_list t)) x, k := None)\<rparr>)
     \<and> relabelled d d'"
proof -
  obtain l where l: "LsaStatus d \<noteq> LSA_NOT_INIT" "u \<noteq> replicate 16 0" "holds d l" "lsa_table l = t"
    "\<forall>k < num_labels l. slot_free (Index l ! cur_index l) k \<longrightarrow> lUuid (page_at l d k) \<noteq> u"
    using fresh by (auto simp: fresh_table_def)
  have ok: "lsa_ok l" using l(3) by (simp add: holds_def)
  obtain l1 where r: "ReadLabelStorageArea d = Some (EFI_SUCCESS, Some l1, d)" "lsa_ok l1" "Index l1 = Index l"
    "lsa_map l1 = lsa_map l" "free_slots l1 = free_slots l" "cur_index l1 = cur_index l"
    and pg: "\<And>k. k < num_labels l \<Longrightarrow> pLabels l1 ! k =
      (if LargePayload d \<or> \<not> slot_free (Index l ! cur_index l) k then page_at l d k else zero_label)"
    using read_holds [OF l(3)] by metis
  let ?n = "num_labels l" and ?h = "hd (free_slots l)"
  have k: "k < ?n" "lsa_map l k = Some x" using x(1) l(4) by (auto simp: lsa_map_def split: if_splits)
  have n: "?n \<le> 1020" "unat (nNumberOfLabels (Index l1 ! 0)) = ?n"
    using ok r(3) by (simp_all add: lsa_ok_def index_ok_def num_labels_def)
  have uuid: "lUuid (pLabels l1 ! j) = u \<longleftrightarrow> j = k" if j: "j < ?n" for j
  proof (cases "slot_free (Index l ! cur_index l) j")
    case True
    have "pLabels l1 ! j = page_at l d j \<or> pLabels l1 ! j = zero_label" using pg [OF j] by presburger
    moreover have "lUuid (page_at l d j) \<noteq> u" using l(5) j True by blast
    moreover have "lUuid zero_label \<noteq> u" using l(2) by (simp add: zero_label_def)
    moreover have "j \<noteq> k" using k(2) True by (auto simp: lsa_map_def)
    ultimately show ?thesis by auto
  next
    case False
    then have "lsa_map l1 j = Some (pLabels l1 ! j)" using j r(3,6) by (simp add: lsa_map_def num_labels_def)
    then have "labels t j = Some (pLabels l1 ! j)" using r(4) by (simp flip: l(4))
    then show ?thesis using unique [of j] x by auto
  qed
  have "filter (\<lambda>j. lUuid (pLabels l1 ! j) = u) [0..<?n] = filter (\<lambda>j. j = k) [0..<?n]"
    by (rule filter_cong) (auto simp: uuid)
  also have "\<dots> = [k]" using k(1) by (simp add: filter_eq_single)
  finally have slots: "filter (\<lambda>j. lUuid (pLabels l1 ! j) = u) [0..<?n] = [k]" .
  have "unat (of_nat k :: u16) = k" using k(1) n(1) by (simp add: unsigned_of_nat take_bit_nat_eq_self)
  moreover have t: "free_slots l \<noteq> []" "page t = page_size (Index l ! 0)" "free_list t = free_slots l"
    using room by (simp_all flip: l(4))
  ultimately obtain d' l' where
    m: "ModifyLabelAtSlot (of_nat k) (Some f) None 0 None 0 d = Some (EFI_SUCCESS, d')"
      "updated d l d' l' ((lsa_map l)(?h \<mapsto> reflagged (page t) f ?h x, k := None))"
    using ModifyLabelAtSlot_updated [OF l(3), of "of_nat k" x None "Some f" 0 None 0, unfolded ModifyLabel_flags] k(2)
    by (auto simp: reflagged_def Let_def page_minor [OF ok])
  have "1 \<le> (of_nat (length (free_slots l1)) :: u16)"
    using free_slots_facts(2) [OF r(2)] t(1) r(5) by (cases "free_slots l") (auto simp: word_le_nat_alt)
  then have "ModifyNamespaceLabels u (Some f) None 0 d = Some (EFI_SUCCESS, d')"
    using r(1) n slots m(1) by (auto simp: ModifyNamespaceLabels_def GetLsaFreeSlots_ok [OF r(2)] Let_def)
  moreover have "dimm_table d' (t\<lparr>labels := (lsa_map l)(?h \<mapsto> reflagged (page t) f ?h x, k := None)\<rparr>)"
    using updated_table [OF m(2) l(1)] l(4) by simp
  moreover have "labels t = lsa_map l" by (simp flip: l(4))
  ultimately show ?thesis using updated_relabelled [OF m(2)] t(3) by simp
qed

text \<open>What creating a label leaves in the table: the label in the second free slot.\<close>

definition table_add :: "u32 \<Rightarrow> namespace_label \<Rightarrow> label_table_state \<Rightarrow> label_table_state" where
  "table_add f x t = (let k = hd (tl (free_list t)) in t\<lparr>labels := (labels t)(k \<mapsto> reflagged (page t) f k x)\<rparr>)"

lemma second_free:
  assumes "2 \<le> length (free_list t)"
  shows "labels t (hd (tl (free_list t))) = None" and "hd (tl (free_list t)) < slots t"
    and "hd (free_list t) \<noteq> hd (tl (free_list t))"
proof -
  obtain a b ks where fl: "free_list t = a # b # ks" using assms by (cases "free_list t"; cases "tl (free_list t)") auto
  have "distinct (free_list t)" by (simp add: free_list_def)
  then have "a \<noteq> b" by (simp add: fl)
  moreover have "b \<in> set (free_list t)" by (simp add: fl)
  then have "labels t b = None" "b < slots t" by (simp_all add: free_list_def)
  ultimately show "labels t (hd (tl (free_list t))) = None" and "hd (tl (free_list t)) < slots t"
    and "hd (free_list t) \<noteq> hd (tl (free_list t))" by (simp_all add: fl)
qed

lemma clear_inserted:
  assumes "fresh_table u d (table_insert x t)" and "lUuid x = u" and "\<forall>y \<in> ran (labels t). lUuid y \<noteq> u"
    and "2 \<le> length (free_list t)"
  shows "\<exists>d'. ModifyNamespaceLabels u (Some f) None 0 d = Some (EFI_SUCCESS, d') \<and> dimm_table d' (table_add f x t)
     \<and> relabelled d d'"
proof -
  let ?k = "hd (free_list t)" and ?j = "hd (tl (free_list t))" and ?t = "table_insert x t"
  have ne: "free_list t \<noteq> []" "tl (free_list t) \<noteq> []" using assms(4) by (cases "free_list t"; auto)+
  note f = free_list_insert [OF ne(1), of x] hd_free_list [OF ne(1)] second_free [OF assms(4)]
  have t: "labels ?t = (labels t)(?k \<mapsto> x\<lparr>lSlot := of_nat ?k\<rparr>)" "page ?t = page t"
    "?t\<lparr>labels := m\<rparr> = t\<lparr>labels := m\<rparr>" for m by (simp_all add: table_insert_def Let_def)
  have x: "labels ?t ?k = Some (x\<lparr>lSlot := of_nat ?k\<rparr>)" "lUuid (x\<lparr>lSlot := of_nat ?k\<rparr>) = u" using assms(2) by (simp_all add: t)
  have un: "j = ?k" if "labels ?t j = Some y" "lUuid y = u" for j y
    using that assms(3) by (auto simp: t ran_def split: if_splits)
  have "free_list ?t \<noteq> []" using f(1) ne by simp
  from modify_fresh [where f = f, OF assms(1) x un this]
  have "\<exists>d'. ModifyNamespaceLabels u (Some f) None 0 d = Some (EFI_SUCCESS, d')
     \<and> dimm_table d' (t\<lparr>labels := (labels ?t)(?j \<mapsto> reflagged (page t) f ?j (x\<lparr>lSlot := of_nat ?k\<rparr>), ?k := None)\<rparr>)
     \<and> relabelled d d'" by (simp only: f(1) t(2,3))
  moreover have "(labels ?t)(?j \<mapsto> y, ?k := None) = (labels t)(?j \<mapsto> y)" for y
    using f(2,6) by (auto simp: t fun_eq_iff)
  moreover have "reflagged (page t) f ?j (x\<lparr>lSlot := of_nat ?k\<rparr>) = reflagged (page t) f ?j x" by (simp add: reflagged_def)
  ultimately show ?thesis by (simp add: table_add_def Let_def t)
qed

section \<open>All DIMMs of an interleave set\<close>

text \<open>
  \<open>L\<close> gives the label for a DIMM and \<open>T\<close> the table it holds: the label fits the table, which has room
  and knows nothing of the namespace \<open>u\<close>.
\<close>

definition can_label :: "u8 list \<Rightarrow> (dimm_ref \<Rightarrow> namespace_label) \<Rightarrow> (dimm_ref \<Rightarrow> label_table_state) \<Rightarrow> dimm list \<Rightarrow> dimm_ref \<Rightarrow> bool" where
  "can_label u L T ds d \<longleftrightarrow> d < length ds \<and> fresh_table u (ds ! d) (T d) \<and> label_ok (page (T d)) (L d) \<and> lUuid (L d) = u
     \<and> (\<forall>y \<in> ran (labels (T d)). lUuid y \<noteq> u) \<and> 2 \<le> length (free_list (T d))"

lemma InsertLabelSet_prefix:
  assumes "drop i refs = pre @ tail" and "distinct pre" and "\<forall>d\<in>set pre. can_label u L T ds d"
  shows "\<exists>ds'. InsertLabelSet major minor (map L refs) refs i (pre @ tail) ds
       = InsertLabelSet major minor (map L refs) refs (i + length pre) tail ds'
     \<and> length ds' = length ds \<and> (\<forall>d. d \<notin> set pre \<longrightarrow> ds' ! d = ds ! d)
     \<and> (\<forall>d\<in>set pre. fresh_table u (ds' ! d) (table_insert (L d) (T d)) \<and> relabelled (ds ! d) (ds' ! d))"
  using assms
proof (induction pre arbitrary: i ds)
  case (Cons d pre)
  have i: "i < length refs" "refs ! i = d" "drop (Suc i) refs = pre @ tail"
    using Cons.prems(1) by (metis append_Cons drop_all list.distinct(1) not_le,
        metis append_Cons hd_drop_conv_nth drop_all list.sel(1) list.distinct(1) not_le,
        metis append_Cons Cons_nth_drop_Suc drop_all list.distinct(1) list.inject not_le)
  obtain d' where d': "InsertNamespaceLabels [L d] major minor (ds ! d) = Some (EFI_SUCCESS, d')"
    "fresh_table u d' (table_insert (L d) (T d))" "relabelled (ds ! d) d'"
    using insert_fresh [of u "ds ! d" "T d" "L d" major minor] Cons.prems(3) by (auto simp: can_label_def)
  have nd: "d \<notin> set pre" "distinct pre" using Cons.prems(2) by simp_all
  have eq: "ds[d := d'] ! e = ds ! e" if "e \<in> set pre" for e using that nd(1) by (metis nth_list_update_neq)
  then have "\<forall>e\<in>set pre. can_label u L T (ds[d := d']) e" using Cons.prems(3) by (simp add: can_label_def)
  from Cons.IH [OF i(3) nd(2) this] obtain ds' where
    ds': "InsertLabelSet major minor (map L refs) refs (Suc i) (pre @ tail) (ds[d := d'])
        = InsertLabelSet major minor (map L refs) refs (Suc i + length pre) tail ds'"
    "length ds' = length ds" "\<forall>e. e \<notin> set pre \<longrightarrow> ds' ! e = ds[d := d'] ! e"
    "\<forall>e\<in>set pre. fresh_table u (ds' ! e) (table_insert (L e) (T e)) \<and> relabelled (ds ! e) (ds' ! e)" using eq by auto
  have "ds' ! d = d'" using ds'(3) nd(1) Cons.prems(3) by (simp add: can_label_def)
  then show ?case
    using d' ds' i nd by (intro exI [of _ ds']) auto
qed auto

lemma ClearUpdating_ok:
  assumes "distinct refs" and "\<forall>d\<in>set refs. d < length ds \<and> fresh_table u (ds ! d) (table_insert (L d) (T d)) \<and> lUuid (L d) = u
      \<and> (\<forall>y \<in> ran (labels (T d)). lUuid y \<noteq> u) \<and> 2 \<le> length (free_list (T d))"
  shows "\<exists>ds'. ClearUpdating (map L refs) refs ds = Some (EFI_SUCCESS, ds')
     \<and> length ds' = length ds \<and> (\<forall>d. d \<notin> set refs \<longrightarrow> ds' ! d = ds ! d)
     \<and> (\<forall>d\<in>set refs. dimm_table (ds' ! d) (table_add (unset_bit 3 (lFlags (L d))) (L d) (T d))
          \<and> relabelled (ds ! d) (ds' ! d))"
  using assms
proof (induction refs arbitrary: ds)
  case (Cons d refs)
  obtain d' where d': "ModifyNamespaceLabels u (Some (unset_bit 3 (lFlags (L d)))) None 0 (ds ! d) = Some (EFI_SUCCESS, d')"
    "dimm_table d' (table_add (unset_bit 3 (lFlags (L d))) (L d) (T d))" "relabelled (ds ! d) d'"
    using clear_inserted [of u "ds ! d" "L d" "T d"] Cons.prems(2) by force
  have nd: "d \<notin> set refs" "distinct refs" using Cons.prems(1) by simp_all
  have eq: "ds[d := d'] ! e = ds ! e" if "e \<in> set refs" for e using that nd(1) by (metis nth_list_update_neq)
  then have "\<forall>e\<in>set refs. e < length (ds[d := d']) \<and> fresh_table u (ds[d := d'] ! e) (table_insert (L e) (T e)) \<and> lUuid (L e) = u
      \<and> (\<forall>y \<in> ran (labels (T e)). lUuid y \<noteq> u) \<and> 2 \<le> length (free_list (T e))"
    using Cons.prems(2) by simp
  from Cons.IH [OF nd(2) this] obtain ds' where ds': "ClearUpdating (map L refs) refs (ds[d := d']) = Some (EFI_SUCCESS, ds')"
    "length ds' = length ds" "\<forall>e. e \<notin> set refs \<longrightarrow> ds' ! e = ds[d := d'] ! e"
    "\<forall>e\<in>set refs. dimm_table (ds' ! e) (table_add (unset_bit 3 (lFlags (L e))) (L e) (T e))
       \<and> relabelled (ds ! e) (ds' ! e)" using eq by auto
  have "ds' ! d = d'" using ds'(3) nd(1) Cons.prems(2) by simp
  moreover have "lUuid (L d) = u" using Cons.prems(2) by simp
  ultimately show ?case
    using d' ds' nd by (intro exI [of _ ds']) auto
qed simp

lemma WriteLabelSet_ok:
  assumes "distinct refs" and "\<forall>d\<in>set refs. can_label u L T ds d"
  shows "\<exists>ds'. WriteLabelSet major minor refs (map L refs) ds = Some (EFI_SUCCESS, ds')
     \<and> length ds' = length ds \<and> (\<forall>d. d \<notin> set refs \<longrightarrow> ds' ! d = ds ! d)
     \<and> (\<forall>d\<in>set refs. dimm_table (ds' ! d) (table_add (unset_bit 3 (lFlags (L d))) (L d) (T d)) \<and> relabelled (ds ! d) (ds' ! d))"
proof -
  obtain ds1 where i: "InsertLabelSet major minor (map L refs) refs 0 refs ds = Some (EFI_SUCCESS, ds1)"
    "length ds1 = length ds" "\<forall>d. d \<notin> set refs \<longrightarrow> ds1 ! d = ds ! d"
    "\<forall>d\<in>set refs. fresh_table u (ds1 ! d) (table_insert (L d) (T d)) \<and> relabelled (ds ! d) (ds1 ! d)"
    using InsertLabelSet_prefix [OF _ assms, of 0 refs "[]" major minor] by auto
  then have "\<forall>d\<in>set refs. d < length ds1 \<and> fresh_table u (ds1 ! d) (table_insert (L d) (T d)) \<and> lUuid (L d) = u
      \<and> (\<forall>y \<in> ran (labels (T d)). lUuid y \<noteq> u) \<and> 2 \<le> length (free_list (T d))"
    using assms(2) by (simp add: can_label_def)
  from ClearUpdating_ok [OF assms(1) this] obtain ds' where c: "ClearUpdating (map L refs) refs ds1 = Some (EFI_SUCCESS, ds')"
    "length ds' = length ds1" "\<forall>d. d \<notin> set refs \<longrightarrow> ds' ! d = ds1 ! d"
    "\<forall>d\<in>set refs. dimm_table (ds' ! d) (table_add (unset_bit 3 (lFlags (L d))) (L d) (T d)) \<and> relabelled (ds1 ! d) (ds' ! d)" by blast
  then show ?thesis using i by (auto simp: WriteLabelSet_def intro: relabelled_trans)
qed

lemma RemoveLabelSet_ok:
  assumes "distinct refs" and "\<forall>d\<in>set refs. d < length ds \<and> dimm_table (ds ! d) (T d)"
  shows "\<exists>ds'. RemoveLabelSet (map (\<lambda>d. (d, U d)) refs) ds = Some (length refs, ds')
     \<and> length ds' = length ds \<and> (\<forall>d. d \<notin> set refs \<longrightarrow> ds' ! d = ds ! d)
     \<and> (\<forall>d\<in>set refs. dimm_table (ds' ! d) (table_remove (U d) 0 (T d)))"
  using assms
proof (induction refs arbitrary: ds)
  case (Cons d refs)
  obtain d' where d': "RemoveNamespaceLabels (U d) 0 (ds ! d) = Some (EFI_SUCCESS, d')" "dimm_table d' (table_remove (U d) 0 (T d))"
    using dimm_labels.delete_law [of "ds ! d" "T d" "U d" 0] Cons.prems(2) by auto
  have nd: "d \<notin> set refs" "distinct refs" using Cons.prems(1) by simp_all
  have eq: "ds[d := d'] ! e = ds ! e" if "e \<in> set refs" for e using that nd(1) by (metis nth_list_update_neq)
  then have "\<forall>e\<in>set refs. e < length (ds[d := d']) \<and> dimm_table (ds[d := d'] ! e) (T e)" using Cons.prems(2) by simp
  from Cons.IH [OF nd(2) this] obtain ds' where
    ds': "RemoveLabelSet (map (\<lambda>d. (d, U d)) refs) (ds[d := d']) = Some (length refs, ds')" "length ds' = length ds"
    "\<forall>e. e \<notin> set refs \<longrightarrow> ds' ! e = ds[d := d'] ! e" "\<forall>e\<in>set refs. dimm_table (ds' ! e) (table_remove (U e) 0 (T e))" by auto
  have "ds' ! d = d'" using ds'(3) nd(1) Cons.prems(2) by simp
  then show ?case using d' ds' nd by (intro exI [of _ ds']) auto
qed simp

lemma remove_inserted:
  assumes "2 \<le> length (free_list t)" and "\<forall>y \<in> ran (labels t). lUuid y \<noteq> lUuid x"
  shows "table_remove (lUuid x) 0 (table_insert x t) = t"
proof -
  have "labels t (hd (free_list t)) = None" using assms(1) by (intro hd_free_list(1)) auto
  from remove_labels_insert [OF this assms(2)] show ?thesis by (simp add: table_remove_def table_insert_def Let_def)
qed

lemma remove_added:
  assumes "2 \<le> length (free_list t)" and "\<forall>y \<in> ran (labels t). lUuid y \<noteq> lUuid x"
  shows "table_remove (lUuid x) 0 (table_add f x t) = t"
proof -
  let ?k = "hd (tl (free_list t))" and ?y = "reflagged (page t) f (hd (tl (free_list t))) x"
  have u: "lUuid ?y = lUuid x" by (simp add: reflagged_def Let_def SealLabel_def split: prod.splits)
  have "remove_labels (lUuid ?y) 0 ((labels t)(?k \<mapsto> ?y\<lparr>lSlot := lSlot ?y\<rparr>)) = labels t"
    by (rule remove_labels_insert) (use second_free(1) [OF assms(1)] assms(2) u in simp_all)
  then show ?thesis by (simp add: u table_remove_def table_add_def Let_def)
qed

section \<open>Failed creation\<close>

lemma InsertLabelSet_fails:
  assumes refs: "refs = pre @ d # post" and "distinct pre" "d \<notin> set pre" and pre: "\<forall>e\<in>set pre. can_label u L T ds e" and d: "d < length ds"
    and fail: "InsertNamespaceLabels [L d] major minor (ds ! d) = Some (rc, d')" "EFI_ERROR rc"
  shows "\<exists>ds'. InsertLabelSet major minor (map L refs) refs 0 refs ds = Some (rc, ds') \<and> length ds' = length ds \<and> ds' ! d = d'
     \<and> (\<forall>e. e \<notin> insert d (set pre) \<longrightarrow> ds' ! e = ds ! e) \<and> (\<forall>e\<in>set pre. dimm_table (ds' ! e) (T e))"
proof -
  obtain ds1 where i: "InsertLabelSet major minor (map L refs) refs 0 refs ds
      = InsertLabelSet major minor (map L refs) refs (length pre) (d # post) ds1"
    "length ds1 = length ds" "\<forall>e. e \<notin> set pre \<longrightarrow> ds1 ! e = ds ! e"
    "\<forall>e\<in>set pre. fresh_table u (ds1 ! e) (table_insert (L e) (T e)) \<and> relabelled (ds ! e) (ds1 ! e)"
    using InsertLabelSet_prefix [of 0 refs pre "d # post" u L T ds major minor] assms(2) pre refs by auto
  let ?ds = "ds1[d := d']"
  have "\<forall>e\<in>set pre. e < length ?ds \<and> dimm_table (?ds ! e) (table_insert (L e) (T e))"
    using i(2,4) pre assms(3) fresh_table_table by (metis can_label_def length_list_update nth_list_update_neq)
  from RemoveLabelSet_ok [OF assms(2) this, of "lUuid \<circ> L"] obtain ds' where
    r: "RemoveLabelSet (map (\<lambda>d. (d, lUuid (L d))) pre) ?ds = Some (length pre, ds')" "length ds' = length ds1"
      "\<forall>e. e \<notin> set pre \<longrightarrow> ds' ! e = ?ds ! e" "\<forall>e\<in>set pre. dimm_table (ds' ! e) (table_remove (lUuid (L e)) 0 (table_insert (L e) (T e)))" by auto
  have "take (length pre) (zip refs (map lUuid (map L refs))) = map (\<lambda>d. (d, lUuid (L d))) pre"
    using refs by (simp add: zip_map2 zip_same_conv_map comp_def)
  moreover have "map L refs ! length pre = L d" "ds1 ! d = ds ! d" using refs i(3) assms(3) by (auto simp: nth_append)
  ultimately have "InsertLabelSet major minor (map L refs) refs (length pre) (d # post) ds1 = Some (rc, ds')"
    using fail r(1) refs by simp
  moreover have "table_remove (lUuid (L e)) 0 (table_insert (L e) (T e)) = T e" if "e \<in> set pre" for e
    using pre that by (intro remove_inserted) (auto simp: can_label_def)
  with r(4) have "\<forall>e\<in>set pre. dimm_table (ds' ! e) (T e)" by simp
  moreover have "ds' ! d = d'" using r(3) assms(3) d i(2) by simp
  ultimately show ?thesis using i r(2,3) by (intro exI [of _ ds']) auto
qed

end
