(* ===== verification/Namespace_Create.thy ===== *)
theory Namespace_Create
  imports Label_Set
begin

text \<open>
  The labels that \<open>CreateNamespace\<close> writes describe the namespace: what each of them holds once the
  updating flag has been cleared, and the tables of the DIMMs afterwards.
\<close>

section \<open>The labels of a created namespace\<close>

abbreviation cookie_for :: "bool \<Rightarrow> nvm_is \<Rightarrow> u64" where
  "cookie_for latest pIS \<equiv> if latest then InterleaveSetCookie pIS else InterleaveSetCookie_1_1 pIS"

abbreviation page_for :: "bool \<Rightarrow> nat" where "page_for latest \<equiv> if latest then 256 else 128"

text \<open>The label \<open>x\<close> describes range \<open>r\<close> of the namespace \<open>ns\<close> on the interleave set \<open>pIS\<close> and is complete.\<close>

definition label_of :: "bool \<Rightarrow> label_ns \<Rightarrow> nvm_is \<Rightarrow> ns_range \<Rightarrow> namespace_label \<Rightarrow> bool" where
  "label_of latest ns pIS r x \<longleftrightarrow> lUuid x = NamespaceGuid ns \<and> lName x = Name ns
     \<and> lFlags x = unset_bit UpdatingBit (NsFlags ns) \<and> lDpa x = NsDpa r \<and> lRawSize x = NsSize r
     \<and> lNumberOfLabels x = of_nat (length (Range (Core ns))) \<and> lPosition x \<le> lNumberOfLabels x
     \<and> lInterleaveSetCookie x = cookie_for latest pIS \<and> lLbaSize x = (if latest then 4096 else 0)
     \<and> (latest \<longrightarrow> lTypeGuid x = gSpaRangePmRegionGuid \<and> label_checksum_ok x
          \<and> lAddressAbstractionGuid x = (if IsBttEnabled ns then gBttAbstractionGuid else replicate 16 0))"

lemma guid_length [simp]:
  "length gSpaRangePmRegionGuid = 16" "length gBttAbstractionGuid = 16"
  by (simp_all add: gSpaRangePmRegionGuid_def gBttAbstractionGuid_def guid_def)

lemma label_bytes_seal:
  assumes "label_wf x"
  shows "label_bytes (x\<lparr>lChecksum := c\<rparr>) = patch (label_bytes x) 248 (le64 c)"
proof -
  have "label_bytes (x\<lparr>lChecksum := a\<rparr>) = take 248 (label_bytes x) @ le64 a" for a
    using assms by (simp add: label_bytes_def label_wf_def)
  moreover have "drop 256 (label_bytes x) = []" using assms by simp
  ultimately show ?thesis by (simp add: patch_def)
qed

lemma label_wf_checksum [simp]: "label_wf (x\<lparr>lChecksum := c\<rparr>) = label_wf x"
  by (simp add: label_wf_def)

lemma SealLabel_checksum_ok:
  assumes "label_wf x"
  shows "label_checksum_ok (snd (SealLabel x))"
proof -
  let ?c = "fletcher64 (label_bytes x) 248"
  have "get64 248 (patch (label_bytes x) 248 (le64 ?c)) = ?c" using assms by (simp add: get64_def patch_def)
  then have s: "snd (SealLabel x) = x\<lparr>lChecksum := ?c\<rparr>" using assms by (simp add: SealLabel_def ChecksumOperations_def)
  have "fletcher64 (label_bytes (x\<lparr>lChecksum := ?c\<rparr>)) 248 = ?c"
    using assms by (simp add: label_bytes_seal fletcher64_patch)
  moreover have "of_le (take 8 (drop 248 (label_bytes (x\<lparr>lChecksum := ?c\<rparr>)))) = ?c"
    using assms by (simp add: label_bytes_seal patch_def)
  ultimately show ?thesis using assms by (simp add: s label_checksum_ok_def ChecksumOperations_def)
qed

lemma SealLabel_fields [simp]:
  "lUuid (snd (SealLabel x)) = lUuid x" "lName (snd (SealLabel x)) = lName x" "lFlags (snd (SealLabel x)) = lFlags x"
  "lNumberOfLabels (snd (SealLabel x)) = lNumberOfLabels x" "lPosition (snd (SealLabel x)) = lPosition x"
  "lInterleaveSetCookie (snd (SealLabel x)) = lInterleaveSetCookie x" "lLbaSize (snd (SealLabel x)) = lLbaSize x"
  "lDpa (snd (SealLabel x)) = lDpa x" "lRawSize (snd (SealLabel x)) = lRawSize x"
  "lTypeGuid (snd (SealLabel x)) = lTypeGuid x" "lAddressAbstractionGuid (snd (SealLabel x)) = lAddressAbstractionGuid x"
  by (simp_all add: SealLabel_def split: prod.splits)

text \<open>What \<open>CreateNamespace\<close> writes: a label of range \<open>i\<close> once the updating flag has been cleared.\<close>

lemma created_label:
  assumes par: "pParentIS (Core ns) = Some j" and i: "i < length (Range (Core ns))" "length (Range (Core ns)) \<le> 64"
    and wf: "length (NamespaceGuid ns) = 16" "length (Name ns) = 64"
  obtains x where "CreateNamespaceLabels dev ns i latest zero_label = (EFI_SUCCESS, x)"
    and "lUuid x = NamespaceGuid ns" and "label_ok (page_for latest) x"
    and "\<And>k. label_of latest ns (ISs dev ! j) (Range (Core ns) ! i) (reflagged (page_for latest) (unset_bit UpdatingBit (lFlags x)) k x)"
proof -
  let ?r = "Range (Core ns) ! i" and ?n = "of_nat (length (Range (Core ns))) :: u16"
  define y where "y = zero_label\<lparr>lDpa := NsDpa ?r, lRawSize := NsSize ?r, lFlags := NsFlags ns, lUuid := NamespaceGuid ns,
      lName := Name ns, lPosition := of_nat i, lNumberOfLabels := ?n,
      lInterleaveSetCookie := cookie_for latest (ISs dev ! j), lLbaSize := (if latest then 4096 else 0),
      lTypeGuid := (if latest then gSpaRangePmRegionGuid else replicate 16 0),
      lAddressAbstractionGuid := (if latest \<and> IsBttEnabled ns then gBttAbstractionGuid else replicate 16 0)\<rparr>"
  define x where "x = (if latest then snd (SealLabel y) else y)"
  have pos: "(of_nat i :: u16) \<le> ?n" using i by (simp add: word_le_nat_alt unsigned_of_nat take_bit_nat_eq_self)
  have y: "label_wf y" "label_ok (page_for latest) y"
    using wf by (simp_all add: y_def label_wf_def zero_label_def label_ok_cases upper_half_def flip: replicate_add)
  have c: "CreateNamespaceLabels dev ns i latest zero_label = (EFI_SUCCESS, x)"
  proof (cases latest)
    case True
    then have "fst (SealLabel y)" using SealLabel_ok y(2) by simp
    then have "SealLabel y = (True, x)" using True by (simp add: x_def prod_eq_iff)
    with True par show ?thesis
      by (cases "IsBttEnabled ns") (simp_all add: CreateNamespaceLabels_def y_def zero_label_def)
  qed (simp add: CreateNamespaceLabels_def par x_def y_def zero_label_def Let_def)
  have ok: "label_ok (page_for latest) x" using y(2) SealLabel_ok [of y] by (cases latest) (simp_all add: x_def)
  have u: "lUuid x = NamespaceGuid ns" by (simp add: x_def y_def)
  show ?thesis
  proof (rule that [OF c u ok])
    fix k
    define w where "w = x\<lparr>lSlot := of_nat k, lFlags := unset_bit UpdatingBit (lFlags x)\<rparr>"
    have z: "reflagged (page_for latest) (unset_bit UpdatingBit (lFlags x)) k x = (if latest then snd (SealLabel w) else w)"
      by (simp add: reflagged_def w_def Let_def)
    have "label_wf w" using ok by (simp add: w_def label_ok_def label_wf_def)
    then have "label_checksum_ok (snd (SealLabel w))" by (rule SealLabel_checksum_ok)
    with pos show "label_of latest ns (ISs dev ! j) ?r (reflagged (page_for latest) (unset_bit UpdatingBit (lFlags x)) k x)"
      unfolding z by (cases latest) (simp_all add: label_of_def w_def x_def y_def zero_label_def)
  qed
qed

lemma MakeLabels_ok:
  assumes "\<forall>i\<in>set is. fst (CreateNamespaceLabels dev ns i latest zero_label) = EFI_SUCCESS"
  shows "MakeLabels dev ns latest is [] = (EFI_SUCCESS, map (\<lambda>i. snd (CreateNamespaceLabels dev ns i latest zero_label)) is, [])"
  using assms by (induction "is") (auto split: prod.splits)

lemma map_the_map_of:
  assumes "length xs = length ys" and "distinct xs"
  shows "map (\<lambda>x. the (map_of (zip xs ys) x)) xs = ys"
  using assms by (intro nth_equalityI) (simp_all add: map_of_zip_nth)

text \<open>The tables of the DIMMs once the labels of the namespace are written: a complete label in one more slot.\<close>

definition labelled :: "bool \<Rightarrow> label_ns \<Rightarrow> nvm_is \<Rightarrow> (dimm_ref \<Rightarrow> label_table_state) \<Rightarrow> dimm list \<Rightarrow> ns_range \<Rightarrow> bool" where
  "labelled latest ns pIS T ds r \<longleftrightarrow> (\<exists>x k. label_of latest ns pIS r x \<and> k < slots (T (NsDimm r)) \<and> labels (T (NsDimm r)) k = None
     \<and> dimm_table (ds ! NsDimm r) ((T (NsDimm r))\<lparr>labels := (labels (T (NsDimm r)))(k \<mapsto> x)\<rparr>))"

lemma create_labels:
  fixes ns :: label_ns
  defines "rs \<equiv> Range (Core ns)" and "refs \<equiv> map NsDimm (Range (Core ns))"
  assumes par: "pParentIS (Core ns) = Some j" and n: "length rs \<le> 64" and "distinct refs"
    and wf: "length (NamespaceGuid ns) = 16" "length (Name ns) = 64"
    and T: "\<forall>d\<in>set refs. d < length ds \<and> fresh_table (NamespaceGuid ns) (ds ! d) (T d) \<and> page (T d) = page_for latest
        \<and> (\<forall>y \<in> ran (labels (T d)). lUuid y \<noteq> NamespaceGuid ns) \<and> 2 \<le> length (free_list (T d))"
  shows "\<exists>ls ds'. MakeLabels dev ns latest [0..<length rs] [] = (EFI_SUCCESS, ls, [])
    \<and> WriteLabelSet major minor refs ls ds = Some (EFI_SUCCESS, ds') \<and> length ds' = length ds
    \<and> (\<forall>d. d \<notin> set refs \<longrightarrow> ds' ! d = ds ! d) \<and> (\<forall>d\<in>set refs. relabelled (ds ! d) (ds' ! d))
    \<and> (\<forall>r\<in>set rs. labelled latest ns (ISs dev ! j) T ds' r)"
proof -
  define x where "x i = snd (CreateNamespaceLabels dev ns i latest zero_label)" for i
  define L where "L d = the (map_of (zip refs (map x [0..<length rs])) d)" for d
  have len: "length refs = length rs" by (simp add: refs_def rs_def)
  have c: "CreateNamespaceLabels dev ns i latest zero_label = (EFI_SUCCESS, x i) \<and> lUuid (x i) = NamespaceGuid ns \<and> label_ok (page_for latest) (x i)
      \<and> (\<forall>k. label_of latest ns (ISs dev ! j) (rs ! i) (reflagged (page_for latest) (unset_bit UpdatingBit (lFlags (x i))) k (x i)))"
    if "i < length rs" for i
    using created_label [OF par _ _ wf, of i dev latest] that n unfolding rs_def x_def by (metis snd_conv)
  then have "\<forall>i\<in>set [0..<length rs]. fst (CreateNamespaceLabels dev ns i latest zero_label) = EFI_SUCCESS" by simp
  then have m: "MakeLabels dev ns latest [0..<length rs] [] = (EFI_SUCCESS, map x [0..<length rs], [])"
    unfolding x_def [abs_def] by (rule MakeLabels_ok)
  have L: "map L refs = map x [0..<length rs]" unfolding L_def
    by (rule map_the_map_of) (use len assms(5) in simp_all)
  then have Li: "L (NsDimm (rs ! i)) = x i" if "i < length rs" for i
    using that len by (metis (no_types, lifting) add_0 diff_zero length_upt nth_map nth_upt refs_def rs_def)
  have "can_label (NamespaceGuid ns) L T ds d" if "d \<in> set refs" for d
  proof -
    from that obtain i where i: "i < length rs" "d = NsDimm (rs ! i)" by (auto simp: refs_def rs_def in_set_conv_nth)
    then show ?thesis using c [of i] Li [of i] T that by (simp add: can_label_def)
  qed
  from WriteLabelSet_ok [OF assms(5), of "NamespaceGuid ns" L T ds major minor] this obtain ds' where
    w: "WriteLabelSet major minor refs (map x [0..<length rs]) ds = Some (EFI_SUCCESS, ds')" "length ds' = length ds"
      "\<forall>d. d \<notin> set refs \<longrightarrow> ds' ! d = ds ! d"
      "\<forall>d\<in>set refs. dimm_table (ds' ! d) (table_add (unset_bit UpdatingBit (lFlags (L d))) (L d) (T d)) \<and> relabelled (ds ! d) (ds' ! d)"
    using L by auto
  have "labelled latest ns (ISs dev ! j) T ds' r" if "r \<in> set rs" for r
  proof -
    from that obtain i where i: "i < length rs" "r = rs ! i" by (auto simp: in_set_conv_nth)
    let ?d = "NsDimm r"
    have d: "?d \<in> set refs" using that by (simp add: refs_def rs_def)
    let ?k = "hd (tl (free_list (T ?d)))" and ?f = "unset_bit UpdatingBit (lFlags (x i))"
    have room: "2 \<le> length (free_list (T ?d))" and "page (T ?d) = page_for latest" using T d by auto
    then have "dimm_table (ds' ! ?d) ((T ?d)\<lparr>labels := (labels (T ?d))(?k \<mapsto> reflagged (page_for latest) ?f ?k (x i))\<rparr>)"
      using w(4) d Li [OF i(1)] i(2) by (fastforce simp: table_add_def Let_def)
    moreover have "label_of latest ns (ISs dev ! j) r (reflagged (page_for latest) ?f ?k (x i))" using c [OF i(1)] i(2) by blast
    ultimately show ?thesis using second_free(1,2) [OF room] unfolding labelled_def by blast
  qed
  with m w show ?thesis by auto
qed

end
