(* ===== verification/Namespace_Assemble.thy ===== *)
theory Namespace_Assemble
  imports Namespace_Create Label_Props Provisioning_Props
begin

text \<open>
  From labels to a namespace: \<open>RetrieveNamespacesFromLsa\<close> finds the label of every DIMM by its GUID,
  collects the ranges and binds the namespace to the interleave set with its cookie. Complete labels
  of one namespace are assembled to that namespace.
\<close>

section \<open>Finding the label of a DIMM\<close>

definition is_label :: "namespace_index \<Rightarrow> namespace_label list \<Rightarrow> u8 list \<Rightarrow> nat \<Rightarrow> bool" where
  "is_label idx ls u k \<longleftrightarrow> CheckSlotStatus idx (of_nat k) \<noteq> SLOT_FREE
     \<and> IsNameSpaceTypeAppDirect (ls ! k) (label_version_1_1 idx) \<and> lUuid (ls ! k) = u"

lemma LabelLoop_none:
  assumes "\<forall>k\<in>set ks. \<not> is_label idx ls u k"
  shows "LabelLoop idx ls u ks lab d = (if lab = None then EFI_NOT_FOUND else EFI_SUCCESS, lab, d)"
  using assms by (induction ks arbitrary: lab) (auto simp: is_label_def)

lemma LabelLoop_found:
  assumes "pool_alloc d = (True, d)" and "k \<in> set ks" and "distinct ks" and "\<forall>j\<in>set ks. is_label idx ls u j \<longleftrightarrow> j = k"
  shows "LabelLoop idx ls u ks None d = (EFI_SUCCESS, Some (ls ! k), d)"
  using assms
proof (induction ks)
  case (Cons j ks)
  show ?case
  proof (cases "j = k")
    case True
    then have "\<forall>i\<in>set ks. \<not> is_label idx ls u i" using Cons.prems by auto
    moreover have "is_label idx ls u k" using Cons.prems(2,4) by auto
    ultimately show ?thesis using True Cons.prems(1) by (auto simp: is_label_def LabelLoop_none)
  next
    case False
    then show ?thesis using Cons by (auto simp: is_label_def)
  qed
qed simp

lemma is_label_map:
  assumes "lsa_ok l" and "k < num_labels l"
  shows "is_label (Index l ! cur_index l) (pLabels l) u k \<longleftrightarrow>
     (\<exists>x. lsa_map l k = Some x \<and> IsNameSpaceTypeAppDirect x (page_size (Index l ! 0) = 128) \<and> lUuid x = u)"
proof -
  note s = used_slot(2,3) [OF assms(1) lsa_ok_current(1) [OF assms(1)] assms(2)]
  have "label_version_1_1 (Index l ! cur_index l) \<longleftrightarrow> page_size (Index l ! 0) = 128"
    using lsa_ok_cur(4) [OF assms(1)] by (simp add: page_size_def split: if_splits)
  then show ?thesis using assms(2) by (auto simp: is_label_def CheckSlotStatus_iff [OF s(2,1)] lsa_map_def)
qed

lemma SearchLabel_loop:
  assumes "lsa_ok l"
  shows "SearchLabel l u d = Some (LabelLoop (Index l ! cur_index l) (pLabels l) u [0..<num_labels l] None d)"
  using lsa_ok_current(2) [OF assms] lsa_ok_cur(1,3) [OF assms]
  by (simp add: SearchLabel_def GetLsaIndexes_def index_ok_def num_labels_def)

text \<open>A DIMM whose table is known, from the cached area or from its partition.\<close>

definition known_dimm :: "label_dimm \<Rightarrow> label_table_state \<Rightarrow> bool" where
  "known_dimm dm t \<longleftrightarrow> Manageable (LsaDimm dm) \<and> pool (LsaDimm dm) = []
     \<and> (case pLsaCache dm of None \<Rightarrow> dimm_table (LsaDimm dm) t | Some l \<Rightarrow> lsa_ok l \<and> lsa_table l = t)"

lemma read_dimm_table:
  assumes "dimm_table d t"
  obtains l where "ReadLabelStorageArea d = Some (EFI_SUCCESS, Some l, d)" and "lsa_ok l" and "lsa_table l = t"
proof -
  obtain l0 where l0: "holds d l0" "lsa_table l0 = t" using assms by (auto simp: dimm_table_def)
  obtain l where l: "ReadLabelStorageArea d = Some (EFI_SUCCESS, Some l, d)" "lsa_ok l" "Index l = Index l0" "lsa_map l = lsa_map l0"
    using read_holds [OF l0(1)] by metis
  then have "lsa_table l = t" using l0(2) by (simp add: lsa_table_def num_labels_def)
  with l(1,2) that show thesis by blast
qed

lemma GetAppDirectLabelByUUID_search:
  assumes "known_dimm dm t"
  shows "\<exists>l. lsa_ok l \<and> lsa_table l = t \<and> GetAppDirectLabelByUUID dm u =
     map_option (\<lambda>(rc, lab, d). (rc, lab, dm\<lparr>LsaDimm := d\<rparr>)) (SearchLabel l u (LsaDimm dm))"
proof (cases "pLsaCache dm")
  case None
  obtain l where "ReadLabelStorageArea (LsaDimm dm) = Some (EFI_SUCCESS, Some l, LsaDimm dm)" "lsa_ok l" "lsa_table l = t"
    using read_dimm_table [of "LsaDimm dm" t] assms None by (auto simp: known_dimm_def)
  then show ?thesis using None
    by (intro exI [of _ l]) (cases "SearchLabel l u (LsaDimm dm)"; auto simp: GetAppDirectLabelByUUID_def)
next
  case (Some l)
  then show ?thesis using assms
    by (intro exI [of _ l]) (cases "SearchLabel l u (LsaDimm dm)"; auto simp: known_dimm_def GetAppDirectLabelByUUID_def)
qed

lemma known_dimm_pool: "known_dimm dm t \<Longrightarrow> pool_alloc (LsaDimm dm) = (True, LsaDimm dm)"
  by (simp add: known_dimm_def pool_alloc_def)

lemma GetAppDirectLabelByUUID_none:
  assumes "known_dimm dm t" and "\<forall>y\<in>ran (labels t). lUuid y \<noteq> u"
  shows "GetAppDirectLabelByUUID dm u = Some (EFI_NOT_FOUND, None, dm)"
proof -
  obtain l where l: "lsa_ok l" "lsa_table l = t" "GetAppDirectLabelByUUID dm u =
     map_option (\<lambda>(rc, lab, d). (rc, lab, dm\<lparr>LsaDimm := d\<rparr>)) (SearchLabel l u (LsaDimm dm))"
    using GetAppDirectLabelByUUID_search [OF assms(1)] by blast
  have "labels t = lsa_map l" by (simp flip: l(2))
  then have "lUuid y \<noteq> u" if "lsa_map l k = Some y" for k y using assms(2) that by (auto simp: ran_def)
  then have "\<forall>k\<in>set [0..<num_labels l]. \<not> is_label (Index l ! cur_index l) (pLabels l) u k"
    using is_label_map [OF l(1)] by auto
  then show ?thesis using l(3) by (simp add: SearchLabel_loop [OF l(1)] LabelLoop_none)
qed

lemma GetAppDirectLabelByUUID_found:
  assumes "known_dimm dm t" and "labels t k = Some x" "lUuid x = u" "IsNameSpaceTypeAppDirect x (page t = 128)"
    and "\<And>j y. labels t j = Some y \<Longrightarrow> lUuid y = u \<Longrightarrow> j = k"
  shows "GetAppDirectLabelByUUID dm u = Some (EFI_SUCCESS, Some x, dm)"
proof -
  obtain l where l: "lsa_ok l" "lsa_table l = t" "GetAppDirectLabelByUUID dm u =
     map_option (\<lambda>(rc, lab, d). (rc, lab, dm\<lparr>LsaDimm := d\<rparr>)) (SearchLabel l u (LsaDimm dm))"
    using GetAppDirectLabelByUUID_search [OF assms(1)] by blast
  have t: "labels t = lsa_map l" "page t = page_size (Index l ! 0)" by (simp_all flip: l(2))
  have k: "k < num_labels l" "pLabels l ! k = x" using assms(2) by (auto simp: t lsa_map_def split: if_splits)
  have "is_label (Index l ! cur_index l) (pLabels l) u j \<longleftrightarrow> j = k" if "j < num_labels l" for j
    unfolding is_label_map [OF l(1) that, of u] using assms(2-5) unfolding t by metis
  then have "LabelLoop (Index l ! cur_index l) (pLabels l) u [0..<num_labels l] None (LsaDimm dm) = (EFI_SUCCESS, Some x, LsaDimm dm)"
    using LabelLoop_found [of "LsaDimm dm" k "[0..<num_labels l]"] known_dimm_pool [OF assms(1)] k by auto
  then show ?thesis using l(3) by (simp add: SearchLabel_loop [OF l(1)])
qed

section \<open>Collecting the labels\<close>

text \<open>What a label of range \<open>r\<close> adds to a namespace that is being assembled.\<close>

definition found_label :: "bool \<Rightarrow> label_ns \<Rightarrow> ns_range \<Rightarrow> collected \<Rightarrow> collected" where
  "found_label latest ns r c = (let (n, f, cap) = c in
     (n\<lparr>Core := (Core n)\<lparr>Range := Range (Core n) @ [r]\<rparr>, MediaBlockSize := (if latest then 4096 else 512),
        IsBttEnabled := IsBttEnabled n \<or> latest \<and> IsBttEnabled ns,
        IsRawNamespace := IsRawNamespace n \<or> latest \<and> \<not> IsBttEnabled ns\<rparr>, f + 1, cap + NsSize r))"

lemma guid_distinct [simp]:
  "replicate 16 0 \<noteq> gBttAbstractionGuid" "replicate 16 0 \<noteq> gPfnAbstractionGuid"
  "gAppDirectPmTypeGuid = gSpaRangePmRegionGuid"
  by code_simp+

lemma label_of_valid:
  assumes "label_of latest ns pIS r x" and "NsSize r \<noteq> 0" and "\<not> bit (NsFlags ns) LocalBit"
  shows "IsNameSpaceTypeAppDirect x (\<not> latest)" and "ValidateNamespaceLabel x (\<not> latest) = EFI_SUCCESS" and "latest \<Longrightarrow> known_type x"
  using assms by (auto simp: label_of_def IsNameSpaceTypeAppDirect_def ValidateNamespaceLabel_def known_type_def bit_unset_bit_iff)

lemma CollectLabel_found:
  assumes l: "label_of latest ns pIS r0 l" and x: "label_of latest ns pIS r x" "NsSize r \<noteq> 0" "\<not> bit (NsFlags ns) LocalBit"
    and sec: "fst sec = EFI_SUCCESS" "IsConfiguringAllowed (snd sec)"
    and n: "length (Range (Core n)) < 64" "NsCookie (Core n) = cookie_for latest pIS"
  shows "CollectLabel (\<not> latest) l (NsDimm r) sec x (n, f, cap) = Some (Inr (found_label latest ns r (n, f, cap)))"
proof -
  have r: "\<lparr>NsDimm = NsDimm r, NsDpa = NsDpa r, NsSize = NsSize r\<rparr> = r" by simp
  have eq: "lFlags l = lFlags x" "lLbaSize l = lLbaSize x" "lName l = lName x" "lInterleaveSetCookie x = NsCookie (Core n)"
    using l x(1) n(2) by (simp_all add: label_of_def)
  show ?thesis
  proof (cases latest)
    case True
    with x(1) label_of_valid [OF x] sec n(1) show ?thesis
      by (cases "IsBttEnabled ns") (simp_all add: CollectLabel_def eq r label_of_def found_label_def Let_def)
  next
    case False
    with x(1) label_of_valid [OF x] sec n(1) show ?thesis
      by (simp add: CollectLabel_def eq r label_of_def found_label_def Let_def)
  qed
qed

text \<open>
  A DIMM as the loop over all DIMMs finds it, where \<open>R\<close> gives the range of the namespace on a DIMM, if
  there is one: the label of that range is in the table and the DIMM may be accessed.
\<close>

definition shows_label :: "bool \<Rightarrow> label_ns \<Rightarrow> nvm_is \<Rightarrow> label_dimm \<Rightarrow> ns_range \<Rightarrow> bool" where
  "shows_label latest ns pIS dm r \<longleftrightarrow> NsSize r \<noteq> 0 \<and> fst (SecurityState dm) = EFI_SUCCESS
     \<and> IsConfiguringAllowed (snd (SecurityState dm))
     \<and> (\<exists>t k x. known_dimm dm t \<and> page t = page_for latest \<and> labels t k = Some x \<and> label_of latest ns pIS r x
          \<and> (\<forall>i y. labels t i = Some y \<longrightarrow> lUuid y = NamespaceGuid ns \<longrightarrow> i = k))"

definition shows_range :: "bool \<Rightarrow> label_ns \<Rightarrow> nvm_is \<Rightarrow> (dimm_ref \<Rightarrow> ns_range option) \<Rightarrow> label_dimm list \<Rightarrow> dimm_ref \<Rightarrow> bool" where
  "shows_range latest ns pIS R ds d \<longleftrightarrow> (case R d of
       None \<Rightarrow> \<not> Manageable (LsaDimm (ds ! d))
         \<or> (\<exists>t. known_dimm (ds ! d) t \<and> (\<forall>y \<in> ran (labels t). lUuid y \<noteq> NamespaceGuid ns))
     | Some r \<Rightarrow> NsDimm r = d \<and> shows_label latest ns pIS (ds ! d) r)"

lemma CollectLabels_found:
  assumes "label_of latest ns pIS r0 l" and "\<not> bit (NsFlags ns) LocalBit"
    and "\<forall>d\<in>set ks. shows_range latest ns pIS R ds d"
    and "length (Range (Core (fst c))) + length (List.map_filter R ks) \<le> 64" and "NsCookie (Core (fst c)) = cookie_for latest pIS"
  shows "CollectLabels (\<not> latest) l ks ds c = Some (Inr (fold (found_label latest ns) (List.map_filter R ks) c), ds)"
  using assms(3-)
proof (induction ks arbitrary: c)
  case Nil
  then show ?case by (simp add: map_filter_simps)
next
  case (Cons d ks)
  have u: "lUuid l = NamespaceGuid ns" using assms(1) by (simp add: label_of_def)
  show ?case
  proof (cases "R d")
    case None
    with Cons.prems(1) consider "\<not> Manageable (LsaDimm (ds ! d))"
      | t where "known_dimm (ds ! d) t" "\<forall>y \<in> ran (labels t). lUuid y \<noteq> NamespaceGuid ns" by (auto simp: shows_range_def)
    then have "CollectLabels (\<not> latest) l (d # ks) ds c = CollectLabels (\<not> latest) l ks ds c"
      by cases (simp_all add: u GetAppDirectLabelByUUID_none)
    then show ?thesis using Cons None by (simp add: map_filter_simps)
  next
    case (Some r)
    with Cons.prems(1) have r: "NsDimm r = d" "NsSize r \<noteq> 0" "fst (SecurityState (ds ! d)) = EFI_SUCCESS"
      "IsConfiguringAllowed (snd (SecurityState (ds ! d)))" by (simp_all add: shows_range_def shows_label_def)
    from Cons.prems(1) Some obtain t k x where x: "known_dimm (ds ! d) t" "page t = page_for latest" "labels t k = Some x"
      "label_of latest ns pIS r x" "\<forall>i y. labels t i = Some y \<longrightarrow> lUuid y = NamespaceGuid ns \<longrightarrow> i = k"
      by (auto simp: shows_range_def shows_label_def)
    have m: "Manageable (LsaDimm (ds ! d))" using x(1) by (simp add: known_dimm_def)
    have "lUuid x = NamespaceGuid ns" using x(4) by (simp add: label_of_def)
    then have "GetAppDirectLabelByUUID (ds ! d) (NamespaceGuid ns) = Some (EFI_SUCCESS, Some x, ds ! d)"
      using GetAppDirectLabelByUUID_found [OF x(1,3)] label_of_valid(1) [OF x(4) r(2) assms(2)] x(2,5)
      by (cases latest) simp_all
    moreover have "CollectLabel (\<not> latest) l d (SecurityState (ds ! d)) x c = Some (Inr (found_label latest ns r c))"
      using CollectLabel_found [OF assms(1) x(4) r(2) assms(2) r(3,4), of "fst c"] Cons.prems(2,3) Some r(1)
      by (cases c) (simp add: map_filter_simps)
    ultimately have "CollectLabels (\<not> latest) l (d # ks) ds c = CollectLabels (\<not> latest) l ks ds (found_label latest ns r c)"
      using m by (simp add: u)
    moreover have "length (Range (Core (fst (found_label latest ns r c)))) + length (List.map_filter R ks) \<le> 64"
      "NsCookie (Core (fst (found_label latest ns r c))) = cookie_for latest pIS"
      using Cons.prems(2,3) Some by (cases c; simp add: found_label_def map_filter_simps)+
    ultimately show ?thesis using Cons Some by (simp add: map_filter_simps)
  qed
qed

lemma fold_found_label:
  assumes "rs \<noteq> []"
  shows "fold (found_label latest ns) rs (n, f, cap) =
    (n\<lparr>Core := (Core n)\<lparr>Range := Range (Core n) @ rs\<rparr>, MediaBlockSize := (if latest then 4096 else 512),
       IsBttEnabled := IsBttEnabled n \<or> latest \<and> IsBttEnabled ns,
       IsRawNamespace := IsRawNamespace n \<or> latest \<and> \<not> IsBttEnabled ns\<rparr>, f + of_nat (length rs), cap + sum_list (map NsSize rs))"
  using assms
proof (induction rs arbitrary: n f cap rule: list_nonempty_induct)
  case (single r)
  then show ?case by (simp add: found_label_def)
next
  case (cons r rs)
  then show ?case by (auto simp: found_label_def)
qed

section \<open>The interleave set\<close>

text \<open>A namespace linked into an interleave set; the memory map does not depend on it.\<close>

definition linked :: "nat \<Rightarrow> nat \<Rightarrow> pmem_dev \<Rightarrow> pmem_dev" where
  "linked node j dev = dev\<lparr>ISs := (ISs dev)[j := (ISs dev ! j)\<lparr>AppDirectNamespaceList := AppDirectNamespaceList (ISs dev ! j) @ [node]\<rparr>]\<rparr>"

lemma linked_simps [simp]:
  "dimm_at (linked node j dev) = dimm_at dev" "Namespaces (linked node j dev) = Namespaces dev"
  "pFitHead (linked node j dev) = pFitHead dev" "length (ISs (linked node j dev)) = length (ISs dev)"
  by (simp_all add: linked_def)

lemma MemmapISs_update:
  assumes "DimmRegionList i = DimmRegionList (is ! j)" and "MirrorEnable i = MirrorEnable (is ! j)"
  shows "MemmapISs dimm d (is[j := i]) st = MemmapISs dimm d is st"
  using assms
proof (induction "is" arbitrary: j st)
  case (Cons a "is")
  have "MemmapISs dimm d (i # is) st = MemmapISs dimm d (a # is) st"
    if "DimmRegionList i = DimmRegionList a" "MirrorEnable i = MirrorEnable a"
  proof -
    have t: "is_range_type i = is_range_type a" using that by (simp add: is_range_type_def)
    show ?thesis unfolding MemmapISs.simps that t ..
  qed
  then show ?case using Cons by (cases j) simp_all
qed simp

lemma GetDimmFreemap_linked [simp]: "GetDimmFreemap (linked node j dev) d c p = GetDimmFreemap dev d c p"
proof -
  have "MemmapISs dimm d (ISs (linked node j dev)) st = MemmapISs dimm d (ISs dev) st" for dimm st
    by (simp add: linked_def MemmapISs_update)
  then show ?thesis unfolding GetDimmFreemap_def GetDimmMemmap_def linked_simps by (simp only:)
qed

lemma BaseSpaLoop_linked [simp]: "BaseSpaLoop (linked node j dev) spa rc rs = BaseSpaLoop dev spa rc rs"
proof (induction rs arbitrary: rc)
  case (Cons r rs)
  show ?case unfolding BaseSpaLoop.simps linked_simps Cons.IH ..
qed simp

lemma RegionsFree_ok:
  assumes "\<forall>reg\<in>set regs. \<exists>fm. GetDimmFreemap dev (RegionDimm reg) FreeCapacityForADMode [] = (EFI_SUCCESS, fm, [])
     \<and> range_free (RegionDimm reg) fm rs"
  shows "RegionsFree dev rs regs [] = (Inr True, [])"
  using assms by (induction regs) (auto split: prod.splits)

lemma AssignLoop_unique:
  fixes dev node j ns
  defines "pIS \<equiv> ISs dev ! j" and "ns' \<equiv> ns\<lparr>pParentIS := Some j\<rparr>"
  assumes "NsMajor ns = 1" and "NsMinor ns = (if latest then 2 else 1)" and "pParentIS ns = None" and "NsCookie ns = cookie_for latest pIS"
    and j: "j \<in> set js" "distinct js" "\<forall>i\<in>set js. cookie_for latest (ISs dev ! i) = cookie_for latest pIS \<longrightarrow> i = j"
    and len: "length (DimmRegionList pIS) = length (Range ns)"
    and free: "RegionsFree (linked node j dev) (Range ns) (DimmRegionList pIS) [] = (Inr True, [])"
    and base: "CalculateAppDirectNamespaceBaseSpa (linked node j dev) ns' pIS = Some (rc, ns'')"
  shows "AssignLoop node js fnd ns dev [] = Some (rc, ns'', linked node j dev, [])"
  using j
proof (induction js arbitrary: fnd)
  case (Cons i js)
  show ?case
  proof (cases "i = j")
    case True
    then show ?thesis using assms(3-6) len free base
      by (cases latest) (simp_all add: Let_def pIS_def ns'_def linked_def)
  next
    case False
    then have "cookie_for latest (ISs dev ! i) \<noteq> cookie_for latest pIS" using Cons.prems(3) by auto
    then have "AssignLoop node (i # js) fnd ns dev [] = AssignLoop node js False ns dev []"
      using assms(3,4,6) by (cases latest) (simp_all add: Let_def)
    then show ?thesis using Cons False by simp
  qed
qed simp

text \<open>
  The base address is that of the range on the DIMM whose region has offset 0, in whichever order the
  ranges were found.
\<close>

definition one_base :: "pmem_dev \<Rightarrow> subtable \<Rightarrow> ns_range list \<Rightarrow> ns_range \<Rightarrow> bool" where
  "one_base dev spa rs r0 \<longleftrightarrow> r0 \<in> set rs \<and> (\<forall>r\<in>set rs. \<exists>g. GetNvDimmRegionMappingStructureForPid (pFitHead dev)
       (DimmID (dimm_at dev (NsDimm r))) None (Some (SpaRangeIndex spa)) = Some (EFI_SUCCESS, Some g) \<and> (RegionOffset g = 0 \<longleftrightarrow> r = r0))"

lemma BaseSpaLoop_one_base:
  assumes "one_base dev spa rs r0"
  shows "BaseSpaLoop dev spa rc rs = BaseSpaLoop dev spa EFI_SUCCESS [r0]"
proof -
  obtain g0 where g0: "GetNvDimmRegionMappingStructureForPid (pFitHead dev) (DimmID (dimm_at dev (NsDimm r0))) None (Some (SpaRangeIndex spa))
      = Some (EFI_SUCCESS, Some g0)" "RegionOffset g0 = 0" using assms by (auto simp: one_base_def)
  have "r0 \<in> set rs" using assms by (simp add: one_base_def)
  moreover have "\<forall>r\<in>set rs. \<exists>g. GetNvDimmRegionMappingStructureForPid (pFitHead dev)
       (DimmID (dimm_at dev (NsDimm r))) None (Some (SpaRangeIndex spa)) = Some (EFI_SUCCESS, Some g) \<and> (RegionOffset g = 0 \<longleftrightarrow> r = r0)"
    using assms by (simp add: one_base_def)
  ultimately show ?thesis
  proof (induction rs arbitrary: rc)
    case (Cons r rs)
    from Cons.prems(2) obtain g where g: "GetNvDimmRegionMappingStructureForPid (pFitHead dev) (DimmID (dimm_at dev (NsDimm r))) None
        (Some (SpaRangeIndex spa)) = Some (EFI_SUCCESS, Some g)" "RegionOffset g = 0 \<longleftrightarrow> r = r0" by auto
    show ?case
    proof (cases "r = r0")
      case True
      then show ?thesis using g0 by simp
    next
      case False
      then have "BaseSpaLoop dev spa rc (r # rs) = BaseSpaLoop dev spa EFI_SUCCESS rs" using g by simp
      then show ?thesis using Cons False by simp
    qed
  qed simp
qed

section \<open>Assembling\<close>

text \<open>The namespace \<open>ns'\<close> is \<open>ns\<close> again, with ranges \<open>rs\<close> in the order of the DIMMs and base address \<open>a\<close>.\<close>

definition restored :: "bool \<Rightarrow> label_ns \<Rightarrow> nat \<Rightarrow> nvm_is \<Rightarrow> ns_range list \<Rightarrow> u64 \<Rightarrow> label_ns \<Rightarrow> bool" where
  "restored latest ns j pIS rs a ns' \<longleftrightarrow> NamespaceGuid ns' = NamespaceGuid ns \<and> Name ns' = take 63 (Name ns) @ [0]
     \<and> NsFlags ns' = unset_bit UpdatingBit (NsFlags ns) \<and> HealthState ns' = NAMESPACE_HEALTH_OK
     \<and> IsBttEnabled ns' = (latest \<and> IsBttEnabled ns) \<and> \<not> IsPfnEnabled ns' \<and> MediaBlockSize ns' = (if latest then 4096 else 512)
     \<and> UsableSize ns' = sum_list (map NsSize rs)
     \<and> Core ns' = \<lparr>NamespaceType = APPDIRECT_NAMESPACE, Range = rs, SpaNamespaceBase = a, NsCookie = cookie_for latest pIS,
          NsMajor = NSINDEX_MAJOR, NsMinor = (if latest then NSINDEX_MINOR_2 else NSINDEX_MINOR_1), pParentIS = Some j\<rparr>"

lemma CollectLabels_new:
  assumes l: "label_of latest ns pIS r0 l" "\<not> bit (NsFlags ns) LocalBit"
    and ds: "\<forall>d<length ds. shows_range latest ns pIS R ds d"
    and rs: "rs = List.map_filter R [0..<length ds]" "rs \<noteq> []" "length rs \<le> 64"
  shows "CollectLabels (\<not> latest) l [0..<length ds] ds (NewNamespace (\<not> latest) l, 0, 0) = Some (Inr
    ((NewNamespace (\<not> latest) l)\<lparr>Core := (Core (NewNamespace (\<not> latest) l))\<lparr>Range := rs\<rparr>, MediaBlockSize := (if latest then 4096 else 512),
       IsBttEnabled := latest \<and> IsBttEnabled ns, IsRawNamespace := latest \<and> \<not> IsBttEnabled ns\<rparr>, of_nat (length rs), sum_list (map NsSize rs)), ds)"
proof -
  have c: "NsCookie (Core (NewNamespace (\<not> latest) l)) = cookie_for latest pIS" using l(1) by (simp add: NewNamespace_def label_of_def)
  have n: "Range (Core (NewNamespace (\<not> latest) l)) = []" "\<not> IsBttEnabled (NewNamespace (\<not> latest) l)"
    "\<not> IsRawNamespace (NewNamespace (\<not> latest) l)" by (simp_all add: NewNamespace_def)
  have "\<forall>d\<in>set [0..<length ds]. shows_range latest ns pIS R ds d" using ds by simp
  from CollectLabels_found [OF l this, of "(NewNamespace (\<not> latest) l, 0, 0)"] c n rs
  show ?thesis by (simp add: fold_found_label)
qed

text \<open>
  What binds ranges \<open>rs\<close> to the interleave set \<open>j\<close>: a cookie that no other set has, a range on every DIMM
  in memory that is still free, and a base address.
\<close>

definition bindable :: "bool \<Rightarrow> label_ns \<Rightarrow> nat \<Rightarrow> pmem_dev \<Rightarrow> ns_range list \<Rightarrow> u64 \<Rightarrow> bool" where
  "bindable latest ns j dev rs a \<longleftrightarrow> rs \<noteq> [] \<and> length rs \<le> 64 \<and> length (Range (Core ns)) = length rs
     \<and> length (DimmRegionList (ISs dev ! j)) = length rs \<and> j < length (ISs dev)
     \<and> (\<forall>i<length (ISs dev). cookie_for latest (ISs dev ! i) = cookie_for latest (ISs dev ! j) \<longrightarrow> i = j)
     \<and> (\<forall>reg\<in>set (DimmRegionList (ISs dev ! j)). \<exists>fm. GetDimmFreemap dev (RegionDimm reg) FreeCapacityForADMode [] = (EFI_SUCCESS, fm, [])
          \<and> range_free (RegionDimm reg) fm rs)
     \<and> (\<exists>spa. pSpaTbl (ISs dev ! j) = Some spa \<and> BaseSpaLoop dev spa EFI_INVALID_PARAMETER rs = Some (Inr a))"

lemma AssembleNamespace_created:
  fixes st :: label_dev and j
  defines "dev \<equiv> Pm st" and "ds \<equiv> LabelDimms st" and "pIS \<equiv> ISs (Pm st) ! j"
  assumes l: "label_of latest ns pIS r0 l" "NsSize r0 \<noteq> 0" "\<not> bit (NsFlags ns) LocalBit" and heap: "heap st = []"
    and ds: "\<forall>d<length ds. shows_range latest ns pIS R ds d"
    and map: "rs = List.map_filter R [0..<length ds]" and bind: "bindable latest ns j dev rs a"
  shows "\<exists>ns'. AssembleNamespace (\<not> latest) slot l st = Some (Inr ns', st\<lparr>Pm := linked (length (NsList st)) j dev\<rparr>)
    \<and> restored latest ns j pIS rs a ns'"
proof -
  have pIS: "pIS = ISs dev ! j" by (simp add: pIS_def dev_def)
  obtain spa where rs: "rs \<noteq> []" "length rs \<le> 64" "length (Range (Core ns)) = length rs" "length (DimmRegionList pIS) = length rs"
    and j: "j < length (ISs dev)" "\<forall>i<length (ISs dev). cookie_for latest (ISs dev ! i) = cookie_for latest pIS \<longrightarrow> i = j"
    and free: "\<forall>reg\<in>set (DimmRegionList pIS). \<exists>fm. GetDimmFreemap dev (RegionDimm reg) FreeCapacityForADMode [] = (EFI_SUCCESS, fm, [])
       \<and> range_free (RegionDimm reg) fm rs"
    and base: "pSpaTbl pIS = Some spa" "BaseSpaLoop dev spa EFI_INVALID_PARAMETER rs = Some (Inr a)"
    using bind unfolding bindable_def pIS by blast
  note valid = label_of_valid [OF l]
  let ?node = "length (NsList st)" and ?v = "\<not> latest"
  define core where "core = (Core (NewNamespace ?v l))\<lparr>Range := rs, NamespaceType := APPDIRECT_NAMESPACE\<rparr>"
  define n where "n = (NewNamespace ?v l)\<lparr>Core := (Core (NewNamespace ?v l))\<lparr>Range := rs\<rparr>, MediaBlockSize := (if latest then 4096 else 512),
      IsBttEnabled := latest \<and> IsBttEnabled ns, IsRawNamespace := latest \<and> \<not> IsBttEnabled ns\<rparr>"
  have c: "CollectLabels ?v l [0..<length ds] ds (NewNamespace ?v l, 0, 0) = Some (Inr (n, of_nat (length rs), sum_list (map NsSize rs)), ds)"
    unfolding n_def by (rule CollectLabels_new [OF l(1,3) ds map rs(1,2)])
  have k: "NsCookie core = cookie_for latest pIS" using l(1) by (simp add: core_def NewNamespace_def label_of_def)
  have m: "NsMajor core = 1" "NsMinor core = (if latest then 2 else 1)" "pParentIS core = None" "Range core = rs"
    by (simp_all add: core_def NewNamespace_def)
  let ?core = "core\<lparr>pParentIS := Some j, SpaNamespaceBase := a\<rparr>"
  have "RegionsFree (linked ?node j dev) (Range core) (DimmRegionList pIS) [] = (Inr True, [])"
    using free by (intro RegionsFree_ok) (simp add: m)
  moreover have "CalculateAppDirectNamespaceBaseSpa (linked ?node j dev) (core\<lparr>pParentIS := Some j\<rparr>) pIS = Some (EFI_SUCCESS, ?core)"
    using base rs(1) by (simp add: CalculateAppDirectNamespaceBaseSpa_def m)
  moreover have "\<forall>i\<in>set [0..<length (ISs dev)]. cookie_for latest (ISs dev ! i) = cookie_for latest (ISs dev ! j) \<longrightarrow> i = j"
    using j(2) unfolding set_upt pIS by (metis atLeastLessThan_iff)
  moreover have "j \<in> set [0..<length (ISs dev)]" using j(1) by simp
  moreover have "length (DimmRegionList pIS) = length (Range core)" using rs(4) m(4) by simp
  moreover have "distinct [0..<length (ISs dev)]" by simp
  ultimately have f: "FindAndAssignISForNamespace ?node core dev [] = Some (EFI_SUCCESS, ?core, linked ?node j dev, [])"
    using AssignLoop_unique [of core latest dev j "[0..<length (ISs dev)]" ?node EFI_SUCCESS ?core False] m(1-3) k
    unfolding FindAndAssignISForNamespace_def pIS by blast
  have num: "ucast (lNumberOfLabels l) = (of_nat (length rs) :: u32)"
    using l(1) rs(2,3) by (simp add: label_of_def word_unat_eq_iff unsigned_of_nat unsigned_ucast_eq take_bit_nat_eq_self)
  have core: "(Core n)\<lparr>NamespaceType := APPDIRECT_NAMESPACE\<rparr> = core" by (simp add: n_def core_def)
  define ns' where "ns' = n\<lparr>Core := ?core, BlockCount := sum_list (map NsSize rs), UsableSize := sum_list (map NsSize rs),
      NamespaceId := CREATE_NAMESPACE_ID (RegionId (ISs (linked ?node j dev) ! j)) slot\<rparr>"
  have h: "HealthState n = NAMESPACE_HEALTH_OK" by (simp add: n_def NewNamespace_def)
  have st: "st\<lparr>heap := [], LabelDimms := LabelDimms st, Pm := d, heap := []\<rparr> = st\<lparr>Pm := d\<rparr>" for d using heap by simp
  have "AssembleNamespace ?v slot l st = Some (Inr ns', st\<lparr>Pm := linked ?node j dev\<rparr>)"
    using valid c f h num core heap
    by (simp add: AssembleNamespace_def dev_def [symmetric] ds_def [symmetric] ns'_def ParentHealth_def Let_def)
  moreover have "restored latest ns j pIS rs a ns'"
    using l(1) by (simp add: restored_def ns'_def n_def core_def NewNamespace_def label_of_def)
  ultimately show ?thesis by blast
qed

end
