(* ===== verification/Namespace_Restart.thy ===== *)
theory Namespace_Restart
  imports Namespace_Assemble
begin

text \<open>
  Namespaces over a restart of the driver: what \<open>CreateNamespace\<close> allocated and wrote to the labels is
  found again by \<open>InitializeNamespaces\<close>, and a creation that fails on one DIMM leaves no labels on the
  others.
\<close>

section \<open>One label storage area\<close>

text \<open>The label in slot \<open>k\<close> adds nothing: the slot is free or its namespace is known.\<close>

definition skipped :: "namespace_index \<Rightarrow> namespace_label list \<Rightarrow> label_dev \<Rightarrow> nat \<Rightarrow> bool" where
  "skipped idx ls st k \<longleftrightarrow> CheckSlotStatus idx (of_nat k) = SLOT_FREE \<or> (\<exists>n\<in>set (NsList st). NamespaceGuid n = lUuid (ls ! k))"

lemma RetrieveLoop_skip:
  assumes "\<forall>k\<in>set ks. skipped idx ls st k"
  shows "RetrieveLoop detect idx ls ks st s = Some (EFI_SUCCESS, st, s)"
  using assms by (induction ks) (auto simp: skipped_def list_ex_iff Let_def)

lemma RetrieveLoop_one:
  fixes ns' :: label_ns and detect :: "bool \<Rightarrow> label_ns \<Rightarrow> 's \<Rightarrow> label_ns \<times> 's" and idx s
  defines "e \<equiv> EnableNamespace detect (label_version_1_1 idx) ns' s"
  assumes k: "k \<in> set ks" "distinct ks" "\<forall>i\<in>set ks. CheckSlotStatus idx (of_nat i) = SLOT_FREE \<longleftrightarrow> i \<noteq> k"
    and "NsList st = []" and "ValidateNamespaceLabel (ls ! k) (label_version_1_1 idx) = EFI_SUCCESS"
    and "AssembleNamespace (label_version_1_1 idx) k (ls ! k) st = Some (Inr ns', st')"
  shows "RetrieveLoop detect idx ls ks st s = Some (EFI_SUCCESS, AddNamespace (fst e) st', snd e)"
  using k
proof (induction ks)
  case (Cons i ks)
  show ?case
  proof (cases "i = k")
    case True
    then have "\<forall>i\<in>set ks. skipped idx ls (AddNamespace (fst e) st') i" using Cons.prems by (auto simp: skipped_def)
    note skip = RetrieveLoop_skip [OF this, of detect "snd e"]
    have "EnableNamespace detect (label_version_1_1 idx) ns' s = (fst e, snd e)" by (simp add: e_def)
    with skip True Cons.prems(3) assms(5-7) show ?thesis by (simp add: case_prod_beta)
  next
    case False
    then show ?thesis using Cons by simp
  qed
qed simp

lemma RetrieveNamespacesFromLsa_loop:
  assumes "pLsaCache (LabelDimms st ! d) = Some l" and "lsa_ok l"
  shows "RetrieveNamespacesFromLsa detect d st s = RetrieveLoop detect (Index l ! cur_index l) (pLabels l) [0..<num_labels l] st s"
  using assms(1) lsa_ok_current(2) [OF assms(2)] lsa_ok_cur(1,3) [OF assms(2)]
  by (simp add: RetrieveNamespacesFromLsa_def GetLsaIndexes_def index_ok_def num_labels_def)

lemma slot_free_map:
  assumes "lsa_ok l" and "k < num_labels l"
  shows "CheckSlotStatus (Index l ! cur_index l) (of_nat k) = SLOT_FREE \<longleftrightarrow> lsa_map l k = None"
proof -
  note u = used_slot(2,3) [OF assms(1) lsa_ok_current(1) [OF assms(1)] assms(2)]
  show ?thesis using assms(2) by (simp add: CheckSlotStatus_iff [OF u(2,1)] lsa_map_def)
qed

lemma label_version_page:
  assumes "lsa_ok l" and "page_size (Index l ! 0) = page_for latest"
  shows "label_version_1_1 (Index l ! cur_index l) \<longleftrightarrow> \<not> latest"
  using lsa_ok_cur(4) [OF assms(1)] assms(2) by (cases latest) (auto simp: page_size_def split: if_splits)

section \<open>All DIMMs\<close>

text \<open>Nothing but the status of label storage areas has changed.\<close>

definition same_labels :: "label_dev \<Rightarrow> label_dev \<Rightarrow> bool" where
  "same_labels st st' \<longleftrightarrow> NsList st' = NsList st \<and> Pm st' = Pm st \<and> heap st' = heap st
     \<and> list_all2 (\<lambda>dm dm'. dm' = dm \<or> dm' = dm\<lparr>LsaDimm := (LsaDimm dm)\<lparr>LsaStatus := LSA_OK\<rparr>\<rparr>) (LabelDimms st) (LabelDimms st')"

lemma same_labels_refl: "same_labels st st"
  by (simp add: same_labels_def list_all2_refl)

lemma same_labels_trans [trans]: "same_labels st st' \<Longrightarrow> same_labels st' st'' \<Longrightarrow> same_labels st st''"
  unfolding same_labels_def by (auto elim: list_all2_trans [rotated])

lemma same_labels_length: "same_labels st st' \<Longrightarrow> length (LabelDimms st') = length (LabelDimms st)"
  by (auto simp: same_labels_def dest: list_all2_lengthD)

lemma same_labels_ok: "same_labels st (set_lsa_status d LSA_OK st)"
  by (cases "d < length (LabelDimms st)")
    (auto simp: same_labels_def set_lsa_status_def list_all2_conv_all_nth nth_list_update)

text \<open>A DIMM that adds nothing.\<close>

definition nothing_new :: "label_dev \<Rightarrow> dimm_ref \<Rightarrow> bool" where
  "nothing_new st d \<longleftrightarrow> d < length (LabelDimms st) \<and> (\<not> Manageable (LsaDimm (LabelDimms st ! d))
     \<or> LsaStatus (LsaDimm (LabelDimms st ! d)) \<noteq> LSA_NOT_INIT
       \<and> (\<exists>l. pLsaCache (LabelDimms st ! d) = Some l \<and> lsa_ok l
            \<and> (\<forall>y\<in>ran (lsa_map l). \<exists>n\<in>set (NsList st). NamespaceGuid n = lUuid y)))"

lemma nothing_new_same: "same_labels st st' \<Longrightarrow> nothing_new st d \<Longrightarrow> nothing_new st' d"
  by (auto simp: same_labels_def nothing_new_def list_all2_conv_all_nth)

lemma RetrieveNamespaces_nothing:
  assumes "pLsaCache (LabelDimms st ! d) = Some l" and "lsa_ok l"
    and "\<forall>y\<in>ran (lsa_map l). \<exists>n\<in>set (NsList st). NamespaceGuid n = lUuid y"
  shows "RetrieveNamespacesFromLsa detect d st s = Some (EFI_SUCCESS, st, s)"
proof -
  have "skipped (Index l ! cur_index l) (pLabels l) st k" if "k < num_labels l" for k
    using slot_free_map [OF assms(2) that] assms(3) that
    by (cases "lsa_map l k") (auto simp: skipped_def ran_def lsa_map_def split: if_splits)
  then show ?thesis by (simp add: RetrieveNamespacesFromLsa_loop [OF assms(1,2)] RetrieveLoop_skip)
qed

lemma RetrieveAll_nothing:
  assumes "\<forall>d\<in>set ds. nothing_new st d"
  shows "\<exists>st'. RetrieveAll detect (ds @ es) rc st s = RetrieveAll detect es rc st' s \<and> same_labels st st'"
  using assms
proof (induction ds arbitrary: st)
  case Nil
  then show ?case using same_labels_refl by auto
next
  case (Cons d ds)
  show ?case
  proof (cases "Manageable (LsaDimm (LabelDimms st ! d))")
    case False
    then show ?thesis using Cons by auto
  next
    case True
    with Cons.prems obtain l where l: "pLsaCache (LabelDimms st ! d) = Some l" "lsa_ok l"
      "\<forall>y\<in>ran (lsa_map l). \<exists>n\<in>set (NsList st). NamespaceGuid n = lUuid y"
      "LsaStatus (LsaDimm (LabelDimms st ! d)) \<noteq> LSA_NOT_INIT" by (auto simp: nothing_new_def)
    let ?st = "set_lsa_status d LSA_OK st"
    have "\<forall>d\<in>set ds. nothing_new ?st d" using Cons.prems nothing_new_same [OF same_labels_ok] by auto
    from Cons.IH [OF this] obtain st' where st': "RetrieveAll detect (ds @ es) rc ?st s = RetrieveAll detect es rc st' s"
      "same_labels ?st st'" by blast
    have "RetrieveAll detect ((d # ds) @ es) rc st s = RetrieveAll detect (ds @ es) rc ?st s"
      using True l by (simp add: RetrieveNamespaces_nothing [OF l(1-3)] Let_def)
    then show ?thesis using st' same_labels_trans [OF same_labels_ok] by auto
  qed
qed

section \<open>A single namespace\<close>

text \<open>The cached label storage area of a DIMM holds the label of range \<open>r\<close> and nothing else, or nothing at all.\<close>

definition only_label :: "bool \<Rightarrow> label_ns \<Rightarrow> nvm_is \<Rightarrow> ns_range option \<Rightarrow> label_dimm \<Rightarrow> bool" where
  "only_label latest ns pIS ro dm \<longleftrightarrow> (\<not> Manageable (LsaDimm dm) \<and> ro = None)
     \<or> Manageable (LsaDimm dm) \<and> pool (LsaDimm dm) = [] \<and> LsaStatus (LsaDimm dm) \<noteq> LSA_NOT_INIT
       \<and> (\<exists>l. pLsaCache dm = Some l \<and> lsa_ok l \<and> (case ro of
            None \<Rightarrow> lsa_map l = Map.empty
          | Some r \<Rightarrow> NsSize r \<noteq> 0 \<and> fst (SecurityState dm) = EFI_SUCCESS \<and> IsConfiguringAllowed (snd (SecurityState dm))
              \<and> page_size (Index l ! 0) = page_for latest \<and> (\<exists>k x. lsa_map l = [k \<mapsto> x] \<and> label_of latest ns pIS r x)))"

lemma only_label_shows:
  assumes "only_label latest ns pIS (R d) (ds ! d)" and "\<And>r. R d = Some r \<Longrightarrow> NsDimm r = d"
  shows "shows_range latest ns pIS R ds d"
proof (cases "R d")
  case None
  then show ?thesis using assms(1)
    by (auto simp: only_label_def shows_range_def known_dimm_def)
next
  case (Some r)
  with assms(1) obtain l k x where x: "Manageable (LsaDimm (ds ! d))" "pool (LsaDimm (ds ! d)) = []" "pLsaCache (ds ! d) = Some l"
    "lsa_ok l" "NsSize r \<noteq> 0" "fst (SecurityState (ds ! d)) = EFI_SUCCESS" "IsConfiguringAllowed (snd (SecurityState (ds ! d)))"
    "page_size (Index l ! 0) = page_for latest" "lsa_map l = [k \<mapsto> x]" "label_of latest ns pIS r x" by (auto simp: only_label_def)
  have "known_dimm (ds ! d) (lsa_table l)" using x(1-4) by (simp add: known_dimm_def)
  moreover have "labels (lsa_table l) k = Some x" "page (lsa_table l) = page_for latest"
    "\<forall>i y. labels (lsa_table l) i = Some y \<longrightarrow> lUuid y = NamespaceGuid ns \<longrightarrow> i = k" using x(8,9) by (auto split: if_splits)
  ultimately have "shows_label latest ns pIS (ds ! d) r" unfolding shows_label_def using x(5-7,10) by blast
  then show ?thesis using Some assms(2) by (simp add: shows_range_def)
qed

lemma only_label_same:
  assumes "same_labels st st'" and "d < length (LabelDimms st)" and "only_label latest ns pIS ro (LabelDimms st ! d)"
  shows "only_label latest ns pIS ro (LabelDimms st' ! d)"
proof -
  have "LabelDimms st' ! d = LabelDimms st ! d
      \<or> LabelDimms st' ! d = (LabelDimms st ! d)\<lparr>LsaDimm := (LsaDimm (LabelDimms st ! d))\<lparr>LsaStatus := LSA_OK\<rparr>\<rparr>"
    using assms(1,2) by (auto simp: same_labels_def list_all2_conv_all_nth)
  then show ?thesis using assms(3) by (elim disjE; cases ro; cases latest) (auto simp: only_label_def)
qed

lemma only_label_nothing:
  assumes "d < length (LabelDimms st)" and "only_label latest ns pIS ro (LabelDimms st ! d)"
    and "ro = None \<or> (\<exists>n\<in>set (NsList st). NamespaceGuid n = NamespaceGuid ns)"
  shows "nothing_new st d"
proof (cases ro)
  case None
  then show ?thesis using assms(1,2) by (auto simp: nothing_new_def only_label_def)
next
  case (Some r)
  with assms(2) obtain l k x where x: "LsaStatus (LsaDimm (LabelDimms st ! d)) \<noteq> LSA_NOT_INIT" "pLsaCache (LabelDimms st ! d) = Some l"
    "lsa_ok l" "lsa_map l = [k \<mapsto> x]" "lUuid x = NamespaceGuid ns" by (auto simp: only_label_def label_of_def)
  have "ran (lsa_map l) = {x}" by (simp add: x(4))
  then have "\<forall>y\<in>ran (lsa_map l). \<exists>n\<in>set (NsList st). NamespaceGuid n = lUuid y" using assms(3) Some x(5) by simp
  then show ?thesis unfolding nothing_new_def using assms(1) x(1-3) by blast
qed

lemma split_first:
  fixes R :: "nat \<Rightarrow> 'a option"
  assumes "List.map_filter R [0..<n] \<noteq> []"
  obtains d r where "d < n" and "R d = Some r" and "\<forall>i<d. R i = None" and "[0..<n] = [0..<d] @ d # [Suc d..<n]"
proof -
  have "\<exists>d<n. R d \<noteq> None"
  proof (rule ccontr)
    assume "\<not> (\<exists>d<n. R d \<noteq> None)"
    then have "filter (\<lambda>d. R d \<noteq> None) [0..<n] = []" by (simp add: filter_empty_conv)
    with assms show False by (simp add: List.map_filter_def)
  qed
  then obtain d where d: "d < n" "R d \<noteq> None" "\<forall>i<d. \<not> (i < n \<and> R i \<noteq> None)"
    using exists_least_iff [of "\<lambda>d. d < n \<and> R d \<noteq> None"] by auto
  moreover have "[0..<n] = [0..<d] @ d # [Suc d..<n]"
    using d(1) by (metis less_imp_le_nat le0 upt_add_eq_append upt_conv_Cons le_add_diff_inverse)
  ultimately show ?thesis using that by fastforce
qed

lemma Retrieve_first:
  fixes st :: label_dev and j
  defines "pIS \<equiv> ISs (Pm st) ! j"
  assumes d: "d < length (LabelDimms st)" "R d = Some r" and st: "heap st = []" "NsList st = []"
    and flag: "\<not> bit (NsFlags ns) LocalBit"
    and only: "\<forall>d<length (LabelDimms st). only_label latest ns pIS (R d) (LabelDimms st ! d) \<and> (\<forall>r. R d = Some r \<longrightarrow> NsDimm r = d)"
    and map: "rs = List.map_filter R [0..<length (LabelDimms st)]" and bind: "bindable latest ns j (Pm st) rs a"
  shows "\<exists>ns'. restored latest ns j pIS rs a ns' \<and> RetrieveNamespacesFromLsa detect d st s =
     (let e = EnableNamespace detect (\<not> latest) ns' s
      in Some (EFI_SUCCESS, AddNamespace (fst e) (st\<lparr>Pm := linked 0 j (Pm st)\<rparr>), snd e))"
proof -
  from only d obtain l k x where l: "pLsaCache (LabelDimms st ! d) = Some l" "lsa_ok l" "NsSize r \<noteq> 0"
    "page_size (Index l ! 0) = page_for latest" "lsa_map l = [k \<mapsto> x]" "label_of latest ns pIS r x" by (fastforce simp: only_label_def)
  have sh: "\<forall>d<length (LabelDimms st). shows_range latest ns pIS R (LabelDimms st) d"
    using only only_label_shows [of latest ns pIS R _ "LabelDimms st"] by blast
  have k: "k < num_labels l" "pLabels l ! k = x" using fun_cong [OF l(5), of k] by (auto simp: lsa_map_def split: if_splits)
  let ?idx = "Index l ! cur_index l"
  have v: "label_version_1_1 ?idx \<longleftrightarrow> \<not> latest" by (rule label_version_page [OF l(2,4)])
  obtain ns' where ns': "AssembleNamespace (\<not> latest) k x st = Some (Inr ns', st\<lparr>Pm := linked 0 j (Pm st)\<rparr>)" "restored latest ns j pIS rs a ns'"
    using AssembleNamespace_created [OF l(6) [unfolded pIS_def] l(3) flag st(1) sh [unfolded pIS_def] map bind, of k] st(2) unfolding pIS_def by auto
  have valid: "ValidateNamespaceLabel x (\<not> latest) = EFI_SUCCESS" by (rule label_of_valid(2) [OF l(6,3) flag])
  have "\<forall>i\<in>set [0..<num_labels l]. CheckSlotStatus ?idx (of_nat i) = SLOT_FREE \<longleftrightarrow> i \<noteq> k"
    using slot_free_map [OF l(2)] by (simp add: l(5))
  then show ?thesis
    using RetrieveLoop_one [of k "[0..<num_labels l]" ?idx st "pLabels l" ns' _ detect s] k st(2) valid ns'
    by (auto simp: RetrieveNamespacesFromLsa_loop [OF l(1,2)] v Let_def)
qed

lemma RetrieveAll_created:
  fixes st :: label_dev and j
  defines "pIS \<equiv> ISs (Pm st) ! j"
  assumes st: "heap st = []" "NsList st = []" and flag: "\<not> bit (NsFlags ns) LocalBit"
    and only: "\<forall>d<length (LabelDimms st). only_label latest ns pIS (R d) (LabelDimms st ! d) \<and> (\<forall>r. R d = Some r \<longrightarrow> NsDimm r = d)"
    and map: "rs = List.map_filter R [0..<length (LabelDimms st)]" and bind: "bindable latest ns j (Pm st) rs a"
    and detect: "\<And>v n s. NamespaceGuid (fst (detect v n s)) = NamespaceGuid n"
  shows "\<exists>ns' st'. restored latest ns j pIS rs a ns'
    \<and> (let e = EnableNamespace detect (\<not> latest) ns' s
       in RetrieveAll detect [0..<length (LabelDimms st)] EFI_SUCCESS st s = Some (EFI_SUCCESS, st', snd e)
          \<and> NsList st' = [fst e] \<and> Namespaces (Pm st') = Namespaces (Pm st) @ [Core (fst e)])"
proof -
  let ?N = "length (LabelDimms st)"
  have "List.map_filter R [0..<?N] \<noteq> []" using bind map by (simp add: bindable_def)
  then obtain d r where d: "d < ?N" "R d = Some r" "\<forall>i<d. R i = None" "[0..<?N] = [0..<d] @ d # [Suc d..<?N]" by (rule split_first)
  have "only_label latest ns pIS None (LabelDimms st ! i)" "i < ?N" if "i < d" for i using only d(1,3) that by (metis less_trans)+
  then have "\<forall>i\<in>set [0..<d]. nothing_new st i" using only_label_nothing by fastforce
  then obtain st1 where st1: "RetrieveAll detect [0..<?N] EFI_SUCCESS st s = RetrieveAll detect (d # [Suc d..<?N]) EFI_SUCCESS st1 s" "same_labels st st1"
    using RetrieveAll_nothing [of "[0..<d]" st detect "d # [Suc d..<?N]"] d(4) by metis
  have N: "length (LabelDimms st1) = ?N" "Pm st1 = Pm st" "heap st1 = []" "NsList st1 = []"
    using st1(2) st same_labels_length [OF st1(2)] by (simp_all add: same_labels_def)
  have only1: "\<forall>d<?N. only_label latest ns pIS (R d) (LabelDimms st1 ! d) \<and> (\<forall>r. R d = Some r \<longrightarrow> NsDimm r = d)"
    using only only_label_same [OF st1(2)] by blast
  obtain ns' where ns': "restored latest ns j pIS rs a ns'" "RetrieveNamespacesFromLsa detect d st1 s =
     (let e = EnableNamespace detect (\<not> latest) ns' s in Some (EFI_SUCCESS, AddNamespace (fst e) (st1\<lparr>Pm := linked 0 j (Pm st1)\<rparr>), snd e))"
    using Retrieve_first [of d st1 R r ns latest j rs a detect s] d(1,2) N flag only1 map bind unfolding pIS_def by auto
  define e where "e = EnableNamespace detect (\<not> latest) ns' s"
  define st2 where "st2 = AddNamespace (fst e) (st1\<lparr>Pm := linked 0 j (Pm st1)\<rparr>)"
  have m: "Manageable (LsaDimm (LabelDimms st1 ! d))" "LsaStatus (LsaDimm (LabelDimms st1 ! d)) \<noteq> LSA_NOT_INIT"
    using only1 d(1,2) by (auto simp: only_label_def)
  let ?st3 = "set_lsa_status d LSA_OK st2"
  have step: "RetrieveAll detect (d # [Suc d..<?N]) EFI_SUCCESS st1 s = RetrieveAll detect ([Suc d..<?N] @ []) EFI_SUCCESS ?st3 (snd e)"
    using m ns'(2) by (simp add: Let_def e_def st2_def)
  have "NamespaceGuid (fst e) = NamespaceGuid ns"
    using ns'(1) detect by (simp add: e_def EnableNamespace_def restored_def split: prod.splits) (metis fst_conv)
  then have known: "\<exists>n\<in>set (NsList ?st3). NamespaceGuid n = NamespaceGuid ns" by (simp add: st2_def AddNamespace_def set_lsa_status_def)
  have same: "same_labels st2 ?st3" by (rule same_labels_ok)
  have dimms: "LabelDimms st2 = LabelDimms st1" by (simp add: st2_def AddNamespace_def)
  have "nothing_new ?st3 i" if i: "i < ?N" for i
  proof (rule only_label_nothing)
    have "only_label latest ns pIS (R i) (LabelDimms st1 ! i)" using only1 i by blast
    then show "only_label latest ns pIS (R i) (LabelDimms ?st3 ! i)" using only_label_same [OF same] i N(1) dimms by simp
    show "i < length (LabelDimms ?st3)" using i N(1) same_labels_length [OF same] dimms by simp
    show "R i = None \<or> (\<exists>n\<in>set (NsList ?st3). NamespaceGuid n = NamespaceGuid ns)" using known by blast
  qed
  then obtain st' where st': "RetrieveAll detect ([Suc d..<?N] @ []) EFI_SUCCESS ?st3 (snd e) = Some (EFI_SUCCESS, st', snd e)" "same_labels ?st3 st'"
    using RetrieveAll_nothing [of "[Suc d..<?N]" ?st3 detect "[]" EFI_SUCCESS "snd e"] by auto
  have "same_labels st2 st'" using same st'(2) by (rule same_labels_trans)
  then have "NsList st' = [fst e]" "Namespaces (Pm st') = Namespaces (Pm st) @ [Core (fst e)]"
    using N by (simp_all add: same_labels_def st2_def AddNamespace_def)
  with st1(1) step st'(1) ns'(1) show ?thesis unfolding e_def Let_def by auto
qed

end
