(* ===== verification/Namespace_Cycle.thy ===== *)
theory Namespace_Cycle
  imports Namespace_Restart
begin

text \<open>
  The life of a namespace: its capacity is allocated, its labels are written, and after a restart
  \<open>InitializeNamespaces\<close> finds the same namespace.
\<close>

section \<open>Where a namespace is placed\<close>

lemma word_fits:
  assumes "range_ok x" and "z \<le> RangeLength x"
  shows "RangeStartDpa x + z \<le> RangeStartDpa x + RangeLength x"
proof -
  have "unat z \<le> unat (RangeLength x)" using assms(2) by (simp add: word_le_nat_alt)
  moreover have "unat (RangeStartDpa x + RangeLength x) = rend x" by (rule range_end [OF assms(1)])
  moreover have "rend x < 2 ^ 64" using unat_bound [of "RangeStartDpa x + RangeLength x"] calculation(2) by simp
  ultimately show ?thesis by (simp add: word_le_nat_alt unat_word_ariths)
qed

lemma FindADMemmapRangeInIS_free:
  assumes ok: "\<forall>reg\<in>set (DimmRegionList pIS). dimm_ok dev (RegionDimm reg)"
    and x: "FindADMemmapRangeInIS dev pIS z [] = Some (rc, Some x, p)" "z \<noteq> MAX_UINT64_VALUE" and reg: "reg \<in> set (DimmRegionList pIS)"
  shows "\<exists>fm. GetDimmFreemap dev (RegionDimm reg) FreeCapacityForADMode [] = (EFI_SUCCESS, fm, [])
    \<and> (\<exists>f\<in>set fm. RangeStartDpa f \<le> RangeStartDpa x \<and> RangeStartDpa x + z \<le> RangeStartDpa f + RangeLength f)"
proof -
  from FindADMemmapRangeInIS_candidate [OF ok, of z] x obtain fms s e where
    c: "free_maps dev (DimmRegionList pIS) fms" "x \<in> set (hd fms)" "candidate z s e (tl fms) x" by auto
  have "range_ok x" by (rule candidate_free(1) [OF c(3,2,1) reg])
  then have z: "RangeStartDpa x + z \<le> RangeStartDpa x + RangeLength x" using c(3) by (intro word_fits) (simp_all add: candidate_def)
  obtain i where i: "i < length (DimmRegionList pIS)" "DimmRegionList pIS ! i = reg" using reg by (meson in_set_conv_nth)
  note fi = list_all2_nthD [OF c(1) [unfolded free_maps_def] i(1), unfolded i(2)]
  have len: "length fms = length (DimmRegionList pIS)" using c(1) by (simp add: free_maps_def list_all2_lengthD)
  show ?thesis
  proof (cases i)
    case 0
    then have "x \<in> set (fms ! i)" using c(2) i(1) len by (cases fms) auto
    then show ?thesis using fi z by blast
  next
    case (Suc k)
    then have "fms ! i = tl fms ! k" "k < length (tl fms)" using i len by (simp_all add: nth_tl)
    then obtain r2 where "r2 \<in> set (fms ! i)" "within x r2" using c(3) by (fastforce simp: candidate_def list_all_length list_ex_iff)
    then show ?thesis using fi z order_trans unfolding within_def by blast
  qed
qed

lemma RdpaToSpa_status: "RdpaToSpa Rdpa region spa t = Some (Inl st) \<Longrightarrow> EFI_ERROR st"
  by (auto simp: RdpaToSpa_def Let_def split: option.splits if_splits)

lemma BaseSpaLoop_success:
  assumes "one_base dev spa rs r0" and "BaseSpaLoop dev spa rc rs = Some (Inl st)"
  shows "EFI_ERROR st"
proof -
  obtain g where g: "GetNvDimmRegionMappingStructureForPid (pFitHead dev) (DimmID (dimm_at dev (NsDimm r0))) None (Some (SpaRangeIndex spa))
      = Some (EFI_SUCCESS, Some g)" "RegionOffset g = 0" using assms(1) by (auto simp: one_base_def)
  have "BaseSpaLoop dev spa EFI_SUCCESS [r0] = Some (Inl st)" using BaseSpaLoop_one_base [OF assms(1)] assms(2) by metis
  then show ?thesis using g by (auto dest: RdpaToSpa_status split: if_splits prod.splits bind_splits)
qed

lemma CalculateAppDirectNamespaceBaseSpa_cases:
  assumes "CalculateAppDirectNamespaceBaseSpa dev ns pIS = Some (EFI_SUCCESS, ns')" and "pSpaTbl pIS = Some spa" and "Range ns \<noteq> []"
  obtains t where "BaseSpaLoop dev spa EFI_INVALID_PARAMETER (Range ns) = Some t" and "Range ns' = Range ns"
    and "case t of Inl rc \<Rightarrow> rc = EFI_SUCCESS | Inr a \<Rightarrow> SpaNamespaceBase ns' = a"
proof -
  let ?f = "case_sum (\<lambda>rc. (rc, ns)) (\<lambda>a. (EFI_SUCCESS, ns\<lparr>SpaNamespaceBase := a\<rparr>))"
  have "map_option ?f (BaseSpaLoop dev spa EFI_INVALID_PARAMETER (Range ns)) = Some (EFI_SUCCESS, ns')"
    using assms by (simp add: CalculateAppDirectNamespaceBaseSpa_def)
  then obtain t where t: "BaseSpaLoop dev spa EFI_INVALID_PARAMETER (Range ns) = Some t" "?f t = (EFI_SUCCESS, ns')"
    unfolding map_option_eq_Some by blast
  from t(2) have "Range ns' = Range ns" "case t of Inl rc \<Rightarrow> rc = EFI_SUCCESS | Inr a \<Rightarrow> SpaNamespaceBase ns' = a"
    by (cases t; force)+
  with t(1) show thesis by (rule that)
qed

text \<open>
  What a successful allocation leaves: a range on every DIMM of the set, in memory that is free, and
  the base address of the namespace.
\<close>

lemma AllocateNamespaceCapacity_placed:
  assumes ok: "\<forall>reg\<in>set (DimmRegionList pIS). dimm_ok dev (RegionDimm reg)" and ns: "NamespaceType ns = 2"
    and n: "0 < length (DimmRegionList pIS)" "length (DimmRegionList pIS) < 2 ^ 32" and spa: "pSpaTbl pIS = Some spa"
    and al: "AllocateNamespaceCapacity dev False (Some pIS) cap ns [] = Some (EFI_SUCCESS, cap', ns', p)"
    and base: "one_base dev spa (Range ns') r0"
  shows "map NsDimm (Range ns') = map RegionDimm (DimmRegionList pIS)"
    and "\<forall>reg\<in>set (DimmRegionList pIS). \<exists>fm. GetDimmFreemap dev (RegionDimm reg) FreeCapacityForADMode [] = (EFI_SUCCESS, fm, [])
       \<and> range_free (RegionDimm reg) fm (Range ns')"
    and "BaseSpaLoop dev spa EFI_INVALID_PARAMETER (Range ns') = Some (Inr (SpaNamespaceBase ns'))"
proof -
  let ?regs = "DimmRegionList pIS"
  define c :: u64 where "c = of_nat (length ?regs)"
  define z where "z = AlignNamespaceCapacity cap c div c"
  have "c \<noteq> 0" using n by (auto simp: c_def word_of_nat_eq_0_iff dest: dvd_imp_le)
  then have zmax: "z \<noteq> MAX_UINT64_VALUE" using region_size_not_max by (simp add: z_def)
  from al ns n(1) obtain rc x p' where f: "FindADMemmapRangeInIS dev pIS z [] = Some (rc, Some x, p')"
    and b: "CalculateAppDirectNamespaceBaseSpa dev (ns\<lparr>Range := map (\<lambda>reg. \<lparr>NsDimm = RegionDimm reg, NsDpa = RangeStartDpa x,
        NsSize = z\<rparr>) ?regs\<rparr>) pIS = Some (EFI_SUCCESS, ns')"
    by (auto simp: AllocateNamespaceCapacity_def Let_def z_def c_def split: if_splits bind_splits option.splits)
  obtain t where t: "BaseSpaLoop dev spa EFI_INVALID_PARAMETER (Range ns') = Some t"
    "case t of Inl rc \<Rightarrow> rc = EFI_SUCCESS | Inr a \<Rightarrow> SpaNamespaceBase ns' = a"
    and r: "Range ns' = map (\<lambda>reg. \<lparr>NsDimm = RegionDimm reg, NsDpa = RangeStartDpa x, NsSize = z\<rparr>) ?regs"
    by (rule CalculateAppDirectNamespaceBaseSpa_cases [OF b spa]) (use n(1) in auto)
  from r show "map NsDimm (Range ns') = map RegionDimm ?regs" by (simp add: comp_def)
  show "\<forall>reg\<in>set ?regs. \<exists>fm. GetDimmFreemap dev (RegionDimm reg) FreeCapacityForADMode [] = (EFI_SUCCESS, fm, [])
       \<and> range_free (RegionDimm reg) fm (Range ns')"
    using FindADMemmapRangeInIS_free [OF ok f zmax] by (fastforce simp: range_free_def r list_ex_iff)
  from t show "BaseSpaLoop dev spa EFI_INVALID_PARAMETER (Range ns') = Some (Inr (SpaNamespaceBase ns'))"
    by (cases t) (auto dest: BaseSpaLoop_success [OF base])
qed

section \<open>Restart\<close>

definition cached_from :: "label_dimm \<Rightarrow> label_dimm \<Rightarrow> bool" where
  "cached_from dm dm' \<longleftrightarrow> (if Manageable (LsaDimm dm)
     then \<exists>l. ReadLabelStorageArea (LsaDimm dm) = Some (EFI_SUCCESS, Some l, LsaDimm dm) \<and> dm' = dm\<lparr>pLsaCache := Some l\<rparr>
     else dm' = dm\<lparr>pLsaCache := None\<rparr>)"

lemma CacheLsas_ok:
  assumes "\<forall>dm\<in>set dms. Manageable (LsaDimm dm) \<longrightarrow> (\<exists>t. dimm_table (LsaDimm dm) t)"
  shows "\<exists>dms'. CacheLsas dms EFI_SUCCESS = Some (EFI_SUCCESS, dms') \<and> list_all2 cached_from dms dms'"
  using assms
proof (induction dms)
  case (Cons dm dms)
  then obtain dms' where dms': "CacheLsas dms EFI_SUCCESS = Some (EFI_SUCCESS, dms')" "list_all2 cached_from dms dms'" by auto
  show ?case
  proof (cases "Manageable (LsaDimm dm)")
    case True
    then obtain t where "dimm_table (LsaDimm dm) t" using Cons.prems by auto
    then obtain l where "ReadLabelStorageArea (LsaDimm dm) = Some (EFI_SUCCESS, Some l, LsaDimm dm)" by (rule read_dimm_table)
    then show ?thesis using True dms' by (simp add: cached_from_def [of dm])
  qed (use dms' in \<open>simp add: cached_from_def [of dm]\<close>)
qed simp

lemma cached_table:
  assumes "cached_from dm dm'" and "dimm_table (LsaDimm dm) t"
  shows "\<exists>l. dm' = dm\<lparr>pLsaCache := Some l\<rparr> \<and> lsa_ok l \<and> lsa_table l = t \<and> Manageable (LsaDimm dm) \<and> pool (LsaDimm dm) = []
    \<and> LsaStatus (LsaDimm dm) \<noteq> LSA_NOT_INIT"
proof -
  have r: "Manageable (LsaDimm dm)" "pool (LsaDimm dm) = []" "LsaStatus (LsaDimm dm) \<noteq> LSA_NOT_INIT"
    using assms(2) by (auto simp: dimm_table_def holds_def dimm_ready_def)
  obtain l where "ReadLabelStorageArea (LsaDimm dm) = Some (EFI_SUCCESS, Some l, LsaDimm dm)" "lsa_ok l" "lsa_table l = t"
    by (rule read_dimm_table [OF assms(2)])
  then show ?thesis using assms(1) r by (auto simp: cached_from_def)
qed

text \<open>The range of a namespace on a DIMM, and the ranges in the order of the DIMMs.\<close>

abbreviation range_on :: "ns_range list \<Rightarrow> dimm_ref \<Rightarrow> ns_range option" where
  "range_on rs \<equiv> map_of (map (\<lambda>r. (NsDimm r, r)) rs)"

lemma range_on_iff:
  assumes "distinct (map NsDimm rs)"
  shows "range_on rs d = Some r \<longleftrightarrow> r \<in> set rs \<and> NsDimm r = d"
  using assms by (subst map_of_eq_Some_iff) (auto simp: comp_def)

lemma ranges_by_dimm:
  assumes "distinct (map NsDimm rs)" and "\<forall>r\<in>set rs. NsDimm r < n"
  shows "mset (List.map_filter (range_on rs) [0..<n]) = mset rs"
proof -
  let ?ds = "filter (\<lambda>d. range_on rs d \<noteq> None) [0..<n]" and ?f = "\<lambda>d. the (range_on rs d)"
  have eq: "List.map_filter (range_on rs) [0..<n] = map ?f ?ds" by (simp add: List.map_filter_def comp_def)
  have "set (map ?f ?ds) = set rs"
  proof (intro set_eqI iffI)
    fix r assume "r \<in> set rs"
    then have "range_on rs (NsDimm r) = Some r" "NsDimm r < n" using assms by (auto simp: range_on_iff)
    then show "r \<in> set (map ?f ?ds)" by force
  next
    fix r assume "r \<in> set (map ?f ?ds)"
    then obtain d where "range_on rs d = Some r" by fastforce
    then show "r \<in> set rs" by (simp add: range_on_iff [OF assms(1)])
  qed
  moreover have "NsDimm (?f d) = d" if "range_on rs d \<noteq> None" for d
    using that range_on_iff [OF assms(1), of d] by (metis option.exhaust_sel)
  then have "inj_on ?f (set ?ds)" by (intro inj_on_inverseI [where g = NsDimm]) simp
  then have "distinct (map ?f ?ds)" by (simp add: distinct_map)
  moreover have "distinct rs" using assms(1) by (simp add: distinct_map)
  ultimately show ?thesis unfolding eq using set_eq_iff_mset_eq_distinct by blast
qed

lemma one_base_set: "one_base dev spa rs r0 \<Longrightarrow> set rs' = set rs \<Longrightarrow> one_base dev spa rs' r0"
  by (simp add: one_base_def)

lemma range_free_set: "range_free d fm rs \<Longrightarrow> set rs' = set rs \<Longrightarrow> range_free d fm rs'"
  by (simp add: range_free_def list_ex_iff)

lemma bindable_allocated:
  fixes dev j
  defines "pIS \<equiv> ISs dev ! j"
  assumes j: "j < length (ISs dev)" "\<forall>i<length (ISs dev). cookie_for latest (ISs dev ! i) = cookie_for latest pIS \<longrightarrow> i = j"
    and spa: "pSpaTbl pIS = Some spa" and n: "0 < length (DimmRegionList pIS)" "length (DimmRegionList pIS) \<le> 64"
    and ok: "\<forall>reg\<in>set (DimmRegionList pIS). dimm_ok dev (RegionDimm reg)"
    and al: "AllocateNamespaceCapacity dev False (Some pIS) cap core0 [] = Some (EFI_SUCCESS, cap', core, p)" "NamespaceType core0 = 2"
    and base: "one_base dev spa (Range core) r0" and ns: "Range (Core ns) = Range core" and rs: "mset rs = mset (Range core)"
  shows "bindable latest ns j dev rs (SpaNamespaceBase core)"
proof -
  have "length (DimmRegionList pIS) < 2 ^ 32" using n(2) by simp
  note a = AllocateNamespaceCapacity_placed [OF ok al(2) n(1) this spa al(1) base]
  have set: "set rs = set (Range core)" and len: "length rs = length (Range core)" using rs by (metis set_mset_mset, metis size_mset)
  have len': "length (Range core) = length (DimmRegionList pIS)" using arg_cong [OF a(1), of length] by simp
  have "BaseSpaLoop dev spa EFI_INVALID_PARAMETER rs = Some (Inr (SpaNamespaceBase core))"
    using BaseSpaLoop_one_base [OF base] BaseSpaLoop_one_base [OF one_base_set [OF base set]] a(3) by metis
  moreover have "\<forall>reg\<in>set (DimmRegionList pIS). \<exists>fm. GetDimmFreemap dev (RegionDimm reg) FreeCapacityForADMode [] = (EFI_SUCCESS, fm, [])
       \<and> range_free (RegionDimm reg) fm rs" using a(2) range_free_set [OF _ set] by blast
  moreover have "rs \<noteq> []" "length rs \<le> 64" using n len len' by auto
  moreover have "length (Range (Core ns)) = length rs" "length (DimmRegionList pIS) = length rs" using ns len len' by simp_all
  ultimately show ?thesis unfolding bindable_def pIS_def [symmetric] using j spa by blast
qed

text \<open>A DIMM without labels that has room for a label of the namespace with GUID \<open>u\<close>, and may be configured.\<close>

definition room_for :: "u8 list \<Rightarrow> bool \<Rightarrow> label_table_state \<Rightarrow> label_dimm \<Rightarrow> bool" where
  "room_for u latest t dm \<longleftrightarrow> fresh_table u (LsaDimm dm) t \<and> page t = page_for latest \<and> labels t = Map.empty \<and> 2 \<le> slots t
     \<and> fst (SecurityState dm) = EFI_SUCCESS \<and> IsConfiguringAllowed (snd (SecurityState dm))"

text \<open>A DIMM that has nothing to do with the namespace: not manageable, or without labels.\<close>

definition bystander :: "label_table_state \<Rightarrow> label_dimm \<Rightarrow> bool" where
  "bystander t dm \<longleftrightarrow> \<not> Manageable (LsaDimm dm) \<or> dimm_table (LsaDimm dm) t \<and> labels t = Map.empty"

text \<open>The DIMMs after a restart: the partitions as they were left, everything else as at start.\<close>

definition restarted :: "label_dimm list \<Rightarrow> dimm list \<Rightarrow> label_dimm list" where
  "restarted dms ds = map2 (\<lambda>dm d. dm\<lparr>LsaDimm := d\<rparr>) dms ds"

lemma only_label_cached:
  assumes "cached_from (dm\<lparr>LsaDimm := d\<rparr>) dm'" and "labelled latest ns pIS T ds r" and "ds ! NsDimm r = d"
    and "room_for u latest (T (NsDimm r)) dm" and "NsSize r \<noteq> 0"
  shows "only_label latest ns pIS (Some r) dm'"
proof -
  let ?t = "T (NsDimm r)"
  obtain x k where x: "label_of latest ns pIS r x" "dimm_table d (?t\<lparr>labels := (labels ?t)(k \<mapsto> x)\<rparr>)"
    using assms(2,3) by (auto simp: labelled_def)
  have t: "labels ?t = Map.empty" "page ?t = page_for latest" using assms(4) by (simp_all add: room_for_def)
  have "dimm_table (LsaDimm (dm\<lparr>LsaDimm := d\<rparr>)) (?t\<lparr>labels := [k \<mapsto> x]\<rparr>)" using x(2) t(1) by simp
  from cached_table [OF assms(1) this] obtain l where l: "dm' = dm\<lparr>LsaDimm := d, pLsaCache := Some l\<rparr>" "lsa_ok l"
    "lsa_table l = ?t\<lparr>labels := [k \<mapsto> x]\<rparr>" "Manageable d" "pool d = []" "LsaStatus d \<noteq> LSA_NOT_INIT" by auto
  have "lsa_map l = [k \<mapsto> x]" "page_size (Index l ! 0) = page_for latest"
    using arg_cong [OF l(3), of labels] arg_cong [OF l(3), of page] t(2) by simp_all
  then show ?thesis using l x(1) assms(4,5) by (auto simp: only_label_def room_for_def)
qed

lemma only_label_bystander:
  assumes "cached_from dm dm'" and "bystander t dm"
  shows "only_label latest ns pIS None dm'"
proof (cases "Manageable (LsaDimm dm)")
  case True
  then have t: "dimm_table (LsaDimm dm) t" "labels t = Map.empty" using assms(2) by (auto simp: bystander_def)
  from cached_table [OF assms(1) t(1)] obtain l where l: "dm' = dm\<lparr>pLsaCache := Some l\<rparr>" "lsa_ok l" "lsa_table l = t"
    "pool (LsaDimm dm) = []" "LsaStatus (LsaDimm dm) \<noteq> LSA_NOT_INIT" by auto
  have "lsa_map l = Map.empty" using l(3) t(2) by auto
  then show ?thesis using l True by (simp add: only_label_def)
next
  case False
  then show ?thesis using assms(1) by (simp add: cached_from_def only_label_def)
qed

lemma InitializeNamespaces_created:
  fixes dev j
  defines "pIS \<equiv> ISs dev ! j"
  assumes len: "length ds = length dms" and dist: "distinct (map NsDimm rs)" and rs: "\<forall>r\<in>set rs. NsDimm r < length dms \<and> NsSize r \<noteq> 0"
    and lab: "\<forall>r\<in>set rs. room_for u latest (T (NsDimm r)) (dms ! NsDimm r) \<and> labelled latest ns pIS T ds r"
    and others: "\<forall>d<length dms. d \<notin> NsDimm ` set rs \<longrightarrow> ds ! d = LsaDimm (dms ! d) \<and> bystander (T d) (dms ! d)"
    and flag: "\<not> bit (NsFlags ns) LocalBit" and bind: "\<And>rs'. mset rs' = mset rs \<Longrightarrow> bindable latest ns j dev rs' a"
    and detect: "\<And>v n s. NamespaceGuid (fst (detect v n s)) = NamespaceGuid n"
  shows "\<exists>ns' rs' st' s'. mset rs' = mset rs \<and> restored latest ns j pIS rs' a ns'
    \<and> InitializeNamespaces detect \<lparr>Pm = dev, LabelDimms = restarted dms ds, NsList = [], heap = []\<rparr> s = Some (EFI_SUCCESS, st', s')
    \<and> NsList st' = [fst (EnableNamespace detect (\<not> latest) ns' s)]
    \<and> Namespaces (Pm st') = Namespaces dev @ [Core (fst (EnableNamespace detect (\<not> latest) ns' s))]"
proof -
  let ?R = "range_on rs" and ?dms = "restarted dms ds"
  have nth: "?dms ! d = (dms ! d)\<lparr>LsaDimm := ds ! d\<rparr>" "length ?dms = length dms" if "d < length dms" for d
    using that len by (simp_all add: restarted_def)
  have N: "length ?dms = length dms" using len by (simp add: restarted_def)
  have own: "range_on rs d = None \<longleftrightarrow> d \<notin> NsDimm ` set rs" for d by (auto simp: map_of_eq_None_iff image_image)
  have bys: "bystander (T d) (?dms ! d)" if "d < length dms" "?R d = None" for d
    using others that own nth by (auto simp: bystander_def)
  have tab: "\<exists>t. dimm_table (ds ! d) t" if "d < length dms" "?R d = Some r" for d r
    using lab that range_on_iff [OF dist, of d r] by (auto simp: labelled_def)
  have "\<exists>t. dimm_table (LsaDimm (?dms ! d)) t" if "d < length dms" "Manageable (LsaDimm (?dms ! d))" for d
    using bys [OF that(1)] tab [OF that(1)] that nth(1) [OF that(1)] by (cases "?R d") (auto simp: bystander_def)
  then have "\<forall>dm\<in>set ?dms. Manageable (LsaDimm dm) \<longrightarrow> (\<exists>t. dimm_table (LsaDimm dm) t)" using N by (auto simp: in_set_conv_nth)
  from CacheLsas_ok [OF this] obtain dms' where c: "CacheLsas ?dms EFI_SUCCESS = Some (EFI_SUCCESS, dms')" "list_all2 cached_from ?dms dms'" by blast
  have len': "length dms' = length dms" using c(2) N by (simp add: list_all2_lengthD)
  have only: "only_label latest ns pIS (?R d) (dms' ! d) \<and> (\<forall>r. ?R d = Some r \<longrightarrow> NsDimm r = d)" if d: "d < length dms" for d
  proof (cases "?R d")
    case None
    then show ?thesis using only_label_bystander [OF list_all2_nthD [OF c(2)] bys] d N by simp
  next
    case (Some r)
    then have r: "r \<in> set rs" "NsDimm r = d" using range_on_iff [OF dist] by auto
    have "cached_from ((dms ! d)\<lparr>LsaDimm := ds ! d\<rparr>) (dms' ! d)" using list_all2_nthD [OF c(2)] nth(1) [OF d] N d by metis
    then have "only_label latest ns pIS (Some r) (dms' ! d)" by (rule only_label_cached) (use lab rs r in auto)
    then show ?thesis using Some r(2) by simp
  qed
  let ?st = "\<lparr>Pm = dev, LabelDimms = dms', NsList = [], heap = []\<rparr>" and ?rs = "List.map_filter ?R [0..<length dms]"
  have m: "mset ?rs = mset rs" using ranges_by_dimm [OF dist] rs by blast
  have only': "\<forall>d<length (LabelDimms ?st). only_label latest ns (ISs (Pm ?st) ! j) (?R d) (LabelDimms ?st ! d) \<and> (\<forall>r. ?R d = Some r \<longrightarrow> NsDimm r = d)"
    using only unfolding label_dev.select_convs len' pIS_def by blast
  have st: "heap ?st = []" "NsList ?st = []" "bindable latest ns j (Pm ?st) (List.map_filter ?R [0..<length (LabelDimms ?st)]) a"
    using bind [OF m] len' by simp_all
  obtain ns' st' where ns': "restored latest ns j pIS ?rs a ns'"
    "RetrieveAll detect [0..<length dms] EFI_SUCCESS ?st s = Some (EFI_SUCCESS, st', snd (EnableNamespace detect (\<not> latest) ns' s))"
    "NsList st' = [fst (EnableNamespace detect (\<not> latest) ns' s)]"
    "Namespaces (Pm st') = Namespaces dev @ [Core (fst (EnableNamespace detect (\<not> latest) ns' s))]"
    using RetrieveAll_created [where detect = detect and s = s, OF st(1,2) flag only' refl st(3) detect] unfolding label_dev.select_convs len' pIS_def Let_def by blast
  then show ?thesis using m c(1) len'
    by (intro exI [of _ ns'] exI [of _ ?rs] exI) (auto simp: InitializeNamespaces_def)
qed

section \<open>Properties\<close>


text \<open>Two DIMMs with empty label storage areas and one interleave set over both.\<close>

definition ex_dev :: pmem_dev where "ex_dev = ex_pm\<lparr>ISs := [ex_set], Namespaces := []\<rparr>"

definition ex_ldimm :: label_dimm where
  "ex_ldimm = \<lparr>LsaDimm = ex_dimm False ex_area, pLsaCache = None, SecurityState = (EFI_SUCCESS, 0)\<rparr>"

definition ex_core :: pm_namespace where
  "ex_core = ex_pm_ns\<lparr>Range := map (\<lambda>d. \<lparr>NsDimm = d, NsDpa = 0x2000, NsSize = 0x2000\<rparr>) [0, 1], SpaNamespaceBase := SystemPhysicalAddressRangeBase ex_spa\<rparr>"

definition ex_new :: label_ns where
  "ex_new = \<lparr>Core = ex_core, NamespaceGuid = replicate 16 9, Name = replicate 64 0, NsFlags = 8, NamespaceId = 0,
     HealthState = NAMESPACE_HEALTH_OK, Enabled = True, IsBttEnabled = False, IsPfnEnabled = False, IsRawNamespace = True,
     MediaBlockSize = 4096, BlockCount = 0, UsableSize = 0x4000\<rparr>"

lemma ex_find: "FindADMemmapRangeInIS ex_dev ex_set 0x2000 [] = Some (EFI_SUCCESS, Some (mk_range 0 0x2000 0x8000 MEMMAP_RANGE_FREE), [])"
proof -
  let ?fm = "\<lambda>d. [mk_range d 0x2000 0x8000 MEMMAP_RANGE_FREE]"
  have "FreemapLoop ex_dev (DimmRegionList ex_set) [] = (EFI_SUCCESS, [?fm 0, ?fm 1], [])" by code_simp
  moreover have "PmStart (dimm_at ex_dev 0) = 0x2000" by (simp add: ex_dev_def ex_pm_def ex_pmem_defs)
  moreover have "DimmRegionList ex_set = DimmRegionList ex_is" by (simp add: ex_set_def)
  ultimately show ?thesis
    by (simp add: FindADMemmapRangeInIS_def by_dpa.BubbleSortLinkedList_sorts ex_is_def MAX_UINT64_VALUE_def candidate_def in_is_def within_def)
qed

lemma ex_region: "d < 2 \<Longrightarrow> GetNvDimmRegionMappingStructureForPid (pFitHead ex_dev) (DimmID (dimm_at ex_dev d)) None (Some (SpaRangeIndex ex_spa))
    = Some (EFI_SUCCESS, Some (ex_region_of (of_nat d + 1) (if d = 0 then 0 else 0x1000)))"
proof -
  assume d: "d < 2"
  have "nfit_small ex_fit" using ex_pm_ok(3) by (simp add: fit_ok_def ex_pm_def)
  moreover have "SpaRangeIndex ex_spa = 1" by (simp add: ex_spa_def SpaRangeIndex_def)
  moreover have "pFitHead ex_dev = ex_fit" "DimmID (dimm_at ex_dev d) = of_nat d + 1" by (simp_all add: ex_dev_def ex_pm_def ex_pmem_defs)
  ultimately show ?thesis using d GetNvDimmRegion_spa [of ex_fit "of_nat d + 1" 1] ex_pm_regions
    by (cases "d = 0") (auto simp: less_2_cases_iff DIMM_PID_ALL_def DIMM_PID_INVALID_def)
qed

lemma ex_one_base: "one_base ex_dev ex_spa (Range ex_core) \<lparr>NsDimm = 0, NsDpa = 0x2000, NsSize = 0x2000\<rparr>"
  by (simp add: one_base_def ex_core_def ex_region ex_pm_controls)

lemma ex_base: "BaseSpaLoop ex_dev ex_spa EFI_INVALID_PARAMETER (Range ex_core) = Some (Inr (SystemPhysicalAddressRangeBase ex_spa))"
proof -
  have "RegionInterleaveIndex (ex_region_of 1 0) = 0" "NvDimmPhysicalAddressRegionBase (ex_region_of 1 0) = 0x2000"
    by (simp_all add: ex_region_of_def RegionInterleaveIndex_def NvDimmPhysicalAddressRegionBase_def get16_def)
  then show ?thesis using ex_region [of 0] by (simp add: ex_core_def ex_pm_controls RdpaToSpa_def)
qed

lemma ex_alloc: "AllocateNamespaceCapacity ex_dev False (Some ex_set) 0x4000 ex_pm_ns [] = Some (EFI_SUCCESS, 0x4000, ex_core, [])"
proof -
  have "DimmRegionList ex_set = DimmRegionList ex_is" "pSpaTbl ex_set = Some ex_spa" "IS_State ex_set = 0" by (simp_all add: ex_set_def ex_is_def)
  moreover have "AlignNamespaceCapacity 0x4000 2 = 0x4000" by (simp add: AlignNamespaceCapacity_def ROUNDUP_def)
  ultimately show ?thesis using ex_find ex_base
    by (simp add: AllocateNamespaceCapacity_def CalculateAppDirectNamespaceBaseSpa_def ex_core_def ex_is_def ex_pm_ns_def)
qed

lemma ex_page_empty:
  assumes "k < 6"
  shows "page_at ex_area (ex_dimm False ex_area) k = zero_label"
proof -
  have fit: "lsa_fits (ex_blank False LSA_OK) ex_area" by (simp add: lsa_fits_def ex_area_facts ex_blank_facts)
  have "slot_free (Index ex_area ! cur_index ex_area) k" using fun_cong [OF ex_area_facts(4), of k] assms
    by (auto simp: lsa_map_def ex_area_facts(2) split: if_splits)
  then obtain m where m: "WriteLabelStorageArea ex_area (ex_blank False LSA_OK) = (EFI_SUCCESS, (ex_blank False LSA_OK)\<lparr>pcd := m\<rparr>)"
    "mem_read m (512 + 256 * k) 256 = mem_read (\<lambda>_. 0) (512 + 256 * k) 256"
    using Write_stores [OF ex_area_facts(1) fit ex_blank_facts(1)] assms by (auto simp: ex_area_facts ex_blank_facts ex_blank_def)
  have "label_page 256 (replicate 256 0) = zero_label" by code_simp
  then show ?thesis using m by (simp add: page_at_def ex_area_facts(3) ex_dimm_def mem_read_def map_replicate_const)
qed

lemma ex_fresh: "u \<noteq> replicate 16 0 \<Longrightarrow> fresh_table u (ex_dimm False ex_area) (lsa_table ex_area)"
  using ex_held [of False] ex_page_empty unfolding fresh_table_def dimm_table_def
  by (auto simp: ex_area_facts(2) zero_label_def intro!: exI [of _ ex_area])

lemma ex_room: "room_for (replicate 16 9) True (lsa_table ex_area) ex_ldimm"
  using ex_fresh [of "replicate 16 9"] by (simp add: room_for_def ex_ldimm_def ex_area_facts IsConfiguringAllowed_def)


text \<open>
  C18: Creating a namespace is all or nothing where the driver can help it: when the label of one DIMM of
  the interleave set cannot be written, \<open>CreateNamespace\<close> reports failure, the labels written to the DIMMs
  before it are removed again, so that these DIMMs hold the labels they held before, and the DIMMs behind
  it are not touched.
\<close>

theorem failed_creation_rolls_back:
  assumes "refs = pre @ d # post" and "distinct refs" and "\<forall>e\<in>set pre. can_label u L T ds e" and "d < length ds"
    and "InsertNamespaceLabels [L d] major minor (ds ! d) = Some (rc, d')" and "EFI_ERROR rc"
  shows "\<exists>ds'. WriteLabelSet major minor refs (map L refs) ds = Some (EFI_ABORTED, ds') \<and> ds' ! d = d'
     \<and> (\<forall>e\<in>set pre. dimm_lookup (ds' ! e) = dimm_lookup (ds ! e)) \<and> (\<forall>e\<in>set post. ds' ! e = ds ! e)"
proof -
  obtain ds' where ds': "InsertLabelSet major minor (map L refs) refs 0 refs ds = Some (rc, ds')" "ds' ! d = d'"
    "\<forall>e. e \<notin> insert d (set pre) \<longrightarrow> ds' ! e = ds ! e" "\<forall>e\<in>set pre. dimm_table (ds' ! e) (T e)"
    using InsertLabelSet_fails [OF assms(1) _ _ assms(3-6)] assms(1,2) by auto
  have "dimm_lookup (ds' ! e) = dimm_lookup (ds ! e)" if "e \<in> set pre" for e
    using ds'(4) assms(3) that fresh_table_table dimm_labels.lookup_law by (metis can_label_def)
  moreover have "ds' ! e = ds ! e" if "e \<in> set post" for e
  proof -
    have "e \<notin> insert d (set pre)" using that assms(1,2) by auto
    with ds'(3) show ?thesis by blast
  qed
  ultimately show ?thesis using ds'(1,2) assms(6) by (intro exI [of _ ds']) (simp add: WriteLabelSet_def)
qed

theorem failed_creation_rolls_back_witness:
  "\<exists>ds' d'. WriteLabelSet 1 2 [0, 1] [ex_label 9, ex_label 9] [ex_dimm False ex_area, (ex_blank False LSA_OK)\<lparr>Manageable := False\<rparr>]
      = Some (EFI_ABORTED, ds') \<and> dimm_lookup (ds' ! 0) = dimm_lookup (ex_dimm False ex_area)"
proof -
  let ?bad = "(ex_blank False LSA_OK)\<lparr>Manageable := False\<rparr>" and ?ds = "[ex_dimm False ex_area, (ex_blank False LSA_OK)\<lparr>Manageable := False\<rparr>]"
  have "case InsertNamespaceLabels [ex_label 9] 1 2 ?bad of Some (rc, d') \<Rightarrow> EFI_ERROR rc | None \<Rightarrow> False" by code_simp
  then obtain rc d' where "InsertNamespaceLabels [ex_label 9] 1 2 ?bad = Some (rc, d')" "EFI_ERROR rc" by (auto split: option.splits)
  moreover have "lUuid (ex_label 9) = replicate 16 9" by (simp add: ex_label_def)
  then have "can_label (replicate 16 9) (\<lambda>_. ex_label 9) (\<lambda>_. lsa_table ex_area) ?ds 0"
    using ex_fresh [of "replicate 16 9"] by (simp add: can_label_def ex_area_facts ex_label_ok)
  ultimately show ?thesis
    using failed_creation_rolls_back [of "[0, 1]" "[0]" 1 "[]" "replicate 16 9" "\<lambda>_. ex_label 9" "\<lambda>_. lsa_table ex_area" ?ds 1 2 rc d'] by auto
qed

text \<open>
  C21: Deleting undoes creating: when the label set of a new namespace has been written to the DIMMs of its
  interleave set, the loop of \<open>DeleteNamespace\<close> removes its label from every one of them, and afterwards
  each DIMM holds the labels it held before the creation. Other DIMMs are not touched.
\<close>

theorem create_then_delete:
  assumes "distinct refs" and "\<forall>d\<in>set refs. can_label u L T ds d"
  shows "\<exists>ds' ds''. WriteLabelSet major minor refs (map L refs) ds = Some (EFI_SUCCESS, ds')
    \<and> RemoveLabelSet (map (\<lambda>d. (d, u)) refs) ds' = Some (length refs, ds'')
    \<and> (\<forall>d\<in>set refs. dimm_lookup (ds'' ! d) = dimm_lookup (ds ! d)) \<and> (\<forall>d. d \<notin> set refs \<longrightarrow> ds'' ! d = ds ! d)"
proof -
  obtain ds' where ds': "WriteLabelSet major minor refs (map L refs) ds = Some (EFI_SUCCESS, ds')" "length ds' = length ds"
    "\<forall>d. d \<notin> set refs \<longrightarrow> ds' ! d = ds ! d"
    "\<forall>d\<in>set refs. dimm_table (ds' ! d) (table_add (unset_bit 3 (lFlags (L d))) (L d) (T d))"
    using WriteLabelSet_ok [OF assms, of major minor] by blast
  then have "\<forall>d\<in>set refs. d < length ds' \<and> dimm_table (ds' ! d) (table_add (unset_bit 3 (lFlags (L d))) (L d) (T d))"
    using assms(2) by (simp add: can_label_def)
  from RemoveLabelSet_ok [OF assms(1) this, of "\<lambda>_. u"] obtain ds'' where
    ds'': "RemoveLabelSet (map (\<lambda>d. (d, u)) refs) ds' = Some (length refs, ds'')" "\<forall>d. d \<notin> set refs \<longrightarrow> ds'' ! d = ds' ! d"
      "\<forall>d\<in>set refs. dimm_table (ds'' ! d) (table_remove u 0 (table_add (unset_bit 3 (lFlags (L d))) (L d) (T d)))" by blast
  have "dimm_lookup (ds'' ! d) = dimm_lookup (ds ! d)" if d: "d \<in> set refs" for d
  proof -
    have c: "fresh_table u (ds ! d) (T d)" "lUuid (L d) = u" "2 \<le> length (free_list (T d))" "\<forall>y \<in> ran (labels (T d)). lUuid y \<noteq> lUuid (L d)"
      using assms(2) d by (auto simp: can_label_def)
    have "dimm_table (ds'' ! d) (T d)" using ds''(3) d remove_added [OF c(3,4)] c(2) by metis
    then show ?thesis using dimm_labels.lookup_law fresh_table_table [OF c(1)] by metis
  qed
  then show ?thesis using ds' ds'' by auto
qed

theorem create_then_delete_witness:
  "\<exists>ds' ds''. WriteLabelSet 1 2 [0, 1] [ex_label 9, ex_label 9] [ex_dimm False ex_area, ex_dimm False ex_area] = Some (EFI_SUCCESS, ds')
    \<and> RemoveLabelSet [(0, replicate 16 9), (1, replicate 16 9)] ds' = Some (2, ds'') \<and> dimm_lookup (ds'' ! 1) = dimm_lookup (ex_dimm False ex_area)"
proof -
  have "lUuid (ex_label 9) = replicate 16 9" by (simp add: ex_label_def)
  then have "\<forall>d\<in>set [0, 1]. can_label (replicate 16 9) (\<lambda>_. ex_label 9) (\<lambda>_. lsa_table ex_area) [ex_dimm False ex_area, ex_dimm False ex_area] d"
    using ex_fresh [of "replicate 16 9"] by (simp add: can_label_def ex_area_facts ex_label_ok)
  from create_then_delete [OF _ this, of 1 2] show ?thesis by auto
qed

end
