(* ===== verification/Pbr_Pool.thy ===== *)
theory Pbr_Pool
  imports Prelude "HOL-Library.Monad_Syntax"
begin

text \<open>
  The boot services pool as the playback and record module uses it
  (\<open>DcpmPkg/common/Pbr.c\<close>): blocks of bytes behind pointers, the allocation functions of EDK II's
  \<open>MemoryAllocationLib\<close> and the chunked copy of the module.

  A pointer is a block and an offset into it, block 0 being \<open>NULL\<close>. An access has an \<open>option\<close>
  result: \<open>None\<close> is an access through \<open>NULL\<close>, to a block that was freed or outside the block, for
  which C promises nothing. A state of the pool is extended by the modules that keep theirs beside
  it.
\<close>

named_theorems pool_simps \<open>what the operations of the pool leave alone\<close>

section \<open>Blocks and accesses\<close>

type_synonym ptr = "nat \<times> nat"

abbreviation NULL :: ptr where "NULL \<equiv> (0, 0)"

text \<open>
  \<open>blocks\<close> are the allocated blocks, \<open>next_block\<close> the name of the next one. \<open>alloc_ok\<close> says whether
  the next allocations succeed; they do once the list is used up.
\<close>

record pool_mem =
  blocks :: "nat \<Rightarrow> u8 list option"
  next_block :: nat
  alloc_ok :: "bool list"

definition ptr_add :: "ptr \<Rightarrow> nat \<Rightarrow> ptr" where
  "ptr_add p n = (fst p, snd p + n)"

definition load :: "ptr \<Rightarrow> nat \<Rightarrow> 'a pool_mem_scheme \<Rightarrow> u8 list option" where
  "load p n s = (case blocks s (fst p) of
     None \<Rightarrow> None
   | Some bs \<Rightarrow> if snd p + n \<le> length bs then Some (take n (drop (snd p) bs)) else None)"

definition store :: "ptr \<Rightarrow> u8 list \<Rightarrow> 'a pool_mem_scheme \<Rightarrow> 'a pool_mem_scheme option" where
  "store p xs s = (case blocks s (fst p) of
     None \<Rightarrow> None
   | Some bs \<Rightarrow> if snd p + length xs \<le> length bs
               then Some (s\<lparr>blocks := (blocks s)(fst p \<mapsto> patch bs (snd p) xs)\<rparr>) else None)"

definition load8 :: "ptr \<Rightarrow> 'a pool_mem_scheme \<Rightarrow> u8 option" where
  "load8 p s = map_option hd (load p 1 s)"

definition load32 :: "ptr \<Rightarrow> 'a pool_mem_scheme \<Rightarrow> u32 option" where
  "load32 p s = map_option of_le (load p 4 s)"

definition load64 :: "ptr \<Rightarrow> 'a pool_mem_scheme \<Rightarrow> u64 option" where
  "load64 p s = map_option of_le (load p 8 s)"

abbreviation store8 :: "ptr \<Rightarrow> u8 \<Rightarrow> 'a pool_mem_scheme \<Rightarrow> 'a pool_mem_scheme option" where
  "store8 p b \<equiv> store p [b]"

abbreviation store32 :: "ptr \<Rightarrow> u32 \<Rightarrow> 'a pool_mem_scheme \<Rightarrow> 'a pool_mem_scheme option" where
  "store32 p w \<equiv> store p (le32 w)"

abbreviation store64 :: "ptr \<Rightarrow> u64 \<Rightarrow> 'a pool_mem_scheme \<Rightarrow> 'a pool_mem_scheme option" where
  "store64 p w \<equiv> store p (le64 w)"

section \<open>Allocation\<close>

definition AllocateZeroPool :: "nat \<Rightarrow> 'a pool_mem_scheme \<Rightarrow> ptr \<times> 'a pool_mem_scheme" where
  "AllocateZeroPool n s = (case alloc_ok s of
     False # as \<Rightarrow> (NULL, s\<lparr>alloc_ok := as\<rparr>)
   | as \<Rightarrow> ((next_block s, 0),
            s\<lparr>blocks := (blocks s)(next_block s \<mapsto> replicate n 0),
              next_block := Suc (next_block s), alloc_ok := tl as\<rparr>))"

definition FreePool :: "ptr \<Rightarrow> 'a pool_mem_scheme \<Rightarrow> 'a pool_mem_scheme option" where
  "FreePool p s = (if blocks s (fst p) = None \<or> snd p \<noteq> 0 then None
                   else Some (s\<lparr>blocks := (blocks s)(fst p := None)\<rparr>))"

text \<open>\<open>FREE_POOL_SAFE\<close> frees a pointer that is not \<open>NULL\<close>; the caller's variable is set to \<open>NULL\<close>.\<close>

definition FREE_POOL_SAFE :: "ptr \<Rightarrow> 'a pool_mem_scheme \<Rightarrow> 'a pool_mem_scheme option" where
  "FREE_POOL_SAFE p s = (if p = NULL then Some s else FreePool p s)"

definition CopyMem :: "ptr \<Rightarrow> ptr \<Rightarrow> nat \<Rightarrow> 'a pool_mem_scheme \<Rightarrow> 'a pool_mem_scheme option" where
  "CopyMem dst src n s = do { bs \<leftarrow> load src n s; store dst bs s }"

text \<open>
  \<open>ReallocatePool\<close> takes the new block before it gives up the old one, so a failure returns \<open>NULL\<close>
  and leaves the old block allocated.
\<close>

definition ReallocatePool :: "nat \<Rightarrow> nat \<Rightarrow> ptr \<Rightarrow> 'a pool_mem_scheme \<Rightarrow> (ptr \<times> 'a pool_mem_scheme) option" where
  "ReallocatePool old new p s =
     (let (q, s) = AllocateZeroPool new s
      in if q \<noteq> NULL \<and> p \<noteq> NULL
         then do { s \<leftarrow> CopyMem q p (min old new) s; s \<leftarrow> FreePool p s; Some (q, s) }
         else Some (q, s))"

section \<open>The chunked copy\<close>

definition COPY_CHUNK_SZ_BYTES :: nat where "COPY_CHUNK_SZ_BYTES = 1024"

text \<open>
  The loop of \<open>PbrCopyChunks\<close> over the chunks still to copy, \<open>Index\<close> being the next one. The
  function has the size of the destination as a parameter and does not use it.
\<close>

fun PbrCopyChunks_loop :: "ptr \<Rightarrow> ptr \<Rightarrow> nat \<Rightarrow> nat \<Rightarrow> 'a pool_mem_scheme \<Rightarrow> 'a pool_mem_scheme option" where
  "PbrCopyChunks_loop pDest pSource 0 Index s = Some s"
| "PbrCopyChunks_loop pDest pSource (Suc left) Index s = do {
     let Offset = Index * COPY_CHUNK_SZ_BYTES;
     s \<leftarrow> CopyMem (ptr_add pDest Offset) (ptr_add pSource Offset) COPY_CHUNK_SZ_BYTES s;
     PbrCopyChunks_loop pDest pSource left (Suc Index) s }"

definition PbrCopyChunks :: "ptr \<Rightarrow> nat \<Rightarrow> ptr \<Rightarrow> u32 \<Rightarrow> 'a pool_mem_scheme \<Rightarrow> 'a pool_mem_scheme option" where
  "PbrCopyChunks pDest pDestSz pSource pSourceSz s = do {
     let NumChunks = unat pSourceSz div COPY_CHUNK_SZ_BYTES;
     s \<leftarrow> PbrCopyChunks_loop pDest pSource NumChunks 0 s;
     let LeftOverBytes = unat pSourceSz mod COPY_CHUNK_SZ_BYTES;
     (if LeftOverBytes \<noteq> 0
      then CopyMem (ptr_add pDest (unat pSourceSz - LeftOverBytes))
             (ptr_add pSource (unat pSourceSz - LeftOverBytes)) LeftOverBytes s
      else Some s) }"

section \<open>Laws\<close>

lemma ptr_add_simps [simp]: "fst (ptr_add p n) = fst p" "snd (ptr_add p n) = snd p + n"
  "ptr_add (ptr_add p m) n = ptr_add p (m + n)" "ptr_add p 0 = p" "ptr_add (b, off) n = (b, off + n)"
  by (simp_all add: ptr_add_def)

lemma load_Some_iff:
  "load p n s = Some xs \<longleftrightarrow> (\<exists>bs. blocks s (fst p) = Some bs \<and> snd p + n \<le> length bs \<and> xs = take n (drop (snd p) bs))"
  by (auto simp: load_def split: option.splits)

lemma load_length: "load p n s = Some xs \<Longrightarrow> length xs = n"
  by (auto simp: load_Some_iff)

lemma load_blocks: "blocks s (fst p) = Some bs \<Longrightarrow> snd p + n \<le> length bs \<Longrightarrow> load p n s = Some (take n (drop (snd p) bs))"
  by (simp add: load_def)

lemma store_blocks:
  "blocks s (fst p) = Some bs \<Longrightarrow> snd p + length xs \<le> length bs \<Longrightarrow>
     store p xs s = Some (s\<lparr>blocks := (blocks s)(fst p \<mapsto> patch bs (snd p) xs)\<rparr>)"
  by (simp add: store_def)

lemma load_cong: "blocks s' (fst p) = blocks s (fst p) \<Longrightarrow> load p n s' = load p n s"
  by (simp add: load_def)

lemma patch_empty [simp]: "off \<le> length bs \<Longrightarrow> patch bs off [] = bs"
  by (simp add: patch_def)

lemma patch_append:
  "off + length (xs @ ys) \<le> length bs \<Longrightarrow> patch (patch bs off xs) (off + length xs) ys = patch bs off (xs @ ys)"
  by (simp add: patch_def ac_simps)

lemma CopyMem_split:
  assumes "fst dst \<noteq> fst src"
  shows "CopyMem dst src (m + n) s = (CopyMem dst src m s \<bind> CopyMem (ptr_add dst m) (ptr_add src m) n)"
proof (cases "blocks s (fst dst)")
  case None
  then show ?thesis by (cases "load src (m + n) s"; cases "load src m s") (simp_all add: CopyMem_def store_def)
next
  case (Some d)
  show ?thesis
  proof (cases "blocks s (fst src)")
    case None
    then show ?thesis by (simp add: CopyMem_def load_def)
  next
    fix b assume b: "blocks s (fst src) = Some b"
    have "take (m + n) (drop (snd src) b) = take m (drop (snd src) b) @ take n (drop (snd src + m) b)"
      using take_drop_join [of m "snd src" b n] by simp
    with assms Some b show ?thesis
      using patch_append [of "snd dst" "take m (drop (snd src) b)" "take n (drop (snd src + m) b)" d]
      by (auto simp: CopyMem_def load_def store_def fun_upd_idem_iff)
  qed
qed

lemma PbrCopyChunks_loop_eq:
  assumes "fst dst \<noteq> fst src"
  shows "(CopyMem dst src (i * COPY_CHUNK_SZ_BYTES) s \<bind> PbrCopyChunks_loop dst src k i)
     = CopyMem dst src ((i + k) * COPY_CHUNK_SZ_BYTES) s"
proof (induction k arbitrary: i)
  case 0
  then show ?case by simp
next
  case (Suc k)
  let ?C = "COPY_CHUNK_SZ_BYTES"
  have "CopyMem dst src (i * ?C) s \<bind> PbrCopyChunks_loop dst src (Suc k) i =
      (CopyMem dst src (i * ?C) s \<bind> CopyMem (ptr_add dst (i * ?C)) (ptr_add src (i * ?C)) ?C)
        \<bind> PbrCopyChunks_loop dst src k (Suc i)"
    by (cases "CopyMem dst src (i * ?C) s") (simp_all add: Let_def)
  also have "\<dots> = CopyMem dst src (Suc i * ?C) s \<bind> PbrCopyChunks_loop dst src k (Suc i)"
    by (simp add: CopyMem_split [OF assms, symmetric] add.commute)
  finally show ?case using Suc.IH [of "Suc i"] by (simp del: PbrCopyChunks_loop.simps)
qed

lemma CopyMem_nothing:
  assumes "CopyMem dst src n s \<noteq> None"
  shows "CopyMem dst src 0 s = Some s"
  using assms
  by (auto simp: CopyMem_def load_def store_def bind_eq_None_conv fun_upd_idem split: option.splits if_splits)

lemma PbrCopyChunks_loop_dead:
  assumes "CopyMem dst src 0 s = None" "0 < k"
  shows "PbrCopyChunks_loop dst src k i s = None"
proof -
  have "CopyMem (ptr_add dst (i * COPY_CHUNK_SZ_BYTES)) (ptr_add src (i * COPY_CHUNK_SZ_BYTES)) COPY_CHUNK_SZ_BYTES s = None"
    using assms(1) by (auto simp: CopyMem_def load_def store_def split: option.splits if_splits)
  with assms(2) show ?thesis by (cases k) simp_all
qed

text \<open>
  The chunked copy between two blocks is one copy, and leaves a block exactly when that copy would.
\<close>

lemma PbrCopyChunks_eq:
  assumes "fst dst \<noteq> fst src" "0 < n"
  shows "PbrCopyChunks dst dn src n s = CopyMem dst src (unat n) s"
proof -
  define C where "C = COPY_CHUNK_SZ_BYTES"
  have n: "unat n = unat n div C * C + unat n mod C" by simp
  have sub: "unat n - unat n mod C = unat n div C * C" by (simp add: minus_mod_eq_div_mult)
  have "0 < unat n" using assms(2) by (simp add: word_less_nat_alt)
  have main: "PbrCopyChunks dst dn src n s = CopyMem dst src (unat n) s"
    if z: "CopyMem dst src 0 s = Some s"
  proof -
    have loop: "PbrCopyChunks_loop dst src (unat n div C) 0 s = CopyMem dst src (unat n div C * C) s"
      using PbrCopyChunks_loop_eq [OF assms(1), of 0 s "unat n div C"] z by (simp add: C_def)
    show ?thesis
    proof (cases "unat n mod C = 0")
      case True
      then have "unat n div C * C = unat n" using n by linarith
      with True loop show ?thesis by (simp add: PbrCopyChunks_def Let_def flip: C_def)
    next
      case False
      then show ?thesis
        using CopyMem_split [OF assms(1), of "unat n div C * C" "unat n mod C" s] loop
        by (simp add: PbrCopyChunks_def Let_def sub flip: C_def)
    qed
  qed
  have "PbrCopyChunks dst dn src n s = CopyMem dst src (unat n) s" if z: "CopyMem dst src 0 s = None"
  proof (cases "unat n div C = 0")
    case True
    with \<open>0 < unat n\<close> have "unat n mod C = unat n" "unat n \<noteq> 0"
      by (auto simp: C_def COPY_CHUNK_SZ_BYTES_def)
    with True show ?thesis by (simp add: PbrCopyChunks_def Let_def flip: C_def)
  next
    case False
    then have "PbrCopyChunks_loop dst src (unat n div C) 0 s = None"
      by (intro PbrCopyChunks_loop_dead z) simp
    moreover have "CopyMem dst src (unat n) s = None" using CopyMem_nothing z by fastforce
    ultimately show ?thesis by (simp add: PbrCopyChunks_def Let_def flip: C_def)
  qed
  moreover have "CopyMem dst src 0 s = None \<or> CopyMem dst src 0 s = Some s"
    by (auto simp: CopyMem_def load_def store_def fun_upd_idem split: option.splits)
  ultimately show ?thesis using main by metis
qed

lemma PbrCopyChunks_zero [simp]: "PbrCopyChunks dst dn src 0 s = Some s"
  by (simp add: PbrCopyChunks_def)

end
