(* ===== verification/Pbr.thy ===== *)
theory Pbr
  imports Pbr_Pool
begin

text \<open>
  Playback and record (\<open>DcpmPkg/common/Pbr.c\<close>): a session keeps one partition of data items per
  signature. In record mode items are appended to their partition, the session is stitched into one
  image, and an image is taken apart again and played back item by item.

  The model is that of the UEFI driver (no \<open>OS_BUILD\<close>), where the context is kept in a volatile
  variable between loads of the driver. The global context always exists, so the tests for a missing
  context have no branch. \<open>UINTN\<close> is 64 bits wide: a sum of a \<open>UINT32\<close> and a \<open>sizeof\<close> does not wrap,
  and is cut off where it is stored into a \<open>UINT32\<close>. An output parameter that is not written keeps
  the \<open>NULL\<close> or zero its callers start it with.
\<close>

section \<open>Data\<close>

abbreviation (input) PBR_NORMAL_MODE :: u32 where "PBR_NORMAL_MODE \<equiv> 0"
abbreviation (input) PBR_RECORD_MODE :: u32 where "PBR_RECORD_MODE \<equiv> 1"
abbreviation (input) PBR_PLAYBACK_MODE :: u32 where "PBR_PLAYBACK_MODE \<equiv> 2"

abbreviation (input) PBR_INVALID_SIG :: u32 where "PBR_INVALID_SIG \<equiv> 0"
abbreviation (input) PBR_LOGICAL_DATA_SIG :: u32 where "PBR_LOGICAL_DATA_SIG \<equiv> 0x444C4250"
abbreviation (input) PBR_HEADER_SIG :: u32 where "PBR_HEADER_SIG \<equiv> 0x48524250"
abbreviation (input) PBR_TAG_SIG :: u32 where "PBR_TAG_SIG \<equiv> 0x49544250"

abbreviation (input) GET_NEXT_DATA_INDEX :: u32 where "GET_NEXT_DATA_INDEX \<equiv> - 1"

definition MAX_PARTITIONS :: nat where "MAX_PARTITIONS = 100"

abbreviation (input) PARTITION_GROW_SZ_MULTIPLIER :: nat where "PARTITION_GROW_SZ_MULTIPLIER \<equiv> 10"

text \<open>Sizes of the packed structures, whose fields are read and written at their offsets.\<close>

abbreviation (input) sizeof_item :: nat where "sizeof_item \<equiv> 12"
abbreviation (input) sizeof_header :: nat where "sizeof_header \<equiv> 2853"
abbreviation (input) sizeof_table :: nat where "sizeof_table \<equiv> 1600"
abbreviation (input) sizeof_entry :: nat where "sizeof_entry \<equiv> 16"
abbreviation (input) sizeof_Tag :: nat where "sizeof_Tag \<equiv> 20"
abbreviation (input) sizeof_TagPartitionInfo :: nat where "sizeof_TagPartitionInfo \<equiv> 8"

record PbrPartitionContext =
  PartitionSig :: u32
  PartitionSize :: u32
  PartitionLogicalDataCnt :: u32
  PartitionCurrentOffset :: u32
  PartitionEndOffset :: u32
  PartitionData :: ptr

record PbrContext =
  PbrMode :: u32
  PbrMainHeader :: ptr
  PartitionContexts :: "PbrPartitionContext list"

text \<open>
  The module's state over the pool: its context, the variable that keeps the context, and what the
  runtime services answer when the variable is set and read.
\<close>

record pbr_sys = pool_mem +
  gPbrContext :: PbrContext
  pbr_variable :: "PbrContext option"
  set_variable_rc :: efi_status
  get_variable_rc :: efi_status

definition zero_partition :: PbrPartitionContext where
  "zero_partition = \<lparr>PartitionSig = 0, PartitionSize = 0, PartitionLogicalDataCnt = 0,
     PartitionCurrentOffset = 0, PartitionEndOffset = 0, PartitionData = NULL\<rparr>"

definition zero_context :: PbrContext where
  "zero_context = \<lparr>PbrMode = 0, PbrMainHeader = NULL,
     PartitionContexts = replicate MAX_PARTITIONS zero_partition\<rparr>"

definition parts :: "pbr_sys \<Rightarrow> PbrPartitionContext list" where
  "parts s = PartitionContexts (gPbrContext s)"

definition set_parts :: "PbrPartitionContext list \<Rightarrow> pbr_sys \<Rightarrow> pbr_sys" where
  "set_parts cs s = s\<lparr>gPbrContext := (gPbrContext s)\<lparr>PartitionContexts := cs\<rparr>\<rparr>"

definition set_part :: "nat \<Rightarrow> (PbrPartitionContext \<Rightarrow> PbrPartitionContext) \<Rightarrow> pbr_sys \<Rightarrow> pbr_sys" where
  "set_part i f s = set_parts ((parts s)[i := f (parts s ! i)]) s"

definition set_header :: "ptr \<Rightarrow> pbr_sys \<Rightarrow> pbr_sys" where
  "set_header p s = s\<lparr>gPbrContext := (gPbrContext s)\<lparr>PbrMainHeader := p\<rparr>\<rparr>"

section \<open>Recording\<close>

text \<open>The search of \<open>PbrSetData\<close>: where it stops, and whether it stopped at the signature.\<close>

fun find_set_slot :: "u32 \<Rightarrow> PbrPartitionContext list \<Rightarrow> nat \<Rightarrow> nat \<times> bool" where
  "find_set_slot sig [] i = (i, False)"
| "find_set_slot sig (c # cs) i =
     (if sig = PartitionSig c then (i, True)
      else if PartitionSig c = PBR_INVALID_SIG then (i, False)
      else find_set_slot sig cs (Suc i))"

definition copy_given :: "ptr \<Rightarrow> nat \<Rightarrow> ptr \<Rightarrow> u32 \<Rightarrow> pbr_sys \<Rightarrow> pbr_sys option" where
  "copy_given dst n pData Size s =
     (if pData \<noteq> NULL then PbrCopyChunks dst n pData Size s else Some s)"

text \<open>The three ways an item gets its place; each returns the item, \<open>NULL\<close> when it has none.\<close>

definition SetData_singleton :: "nat \<Rightarrow> ptr \<Rightarrow> u32 \<Rightarrow> pbr_sys \<Rightarrow> (efi_status \<times> ptr \<times> pbr_sys) option" where
  "SetData_singleton i pData Size s =
     (if PartitionSize (parts s ! i) < Size then do {
        s \<leftarrow> FREE_POOL_SAFE (PartitionData (parts s ! i)) s;
        let (p, s) = AllocateZeroPool (unat Size + sizeof_item) s;
        (if p = NULL then Some (EFI_OUT_OF_RESOURCES, NULL, s)
         else do {
           let s = set_part i (\<lambda>c. c\<lparr>PartitionData := p, PartitionSize := of_nat (unat Size + sizeof_item)\<rparr>) s;
           s \<leftarrow> copy_given (ptr_add p sizeof_item) (unat Size) pData Size s;
           let s = set_part i (\<lambda>c. c\<lparr>PartitionLogicalDataCnt := 1,
                     PartitionCurrentOffset := of_nat (unat Size + sizeof_item), PartitionEndOffset := 0\<rparr>) s;
           s \<leftarrow> store32 p PBR_LOGICAL_DATA_SIG s;
           s \<leftarrow> store32 (ptr_add p 4) Size s;
           Some (EFI_SUCCESS, p, s) }) }
      else do {
        let p = PartitionData (parts s ! i);
        s \<leftarrow> store32 p PBR_LOGICAL_DATA_SIG s;
        s \<leftarrow> store32 (ptr_add p 4) Size s;
        s \<leftarrow> copy_given (ptr_add p sizeof_item) (unat (PartitionSize (parts s ! i))) pData Size s;
        Some (EFI_SUCCESS, p, s) })"

definition SetData_grow :: "nat \<Rightarrow> u32 \<Rightarrow> pbr_sys \<Rightarrow> (efi_status \<times> pbr_sys) option" where
  "SetData_grow i Size s =
     (let c = parts s ! i; grow = (unat Size + sizeof_item) * PARTITION_GROW_SZ_MULTIPLIER
      in if unat (PartitionSize c) < unat (PartitionCurrentOffset c) + (unat Size + sizeof_item)
         then do {
           (p, s) \<leftarrow> ReallocatePool (unat (PartitionSize c)) (unat (PartitionSize c) + grow) (PartitionData c) s;
           let s = set_part i (\<lambda>c. c\<lparr>PartitionData := p\<rparr>) s;
           (if p = NULL then Some (EFI_OUT_OF_RESOURCES, s)
            else Some (EFI_SUCCESS, set_part i (\<lambda>c. c\<lparr>PartitionSize := PartitionSize c + of_nat grow\<rparr>) s)) }
         else Some (EFI_SUCCESS, s))"

definition SetData_append :: "nat \<Rightarrow> ptr \<Rightarrow> u32 \<Rightarrow> pbr_sys \<Rightarrow> (efi_status \<times> ptr \<times> pbr_sys) option" where
  "SetData_append i pData Size s = do {
     (rc, s) \<leftarrow> SetData_grow i Size s;
     (if rc \<noteq> EFI_SUCCESS then Some (rc, NULL, s)
      else do {
        let c = parts s ! i;
        let p = ptr_add (PartitionData c) (unat (PartitionCurrentOffset c));
        s \<leftarrow> store32 p PBR_LOGICAL_DATA_SIG s;
        s \<leftarrow> store32 (ptr_add p 4) Size s;
        s \<leftarrow> copy_given (ptr_add p sizeof_item)
               (unat (PartitionSize c) - unat (PartitionCurrentOffset c)) pData Size s;
        let s = set_part i (\<lambda>c. c\<lparr>PartitionLogicalDataCnt := PartitionLogicalDataCnt c + 1,
                  PartitionCurrentOffset := PartitionCurrentOffset c + of_nat (unat Size + sizeof_item)\<rparr>) s;
        Some (EFI_SUCCESS, p, s) }) }"

definition SetData_new :: "nat \<Rightarrow> u32 \<Rightarrow> ptr \<Rightarrow> u32 \<Rightarrow> bool \<Rightarrow> pbr_sys \<Rightarrow> (efi_status \<times> ptr \<times> pbr_sys) option" where
  "SetData_new i Signature pData Size Singleton s = do {
     let sz = (of_nat (if Singleton then unat Size + sizeof_item
                         else (unat Size + sizeof_item) * PARTITION_GROW_SZ_MULTIPLIER) :: u32);
     let (p, s) = AllocateZeroPool (unat sz) s;
     let s = set_part i (\<lambda>c. \<lparr>PartitionSig = Signature, PartitionSize = sz, PartitionLogicalDataCnt = 1,
               PartitionCurrentOffset = 0, PartitionEndOffset = 0, PartitionData = p\<rparr>) s;
     (if p = NULL then Some (EFI_OUT_OF_RESOURCES, NULL, s)
      else do {
        s \<leftarrow> store32 p PBR_LOGICAL_DATA_SIG s;
        s \<leftarrow> store32 (ptr_add p 4) Size s;
        s \<leftarrow> copy_given (ptr_add p sizeof_item) (unat sz - sizeof_item) pData Size s;
        let s = set_part i (\<lambda>c. c\<lparr>PartitionCurrentOffset :=
                  PartitionCurrentOffset c + of_nat (unat Size + sizeof_item)\<rparr>) s;
        Some (EFI_SUCCESS, p, s) }) }"

text \<open>
  \<open>PbrSetData\<close> returns the status, the place of the data for \<open>ppData\<close> and the item's index for
  \<open>pLogicalIndex\<close>. When no slot is free it returns before any of this.
\<close>

definition PbrSetData :: "u32 \<Rightarrow> ptr \<Rightarrow> u32 \<Rightarrow> bool \<Rightarrow> pbr_sys \<Rightarrow> (efi_status \<times> ptr \<times> u32 \<times> pbr_sys) option" where
  "PbrSetData Signature pData Size Singleton s =
     (let (CtxIndex, found) = find_set_slot Signature (parts s) 0
      in if \<not> found \<and> CtxIndex = MAX_PARTITIONS then Some (EFI_OUT_OF_RESOURCES, NULL, 0, s)
         else do {
           (rc, p, s) \<leftarrow>
             (if found then
                if Singleton then SetData_singleton CtxIndex pData Size s
                else SetData_append CtxIndex pData Size s
              else SetData_new CtxIndex Signature pData Size Singleton s);
           (if rc = EFI_SUCCESS then do {
              let LogicalIndex = PartitionLogicalDataCnt (parts s ! CtxIndex) - 1;
              s \<leftarrow> store32 (ptr_add p 8) LogicalIndex s;
              Some (rc, ptr_add p sizeof_item, LogicalIndex, s) }
            else Some (rc, NULL, 0, s)) })"

section \<open>Playback\<close>

text \<open>
  The walk over the items of a partition to the one with index \<open>Index\<close>, \<open>k\<close> being the index of the
  item at \<open>p\<close>. It ends at the item, at a place that holds no item, or outside the block.
\<close>

function find_item :: "ptr \<Rightarrow> u32 \<Rightarrow> u32 \<Rightarrow> 'a pool_mem_scheme \<Rightarrow> (bool \<times> ptr \<times> u32) option" where
  "find_item p Index k s =
     (case load32 p s of
        None \<Rightarrow> None
      | Some sig \<Rightarrow>
          if sig \<noteq> PBR_LOGICAL_DATA_SIG then Some (False, p, k)
          else if Index = k then Some (True, p, k)
          else case load32 (ptr_add p 4) s of
                 None \<Rightarrow> None
               | Some sz \<Rightarrow> find_item (ptr_add p (unat sz + sizeof_item)) Index (k + 1) s)"
  by pat_completeness auto

termination
proof (relation "measure (\<lambda>(p, Index, k, s). case blocks s (fst p) of None \<Rightarrow> 0 | Some bs \<Rightarrow> length bs - snd p)")
  show "((ptr_add p (unat sz + sizeof_item), Index, k + 1, s), (p, Index, k, s))
      \<in> measure (\<lambda>(p, Index, k, s). case blocks s (fst p) of None \<Rightarrow> 0 | Some bs \<Rightarrow> length bs - snd p)"
    if "load32 p s = Some sig" for p Index k and s :: "'a pool_mem_scheme" and sig sz
    using that by (auto simp: load32_def load_def split: option.splits if_splits)
qed simp

declare find_item.simps [simp del]

definition GetData_copy :: "ptr \<Rightarrow> pbr_sys \<Rightarrow> (efi_status \<times> ptr \<times> u32 \<times> pbr_sys) option" where
  "GetData_copy p s = do {
     sz \<leftarrow> load32 (ptr_add p 4) s;
     let (q, s) = AllocateZeroPool (unat sz) s;
     (if q = NULL then Some (EFI_OUT_OF_RESOURCES, NULL, 0, s)
      else do {
        s \<leftarrow> PbrCopyChunks q (unat sz) (ptr_add p sizeof_item) sz s;
        Some (EFI_SUCCESS, q, sz, s) }) }"

text \<open>
  The loop of \<open>PbrGetData\<close> over the partitions: \<open>k\<close> is \<open>PartitionCtxIndex\<close>, which is not reset
  between partitions. It returns the item and its copy.
\<close>

fun GetData_loop :: "u32 \<Rightarrow> u32 \<Rightarrow> u32 \<Rightarrow> nat list \<Rightarrow> pbr_sys \<Rightarrow> (ptr \<times> efi_status \<times> ptr \<times> u32 \<times> pbr_sys) option" where
  "GetData_loop Signature Index k [] s = Some (NULL, EFI_NOT_FOUND, NULL, 0, s)"
| "GetData_loop Signature Index k (i # is) s =
     (let c = parts s ! i
      in if Signature \<noteq> PartitionSig c then GetData_loop Signature Index k is s
         else if Index = GET_NEXT_DATA_INDEX then do {
           let p = ptr_add (PartitionData c) (unat (PartitionCurrentOffset c));
           sig \<leftarrow> load32 p s;
           (if sig \<noteq> PBR_LOGICAL_DATA_SIG then Some (p, EFI_NOT_FOUND, NULL, 0, s)
            else do {
              sz \<leftarrow> load32 (ptr_add p 4) s;
              let s = set_part i (\<lambda>c. c\<lparr>PartitionCurrentOffset :=
                        PartitionCurrentOffset c + of_nat (sizeof_item + unat sz)\<rparr>) s;
              r \<leftarrow> GetData_copy p s;
              Some (p, r) }) }
         else do {
           (found, p, k) \<leftarrow> find_item (PartitionData c) Index k s;
           (if found then do { r \<leftarrow> GetData_copy p s; Some (p, r) }
            else GetData_loop Signature Index k is s) })"

text \<open>\<open>want\<close>: the caller passes a \<open>pLogicalIndex\<close>.\<close>

definition PbrGetData :: "u32 \<Rightarrow> u32 \<Rightarrow> bool \<Rightarrow> pbr_sys \<Rightarrow> (efi_status \<times> ptr \<times> u32 \<times> u32 \<times> pbr_sys) option" where
  "PbrGetData Signature Index want s = do {
     (p, rc, pData, Size, s) \<leftarrow> GetData_loop Signature Index 0 [0..<MAX_PARTITIONS] s;
     LogicalIndex \<leftarrow> (if rc = EFI_SUCCESS \<and> want then load32 (ptr_add p 8) s else Some 0);
     Some (rc, pData, Size, LogicalIndex, s) }"

text \<open>The first partition with a signature, and the last one: \<open>PbrGetPartition\<close> does not stop.\<close>

definition PbrGetDataPlaybackInfo :: "u32 \<Rightarrow> pbr_sys \<Rightarrow> efi_status \<times> u32 \<times> u32 \<times> u32" where
  "PbrGetDataPlaybackInfo Signature s =
     (case filter (\<lambda>c. PartitionSig c = Signature) (parts s) of
        [] \<Rightarrow> (EFI_NOT_FOUND, 0, 0, 0)
      | c # _ \<Rightarrow> (EFI_SUCCESS, PartitionLogicalDataCnt c, PartitionSize c, PartitionCurrentOffset c))"

definition PbrGetPartition :: "u32 \<Rightarrow> pbr_sys \<Rightarrow> PbrPartitionContext option" where
  "PbrGetPartition Signature s =
     (case filter (\<lambda>c. PartitionSig c = Signature) (parts s) of [] \<Rightarrow> None | cs \<Rightarrow> Some (last cs))"

definition PbrPartitionCount :: "pbr_sys \<Rightarrow> u32" where
  "PbrPartitionCount s = of_nat (length (filter (\<lambda>c. PartitionSig c \<noteq> PBR_INVALID_SIG) (parts s)))"

section \<open>The context in its variable\<close>

definition PbrSerializeCtx :: "pbr_sys \<Rightarrow> efi_status \<times> pbr_sys" where
  "PbrSerializeCtx s =
     (set_variable_rc s,
      if EFI_ERROR (set_variable_rc s) then s else s\<lparr>pbr_variable := Some (gPbrContext s)\<rparr>)"

definition GET_VARIABLE :: "pbr_sys \<Rightarrow> efi_status + PbrContext" where
  "GET_VARIABLE s =
     (if EFI_ERROR (get_variable_rc s) then Inl (get_variable_rc s)
      else case pbr_variable s of None \<Rightarrow> Inl EFI_NOT_FOUND | Some c \<Rightarrow> Inr c)"

definition PbrDeserializeCtx :: "pbr_sys \<Rightarrow> efi_status \<times> pbr_sys" where
  "PbrDeserializeCtx s =
     (case GET_VARIABLE s of
        Inl rc \<Rightarrow>
          if rc = EFI_NOT_FOUND
          then (EFI_SUCCESS, s\<lparr>gPbrContext := (gPbrContext s)\<lparr>PbrMode := PBR_NORMAL_MODE\<rparr>\<rparr>)
          else (rc, s)
      | Inr c \<Rightarrow> (EFI_SUCCESS, s\<lparr>gPbrContext := c\<rparr>))"

definition PbrInit :: "pbr_sys \<Rightarrow> efi_status \<times> pbr_sys" where
  "PbrInit s = PbrDeserializeCtx s"

definition PbrUninit :: "pbr_sys \<Rightarrow> efi_status \<times> pbr_sys" where
  "PbrUninit s = PbrSerializeCtx s"

section \<open>Sessions\<close>

fun FreeSession_loop :: "nat list \<Rightarrow> pbr_sys \<Rightarrow> pbr_sys option" where
  "FreeSession_loop [] s = Some s"
| "FreeSession_loop (i # is) s =
     (if PartitionSig (parts s ! i) \<noteq> PBR_INVALID_SIG then do {
        s \<leftarrow> FREE_POOL_SAFE (PartitionData (parts s ! i)) s;
        FreeSession_loop is (set_part i (\<lambda>c. c\<lparr>PartitionSig := PBR_INVALID_SIG\<rparr>) s) }
      else FreeSession_loop is s)"

definition PbrFreeSession :: "pbr_sys \<Rightarrow> (efi_status \<times> pbr_sys) option" where
  "PbrFreeSession s = do {
     s \<leftarrow> FreeSession_loop [0..<MAX_PARTITIONS] s;
     s \<leftarrow> FREE_POOL_SAFE (PbrMainHeader (gPbrContext s)) s;
     Some (EFI_SUCCESS, set_header NULL s) }"

definition PbrSetMode :: "u32 \<Rightarrow> pbr_sys \<Rightarrow> (efi_status \<times> pbr_sys) option" where
  "PbrSetMode mode s =
     (if mode = PBR_PLAYBACK_MODE \<and> PbrMainHeader (gPbrContext s) = NULL then Some (EFI_NOT_READY, s)
      else do {
        s \<leftarrow> (if mode = PBR_NORMAL_MODE then do {
                (rc, s) \<leftarrow> PbrFreeSession s;
                Some (s\<lparr>gPbrContext := zero_context\<rparr>) }
              else Some s);
        Some (PbrSerializeCtx (s\<lparr>gPbrContext := (gPbrContext s)\<lparr>PbrMode := mode\<rparr>\<rparr>)) })"

text \<open>\<open>given\<close>: the caller passes an output pointer.\<close>

definition PbrGetMode :: "bool \<Rightarrow> pbr_sys \<Rightarrow> efi_status \<times> u32" where
  "PbrGetMode given s =
     (if \<not> given then (EFI_INVALID_PARAMETER, 0) else (EFI_SUCCESS, PbrMode (gPbrContext s)))"

definition PbrCreateSessionContext :: "pbr_sys \<Rightarrow> (efi_status \<times> pbr_sys) option" where
  "PbrCreateSessionContext s = do {
     s \<leftarrow> FREE_POOL_SAFE (PbrMainHeader (gPbrContext s)) s;
     let (p, s) = AllocateZeroPool sizeof_header s;
     let s = set_header p s;
     (if p = NULL then Some (EFI_OUT_OF_RESOURCES, s)
      else do { s \<leftarrow> store32 p PBR_HEADER_SIG s; Some (EFI_SUCCESS, s) }) }"

definition PbrCheckBufferIntegrity :: "pbr_sys \<Rightarrow> efi_status option" where
  "PbrCheckBufferIntegrity s =
     (if PbrMainHeader (gPbrContext s) = NULL then Some EFI_LOAD_ERROR
      else do {
        sig \<leftarrow> load32 (PbrMainHeader (gPbrContext s)) s;
        Some (if sig \<noteq> PBR_HEADER_SIG then EFI_COMPROMISED_DATA else EFI_SUCCESS) })"

definition entry :: "ptr \<Rightarrow> nat \<Rightarrow> ptr" where
  "entry header i = ptr_add header (4 + sizeof_entry * i)"

fun Decompose_loop :: "ptr \<Rightarrow> nat list \<Rightarrow> pbr_sys \<Rightarrow> (efi_status \<times> pbr_sys) option" where
  "Decompose_loop pPbrImg [] s = Some (EFI_SUCCESS, s)"
| "Decompose_loop pPbrImg (i # is) s = do {
     let e = entry (PbrMainHeader (gPbrContext s)) i;
     sig \<leftarrow> load32 e s;
     (if sig = PBR_INVALID_SIG then Decompose_loop pPbrImg is s
      else do {
        sz \<leftarrow> load32 (ptr_add e 4) s;
        cnt \<leftarrow> load32 (ptr_add e 12) s;
        let (p, s) = AllocateZeroPool (unat sz) s;
        let s = set_part i (\<lambda>c. \<lparr>PartitionSig = sig, PartitionSize = sz, PartitionLogicalDataCnt = cnt,
                  PartitionCurrentOffset = 0, PartitionEndOffset = 0, PartitionData = p\<rparr>) s;
        (if p = NULL then Some (EFI_OUT_OF_RESOURCES, s)
         else do {
           off \<leftarrow> load32 (ptr_add e 8) s;
           s \<leftarrow> PbrCopyChunks p (unat sz) (ptr_add pPbrImg (unat off)) sz s;
           Decompose_loop pPbrImg is s }) }) }"

definition PbrDecomposeSession :: "ptr \<Rightarrow> u32 \<Rightarrow> pbr_sys \<Rightarrow> (efi_status \<times> pbr_sys) option" where
  "PbrDecomposeSession pPbrImg PbrImgSize s = do {
     let s = set_parts (replicate MAX_PARTITIONS zero_partition) s;
     let (h, s) = AllocateZeroPool sizeof_header s;
     let s = set_header h s;
     (if h = NULL then Some (EFI_OUT_OF_RESOURCES, s)
      else do {
        s \<leftarrow> PbrCopyChunks h sizeof_header pPbrImg (of_nat sizeof_header) s;
        sig \<leftarrow> load32 h s;
        (if sig \<noteq> PBR_HEADER_SIG then Some (EFI_INVALID_PARAMETER, s)
         else Decompose_loop pPbrImg [0..<MAX_PARTITIONS] s) }) }"

definition PbrSetSession :: "ptr \<Rightarrow> u32 \<Rightarrow> pbr_sys \<Rightarrow> (efi_status \<times> pbr_sys) option" where
  "PbrSetSession pBufferAddress BufferSize s = do {
     (rc, s) \<leftarrow> PbrFreeSession s;
     (rc, s) \<leftarrow> (if pBufferAddress = NULL then PbrCreateSessionContext s
                 else PbrDecomposeSession pBufferAddress BufferSize s);
     (if EFI_ERROR rc then Some (rc, s)
      else do {
        rc \<leftarrow> PbrCheckBufferIntegrity s;
        (if EFI_ERROR rc then Some (rc, s) else Some (PbrSerializeCtx s)) }) }"

text \<open>
  The two loops of \<open>PbrComposeSession\<close>: filling the partition table of the header and summing the
  sizes, then copying the partitions one behind the other.
\<close>

fun Compose_table :: "nat list \<Rightarrow> u32 \<Rightarrow> pbr_sys \<Rightarrow> (u32 \<times> pbr_sys) option" where
  "Compose_table [] BufferSize s = Some (BufferSize, s)"
| "Compose_table (i # is) BufferSize s =
     (let c = parts s ! i; e = entry (PbrMainHeader (gPbrContext s)) i
      in if PartitionSig c = PBR_INVALID_SIG then Compose_table is BufferSize s
         else do {
           s \<leftarrow> store32 e (PartitionSig c) s;
           s \<leftarrow> store32 (ptr_add e 4) (PartitionSize c) s;
           s \<leftarrow> store32 (ptr_add e 12) (PartitionLogicalDataCnt c) s;
           s \<leftarrow> store32 (ptr_add e 8) BufferSize s;
           Compose_table is (BufferSize + PartitionSize c) s })"

fun Compose_copy :: "nat list \<Rightarrow> u32 \<Rightarrow> ptr \<Rightarrow> pbr_sys \<Rightarrow> pbr_sys option" where
  "Compose_copy [] BufferSize pTemp s = Some s"
| "Compose_copy (i # is) BufferSize pTemp s =
     (let c = parts s ! i
      in if PartitionSig c = PBR_INVALID_SIG then Compose_copy is BufferSize pTemp s
         else do {
           s \<leftarrow> PbrCopyChunks pTemp (unat BufferSize) (PartitionData c) (PartitionSize c) s;
           Compose_copy is BufferSize (ptr_add pTemp (unat (PartitionSize c))) s })"

definition PbrComposeSession :: "pbr_sys \<Rightarrow> (efi_status \<times> ptr \<times> u32 \<times> pbr_sys) option" where
  "PbrComposeSession s = do {
     let header = PbrMainHeader (gPbrContext s);
     s \<leftarrow> store (ptr_add header 4) (replicate sizeof_table 0) s;
     (BufferSize, s) \<leftarrow> Compose_table [0..<MAX_PARTITIONS] (of_nat sizeof_header) s;
     let (p, s) = AllocateZeroPool (unat BufferSize) s;
     (if p = NULL then Some (EFI_OUT_OF_RESOURCES, NULL, 0, s)
      else do {
        s \<leftarrow> PbrCopyChunks p (unat BufferSize) header (of_nat sizeof_header) s;
        s \<leftarrow> Compose_copy [0..<MAX_PARTITIONS] BufferSize (ptr_add p sizeof_header) s;
        Some (EFI_SUCCESS, p, BufferSize, s) }) }"

definition PbrGetSession :: "bool \<Rightarrow> pbr_sys \<Rightarrow> (efi_status \<times> ptr \<times> u32 \<times> pbr_sys) option" where
  "PbrGetSession given s =
     (if \<not> given then Some (EFI_INVALID_PARAMETER, NULL, 0, s) else PbrComposeSession s)"

end
