(* ===== verification/Pbr_Session.thy ===== *)
theory Pbr_Session
  imports Pbr
begin

text \<open>
  What a session of playback and record holds: every partition as a list of data items, with the
  bytes behind the last item and the position of the next one. The operations on the context and its
  buffers refine operations on these views.
\<close>

section \<open>Items as bytes\<close>

definition enc_item :: "nat \<Rightarrow> u8 list \<Rightarrow> u8 list" where
  "enc_item i d = le32 PBR_LOGICAL_DATA_SIG @ le32 (of_nat (length d)) @ le32 (of_nat i) @ d"

fun enc_items :: "nat \<Rightarrow> u8 list list \<Rightarrow> u8 list" where
  "enc_items i [] = []"
| "enc_items i (d # ds) = enc_item i d @ enc_items (Suc i) ds"

lemma length_enc_item [simp]: "length (enc_item i d) = length d + sizeof_item"
  by (simp add: enc_item_def)

lemma enc_items_append: "enc_items i (xs @ ys) = enc_items i xs @ enc_items (i + length xs) ys"
  by (induction xs arbitrary: i) simp_all

lemma length_enc_items: "sizeof_item * length ds \<le> length (enc_items i ds)"
proof (induction ds arbitrary: i)
  case (Cons d ds)
  from Cons [of "Suc i"] show ?case by simp
qed simp

section \<open>Views\<close>

text \<open>
  \<open>vitems\<close> are the items of the partition, \<open>vslack\<close> the bytes of its buffer behind the last one and
  \<open>vpos\<close> the offset at which the next item is recorded or played back.
\<close>

record part_view =
  vsig :: u32
  vitems :: "u8 list list"
  vslack :: "u8 list"
  vpos :: nat

definition part_bytes :: "part_view \<Rightarrow> u8 list" where
  "part_bytes v = enc_items 0 (vitems v) @ vslack v"

definition vend :: "part_view \<Rightarrow> nat" where
  "vend v = length (enc_items 0 (vitems v))"

definition part_rep :: "'a pool_mem_scheme \<Rightarrow> PbrPartitionContext \<Rightarrow> part_view \<Rightarrow> bool" where
  "part_rep s c v \<longleftrightarrow>
     PartitionSig c = vsig v \<and> vsig v \<noteq> PBR_INVALID_SIG \<and>
     snd (PartitionData c) = 0 \<and> blocks s (fst (PartitionData c)) = Some (part_bytes v) \<and>
     unat (PartitionSize c) = length (part_bytes v) \<and>
     unat (PartitionLogicalDataCnt c) = length (vitems v) \<and>
     unat (PartitionCurrentOffset c) = vpos v \<and> vitems v \<noteq> []"

definition pool_ok :: "'a pool_mem_scheme \<Rightarrow> bool" where
  "pool_ok s \<longleftrightarrow> blocks s 0 = None \<and> 0 < next_block s \<and> (\<forall>b \<ge> next_block s. blocks s b = None)"

definition header_rep :: "pbr_sys \<Rightarrow> bool" where
  "header_rep s \<longleftrightarrow> snd (PbrMainHeader (gPbrContext s)) = 0 \<and>
     (\<exists>hb. blocks s (fst (PbrMainHeader (gPbrContext s))) = Some hb \<and> length hb = sizeof_header \<and>
       get32 0 hb = PBR_HEADER_SIG)"

text \<open>The blocks a session owns, the header's first.\<close>

definition owned :: "pbr_sys \<Rightarrow> nat \<Rightarrow> nat list" where
  "owned s n = fst (PbrMainHeader (gPbrContext s)) # map (fst \<circ> PartitionData) (take n (parts s))"

definition session_rep :: "pbr_sys \<Rightarrow> part_view list \<Rightarrow> bool" where
  "session_rep s vs \<longleftrightarrow>
     pool_ok s \<and> header_rep s \<and> length (parts s) = MAX_PARTITIONS \<and> length vs \<le> MAX_PARTITIONS \<and>
     distinct (map vsig vs) \<and> distinct (owned s (length vs)) \<and>
     (\<forall>i < length vs. part_rep s (parts s ! i) (vs ! i)) \<and>
     (\<forall>i. length vs \<le> i \<longrightarrow> i < MAX_PARTITIONS \<longrightarrow> PartitionSig (parts s ! i) = PBR_INVALID_SIG)"

section \<open>Laws of the pool\<close>

lemma pool_ok_alloc:
  assumes "pool_ok s" "False \<notin> set (alloc_ok s)"
  shows "AllocateZeroPool n s = ((next_block s, 0),
           s\<lparr>blocks := (blocks s)(next_block s \<mapsto> replicate n 0),
             next_block := Suc (next_block s), alloc_ok := tl (alloc_ok s)\<rparr>)"
  using assms by (auto simp: AllocateZeroPool_def split: list.splits bool.splits)

lemma pool_ok_fresh: "pool_ok s \<Longrightarrow> blocks s b = Some bs \<Longrightarrow> b < next_block s \<and> b \<noteq> 0"
  by (metis not_le option.distinct(1) pool_ok_def gr0I)

lemma pool_ok_write:
  assumes "pool_ok s" "blocks s b = Some bs" "blocks s' = (blocks s)(b \<mapsto> xs)" "next_block s' = next_block s"
  shows "pool_ok s'"
  using assms pool_ok_fresh [OF assms(1,2)] by (simp add: pool_ok_def)

lemma parts_simps [simp, pool_simps]:
  "parts (s\<lparr>blocks := h\<rparr>) = parts s" "parts (s\<lparr>next_block := n\<rparr>) = parts s"
  "parts (s\<lparr>alloc_ok := as\<rparr>) = parts s" "parts (set_parts cs s) = cs"
  "parts (set_part i f s) = (parts s)[i := f (parts s ! i)]"
  "parts (set_header p s) = parts s"
  by (simp_all add: parts_def set_parts_def set_part_def set_header_def)

lemma set_part_pool [simp, pool_simps]:
  "blocks (set_part i f s) = blocks s" "next_block (set_part i f s) = next_block s"
  "alloc_ok (set_part i f s) = alloc_ok s"
  "PbrMainHeader (gPbrContext (set_part i f s)) = PbrMainHeader (gPbrContext s)"
  "PbrMode (gPbrContext (set_part i f s)) = PbrMode (gPbrContext s)"
  by (simp_all add: set_part_def set_parts_def)

lemma set_header_pool [simp, pool_simps]:
  "blocks (set_header p s) = blocks s" "next_block (set_header p s) = next_block s"
  "alloc_ok (set_header p s) = alloc_ok s" "PbrMainHeader (gPbrContext (set_header p s)) = p"
  by (simp_all add: set_header_def)

lemma patch_behind: "patch (xs @ ys) (length xs + k) zs = xs @ patch ys k zs"
  by (simp add: patch_def add.assoc)

lemma patch_field:
  "length a = k \<Longrightarrow> length b = length zs \<Longrightarrow> patch (a @ b @ c) k zs = a @ zs @ c"
  by (auto simp: patch_def)

lemma set_part_twice:
  "i < length (parts s) \<Longrightarrow> set_part i f (set_part i g s) = set_part i (\<lambda>c. f (g c)) s"
  by (simp add: set_part_def set_parts_def parts_def)

lemma set_part_const: "set_part i (\<lambda>_. f (parts s ! i)) s = set_part i f s"
  by (simp add: set_part_def)

lemma ReallocatePool_eq:
  assumes ok: "pool_ok s" "False \<notin> set (alloc_ok s)"
    and p: "blocks s (fst p) = Some bs" "snd p = 0"
  shows "ReallocatePool (length bs) (length bs + n) p s = Some ((next_block s, 0),
           s\<lparr>blocks := (blocks s)(next_block s \<mapsto> bs @ replicate n 0, fst p := None),
             next_block := Suc (next_block s), alloc_ok := tl (alloc_ok s)\<rparr>)"
proof -
  have lt: "fst p \<noteq> next_block s" "p \<noteq> NULL" "next_block s \<noteq> 0"
    using pool_ok_fresh [OF ok(1) p(1)] ok(1) by (auto simp: pool_ok_def)
  then show ?thesis
    using p by (simp add: ReallocatePool_def pool_ok_alloc [OF ok] CopyMem_def load_def store_def FreePool_def patch_def)
qed

section \<open>Writing one item\<close>

text \<open>The data an item gets: the caller's bytes, or what already lies in its place.\<close>

definition data_given :: "ptr \<Rightarrow> nat \<Rightarrow> u8 list \<Rightarrow> nat \<Rightarrow> 'a pool_mem_scheme \<Rightarrow> u8 list \<Rightarrow> bool" where
  "data_given pData n old b s d \<longleftrightarrow>
     (if pData = NULL then d = old else fst pData \<noteq> b \<and> load pData n s = Some d)"

lemma copy_given_eq:
  assumes blk: "blocks s b = Some (xs @ old @ ys)" and len: "length old = unat Size" "off = length xs"
    and d: "data_given pData (unat Size) old b s d"
  shows "copy_given (b, off) m pData Size s = Some (s\<lparr>blocks := (blocks s)(b \<mapsto> xs @ d @ ys)\<rparr>)"
proof (cases "pData = NULL")
  case True
  with blk d show ?thesis by (simp add: copy_given_def data_given_def fun_upd_idem)
next
  case False
  then have ld: "fst pData \<noteq> b" "load pData (unat Size) s = Some d"
    using d by (simp_all add: data_given_def)
  show ?thesis
  proof (cases "Size = 0")
    case True
    with ld len have "d = []" "old = []" using load_length [OF ld(2)] by simp_all
    with False True blk show ?thesis by (simp add: copy_given_def fun_upd_idem)
  next
    case False
    then have "0 < Size" by (simp add: word_gt_0)
    have ptr: "fst (b, off) \<noteq> fst pData" using ld(1) by auto
    have "length d = length old" using load_length [OF ld(2)] len by simp
    then have "patch (xs @ old @ ys) off d = xs @ d @ ys"
      using patch_field [of xs off old d ys] len by simp
    with blk len \<open>length d = length old\<close> have "store (b, off) d s = Some (s\<lparr>blocks := (blocks s)(b \<mapsto> xs @ d @ ys)\<rparr>)"
      by (simp add: store_def)
    with \<open>pData \<noteq> NULL\<close> ld(2) show ?thesis
      by (simp add: copy_given_def PbrCopyChunks_eq [OF ptr \<open>0 < Size\<close>] CopyMem_def)
  qed
qed

lemma store_field:
  assumes "blocks s b = Some (xs @ old @ ys)" "length old = length zs" "off = length xs"
  shows "store (b, off) zs s = Some (s\<lparr>blocks := (blocks s)(b \<mapsto> xs @ zs @ ys)\<rparr>)"
  using assms patch_field [of xs off old zs ys] by (simp add: store_def)

section \<open>Changing one partition of a session\<close>

lemma part_rep_cong:
  "blocks s' (fst (PartitionData c)) = blocks s (fst (PartitionData c)) \<Longrightarrow> part_rep s' c v = part_rep s c v"
  by (simp add: part_rep_def)

lemma header_rep_cong:
  "PbrMainHeader (gPbrContext s') = PbrMainHeader (gPbrContext s) \<Longrightarrow>
   blocks s' (fst (PbrMainHeader (gPbrContext s))) = blocks s (fst (PbrMainHeader (gPbrContext s))) \<Longrightarrow>
   header_rep s' = header_rep s"
  by (simp add: header_rep_def)

lemma owned_mem:
  "fst (PbrMainHeader (gPbrContext s)) \<in> set (owned s n)"
  "j < n \<Longrightarrow> n \<le> length (parts s) \<Longrightarrow> fst (PartitionData (parts s ! j)) \<in> set (owned s n)"
  by (force simp: owned_def in_set_conv_nth)+

lemma owned_distinct:
  assumes "distinct (owned s n)" "i < n" "n \<le> length (parts s)"
  shows "fst (PartitionData (parts s ! i)) \<noteq> fst (PbrMainHeader (gPbrContext s))"
    "j < n \<Longrightarrow> j \<noteq> i \<Longrightarrow> fst (PartitionData (parts s ! j)) \<noteq> fst (PartitionData (parts s ! i))"
proof -
  show "fst (PartitionData (parts s ! i)) \<noteq> fst (PbrMainHeader (gPbrContext s))"
    using assms by (force simp: owned_def in_set_conv_nth)
  show "fst (PartitionData (parts s ! j)) \<noteq> fst (PartitionData (parts s ! i))" if "j < n" "j \<noteq> i"
  proof -
    have "distinct (map (fst \<circ> PartitionData) (take n (parts s)))" using assms(1) by (simp add: owned_def)
    from nth_eq_iff_index_eq [OF this, of j i] that assms show ?thesis by simp
  qed
qed

lemma session_rep_part: "session_rep s vs \<Longrightarrow> i < length vs \<Longrightarrow> part_rep s (parts s ! i) (vs ! i)"
  by (simp add: session_rep_def)

lemma session_rep_frame:
  assumes rep: "session_rep s vs" and ctx: "gPbrContext s' = gPbrContext s"
    and frame: "\<And>b. b \<in> set (owned s (length vs)) \<Longrightarrow> b \<noteq> fst (PbrMainHeader (gPbrContext s)) \<Longrightarrow> blocks s' b = blocks s b"
    and head: "header_rep s'" and ok: "pool_ok s'"
  shows "session_rep s' vs"
proof -
  have p: "parts s' = parts s" and o: "owned s' n = owned s n" for n by (simp_all add: parts_def owned_def ctx)
  have n: "length vs \<le> length (parts s)" "distinct (owned s (length vs))" using rep by (simp_all add: session_rep_def)
  have "part_rep s' (parts s ! i) (vs ! i)" if "i < length vs" for i
    using part_rep_cong [OF frame [OF owned_mem(2) [OF that n(1)] owned_distinct(1) [OF n(2) that n(1)]]]
      session_rep_part [OF rep that] by simp
  with rep head ok show ?thesis by (simp add: session_rep_def p o)
qed

lemma session_rep_foreign:
  assumes rep: "session_rep s vs" and ctx: "gPbrContext s' = gPbrContext s"
    and frame: "\<And>b. b \<in> set (owned s (length vs)) \<Longrightarrow> blocks s' b = blocks s b" and ok: "pool_ok s'"
  shows "session_rep s' vs"
proof (rule session_rep_frame [OF rep ctx frame _ ok])
  show "header_rep s'"
    using header_rep_cong [of s' s, OF _ frame [OF owned_mem(1)]] rep ctx by (simp add: session_rep_def)
qed

lemma session_rep_update:
  assumes rep: "session_rep s vs" and i: "i < length vs"
    and parts: "parts s' = (parts s)[i := c']"
    and head: "PbrMainHeader (gPbrContext s') = PbrMainHeader (gPbrContext s)"
    and frame: "\<And>b. b \<in> set (owned s (length vs)) \<Longrightarrow> b \<noteq> fst (PartitionData (parts s ! i)) \<Longrightarrow> blocks s' b = blocks s b"
    and own: "fst (PartitionData c') = fst (PartitionData (parts s ! i)) \<or> fst (PartitionData c') \<notin> set (owned s (length vs))"
    and part: "part_rep s' c' v'" "vsig v' = vsig (vs ! i)" and ok: "pool_ok s'"
  shows "session_rep s' (vs[i := v'])"
proof -
  let ?n = "length vs"
  have r: "distinct (owned s ?n)" "?n \<le> length (parts s)" "length (parts s) = MAX_PARTITIONS" "header_rep s"
    using rep by (simp_all add: session_rep_def)
  note ds = owned_distinct [OF r(1) i r(2)]
  have il: "i < length (parts s)" using i r(2) by simp
  have "header_rep s'"
    using header_rep_cong [OF head] frame [OF owned_mem(1)] ds(1) r(4) by metis
  moreover have "owned s' ?n = (owned s ?n)[Suc i := fst (PartitionData c')]"
    by (simp add: owned_def parts head take_update_swap map_update)
  then have "distinct (owned s' ?n)"
  proof -
    assume o: "owned s' ?n = (owned s ?n)[Suc i := fst (PartitionData c')]"
    have nth: "owned s ?n ! Suc i = fst (PartitionData (parts s ! i))" using i il by (simp add: owned_def)
    show ?thesis using own o r(1) nth by (metis distinct_list_update list_update_id DiffD1)
  qed
  moreover have "part_rep s' (parts s' ! j) (vs[i := v'] ! j)" if "j < ?n" for j
  proof (cases "j = i")
    case True
    with part i il show ?thesis by (simp add: parts)
  next
    case False
    with that have "part_rep s' (parts s ! j) (vs ! j)"
      using part_rep_cong [OF frame [OF owned_mem(2)]] ds(2) session_rep_part [OF rep that] r(2) by metis
    with False show ?thesis by (simp add: parts)
  qed
  moreover have "map vsig (vs[i := v']) = map vsig vs"
    by (metis part(2) i list_update_id map_update nth_map)
  moreover have "PartitionSig (parts s' ! j) = PBR_INVALID_SIG" if "?n \<le> j" "j < MAX_PARTITIONS" for j
    using that i rep by (simp add: parts session_rep_def)
  ultimately show ?thesis
    using rep ok by (simp add: session_rep_def parts)
qed

lemma session_rep_add:
  assumes rep: "session_rep s vs" and n: "length vs < MAX_PARTITIONS"
    and parts: "parts s' = (parts s)[length vs := c']"
    and head: "PbrMainHeader (gPbrContext s') = PbrMainHeader (gPbrContext s)"
    and frame: "\<And>b. b \<in> set (owned s (length vs)) \<Longrightarrow> blocks s' b = blocks s b"
    and own: "fst (PartitionData c') \<notin> set (owned s (length vs))"
    and part: "part_rep s' c' v'" "vsig v' \<notin> set (map vsig vs)" and ok: "pool_ok s'"
  shows "session_rep s' (vs @ [v'])"
proof -
  let ?n = "length vs"
  have r: "distinct (owned s ?n)" "?n < length (parts s)" "length (parts s) = MAX_PARTITIONS" "header_rep s"
    using rep n by (simp_all add: session_rep_def)
  have "header_rep s'"
    using header_rep_cong [OF head] frame [OF owned_mem(1)] r(4) by metis
  moreover have "owned s' (Suc ?n) = owned s ?n @ [fst (PartitionData c')]"
    using r(2) by (simp add: owned_def parts head take_Suc_conv_app_nth)
  then have "distinct (owned s' (Suc ?n))" using own r(1) by simp
  moreover have "part_rep s' (parts s' ! j) ((vs @ [v']) ! j)" if "j < Suc ?n" for j
  proof (cases "j = ?n")
    case True
    with part r(2) show ?thesis by (simp add: parts)
  next
    case False
    with that have j: "j < ?n" by simp
    then have "part_rep s' (parts s ! j) (vs ! j)"
      using part_rep_cong [OF frame [OF owned_mem(2)]] session_rep_part [OF rep j] r(2) by (metis less_imp_le)
    with False j show ?thesis by (simp add: parts nth_append)
  qed
  moreover have "PartitionSig (parts s' ! j) = PBR_INVALID_SIG" if "Suc ?n \<le> j" "j < MAX_PARTITIONS" for j
    using that rep by (simp add: parts session_rep_def)
  ultimately show ?thesis
    using rep ok part(2) n by (simp add: session_rep_def parts)
qed

section \<open>Recording on views\<close>

definition view_grow :: "nat \<Rightarrow> part_view \<Rightarrow> part_view" where
  "view_grow n v =
     (if length (vslack v) < n + sizeof_item
      then v\<lparr>vslack := vslack v @ replicate ((n + sizeof_item) * PARTITION_GROW_SZ_MULTIPLIER) 0\<rparr> else v)"

definition view_append :: "u8 list \<Rightarrow> part_view \<Rightarrow> part_view" where
  "view_append d v =
     (let w = view_grow (length d) v
      in w\<lparr>vitems := vitems w @ [d], vslack := drop (length d + sizeof_item) (vslack w),
          vpos := vpos w + (length d + sizeof_item)\<rparr>)"

definition view_new :: "u32 \<Rightarrow> bool \<Rightarrow> u8 list \<Rightarrow> part_view" where
  "view_new sig single d =
     \<lparr>vsig = sig, vitems = [d],
      vslack = replicate (if single then 0 else (length d + sizeof_item) * 9) 0,
      vpos = length d + sizeof_item\<rparr>"

lemma view_grow_simps [simp]:
  "vsig (view_grow n v) = vsig v" "vitems (view_grow n v) = vitems v" "vpos (view_grow n v) = vpos v"
  "vend (view_grow n v) = vend v"
  by (simp_all add: view_grow_def vend_def)

lemma view_grow_room: "n + sizeof_item \<le> length (vslack (view_grow n v))"
  by (simp add: view_grow_def)

lemma length_part_bytes: "length (part_bytes v) = vend v + length (vslack v)"
  by (simp add: part_bytes_def vend_def)

lemma unat32_less: "unat (w :: u32) < 2 ^ 32"
  using unsigned_less [of w, where 'a = nat] by simp

lemma of_nat_unat_less: "n < 2 ^ 32 \<Longrightarrow> unat (of_nat n :: u32) = n"
  by (simp add: unat_of_nat take_bit_nat_eq_self)

lemma unat_add_less: "unat (a :: u32) + n < 2 ^ 32 \<Longrightarrow> unat (a + of_nat n) = unat a + n"
  using of_nat_unat_less [of "unat a + n"] by (simp add: add.commute)

lemma session_rep_pool:
  assumes "session_rep s vs"
  shows "pool_ok s" "i < length vs \<Longrightarrow> blocks s (fst (PartitionData (parts s ! i))) = Some (part_bytes (vs ! i))"
    "b \<in> set (owned s (length vs)) \<Longrightarrow> blocks s b \<noteq> None"
  using assms
  by (auto simp: session_rep_def part_rep_def header_rep_def owned_def in_set_conv_nth)

lemma SetData_grow_rep:
  assumes rep: "session_rep s vs" and i: "i < length vs"
    and pos: "vpos (vs ! i) = vend (vs ! i)"
    and room: "length (part_bytes (vs ! i)) + (unat Size + sizeof_item) * PARTITION_GROW_SZ_MULTIPLIER < 2 ^ 32"
    and alloc: "False \<notin> set (alloc_ok s)"
  shows "\<exists>s'. SetData_grow i Size s = Some (EFI_SUCCESS, s') \<and> session_rep s' (vs[i := view_grow (unat Size) (vs ! i)]) \<and>
           (\<forall>b. b \<noteq> fst (PartitionData (parts s ! i)) \<longrightarrow> blocks s b \<noteq> None \<longrightarrow> blocks s' b = blocks s b) \<and>
           (fst (PartitionData (parts s' ! i)) = fst (PartitionData (parts s ! i)) \<or>
              blocks s (fst (PartitionData (parts s' ! i))) = None) \<and>
           set (alloc_ok s') \<subseteq> set (alloc_ok s) \<and> PbrMode (gPbrContext s') = PbrMode (gPbrContext s) \<and>
           PbrMainHeader (gPbrContext s') = PbrMainHeader (gPbrContext s) \<and> (\<exists>c. parts s' = (parts s)[i := c])"
proof (cases "length (vslack (vs ! i)) < unat Size + sizeof_item")
  case False
  with pos session_rep_part [OF rep i] have "SetData_grow i Size s = Some (EFI_SUCCESS, s)"
    by (simp add: SetData_grow_def Let_def part_rep_def length_part_bytes)
  with False rep i show ?thesis by (auto simp: view_grow_def intro!: exI [of _ "parts s ! i"])
next
  case True
  define grow where "grow = (unat Size + sizeof_item) * PARTITION_GROW_SZ_MULTIPLIER"
  define c where "c = parts s ! i"
  define v where "v = vs ! i"
  define q where "q = next_block s"
  define c' where "c' = c\<lparr>PartitionData := (q, 0), PartitionSize := PartitionSize c + of_nat grow\<rparr>"
  define s' where "s' = set_part i (\<lambda>_. c') (s\<lparr>blocks := (blocks s)(q \<mapsto> part_bytes v @ replicate grow 0, fst (PartitionData c) := None),
      next_block := Suc q, alloc_ok := tl (alloc_ok s)\<rparr>)"
  have pr: "part_rep s c v" using session_rep_part [OF rep i] by (simp add: c_def v_def)
  have old: "blocks s (fst (PartitionData c)) = Some (part_bytes v)" "snd (PartitionData c) = 0"
    using pr by (simp_all add: part_rep_def)
  have ok: "pool_ok s" using rep by (simp add: session_rep_def)
  have lt: "fst (PartitionData c) < q" "fst (PartitionData c) \<noteq> 0" using pool_ok_fresh [OF ok old(1)] by (simp_all add: q_def)
  have il: "i < length (parts s)" using rep i by (simp add: session_rep_def)
  have sz: "unat (PartitionSize c) = length (part_bytes v)" using pr by (simp add: part_rep_def)
  have "SetData_grow i Size s = Some (EFI_SUCCESS, s')"
  proof -
    have less: "unat (PartitionSize c) < unat (PartitionCurrentOffset c) + (unat Size + sizeof_item)"
      using True pos pr by (simp add: part_rep_def length_part_bytes v_def)
    have "q \<noteq> 0" using lt by simp
    then show ?thesis
      unfolding SetData_grow_def Let_def c_def [symmetric] grow_def [symmetric] sz
      using less il
      by (simp add: ReallocatePool_eq [OF ok alloc old] set_part_twice sz s'_def flip: q_def)
         (simp add: set_part_def c'_def c_def)
  qed
  moreover have "session_rep s' (vs[i := view_grow (unat Size) v])"
  proof (rule session_rep_update [OF rep i])
    show "part_rep s' c' (view_grow (unat Size) v)"
      using pr lt True room unat_add_less [of "PartitionSize c" grow]
      by (simp add: part_rep_def s'_def c'_def view_grow_def part_bytes_def v_def sz grow_def)
    show "pool_ok s'" using ok lt by (auto simp: pool_ok_def s'_def q_def)
    show "fst (PartitionData c') = fst (PartitionData (parts s ! i)) \<or> fst (PartitionData c') \<notin> set (owned s (length vs))"
      using session_rep_pool(3) [OF rep, of q] ok by (auto simp: c'_def pool_ok_def q_def)
    show "blocks s' b = blocks s b"
      if "b \<in> set (owned s (length vs))" "b \<noteq> fst (PartitionData (parts s ! i))" for b
      using that session_rep_pool(3) [OF rep that(1)] ok by (auto simp: s'_def q_def c_def pool_ok_def)
  qed (simp_all add: s'_def c'_def v_def)
  moreover have "blocks s' b = blocks s b" if "b \<noteq> fst (PartitionData (parts s ! i))" "blocks s b \<noteq> None" for b
    using that ok by (auto simp: s'_def q_def c_def pool_ok_def)
  moreover have "set (alloc_ok s') \<subseteq> set (alloc_ok s)"
    by (cases "alloc_ok s") (auto simp: s'_def)
  moreover have "blocks s (fst (PartitionData (parts s' ! i))) = None"
    using ok il by (simp add: s'_def c'_def q_def pool_ok_def)
  ultimately show ?thesis by (auto simp: v_def s'_def)
qed

lemma find_set_slot_found:
  assumes "i < length cs" "PartitionSig (cs ! i) = sig"
    "\<And>j. j < i \<Longrightarrow> PartitionSig (cs ! j) \<noteq> sig \<and> PartitionSig (cs ! j) \<noteq> PBR_INVALID_SIG"
  shows "find_set_slot sig cs k = (k + i, True)"
  using assms
proof (induction cs arbitrary: i k)
  case Nil
  then show ?case by simp
next
  case (Cons c cs)
  show ?case
  proof (cases i)
    case 0
    with Cons.prems show ?thesis by simp
  next
    case (Suc j)
    moreover have "find_set_slot sig cs (Suc k) = (Suc k + j, True)"
    proof (rule Cons.IH)
      show "PartitionSig (cs ! l) \<noteq> sig \<and> PartitionSig (cs ! l) \<noteq> PBR_INVALID_SIG" if "l < j" for l
        using Cons.prems(3) [of "Suc l"] that Suc by simp
    qed (use Cons.prems(1,2) Suc in simp_all)
    ultimately show ?thesis using Cons.prems(3) [of 0] by auto
  qed
qed

lemma find_set_slot_free:
  assumes "n \<le> length cs" "n < length cs \<Longrightarrow> PartitionSig (cs ! n) = PBR_INVALID_SIG" "sig \<noteq> PBR_INVALID_SIG"
    "\<And>j. j < n \<Longrightarrow> PartitionSig (cs ! j) \<noteq> sig \<and> PartitionSig (cs ! j) \<noteq> PBR_INVALID_SIG"
  shows "find_set_slot sig cs k = (k + n, False)"
  using assms
proof (induction cs arbitrary: n k)
  case Nil
  then show ?case by simp
next
  case (Cons c cs)
  show ?case
  proof (cases n)
    case 0
    with Cons.prems show ?thesis by simp
  next
    case (Suc j)
    moreover have "find_set_slot sig cs (Suc k) = (Suc k + j, False)"
    proof (rule Cons.IH)
      show "PartitionSig (cs ! l) \<noteq> sig \<and> PartitionSig (cs ! l) \<noteq> PBR_INVALID_SIG" if "l < j" for l
        using Cons.prems(4) [of "Suc l"] that Suc by simp
    qed (use Cons.prems(1-3) Suc in simp_all)
    ultimately show ?thesis using Cons.prems(4) [of 0] by auto
  qed
qed

lemma session_rep_sig:
  assumes "session_rep s vs" "i < length vs"
  shows "PartitionSig (parts s ! i) = vsig (vs ! i)" "vsig (vs ! i) \<noteq> PBR_INVALID_SIG"
  using session_rep_part [OF assms] by (simp_all add: part_rep_def)

lemma session_rep_find:
  assumes rep: "session_rep s vs"
  shows "i < length vs \<Longrightarrow> find_set_slot (vsig (vs ! i)) (parts s) 0 = (i, True)"
    "sig \<noteq> PBR_INVALID_SIG \<Longrightarrow> sig \<notin> set (map vsig vs) \<Longrightarrow> find_set_slot sig (parts s) 0 = (length vs, False)"
proof -
  have r: "distinct (map vsig vs)" "length vs \<le> length (parts s)" using rep by (auto simp: session_rep_def)
  show "find_set_slot (vsig (vs ! i)) (parts s) 0 = (i, True)" if i: "i < length vs"
  proof (rule find_set_slot_found [where k = 0, simplified])
    show "PartitionSig (parts s ! j) \<noteq> vsig (vs ! i) \<and> PartitionSig (parts s ! j) \<noteq> PBR_INVALID_SIG" if "j < i" for j
      using that i session_rep_sig [OF rep, of j] nth_eq_iff_index_eq [OF r(1), of j i] by simp
  qed (use i r(2) session_rep_sig [OF rep i] in simp_all)
  show "find_set_slot sig (parts s) 0 = (length vs, False)" if "sig \<noteq> PBR_INVALID_SIG" "sig \<notin> set (map vsig vs)"
  proof (rule find_set_slot_free [where k = 0, simplified])
    show "PartitionSig (parts s ! j) \<noteq> sig \<and> PartitionSig (parts s ! j) \<noteq> PBR_INVALID_SIG" if "j < length vs" for j
      using that \<open>sig \<notin> set (map vsig vs)\<close> session_rep_sig [OF rep that] by auto
  qed (use r(2) that rep in \<open>simp_all add: session_rep_def\<close>)
qed

lemma item_written:
  assumes blk: "blocks s b = Some (xs @ S)" and room: "unat Size + sizeof_item \<le> length S"
    and d: "data_given pData (unat Size) (take (unat Size) (drop sizeof_item S)) b s d" and off: "off = length xs"
  shows "do { s \<leftarrow> store32 (b, off) PBR_LOGICAL_DATA_SIG s; s \<leftarrow> store32 (b, off + 4) Size s;
              s \<leftarrow> copy_given (b, off + sizeof_item) m pData Size s; f s } =
    f (s\<lparr>blocks := (blocks s)(b \<mapsto> xs @ le32 PBR_LOGICAL_DATA_SIG @ le32 Size @ take 4 (drop 8 S) @ d
                                    @ drop (unat Size + sizeof_item) S)\<rparr>)"
proof -
  define a1 a2 a3 old ys where "a1 = take 4 S" "a2 = take 4 (drop 4 S)" "a3 = take 4 (drop 8 S)"
    "old = take (unat Size) (drop sizeof_item S)" "ys = drop (unat Size + sizeof_item) S"
  note defs = this
  have len: "length a1 = 4" "length a2 = 4" "length a3 = 4" "length old = unat Size"
    using room by (simp_all add: defs)
  have S: "S = a1 @ a2 @ a3 @ old @ ys"
  proof -
    have "old @ ys = drop 12 S"
      using append_take_drop_id [of "unat Size" "drop 12 S"] by (simp add: defs)
    moreover have "a3 @ drop 12 S = drop 8 S" using append_take_drop_id [of 4 "drop 8 S"] by (simp add: defs)
    moreover have "a2 @ drop 8 S = drop 4 S" using append_take_drop_id [of 4 "drop 4 S"] by (simp add: defs)
    moreover have "a1 @ drop 4 S = S" by (simp add: defs)
    ultimately show ?thesis by simp
  qed
  let ?s1 = "s\<lparr>blocks := (blocks s)(b \<mapsto> xs @ le32 PBR_LOGICAL_DATA_SIG @ a2 @ a3 @ old @ ys)\<rparr>"
  let ?s2 = "s\<lparr>blocks := (blocks s)(b \<mapsto> xs @ le32 PBR_LOGICAL_DATA_SIG @ le32 Size @ a3 @ old @ ys)\<rparr>"
  have 1: "store32 (b, off) PBR_LOGICAL_DATA_SIG s = Some ?s1"
    using store_field [of s b xs a1 "a2 @ a3 @ old @ ys" "le32 PBR_LOGICAL_DATA_SIG" off] blk len off S by simp
  have 2: "store32 (b, off + 4) Size ?s1 = Some ?s2"
    using store_field [of ?s1 b "xs @ le32 PBR_LOGICAL_DATA_SIG" a2 "a3 @ old @ ys" "le32 Size" "off + 4"] len off
    by simp
  have "data_given pData (unat Size) old b ?s2 d"
    using d by (auto simp: data_given_def load_def defs)
  then have 3: "copy_given (b, off + sizeof_item) m pData Size ?s2 =
      Some (s\<lparr>blocks := (blocks s)(b \<mapsto> xs @ le32 PBR_LOGICAL_DATA_SIG @ le32 Size @ a3 @ d @ ys)\<rparr>)"
    using copy_given_eq [of ?s2 b "xs @ le32 PBR_LOGICAL_DATA_SIG @ le32 Size @ a3" old ys Size "off + sizeof_item"] len off
    by simp
  show ?thesis using 1 2 3 by (simp add: defs)
qed

text \<open>
  Where the data of an item comes from: a buffer of the caller that is not part of the session, or
  the bytes in the item's place when the caller passes none.
\<close>

definition source :: "pbr_sys \<Rightarrow> nat \<Rightarrow> ptr \<Rightarrow> u32 \<Rightarrow> u8 list \<Rightarrow> u8 list \<Rightarrow> bool" where
  "source s n pData Size old d \<longleftrightarrow>
     (if pData = NULL then d = old
      else fst pData \<notin> set (owned s n) \<and> load pData (unat Size) s = Some d)"

definition free_bytes :: "nat \<Rightarrow> part_view \<Rightarrow> u8 list" where
  "free_bytes n v = take n (drop sizeof_item (vslack (view_grow n v)))"

lemma enc_items_snoc: "enc_items 0 (xs @ [d]) = enc_items 0 xs @ enc_item (length xs) d"
  by (simp add: enc_items_append)

text \<open>
  The blocks of others, and what a step from \<open>n\<close> partitions to \<open>n'\<close> keeps: they stay as they are and
  do not become part of the session.
\<close>

definition foreign :: "pbr_sys \<Rightarrow> nat \<Rightarrow> nat \<Rightarrow> bool" where
  "foreign s n b \<longleftrightarrow> b \<notin> set (owned s n) \<and> blocks s b \<noteq> None"

definition kept :: "nat \<Rightarrow> pbr_sys \<Rightarrow> nat \<Rightarrow> pbr_sys \<Rightarrow> bool" where
  "kept n s n' s' \<longleftrightarrow>
     (\<forall>b. foreign s n b \<longrightarrow> foreign s' n' b \<and> blocks s' b = blocks s b) \<and>
     set (alloc_ok s') \<subseteq> set (alloc_ok s) \<and> PbrMode (gPbrContext s') = PbrMode (gPbrContext s)"

lemma owned_update:
  "set (owned s' n) \<subseteq> insert b (set (owned s n))"
  if "parts s' = (parts s)[i := c]" "PbrMainHeader (gPbrContext s') = PbrMainHeader (gPbrContext s)"
    "fst (PartitionData c) = b"
proof -
  have "owned s' n = (owned s n)[Suc i := b]"
    using that by (simp add: owned_def take_update_swap map_update)
  then show ?thesis by (metis set_update_subset_insert)
qed

lemma keptI:
  assumes "\<And>b. foreign s n b \<Longrightarrow> blocks s' b = blocks s b"
    "set (owned s' n') \<subseteq> set (owned s n) \<union> B" "\<And>b. b \<in> B \<Longrightarrow> b \<notin> set (owned s n) \<Longrightarrow> blocks s b = None"
    "set (alloc_ok s') \<subseteq> set (alloc_ok s)" "PbrMode (gPbrContext s') = PbrMode (gPbrContext s)"
  shows "kept n s n' s'"
proof -
  have "foreign s' n' b" if "foreign s n b" for b
    using that assms(1) [OF that] assms(2) assms(3) [of b] unfolding foreign_def by auto
  with assms(1,4,5) show ?thesis by (simp add: kept_def)
qed

lemma kept_trans: "kept n s n' s' \<Longrightarrow> kept n' s' n'' s'' \<Longrightarrow> kept n s n'' s''"
  unfolding kept_def by fastforce

lemma PbrSetData_append:
  assumes rep: "session_rep s vs" and i: "i < length vs"
    and pos: "vpos (vs ! i) = vend (vs ! i)"
    and room: "length (part_bytes (vs ! i)) + (unat Size + sizeof_item) * PARTITION_GROW_SZ_MULTIPLIER < 2 ^ 32"
    and alloc: "False \<notin> set (alloc_ok s)"
    and src: "source s (length vs) pData Size (free_bytes (unat Size) (vs ! i)) d"
  shows "\<exists>s'. PbrSetData (vsig (vs ! i)) pData Size False s =
             Some (EFI_SUCCESS, (fst (PartitionData (parts s' ! i)), vend (vs ! i) + sizeof_item),
                   of_nat (length (vitems (vs ! i))), s') \<and>
           session_rep s' (vs[i := view_append d (vs ! i)]) \<and> kept (length vs) s (length vs) s'"
proof -
  define v where "v = vs ! i"
  define n where "n = unat Size"
  define w where "w = view_grow n v"
  define xs where "xs = enc_items 0 (vitems v)"
  obtain s1 where s1: "SetData_grow i Size s = Some (EFI_SUCCESS, s1)"
      "session_rep s1 (vs[i := w])"
      "\<And>b. b \<noteq> fst (PartitionData (parts s ! i)) \<Longrightarrow> blocks s b \<noteq> None \<Longrightarrow> blocks s1 b = blocks s b"
      "fst (PartitionData (parts s1 ! i)) = fst (PartitionData (parts s ! i)) \<or>
         blocks s (fst (PartitionData (parts s1 ! i))) = None"
      "set (alloc_ok s1) \<subseteq> set (alloc_ok s)" "PbrMode (gPbrContext s1) = PbrMode (gPbrContext s)"
      "PbrMainHeader (gPbrContext s1) = PbrMainHeader (gPbrContext s)" "\<exists>c. parts s1 = (parts s)[i := c]"
    using SetData_grow_rep [OF rep i pos room alloc] by (auto simp: w_def v_def n_def)
  define c where "c = parts s1 ! i"
  define b where "b = fst (PartitionData c)"
  have n: "length vs \<le> length (parts s)" using rep by (simp add: session_rep_def)
  have old: "fst (PartitionData (parts s ! i)) \<in> set (owned s (length vs))" by (rule owned_mem(2) [OF i n])
  have pr: "part_rep s1 c w" using session_rep_part [OF s1(2), of i] i by (simp add: c_def)
  have data: "PartitionData c = (b, 0)" "blocks s1 b = Some (xs @ vslack w)"
    using pr by (auto simp: part_rep_def b_def part_bytes_def w_def xs_def prod_eq_iff)
  have cnt: "PartitionLogicalDataCnt c = of_nat (length (vitems v))"
    using pr by (simp add: part_rep_def w_def flip: word_unat_eq_iff)
       (metis of_nat_unat ucast_id)
  have off: "unat (PartitionCurrentOffset c) = length xs"
    using pr pos by (simp add: part_rep_def w_def xs_def vend_def v_def)
  have outside: "blocks s1 b' = blocks s b' \<and> b' \<noteq> b" if "b' \<notin> set (owned s (length vs))" "blocks s b' \<noteq> None" for b'
  proof -
    have "b' \<noteq> fst (PartitionData (parts s ! i))" using that(1) old by auto
    then show ?thesis using s1(3) [OF _ that(2)] s1(4) that(2) by (auto simp: b_def c_def)
  qed
  have dg: "data_given pData n (take n (drop sizeof_item (vslack w))) b s1 d"
  proof (cases "pData = NULL")
    case True
    with src show ?thesis by (simp add: data_given_def source_def free_bytes_def w_def v_def n_def)
  next
    case False
    with src have p: "fst pData \<notin> set (owned s (length vs))" "load pData n s = Some d"
      by (simp_all add: source_def n_def)
    then have "blocks s (fst pData) \<noteq> None" unfolding load_Some_iff by blast
    note o = outside [OF p(1) this]
    have "load pData n s1 = load pData n s" by (rule load_cong) (rule conjunct1 [OF o])
    with p(2) False o show ?thesis by (simp add: data_given_def)
  qed
  have ld: "length d = n"
  proof (cases "pData = NULL")
    case True
    with dg view_grow_room [of n v] show ?thesis by (simp add: data_given_def w_def)
  next
    case False
    with dg show ?thesis using load_length by (fastforce simp: data_given_def)
  qed
  have roomw: "n + sizeof_item \<le> length (vslack w)" using view_grow_room [of n v] by (simp add: w_def)
  define ys where "ys = drop (n + sizeof_item) (vslack w)"
  define s2 where "s2 = s1\<lparr>blocks := (blocks s1)(b \<mapsto> xs @ le32 PBR_LOGICAL_DATA_SIG @ le32 Size @ take 4 (drop 8 (vslack w)) @ d @ ys)\<rparr>"
  define c' where "c' = c\<lparr>PartitionLogicalDataCnt := PartitionLogicalDataCnt c + 1,
                  PartitionCurrentOffset := PartitionCurrentOffset c + of_nat (n + sizeof_item)\<rparr>"
  define s3 where "s3 = set_part i (\<lambda>c. c\<lparr>PartitionLogicalDataCnt := PartitionLogicalDataCnt c + 1,
                  PartitionCurrentOffset := PartitionCurrentOffset c + of_nat (n + sizeof_item)\<rparr>) s2"
  define s4 where "s4 = s3\<lparr>blocks := (blocks s1)(b \<mapsto> xs @ enc_item (length (vitems v)) d @ ys)\<rparr>"
  have il: "i < length (parts s1)" using s1(2) i by (simp add: session_rep_def)
  have app: "SetData_append i pData Size s = Some (EFI_SUCCESS, (b, length xs), s3)"
    unfolding SetData_append_def s1(1) Let_def using data roomw dg off
    by (simp add: item_written [of s1 b xs "vslack w" Size pData d] n_def s3_def s2_def ys_def flip: c_def)
  have a3: "length (take 4 (drop 8 (vslack w))) = 4" using roomw by simp
  have st: "store32 (b, length xs + 8) (of_nat (length (vitems v))) s3 = Some s4"
  proof -
    have "blocks s3 b = Some ((xs @ le32 PBR_LOGICAL_DATA_SIG @ le32 Size) @ take 4 (drop 8 (vslack w)) @ d @ ys)"
      by (simp add: s3_def s2_def)
    then have "store32 (b, length xs + 8) (of_nat (length (vitems v))) s3 =
        Some (s3\<lparr>blocks := (blocks s3)(b \<mapsto> (xs @ le32 PBR_LOGICAL_DATA_SIG @ le32 Size) @ le32 (of_nat (length (vitems v))) @ d @ ys)\<rparr>)"
      by (rule store_field, subst length_le_bytes, intro a3) simp
    moreover have "Size = of_nat (length d)" by (simp add: ld n_def)
    ultimately show ?thesis by (simp add: s4_def s3_def s2_def enc_item_def)
  qed
  have set: "PbrSetData (vsig v) pData Size False s =
      Some (EFI_SUCCESS, (b, length xs + sizeof_item), of_nat (length (vitems v)), s4)"
  proof -
    have "PartitionLogicalDataCnt (parts s3 ! i) = of_nat (length (vitems v)) + 1"
      using il cnt by (simp add: s3_def s2_def c_def)
    then show ?thesis
      using session_rep_find(1) [OF rep i] app st by (simp add: PbrSetData_def v_def)
  qed
  have bi: "fst (PartitionData (parts s4 ! i)) = b"
    using il by (simp add: s4_def s3_def s2_def b_def c_def)
  have "session_rep s4 ((vs[i := w])[i := view_append d v])"
  proof (rule session_rep_update [OF s1(2)])
    have bytes: "part_bytes (view_append d v) = xs @ enc_item (length (vitems v)) d @ ys"
      by (simp add: part_bytes_def view_append_def Let_def enc_items_snoc xs_def ys_def ld flip: w_def)
         (simp add: w_def)
    have len: "length (part_bytes (view_append d v)) = length (part_bytes w)"
      using roomw ld by (simp add: bytes ys_def) (simp add: part_bytes_def w_def xs_def)
    have "unat (PartitionSize c) < 2 ^ 32" by (rule unat32_less)
    then have lim: "length (part_bytes w) < 2 ^ 32" using pr by (simp add: part_rep_def)
    have "length xs + (n + sizeof_item) \<le> length (part_bytes w)"
      using roomw by (simp add: part_bytes_def xs_def w_def)
    then have o: "unat (PartitionCurrentOffset c + of_nat (n + sizeof_item)) = vpos w + (n + sizeof_item)"
      using lim off pr by (intro trans [OF unat_add_less]) (simp_all add: part_rep_def)
    have "length (vitems w) < length (part_bytes w)"
      using length_enc_items [of "vitems v" 0] roomw by (simp add: part_bytes_def w_def)
    then have k: "unat (PartitionLogicalDataCnt c + 1) = length (vitems w) + 1"
      using unat_add_less [of "PartitionLogicalDataCnt c" 1] lim pr by (simp add: part_rep_def)
    show "part_rep s4 c' (view_append d v)"
      using pr o k len
      by (simp add: part_rep_def s4_def bytes c'_def b_def) (simp add: view_append_def Let_def ld flip: w_def)
    show "pool_ok s4"
      by (rule pool_ok_write [OF session_rep_pool(1) [OF s1(2)] data(2)]) (simp_all add: s4_def s3_def s2_def)
  qed (use i in \<open>simp_all add: s4_def s3_def s2_def c'_def b_def view_append_def w_def Let_def flip: c_def\<close>)
  moreover have "kept (length vs) s (length vs) s4"
  proof (rule keptI)
    have "parts s4 = (parts s)[i := parts s4 ! i]" "PbrMainHeader (gPbrContext s4) = PbrMainHeader (gPbrContext s)"
      using s1(7,8) i n by (auto simp: s4_def s3_def s2_def)
    then show "set (owned s4 (length vs)) \<subseteq> set (owned s (length vs)) \<union> {b}"
      using owned_update [OF _ _ bi] by blast
    show "blocks s b' = None" if "b' \<in> {b}" "b' \<notin> set (owned s (length vs))" for b'
      using that outside by blast
  qed (use outside s1(5,6) in \<open>auto simp: s4_def s3_def s2_def foreign_def\<close>)
  ultimately show ?thesis using set bi by (auto simp: v_def xs_def vend_def)
qed

lemma source_length:
  assumes "source s n pData Size old d" "length old = unat Size"
  shows "length d = unat Size"
  using assms load_length by (fastforce simp: source_def split: if_splits)

lemma source_data_given:
  assumes "source s n pData Size old d" "\<And>b'. b' \<notin> set (owned s n) \<Longrightarrow> blocks s b' \<noteq> None \<Longrightarrow> blocks s' b' = blocks s b' \<and> b' \<noteq> b"
  shows "data_given pData (unat Size) old b s' d"
proof (cases "pData = NULL")
  case True
  with assms(1) show ?thesis by (simp add: data_given_def source_def)
next
  case False
  with assms(1) have p: "fst pData \<notin> set (owned s n)" "load pData (unat Size) s = Some d"
    by (simp_all add: source_def)
  then have "blocks s (fst pData) \<noteq> None" unfolding load_Some_iff by blast
  note o = assms(2) [OF p(1) this]
  have "load pData (unat Size) s' = load pData (unat Size) s" by (rule load_cong) (rule conjunct1 [OF o])
  with p(2) False o show ?thesis by (simp add: data_given_def)
qed

text \<open>A first item in a block: its bytes, once the index is written.\<close>

lemma first_item_index:
  assumes "blocks s b = Some (le32 PBR_LOGICAL_DATA_SIG @ le32 Size @ old @ d @ ys)" "length old = 4" "length d = unat Size"
  shows "store32 (b, 8) 0 s = Some (s\<lparr>blocks := (blocks s)(b \<mapsto> enc_item 0 d @ ys)\<rparr>)"
proof -
  have "blocks s b = Some ((le32 PBR_LOGICAL_DATA_SIG @ le32 Size) @ old @ d @ ys)" using assms(1) by simp
  then have "store32 (b, 8) 0 s = Some (s\<lparr>blocks := (blocks s)(b \<mapsto> (le32 PBR_LOGICAL_DATA_SIG @ le32 Size) @ le32 0 @ d @ ys)\<rparr>)"
    by (rule store_field) (simp_all add: assms(2))
  moreover have "Size = of_nat (length d)" by (simp add: assms(3))
  ultimately show ?thesis by (simp add: enc_item_def)
qed

lemma PbrSetData_new:
  assumes rep: "session_rep s vs" and free: "length vs < MAX_PARTITIONS"
    and sig: "sig \<noteq> PBR_INVALID_SIG" "sig \<notin> set (map vsig vs)"
    and room: "(unat Size + sizeof_item) * PARTITION_GROW_SZ_MULTIPLIER < 2 ^ 32"
    and alloc: "False \<notin> set (alloc_ok s)"
    and src: "source s (length vs) pData Size (replicate (unat Size) 0) d"
  shows "\<exists>s'. PbrSetData sig pData Size single s =
             Some (EFI_SUCCESS, (fst (PartitionData (parts s' ! length vs)), sizeof_item), 0, s') \<and>
           session_rep s' (vs @ [view_new sig single d]) \<and> kept (length vs) s (Suc (length vs)) s'"
proof -
  define i where "i = length vs"
  define q where "q = next_block s"
  define n where "n = unat Size"
  define m where "m = (if single then n + sizeof_item else (n + sizeof_item) * PARTITION_GROW_SZ_MULTIPLIER)"
  have m: "unat (of_nat m :: u32) = m" "n + sizeof_item \<le> m"
    using room by (intro of_nat_unat_less) (simp_all add: m_def n_def)
  have ok: "pool_ok s" and il: "i < length (parts s)" using rep free by (simp_all add: session_rep_def i_def)
  have q: "q \<noteq> 0" "\<And>b. blocks s b \<noteq> None \<Longrightarrow> b \<noteq> q" using ok by (auto simp: pool_ok_def q_def)
  define c0 where "c0 = \<lparr>PartitionSig = sig, PartitionSize = of_nat m, PartitionLogicalDataCnt = 1,
               PartitionCurrentOffset = 0, PartitionEndOffset = 0, PartitionData = (q, 0)\<rparr>"
  define s1 where "s1 = set_part i (\<lambda>_. c0) (s\<lparr>blocks := (blocks s)(q \<mapsto> replicate m 0),
      next_block := Suc q, alloc_ok := tl (alloc_ok s)\<rparr>)"
  define ys where "ys = drop (n + sizeof_item) (replicate m (0 :: u8))"
  define s2 where "s2 = set_part i (\<lambda>c. c\<lparr>PartitionCurrentOffset := PartitionCurrentOffset c + of_nat (n + sizeof_item)\<rparr>)
      (s1\<lparr>blocks := (blocks s1)(q \<mapsto> le32 PBR_LOGICAL_DATA_SIG @ le32 Size @ take 4 (drop 8 (replicate m 0)) @ d @ ys)\<rparr>)"
  define s3 where "s3 = s2\<lparr>blocks := (blocks s2)(q \<mapsto> enc_item 0 d @ ys)\<rparr>"
  have outside: "blocks s1 b = blocks s b \<and> b \<noteq> q" if "b \<notin> set (owned s (length vs))" "blocks s b \<noteq> None" for b
    using q(2) [OF that(2)] by (simp add: s1_def)
  have old: "take n (drop sizeof_item (replicate m 0)) = replicate (unat Size) (0 :: u8)"
    using m(2) by (simp add: n_def min_def)
  have dg: "data_given pData (unat Size) (take (unat Size) (drop sizeof_item (replicate m 0))) q s1 d"
    using source_data_given [OF src outside] old by (simp add: n_def)
  have ld: "length d = n" using source_length [OF src] by (simp add: n_def)
  have new: "SetData_new i sig pData Size single s = Some (EFI_SUCCESS, (q, 0), s2)"
  proof -
    have "blocks s1 q = Some ([] @ replicate m 0)" by (simp add: s1_def)
    from item_written [OF this _ dg, where off = 0] show ?thesis
      unfolding SetData_new_def Let_def n_def [symmetric] m_def [symmetric] m(1) pool_ok_alloc [OF ok alloc]
      using q(1) m(2) by (simp add: s2_def ys_def n_def flip: q_def c0_def s1_def)
  qed
  have cnt: "PartitionLogicalDataCnt (parts s2 ! i) = 1" using il by (simp add: s2_def s1_def c0_def)
  have st: "store32 (q, 8) 0 s2 = Some s3"
    unfolding s3_def using m(2) ld
    by (intro first_item_index [where old = "take 4 (drop 8 (replicate m 0))"]) (simp_all add: s2_def n_def)
  have set: "PbrSetData sig pData Size single s = Some (EFI_SUCCESS, (q, sizeof_item), 0, s3)"
    using session_rep_find(2) [OF rep sig] free new st cnt by (simp add: PbrSetData_def i_def)
  define c where "c = c0\<lparr>PartitionCurrentOffset := of_nat (n + sizeof_item)\<rparr>"
  have pc: "parts s3 = (parts s)[i := c]" using il by (simp add: s3_def s2_def s1_def c_def c0_def)
  have "session_rep s3 (vs @ [view_new sig single d])"
  proof (rule session_rep_add [OF rep free])
    have "blocks s3 q = Some (part_bytes (view_new sig single d))"
      by (simp add: s3_def part_bytes_def view_new_def ys_def m_def ld)
    moreover have "length (part_bytes (view_new sig single d)) = m"
      by (simp add: part_bytes_def view_new_def m_def ld)
    ultimately show "part_rep s3 c (view_new sig single d)"
      using m of_nat_unat_less [of "n + sizeof_item"] room sig
      by (simp add: part_rep_def c_def c0_def) (simp add: view_new_def ld n_def)
    show "parts s3 = (parts s)[length vs := c]" by (simp add: pc i_def)
    show "blocks s3 b = blocks s b" if "b \<in> set (owned s (length vs))" for b
      using q(2) session_rep_pool(3) [OF rep that] by (simp add: s3_def s2_def s1_def)
    show "fst (PartitionData c) \<notin> set (owned s (length vs))"
      using q(2) session_rep_pool(3) [OF rep, of q] by (auto simp: c_def c0_def)
    show "pool_ok s3" using ok by (auto simp: s3_def s2_def s1_def pool_ok_def q_def)
  qed (use sig in \<open>simp_all add: s3_def s2_def s1_def view_new_def\<close>)
  moreover have "kept (length vs) s (Suc (length vs)) s3"
  proof (rule keptI)
    have "owned s3 (Suc i) = owned s i @ [q]"
      using il by (simp add: owned_def pc take_Suc_conv_app_nth) (simp add: s3_def s2_def s1_def c_def c0_def)
    then show "set (owned s3 (Suc (length vs))) \<subseteq> set (owned s (length vs)) \<union> {q}" by (auto simp: i_def)
    show "blocks s b = None" if "b \<in> {q}" for b using that q(2) by blast
    show "set (alloc_ok s3) \<subseteq> set (alloc_ok s)" by (cases "alloc_ok s") (auto simp: s3_def s2_def s1_def)
  qed (use q(2) in \<open>auto simp: s3_def s2_def s1_def foreign_def\<close>)
  moreover have "fst (PartitionData (parts s3 ! length vs)) = q"
    using il by (simp add: pc c_def c0_def flip: i_def)
  ultimately show ?thesis using set by auto
qed

end
