(* ===== verification/Pbr_Playback.thy ===== *)
theory Pbr_Playback
  imports Pbr_Session
begin

text \<open>
  Reading a session: an item is found by its index and by its position, the caller gets a copy of its
  data in a block of its own, and the session stays the one it was.
\<close>

section \<open>One item in its partition\<close>

lemma load_at:
  "blocks s b = Some (xs @ ys @ zs) \<Longrightarrow> off = length xs \<Longrightarrow> n = length ys \<Longrightarrow> load (b, off) n s = Some ys"
  by (simp add: load_def)

lemma load32_at:
  "blocks s b = Some (xs @ le32 w @ zs) \<Longrightarrow> off = length xs \<Longrightarrow> load32 (b, off) s = Some w"
  using load_at [of s b xs "le32 w" zs off 4] by (simp add: load32_def)

definition item_at :: "part_view \<Rightarrow> nat \<Rightarrow> nat" where
  "item_at v k = length (enc_items 0 (take k (vitems v)))"

lemma item_at_simps:
  "item_at v 0 = 0" "item_at v (length (vitems v)) = vend v"
  "k < length (vitems v) \<Longrightarrow> item_at v (Suc k) = item_at v k + (length (vitems v ! k) + sizeof_item)"
  by (simp_all add: item_at_def vend_def take_Suc_conv_app_nth enc_items_snoc min_def)

lemma part_bytes_split:
  assumes "k < length (vitems v)"
  shows "\<exists>ys. part_bytes v = enc_items 0 (take k (vitems v)) @ enc_item k (vitems v ! k) @ ys"
proof -
  have "vitems v = take k (vitems v) @ vitems v ! k # drop (Suc k) (vitems v)"
    using assms by (simp add: id_take_nth_drop)
  then have "enc_items 0 (vitems v) = enc_items 0 (take k (vitems v)) @ enc_item k (vitems v ! k) @ enc_items (Suc k) (drop (Suc k) (vitems v))"
    using assms by (metis add.left_neutral enc_items.simps(2) enc_items_append length_take min.absorb4 append_assoc)
  then show ?thesis by (auto simp: part_bytes_def)
qed

lemma part_rep_item:
  assumes pr: "part_rep s c v" and k: "k < length (vitems v)"
  defines "p \<equiv> (fst (PartitionData c), item_at v k)"
  shows "load32 p s = Some PBR_LOGICAL_DATA_SIG" "load32 (ptr_add p 4) s = Some (of_nat (length (vitems v ! k)))"
    "load32 (ptr_add p 8) s = Some (of_nat k)"
    "load (ptr_add p sizeof_item) (length (vitems v ! k)) s = Some (vitems v ! k)"
    "length (vitems v ! k) < 2 ^ 32" "k + 1 < 2 ^ 32"
proof -
  define xs where "xs = enc_items 0 (take k (vitems v))"
  define d where "d = vitems v ! k"
  obtain ys where bytes: "part_bytes v = xs @ enc_item k d @ ys"
    using part_bytes_split [OF k] by (auto simp: xs_def d_def)
  then have blk: "blocks s (fst (PartitionData c)) = Some (xs @ le32 PBR_LOGICAL_DATA_SIG @ le32 (of_nat (length d)) @ le32 (of_nat k) @ d @ ys)"
    using pr by (simp add: part_rep_def enc_item_def)
  have p: "p = (fst (PartitionData c), length xs)" by (simp add: p_def item_at_def xs_def)
  show "load32 p s = Some PBR_LOGICAL_DATA_SIG" unfolding p by (rule load32_at [OF blk]) simp
  show "load32 (ptr_add p 4) s = Some (of_nat (length (vitems v ! k)))"
    using load32_at [of s "fst (PartitionData c)" "xs @ le32 PBR_LOGICAL_DATA_SIG" "of_nat (length d)"] blk
    by (simp add: p d_def)
  show "load32 (ptr_add p 8) s = Some (of_nat k)"
    using load32_at [of s "fst (PartitionData c)" "xs @ le32 PBR_LOGICAL_DATA_SIG @ le32 (of_nat (length d))" "of_nat k"] blk
    by (simp add: p)
  show "load (ptr_add p sizeof_item) (length (vitems v ! k)) s = Some (vitems v ! k)"
    using load_at [of s "fst (PartitionData c)" "xs @ le32 PBR_LOGICAL_DATA_SIG @ le32 (of_nat (length d)) @ le32 (of_nat k)" d] blk
    by (simp add: p d_def)
  have "length (part_bytes v) < 2 ^ 32" using pr unat32_less [of "PartitionSize c"] by (simp add: part_rep_def)
  then show "length (vitems v ! k) < 2 ^ 32" "k + 1 < 2 ^ 32"
    using bytes length_enc_items [of "take k (vitems v)" 0] k by (simp_all add: d_def xs_def min_def)
qed

text \<open>The state after a copy of \<open>d\<close> was handed out.\<close>

definition handed_out :: "u8 list \<Rightarrow> pbr_sys \<Rightarrow> pbr_sys" where
  "handed_out d s = s\<lparr>blocks := (blocks s)(next_block s \<mapsto> d), next_block := Suc (next_block s), alloc_ok := tl (alloc_ok s)\<rparr>"

lemma handed_out_simps [simp]:
  "parts (handed_out d s) = parts s" "gPbrContext (handed_out d s) = gPbrContext s"
  "blocks (handed_out d s) (next_block s) = Some d"
  by (simp_all add: handed_out_def)

lemma GetData_copy_eq:
  assumes ok: "pool_ok s" "False \<notin> set (alloc_ok s)"
    and item: "load32 (ptr_add p 4) s = Some (of_nat (length d))" "load (ptr_add p sizeof_item) (length d) s = Some d"
      "length d < 2 ^ 32"
  shows "GetData_copy p s = Some (EFI_SUCCESS, (next_block s, 0), of_nat (length d), handed_out d s)"
proof -
  let ?q = "(next_block s, 0 :: nat)"
  let ?s = "s\<lparr>blocks := (blocks s)(next_block s \<mapsto> replicate (length d) 0), next_block := Suc (next_block s), alloc_ok := tl (alloc_ok s)\<rparr>"
  have q: "next_block s \<noteq> 0" "fst ?q \<noteq> fst (ptr_add p sizeof_item)"
    using ok(1) item(2) by (auto simp: pool_ok_def load_Some_iff)
  have copy: "PbrCopyChunks ?q m (ptr_add p sizeof_item) (of_nat (length d)) ?s = Some (handed_out d s)" for m
  proof (cases "d = []")
    case True
    then show ?thesis by (simp add: handed_out_def)
  next
    case False
    then have "(0 :: u32) < of_nat (length d)"
      using of_nat_unat_less [OF item(3)] by (metis length_0_conv unat_0 word_gt_0)
    moreover have "load (ptr_add p sizeof_item) (length d) ?s = Some d"
      using item(2) q(2) by (subst load_cong [of _ _ s]) auto
    then have "CopyMem ?q (ptr_add p sizeof_item) (length d) ?s = Some (handed_out d s)"
      by (simp add: CopyMem_def store_def patch_def handed_out_def)
    ultimately show ?thesis by (simp add: PbrCopyChunks_eq [OF q(2)] of_nat_unat_less [OF item(3)])
  qed
  show ?thesis
    using item(1) q(1) copy by (simp add: GetData_copy_def pool_ok_alloc [OF ok] of_nat_unat_less [OF item(3)])
qed

lemma handed_out_rep:
  assumes "session_rep s vs"
  shows "session_rep (handed_out d s) vs" "foreign (handed_out d s) (length vs) (next_block s)"
    "kept (length vs) s (length vs) (handed_out d s)"
proof -
  have ok: "pool_ok s" using assms by (simp add: session_rep_def)
  have own: "blocks (handed_out d s) b = blocks s b" if "blocks s b \<noteq> None" for b
    using that ok by (auto simp: handed_out_def pool_ok_def)
  have o: "owned (handed_out d s) n = owned s n" for n by (simp add: owned_def)
  have no: "next_block s \<notin> set (owned s (length vs))"
    using session_rep_pool(3) [OF assms, of "next_block s"] ok by (auto simp: pool_ok_def)
  show "session_rep (handed_out d s) vs"
  proof (rule session_rep_foreign [OF assms])
    show "pool_ok (handed_out d s)" using ok by (simp add: pool_ok_def handed_out_def)
  qed (use own session_rep_pool(3) [OF assms] in auto)
  show "foreign (handed_out d s) (length vs) (next_block s)" using no by (simp add: foreign_def o)
  show "kept (length vs) s (length vs) (handed_out d s)"
  proof (rule keptI [where B = "{}"])
    show "set (alloc_ok (handed_out d s)) \<subseteq> set (alloc_ok s)"
      by (cases "alloc_ok s") (auto simp: handed_out_def)
  qed (use own in \<open>auto simp: foreign_def o\<close>)
qed

section \<open>By index\<close>

lemma find_item_rep:
  assumes pr: "part_rep s c v" and k: "k < length (vitems v)" "j \<le> k"
  shows "find_item (fst (PartitionData c), item_at v j) (of_nat k) (of_nat j) s =
           Some (True, (fst (PartitionData c), item_at v k), of_nat k)"
  using k(2)
proof (induction "k - j" arbitrary: j)
  case 0
  then have "j = k" by simp
  with part_rep_item(1) [OF pr k(1)] show ?case by (subst find_item.simps) simp
next
  case (Suc n)
  then have j: "j < k" "j < length (vitems v)" using k(1) by simp_all
  note it = part_rep_item [OF pr j(2)]
  have lim: "k < 2 ^ 32" "j < 2 ^ 32" using part_rep_item(6) [OF pr k(1)] j(1) by simp_all
  have "(of_nat k :: u32) \<noteq> of_nat j"
    using j(1) of_nat_unat_less [OF lim(1)] of_nat_unat_less [OF lim(2)] by force
  with it show ?case
    using Suc(1) [of "Suc j"] Suc(2) j item_at_simps(3) [OF j(2)]
    by (subst find_item.simps) (simp add: of_nat_unat_less add.commute add.left_commute)
qed

lemma GetData_loop_skip:
  "(\<And>j. j \<in> set is \<Longrightarrow> PartitionSig (parts s ! j) \<noteq> sig) \<Longrightarrow>
     GetData_loop sig Index k (is @ js) s = GetData_loop sig Index k js s"
  by (induction "is") (auto simp: Let_def)

lemma GetData_loop_at:
  assumes rep: "session_rep s vs" and i: "i < length vs"
  shows "GetData_loop (vsig (vs ! i)) Index k [0..<MAX_PARTITIONS] s =
           GetData_loop (vsig (vs ! i)) Index k (i # [Suc i..<MAX_PARTITIONS]) s"
proof -
  have "i < MAX_PARTITIONS" using rep i by (simp add: session_rep_def)
  then have "[0..<MAX_PARTITIONS] = [0..<i] @ i # [Suc i..<MAX_PARTITIONS]"
    using upt_add_eq_append [of 0 i "MAX_PARTITIONS - i"] upt_conv_Cons [of i MAX_PARTITIONS] by simp
  moreover have "PartitionSig (parts s ! j) \<noteq> vsig (vs ! i)" if "j \<in> set [0..<i]" for j
  proof -
    have d: "distinct (map vsig vs)" using rep by (simp add: session_rep_def)
    have "vsig (vs ! j) \<noteq> vsig (vs ! i)" using that i nth_eq_iff_index_eq [OF d, of j i] by simp
    then show ?thesis using session_rep_sig(1) [OF rep, of j] that i by simp
  qed
  ultimately show ?thesis using GetData_loop_skip [of "[0..<i]" s "vsig (vs ! i)"] by metis
qed

text \<open>The item with index \<open>k\<close> comes back whole, with its index, and nothing of the session changes.\<close>

lemma PbrGetData_index:
  assumes rep: "session_rep s vs" and i: "i < length vs" and k: "k < length (vitems (vs ! i))"
    and alloc: "False \<notin> set (alloc_ok s)"
  shows "PbrGetData (vsig (vs ! i)) (of_nat k) want s =
           Some (EFI_SUCCESS, (next_block s, 0), of_nat (length (vitems (vs ! i) ! k)), if want then of_nat k else 0,
                 handed_out (vitems (vs ! i) ! k) s)"
proof -
  define c where "c = parts s ! i"
  define d where "d = vitems (vs ! i) ! k"
  have pr: "part_rep s c (vs ! i)" using session_rep_part [OF rep i] by (simp add: c_def)
  note it = part_rep_item [OF pr k, folded d_def]
  have ok: "pool_ok s" using rep by (simp add: session_rep_def)
  have data: "PartitionData c = (fst (PartitionData c), item_at (vs ! i) 0)"
    using pr by (simp add: part_rep_def item_at_simps prod_eq_iff)
  have "unat (of_nat k :: u32) \<noteq> unat (- 1 :: u32)" using it(6) of_nat_unat_less [of k] by (simp add: unsigned_minus_1_eq_mask mask_eq_exp_minus_1)
  then have ne: "(of_nat k :: u32) \<noteq> - 1" by metis
  have "GetData_loop (vsig (vs ! i)) (of_nat k) 0 [0..<MAX_PARTITIONS] s =
      Some ((fst (PartitionData c), item_at (vs ! i) k), EFI_SUCCESS, (next_block s, 0), of_nat (length d), handed_out d s)"
    using find_item_rep [OF pr k, of 0] data ne session_rep_sig(1) [OF rep i]
      GetData_copy_eq [OF ok alloc it(2,4,5)]
    unfolding GetData_loop_at [OF rep i] by (simp add: Let_def flip: c_def)
  moreover have "load32 (ptr_add (fst (PartitionData c), item_at (vs ! i) k) 8) (handed_out d s) = Some (of_nat k)"
  proof -
    have "fst (PartitionData c) \<noteq> next_block s"
      using pr ok by (auto simp: part_rep_def pool_ok_def)
    then show ?thesis
      using it(3) load_cong [of "handed_out d s" "ptr_add (fst (PartitionData c), item_at (vs ! i) k) 8" s 4]
      by (simp add: load32_def handed_out_def)
  qed
  ultimately show ?thesis by (simp add: PbrGetData_def flip: d_def)
qed

section \<open>One after the other\<close>

text \<open>
  The item at the current position comes back, and the position moves behind it. Behind the last item
  the answer is \<open>EFI_NOT_FOUND\<close> as long as four bytes that hold no item follow it in the buffer.
\<close>

definition view_advance :: "nat \<Rightarrow> part_view \<Rightarrow> part_view" where
  "view_advance k v = v\<lparr>vpos := item_at v k\<rparr>"

lemma view_advance_simps [simp]:
  "vsig (view_advance k v) = vsig v" "vitems (view_advance k v) = vitems v" "vslack (view_advance k v) = vslack v"
  "item_at (view_advance k v) j = item_at v j" "view_advance k (view_advance j v) = view_advance k v"
  "part_bytes (view_advance k v) = part_bytes v" "vpos (view_advance k v) = item_at v k"
  by (simp_all add: view_advance_def item_at_def part_bytes_def)

lemma item_at_bound:
  assumes "k \<le> length (vitems v)"
  shows "item_at v k \<le> length (part_bytes v)"
proof -
  have "enc_items 0 (vitems v) = enc_items 0 (take k (vitems v)) @ enc_items k (drop k (vitems v))"
    using enc_items_append [of 0 "take k (vitems v)" "drop k (vitems v)"] assms by (simp add: min_def)
  then have "length (enc_items 0 (vitems v)) = item_at v k + length (enc_items k (drop k (vitems v)))"
    by (simp add: item_at_def)
  then show ?thesis by (simp add: part_bytes_def)
qed

lemma PbrGetData_next:
  assumes rep: "session_rep s vs" and i: "i < length vs" and k: "k < length (vitems (vs ! i))"
    and pos: "vpos (vs ! i) = item_at (vs ! i) k" and alloc: "False \<notin> set (alloc_ok s)"
  shows "\<exists>s'. PbrGetData (vsig (vs ! i)) GET_NEXT_DATA_INDEX False s =
             Some (EFI_SUCCESS, (next_block s, 0), of_nat (length (vitems (vs ! i) ! k)), 0, s') \<and>
           session_rep s' (vs[i := view_advance (Suc k) (vs ! i)]) \<and>
           blocks s' (next_block s) = Some (vitems (vs ! i) ! k) \<and> foreign s' (length vs) (next_block s) \<and>
           kept (length vs) s (length vs) s'"
proof -
  define c where "c = parts s ! i"
  define v where "v = vs ! i"
  define d where "d = vitems v ! k"
  define f where "f = (\<lambda>c :: PbrPartitionContext. c\<lparr>PartitionCurrentOffset := PartitionCurrentOffset c + of_nat (sizeof_item + length d)\<rparr>)"
  define s1 where "s1 = set_part i f s"
  have pr: "part_rep s c v" using session_rep_part [OF rep i] by (simp add: c_def v_def)
  note it = part_rep_item [OF pr k [folded v_def], folded d_def]
  have il: "i < length (parts s)" using rep i by (simp add: session_rep_def)
  have p: "ptr_add (PartitionData c) (unat (PartitionCurrentOffset c)) = (fst (PartitionData c), item_at v k)"
    using pr pos by (simp add: part_rep_def ptr_add_def v_def)
  have s1: "session_rep s1 (vs[i := view_advance (Suc k) v])"
  proof (rule session_rep_update [OF rep i])
    have "unat (PartitionCurrentOffset c + of_nat (sizeof_item + length d)) = item_at v (Suc k)"
    proof -
      have "item_at v (Suc k) < 2 ^ 32"
        using item_at_bound [of "Suc k" v] k unat32_less [of "PartitionSize c"] pr by (simp add: part_rep_def v_def)
      then show ?thesis
        using pr pos item_at_simps(3) [OF k [folded v_def]] unat_add_less [of "PartitionCurrentOffset c" "sizeof_item + length d"]
        by (simp add: part_rep_def v_def d_def)
    qed
    with pr show "part_rep s1 (f c) (view_advance (Suc k) v)" by (simp add: part_rep_def s1_def f_def)
    show "pool_ok s1" using rep by (simp add: session_rep_def pool_ok_def s1_def)
  qed (simp_all add: s1_def f_def v_def c_def)
  have cp: "GetData_copy (fst (PartitionData c), item_at v k) s1 =
      Some (EFI_SUCCESS, (next_block s, 0), of_nat (length d), handed_out d s1)"
    using GetData_copy_eq [OF session_rep_pool(1) [OF s1], of "(fst (PartitionData c), item_at v k)" d] it alloc
    by (simp add: s1_def load32_def load_def)
  have "GetData_loop (vsig v) (- 1) 0 [0..<MAX_PARTITIONS] s =
      Some ((fst (PartitionData c), item_at v k), EFI_SUCCESS, (next_block s, 0), of_nat (length d), handed_out d s1)"
    using it p cp session_rep_sig(1) [OF rep i] of_nat_unat_less [OF it(5)]
    unfolding GetData_loop_at [OF rep i, folded v_def] by (simp add: Let_def v_def f_def s1_def flip: c_def)
  moreover have "kept (length vs) s (length vs) s1"
  proof (rule keptI)
    show "set (owned s1 (length vs)) \<subseteq> set (owned s (length vs)) \<union> {}"
      using owned_update [of s1 s i "f c" "fst (PartitionData c)" "length vs"] owned_mem(2) [OF i, of s] rep
      by (auto simp: s1_def f_def c_def session_rep_def)
  qed (simp_all add: s1_def)
  ultimately show ?thesis
    using handed_out_rep [OF s1, of d] kept_trans [OF _ handed_out_rep(3) [OF s1, of d, simplified], of "length vs" s]
    by (simp add: PbrGetData_def v_def d_def s1_def) (simp add: handed_out_def)
qed

text \<open>Behind the last item.\<close>

lemma PbrGetData_end:
  assumes rep: "session_rep s vs" and i: "i < length vs" and pos: "vpos (vs ! i) = vend (vs ! i)"
  shows "PbrGetData (vsig (vs ! i)) GET_NEXT_DATA_INDEX want s =
    (if length (vslack (vs ! i)) < 4 then None
     else if get32 0 (vslack (vs ! i)) \<noteq> PBR_LOGICAL_DATA_SIG then Some (EFI_NOT_FOUND, NULL, 0, 0, s)
     else PbrGetData (vsig (vs ! i)) GET_NEXT_DATA_INDEX want s)"
proof -
  define c where "c = parts s ! i"
  define v where "v = vs ! i"
  have pr: "part_rep s c v" using session_rep_part [OF rep i] by (simp add: c_def v_def)
  have p: "ptr_add (PartitionData c) (unat (PartitionCurrentOffset c)) = (fst (PartitionData c), vend v)"
    using pr pos by (simp add: part_rep_def ptr_add_def v_def)
  have "load32 (fst (PartitionData c), vend v) s = (if length (vslack v) < 4 then None else Some (get32 0 (vslack v)))"
    using pr by (simp add: part_rep_def load32_def load_def part_bytes_def vend_def get32_def)
  with p session_rep_sig(1) [OF rep i] show ?thesis
    unfolding PbrGetData_def GetData_loop_at [OF rep i] by (simp add: Let_def v_def flip: c_def)
qed

end
