(* ===== verification/Pbr_Image.thy ===== *)
theory Pbr_Image
  imports Pbr_Playback
begin

text \<open>
  A session as one image: stitching the partitions together behind the header, giving a session up,
  and taking an image apart again.
\<close>

section \<open>The bytes of an image\<close>

definition entry_bytes :: "nat \<Rightarrow> part_view \<Rightarrow> u8 list" where
  "entry_bytes off v = le32 (vsig v) @ le32 (of_nat (length (part_bytes v))) @ le32 (of_nat off)
     @ le32 (of_nat (length (vitems v)))"

definition data_size :: "part_view list \<Rightarrow> nat" where
  "data_size vs = sum_list (map (length \<circ> part_bytes) vs)"

fun table_bytes :: "nat \<Rightarrow> part_view list \<Rightarrow> u8 list" where
  "table_bytes off [] = []"
| "table_bytes off (v # vs) = entry_bytes off v @ table_bytes (off + length (part_bytes v)) vs"

definition header_bytes :: "u8 list \<Rightarrow> part_view list \<Rightarrow> u8 list" where
  "header_bytes hb vs = take 4 hb @ table_bytes sizeof_header vs
     @ replicate (sizeof_entry * (MAX_PARTITIONS - length vs)) 0 @ drop (4 + sizeof_table) hb"

definition image_bytes :: "u8 list \<Rightarrow> part_view list \<Rightarrow> u8 list" where
  "image_bytes hb vs = header_bytes hb vs @ concat (map part_bytes vs)"

lemma length_entry_bytes [simp]: "length (entry_bytes off v) = sizeof_entry"
  by (simp add: entry_bytes_def)

lemma length_table_bytes [simp]: "length (table_bytes off vs) = sizeof_entry * length vs"
  by (induction vs arbitrary: off) simp_all

lemma table_bytes_append: "table_bytes off (vs @ ws) = table_bytes off vs @ table_bytes (off + data_size vs) ws"
  by (induction vs arbitrary: off) (simp_all add: data_size_def add.assoc)

lemma length_header_bytes:
  "length hb = sizeof_header \<Longrightarrow> length vs \<le> MAX_PARTITIONS \<Longrightarrow> length (header_bytes hb vs) = sizeof_header"
  by (simp add: header_bytes_def MAX_PARTITIONS_def)

lemma data_size_simps [simp]:
  "data_size [] = 0" "data_size (v # vs) = length (part_bytes v) + data_size vs"
  "data_size (vs @ ws) = data_size vs + data_size ws"
  by (simp_all add: data_size_def)

lemma length_concat_parts: "length (concat (map part_bytes vs)) = data_size vs"
  by (induction vs) simp_all

lemma data_size_take: "k < length vs \<Longrightarrow> data_size (take k vs) + length (part_bytes (vs ! k)) \<le> data_size vs"
  using arg_cong [OF id_take_nth_drop [of k vs], of data_size] by simp

section \<open>Stitching\<close>

lemma skip_invalid:
  assumes "\<And>i. i \<in> set is \<Longrightarrow> PartitionSig (parts s ! i) = PBR_INVALID_SIG"
  shows "Compose_table is n s = Some (n, s)" "Compose_copy is n p s = Some s"
  using assms by (induction "is") (simp_all add: Let_def)

lemma entry_written:
  assumes blk: "blocks s h = Some (xs @ Z @ ys)" and Z: "length Z = sizeof_entry" and off: "off = length xs"
  shows "do { s \<leftarrow> store32 (h, off) a s; s \<leftarrow> store32 (h, off + 4) b s; s \<leftarrow> store32 (h, off + 12) c s;
              s \<leftarrow> store32 (h, off + 8) d s; f s } =
         f (s\<lparr>blocks := (blocks s)(h \<mapsto> xs @ (le32 a @ le32 b @ le32 d @ le32 c) @ ys)\<rparr>)"
proof -
  obtain z1 z2 z3 z4 where z: "Z = z1 @ z2 @ z3 @ z4" "length z1 = 4" "length z2 = 4" "length z3 = 4" "length z4 = 4"
  proof
    show "Z = take 4 Z @ take 4 (drop 4 Z) @ take 4 (drop 8 Z) @ drop 12 Z"
      using append_take_drop_id [of 4 "drop 8 Z"] append_take_drop_id [of 4 "drop 4 Z"] by simp
  qed (use Z in simp_all)
  let ?s1 = "s\<lparr>blocks := (blocks s)(h \<mapsto> xs @ le32 a @ z2 @ z3 @ z4 @ ys)\<rparr>"
  let ?s2 = "s\<lparr>blocks := (blocks s)(h \<mapsto> xs @ le32 a @ le32 b @ z3 @ z4 @ ys)\<rparr>"
  let ?s3 = "s\<lparr>blocks := (blocks s)(h \<mapsto> xs @ le32 a @ le32 b @ z3 @ le32 c @ ys)\<rparr>"
  have "store32 (h, off) a s = Some ?s1"
    using store_field [of s h xs z1 "z2 @ z3 @ z4 @ ys" "le32 a" off] blk z off by simp
  moreover have "store32 (h, off + 4) b ?s1 = Some ?s2"
    using store_field [of ?s1 h "xs @ le32 a" z2 "z3 @ z4 @ ys" "le32 b" "off + 4"] z off by simp
  moreover have "store32 (h, off + 12) c ?s2 = Some ?s3"
    using store_field [of ?s2 h "xs @ le32 a @ le32 b @ z3" z4 ys "le32 c" "off + 12"] z off by simp
  moreover have "store32 (h, off + 8) d ?s3 = Some (s\<lparr>blocks := (blocks s)(h \<mapsto> xs @ le32 a @ le32 b @ le32 d @ le32 c @ ys)\<rparr>)"
    using store_field [of ?s3 h "xs @ le32 a @ le32 b" z3 "le32 c @ ys" "le32 d" "off + 8"] z off by simp
  ultimately show ?thesis by simp
qed

text \<open>What the two loops need to know of the partitions, which they do not change.\<close>

definition described :: "PbrPartitionContext list \<Rightarrow> part_view list \<Rightarrow> bool" where
  "described cs vs \<longleftrightarrow> length cs = MAX_PARTITIONS \<and> length vs \<le> MAX_PARTITIONS \<and>
     (\<forall>i < length vs. PartitionSig (cs ! i) = vsig (vs ! i) \<and> vsig (vs ! i) \<noteq> PBR_INVALID_SIG \<and>
        PartitionSize (cs ! i) = of_nat (length (part_bytes (vs ! i))) \<and>
        PartitionLogicalDataCnt (cs ! i) = of_nat (length (vitems (vs ! i)))) \<and>
     (\<forall>i. length vs \<le> i \<longrightarrow> i < MAX_PARTITIONS \<longrightarrow> PartitionSig (cs ! i) = PBR_INVALID_SIG)"

lemma session_rep_described: "session_rep s vs \<Longrightarrow> described (parts s) vs"
  by (auto simp: session_rep_def described_def part_rep_def simp flip: word_unat_eq_iff)
     (metis of_nat_unat ucast_id)+

lemma Compose_table_eq:
  assumes ds: "described (parts s) vs" and head: "PbrMainHeader (gPbrContext s) = (h, 0)"
    and k: "k \<le> length vs" and pre: "length pre = 4 + sizeof_entry * k"
    and blk: "blocks s h = Some (pre @ replicate (sizeof_entry * (MAX_PARTITIONS - k)) 0 @ tail)"
  shows "Compose_table [k..<MAX_PARTITIONS] (of_nat off) s =
    Some (of_nat (off + data_size (drop k vs)),
          s\<lparr>blocks := (blocks s)(h \<mapsto> pre @ table_bytes off (drop k vs)
             @ replicate (sizeof_entry * (MAX_PARTITIONS - length vs)) 0 @ tail)\<rparr>)"
  using assms
proof (induction "length vs - k" arbitrary: k pre off s)
  case 0
  then have "k = length vs" by simp
  with 0 show ?case using skip_invalid(1) [of "[k..<MAX_PARTITIONS]" s] by (auto simp: described_def fun_upd_idem)
next
  case (Suc n)
  then have k: "k < length vs" "k < MAX_PARTITIONS" by (auto simp: described_def)
  define v where "v = vs ! k"
  define r where "r = replicate (sizeof_entry * (MAX_PARTITIONS - Suc k)) (0 :: u8)"
  have "replicate (sizeof_entry * (MAX_PARTITIONS - k)) (0 :: u8) = replicate sizeof_entry 0 @ r"
    using k(2) by (simp add: r_def Suc_diff_Suc [symmetric] algebra_simps flip: replicate_add)
  then have blk: "blocks s h = Some (pre @ replicate sizeof_entry 0 @ r @ tail)" using Suc.prems(5) by simp
  define s1 where "s1 = s\<lparr>blocks := (blocks s)(h \<mapsto> (pre @ entry_bytes off v) @ r @ tail)\<rparr>"
  have c: "PartitionSig (parts s ! k) = vsig v" "vsig v \<noteq> 0" "PartitionSize (parts s ! k) = of_nat (length (part_bytes v))"
      "PartitionLogicalDataCnt (parts s ! k) = of_nat (length (vitems v))"
    using Suc.prems(1) k by (simp_all add: described_def v_def)
  have "Compose_table (k # [Suc k..<MAX_PARTITIONS]) (of_nat off) s =
      Compose_table [Suc k..<MAX_PARTITIONS] (of_nat (off + length (part_bytes v))) s1"
    using entry_written [OF blk, of "4 + sizeof_entry * k"] c Suc.prems(2,4)
    by (simp add: Let_def entry_def s1_def entry_bytes_def)
  also have "\<dots> = Some (of_nat (off + length (part_bytes v) + data_size (drop (Suc k) vs)),
      s1\<lparr>blocks := (blocks s1)(h \<mapsto> (pre @ entry_bytes off v) @ table_bytes (off + length (part_bytes v)) (drop (Suc k) vs)
        @ replicate (sizeof_entry * (MAX_PARTITIONS - length vs)) 0 @ tail)\<rparr>)"
    using Suc.hyps(2) Suc.prems k by (intro Suc.hyps(1)) (simp_all add: s1_def r_def)
  finally show ?case
    using k upt_conv_Cons [OF k(2)] Cons_nth_drop_Suc [OF k(1), symmetric]
    by (simp add: s1_def v_def add.assoc)
qed

lemma copy_into_zeros:
  assumes "blocks s b = Some (xs @ replicate (length ys + r) 0 @ zs)" "load src (unat n) s = Some ys"
    "fst src \<noteq> b" "0 < n" "off = length xs"
  shows "PbrCopyChunks (b, off) m src n s = Some (s\<lparr>blocks := (blocks s)(b \<mapsto> xs @ ys @ replicate r 0 @ zs)\<rparr>)"
proof -
  have "blocks s b = Some (xs @ replicate (length ys) 0 @ replicate r 0 @ zs)"
    using assms(1) by (simp add: replicate_add)
  then have "store (b, off) ys s = Some (s\<lparr>blocks := (blocks s)(b \<mapsto> xs @ ys @ replicate r 0 @ zs)\<rparr>)"
    by (rule store_field) (simp_all add: assms(5))
  moreover have "fst (b, off) \<noteq> fst src" using assms(3) by auto
  ultimately show ?thesis using assms(2,4) by (simp add: PbrCopyChunks_eq CopyMem_def)
qed

lemma part_bytes_positive: "vitems v \<noteq> [] \<Longrightarrow> 0 < length (part_bytes v)"
  by (cases "vitems v") (simp_all add: part_bytes_def)

lemma Compose_copy_eq:
  assumes rep: "session_rep s vs" and k: "k \<le> length vs"
    and b: "b \<notin> set (owned s (length vs))"
    and blk: "blocks s b = Some (pre @ replicate (data_size (drop k vs)) 0)" "length pre = off"
  shows "Compose_copy [k..<MAX_PARTITIONS] n (b, off) s =
    Some (s\<lparr>blocks := (blocks s)(b \<mapsto> pre @ concat (map part_bytes (drop k vs)))\<rparr>)"
  using k b blk rep
proof (induction "length vs - k" arbitrary: k pre off s)
  case 0
  then have "k = length vs" by simp
  with 0 show ?case
    using skip_invalid(2) [of "[k..<MAX_PARTITIONS]" s] by (auto simp: session_rep_def fun_upd_idem)
next
  case (Suc m)
  note rep = Suc.prems(5)
  have k: "k < length vs" "k < MAX_PARTITIONS" using Suc.hyps(2) rep by (auto simp: session_rep_def)
  define v where "v = vs ! k"
  define c where "c = parts s ! k"
  have pr: "part_rep s c v" using session_rep_part [OF rep k(1)] by (simp add: c_def v_def)
  have c: "PartitionSig c \<noteq> PBR_INVALID_SIG" "PartitionData c = (fst (PartitionData c), 0)"
      "blocks s (fst (PartitionData c)) = Some (part_bytes v)" "unat (PartitionSize c) = length (part_bytes v)"
      "0 < PartitionSize c"
    using pr part_bytes_positive [of v] by (auto simp: part_rep_def prod_eq_iff word_less_nat_alt)
  have neq: "fst (PartitionData c) \<noteq> b"
    using Suc.prems(2) owned_mem(2) [OF k(1), of s] rep by (auto simp: c_def session_rep_def)
  have dr: "drop k vs = v # drop (Suc k) vs" using Cons_nth_drop_Suc [OF k(1)] by (simp add: v_def)
  define s1 where "s1 = s\<lparr>blocks := (blocks s)(b \<mapsto> (pre @ part_bytes v) @ replicate (data_size (drop (Suc k) vs)) 0)\<rparr>"
  have cp: "PbrCopyChunks (b, off) (unat n) (PartitionData c) (PartitionSize c) s = Some s1"
  proof -
    have "load (PartitionData c) (unat (PartitionSize c)) s = Some (part_bytes v)"
      using load_at [of s "fst (PartitionData c)" "[]" "part_bytes v" "[]" 0] c by simp
    from copy_into_zeros [where zs = "[]" and xs = pre and r = "data_size (drop (Suc k) vs)", OF _ this neq c(5)]
    show ?thesis using Suc.prems(3,4) dr by (simp add: s1_def)
  qed
  have r1: "session_rep s1 vs"
  proof (rule session_rep_foreign [OF rep])
    show "pool_ok s1" by (rule pool_ok_write [OF session_rep_pool(1) [OF rep] Suc.prems(3)]) (simp_all add: s1_def)
  qed (use Suc.prems(2) in \<open>auto simp: s1_def\<close>)
  have o1: "owned s1 (length vs) = owned s (length vs)" by (simp add: owned_def s1_def)
  have "Compose_copy (k # [Suc k..<MAX_PARTITIONS]) n (b, off) s =
      Compose_copy [Suc k..<MAX_PARTITIONS] n (b, off + length (part_bytes v)) s1"
    using c cp by (simp add: Let_def flip: c_def)
  also have "\<dots> = Some (s1\<lparr>blocks := (blocks s1)(b \<mapsto> (pre @ part_bytes v) @ concat (map part_bytes (drop (Suc k) vs)))\<rparr>)"
    using Suc.hyps(2) Suc.prems(2,4) k o1 r1 by (intro Suc.hyps(1)) (simp_all add: s1_def)
  finally show ?case using upt_conv_Cons [OF k(2)] dr by (simp add: s1_def)
qed

text \<open>
  The image of a session is its header, with the partition table filled in, and the partitions one
  behind the other. The session is the same afterwards, and the image a block of its own.
\<close>

lemma PbrGetSession_image:
  assumes rep: "session_rep s vs" and alloc: "False \<notin> set (alloc_ok s)"
    and lim: "sizeof_header + data_size vs < 2 ^ 32"
  shows "\<exists>s' hb. PbrGetSession True s = Some (EFI_SUCCESS, (next_block s, 0), of_nat (sizeof_header + data_size vs), s') \<and>
     length hb = sizeof_header \<and> get32 0 hb = PBR_HEADER_SIG \<and>
     blocks s' (next_block s) = Some (image_bytes hb vs) \<and> session_rep s' vs \<and>
     foreign s' (length vs) (next_block s) \<and> kept (length vs) s (length vs) s'"
proof -
  define h where "h = fst (PbrMainHeader (gPbrContext s))"
  define q where "q = next_block s"
  have hr: "header_rep s" using rep by (simp add: session_rep_def)
  then have "PbrMainHeader (gPbrContext s) = (h, 0)" by (simp add: header_rep_def h_def prod_eq_iff)
  with hr obtain hb where hb: "blocks s h = Some hb" "length hb = sizeof_header" "get32 0 hb = PBR_HEADER_SIG"
      "PbrMainHeader (gPbrContext s) = (h, 0)"
    unfolding header_rep_def by fastforce
  have ok: "pool_ok s" using rep by (simp add: session_rep_def)
  have n: "length vs \<le> MAX_PARTITIONS" using rep by (simp add: session_rep_def)
  have q: "q \<noteq> 0" "h \<noteq> q" "\<And>b. blocks s b \<noteq> None \<Longrightarrow> b \<noteq> q"
    using ok hb(1) by (auto simp: pool_ok_def q_def)
  have qo: "q \<notin> set (owned s (length vs))" using session_rep_pool(3) [OF rep] q(3) by blast
  define s1 where "s1 = s\<lparr>blocks := (blocks s)(h \<mapsto> take 4 hb @ replicate sizeof_table 0 @ drop (4 + sizeof_table) hb)\<rparr>"
  define s2 where "s2 = s\<lparr>blocks := (blocks s)(h \<mapsto> header_bytes hb vs)\<rparr>"
  define s3 where "s3 = s2\<lparr>blocks := (blocks s2)(q \<mapsto> header_bytes hb vs @ replicate (data_size vs) 0),
      next_block := Suc q, alloc_ok := tl (alloc_ok s)\<rparr>"
  define s4 where "s4 = s3\<lparr>blocks := (blocks s3)(q \<mapsto> image_bytes hb vs)\<rparr>"
  have st: "store (h, 4) (replicate sizeof_table 0) s = Some s1"
    using hb by (simp add: store_def s1_def patch_def)
  have table: "Compose_table [0..<MAX_PARTITIONS] (of_nat sizeof_header) s1 = Some (of_nat (sizeof_header + data_size vs), s2)"
    using Compose_table_eq [of s1 vs h 0 "take 4 hb" "drop (4 + sizeof_table) hb" sizeof_header] hb
      session_rep_described [OF rep]
    by (simp add: s1_def s2_def header_bytes_def MAX_PARTITIONS_def)
  have r2: "session_rep s2 vs"
  proof (rule session_rep_frame [OF rep])
    show "pool_ok s2" by (rule pool_ok_write [OF ok hb(1)]) (simp_all add: s2_def)
    show "header_rep s2"
      using hb n length_header_bytes [OF hb(2) n]
      by (simp add: header_rep_def s2_def header_bytes_def get32_def)
  qed (simp_all add: s2_def h_def)
  have ok3: "pool_ok s3" using session_rep_pool(1) [OF r2] by (auto simp: pool_ok_def s3_def s2_def q_def)
  have o: "owned s3 m = owned s m" "owned s2 m = owned s m" for m by (simp_all add: owned_def s3_def s2_def)
  have r3: "session_rep s3 vs"
    by (rule session_rep_foreign [OF r2 _ _ ok3]) (use qo in \<open>auto simp: s3_def o\<close>)
  have head: "PbrCopyChunks (q, 0) m (h, 0) (of_nat sizeof_header)
      (s2\<lparr>blocks := (blocks s2)(q \<mapsto> replicate (sizeof_header + data_size vs) 0), next_block := Suc q, alloc_ok := tl (alloc_ok s)\<rparr>) = Some s3" for m
  proof -
    let ?s = "s2\<lparr>blocks := (blocks s2)(q \<mapsto> replicate (sizeof_header + data_size vs) 0), next_block := Suc q, alloc_ok := tl (alloc_ok s)\<rparr>"
    have "load (h, 0) (unat (of_nat sizeof_header :: u32)) ?s = Some (header_bytes hb vs)"
      using load_at [of ?s h "[]" "header_bytes hb vs" "[]"] q(2) length_header_bytes [OF hb(2) n] by (simp add: s2_def)
    from copy_into_zeros [where xs = "[]" and zs = "[]" and r = "data_size vs" and b = q and off = 0, OF _ this]
    show ?thesis using q(2) length_header_bytes [OF hb(2) n] by (simp add: s3_def)
  qed
  have copy: "Compose_copy [0..<MAX_PARTITIONS] m (q, sizeof_header) s3 = Some s4" for m
    using Compose_copy_eq [OF r3, of 0 q "header_bytes hb vs" sizeof_header] qo o length_header_bytes [OF hb(2) n]
    by (simp add: s3_def s4_def image_bytes_def)
  have "PbrGetSession True s = Some (EFI_SUCCESS, (q, 0), of_nat (sizeof_header + data_size vs), s4)"
  proof -
    have al: "AllocateZeroPool m s2 = ((q, 0), s2\<lparr>blocks := (blocks s2)(q \<mapsto> replicate m 0), next_block := Suc q, alloc_ok := tl (alloc_ok s)\<rparr>)" for m
      using pool_ok_alloc [OF session_rep_pool(1) [OF r2], of m] alloc by (simp add: s2_def q_def)
    show ?thesis
      using st table head copy q(1) of_nat_unat_less [OF lim]
      by (simp add: PbrGetSession_def PbrComposeSession_def hb(4) al)
  qed
  moreover have "session_rep s4 vs"
  proof (rule session_rep_foreign [OF r3])
    have "blocks s3 q = Some (header_bytes hb vs @ replicate (data_size vs) 0)" by (simp add: s3_def)
    then show "pool_ok s4" by (rule pool_ok_write [OF ok3]) (simp_all add: s4_def)
  qed (use qo in \<open>auto simp: s4_def o\<close>)
  moreover have o4: "owned s4 m = owned s m" for m by (simp add: owned_def s4_def s3_def s2_def)
  moreover have "kept (length vs) s (length vs) s4"
  proof (rule keptI [where B = "{}"])
    show "set (alloc_ok s4) \<subseteq> set (alloc_ok s)" by (cases "alloc_ok s") (auto simp: s4_def s3_def)
    show "blocks s4 b = blocks s b" if "foreign s (length vs) b" for b
      using that q(3) owned_mem(1) [of s "length vs"] by (auto simp: foreign_def s4_def s3_def s2_def h_def)
    show "set (owned s4 (length vs)) \<subseteq> set (owned s (length vs)) \<union> {}" by (simp add: o4)
  qed (simp_all add: s4_def s3_def s2_def)
  moreover have "foreign s4 (length vs) q" using qo by (simp add: foreign_def o4) (simp add: s4_def)
  ultimately show ?thesis using hb(2,3) by (auto simp: q_def s4_def)
qed

section \<open>Giving a session up\<close>

definition freeable :: "nat list \<Rightarrow> nat \<Rightarrow> pbr_sys \<Rightarrow> bool" where
  "freeable is n s \<longleftrightarrow> distinct is \<and> blocks s 0 = None \<and>
     (\<forall>i \<in> set is. i < length (parts s) \<and>
        (if i < n then PartitionSig (parts s ! i) \<noteq> PBR_INVALID_SIG \<and> snd (PartitionData (parts s ! i)) = 0 \<and>
             blocks s (fst (PartitionData (parts s ! i))) \<noteq> None
         else PartitionSig (parts s ! i) = PBR_INVALID_SIG)) \<and>
     (\<forall>i \<in> set is. \<forall>j \<in> set is. i < n \<longrightarrow> j < n \<longrightarrow> i \<noteq> j \<longrightarrow>
        fst (PartitionData (parts s ! i)) \<noteq> fst (PartitionData (parts s ! j)))"

definition data_blocks :: "nat list \<Rightarrow> nat \<Rightarrow> pbr_sys \<Rightarrow> nat set" where
  "data_blocks is n s = (\<lambda>i. fst (PartitionData (parts s ! i))) ` {i \<in> set is. i < n}"

definition freed :: "nat list \<Rightarrow> nat \<Rightarrow> pbr_sys \<Rightarrow> pbr_sys \<Rightarrow> bool" where
  "freed is n s s' \<longleftrightarrow> length (parts s') = length (parts s) \<and>
     (\<forall>i. if i \<in> set is then PartitionSig (parts s' ! i) = PBR_INVALID_SIG else parts s' ! i = parts s ! i) \<and>
     (\<forall>b. blocks s' b = (if b \<in> data_blocks is n s then None else blocks s b)) \<and>
     next_block s' = next_block s \<and> alloc_ok s' = alloc_ok s \<and>
     PbrMainHeader (gPbrContext s') = PbrMainHeader (gPbrContext s) \<and>
     PbrMode (gPbrContext s') = PbrMode (gPbrContext s)"

lemma data_blocks_Cons:
  "data_blocks (i # is) n s = (if i < n then insert (fst (PartitionData (parts s ! i))) (data_blocks is n s) else data_blocks is n s)"
  by (auto simp: data_blocks_def)

lemma data_blocks_cong:
  "(\<And>j. j \<in> set is \<Longrightarrow> parts s' ! j = parts s ! j) \<Longrightarrow> data_blocks is n s' = data_blocks is n s"
  by (auto simp: data_blocks_def)

lemma FreeSession_loop_eq: "freeable is n s \<Longrightarrow> \<exists>s'. FreeSession_loop is s = Some s' \<and> freed is n s s'"
proof (induction "is" arbitrary: s)
  case Nil
  then show ?case by (simp add: freed_def data_blocks_def)
next
  case (Cons i "is")
  define b where "b = fst (PartitionData (parts s ! i))"
  define s1 where "s1 = (if i < n then set_part i (\<lambda>c. c\<lparr>PartitionSig := PBR_INVALID_SIG\<rparr>) (s\<lparr>blocks := (blocks s)(b := None)\<rparr>) else s)"
  have i: "i \<notin> set is" "i < length (parts s)" using Cons.prems by (simp_all add: freeable_def)
  have c: "PartitionSig (parts s ! i) \<noteq> PBR_INVALID_SIG \<and> PartitionData (parts s ! i) = (b, 0) \<and> blocks s b \<noteq> None \<and> b \<noteq> 0" if "i < n"
  proof -
    have "PartitionSig (parts s ! i) \<noteq> PBR_INVALID_SIG" "PartitionData (parts s ! i) = (b, 0)" "blocks s b \<noteq> None"
      using Cons.prems that by (simp_all add: freeable_def b_def prod_eq_iff)
    moreover have "blocks s 0 = None" using Cons.prems by (simp add: freeable_def)
    ultimately show ?thesis by metis
  qed
  have p1: "parts s1 ! j = parts s ! j" if "j \<noteq> i" for j using that by (simp add: s1_def)
  have p1i: "PartitionSig (parts s1 ! i) = PBR_INVALID_SIG"
    using i(2) Cons.prems by (simp add: s1_def freeable_def)
  have nb: "fst (PartitionData (parts s ! j)) \<noteq> b" if "j \<in> set is" "j < n" "i < n" for j
    using Cons.prems that i(1) by (auto simp: freeable_def b_def)
  have step: "FreeSession_loop (i # is) s = FreeSession_loop is s1"
    using c Cons.prems by (auto simp: FREE_POOL_SAFE_def FreePool_def s1_def freeable_def)
  have "freeable is n s1"
  proof -
    have bl1: "blocks s1 x = blocks s x" if "i < n \<Longrightarrow> x \<noteq> b" for x using that by (simp add: s1_def)
    have l1: "length (parts s1) = length (parts s)" by (simp add: s1_def)
    have "j < length (parts s1) \<and>
        (if j < n then PartitionSig (parts s1 ! j) \<noteq> PBR_INVALID_SIG \<and> snd (PartitionData (parts s1 ! j)) = 0 \<and>
             blocks s1 (fst (PartitionData (parts s1 ! j))) \<noteq> None
         else PartitionSig (parts s1 ! j) = PBR_INVALID_SIG)" if j: "j \<in> set is" for j
    proof -
      have "j \<noteq> i" using j i(1) by auto
      moreover have "j < length (parts s) \<and> (if j < n then PartitionSig (parts s ! j) \<noteq> PBR_INVALID_SIG \<and> snd (PartitionData (parts s ! j)) = 0 \<and>
             blocks s (fst (PartitionData (parts s ! j))) \<noteq> None
         else PartitionSig (parts s ! j) = PBR_INVALID_SIG)"
        using Cons.prems j unfolding freeable_def by simp
      ultimately show ?thesis
        using bl1 [of "fst (PartitionData (parts s ! j))"] nb [OF j] by (cases "j < n") (simp_all add: p1 l1)
    qed
    moreover have "fst (PartitionData (parts s1 ! j)) \<noteq> fst (PartitionData (parts s1 ! k))"
      if "j \<in> set is" "k \<in> set is" "j < n" "k < n" "j \<noteq> k" for j k
    proof -
      have "j \<noteq> i" "k \<noteq> i" using that i(1) by auto
      with that Cons.prems show ?thesis by (simp add: freeable_def p1)
    qed
    moreover have "distinct is" "blocks s1 0 = None" using Cons.prems by (simp_all add: freeable_def s1_def)
    ultimately show ?thesis unfolding freeable_def by blast
  qed
  then obtain s' where s': "FreeSession_loop is s1 = Some s'" "freed is n s1 s'" using Cons.IH by blast
  have "freed (i # is) n s s'"
  proof -
    have "data_blocks is n s1 = data_blocks is n s" using p1 i(1) by (intro data_blocks_cong) metis
    then have "blocks s' b' = (if b' \<in> data_blocks (i # is) n s then None else blocks s b')" for b'
      using s'(2) by (auto simp: freed_def data_blocks_Cons s1_def b_def)
    moreover have "if j \<in> set (i # is) then PartitionSig (parts s' ! j) = PBR_INVALID_SIG else parts s' ! j = parts s ! j" for j
      using s'(2) p1 [of j] p1i i(1) by (cases "j = i"; cases "j \<in> set is") (force simp: freed_def)+
    ultimately show ?thesis using s'(2) by (simp add: freed_def s1_def)
  qed
  with step s'(1) show ?case by auto
qed

text \<open>
  Giving a session up frees what it owns and nothing else, and leaves a context without a session.
\<close>

definition no_session :: "pbr_sys \<Rightarrow> bool" where
  "no_session s \<longleftrightarrow> pool_ok s \<and> PbrMainHeader (gPbrContext s) = NULL \<and> length (parts s) = MAX_PARTITIONS \<and>
     (\<forall>i < MAX_PARTITIONS. PartitionSig (parts s ! i) = PBR_INVALID_SIG)"

lemma PbrFreeSession_rep:
  assumes rep: "session_rep s vs"
  shows "\<exists>s'. PbrFreeSession s = Some (EFI_SUCCESS, s') \<and> no_session s' \<and> alloc_ok s' = alloc_ok s \<and>
     PbrMode (gPbrContext s') = PbrMode (gPbrContext s) \<and>
     (\<forall>b. blocks s' b = (if b \<in> set (owned s (length vs)) then None else blocks s b))"
proof -
  let ?is = "[0..<MAX_PARTITIONS]" and ?n = "length vs"
  define h where "h = fst (PbrMainHeader (gPbrContext s))"
  have r: "distinct (owned s ?n)" "?n \<le> length (parts s)" "length (parts s) = MAX_PARTITIONS" "pool_ok s"
    using rep by (simp_all add: session_rep_def)
  have hr: "header_rep s" using rep by (simp add: session_rep_def)
  then have h: "PbrMainHeader (gPbrContext s) = (h, 0)" "blocks s h \<noteq> None"
    by (auto simp: header_rep_def h_def prod_eq_iff simp del: One_nat_def)
  have "freeable ?is ?n s"
    using rep r session_rep_part [OF rep] owned_distinct(2) [OF r(1) _ r(2)]
    by (auto simp: freeable_def part_rep_def session_rep_def pool_ok_def)
  then obtain s1 where s1: "FreeSession_loop ?is s = Some s1" "freed ?is ?n s s1" using FreeSession_loop_eq by blast
  have db: "data_blocks ?is ?n s = set (tl (owned s ?n))"
    using r(2,3) by (force simp: data_blocks_def owned_def in_set_conv_nth image_def)
  have hd: "h \<notin> data_blocks ?is ?n s" using r(1) by (simp add: db owned_def h_def)
  then have h1: "blocks s1 h \<noteq> None" "PbrMainHeader (gPbrContext s1) = (h, 0)" "blocks s 0 = None"
    using s1(2) h r(4) by (auto simp: freed_def pool_ok_def)
  then have "h \<noteq> 0" using h(2) by metis
  define s' where "s' = set_header NULL (s1\<lparr>blocks := (blocks s1)(h := None)\<rparr>)"
  have "PbrFreeSession s = Some (EFI_SUCCESS, s')"
    using s1(1) h1 \<open>h \<noteq> 0\<close> by (simp add: PbrFreeSession_def FREE_POOL_SAFE_def FreePool_def s'_def)
  moreover have bl: "blocks s' b = (if b \<in> set (owned s ?n) then None else blocks s b)" for b
    using s1(2) db by (auto simp: s'_def freed_def owned_def h_def)
  moreover have "no_session s'"
    using s1(2) r(3,4) bl by (simp add: no_session_def s'_def freed_def pool_ok_def)
  moreover have "alloc_ok s' = alloc_ok s" "PbrMode (gPbrContext s') = PbrMode (gPbrContext s)"
    using s1(2) by (simp_all add: s'_def freed_def set_header_def)
  ultimately show ?thesis by blast
qed

section \<open>Taking an image apart\<close>

abbreviation rewind :: "part_view \<Rightarrow> part_view" where "rewind v \<equiv> view_advance 0 v"

lemma rewind_simps [simp]: "vpos (rewind v) = 0"
  by (simp add: item_at_simps)

lemma map_rewind [simp]: "map vsig (map rewind vs) = map vsig vs" "data_size (map rewind vs) = data_size vs"
  by (simp_all add: data_size_def comp_def)

definition image_of :: "part_view list \<Rightarrow> bool" where
  "image_of vs \<longleftrightarrow> length vs \<le> MAX_PARTITIONS \<and> distinct (map vsig vs) \<and>
     (\<forall>v \<in> set vs. vsig v \<noteq> PBR_INVALID_SIG \<and> vitems v \<noteq> []) \<and> sizeof_header + data_size vs < 2 ^ 32"

lemma session_rep_image_of: "session_rep s vs \<Longrightarrow> sizeof_header + data_size vs < 2 ^ 32 \<Longrightarrow> image_of vs"
  by (auto simp: session_rep_def image_of_def part_rep_def in_set_conv_nth)

lemma header_entry:
  assumes "k < length vs"
  shows "\<exists>ys. header_bytes hb vs = (take 4 hb @ table_bytes sizeof_header (take k vs))
      @ entry_bytes (sizeof_header + data_size (take k vs)) (vs ! k) @ ys"
proof -
  have "table_bytes sizeof_header vs = table_bytes sizeof_header (take k vs @ vs ! k # drop (Suc k) vs)"
    using assms by (simp add: id_take_nth_drop [symmetric])
  then show ?thesis by (simp add: header_bytes_def table_bytes_append)
qed

lemma entry_loads:
  assumes blk: "blocks s h = Some (header_bytes hb vs)" and hb: "length hb = sizeof_header" and k: "k < length vs"
  defines "e \<equiv> entry (h, 0) k"
  shows "load32 e s = Some (vsig (vs ! k))" "load32 (ptr_add e 4) s = Some (of_nat (length (part_bytes (vs ! k))))"
    "load32 (ptr_add e 8) s = Some (of_nat (sizeof_header + data_size (take k vs)))"
    "load32 (ptr_add e 12) s = Some (of_nat (length (vitems (vs ! k))))"
proof -
  define v where "v = vs ! k"
  define off where "off = sizeof_header + data_size (take k vs)"
  define pre where "pre = take 4 hb @ table_bytes sizeof_header (take k vs)"
  have pre: "length pre = 4 + sizeof_entry * k" using hb k by (simp add: pre_def min_def)
  obtain ys where "header_bytes hb vs = pre @ entry_bytes off v @ ys"
    using header_entry [OF k, of hb] by (auto simp: pre_def off_def v_def)
  then have b: "blocks s h = Some (pre @ le32 (vsig v) @ le32 (of_nat (length (part_bytes v))) @ le32 (of_nat off)
     @ le32 (of_nat (length (vitems v))) @ ys)"
    using blk by (simp add: entry_bytes_def)
  have e: "e = (h, length pre)" by (simp add: e_def entry_def pre)
  show "load32 e s = Some (vsig (vs ! k))" using load32_at [OF b] by (simp add: e v_def)
  show "load32 (ptr_add e 4) s = Some (of_nat (length (part_bytes (vs ! k))))"
    using load32_at [of s h "pre @ le32 (vsig v)" "of_nat (length (part_bytes v))"] b by (simp add: e v_def)
  show "load32 (ptr_add e 8) s = Some (of_nat (sizeof_header + data_size (take k vs)))"
    using load32_at [of s h "pre @ le32 (vsig v) @ le32 (of_nat (length (part_bytes v)))" "of_nat off"] b
    by (simp add: e off_def)
  show "load32 (ptr_add e 12) s = Some (of_nat (length (vitems (vs ! k))))"
    using load32_at [of s h "pre @ le32 (vsig v) @ le32 (of_nat (length (part_bytes v))) @ le32 (of_nat off)"
        "of_nat (length (vitems v))"] b by (simp add: e v_def)
qed

lemma entry_empty:
  assumes blk: "blocks s h = Some (header_bytes hb vs)" and hb: "length hb = sizeof_header"
    and k: "length vs \<le> k" "k < MAX_PARTITIONS"
  shows "load32 (entry (h, 0) k) s = Some 0"
proof -
  define r where "r = sizeof_entry * (k - length vs)"
  have "sizeof_entry * (MAX_PARTITIONS - length vs) = r + (4 + (12 + sizeof_entry * (MAX_PARTITIONS - Suc k)))"
    using k by (simp add: r_def)
  then have "blocks s h = Some ((take 4 hb @ table_bytes sizeof_header vs @ replicate r 0) @ replicate 4 0
      @ replicate (12 + sizeof_entry * (MAX_PARTITIONS - Suc k)) 0 @ drop (4 + sizeof_table) hb)"
    using blk unfolding header_bytes_def replicate_add by (simp only: append_assoc replicate_add)
  moreover have "4 + sizeof_entry * k = length (take 4 hb @ table_bytes sizeof_header vs @ replicate r 0)"
    using hb k by (simp add: r_def min_def)
  ultimately have "load (h, 4 + sizeof_entry * k) 4 s = Some (replicate 4 0)" by (rule load_at) simp
  then show ?thesis using of_le_zero [of 4, where 'a = 32] by (simp add: load32_def entry_def)
qed

lemma Decompose_loop_skip:
  assumes "\<And>i. i \<in> set is \<Longrightarrow> load32 (entry (PbrMainHeader (gPbrContext s)) i) s = Some 0"
  shows "Decompose_loop p is s = Some (EFI_SUCCESS, s)"
  using assms by (induction "is") (simp_all add: Let_def)

lemma image_part:
  assumes "blocks s g = Some (image_bytes hb vs)" "length hb = sizeof_header" "image_of vs" "k < length vs"
  shows "load (g, sizeof_header + data_size (take k vs)) (length (part_bytes (vs ! k))) s = Some (part_bytes (vs ! k))"
proof -
  have "map part_bytes vs = map part_bytes (take k vs) @ part_bytes (vs ! k) # map part_bytes (drop (Suc k) vs)"
    using arg_cong [OF id_take_nth_drop [OF assms(4)], of "map part_bytes"] by simp
  then have "blocks s g = Some ((header_bytes hb vs @ concat (map part_bytes (take k vs))) @ part_bytes (vs ! k)
      @ concat (map part_bytes (drop (Suc k) vs)))"
    using assms(1) by (simp add: image_bytes_def)
  then show ?thesis
    by (rule load_at) (use length_header_bytes [OF assms(2), of vs] assms(3) in \<open>simp_all add: image_of_def length_concat_parts\<close>)
qed

lemma Decompose_step:
  assumes rep: "session_rep s (map rewind (take k vs))" and k: "k < length vs"
    and im: "image_of vs" "length hb = sizeof_header"
    and head: "PbrMainHeader (gPbrContext s) = (h, 0)" "blocks s h = Some (header_bytes hb vs)"
    and img: "foreign s k g" "blocks s g = Some (image_bytes hb vs)" and alloc: "False \<notin> set (alloc_ok s)"
  shows "\<exists>s'. Decompose_loop (g, 0) (k # is) s = Decompose_loop (g, 0) is s' \<and>
     session_rep s' (map rewind (take (Suc k) vs)) \<and> PbrMainHeader (gPbrContext s') = (h, 0) \<and>
     blocks s' h = Some (header_bytes hb vs) \<and> kept k s (Suc k) s'"
proof -
  define v where "v = vs ! k"
  define q where "q = next_block s"
  define n where "n = length (part_bytes v)"
  note ld = entry_loads [OF head(2) im(2) k, folded v_def]
  have n: "length (map rewind (take k vs)) = k" using k by simp
  have kM: "k < MAX_PARTITIONS" "k < length (parts s)" using im(1) k rep by (auto simp: image_of_def session_rep_def)
  have v: "vsig v \<noteq> PBR_INVALID_SIG" "vitems v \<noteq> []" using im(1) k by (simp_all add: image_of_def v_def)
  have lim: "sizeof_header + data_size (take k vs) + n < 2 ^ 32"
    using im(1) data_size_take [OF k] by (simp add: image_of_def n_def v_def)
  have nn: "unat (of_nat n :: u32) = n" "0 < n" "(0 :: u32) < of_nat n"
    using of_nat_unat_less [of n] lim part_bytes_positive [OF v(2)] by (simp_all add: n_def word_less_nat_alt)
  have off: "unat (of_nat (sizeof_header + data_size (take k vs)) :: u32) = sizeof_header + data_size (take k vs)"
    using lim by (intro of_nat_unat_less) linarith
  have ok: "pool_ok s" using rep by (simp add: session_rep_def)
  have q: "q \<noteq> 0" "\<And>b. blocks s b \<noteq> None \<Longrightarrow> b \<noteq> q" using ok by (auto simp: pool_ok_def q_def)
  have hq: "h \<noteq> q" "g \<noteq> q" using q(2) [of h] q(2) [of g] head(2) img(2) by auto
  define c where "c = \<lparr>PartitionSig = vsig v, PartitionSize = of_nat n, PartitionLogicalDataCnt = of_nat (length (vitems v)),
                  PartitionCurrentOffset = 0, PartitionEndOffset = 0, PartitionData = (q, 0)\<rparr>"
  define s1 where "s1 = set_part k (\<lambda>_. c) (s\<lparr>blocks := (blocks s)(q \<mapsto> replicate n 0), next_block := Suc q, alloc_ok := tl (alloc_ok s)\<rparr>)"
  define s2 where "s2 = s1\<lparr>blocks := (blocks s1)(q \<mapsto> part_bytes v)\<rparr>"
  have off1: "load32 (ptr_add (entry (h, 0) k) 8) s1 = Some (of_nat (sizeof_header + data_size (take k vs)))"
    using ld(3) hq(1) by (simp add: load32_def load_def s1_def entry_def)
  have cp: "PbrCopyChunks (q, 0) m (g, sizeof_header + data_size (take k vs)) (of_nat n) s1 = Some s2" for m
  proof -
    have "load (g, sizeof_header + data_size (take k vs)) (unat (of_nat n :: u32)) s1 = Some (part_bytes v)"
      using image_part [of s1 g hb vs k] im k img(2) hq(2) nn(1) by (simp add: s1_def n_def v_def)
    from copy_into_zeros [where xs = "[]" and zs = "[]" and r = 0 and b = q and off = 0, OF _ this]
    show ?thesis using hq(2) nn(3) by (simp add: s1_def s2_def n_def)
  qed
  have step: "Decompose_loop (g, 0) (k # is) s = Decompose_loop (g, 0) is s2"
    using ld(1,2,4) off1 cp v(1) q(1) off
    by (simp add: head(1) Let_def pool_ok_alloc [OF ok alloc] nn(1) flip: n_def q_def c_def s1_def)
  have own: "blocks s2 b = blocks s b" if "blocks s b \<noteq> None" for b
    using q(2) [OF that] by (simp add: s2_def s1_def)
  have ps: "parts s2 = (parts s)[k := c]" "PbrMainHeader (gPbrContext s2) = PbrMainHeader (gPbrContext s)"
    by (simp_all add: s2_def s1_def)
  have cnt: "unat (of_nat (length (vitems v)) :: u32) = length (vitems v)"
    using length_enc_items [of "vitems v" 0] lim by (intro of_nat_unat_less) (simp add: n_def part_bytes_def)
  have "session_rep s2 (map rewind (take k vs) @ [rewind v])"
  proof (rule session_rep_add [OF rep])
    show "part_rep s2 c (rewind v)"
      using v nn(1) cnt by (simp add: part_rep_def c_def s2_def n_def item_at_simps)
    show "fst (PartitionData c) \<notin> set (owned s (length (map rewind (take k vs))))"
      using session_rep_pool(3) [OF rep, of q] q(2) by (auto simp: c_def)
    show "pool_ok s2" using ok by (auto simp: pool_ok_def s2_def s1_def q_def)
    show "vsig (rewind v) \<notin> set (map vsig (map rewind (take k vs)))"
    proof -
      have "distinct (map vsig (take (Suc k) vs))" using im(1) by (simp add: image_of_def flip: take_map)
      then show ?thesis using k by (simp add: take_Suc_conv_app_nth v_def)
    qed
  qed (use ps kM(1) own session_rep_pool(3) [OF rep] n in simp_all)
  moreover have "kept k s (Suc k) s2"
  proof (rule keptI)
    have "owned s2 (Suc k) = owned s k @ [q]"
      using kM(2) by (simp add: owned_def ps take_Suc_conv_app_nth c_def)
    then show "set (owned s2 (Suc k)) \<subseteq> set (owned s k) \<union> {q}" by auto
    show "blocks s b = None" if "b \<in> {q}" for b using that q(2) by blast
    show "set (alloc_ok s2) \<subseteq> set (alloc_ok s)" by (cases "alloc_ok s") (auto simp: s2_def s1_def)
  qed (use own in \<open>simp_all add: foreign_def s2_def s1_def\<close>)
  moreover have "take (Suc k) vs = take k vs @ [v]" using k by (simp add: take_Suc_conv_app_nth v_def)
  ultimately show ?thesis using step own [of h] head by (auto simp: ps)
qed

lemma Decompose_loop_rep:
  assumes "session_rep s (map rewind (take k vs))" "k \<le> length vs" "image_of vs" "length hb = sizeof_header"
    "PbrMainHeader (gPbrContext s) = (h, 0)" "blocks s h = Some (header_bytes hb vs)"
    "foreign s k g" "blocks s g = Some (image_bytes hb vs)" "False \<notin> set (alloc_ok s)"
  shows "\<exists>s'. Decompose_loop (g, 0) [k..<MAX_PARTITIONS] s = Some (EFI_SUCCESS, s') \<and>
     session_rep s' (map rewind vs) \<and> kept k s (length vs) s'"
  using assms
proof (induction "length vs - k" arbitrary: k s)
  case 0
  then have "k = length vs" by simp
  with 0 show ?case
    using Decompose_loop_skip [of "[k..<MAX_PARTITIONS]" s "(g, 0)"] entry_empty [of s h hb vs]
    by (auto simp: kept_def)
next
  case (Suc m)
  then have k: "k < length vs" "k < MAX_PARTITIONS" by (auto simp: image_of_def)
  obtain s1 where s1: "Decompose_loop (g, 0) (k # [Suc k..<MAX_PARTITIONS]) s = Decompose_loop (g, 0) [Suc k..<MAX_PARTITIONS] s1"
      "session_rep s1 (map rewind (take (Suc k) vs))" "PbrMainHeader (gPbrContext s1) = (h, 0)"
      "blocks s1 h = Some (header_bytes hb vs)" "kept k s (Suc k) s1"
    using Decompose_step [OF Suc.prems(1) k(1) Suc.prems(3-9), of "[Suc k..<MAX_PARTITIONS]"] by blast
  then have f: "foreign s1 (Suc k) g" "blocks s1 g = Some (image_bytes hb vs)" "False \<notin> set (alloc_ok s1)"
    using Suc.prems(7,8,9) by (auto simp: kept_def)
  have "\<exists>s'. Decompose_loop (g, 0) [Suc k..<MAX_PARTITIONS] s1 = Some (EFI_SUCCESS, s') \<and>
      session_rep s' (map rewind vs) \<and> kept (Suc k) s1 (length vs) s'"
    using Suc.hyps(2) k by (intro Suc.hyps(1) s1(2-4) f Suc.prems(3,4)) simp_all
  with s1(1,5) show ?case using upt_conv_Cons [OF k(2)] kept_trans by metis
qed

text \<open>An image taken apart in a context without a session is the session it was made of, rewound.\<close>

lemma PbrDecomposeSession_rep:
  assumes ns: "no_session s" and im: "image_of vs" "length hb = sizeof_header" "get32 0 hb = PBR_HEADER_SIG"
    and img: "blocks s g = Some (image_bytes hb vs)" and alloc: "False \<notin> set (alloc_ok s)"
  shows "\<exists>s'. PbrDecomposeSession (g, 0) n s = Some (EFI_SUCCESS, s') \<and> session_rep s' (map rewind vs) \<and>
     PbrMode (gPbrContext s') = PbrMode (gPbrContext s) \<and> set (alloc_ok s') \<subseteq> set (alloc_ok s)"
proof -
  define h where "h = next_block s"
  have ok: "pool_ok s" using ns by (simp add: no_session_def)
  have h: "h \<noteq> 0" "g \<noteq> h" using ok img by (auto simp: pool_ok_def h_def)
  have lh: "length (header_bytes hb vs) = sizeof_header" using im(1,2) by (intro length_header_bytes) (simp_all add: image_of_def)
  define s0 where "s0 = set_header (h, 0) (set_parts (replicate MAX_PARTITIONS zero_partition)
      (s\<lparr>blocks := (blocks s)(h \<mapsto> replicate sizeof_header 0), next_block := Suc h, alloc_ok := tl (alloc_ok s)\<rparr>))"
  define s1 where "s1 = s0\<lparr>blocks := (blocks s0)(h \<mapsto> header_bytes hb vs)\<rparr>"
  have simps [simp]: "blocks s0 = (blocks s)(h \<mapsto> replicate sizeof_header 0)" "next_block s0 = Suc h"
      "alloc_ok s0 = tl (alloc_ok s)" "parts s0 = replicate MAX_PARTITIONS zero_partition"
      "PbrMainHeader (gPbrContext s0) = (h, 0)" "PbrMode (gPbrContext s0) = PbrMode (gPbrContext s)"
    by (simp_all add: s0_def set_parts_def set_header_def parts_def)
  have s1 [simp]: "parts s1 = parts s0" "gPbrContext s1 = gPbrContext s0" "alloc_ok s1 = tl (alloc_ok s)" "next_block s1 = Suc h"
      "blocks s1 h = Some (header_bytes hb vs)" "blocks s1 g = Some (image_bytes hb vs)"
    using h(2) img by (simp_all add: s1_def)
  have cp: "PbrCopyChunks (h, 0) m (g, 0) (of_nat sizeof_header) s0 = Some s1" for m
  proof -
    have "blocks s0 g = Some ([] @ header_bytes hb vs @ concat (map part_bytes vs))"
      using h(2) img by (simp add: image_bytes_def)
    then have "load (g, 0) (unat (of_nat sizeof_header :: u32)) s0 = Some (header_bytes hb vs)"
      by (rule load_at) (simp_all add: lh)
    from copy_into_zeros [where xs = "[]" and zs = "[]" and r = 0 and b = h and off = 0, OF _ this]
    show ?thesis using h(2) lh by (simp add: s1_def)
  qed
  have hsig: "get32 0 (header_bytes hb vs) = PBR_HEADER_SIG" "load32 (h, 0) s1 = Some PBR_HEADER_SIG"
    using im(2,3) lh by (simp_all add: header_bytes_def get32_def load32_def load_def)
  have rep: "session_rep s1 (map rewind (take 0 vs))"
  proof -
    have "pool_ok s1" using ok h by (simp add: pool_ok_def s1_def h_def)
    moreover have "header_rep s1" using lh hsig(1) by (simp add: header_rep_def)
    ultimately show ?thesis by (simp add: session_rep_def owned_def zero_partition_def)
  qed
  have fg: "foreign s1 0 g" using h(2) by (simp add: foreign_def owned_def)
  have al: "False \<notin> set (alloc_ok s1)" using alloc by (cases "alloc_ok s") auto
  obtain s' where s': "Decompose_loop (g, 0) [0..<MAX_PARTITIONS] s1 = Some (EFI_SUCCESS, s')"
      "session_rep s' (map rewind vs)" "kept 0 s1 (length vs) s'"
    using Decompose_loop_rep [OF rep _ im(1,2) _ s1(5) fg s1(6) al] by auto
  have ok0: "pool_ok (set_parts cs s)" and al0: "alloc_ok (set_parts cs s) = alloc_ok s" for cs
    using ok by (simp_all add: pool_ok_def set_parts_def)
  have "AllocateZeroPool sizeof_header (set_parts (replicate MAX_PARTITIONS zero_partition) s) =
      ((h, 0), (set_parts (replicate MAX_PARTITIONS zero_partition) s)\<lparr>blocks := (blocks s)(h \<mapsto> replicate sizeof_header 0),
         next_block := Suc h, alloc_ok := tl (alloc_ok s)\<rparr>)"
    using pool_ok_alloc [OF ok0] alloc al0 by (simp add: h_def set_parts_def)
  moreover have "set_header (h, 0) ((set_parts (replicate MAX_PARTITIONS zero_partition) s)\<lparr>blocks := (blocks s)(h \<mapsto> replicate sizeof_header 0),
         next_block := Suc h, alloc_ok := tl (alloc_ok s)\<rparr>) = s0"
    by (simp add: s0_def set_header_def set_parts_def)
  ultimately have "PbrDecomposeSession (g, 0) n s = Some (EFI_SUCCESS, s')"
    using cp hsig(2) s'(1) h(1) by (simp add: PbrDecomposeSession_def)
  moreover have "set (alloc_ok s') \<subseteq> set (alloc_ok s)"
    using s'(3) by (cases "alloc_ok s") (auto simp: kept_def)
  ultimately show ?thesis using s'(2,3) by (auto simp: kept_def)
qed

lemma session_rep_integrity:
  assumes "session_rep s vs"
  shows "PbrCheckBufferIntegrity s = Some EFI_SUCCESS"
proof -
  define h where "h = fst (PbrMainHeader (gPbrContext s))"
  have hr: "header_rep s" and ok: "pool_ok s" using assms by (simp_all add: session_rep_def)
  then have p: "PbrMainHeader (gPbrContext s) = (h, 0)" by (simp add: header_rep_def h_def prod_eq_iff)
  obtain hb where hb: "blocks s h = Some hb" "length hb = sizeof_header" "get32 0 hb = PBR_HEADER_SIG"
    using hr unfolding header_rep_def h_def by blast
  have "load32 (h, 0) s = Some PBR_HEADER_SIG" using hb by (simp add: load32_def load_def get32_def)
  with p pool_ok_fresh [OF ok hb(1)] show ?thesis by (simp add: PbrCheckBufferIntegrity_def)
qed

text \<open>The operations on buffers leave the variable and the runtime services alone.\<close>

definition pbr_env :: "pbr_sys \<Rightarrow> PbrContext option \<times> efi_status \<times> efi_status" where
  "pbr_env s = (pbr_variable s, set_variable_rc s, get_variable_rc s)"

lemma pbr_env_pool [simp]:
  "pbr_env (s\<lparr>blocks := B\<rparr>) = pbr_env s" "pbr_env (s\<lparr>next_block := n\<rparr>) = pbr_env s" "pbr_env (s\<lparr>alloc_ok := as\<rparr>) = pbr_env s"
  "pbr_env (set_part i f s) = pbr_env s" "pbr_env (set_parts cs s) = pbr_env s" "pbr_env (set_header p s) = pbr_env s"
  by (simp_all add: pbr_env_def set_part_def set_parts_def set_header_def)

lemma pbr_env_ops:
  "store p xs s = Some s' \<Longrightarrow> pbr_env s' = pbr_env s" "FreePool p s = Some s' \<Longrightarrow> pbr_env s' = pbr_env s"
  "FREE_POOL_SAFE p s = Some s' \<Longrightarrow> pbr_env s' = pbr_env s" "CopyMem p q n s = Some s' \<Longrightarrow> pbr_env s' = pbr_env s"
  "AllocateZeroPool n s = (p, s') \<Longrightarrow> pbr_env s' = pbr_env s"
  by (auto simp: store_def FreePool_def FREE_POOL_SAFE_def CopyMem_def AllocateZeroPool_def bind_eq_Some_conv
      split: option.splits if_splits list.splits bool.splits)

lemma AllocateZeroPool_env [simp]: "pbr_env (snd (AllocateZeroPool n s)) = pbr_env s"
  using pbr_env_ops(5) [of n s "fst (AllocateZeroPool n s)"] by simp

lemma PbrCopyChunks_env: "PbrCopyChunks p m q n s = Some s' \<Longrightarrow> pbr_env s' = pbr_env s"
proof -
  have loop: "PbrCopyChunks_loop p q k i s = Some s' \<Longrightarrow> pbr_env s' = pbr_env s" for k i s s'
    by (induction k arbitrary: i s) (auto simp: bind_eq_Some_conv Let_def dest!: pbr_env_ops)
  assume "PbrCopyChunks p m q n s = Some s'"
  then show ?thesis
    by (auto simp: PbrCopyChunks_def Let_def bind_eq_Some_conv split: if_splits dest!: loop pbr_env_ops)
qed

lemma FreeSession_env: "PbrFreeSession s = Some (rc, s') \<Longrightarrow> pbr_env s' = pbr_env s"
proof -
  have loop: "FreeSession_loop is s = Some s' \<Longrightarrow> pbr_env s' = pbr_env s" for "is" s s'
    by (induction "is" arbitrary: s) (auto simp: bind_eq_Some_conv split: if_splits dest!: pbr_env_ops)
  assume "PbrFreeSession s = Some (rc, s')"
  then show ?thesis by (auto simp: PbrFreeSession_def bind_eq_Some_conv dest!: loop pbr_env_ops)
qed

lemma DecomposeSession_env: "PbrDecomposeSession p n s = Some (rc, s') \<Longrightarrow> pbr_env s' = pbr_env s"
proof -
  have loop: "Decompose_loop p is s = Some (rc, s') \<Longrightarrow> pbr_env s' = pbr_env s" for "is" s s' rc
    by (induction "is" arbitrary: s)
       (auto simp: bind_eq_Some_conv Let_def case_prod_beta split: if_splits dest!: PbrCopyChunks_env)
  assume "PbrDecomposeSession p n s = Some (rc, s')"
  then show ?thesis
    by (auto simp: PbrDecomposeSession_def bind_eq_Some_conv Let_def case_prod_beta split: if_splits
        dest!: loop PbrCopyChunks_env)
qed

text \<open>
  Loading an image: the session before it is given up, and the new one is what the image was made of,
  played back from the beginning, with the context saved in its variable.
\<close>

lemma PbrSetSession_image:
  assumes rep: "session_rep s ws" and im: "image_of vs" "length hb = sizeof_header" "get32 0 hb = PBR_HEADER_SIG"
    and img: "foreign s (length ws) g" "blocks s g = Some (image_bytes hb vs)"
    and env: "False \<notin> set (alloc_ok s)" "set_variable_rc s = EFI_SUCCESS"
  shows "\<exists>s'. PbrSetSession (g, 0) n s = Some (EFI_SUCCESS, s') \<and> session_rep s' (map rewind vs) \<and>
     PbrMode (gPbrContext s') = PbrMode (gPbrContext s) \<and> set (alloc_ok s') \<subseteq> set (alloc_ok s) \<and>
     pbr_variable s' = Some (gPbrContext s') \<and> set_variable_rc s' = EFI_SUCCESS"
proof -
  obtain s1 where s1: "PbrFreeSession s = Some (EFI_SUCCESS, s1)" "no_session s1" "alloc_ok s1 = alloc_ok s"
      "PbrMode (gPbrContext s1) = PbrMode (gPbrContext s)" "blocks s1 g = blocks s g"
    using PbrFreeSession_rep [OF rep] img(1) by (auto simp: foreign_def)
  obtain s2 where s2: "PbrDecomposeSession (g, 0) n s1 = Some (EFI_SUCCESS, s2)" "session_rep s2 (map rewind vs)"
      "PbrMode (gPbrContext s2) = PbrMode (gPbrContext s1)" "set (alloc_ok s2) \<subseteq> set (alloc_ok s1)"
    using PbrDecomposeSession_rep [OF s1(2) im, of g] s1(3,5) img(2) env(1) by auto
  have rc: "set_variable_rc s2 = EFI_SUCCESS"
    using FreeSession_env [OF s1(1)] DecomposeSession_env [OF s2(1)] env(2) by (simp add: pbr_env_def)
  define s3 where "s3 = s2\<lparr>pbr_variable := Some (gPbrContext s2)\<rparr>"
  have "g \<noteq> 0" using pool_ok_fresh [OF session_rep_pool(1) [OF rep] img(2)] by simp
  then have "PbrSetSession (g, 0) n s = Some (EFI_SUCCESS, s3)"
    using s1(1) s2(1) rc session_rep_integrity [OF s2(2)] by (simp add: PbrSetSession_def PbrSerializeCtx_def s3_def)
  moreover have "session_rep s3 (map rewind vs)"
    by (rule session_rep_foreign [OF s2(2)]) (use s2(2) in \<open>simp_all add: s3_def session_rep_def pool_ok_def\<close>)
  ultimately show ?thesis using s1(3,4) s2(3,4) rc by (simp add: s3_def)
qed

end
