(* ===== verification/Pbr_Replay.thy ===== *)
theory Pbr_Replay
  imports Pbr_Image
begin

text \<open>
  From the first record to the last playback: a new session, items recorded in any order under any
  signatures, the image of the session, the image loaded again, and the items played back.
\<close>

section \<open>The record of a recording\<close>

fun view_record :: "u32 \<Rightarrow> u8 list \<Rightarrow> part_view list \<Rightarrow> part_view list" where
  "view_record sig d [] = [view_new sig False d]"
| "view_record sig d (v # vs) = (if vsig v = sig then view_append d v # vs else v # view_record sig d vs)"

fun items_of :: "u32 \<Rightarrow> part_view list \<Rightarrow> u8 list list" where
  "items_of sig [] = []"
| "items_of sig (v # vs) = (if vsig v = sig then vitems v else items_of sig vs)"

definition total_end :: "part_view list \<Rightarrow> nat" where
  "total_end vs = sum_list (map vend vs)"

text \<open>Every partition is at its end, and its buffer at most ten times what it holds.\<close>

definition at_end :: "part_view \<Rightarrow> bool" where
  "at_end v \<longleftrightarrow> vpos v = vend v \<and> length (part_bytes v) \<le> PARTITION_GROW_SZ_MULTIPLIER * vend v"

definition recording :: "part_view list \<Rightarrow> bool" where
  "recording vs \<longleftrightarrow> (\<forall>v \<in> set vs. at_end v)"

lemma vitems_append [simp]: "vitems (view_append d v) = vitems v @ [d]" "vsig (view_append d v) = vsig v"
  by (simp_all add: view_append_def Let_def)

lemma vend_append [simp]: "vend (view_append d v) = vend v + (length d + sizeof_item)"
  by (simp add: vend_def enc_items_snoc)

lemma view_new_simps [simp]: "vitems (view_new sig b d) = [d]" "vsig (view_new sig b d) = sig"
  "vend (view_new sig b d) = length d + sizeof_item"
  by (simp_all add: view_new_def vend_def)

lemma items_of_record:
  "items_of sig' (view_record sig d vs) = (if sig' = sig then items_of sig vs @ [d] else items_of sig' vs)"
  by (induction vs) auto

lemma view_record_at:
  "i < length vs \<Longrightarrow> distinct (map vsig vs) \<Longrightarrow>
     view_record (vsig (vs ! i)) d vs = vs[i := view_append d (vs ! i)]"
proof (induction vs arbitrary: i)
  case Nil
  then show ?case by simp
next
  case (Cons v vs)
  show ?case
  proof (cases i)
    case (Suc j)
    then have "vsig v \<noteq> vsig (vs ! j)" using Cons.prems imageI [OF nth_mem, of j vs vsig] by auto
    with Suc Cons show ?thesis by simp
  qed simp
qed

lemma items_of_at: "i < length vs \<Longrightarrow> distinct (map vsig vs) \<Longrightarrow> items_of (vsig (vs ! i)) vs = vitems (vs ! i)"
proof (induction vs arbitrary: i)
  case Nil
  then show ?case by simp
next
  case (Cons v vs)
  show ?case
  proof (cases i)
    case (Suc j)
    then have "vsig v \<noteq> vsig (vs ! j)" using Cons.prems imageI [OF nth_mem, of j vs vsig] by auto
    with Suc Cons show ?thesis by simp
  qed simp
qed

lemma items_of_none: "sig \<notin> set (map vsig vs) \<Longrightarrow> items_of sig vs = []"
  by (induction vs) auto

lemma view_record_new: "sig \<notin> set (map vsig vs) \<Longrightarrow> view_record sig d vs = vs @ [view_new sig False d]"
  by (induction vs) auto

lemma total_end_record [simp]: "total_end (view_record sig d vs) = total_end vs + (length d + sizeof_item)"
  by (induction vs) (auto simp: total_end_def)

lemma sigs_record: "set (map vsig (view_record sig d vs)) = insert sig (set (map vsig vs))"
  by (induction vs) auto

lemma part_bytes_append:
  "length (part_bytes (view_append d v)) \<le> length (part_bytes v) + PARTITION_GROW_SZ_MULTIPLIER * (length d + sizeof_item)"
  by (simp add: length_part_bytes) (auto simp: view_append_def Let_def view_grow_def)

lemma at_end_append:
  assumes "at_end v"
  shows "at_end (view_append d v)"
proof -
  have "vpos (view_append d v) = vpos v + (length d + sizeof_item)" by (simp add: view_append_def Let_def)
  moreover have "length (part_bytes v) + PARTITION_GROW_SZ_MULTIPLIER * (length d + sizeof_item)
      \<le> PARTITION_GROW_SZ_MULTIPLIER * vend (view_append d v)"
    using assms unfolding at_end_def vend_append distrib_left by simp
  then have "length (part_bytes (view_append d v)) \<le> PARTITION_GROW_SZ_MULTIPLIER * vend (view_append d v)"
    by (rule order_trans [OF part_bytes_append])
  ultimately show ?thesis using assms unfolding at_end_def vend_append by simp
qed

lemma at_end_new: "at_end (view_new sig False d)"
  by (simp add: at_end_def length_part_bytes) (simp add: view_new_def)

lemma recording_record: "recording vs \<Longrightarrow> recording (view_record sig d vs)"
  by (induction vs) (simp_all add: recording_def at_end_append at_end_new)

lemma total_end_nth: "i < length vs \<Longrightarrow> vend (vs ! i) \<le> total_end vs"
  by (simp add: total_end_def member_le_sum_list)

lemma data_size_recording: "recording vs \<Longrightarrow> data_size vs \<le> PARTITION_GROW_SZ_MULTIPLIER * total_end vs"
  by (induction vs) (auto simp: recording_def total_end_def at_end_def)

text \<open>One record refines one step of the record.\<close>

lemma PbrSetData_record:
  assumes rep: "session_rep s vs" and rc: "recording vs" and sig: "sig \<noteq> PBR_INVALID_SIG"
    and slot: "sig \<in> set (map vsig vs) \<or> length vs < MAX_PARTITIONS"
    and lim: "PARTITION_GROW_SZ_MULTIPLIER * (total_end vs + (length d + sizeof_item)) < 2 ^ 32"
    and alloc: "False \<notin> set (alloc_ok s)"
    and data: "foreign s (length vs) (fst p)" "load p (unat Size) s = Some d"
  shows "\<exists>q s'. PbrSetData sig p Size False s = Some (EFI_SUCCESS, q, of_nat (length (items_of sig vs)), s') \<and>
     session_rep s' (view_record sig d vs) \<and> kept (length vs) s (length (view_record sig d vs)) s'"
proof -
  have n: "unat Size = length d" using load_length [OF data(2)] by simp
  have "blocks s 0 = None" using rep by (simp add: session_rep_def pool_ok_def)
  then have "p \<noteq> NULL" using data(1) by (auto simp: foreign_def)
  then have src: "source s (length vs) p Size old d" for old
    using data by (simp add: source_def foreign_def)
  have dist: "distinct (map vsig vs)" using rep by (simp add: session_rep_def)
  show ?thesis
  proof (cases "sig \<in> set (map vsig vs)")
    case True
    then obtain i where i: "i < length vs" "sig = vsig (vs ! i)" by (auto simp: in_set_conv_nth)
    have v: "vpos (vs ! i) = vend (vs ! i)" "length (part_bytes (vs ! i)) \<le> PARTITION_GROW_SZ_MULTIPLIER * vend (vs ! i)"
      using rc i(1) by (simp_all add: recording_def at_end_def)
    have "length (part_bytes (vs ! i)) + (unat Size + sizeof_item) * PARTITION_GROW_SZ_MULTIPLIER < 2 ^ 32"
      using lim total_end_nth [OF i(1)] v(2) by (simp add: n)
    from PbrSetData_append [OF rep i(1) v(1) this alloc src]
    obtain s' q where "PbrSetData sig p Size False s = Some (EFI_SUCCESS, q, of_nat (length (vitems (vs ! i))), s')"
        "session_rep s' (vs[i := view_append d (vs ! i)])" "kept (length vs) s (length vs) s'"
      by (auto simp: i(2))
    then show ?thesis using view_record_at [OF i(1) dist, of d] items_of_at [OF i(1) dist] i(2) by auto
  next
    case False
    then have free: "length vs < MAX_PARTITIONS" using slot by simp
    have "(unat Size + sizeof_item) * PARTITION_GROW_SZ_MULTIPLIER < 2 ^ 32" using lim by (simp add: n)
    from PbrSetData_new [OF rep free sig False this alloc src, of False]
    obtain s' q where "PbrSetData sig p Size False s = Some (EFI_SUCCESS, q, 0, s')"
        "session_rep s' (vs @ [view_new sig False d])" "kept (length vs) s (Suc (length vs)) s'"
      by auto
    moreover have "items_of sig vs = []" using False by (induction vs) auto
    ultimately show ?thesis using view_record_new [OF False, of d] by auto
  qed
qed

section \<open>A whole recording\<close>

text \<open>Requests to record, each a signature and a buffer of the caller, in the order they are made.\<close>

fun record_all :: "(u32 \<times> ptr \<times> u32) list \<Rightarrow> pbr_sys \<Rightarrow> pbr_sys option" where
  "record_all [] s = Some s"
| "record_all ((sig, p, Size) # rs) s = do {
     (rc, q, i, s) \<leftarrow> PbrSetData sig p Size False s;
     (if rc \<noteq> EFI_SUCCESS then None else record_all rs s) }"

fun requested :: "pbr_sys \<Rightarrow> nat \<Rightarrow> (u32 \<times> ptr \<times> u32) list \<Rightarrow> (u32 \<times> u8 list) list \<Rightarrow> bool" where
  "requested s n [] [] = True"
| "requested s n ((sig, p, Size) # rs) ((sig', d) # log) \<longleftrightarrow>
     sig = sig' \<and> sig \<noteq> PBR_INVALID_SIG \<and> foreign s n (fst p) \<and> load p (unat Size) s = Some d \<and> requested s n rs log"
| "requested s n _ _ = False"

definition cost :: "(u32 \<times> u8 list) list \<Rightarrow> nat" where
  "cost log = sum_list (map (\<lambda>(sig, d). length d + sizeof_item) log)"

definition recorded :: "(u32 \<times> u8 list) list \<Rightarrow> part_view list \<Rightarrow> part_view list" where
  "recorded log vs = fold (\<lambda>(sig, d). view_record sig d) log vs"

definition logged :: "u32 \<Rightarrow> (u32 \<times> u8 list) list \<Rightarrow> u8 list list" where
  "logged sig log = map snd (filter (\<lambda>r. fst r = sig) log)"

lemma requested_start:
  "requested s 0 rs log \<Longrightarrow> \<forall>b. blocks s b \<noteq> None \<longrightarrow> foreign s2 0 b \<and> blocks s2 b = blocks s b \<Longrightarrow> requested s2 0 rs log"
  by (induction s "0 :: nat" rs log rule: requested.induct) (auto simp: foreign_def load_def)

lemma requested_kept: "requested s n rs log \<Longrightarrow> kept n s n' s' \<Longrightarrow> requested s' n' rs log"
  by (induction s n rs log rule: requested.induct) (auto simp: kept_def load_def)

lemma items_of_recorded: "items_of sig (recorded log vs) = items_of sig vs @ logged sig log"
  by (induction log arbitrary: vs) (auto simp: recorded_def logged_def items_of_record)

lemma sigs_recorded: "set (map vsig (recorded log vs)) = set (map vsig vs) \<union> set (map fst log)"
proof (induction log arbitrary: vs)
  case (Cons r log)
  then show ?case using sigs_record [of "fst r" "snd r" vs] by (cases r) (auto simp: recorded_def)
qed (simp add: recorded_def)

lemma total_end_recorded: "total_end (recorded log vs) = total_end vs + cost log"
  by (induction log arbitrary: vs) (auto simp: recorded_def cost_def)

lemma recording_recorded: "recording vs \<Longrightarrow> recording (recorded log vs)"
  by (induction log arbitrary: vs) (auto simp: recorded_def recording_record)

lemma record_all_rep:
  assumes "session_rep s vs" "recording vs" "requested s (length vs) rs log"
    "card (set (map vsig vs) \<union> set (map fst log)) \<le> MAX_PARTITIONS"
    "PARTITION_GROW_SZ_MULTIPLIER * (total_end vs + cost log) < 2 ^ 32" "False \<notin> set (alloc_ok s)"
  shows "\<exists>s'. record_all rs s = Some s' \<and> session_rep s' (recorded log vs) \<and> kept (length vs) s (length (recorded log vs)) s'"
  using assms
proof (induction rs arbitrary: log s vs)
  case Nil
  then have "log = []" by (cases log) simp_all
  with Nil show ?case by (simp add: recorded_def kept_def)
next
  case (Cons r rs)
  note rep = Cons.prems(1)
  obtain sig p Size where r: "r = (sig, p, Size)" by (cases r)
  obtain d log' where log: "log = (sig, d) # log'" "sig \<noteq> PBR_INVALID_SIG" "foreign s (length vs) (fst p)"
      "load p (unat Size) s = Some d" "requested s (length vs) rs log'"
    using Cons.prems(3) by (cases log) (auto simp: r)
  have lim: "PARTITION_GROW_SZ_MULTIPLIER * (total_end vs + (length d + sizeof_item)) < 2 ^ 32"
    using Cons.prems(5) by (simp add: cost_def log(1))
  have card: "length vs = card (set (map vsig vs))" using rep distinct_card [of "map vsig vs"] by (simp add: session_rep_def)
  have slot: "sig \<in> set (map vsig vs) \<or> length vs < MAX_PARTITIONS"
  proof (rule disjCI)
    assume "\<not> length vs < MAX_PARTITIONS"
    then have "card (set (map vsig vs) \<union> set (map fst log)) \<le> card (set (map vsig vs))"
      using Cons.prems(4) card by simp
    from card_seteq [OF _ _ this] show "sig \<in> set (map vsig vs)" using log(1) by auto
  qed
  define ws where "ws = view_record sig d vs"
  obtain q s1 where s1: "PbrSetData sig p Size False s = Some (EFI_SUCCESS, q, of_nat (length (items_of sig vs)), s1)"
      "session_rep s1 ws" "kept (length vs) s (length ws) s1"
    using PbrSetData_record [OF rep Cons.prems(2) log(2) slot lim Cons.prems(6) log(3,4)] by (auto simp: ws_def)
  have al: "False \<notin> set (alloc_ok s1)" using s1(3) Cons.prems(6) by (auto simp: kept_def)
  have "\<exists>s'. record_all rs s1 = Some s' \<and> session_rep s' (recorded log' ws) \<and> kept (length ws) s1 (length (recorded log' ws)) s'"
  proof (rule Cons.IH [OF s1(2) _ requested_kept [OF log(5) s1(3)] _ _ al])
    show "recording ws" using Cons.prems(2) by (simp add: ws_def recording_record)
    show "card (set (map vsig ws) \<union> set (map fst log')) \<le> MAX_PARTITIONS"
      using Cons.prems(4) log(1) sigs_record [of sig d vs] by (simp add: ws_def)
    show "PARTITION_GROW_SZ_MULTIPLIER * (total_end ws + cost log') < 2 ^ 32"
      using Cons.prems(5) by (simp add: ws_def cost_def log(1))
  qed
  moreover have "recorded log vs = recorded log' ws" by (simp add: recorded_def log(1) ws_def)
  ultimately show ?case using s1(1,3) kept_trans by (fastforce simp: r)
qed

section \<open>Playing back\<close>

text \<open>The next \<open>n\<close> items of a signature, each read from the copy that is handed out.\<close>

fun play :: "u32 \<Rightarrow> nat \<Rightarrow> pbr_sys \<Rightarrow> (u8 list list \<times> pbr_sys) option" where
  "play sig 0 s = Some ([], s)"
| "play sig (Suc n) s = do {
     (rc, p, Size, i, s) \<leftarrow> PbrGetData sig GET_NEXT_DATA_INDEX False s;
     (if rc \<noteq> EFI_SUCCESS then None
      else do { d \<leftarrow> load p (unat Size) s; (ds, s) \<leftarrow> play sig n s; Some (d # ds, s) }) }"

lemma play_rest:
  assumes "session_rep s vs" "i < length vs" "k + n \<le> length (vitems (vs ! i))"
    "vpos (vs ! i) = item_at (vs ! i) k" "False \<notin> set (alloc_ok s)"
  shows "\<exists>s'. play (vsig (vs ! i)) n s = Some (take n (drop k (vitems (vs ! i))), s') \<and>
     session_rep s' (vs[i := view_advance (k + n) (vs ! i)]) \<and> kept (length vs) s (length vs) s'"
  using assms
proof (induction n arbitrary: k s vs)
  case 0
  have "view_advance k (vs ! i) = vs ! i" unfolding view_advance_def 0(4) [symmetric] by simp
  then have "vs[i := view_advance k (vs ! i)] = vs" by (metis list_update_id)
  with 0(1) show ?case by (simp add: kept_def)
next
  case (Suc n)
  define v where "v = vs ! i"
  define d where "d = vitems v ! k"
  define ws where "ws = vs[i := view_advance (Suc k) v]"
  have k: "k < length (vitems v)" using Suc.prems(3) by (simp add: v_def)
  obtain s1 where s1: "PbrGetData (vsig v) GET_NEXT_DATA_INDEX False s = Some (EFI_SUCCESS, (next_block s, 0), of_nat (length d), 0, s1)"
      "session_rep s1 ws" "blocks s1 (next_block s) = Some d" "kept (length vs) s (length vs) s1"
    using PbrGetData_next [OF Suc.prems(1,2) k [unfolded v_def] Suc.prems(4,5)] by (auto simp: v_def d_def ws_def)
  have "length d < 2 ^ 32" using part_rep_item(5) [OF session_rep_part [OF Suc.prems(1,2)] k [unfolded v_def]] by (simp add: d_def v_def)
  then have ld: "load (next_block s, 0) (unat (of_nat (length d) :: u32)) s1 = Some d"
    using s1(3) by (simp add: load_def of_nat_unat_less)
  have w: "ws ! i = view_advance (Suc k) v" "length ws = length vs" using Suc.prems(2) by (simp_all add: ws_def)
  have ww: "ws[i := x] = vs[i := x]" for x by (simp add: ws_def)
  have al: "False \<notin> set (alloc_ok s1)" using s1(4) Suc.prems(5) by (auto simp: kept_def)
  have "\<exists>s'. play (vsig (ws ! i)) n s1 = Some (take n (drop (Suc k) (vitems (ws ! i))), s') \<and>
     session_rep s' (ws[i := view_advance (Suc k + n) (ws ! i)]) \<and> kept (length ws) s1 (length ws) s'"
    using Suc.prems(2,3) by (intro Suc.IH s1(2) al) (simp_all add: w v_def)
  then obtain s' where s': "play (vsig v) n s1 = Some (take n (drop (Suc k) (vitems v)), s')"
      "session_rep s' (vs[i := view_advance (k + Suc n) v])" "kept (length vs) s1 (length vs) s'"
    unfolding w ww by auto
  have "take (Suc n) (drop k (vitems v)) = d # take n (drop (Suc k) (vitems v))"
    using k by (simp add: d_def Cons_nth_drop_Suc [symmetric])
  then show ?case using s1(1) ld s' kept_trans [OF s1(4) s'(3)] by (simp flip: v_def)
qed

lemma PbrSetMode_rep:
  assumes rep: "session_rep s vs" and env: "set_variable_rc s = EFI_SUCCESS" and m: "mode \<noteq> PBR_NORMAL_MODE"
  shows "\<exists>s'. PbrSetMode mode s = Some (EFI_SUCCESS, s') \<and> session_rep s' vs \<and> PbrMode (gPbrContext s') = mode \<and>
     blocks s' = blocks s \<and> owned s' n = owned s n \<and> alloc_ok s' = alloc_ok s \<and> set_variable_rc s' = EFI_SUCCESS"
proof -
  define c where "c = (gPbrContext s)\<lparr>PbrMode := mode\<rparr>"
  define s' where "s' = s\<lparr>gPbrContext := c, pbr_variable := Some c\<rparr>"
  have h: "PbrMainHeader (gPbrContext s) \<noteq> NULL"
    using rep by (auto simp: session_rep_def header_rep_def pool_ok_def)
  have "PbrSetMode mode s = Some (EFI_SUCCESS, s')"
    using m h env by (simp add: PbrSetMode_def PbrSerializeCtx_def c_def s'_def)
  moreover have "parts s' = parts s" "owned s' m = owned s m" "header_rep s' = header_rep s" "part_rep s' d v = part_rep s d v"
      "pool_ok s' = pool_ok s" for m d v
    by (simp_all add: parts_def s'_def c_def owned_def header_rep_def part_rep_def pool_ok_def)
  then have "session_rep s' vs" "owned s' n = owned s n" using rep by (simp_all add: session_rep_def)
  ultimately show ?thesis using env by (simp add: s'_def c_def)
qed

lemma FreeSession_loop_none:
  "(\<And>i. i \<in> set is \<Longrightarrow> PartitionSig (parts s ! i) = PBR_INVALID_SIG) \<Longrightarrow> FreeSession_loop is s = Some s"
  by (induction "is") simp_all

text \<open>A new session has a header and no partitions.\<close>

lemma PbrSetSession_new:
  assumes ns: "no_session s" and env: "False \<notin> set (alloc_ok s)" "set_variable_rc s = EFI_SUCCESS"
  shows "\<exists>s'. PbrSetSession NULL 0 s = Some (EFI_SUCCESS, s') \<and> session_rep s' [] \<and> set_variable_rc s' = EFI_SUCCESS \<and>
     set (alloc_ok s') \<subseteq> set (alloc_ok s) \<and> (\<forall>b. blocks s b \<noteq> None \<longrightarrow> foreign s' 0 b \<and> blocks s' b = blocks s b)"
proof -
  define h where "h = next_block s"
  have ok: "pool_ok s" using ns by (simp add: no_session_def)
  have h: "h \<noteq> 0" "\<And>b. blocks s b \<noteq> None \<Longrightarrow> b \<noteq> h" using ok by (auto simp: pool_ok_def h_def)
  have free: "PbrFreeSession s = Some (EFI_SUCCESS, set_header NULL s)"
    using ns FreeSession_loop_none [of "[0..<MAX_PARTITIONS]" s]
    by (simp add: no_session_def PbrFreeSession_def FREE_POOL_SAFE_def)
  have id: "set_header NULL s = s" using ns by (simp add: no_session_def set_header_def)
  define hb where "hb = le32 PBR_HEADER_SIG @ replicate (sizeof_header - 4) 0"
  have lhb: "length hb = sizeof_header" "get32 0 hb = PBR_HEADER_SIG" by (simp_all add: hb_def)
  define s1 where "s1 = set_header (h, 0) (s\<lparr>blocks := (blocks s)(h \<mapsto> hb), next_block := Suc h, alloc_ok := tl (alloc_ok s)\<rparr>)"
  have create: "PbrCreateSessionContext s = Some (EFI_SUCCESS, s1)"
  proof -
    have "patch (replicate sizeof_header 0) 0 (le32 PBR_HEADER_SIG) = hb" by (simp add: patch_def hb_def)
    then show ?thesis
      using ns h(1) by (simp add: PbrCreateSessionContext_def FREE_POOL_SAFE_def no_session_def pool_ok_alloc [OF ok env(1)]
          store_def s1_def set_header_def h_def)
  qed
  have rep: "session_rep s1 []"
  proof -
    have "pool_ok s1" using ok h by (simp add: pool_ok_def s1_def h_def)
    moreover have "header_rep s1" using lhb by (simp add: header_rep_def s1_def)
    ultimately show ?thesis using ns by (simp add: session_rep_def owned_def no_session_def s1_def)
  qed
  define s2 where "s2 = s1\<lparr>pbr_variable := Some (gPbrContext s1)\<rparr>"
  have "PbrSetSession NULL 0 s = Some (EFI_SUCCESS, s2)"
    using free create session_rep_integrity [OF rep] env(2)
    by (simp add: PbrSetSession_def id PbrSerializeCtx_def s2_def) (simp add: s1_def set_header_def)
  moreover have "session_rep s2 []"
    by (rule session_rep_foreign [OF rep]) (use rep in \<open>simp_all add: s2_def session_rep_def pool_ok_def\<close>)
  moreover have "set (alloc_ok s2) \<subseteq> set (alloc_ok s)" by (cases "alloc_ok s") (auto simp: s2_def s1_def)
  moreover have "foreign s2 0 b \<and> blocks s2 b = blocks s b" if "blocks s b \<noteq> None" for b
    using h(2) [OF that] that by (simp add: foreign_def owned_def s2_def s1_def)
  ultimately show ?thesis using env(2) by (auto simp: s2_def s1_def set_header_def)
qed

section \<open>The whole way\<close>

lemma copy_given_env: "copy_given q m p n s = Some s' \<Longrightarrow> pbr_env s' = pbr_env s"
  by (auto simp: copy_given_def split: if_splits dest: PbrCopyChunks_env)

lemma ReallocatePool_env: "ReallocatePool a b p s = Some (q, s') \<Longrightarrow> pbr_env s' = pbr_env s"
  by (auto simp: ReallocatePool_def Let_def case_prod_beta bind_eq_Some_conv split: if_splits dest!: pbr_env_ops)

lemma SetData_env:
  "SetData_singleton i p n s = Some (rc, q, s') \<Longrightarrow> pbr_env s' = pbr_env s"
  "SetData_append i p n s = Some (rc, q, s') \<Longrightarrow> pbr_env s' = pbr_env s"
  "SetData_new i sig p n single s = Some (rc, q, s') \<Longrightarrow> pbr_env s' = pbr_env s"
  by (auto simp: SetData_singleton_def SetData_append_def SetData_grow_def SetData_new_def Let_def case_prod_beta
      bind_eq_Some_conv split: if_splits dest!: pbr_env_ops copy_given_env ReallocatePool_env)

lemma PbrSetData_env: "PbrSetData sig p n single s = Some (rc, q, i, s') \<Longrightarrow> pbr_env s' = pbr_env s"
  by (auto simp: PbrSetData_def Let_def case_prod_beta bind_eq_Some_conv split: if_splits dest!: pbr_env_ops SetData_env)

lemma record_all_env: "record_all rs s = Some s' \<Longrightarrow> pbr_env s' = pbr_env s"
  by (induction rs arbitrary: s) (auto simp: bind_eq_Some_conv split: if_splits dest!: PbrSetData_env)

lemma PbrGetSession_env: "PbrGetSession g s = Some (rc, p, n, s') \<Longrightarrow> pbr_env s' = pbr_env s"
proof -
  have table: "Compose_table is m s = Some (k, s') \<Longrightarrow> pbr_env s' = pbr_env s" for "is" m k s s'
    by (induction "is" arbitrary: m s) (auto simp: Let_def bind_eq_Some_conv split: if_splits dest!: pbr_env_ops)
  have copy: "Compose_copy is m q s = Some s' \<Longrightarrow> pbr_env s' = pbr_env s" for "is" m q s s'
    by (induction "is" arbitrary: q s) (auto simp: Let_def bind_eq_Some_conv split: if_splits dest!: PbrCopyChunks_env)
  assume "PbrGetSession g s = Some (rc, p, n, s')"
  then show ?thesis
    by (auto simp: PbrGetSession_def PbrComposeSession_def Let_def case_prod_beta bind_eq_Some_conv split: if_splits
        dest!: pbr_env_ops table copy PbrCopyChunks_env)
qed

lemma play_all:
  assumes rep: "session_rep s (map rewind vs)" and sig: "sig \<in> set (map vsig vs)" and alloc: "False \<notin> set (alloc_ok s)"
  shows "\<exists>s'. play sig (length (items_of sig vs)) s = Some (items_of sig vs, s')"
proof -
  obtain i where i: "i < length vs" "sig = vsig (vs ! i)" using sig by (auto simp: in_set_conv_nth)
  have "distinct (map vsig vs)" using rep by (simp add: session_rep_def comp_def)
  from items_of_at [OF i(1) this] have "items_of sig vs = vitems (vs ! i)" using i(2) by simp
  then show ?thesis
    using play_rest [OF rep, of i 0 "length (items_of sig vs)"] i alloc by (auto simp: item_at_simps)
qed

text \<open>The two ends of the way: a session that records, and its image loaded for playback.\<close>

lemma start_recording:
  assumes "no_session s" "False \<notin> set (alloc_ok s)" "set_variable_rc s = EFI_SUCCESS"
  shows "\<exists>s1 s2. PbrSetSession NULL 0 s = Some (EFI_SUCCESS, s1) \<and> PbrSetMode PBR_RECORD_MODE s1 = Some (EFI_SUCCESS, s2) \<and>
     session_rep s2 [] \<and> PbrMode (gPbrContext s2) = PBR_RECORD_MODE \<and> False \<notin> set (alloc_ok s2) \<and>
     set_variable_rc s2 = EFI_SUCCESS \<and> (\<forall>b. blocks s b \<noteq> None \<longrightarrow> foreign s2 0 b \<and> blocks s2 b = blocks s b)"
proof -
  obtain s1 where s1: "PbrSetSession NULL 0 s = Some (EFI_SUCCESS, s1)" "session_rep s1 []" "set_variable_rc s1 = EFI_SUCCESS"
      "set (alloc_ok s1) \<subseteq> set (alloc_ok s)" "\<forall>b. blocks s b \<noteq> None \<longrightarrow> foreign s1 0 b \<and> blocks s1 b = blocks s b"
    using PbrSetSession_new [OF assms] by blast
  obtain s2 where s2: "PbrSetMode PBR_RECORD_MODE s1 = Some (EFI_SUCCESS, s2)" "session_rep s2 []" "blocks s2 = blocks s1"
      "owned s2 0 = owned s1 0" "alloc_ok s2 = alloc_ok s1" "set_variable_rc s2 = EFI_SUCCESS" "PbrMode (gPbrContext s2) = PBR_RECORD_MODE"
    using PbrSetMode_rep [OF s1(2,3), of PBR_RECORD_MODE 0] by auto
  with s1 assms(2) show ?thesis by (auto simp: foreign_def)
qed

lemma load_for_playback:
  assumes rep: "session_rep s vs" and lim: "sizeof_header + data_size vs < 2 ^ 32"
    and env: "False \<notin> set (alloc_ok s)" "set_variable_rc s = EFI_SUCCESS"
  shows "\<exists>p n s1 s2 s3. PbrGetSession True s = Some (EFI_SUCCESS, p, n, s1) \<and> PbrSetSession p n s1 = Some (EFI_SUCCESS, s2) \<and>
     PbrSetMode PBR_PLAYBACK_MODE s2 = Some (EFI_SUCCESS, s3) \<and> session_rep s3 (map rewind vs) \<and>
     PbrMode (gPbrContext s3) = PBR_PLAYBACK_MODE \<and> False \<notin> set (alloc_ok s3)"
proof -
  obtain s1 hb where s1: "PbrGetSession True s = Some (EFI_SUCCESS, (next_block s, 0), of_nat (sizeof_header + data_size vs), s1)"
      "length hb = sizeof_header" "get32 0 hb = PBR_HEADER_SIG" "blocks s1 (next_block s) = Some (image_bytes hb vs)"
      "session_rep s1 vs" "foreign s1 (length vs) (next_block s)" "kept (length vs) s (length vs) s1"
    using PbrGetSession_image [OF rep env(1) lim] by blast
  have e1: "set_variable_rc s1 = EFI_SUCCESS" "False \<notin> set (alloc_ok s1)"
    using PbrGetSession_env [OF s1(1)] env s1(7) by (auto simp: pbr_env_def kept_def)
  obtain s2 where s2: "PbrSetSession (next_block s, 0) (of_nat (sizeof_header + data_size vs)) s1 = Some (EFI_SUCCESS, s2)"
      "session_rep s2 (map rewind vs)" "set (alloc_ok s2) \<subseteq> set (alloc_ok s1)" "set_variable_rc s2 = EFI_SUCCESS"
    using PbrSetSession_image [OF s1(5) session_rep_image_of [OF s1(5) lim] s1(2,3,6,4) e1(2,1)] by blast
  obtain s3 where s3: "PbrSetMode PBR_PLAYBACK_MODE s2 = Some (EFI_SUCCESS, s3)" "session_rep s3 (map rewind vs)" "alloc_ok s3 = alloc_ok s2"
      "PbrMode (gPbrContext s3) = PBR_PLAYBACK_MODE"
    using PbrSetMode_rep [OF s2(2,4), of PBR_PLAYBACK_MODE] by auto
  then have "False \<notin> set (alloc_ok s3)" using s2(3) e1(2) by auto
  with s1(1) s2(1) s3 show ?thesis by blast
qed

lemma session_loaded:
  assumes start: "no_session s" and rs: "requested s 0 rs log"
    and sigs: "card (set (map fst log)) \<le> MAX_PARTITIONS"
    and fits: "sizeof_header + PARTITION_GROW_SZ_MULTIPLIER * cost log < 2 ^ 32"
    and env: "False \<notin> set (alloc_ok s)" "set_variable_rc s = EFI_SUCCESS"
  shows "\<exists>s1 s2 s3 s4 s5 s6 p n.
     PbrSetSession NULL 0 s = Some (EFI_SUCCESS, s1) \<and> PbrSetMode PBR_RECORD_MODE s1 = Some (EFI_SUCCESS, s2) \<and>
     record_all rs s2 = Some s3 \<and> PbrGetSession True s3 = Some (EFI_SUCCESS, p, n, s4) \<and>
     PbrSetSession p n s4 = Some (EFI_SUCCESS, s5) \<and> PbrSetMode PBR_PLAYBACK_MODE s5 = Some (EFI_SUCCESS, s6) \<and>
     session_rep s6 (map rewind (recorded log [])) \<and> False \<notin> set (alloc_ok s6)"
proof -
  obtain s1 s2 where s2: "PbrSetSession NULL 0 s = Some (EFI_SUCCESS, s1)" "PbrSetMode PBR_RECORD_MODE s1 = Some (EFI_SUCCESS, s2)"
      "session_rep s2 []" "False \<notin> set (alloc_ok s2)" "set_variable_rc s2 = EFI_SUCCESS"
      "\<forall>b. blocks s b \<noteq> None \<longrightarrow> foreign s2 0 b \<and> blocks s2 b = blocks s b"
    using start_recording [OF start env] by blast
  have rs2: "requested s2 0 rs log"
    by (rule requested_start [OF rs s2(6)])
  define vs where "vs = recorded log []"
  obtain s3 where s3: "record_all rs s2 = Some s3" "session_rep s3 vs" "kept 0 s2 (length vs) s3"
    using record_all_rep [OF s2(3) _ _ _ _ s2(4), of rs log] rs2 sigs fits by (auto simp: vs_def recording_def total_end_def)
  have te: "total_end vs = cost log" using total_end_recorded [of log "[]"] by (simp add: vs_def total_end_def)
  have "recording vs" using recording_recorded [of "[]" log] by (simp add: vs_def recording_def)
  then have lim: "sizeof_header + data_size vs < 2 ^ 32"
    using data_size_recording [of vs] fits by (simp add: te)
  have e3: "False \<notin> set (alloc_ok s3)" "set_variable_rc s3 = EFI_SUCCESS"
    using s3(3) s2(4,5) record_all_env [OF s3(1)] by (auto simp: kept_def pbr_env_def)
  obtain p n s4 s5 s6 where s6: "PbrGetSession True s3 = Some (EFI_SUCCESS, p, n, s4)" "PbrSetSession p n s4 = Some (EFI_SUCCESS, s5)"
      "PbrSetMode PBR_PLAYBACK_MODE s5 = Some (EFI_SUCCESS, s6)" "session_rep s6 (map rewind vs)" "False \<notin> set (alloc_ok s6)"
    using load_for_playback [OF s3(2) lim e3] by blast
  with s2(1,2) s3(1) show ?thesis unfolding vs_def by blast
qed

text \<open>
  C19: What was recorded is what is played back. Start a session, record any sequence of items under at
  most a hundred signatures and within the size an image can have, ask for the image, load it and switch
  to playback: for every signature, asking for the next item again and again returns exactly the items
  recorded under it, in the order they were recorded, and every step on the way succeeds.
\<close>

theorem recorded_session_replays:
  assumes start: "no_session s" and rs: "requested s 0 rs log"
    and sigs: "card (set (map fst log)) \<le> MAX_PARTITIONS"
    and fits: "sizeof_header + PARTITION_GROW_SZ_MULTIPLIER * cost log < 2 ^ 32"
    and env: "False \<notin> set (alloc_ok s)" "set_variable_rc s = EFI_SUCCESS"
  shows "\<exists>s1 s2 s3 s4 s5 s6 p n.
     PbrSetSession NULL 0 s = Some (EFI_SUCCESS, s1) \<and> PbrSetMode PBR_RECORD_MODE s1 = Some (EFI_SUCCESS, s2) \<and>
     record_all rs s2 = Some s3 \<and> PbrGetSession True s3 = Some (EFI_SUCCESS, p, n, s4) \<and>
     PbrSetSession p n s4 = Some (EFI_SUCCESS, s5) \<and> PbrSetMode PBR_PLAYBACK_MODE s5 = Some (EFI_SUCCESS, s6) \<and>
     (\<forall>sig \<in> set (map fst log). \<exists>s7. play sig (length (logged sig log)) s6 = Some (logged sig log, s7))"
proof -
  obtain s1 s2 s3 s4 s5 s6 p n where s6: "PbrSetSession NULL 0 s = Some (EFI_SUCCESS, s1)" "PbrSetMode PBR_RECORD_MODE s1 = Some (EFI_SUCCESS, s2)"
      "record_all rs s2 = Some s3" "PbrGetSession True s3 = Some (EFI_SUCCESS, p, n, s4)" "PbrSetSession p n s4 = Some (EFI_SUCCESS, s5)"
      "PbrSetMode PBR_PLAYBACK_MODE s5 = Some (EFI_SUCCESS, s6)" "session_rep s6 (map rewind (recorded log []))" "False \<notin> set (alloc_ok s6)"
    using session_loaded [OF assms] by blast
  have "\<exists>s7. play sig (length (logged sig log)) s6 = Some (logged sig log, s7)" if "sig \<in> set (map fst log)" for sig
    using play_all [OF s6(7), of sig] that sigs_recorded [of log "[]"] items_of_recorded [of sig log "[]"] s6(8) by auto
  with s6(1-6) show ?thesis by blast
qed

text \<open>A pool with two buffers of a caller, before any session.\<close>

definition demo_pbr :: pbr_sys where
  "demo_pbr = \<lparr>blocks = (\<lambda>_. None)(1 \<mapsto> [1, 2, 3], 2 \<mapsto> [7]), next_block = 3, alloc_ok = [],
     gPbrContext = zero_context, pbr_variable = None, set_variable_rc = EFI_SUCCESS, get_variable_rc = EFI_SUCCESS\<rparr>"

lemma demo_pbr_no_session: "no_session demo_pbr"
  by (simp add: no_session_def pool_ok_def demo_pbr_def parts_def zero_context_def zero_partition_def)

theorem recorded_session_replays_witness:
  "\<exists>s1 s2 s3 s4 s5 s6 p n.
     PbrSetSession NULL 0 demo_pbr = Some (EFI_SUCCESS, s1) \<and> PbrSetMode PBR_RECORD_MODE s1 = Some (EFI_SUCCESS, s2) \<and>
     record_all [(5, (1, 0), 3), (6, (2, 0), 1), (5, (1, 1), 2)] s2 = Some s3 \<and>
     PbrGetSession True s3 = Some (EFI_SUCCESS, p, n, s4) \<and>
     PbrSetSession p n s4 = Some (EFI_SUCCESS, s5) \<and> PbrSetMode PBR_PLAYBACK_MODE s5 = Some (EFI_SUCCESS, s6) \<and>
     (\<exists>s7. play 5 2 s6 = Some ([[1, 2, 3], [2, 3]], s7)) \<and> (\<exists>s7. play 6 1 s6 = Some ([[7]], s7))"
proof -
  let ?log = "[(5, [1, 2, 3]), (6, [7]), (5, [2, 3])] :: (u32 \<times> u8 list) list"
  have rq: "requested demo_pbr 0 [(5, (1, 0), 3), (6, (2, 0), 1), (5, (1, 1), 2)] ?log"
    by (simp add: demo_pbr_def foreign_def owned_def zero_context_def load_def)
  have "card (set (map fst ?log)) \<le> MAX_PARTITIONS" by (simp add: MAX_PARTITIONS_def card_insert_if)
  moreover have "sizeof_header + PARTITION_GROW_SZ_MULTIPLIER * cost ?log < 2 ^ 32" by (simp add: cost_def)
  moreover have "False \<notin> set (alloc_ok demo_pbr)" "set_variable_rc demo_pbr = EFI_SUCCESS" by (simp_all add: demo_pbr_def)
  ultimately have "\<exists>s1 s2 s3 s4 s5 s6 p n.
     PbrSetSession NULL 0 demo_pbr = Some (EFI_SUCCESS, s1) \<and> PbrSetMode PBR_RECORD_MODE s1 = Some (EFI_SUCCESS, s2) \<and>
     record_all [(5, (1, 0), 3), (6, (2, 0), 1), (5, (1, 1), 2)] s2 = Some s3 \<and>
     PbrGetSession True s3 = Some (EFI_SUCCESS, p, n, s4) \<and>
     PbrSetSession p n s4 = Some (EFI_SUCCESS, s5) \<and> PbrSetMode PBR_PLAYBACK_MODE s5 = Some (EFI_SUCCESS, s6) \<and>
     (\<forall>sig \<in> set (map fst ?log). \<exists>s7. play sig (length (logged sig ?log)) s6 = Some (logged sig ?log, s7))"
    by (rule recorded_session_replays [OF demo_pbr_no_session rq])
  moreover have "logged 5 ?log = [[1, 2, 3], [2, 3]]" "logged 6 ?log = [[7]]" by (simp_all add: logged_def)
  moreover have "5 \<in> set (map fst ?log)" "6 \<in> set (map fst ?log)" "length [[1, 2, 3], [2, 3 :: u8]] = 2" "length [[7 :: u8]] = 1"
    by simp_all
  ultimately show ?thesis by metis
qed

end
