(* ===== verification/Pbr_Dcpmm.thy ===== *)
theory Pbr_Dcpmm
  imports Pbr
begin

text \<open>
  The records the driver keeps of its firmware commands and of the platform's tables
  (\<open>DcpmPkg/common/PbrDcpmm.c\<close>). A command is one item: a request header, the input payloads, a
  response header and the output payloads. A table is a partition of a single item.

  The payload arrays of a command are lists of the arrays' lengths; a copy that leaves its array gives
  \<open>None\<close>, like an access outside a block. \<open>PbrPassThruReq\<close> and \<open>PbrPassThruResp\<close> are not packed, so
  their sizes are 24 and 32 bytes.
\<close>

section \<open>Data\<close>

record FW_CMD =
  InputPayloadSize :: u32
  LargeInputPayloadSize :: u32
  OutputPayloadSize :: u32
  LargeOutputPayloadSize :: u32
  InputPayload :: "u8 list"
  LargeInputPayload :: "u8 list"
  OutPayload :: "u8 list"
  LargeOutputPayload :: "u8 list"
  DimmID :: u32
  Opcode :: u8
  SubOpcode :: u8
  Status :: u8

abbreviation (input) PBR_PASS_THRU_SIG :: u32 where "PBR_PASS_THRU_SIG \<equiv> 0x4C434250"
abbreviation (input) PBR_SMBIOS_SIG :: u32 where "PBR_SMBIOS_SIG \<equiv> 0x4D534250"
abbreviation (input) PBR_NFIT_SIG :: u32 where "PBR_NFIT_SIG \<equiv> 0x464E4250"
abbreviation (input) PBR_PCAT_SIG :: u32 where "PBR_PCAT_SIG \<equiv> 0x43504250"
abbreviation (input) PBR_PMTT_SIG :: u32 where "PBR_PMTT_SIG \<equiv> 0x4D504250"

abbreviation (input) sizeof_Req :: nat where "sizeof_Req \<equiv> 24"
abbreviation (input) sizeof_Resp :: nat where "sizeof_Resp \<equiv> 32"

definition array_read :: "u8 list \<Rightarrow> u32 \<Rightarrow> u8 list option" where
  "array_read xs n = (if unat n \<le> length xs then Some (take (unat n) xs) else None)"

definition array_write :: "u8 list \<Rightarrow> u8 list \<Rightarrow> u8 list option" where
  "array_write xs bs = (if length bs \<le> length xs then Some (bs @ drop (length bs) xs) else None)"

section \<open>Firmware commands\<close>

definition store_payload :: "ptr \<Rightarrow> u8 list \<Rightarrow> u32 \<Rightarrow> pbr_sys \<Rightarrow> pbr_sys option" where
  "store_payload p xs n s = (if n \<noteq> 0 then do { bs \<leftarrow> array_read xs n; store p bs s } else Some s)"

definition PassThru_size :: "FW_CMD \<Rightarrow> u32" where
  "PassThru_size cmd = of_nat sizeof_Req + InputPayloadSize cmd + LargeInputPayloadSize cmd + of_nat sizeof_Resp
     + OutputPayloadSize cmd + LargeOutputPayloadSize cmd"

definition SetPassThru_fill :: "FW_CMD \<Rightarrow> u64 \<Rightarrow> ptr \<Rightarrow> pbr_sys \<Rightarrow> pbr_sys option" where
  "SetPassThru_fill cmd PassthruReturnCode pData s = do {
     s \<leftarrow> store32 (ptr_add pData 8) (DimmID cmd) s;
     s \<leftarrow> store8 (ptr_add pData 12) (Opcode cmd) s;
     s \<leftarrow> store8 (ptr_add pData 13) (SubOpcode cmd) s;
     s \<leftarrow> store64 pData 0xDEADBEEF s;
     s \<leftarrow> store32 (ptr_add pData 16) (InputPayloadSize cmd) s;
     s \<leftarrow> store32 (ptr_add pData 20) (LargeInputPayloadSize cmd) s;
     let pIn = ptr_add pData sizeof_Req;
     s \<leftarrow> store_payload pIn (InputPayload cmd) (InputPayloadSize cmd) s;
     let pLarge = ptr_add pIn (unat (InputPayloadSize cmd));
     s \<leftarrow> store_payload pLarge (LargeInputPayload cmd) (LargeInputPayloadSize cmd) s;
     let ptResp = ptr_add pLarge (unat (LargeInputPayloadSize cmd));
     s \<leftarrow> store32 (ptr_add ptResp 16) (DimmID cmd) s;
     s \<leftarrow> store64 (ptr_add ptResp 8) PassthruReturnCode s;
     s \<leftarrow> store8 (ptr_add ptResp 28) (Status cmd) s;
     s \<leftarrow> store64 ptResp 0x55AA55AA s;
     s \<leftarrow> store32 (ptr_add ptResp 20) (OutputPayloadSize cmd) s;
     s \<leftarrow> store32 (ptr_add ptResp 24) (LargeOutputPayloadSize cmd) s;
     let pOut = ptr_add ptResp sizeof_Resp;
     s \<leftarrow> store_payload pOut (OutPayload cmd) (OutputPayloadSize cmd) s;
     store_payload (ptr_add pOut (unat (OutputPayloadSize cmd))) (LargeOutputPayload cmd) (LargeOutputPayloadSize cmd) s }"

text \<open>The status of \<open>PbrSetData\<close> is not looked at.\<close>

definition PbrSetPassThruRecord :: "FW_CMD option \<Rightarrow> u64 \<Rightarrow> pbr_sys \<Rightarrow> (efi_status \<times> pbr_sys) option" where
  "PbrSetPassThruRecord pCmd PassthruReturnCode s =
     (case pCmd of
        None \<Rightarrow> Some (EFI_INVALID_PARAMETER, s)
      | Some cmd \<Rightarrow>
          if PbrMode (gPbrContext s) \<noteq> PBR_RECORD_MODE then Some (EFI_SUCCESS, s)
          else do {
            (rc, pData, i, s) \<leftarrow> PbrSetData PBR_PASS_THRU_SIG NULL (PassThru_size cmd) False s;
            s \<leftarrow> SetPassThru_fill cmd PassthruReturnCode pData s;
            Some (EFI_SUCCESS, s) })"

definition load_payload :: "ptr \<Rightarrow> u32 \<Rightarrow> u8 list \<Rightarrow> pbr_sys \<Rightarrow> u8 list option" where
  "load_payload p n xs s = (if n \<noteq> 0 then do { bs \<leftarrow> load p (unat n) s; array_write xs bs } else Some xs)"

text \<open>
  What \<open>PbrGetPassThruRecord\<close> does with the item at \<open>pData\<close>: the status, the command and the return
  code of the pass-through, which is only written once the response header is reached.
\<close>

definition GetPassThru_resp :: "ptr \<Rightarrow> u32 \<Rightarrow> u32 \<Rightarrow> FW_CMD \<Rightarrow> pbr_sys \<Rightarrow> (efi_status \<times> FW_CMD \<times> u64) option" where
  "GetPassThru_resp pData DataSize CurDataPos cmd s = do {
     let ptResp = ptr_add pData (unat CurDataPos);
     status \<leftarrow> load8 (ptr_add ptResp 28) s;
     out \<leftarrow> load32 (ptr_add ptResp 20) s;
     large \<leftarrow> load32 (ptr_add ptResp 24) s;
     prc \<leftarrow> load64 (ptr_add ptResp 8) s;
     let cmd = cmd\<lparr>Status := status, OutputPayloadSize := out, LargeOutputPayloadSize := large\<rparr>;
     let CurDataPos = CurDataPos + of_nat sizeof_Resp;
     (if DataSize < CurDataPos then Some (EFI_LOAD_ERROR, cmd, prc)
      else do {
        o' \<leftarrow> load_payload (ptr_add pData (unat CurDataPos)) out (OutPayload cmd) s;
        let cmd = cmd\<lparr>OutPayload := o'\<rparr>;
        let CurDataPos = CurDataPos + out;
        (if DataSize < CurDataPos then Some (EFI_LOAD_ERROR, cmd, prc)
         else do {
           l' \<leftarrow> load_payload (ptr_add pData (unat CurDataPos)) large (LargeOutputPayload cmd) s;
           Some (EFI_SUCCESS, cmd\<lparr>LargeOutputPayload := l'\<rparr>, prc) }) }) }"

definition GetPassThru_body :: "ptr \<Rightarrow> u32 \<Rightarrow> FW_CMD \<Rightarrow> u64 \<Rightarrow> pbr_sys \<Rightarrow> (efi_status \<times> FW_CMD \<times> u64) option" where
  "GetPassThru_body pData DataSize cmd prc s = do {
     opcode \<leftarrow> load8 (ptr_add pData 12) s;
     (if Opcode cmd \<noteq> opcode then Some (EFI_LOAD_ERROR, cmd, prc)
      else do {
        sub \<leftarrow> load8 (ptr_add pData 13) s;
        (if SubOpcode cmd \<noteq> sub \<or> DataSize < of_nat sizeof_Req then Some (EFI_LOAD_ERROR, cmd, prc)
         else do {
           input \<leftarrow> load32 (ptr_add pData 16) s;
           (if DataSize < of_nat sizeof_Req + input then Some (EFI_LOAD_ERROR, cmd, prc)
            else do {
              large \<leftarrow> load32 (ptr_add pData 20) s;
              (if DataSize < of_nat sizeof_Req + input + large then Some (EFI_LOAD_ERROR, cmd, prc)
               else GetPassThru_resp pData DataSize (of_nat sizeof_Req + input + large) cmd s) }) }) }) }"

definition PbrGetPassThruRecord :: "FW_CMD \<Rightarrow> u64 \<Rightarrow> pbr_sys \<Rightarrow> (efi_status \<times> FW_CMD \<times> u64 \<times> pbr_sys) option" where
  "PbrGetPassThruRecord cmd prc s =
     (if PbrMode (gPbrContext s) \<noteq> PBR_PLAYBACK_MODE then Some (EFI_SUCCESS, cmd, prc, s)
      else do {
        (rc, pData, DataSize, i, s) \<leftarrow> PbrGetData PBR_PASS_THRU_SIG GET_NEXT_DATA_INDEX False s;
        (if rc \<noteq> EFI_SUCCESS then Some (rc, cmd, prc, s)
         else do {
           (rc, cmd, prc) \<leftarrow> GetPassThru_body pData DataSize cmd prc s;
           s \<leftarrow> FREE_POOL_SAFE pData s;
           Some (rc, cmd, prc, s) }) })"

section \<open>Tables\<close>

definition table_sig :: "u32 \<Rightarrow> u32 option" where
  "table_sig TableType =
     (if TableType = 1 then Some PBR_SMBIOS_SIG else if TableType = 2 then Some PBR_NFIT_SIG
      else if TableType = 3 then Some PBR_PCAT_SIG else if TableType = 4 then Some PBR_PMTT_SIG else None)"

definition PbrGetTableRecord :: "u32 \<Rightarrow> pbr_sys \<Rightarrow> (efi_status \<times> ptr \<times> u32 \<times> pbr_sys) option" where
  "PbrGetTableRecord TableType s =
     (if PbrMode (gPbrContext s) \<noteq> PBR_PLAYBACK_MODE then Some (EFI_SUCCESS, NULL, 0, s)
      else case table_sig TableType of
        None \<Rightarrow> Some (EFI_INVALID_PARAMETER, NULL, 0, s)
      | Some Signature \<Rightarrow> do {
          (rc, pTable, TableSize, i, s) \<leftarrow> PbrGetData Signature 0 False s;
          Some (rc, pTable, TableSize, s) })"

definition PbrSetTableRecord :: "u32 \<Rightarrow> ptr \<Rightarrow> u32 \<Rightarrow> pbr_sys \<Rightarrow> (efi_status \<times> pbr_sys) option" where
  "PbrSetTableRecord TableType pTable TableSize s =
     (if PbrMode (gPbrContext s) \<noteq> PBR_RECORD_MODE then Some (EFI_SUCCESS, s)
      else case table_sig TableType of
        None \<Rightarrow> Some (EFI_INVALID_PARAMETER, s)
      | Some Signature \<Rightarrow> do {
          (rc, p, i, s) \<leftarrow> PbrSetData Signature pTable TableSize True s;
          Some (rc, s) })"

end
