(* ===== verification/Pbr_Commands.thy ===== *)
theory Pbr_Commands
  imports Pbr_Replay Pbr_Dcpmm
begin

text \<open>
  Recorded firmware commands and tables: the bytes of a command's record, that recording writes them,
  and that playing them back gives the command's answer again.
\<close>

section \<open>The record of a command\<close>

text \<open>The padding of the two headers is not written, and keeps what was in the buffer.\<close>

definition req_bytes :: "FW_CMD \<Rightarrow> u8 list \<Rightarrow> u8 list" where
  "req_bytes cmd pad = le64 0xDEADBEEF @ le32 (DimmID cmd) @ [Opcode cmd] @ [SubOpcode cmd] @ pad
     @ le32 (InputPayloadSize cmd) @ le32 (LargeInputPayloadSize cmd)"

definition resp_bytes :: "FW_CMD \<Rightarrow> u64 \<Rightarrow> u8 list \<Rightarrow> u8 list" where
  "resp_bytes cmd prc pad = le64 0x55AA55AA @ le64 prc @ le32 (DimmID cmd) @ le32 (OutputPayloadSize cmd)
     @ le32 (LargeOutputPayloadSize cmd) @ [Status cmd] @ pad"

definition pass_bytes :: "FW_CMD \<Rightarrow> u64 \<Rightarrow> u8 list \<Rightarrow> u8 list \<Rightarrow> u8 list" where
  "pass_bytes cmd prc pad pad' =
     req_bytes cmd pad @ take (unat (InputPayloadSize cmd)) (InputPayload cmd)
     @ take (unat (LargeInputPayloadSize cmd)) (LargeInputPayload cmd)
     @ resp_bytes cmd prc pad' @ take (unat (OutputPayloadSize cmd)) (OutPayload cmd)
     @ take (unat (LargeOutputPayloadSize cmd)) (LargeOutputPayload cmd)"

text \<open>The payload sizes stay within the arrays they count.\<close>

definition cmd_ok :: "FW_CMD \<Rightarrow> bool" where
  "cmd_ok cmd \<longleftrightarrow> unat (InputPayloadSize cmd) \<le> length (InputPayload cmd) \<and>
     unat (LargeInputPayloadSize cmd) \<le> length (LargeInputPayload cmd) \<and>
     unat (OutputPayloadSize cmd) \<le> length (OutPayload cmd) \<and>
     unat (LargeOutputPayloadSize cmd) \<le> length (LargeOutputPayload cmd)"

definition cmd_size :: "FW_CMD \<Rightarrow> nat" where
  "cmd_size cmd = sizeof_Req + unat (InputPayloadSize cmd) + unat (LargeInputPayloadSize cmd) + sizeof_Resp
     + unat (OutputPayloadSize cmd) + unat (LargeOutputPayloadSize cmd)"

lemma length_headers [simp]:
  "length (req_bytes cmd pad) = 22 + length pad" "length (resp_bytes cmd prc pad) = 29 + length pad"
  by (simp_all add: req_bytes_def resp_bytes_def)

lemma PassThru_size_eq: "cmd_size cmd < 2 ^ 32 \<Longrightarrow> unat (PassThru_size cmd) = cmd_size cmd"
proof -
  have "PassThru_size cmd = of_nat (cmd_size cmd)" by (simp add: PassThru_size_def cmd_size_def)
  then show "cmd_size cmd < 2 ^ 32 \<Longrightarrow> ?thesis" by (simp only: of_nat_unat_less)
qed

lemma req_written:
  assumes "blocks s b = Some (xs @ (h1 @ h2 @ [h3] @ [h4] @ pad @ h5 @ h6) @ zs)"
    "length h1 = 8" "length h2 = 4" "length pad = 2" "length h5 = 4" "length h6 = 4" "off = length xs"
  shows "do { s \<leftarrow> store32 (b, off + 8) (DimmID cmd) s; s \<leftarrow> store8 (b, off + 12) (Opcode cmd) s;
     s \<leftarrow> store8 (b, off + 13) (SubOpcode cmd) s; s \<leftarrow> store64 (b, off) 0xDEADBEEF s;
     s \<leftarrow> store32 (b, off + 16) (InputPayloadSize cmd) s; s \<leftarrow> store32 (b, off + 20) (LargeInputPayloadSize cmd) s; f s } =
    f (s\<lparr>blocks := (blocks s)(b \<mapsto> xs @ req_bytes cmd pad @ zs)\<rparr>)"
proof -
  let ?B = "\<lambda>X. s\<lparr>blocks := (blocks s)(b \<mapsto> X)\<rparr>"
  let ?d = "le32 (DimmID cmd)"
  have 1: "store32 (b, off + 8) (DimmID cmd) s = Some (?B (xs @ h1 @ ?d @ [h3] @ [h4] @ pad @ h5 @ h6 @ zs))"
    using store_field [of s b "xs @ h1" h2 "[h3] @ [h4] @ pad @ h5 @ h6 @ zs" ?d "off + 8"] assms by simp
  have 2: "store8 (b, off + 12) (Opcode cmd) (?B (xs @ h1 @ ?d @ [h3] @ [h4] @ pad @ h5 @ h6 @ zs)) =
      Some (?B (xs @ h1 @ ?d @ [Opcode cmd] @ [h4] @ pad @ h5 @ h6 @ zs))"
    using store_field [of "?B (xs @ h1 @ ?d @ [h3] @ [h4] @ pad @ h5 @ h6 @ zs)" b "xs @ h1 @ ?d" "[h3]" "[h4] @ pad @ h5 @ h6 @ zs" "[Opcode cmd]" "off + 12"] assms
    by simp
  have 3: "store8 (b, off + 13) (SubOpcode cmd) (?B (xs @ h1 @ ?d @ [Opcode cmd] @ [h4] @ pad @ h5 @ h6 @ zs)) =
      Some (?B (xs @ h1 @ ?d @ [Opcode cmd] @ [SubOpcode cmd] @ pad @ h5 @ h6 @ zs))"
    using store_field [of "?B (xs @ h1 @ ?d @ [Opcode cmd] @ [h4] @ pad @ h5 @ h6 @ zs)" b "xs @ h1 @ ?d @ [Opcode cmd]" "[h4]" "pad @ h5 @ h6 @ zs" "[SubOpcode cmd]" "off + 13"] assms
    by simp
  let ?m = "?d @ [Opcode cmd] @ [SubOpcode cmd] @ pad"
  have 4: "store64 (b, off) 0xDEADBEEF (?B (xs @ h1 @ ?d @ [Opcode cmd] @ [SubOpcode cmd] @ pad @ h5 @ h6 @ zs)) =
      Some (?B (xs @ le64 0xDEADBEEF @ ?m @ h5 @ h6 @ zs))"
    using store_field [of "?B (xs @ h1 @ ?m @ h5 @ h6 @ zs)" b xs h1 "?m @ h5 @ h6 @ zs" "le64 0xDEADBEEF" off] assms by simp
  have 5: "store32 (b, off + 16) (InputPayloadSize cmd) (?B (xs @ le64 0xDEADBEEF @ ?m @ h5 @ h6 @ zs)) =
      Some (?B (xs @ le64 0xDEADBEEF @ ?m @ le32 (InputPayloadSize cmd) @ h6 @ zs))"
    using store_field [of "?B (xs @ le64 0xDEADBEEF @ ?m @ h5 @ h6 @ zs)" b "xs @ le64 0xDEADBEEF @ ?m" h5 "h6 @ zs" "le32 (InputPayloadSize cmd)" "off + 16"] assms
    by simp
  have 6: "store32 (b, off + 20) (LargeInputPayloadSize cmd) (?B (xs @ le64 0xDEADBEEF @ ?m @ le32 (InputPayloadSize cmd) @ h6 @ zs)) =
      Some (?B (xs @ le64 0xDEADBEEF @ ?m @ le32 (InputPayloadSize cmd) @ le32 (LargeInputPayloadSize cmd) @ zs))"
    using store_field [of "?B (xs @ le64 0xDEADBEEF @ ?m @ le32 (InputPayloadSize cmd) @ h6 @ zs)" b "xs @ le64 0xDEADBEEF @ ?m @ le32 (InputPayloadSize cmd)" h6 zs "le32 (LargeInputPayloadSize cmd)" "off + 20"] assms
    by simp
  show ?thesis using 1 2 3 4 5 6 by (simp add: req_bytes_def)
qed

lemma resp_written:
  assumes "blocks s b = Some (xs @ (h1 @ h2 @ h3 @ h4 @ h5 @ [h6] @ pad) @ zs)"
    "length h1 = 8" "length h2 = 8" "length h3 = 4" "length h4 = 4" "length h5 = 4" "length pad = 3" "off = length xs"
  shows "do { s \<leftarrow> store32 (b, off + 16) (DimmID cmd) s; s \<leftarrow> store64 (b, off + 8) prc s;
     s \<leftarrow> store8 (b, off + 28) (Status cmd) s; s \<leftarrow> store64 (b, off) 0x55AA55AA s;
     s \<leftarrow> store32 (b, off + 20) (OutputPayloadSize cmd) s; s \<leftarrow> store32 (b, off + 24) (LargeOutputPayloadSize cmd) s; f s } =
    f (s\<lparr>blocks := (blocks s)(b \<mapsto> xs @ resp_bytes cmd prc pad @ zs)\<rparr>)"
proof -
  let ?B = "\<lambda>X. s\<lparr>blocks := (blocks s)(b \<mapsto> X)\<rparr>"
  let ?d = "le32 (DimmID cmd)" and ?o = "le32 (OutputPayloadSize cmd)" and ?l = "le32 (LargeOutputPayloadSize cmd)"
  let ?t = "[Status cmd] @ pad @ zs"
  have 1: "store32 (b, off + 16) (DimmID cmd) s = Some (?B (xs @ h1 @ h2 @ ?d @ h4 @ h5 @ [h6] @ pad @ zs))"
    using store_field [of s b "xs @ h1 @ h2" h3 "h4 @ h5 @ [h6] @ pad @ zs" ?d "off + 16"] assms by simp
  have 2: "store64 (b, off + 8) prc (?B (xs @ h1 @ h2 @ ?d @ h4 @ h5 @ [h6] @ pad @ zs)) =
      Some (?B (xs @ h1 @ le64 prc @ ?d @ h4 @ h5 @ [h6] @ pad @ zs))"
    using store_field [of "?B (xs @ h1 @ h2 @ ?d @ h4 @ h5 @ [h6] @ pad @ zs)" b "xs @ h1" h2 "?d @ h4 @ h5 @ [h6] @ pad @ zs" "le64 prc" "off + 8"] assms
    by simp
  have 3: "store8 (b, off + 28) (Status cmd) (?B (xs @ h1 @ le64 prc @ ?d @ h4 @ h5 @ [h6] @ pad @ zs)) =
      Some (?B (xs @ h1 @ le64 prc @ ?d @ h4 @ h5 @ ?t))"
    using store_field [of "?B (xs @ h1 @ le64 prc @ ?d @ h4 @ h5 @ [h6] @ pad @ zs)" b "xs @ h1 @ le64 prc @ ?d @ h4 @ h5" "[h6]" "pad @ zs" "[Status cmd]" "off + 28"] assms
    by simp
  have 4: "store64 (b, off) 0x55AA55AA (?B (xs @ h1 @ le64 prc @ ?d @ h4 @ h5 @ ?t)) =
      Some (?B (xs @ le64 0x55AA55AA @ le64 prc @ ?d @ h4 @ h5 @ ?t))"
    using store_field [of "?B (xs @ h1 @ le64 prc @ ?d @ h4 @ h5 @ ?t)" b xs h1 "le64 prc @ ?d @ h4 @ h5 @ ?t" "le64 0x55AA55AA" off] assms
    by simp
  have 5: "store32 (b, off + 20) (OutputPayloadSize cmd) (?B (xs @ le64 0x55AA55AA @ le64 prc @ ?d @ h4 @ h5 @ ?t)) =
      Some (?B (xs @ le64 0x55AA55AA @ le64 prc @ ?d @ ?o @ h5 @ ?t))"
    using store_field [of "?B (xs @ le64 0x55AA55AA @ le64 prc @ ?d @ h4 @ h5 @ ?t)" b "xs @ le64 0x55AA55AA @ le64 prc @ ?d" h4 "h5 @ ?t" ?o "off + 20"] assms
    by simp
  have 6: "store32 (b, off + 24) (LargeOutputPayloadSize cmd) (?B (xs @ le64 0x55AA55AA @ le64 prc @ ?d @ ?o @ h5 @ ?t)) =
      Some (?B (xs @ le64 0x55AA55AA @ le64 prc @ ?d @ ?o @ ?l @ ?t))"
    using store_field [of "?B (xs @ le64 0x55AA55AA @ le64 prc @ ?d @ ?o @ h5 @ ?t)" b "xs @ le64 0x55AA55AA @ le64 prc @ ?d @ ?o" h5 ?t ?l "off + 24"] assms
    by simp
  show ?thesis using 1 2 3 4 5 6 by (simp add: resp_bytes_def)
qed

lemma payload_written:
  assumes "blocks s b = Some (xs @ old @ zs)" "length old = unat n" "off = length xs" "unat n \<le> length data"
  shows "store_payload (b, off) data n s = Some (s\<lparr>blocks := (blocks s)(b \<mapsto> xs @ take (unat n) data @ zs)\<rparr>)"
proof (cases "n = 0")
  case True
  with assms show ?thesis by (simp add: store_payload_def fun_upd_idem)
next
  case False
  then show ?thesis
    using store_field [OF assms(1), of "take (unat n) data" off] assms by (simp add: store_payload_def array_read_def)
qed

text \<open>A byte list cut into fields of given lengths.\<close>

lemma cut_fields:
  "length xs = sum_list ns \<Longrightarrow> \<exists>fs. concat fs = xs \<and> map length fs = ns"
proof (induction ns arbitrary: xs)
  case Nil
  then show ?case by (auto intro: exI [of _ "[]"])
next
  case (Cons n ns)
  from Cons.prems Cons.IH [of "drop n xs"] obtain fs where "concat fs = drop n xs" "map length fs = ns" by auto
  with Cons.prems show ?case by (intro exI [of _ "take n xs # fs"]) simp
qed

lemma SetPassThru_fill_eq:
  assumes blk: "blocks s b = Some (xs @ d @ ys)" and ok: "cmd_ok cmd" and d: "length d = cmd_size cmd" and off: "off = length xs"
  shows "\<exists>pad pad'. length pad = 2 \<and> length pad' = 3 \<and>
     SetPassThru_fill cmd prc (b, off) s = Some (s\<lparr>blocks := (blocks s)(b \<mapsto> xs @ pass_bytes cmd prc pad pad' @ ys)\<rparr>)"
proof -
  define i l o' p where "i = unat (InputPayloadSize cmd)" "l = unat (LargeInputPayloadSize cmd)"
    "o' = unat (OutputPayloadSize cmd)" "p = unat (LargeOutputPayloadSize cmd)"
  note n = this
  have "\<exists>fs. concat fs = d \<and> map length fs = [8, 4, 1, 1, 2, 4, 4, i, l, 8, 8, 4, 4, 4, 1, 3, o', p]"
    by (rule cut_fields) (simp add: d cmd_size_def n)
  then obtain h1 h2 h3 h4 pad h5 h6 di dl r1 r2 r3 r4 r5 r6 pad' dO dP where
      f: "d = (h1 @ h2 @ h3 @ h4 @ pad @ h5 @ h6) @ di @ dl @ (r1 @ r2 @ r3 @ r4 @ r5 @ r6 @ pad') @ dO @ dP"
      "length h1 = 8" "length h2 = 4" "length h3 = 1" "length h4 = 1" "length pad = 2" "length h5 = 4" "length h6 = 4"
      "length di = i" "length dl = l" "length r1 = 8" "length r2 = 8" "length r3 = 4" "length r4 = 4" "length r5 = 4"
      "length r6 = 1" "length pad' = 3" "length dO = o'" "length dP = p"
    by auto
  obtain a1 a2 a3 where one: "h3 = [a1]" "h4 = [a2]" "r6 = [a3]"
    using f(4,5,16) by (auto simp: length_Suc_conv)
  note lens = f(2,3,6-15,17-19)
  define X where "X = xs @ req_bytes cmd pad"
  define I where "I = take i (InputPayload cmd)"
  define L where "L = take l (LargeInputPayload cmd)"
  define O' where "O' = take o' (OutPayload cmd)"
  have li: "length X = off + 24" "length I = i" "length L = l" "length O' = o'"
    using ok lens off by (simp_all add: X_def I_def L_def O'_def n cmd_ok_def)
  let ?B = "\<lambda>Z. s\<lparr>blocks := (blocks s)(b \<mapsto> Z)\<rparr>"
  let ?r = "(r1 @ r2 @ r3 @ r4 @ r5 @ [a3] @ pad') @ dO @ dP @ ys"
  have 1: "store_payload (b, off + 24) (InputPayload cmd) (InputPayloadSize cmd) (?B (X @ di @ dl @ ?r)) = Some (?B (X @ I @ dl @ ?r))"
    using payload_written [of "?B (X @ di @ dl @ ?r)" b X di "dl @ ?r" "InputPayloadSize cmd" "off + 24" "InputPayload cmd"] ok lens li
    by (simp add: I_def n cmd_ok_def)
  have 2: "store_payload (b, off + 24 + i) (LargeInputPayload cmd) (LargeInputPayloadSize cmd) (?B (X @ I @ dl @ ?r)) = Some (?B (X @ I @ L @ ?r))"
    using payload_written [of "?B (X @ I @ dl @ ?r)" b "X @ I" dl ?r "LargeInputPayloadSize cmd" "off + 24 + i" "LargeInputPayload cmd"] ok lens li
    by (simp add: L_def n cmd_ok_def)
  let ?X = "X @ I @ L @ resp_bytes cmd prc pad'"
  have 3: "store_payload (b, off + 24 + i + l + 32) (OutPayload cmd) (OutputPayloadSize cmd) (?B (?X @ dO @ dP @ ys)) = Some (?B (?X @ O' @ dP @ ys))"
    using payload_written [of "?B (?X @ dO @ dP @ ys)" b ?X dO "dP @ ys" "OutputPayloadSize cmd" "off + 24 + i + l + 32" "OutPayload cmd"] ok lens li
    by (simp add: O'_def n cmd_ok_def)
  have 4: "store_payload (b, off + 24 + i + l + 32 + o') (LargeOutputPayload cmd) (LargeOutputPayloadSize cmd) (?B (?X @ O' @ dP @ ys)) =
      Some (?B (?X @ O' @ take p (LargeOutputPayload cmd) @ ys))"
    using payload_written [of "?B (?X @ O' @ dP @ ys)" b "?X @ O'" dP ys "LargeOutputPayloadSize cmd" "off + 24 + i + l + 32 + o'" "LargeOutputPayload cmd"] ok lens li
    by (simp add: n cmd_ok_def)
  have blk': "blocks s b = Some (xs @ (h1 @ h2 @ [a1] @ [a2] @ pad @ h5 @ h6) @ di @ dl @ ?r)"
    using blk by (simp add: f(1) one)
  have resp: "blocks (?B (X @ I @ L @ ?r)) b = Some ((X @ I @ L) @ (r1 @ r2 @ r3 @ r4 @ r5 @ [a3] @ pad') @ dO @ dP @ ys)" by simp
  have offr: "off + 24 + i + l = length (X @ I @ L)" using li by simp
  have "SetPassThru_fill cmd prc (b, off) s = Some (?B (?X @ O' @ take p (LargeOutputPayload cmd) @ ys))"
    unfolding SetPassThru_fill_def Let_def ptr_add_simps(5) n [symmetric] req_written [OF blk' lens(1-5) off]
    unfolding append_assoc [of xs "req_bytes cmd pad", symmetric] X_def [symmetric] 1 2 bind.bind_lunit
      resp_written [OF resp lens(8-13) offr]
    using 3 4 by simp
  then show ?thesis
    using lens by (intro exI [of _ pad] exI [of _ pad']) (simp add: pass_bytes_def X_def I_def L_def O'_def n)
qed

section \<open>The answer of a recorded command\<close>

text \<open>The request with the recorded answer in it; payload bytes behind the answer's stay as they were.\<close>

definition answered :: "FW_CMD \<Rightarrow> FW_CMD \<Rightarrow> FW_CMD" where
  "answered cmd req = req\<lparr>Status := Status cmd, OutputPayloadSize := OutputPayloadSize cmd,
     LargeOutputPayloadSize := LargeOutputPayloadSize cmd,
     OutPayload := take (unat (OutputPayloadSize cmd)) (OutPayload cmd) @ drop (unat (OutputPayloadSize cmd)) (OutPayload req),
     LargeOutputPayload := take (unat (LargeOutputPayloadSize cmd)) (LargeOutputPayload cmd)
       @ drop (unat (LargeOutputPayloadSize cmd)) (LargeOutputPayload req)\<rparr>"

text \<open>A request that asks for the recorded command, with arrays that hold its answer.\<close>

definition asks :: "FW_CMD \<Rightarrow> FW_CMD \<Rightarrow> bool" where
  "asks req cmd \<longleftrightarrow> Opcode req = Opcode cmd \<and> SubOpcode req = SubOpcode cmd \<and>
     unat (OutputPayloadSize cmd) \<le> length (OutPayload req) \<and>
     unat (LargeOutputPayloadSize cmd) \<le> length (LargeOutputPayload req)"

lemma of_nat_less32: "a < 2 ^ 32 \<Longrightarrow> b < 2 ^ 32 \<Longrightarrow> (of_nat a < (of_nat b :: u32)) = (a < b)"
  by (simp only: word_less_nat_alt of_nat_unat_less)

lemma load8_at: "blocks s b = Some (xs @ [w] @ zs) \<Longrightarrow> off = length xs \<Longrightarrow> load8 (b, off) s = Some w"
  using load_at [of s b xs "[w]" zs off 1] by (simp add: load8_def)

lemma load64_at: "blocks s b = Some (xs @ le64 w @ zs) \<Longrightarrow> off = length xs \<Longrightarrow> load64 (b, off) s = Some w"
  using load_at [of s b xs "le64 w" zs off 8] by (simp add: load64_def)

lemma load_payload_at:
  assumes "blocks s b = Some (xs @ d @ zs)" "length d = unat n" "off = length xs" "unat n \<le> length ys"
  shows "load_payload (b, off) n ys s = Some (d @ drop (unat n) ys)"
  using load_at [OF assms(1,3), of "unat n"] assms by (auto simp: load_payload_def array_write_def)

lemma req_loads:
  assumes blk: "blocks s b = Some (req_bytes cmd pad @ zs)" and pad: "length pad = 2"
  shows "load8 (b, 12) s = Some (Opcode cmd)" "load8 (b, 13) s = Some (SubOpcode cmd)"
    "load32 (b, 16) s = Some (InputPayloadSize cmd)" "load32 (b, 20) s = Some (LargeInputPayloadSize cmd)"
proof -
  note B = blk [unfolded req_bytes_def append_assoc]
  let ?h = "le64 0xDEADBEEF @ le32 (DimmID cmd)"
  let ?m = "?h @ [Opcode cmd] @ [SubOpcode cmd] @ pad"
  show "load8 (b, 12) s = Some (Opcode cmd)"
    using load8_at [of s b ?h "Opcode cmd"] B by simp
  show "load8 (b, 13) s = Some (SubOpcode cmd)"
    using load8_at [of s b "?h @ [Opcode cmd]" "SubOpcode cmd"] B by simp
  show "load32 (b, 16) s = Some (InputPayloadSize cmd)"
    using load32_at [of s b ?m "InputPayloadSize cmd"] B pad by simp
  show "load32 (b, 20) s = Some (LargeInputPayloadSize cmd)"
    using load32_at [of s b "?m @ le32 (InputPayloadSize cmd)" "LargeInputPayloadSize cmd"] B pad by simp
qed

lemma resp_loads:
  assumes blk: "blocks s b = Some (xs @ resp_bytes cmd prc pad @ zs)" and off: "off = length xs"
  shows "load8 (b, off + 28) s = Some (Status cmd)" "load32 (b, off + 20) s = Some (OutputPayloadSize cmd)"
    "load32 (b, off + 24) s = Some (LargeOutputPayloadSize cmd)" "load64 (b, off + 8) s = Some prc"
proof -
  note B = blk [unfolded resp_bytes_def append_assoc]
  let ?h = "xs @ le64 0x55AA55AA"
  let ?m = "?h @ le64 prc @ le32 (DimmID cmd)"
  let ?k = "?m @ le32 (OutputPayloadSize cmd)"
  show "load64 (b, off + 8) s = Some prc" using load64_at [of s b ?h prc] B off by simp
  show "load32 (b, off + 20) s = Some (OutputPayloadSize cmd)"
    using load32_at [of s b ?m "OutputPayloadSize cmd"] B off by simp
  show "load32 (b, off + 24) s = Some (LargeOutputPayloadSize cmd)"
    using load32_at [of s b ?k "LargeOutputPayloadSize cmd"] B off by simp
  show "load8 (b, off + 28) s = Some (Status cmd)"
    using load8_at [of s b "?k @ le32 (LargeOutputPayloadSize cmd)" "Status cmd"] B off by simp
qed

lemma GetPassThru_body_eq:
  assumes blk: "blocks s b = Some (pass_bytes cmd prc pad pad')" and pad: "length pad = 2" "length pad' = 3"
    and ok: "cmd_ok cmd" and lim: "cmd_size cmd < 2 ^ 32" and ask: "asks req cmd"
  shows "GetPassThru_body (b, 0) (of_nat (cmd_size cmd)) req prc' s = Some (EFI_SUCCESS, answered cmd req, prc)"
proof -
  define i l o' p where "i = unat (InputPayloadSize cmd)" "l = unat (LargeInputPayloadSize cmd)"
    "o' = unat (OutputPayloadSize cmd)" "p = unat (LargeOutputPayloadSize cmd)"
  note n = this
  define I where "I = take i (InputPayload cmd)"
  define L where "L = take l (LargeInputPayload cmd)"
  define O' where "O' = take o' (OutPayload cmd)"
  define P where "P = take p (LargeOutputPayload cmd)"
  have li: "length I = i" "length L = l" "length O' = o'" "length P = p"
    using ok by (simp_all add: I_def L_def O'_def P_def n cmd_ok_def)
  have B: "blocks s b = Some (req_bytes cmd pad @ I @ L @ resp_bytes cmd prc pad' @ O' @ P)"
    using blk by (simp add: pass_bytes_def I_def L_def O'_def P_def n)
  have sz: "cmd_size cmd = 56 + i + l + o' + p" by (simp add: cmd_size_def n)
  have pos: "(of_nat sizeof_Req + InputPayloadSize cmd :: u32) = of_nat (24 + i)"
      "(of_nat (24 + i) + LargeInputPayloadSize cmd :: u32) = of_nat (24 + i + l)"
      "(of_nat (24 + i + l) + of_nat sizeof_Resp :: u32) = of_nat (56 + i + l)"
      "(of_nat (56 + i + l) + OutputPayloadSize cmd :: u32) = of_nat (56 + i + l + o')"
    by (simp_all add: n)
  have less: "\<not> (of_nat (cmd_size cmd) :: u32) < of_nat k" "unat (of_nat k :: u32) = k" if "k \<le> cmd_size cmd" for k
    using that lim of_nat_less32 [of "cmd_size cmd" k] by (auto intro: of_nat_unat_less)
  note rq = req_loads [OF B pad(1)]
  have R: "blocks s b = Some ((req_bytes cmd pad @ I @ L) @ resp_bytes cmd prc pad' @ O' @ P)" using B by simp
  have loff: "24 + i + l = length (req_bytes cmd pad @ I @ L)" using li pad by simp
  note rs = resp_loads [OF R loff]
  have o1: "load_payload (b, 56 + i + l) (OutputPayloadSize cmd) (OutPayload req) s = Some (O' @ drop o' (OutPayload req))"
    using load_payload_at [of s b "req_bytes cmd pad @ I @ L @ resp_bytes cmd prc pad'" O' P "OutputPayloadSize cmd" "56 + i + l" "OutPayload req"] B li pad ask
    by (simp add: n asks_def)
  have o2: "load_payload (b, 56 + i + l + o') (LargeOutputPayloadSize cmd) (LargeOutputPayload req) s = Some (P @ drop p (LargeOutputPayload req))"
    using load_payload_at [of s b "req_bytes cmd pad @ I @ L @ resp_bytes cmd prc pad' @ O'" P "[]" "LargeOutputPayloadSize cmd" "56 + i + l + o'" "LargeOutputPayload req"] B li pad ask
    by (simp add: n asks_def)
  have u: "unat (of_nat (24 + i + l) :: u32) = 24 + i + l" "unat (of_nat (56 + i + l) :: u32) = 56 + i + l"
      "unat (of_nat (56 + i + l + o') :: u32) = 56 + i + l + o'"
    by (rule less(2), simp add: sz)+
  have c: "(of_nat (cmd_size cmd) < (of_nat (24 + i) :: u32)) = False" "(of_nat (cmd_size cmd) < (of_nat (24 + i + l) :: u32)) = False"
      "(of_nat (cmd_size cmd) < (of_nat (56 + i + l) :: u32)) = False"
      "(of_nat (cmd_size cmd) < (of_nat (56 + i + l + o') :: u32)) = False" "(of_nat (cmd_size cmd) < (of_nat sizeof_Req :: u32)) = False"
    by (rule iffD2 [OF eq_False less(1)], simp add: sz)+
  have resp: "GetPassThru_resp (b, 0) (of_nat (cmd_size cmd)) (of_nat (24 + i + l)) req s = Some (EFI_SUCCESS, answered cmd req, prc)"
    unfolding GetPassThru_resp_def Let_def pos u ptr_add_simps(5) add_0 rs bind.bind_lunit c if_False FW_CMD.select_convs FW_CMD.update_convs o1 o2
    using o1 o2 by (simp add: answered_def O'_def P_def n c u pos)
  show ?thesis
    unfolding GetPassThru_body_def ptr_add_simps(5) add_0 rq bind.bind_lunit pos c
    using resp ask by (simp add: asks_def)
qed

section \<open>Recording commands\<close>

text \<open>
  Filling in an item whose place was reserved: when the bytes at the returned place are replaced by as
  many others, the session is the one that would have recorded those.
\<close>

lemma session_rep_fill:
  assumes rep: "session_rep s (vs[i := w])" and i: "i < length vs"
    and same: "vsig w' = vsig w" "length (vitems w') = length (vitems w)" "vpos w' = vpos w" "length (part_bytes w') = length (part_bytes w)"
  shows "session_rep (s\<lparr>blocks := (blocks s)(fst (PartitionData (parts s ! i)) \<mapsto> part_bytes w')\<rparr>) (vs[i := w'])"
proof -
  let ?b = "fst (PartitionData (parts s ! i))"
  let ?s = "s\<lparr>blocks := (blocks s)(?b \<mapsto> part_bytes w')\<rparr>"
  have i': "i < length (vs[i := w])" using i by simp
  have pr: "part_rep s (parts s ! i) w" using session_rep_part [OF rep i'] i by simp
  have "session_rep ?s ((vs[i := w])[i := w'])"
  proof (rule session_rep_update [OF rep i'])
    show "part_rep ?s (parts s ! i) w'" using pr same by (auto simp: part_rep_def)
    show "pool_ok ?s" using pr by (intro pool_ok_write [OF session_rep_pool(1) [OF rep], of ?b]) (simp_all add: part_rep_def)
  qed (use same i in simp_all)
  then show ?thesis by simp
qed

definition item_head :: "nat \<Rightarrow> nat \<Rightarrow> u8 list" where
  "item_head k n = le32 PBR_LOGICAL_DATA_SIG @ le32 (of_nat n) @ le32 (of_nat k)"

lemma length_item_head [simp]: "length (item_head k n) = sizeof_item"
  by (simp add: item_head_def)

lemma part_bytes_fill:
  "part_bytes (view_append d v) =
     (enc_items 0 (vitems v) @ item_head (length (vitems v)) (length d)) @ d @ vslack (view_append d v)"
  "part_bytes (view_new sig b d) = item_head 0 (length d) @ d @ vslack (view_new sig b d)"
  by (simp_all add: part_bytes_def enc_items_snoc enc_item_def item_head_def)

lemma view_same:
  assumes "length d = length d'"
  shows "vslack (view_append d v) = vslack (view_append d' v)" "vpos (view_append d v) = vpos (view_append d' v)"
    "vslack (view_new sig b d) = vslack (view_new sig b d')" "vpos (view_new sig b d) = vpos (view_new sig b d')"
  using assms by (simp_all add: view_append_def view_new_def Let_def)

text \<open>Reserving the place of an item, without data of the caller.\<close>

lemma PbrSetData_reserve:
  assumes rep: "session_rep s vs" and rc: "recording vs" and sig: "sig \<noteq> PBR_INVALID_SIG"
    and slot: "sig \<in> set (map vsig vs) \<or> length vs < MAX_PARTITIONS"
    and lim: "PARTITION_GROW_SZ_MULTIPLIER * (total_end vs + (unat Size + sizeof_item)) < 2 ^ 32"
    and alloc: "False \<notin> set (alloc_ok s)"
  shows "\<exists>b xs d ys k s'. PbrSetData sig NULL Size False s = Some (EFI_SUCCESS, (b, length xs), k, s') \<and>
     length d = unat Size \<and> blocks s' b = Some (xs @ d @ ys) \<and> b \<in> set (owned s' (length (view_record sig d vs))) \<and>
     kept (length vs) s (length (view_record sig d vs)) s' \<and>
     (\<forall>d'. length d' = length d \<longrightarrow> length (view_record sig d' vs) = length (view_record sig d vs) \<and>
        session_rep (s'\<lparr>blocks := (blocks s')(b \<mapsto> xs @ d' @ ys)\<rparr>) (view_record sig d' vs)) \<and>
     k = of_nat (length (items_of sig vs))"
proof (cases "sig \<in> set (map vsig vs)")
  case True
  then obtain i where i: "i < length vs" "sig = vsig (vs ! i)" by (auto simp: in_set_conv_nth)
  have dist: "distinct (map vsig vs)" using rep by (simp add: session_rep_def)
  define v where "v = vs ! i"
  have v: "vpos v = vend v" "length (part_bytes v) \<le> PARTITION_GROW_SZ_MULTIPLIER * vend v"
    using rc i(1) by (simp_all add: recording_def at_end_def v_def)
  define d where "d = free_bytes (unat Size) v"
  have ld: "length d = unat Size" using view_grow_room [of "unat Size" v] by (simp add: d_def free_bytes_def)
  have room: "length (part_bytes v) + (unat Size + sizeof_item) * PARTITION_GROW_SZ_MULTIPLIER < 2 ^ 32"
    using lim total_end_nth [OF i(1)] v(2) by (simp add: v_def)
  have src: "source s (length vs) NULL Size (free_bytes (unat Size) v) d" by (simp add: source_def d_def)
  obtain s' where s': "PbrSetData sig NULL Size False s = Some (EFI_SUCCESS, (fst (PartitionData (parts s' ! i)), vend v + sizeof_item), of_nat (length (vitems v)), s')"
      "session_rep s' (vs[i := view_append d v])" "kept (length vs) s (length vs) s'"
    using PbrSetData_append [OF rep i(1) v(1) [unfolded v_def] room [unfolded v_def] alloc src [unfolded v_def]] i(2) by (auto simp: v_def)
  define b where "b = fst (PartitionData (parts s' ! i))"
  define xs where "xs = enc_items 0 (vitems v) @ item_head (length (vitems v)) (length d)"
  define ys where "ys = vslack (view_append d v)"
  have pb: "part_bytes (view_append d' v) = xs @ d' @ ys" if "length d' = length d" for d'
    using part_bytes_fill(1) [of d' v] that view_same(1) [OF that, of v] by (simp add: xs_def ys_def)
  have vr: "view_record sig d' vs = vs[i := view_append d' v]" for d' using view_record_at [OF i(1) dist] i(2) by (simp add: v_def)
  have il: "i < length (vs[i := view_append d v])" using i(1) by simp
  have "blocks s' b = Some (xs @ d @ ys)"
    using session_rep_part [OF s'(2) il] i(1) pb [of d] by (simp add: part_rep_def b_def)
  moreover have "b \<in> set (owned s' (length vs))"
    using owned_mem(2) [OF i(1), of s'] s'(2) by (simp add: session_rep_def b_def)
  moreover have "session_rep (s'\<lparr>blocks := (blocks s')(b \<mapsto> xs @ d' @ ys)\<rparr>) (vs[i := view_append d' v])" if "length d' = length d" for d'
    using session_rep_fill [OF s'(2) i(1), of "view_append d' v"] pb [OF that] pb [of d] that view_same(2) [OF that, of v]
    by (simp add: b_def)
  moreover have "length xs = vend v + sizeof_item" by (simp add: xs_def vend_def)
  moreover have "items_of sig vs = vitems v" using items_of_at [OF i(1) dist] i(2) by (simp add: v_def)
  ultimately show ?thesis using s'(1,3) ld vr
    by (intro exI [of _ b] exI [of _ xs] exI [of _ d] exI [of _ ys] exI [of _ "of_nat (length (vitems v))"] exI [of _ s']) (simp add: b_def)
next
  case False
  then have free: "length vs < MAX_PARTITIONS" using slot by simp
  define d where "d = replicate (unat Size) (0 :: u8)"
  have ld: "length d = unat Size" by (simp add: d_def)
  have room: "(unat Size + sizeof_item) * PARTITION_GROW_SZ_MULTIPLIER < 2 ^ 32" using lim by simp
  have src: "source s (length vs) NULL Size (replicate (unat Size) 0) d" by (simp add: source_def d_def)
  obtain s' where s': "PbrSetData sig NULL Size False s = Some (EFI_SUCCESS, (fst (PartitionData (parts s' ! length vs)), sizeof_item), 0, s')"
      "session_rep s' (vs @ [view_new sig False d])" "kept (length vs) s (Suc (length vs)) s'"
    using PbrSetData_new [OF rep free sig False room alloc src, of False] by auto
  define b where "b = fst (PartitionData (parts s' ! length vs))"
  define xs where "xs = item_head 0 (length d)"
  define ys where "ys = vslack (view_new sig False d)"
  have pb: "part_bytes (view_new sig False d') = xs @ d' @ ys" if "length d' = length d" for d'
    using part_bytes_fill(2) [of sig False d'] that view_same(3) [OF that, of sig False] by (simp add: xs_def ys_def)
  have vr: "view_record sig d' vs = vs @ [view_new sig False d']" for d' by (rule view_record_new [OF False])
  have il: "length vs < length (vs @ [view_new sig False d])" by simp
  have "blocks s' b = Some (xs @ d @ ys)"
    using session_rep_part [OF s'(2) il] pb [of d] by (simp add: part_rep_def b_def)
  moreover have "b \<in> set (owned s' (Suc (length vs)))"
    using owned_mem(2) [of "length vs" "Suc (length vs)" s'] s'(2) by (simp add: session_rep_def b_def)
  moreover have "session_rep (s'\<lparr>blocks := (blocks s')(b \<mapsto> xs @ d' @ ys)\<rparr>) (vs @ [view_new sig False d'])" if "length d' = length d" for d'
    using session_rep_fill [of s' "vs @ [view_new sig False d]" "length vs" "view_new sig False d" "view_new sig False d'"] s'(2)
      pb [OF that] pb [of d] that view_same(4) [OF that, of sig False]
    by (simp add: b_def)
  moreover have "length xs = sizeof_item" by (simp add: xs_def)
  moreover have "items_of sig vs = []" by (rule items_of_none [OF False])
  ultimately show ?thesis using s'(1,3) ld vr
    by (intro exI [of _ b] exI [of _ xs] exI [of _ d] exI [of _ ys] exI [of _ 0] exI [of _ s']) (simp add: b_def)
qed

text \<open>An item that is the record of a command and of the code its pass-through returned.\<close>

definition records :: "u8 list \<Rightarrow> FW_CMD \<times> u64 \<Rightarrow> bool" where
  "records d r \<longleftrightarrow> (\<exists>pad pad'. length pad = 2 \<and> length pad' = 3 \<and> d = pass_bytes (fst r) (snd r) pad pad')"

lemma records_length: "records d (cmd, prc) \<Longrightarrow> cmd_ok cmd \<Longrightarrow> length d = cmd_size cmd"
  by (auto simp: records_def pass_bytes_def cmd_ok_def cmd_size_def)

lemma PbrSetPassThruRecord_rep:
  assumes rep: "session_rep s vs" and rc: "recording vs" and mode: "PbrMode (gPbrContext s) = PBR_RECORD_MODE"
    and slot: "PBR_PASS_THRU_SIG \<in> set (map vsig vs) \<or> length vs < MAX_PARTITIONS"
    and lim: "PARTITION_GROW_SZ_MULTIPLIER * (total_end vs + (cmd_size cmd + sizeof_item)) < 2 ^ 32"
    and alloc: "False \<notin> set (alloc_ok s)" and ok: "cmd_ok cmd"
  shows "\<exists>d s'. PbrSetPassThruRecord (Some cmd) prc s = Some (EFI_SUCCESS, s') \<and> records d (cmd, prc) \<and>
     session_rep s' (view_record PBR_PASS_THRU_SIG d vs) \<and> kept (length vs) s (length (view_record PBR_PASS_THRU_SIG d vs)) s' \<and> pbr_env s' = pbr_env s"
proof -
  have sz: "unat (PassThru_size cmd) = cmd_size cmd" using lim by (intro PassThru_size_eq) simp
  have sig: "(PBR_PASS_THRU_SIG :: u32) \<noteq> PBR_INVALID_SIG" by simp
  obtain b xs d0 ys k s1 where s1: "PbrSetData PBR_PASS_THRU_SIG NULL (PassThru_size cmd) False s = Some (EFI_SUCCESS, (b, length xs), k, s1)"
      "length d0 = cmd_size cmd" "blocks s1 b = Some (xs @ d0 @ ys)" "b \<in> set (owned s1 (length (view_record PBR_PASS_THRU_SIG d0 vs)))"
      "kept (length vs) s (length (view_record PBR_PASS_THRU_SIG d0 vs)) s1"
      "\<forall>d'. length d' = length d0 \<longrightarrow> length (view_record PBR_PASS_THRU_SIG d' vs) = length (view_record PBR_PASS_THRU_SIG d0 vs) \<and>
         session_rep (s1\<lparr>blocks := (blocks s1)(b \<mapsto> xs @ d' @ ys)\<rparr>) (view_record PBR_PASS_THRU_SIG d' vs)"
    using PbrSetData_reserve [OF rep rc sig slot _ alloc, of "PassThru_size cmd", unfolded sz, OF lim] by blast
  obtain pad pad' where pads: "length pad = 2" "length pad' = 3"
      "SetPassThru_fill cmd prc (b, length xs) s1 = Some (s1\<lparr>blocks := (blocks s1)(b \<mapsto> xs @ pass_bytes cmd prc pad pad' @ ys)\<rparr>)"
    using SetPassThru_fill_eq [OF s1(3) ok s1(2) refl, of prc] by blast
  define d where "d = pass_bytes cmd prc pad pad'"
  define s2 where "s2 = s1\<lparr>blocks := (blocks s1)(b \<mapsto> xs @ d @ ys)\<rparr>"
  have r: "records d (cmd, prc)" using pads by (auto simp: records_def d_def)
  then have ld: "length d = length d0" using records_length [OF r ok] s1(2) by simp
  note v = s1(6) [rule_format, OF ld]
  have "kept (length vs) s (length (view_record PBR_PASS_THRU_SIG d vs)) s2"
  proof (rule kept_trans [OF s1(5)], rule keptI)
    show "blocks s2 b' = blocks s1 b'" if "foreign s1 (length (view_record PBR_PASS_THRU_SIG d0 vs)) b'" for b'
      using that s1(4) by (auto simp: foreign_def s2_def)
    show "set (owned s2 (length (view_record PBR_PASS_THRU_SIG d vs))) \<subseteq> set (owned s1 (length (view_record PBR_PASS_THRU_SIG d0 vs))) \<union> {}"
      using v by (simp add: owned_def s2_def)
  qed (simp_all add: s2_def)
  moreover have "PbrSetPassThruRecord (Some cmd) prc s = Some (EFI_SUCCESS, s2)"
    using mode s1(1) pads(3) by (simp add: PbrSetPassThruRecord_def s2_def d_def)
  moreover have "pbr_env s2 = pbr_env s" using PbrSetData_env [OF s1(1)] by (simp add: s2_def)
  ultimately show ?thesis using r v by (auto simp: s2_def)
qed

fun record_cmds :: "(FW_CMD \<times> u64) list \<Rightarrow> pbr_sys \<Rightarrow> pbr_sys option" where
  "record_cmds [] s = Some s"
| "record_cmds ((cmd, prc) # rs) s = do {
     (rc, s) \<leftarrow> PbrSetPassThruRecord (Some cmd) prc s;
     (if rc \<noteq> EFI_SUCCESS then None else record_cmds rs s) }"

definition cmds_cost :: "(FW_CMD \<times> u64) list \<Rightarrow> nat" where
  "cmds_cost rs = sum_list (map (\<lambda>r. cmd_size (fst r) + sizeof_item) rs)"

text \<open>The views of a session that holds nothing but recorded commands.\<close>

definition cmd_views :: "u8 list list \<Rightarrow> part_view list" where
  "cmd_views ds = recorded (map (Pair PBR_PASS_THRU_SIG) ds) []"

lemma cmd_views_simps:
  "cmd_views (ds @ [d]) = view_record PBR_PASS_THRU_SIG d (cmd_views ds)" "cmd_views [] = []"
  "total_end (cmd_views ds) = sum_list (map (\<lambda>d. length d + sizeof_item) ds)" "recording (cmd_views ds)"
  "items_of PBR_PASS_THRU_SIG (cmd_views ds) = ds"
  using total_end_recorded [of "map (Pair PBR_PASS_THRU_SIG) ds" "[]"] recording_recorded [of "[]" "map (Pair PBR_PASS_THRU_SIG) ds"]
    items_of_recorded [of PBR_PASS_THRU_SIG "map (Pair PBR_PASS_THRU_SIG) ds" "[]"]
  by (auto simp: cmd_views_def total_end_def cost_def comp_def recording_def logged_def) (auto simp: recorded_def)

lemma cmd_views_sigs: "ds \<noteq> [] \<Longrightarrow> set (map vsig (cmd_views ds)) = {PBR_PASS_THRU_SIG}"
  using sigs_recorded [of "map (Pair PBR_PASS_THRU_SIG) ds" "[]"] by (simp add: cmd_views_def image_constant_conv)

lemma record_cmds_rep:
  assumes "session_rep s (cmd_views ds)" "PbrMode (gPbrContext s) = PBR_RECORD_MODE" "\<forall>r \<in> set rs. cmd_ok (fst r)"
    "PARTITION_GROW_SZ_MULTIPLIER * (total_end (cmd_views ds) + cmds_cost rs) < 2 ^ 32" "False \<notin> set (alloc_ok s)"
  shows "\<exists>es s'. record_cmds rs s = Some s' \<and> list_all2 records es rs \<and> session_rep s' (cmd_views (ds @ es)) \<and>
     set (alloc_ok s') \<subseteq> set (alloc_ok s) \<and> total_end (cmd_views (ds @ es)) = total_end (cmd_views ds) + cmds_cost rs \<and>
     pbr_env s' = pbr_env s"
  using assms
proof (induction rs arbitrary: ds s)
  case Nil
  then show ?case by (simp add: cmds_cost_def)
next
  case (Cons r rs)
  obtain cmd prc where r: "r = (cmd, prc)" by (cases r)
  have ok: "cmd_ok cmd" using Cons.prems(3) by (simp add: r)
  have lim: "PARTITION_GROW_SZ_MULTIPLIER * (total_end (cmd_views ds) + (cmd_size cmd + sizeof_item)) < 2 ^ 32"
    using Cons.prems(4) by (simp add: cmds_cost_def r)
  have slot: "PBR_PASS_THRU_SIG \<in> set (map vsig (cmd_views ds)) \<or> length (cmd_views ds) < MAX_PARTITIONS"
    using cmd_views_sigs [of ds] by (cases "ds = []") (simp_all add: cmd_views_simps(2) MAX_PARTITIONS_def)
  obtain d s1 where s1: "PbrSetPassThruRecord (Some cmd) prc s = Some (EFI_SUCCESS, s1)" "records d (cmd, prc)"
      "session_rep s1 (cmd_views (ds @ [d]))" "kept (length (cmd_views ds)) s (length (cmd_views (ds @ [d]))) s1" "pbr_env s1 = pbr_env s"
    using PbrSetPassThruRecord_rep [OF Cons.prems(1) cmd_views_simps(4) Cons.prems(2) slot lim Cons.prems(5) ok, of prc]
    by (auto simp: cmd_views_simps(1))
  have te: "total_end (cmd_views (ds @ [d])) = total_end (cmd_views ds) + (cmd_size cmd + sizeof_item)"
    using records_length [OF s1(2) ok] by (simp add: cmd_views_simps(1))
  have "\<exists>es s'. record_cmds rs s1 = Some s' \<and> list_all2 records es rs \<and> session_rep s' (cmd_views ((ds @ [d]) @ es)) \<and>
     set (alloc_ok s') \<subseteq> set (alloc_ok s1) \<and> total_end (cmd_views ((ds @ [d]) @ es)) = total_end (cmd_views (ds @ [d])) + cmds_cost rs \<and>
     pbr_env s' = pbr_env s1"
    using Cons.prems s1(4) te by (intro Cons.IH s1(3)) (auto simp: kept_def cmds_cost_def r)
  then obtain es s' where es: "record_cmds rs s1 = Some s'" "list_all2 records es rs" "session_rep s' (cmd_views (ds @ d # es))"
      "set (alloc_ok s') \<subseteq> set (alloc_ok s1)" "total_end (cmd_views (ds @ d # es)) = total_end (cmd_views (ds @ [d])) + cmds_cost rs"
      "pbr_env s' = pbr_env s1"
    by auto
  then show ?case
    using s1(1,2,4,5) te by (intro exI [of _ "d # es"] exI [of _ s']) (auto simp: r kept_def cmds_cost_def)
qed

section \<open>Playing commands back\<close>

lemma FreePool_foreign:
  assumes rep: "session_rep s vs" and b: "foreign s (length vs) b"
  shows "\<exists>s'. FREE_POOL_SAFE (b, 0) s = Some s' \<and> session_rep s' vs \<and> gPbrContext s' = gPbrContext s \<and> alloc_ok s' = alloc_ok s"
proof -
  have "blocks s 0 = None" using rep by (simp add: session_rep_def pool_ok_def)
  then have "b \<noteq> 0" using b by (metis foreign_def)
  define s' where "s' = s\<lparr>blocks := (blocks s)(b := None)\<rparr>"
  have "FREE_POOL_SAFE (b, 0) s = Some s'"
    using \<open>b \<noteq> 0\<close> b by (simp add: FREE_POOL_SAFE_def FreePool_def foreign_def s'_def)
  moreover have "session_rep s' vs"
    by (rule session_rep_foreign [OF rep]) (use b rep in \<open>auto simp: s'_def foreign_def session_rep_def pool_ok_def\<close>)
  ultimately show ?thesis by (simp add: s'_def)
qed

lemma PbrGetPassThruRecord_rep:
  assumes rep: "session_rep s vs" and i: "i < length vs" "vsig (vs ! i) = PBR_PASS_THRU_SIG"
    and k: "k < length (vitems (vs ! i))" "vpos (vs ! i) = item_at (vs ! i) k"
    and mode: "PbrMode (gPbrContext s) = PBR_PLAYBACK_MODE" and alloc: "False \<notin> set (alloc_ok s)"
    and r: "records (vitems (vs ! i) ! k) (cmd, prc)" "cmd_ok cmd" "asks req cmd"
  shows "\<exists>s'. PbrGetPassThruRecord req prc' s = Some (EFI_SUCCESS, answered cmd req, prc, s') \<and>
     session_rep s' (vs[i := view_advance (Suc k) (vs ! i)]) \<and> PbrMode (gPbrContext s') = PBR_PLAYBACK_MODE \<and>
     set (alloc_ok s') \<subseteq> set (alloc_ok s)"
proof -
  define d where "d = vitems (vs ! i) ! k"
  let ?ws = "vs[i := view_advance (Suc k) (vs ! i)]"
  obtain s1 where s1: "PbrGetData PBR_PASS_THRU_SIG GET_NEXT_DATA_INDEX False s = Some (EFI_SUCCESS, (next_block s, 0), of_nat (length d), 0, s1)"
      "session_rep s1 ?ws" "blocks s1 (next_block s) = Some d" "kept (length vs) s (length vs) s1" "foreign s1 (length vs) (next_block s)"
    using PbrGetData_next [OF rep i(1) k alloc] i(2) by (auto simp: d_def)
  have ld: "length d = cmd_size cmd" using records_length [OF r(1,2)] by (simp add: d_def)
  have lim: "length d < 2 ^ 32" using part_rep_item(5) [OF session_rep_part [OF rep i(1)] k(1)] by (simp add: d_def)
  have body: "GetPassThru_body (next_block s, 0) (of_nat (length d)) req prc' s1 = Some (EFI_SUCCESS, answered cmd req, prc)"
  proof -
    obtain pad pad' where pads: "length pad = 2" "length pad' = 3" "d = pass_bytes cmd prc pad pad'"
      using r(1) by (auto simp: records_def d_def)
    have "blocks s1 (next_block s) = Some (pass_bytes cmd prc pad pad')" using s1(3) pads(3) by simp
    from GetPassThru_body_eq [OF this pads(1,2) r(2) _ r(3)] show ?thesis using lim by (simp only: ld)
  qed
  obtain s2 where s2: "FREE_POOL_SAFE (next_block s, 0) s1 = Some s2" "session_rep s2 ?ws" "gPbrContext s2 = gPbrContext s1" "alloc_ok s2 = alloc_ok s1"
    using FreePool_foreign [OF s1(2), of "next_block s"] s1(5) by auto
  have "PbrGetPassThruRecord req prc' s = Some (EFI_SUCCESS, answered cmd req, prc, s2)"
    using mode s1(1) body s2(1) by (simp add: PbrGetPassThruRecord_def)
  with s2 s1(4) mode show ?thesis by (auto simp: kept_def)
qed

fun ask_all :: "FW_CMD list \<Rightarrow> pbr_sys \<Rightarrow> ((FW_CMD \<times> u64) list \<times> pbr_sys) option" where
  "ask_all [] s = Some ([], s)"
| "ask_all (req # reqs) s = do {
     (rc, cmd, prc, s) \<leftarrow> PbrGetPassThruRecord req 0 s;
     (if rc \<noteq> EFI_SUCCESS then None else do { (as, s) \<leftarrow> ask_all reqs s; Some ((cmd, prc) # as, s) }) }"

definition answers :: "(FW_CMD \<times> u64) list \<Rightarrow> FW_CMD list \<Rightarrow> (FW_CMD \<times> u64) list" where
  "answers rs reqs = map2 (\<lambda>r req. (answered (fst r) req, snd r)) rs reqs"

lemma ask_all_rep:
  assumes "session_rep s vs" "i < length vs" "vsig (vs ! i) = PBR_PASS_THRU_SIG" "vpos (vs ! i) = item_at (vs ! i) k"
    "drop k (vitems (vs ! i)) = ds" "list_all2 records ds rs" "\<forall>r \<in> set rs. cmd_ok (fst r)"
    "list_all2 (\<lambda>req r. asks req (fst r)) reqs rs" "PbrMode (gPbrContext s) = PBR_PLAYBACK_MODE" "False \<notin> set (alloc_ok s)"
  shows "\<exists>s'. ask_all reqs s = Some (answers rs reqs, s')"
  using assms
proof (induction reqs arbitrary: rs ds k s vs)
  case Nil
  then show ?case by (simp add: answers_def)
next
  case (Cons req reqs)
  obtain r rs' where rs: "rs = r # rs'" "asks req (fst r)" "list_all2 (\<lambda>req r. asks req (fst r)) reqs rs'"
    using Cons.prems(8) by (auto simp: list_all2_Cons1)
  obtain d ds' where ds: "ds = d # ds'" "records d r" "list_all2 records ds' rs'"
    using Cons.prems(6) rs(1) by (auto simp: list_all2_Cons2)
  have k: "k < length (vitems (vs ! i))" using Cons.prems(5) ds(1) by (metis drop_all list.distinct(1) not_le)
  have d: "vitems (vs ! i) ! k = d" "drop (Suc k) (vitems (vs ! i)) = ds'"
    using Cons.prems(5) ds(1) Cons_nth_drop_Suc [OF k] by simp_all
  let ?ws = "vs[i := view_advance (Suc k) (vs ! i)]"
  obtain s1 where s1: "PbrGetPassThruRecord req 0 s = Some (EFI_SUCCESS, answered (fst r) req, snd r, s1)"
      "session_rep s1 ?ws" "PbrMode (gPbrContext s1) = PBR_PLAYBACK_MODE" "set (alloc_ok s1) \<subseteq> set (alloc_ok s)"
    using PbrGetPassThruRecord_rep [OF Cons.prems(1-3) k Cons.prems(4,9,10), of "fst r" "snd r" req 0] d(1) ds(2) rs Cons.prems(7)
    by auto
  have "\<exists>s'. ask_all reqs s1 = Some (answers rs' reqs, s')"
    using Cons.prems(2,3,7,10) rs ds d(2) s1(3,4) by (intro Cons.IH [OF s1(2)]) auto
  then show ?case using s1(1) rs(1) by (auto simp: answers_def)
qed

text \<open>
  C11: A recorded command line session answers like the hardware did. Start a session, record any
  sequence of firmware commands with their answers, load the image of the session and switch to
  playback: when the same commands are asked for again, in the same order, every request succeeds and
  gets back the status, the output payloads and the pass-through return code that were recorded for
  it.
\<close>

theorem recorded_commands_replay:
  assumes start: "no_session s" and rs: "rs \<noteq> []" "\<forall>r \<in> set rs. cmd_ok (fst r)"
    and reqs: "list_all2 (\<lambda>req r. asks req (fst r)) reqs rs"
    and fits: "sizeof_header + PARTITION_GROW_SZ_MULTIPLIER * cmds_cost rs < 2 ^ 32"
    and env: "False \<notin> set (alloc_ok s)" "set_variable_rc s = EFI_SUCCESS"
  shows "\<exists>s1 s2 s3 s4 s5 s6 s7 p n.
     PbrSetSession NULL 0 s = Some (EFI_SUCCESS, s1) \<and> PbrSetMode PBR_RECORD_MODE s1 = Some (EFI_SUCCESS, s2) \<and>
     record_cmds rs s2 = Some s3 \<and> PbrGetSession True s3 = Some (EFI_SUCCESS, p, n, s4) \<and>
     PbrSetSession p n s4 = Some (EFI_SUCCESS, s5) \<and> PbrSetMode PBR_PLAYBACK_MODE s5 = Some (EFI_SUCCESS, s6) \<and>
     ask_all reqs s6 = Some (answers rs reqs, s7)"
proof -
  obtain s1 s2 where s2: "PbrSetSession NULL 0 s = Some (EFI_SUCCESS, s1)" "PbrSetMode PBR_RECORD_MODE s1 = Some (EFI_SUCCESS, s2)"
      "session_rep s2 (cmd_views [])" "PbrMode (gPbrContext s2) = PBR_RECORD_MODE" "False \<notin> set (alloc_ok s2)"
      "set_variable_rc s2 = EFI_SUCCESS"
    using start_recording [OF start env] by (auto simp: cmd_views_simps(2))
  have lim: "PARTITION_GROW_SZ_MULTIPLIER * (total_end (cmd_views []) + cmds_cost rs) < 2 ^ 32"
    using fits by (simp add: cmd_views_simps(2) total_end_def)
  obtain es s3 where s3: "record_cmds rs s2 = Some s3" "list_all2 records es rs" "session_rep s3 (cmd_views es)"
      "set (alloc_ok s3) \<subseteq> set (alloc_ok s2)" "total_end (cmd_views es) = cmds_cost rs" "pbr_env s3 = pbr_env s2"
    using record_cmds_rep [OF s2(3,4) rs(2) lim s2(5)] by (auto simp: cmd_views_simps(2) total_end_def)
  define vs where "vs = cmd_views es"
  have size: "sizeof_header + data_size vs < 2 ^ 32"
    using data_size_recording [OF cmd_views_simps(4), of es] fits by (simp add: vs_def s3(5))
  have e3: "False \<notin> set (alloc_ok s3)" "set_variable_rc s3 = EFI_SUCCESS"
    using s3(4,6) s2(5,6) by (auto simp: pbr_env_def)
  obtain p n s4 s5 s6 where s6: "PbrGetSession True s3 = Some (EFI_SUCCESS, p, n, s4)" "PbrSetSession p n s4 = Some (EFI_SUCCESS, s5)"
      "PbrSetMode PBR_PLAYBACK_MODE s5 = Some (EFI_SUCCESS, s6)" "session_rep s6 (map rewind vs)" "False \<notin> set (alloc_ok s6)"
      "PbrMode (gPbrContext s6) = PBR_PLAYBACK_MODE"
    using load_for_playback [OF s3(3) [folded vs_def] size e3] by blast
  have "es \<noteq> []" using s3(2) rs(1) by auto
  then have "PBR_PASS_THRU_SIG \<in> set (map vsig vs)" using cmd_views_sigs [of es] by (simp add: vs_def)
  then obtain i where i: "i < length vs" "vsig (vs ! i) = PBR_PASS_THRU_SIG" by (auto simp: in_set_conv_nth)
  have "distinct (map vsig vs)" using s3(3) by (simp add: session_rep_def vs_def)
  from items_of_at [OF i(1) this] have "vitems (vs ! i) = es" using cmd_views_simps(5) [of es] i(2) by (simp add: vs_def)
  then have "\<exists>s7. ask_all reqs s6 = Some (answers rs reqs, s7)"
    using i s3(2) rs(2) reqs s6(5,6)
    by (intro ask_all_rep [OF s6(4), of i 0 es rs reqs]) (auto simp: item_at_simps)
  then show ?thesis using s2(1,2) s3(1) s6(1-3) by blast
qed

text \<open>A command that reads four bytes, and the same request before it was answered.\<close>

definition demo_cmd :: FW_CMD where
  "demo_cmd = \<lparr>InputPayloadSize = 2, LargeInputPayloadSize = 0, OutputPayloadSize = 4, LargeOutputPayloadSize = 0,
     InputPayload = [1, 2] @ replicate 126 0, LargeInputPayload = replicate 1048576 0,
     OutPayload = [9, 8, 7, 6] @ replicate 124 0, LargeOutputPayload = replicate 1048576 0,
     DimmID = 3, Opcode = 4, SubOpcode = 1, Status = 5\<rparr>"

definition demo_request :: FW_CMD where
  "demo_request = demo_cmd\<lparr>OutPayload := replicate 128 0, OutputPayloadSize := 128, Status := 0\<rparr>"

theorem recorded_commands_replay_witness:
  "\<exists>s1 s2 s3 s4 s5 s6 s7 p n.
     PbrSetSession NULL 0 demo_pbr = Some (EFI_SUCCESS, s1) \<and> PbrSetMode PBR_RECORD_MODE s1 = Some (EFI_SUCCESS, s2) \<and>
     record_cmds [(demo_cmd, 0)] s2 = Some s3 \<and> PbrGetSession True s3 = Some (EFI_SUCCESS, p, n, s4) \<and>
     PbrSetSession p n s4 = Some (EFI_SUCCESS, s5) \<and> PbrSetMode PBR_PLAYBACK_MODE s5 = Some (EFI_SUCCESS, s6) \<and>
     ask_all [demo_request] s6 = Some ([(answered demo_cmd demo_request, 0)], s7)"
proof -
  have "\<forall>r \<in> set [(demo_cmd, 0 :: u64)]. cmd_ok (fst r)" by (simp add: cmd_ok_def demo_cmd_def)
  moreover have "list_all2 (\<lambda>req r. asks req (fst r)) [demo_request] [(demo_cmd, 0 :: u64)]"
    by (simp add: asks_def demo_cmd_def demo_request_def)
  moreover have "sizeof_header + PARTITION_GROW_SZ_MULTIPLIER * cmds_cost [(demo_cmd, 0)] < 2 ^ 32"
    by (simp add: cmds_cost_def cmd_size_def demo_cmd_def)
  moreover have "False \<notin> set (alloc_ok demo_pbr)" "set_variable_rc demo_pbr = EFI_SUCCESS" by (simp_all add: demo_pbr_def)
  ultimately show ?thesis
    using recorded_commands_replay [OF demo_pbr_no_session, of "[(demo_cmd, 0)]" "[demo_request]"] by (simp add: answers_def)
qed

end
