(* ===== verification/Pbr_Tags.thy ===== *)
theory Pbr_Tags
  imports Pbr
begin

text \<open>
  Tags of a recording (\<open>PbrSetTag\<close>, \<open>PbrGetTagCount\<close>, \<open>PbrGetTag\<close> and \<open>PbrResetSession\<close> of
  \<open>DcpmPkg/common/Pbr.c\<close>). A tag is an item of the tag partition: a \<open>Tag\<close> of twenty bytes, one
  \<open>TagPartitionInfo\<close> of eight bytes per partition with the offset the partition had, and two strings.

  Wide strings of callers are values, the list of their characters. The conversions of EDK II's
  \<open>BaseLib\<close> refuse strings longer than a million characters, the default of their two platform
  settings. A string in the pool is read up to its zero byte, and reading one that has none runs out
  of its block. A \<open>CHAR8\<close> is a signed \<open>char\<close>, so a byte from 128 on is widened with its sign. Assertions
  are compiled out.
\<close>

section \<open>Strings\<close>

definition MAX_STRING :: nat where "MAX_STRING = 1000000"

definition StrLen :: "u16 list \<Rightarrow> nat" where
  "StrLen xs = length (takeWhile (\<lambda>c. c \<noteq> 0) xs)"

definition UnicodeStrToAsciiStrS :: "u16 list \<Rightarrow> ptr \<Rightarrow> nat \<Rightarrow> 'a pool_mem_scheme \<Rightarrow> 'a pool_mem_scheme option" where
  "UnicodeStrToAsciiStrS Source Destination DestMax s =
     (if Destination = NULL \<or> MAX_STRING < DestMax \<or> DestMax = 0 \<or> DestMax \<le> StrLen Source then Some s
      else store Destination (map ucast (takeWhile (\<lambda>c. c \<noteq> 0) Source) @ [0]) s)"

definition AsciiStr :: "ptr \<Rightarrow> 'a pool_mem_scheme \<Rightarrow> u8 list option" where
  "AsciiStr p s =
     (case blocks s (fst p) of
        None \<Rightarrow> None
      | Some bs \<Rightarrow> if 0 \<in> set (drop (snd p) bs) then Some (takeWhile (\<lambda>b. b \<noteq> 0) (drop (snd p) bs)) else None)"

definition AsciiStrLen :: "ptr \<Rightarrow> 'a pool_mem_scheme \<Rightarrow> nat option" where
  "AsciiStrLen p s = map_option length (AsciiStr p s)"

definition AsciiStrToUnicodeStrS :: "ptr \<Rightarrow> ptr \<Rightarrow> nat \<Rightarrow> 'a pool_mem_scheme \<Rightarrow> 'a pool_mem_scheme option" where
  "AsciiStrToUnicodeStrS Source Destination DestMax s =
     (if Destination = NULL \<or> Source = NULL \<or> MAX_STRING < DestMax \<or> DestMax = 0 then Some s
      else do {
        xs \<leftarrow> AsciiStr Source s;
        (if DestMax \<le> length xs then Some s
         else store Destination (concat (map (\<lambda>c. le16 (scast c)) (xs @ [0]))) s) })"

definition SafeAsciiStrToUnicodeStr :: "ptr \<Rightarrow> u32 \<Rightarrow> ptr \<Rightarrow> 'a pool_mem_scheme \<Rightarrow> (efi_status \<times> 'a pool_mem_scheme) option" where
  "SafeAsciiStrToUnicodeStr Source Length Destination s =
     (if Source = NULL \<or> Destination = NULL then Some (EFI_INVALID_PARAMETER, s)
      else do {
        let (TempSource, s) = AllocateZeroPool (unat (Length + 1)) s;
        (if TempSource = NULL then Some (EFI_OUT_OF_RESOURCES, s)
         else do {
           s \<leftarrow> CopyMem TempSource Source (unat Length) s;
           s \<leftarrow> store8 (ptr_add TempSource (unat Length)) 0 s;
           s \<leftarrow> AsciiStrToUnicodeStrS TempSource Destination (unat (Length + 1)) s;
           s \<leftarrow> FREE_POOL_SAFE TempSource s;
           Some (EFI_SUCCESS, s) }) })"

section \<open>Setting a tag\<close>

text \<open>The loop that describes every partition, the tag partition included.\<close>

fun SetTag_infos :: "nat list \<Rightarrow> ptr \<Rightarrow> pbr_sys \<Rightarrow> pbr_sys option" where
  "SetTag_infos [] p s = Some s"
| "SetTag_infos (i # is) p s =
     (let c = parts s ! i
      in if PartitionSig c \<noteq> PBR_INVALID_SIG then do {
           s \<leftarrow> store32 p (PartitionSig c) s;
           s \<leftarrow> store32 (ptr_add p 4) (PartitionCurrentOffset c) s;
           SetTag_infos is (ptr_add p sizeof_TagPartitionInfo) s }
         else SetTag_infos is p s)"

definition SetTag_fill :: "u32 \<Rightarrow> u32 \<Rightarrow> u32 \<Rightarrow> u32 \<Rightarrow> u16 list \<Rightarrow> u32 \<Rightarrow> u16 list \<Rightarrow> u32 \<Rightarrow> ptr \<Rightarrow> pbr_sys \<Rightarrow> pbr_sys option" where
  "SetTag_fill Signature LogicalIndex NewTagSize PartitionCount pName NameSize pDescription DescriptionSize pTagData s = do {
     s \<leftarrow> store32 pTagData PBR_TAG_SIG s;
     s \<leftarrow> store32 (ptr_add pTagData 4) Signature s;
     s \<leftarrow> store32 (ptr_add pTagData 8) LogicalIndex s;
     s \<leftarrow> store32 (ptr_add pTagData 12) NewTagSize s;
     s \<leftarrow> store32 (ptr_add pTagData 16) PartitionCount s;
     s \<leftarrow> SetTag_infos [0..<MAX_PARTITIONS] (ptr_add pTagData sizeof_Tag) s;
     let TagStrings = ptr_add pTagData (sizeof_Tag + unat PartitionCount * sizeof_TagPartitionInfo);
     s \<leftarrow> UnicodeStrToAsciiStrS pName TagStrings (unat NameSize) s;
     UnicodeStrToAsciiStrS pDescription (ptr_add TagStrings (unat NameSize)) (unat DescriptionSize) s }"

text \<open>\<open>PbrSetTag\<close> returns the status and the tag's id for \<open>pId\<close>; a string is \<open>None\<close> when it is \<open>NULL\<close>.\<close>

definition PbrSetTag :: "u32 \<Rightarrow> u16 list option \<Rightarrow> u16 list option \<Rightarrow> pbr_sys \<Rightarrow> (efi_status \<times> u32 \<times> pbr_sys) option" where
  "PbrSetTag Signature pName pDescription s =
     (if PbrMode (gPbrContext s) \<noteq> PBR_RECORD_MODE then Some (EFI_SUCCESS, 0, s)
      else case (pName, pDescription) of
        (Some name, Some descr) \<Rightarrow> do {
          let DescriptionSize = (of_nat (StrLen descr + 1) :: u32);
          let NameSize = (of_nat (StrLen name + 1) :: u32);
          let PartitionCount = PbrPartitionCount s;
          let NewTagSize = of_nat sizeof_Tag + (DescriptionSize + NameSize) + PartitionCount * of_nat sizeof_TagPartitionInfo;
          (rc, pTagData, LogicalIndex, s) \<leftarrow> PbrSetData PBR_TAG_SIG NULL NewTagSize False s;
          (if EFI_ERROR rc then Some (rc, 0, s)
           else do {
             s \<leftarrow> SetTag_fill Signature LogicalIndex NewTagSize PartitionCount name NameSize descr DescriptionSize pTagData s;
             Some (rc, LogicalIndex, s) }) }
      | _ \<Rightarrow> Some (EFI_INVALID_PARAMETER, 0, s))"

section \<open>Reading tags\<close>

definition PbrGetTagCount :: "bool \<Rightarrow> pbr_sys \<Rightarrow> efi_status \<times> u32" where
  "PbrGetTagCount given s =
     (if \<not> given then (EFI_INVALID_PARAMETER, 0)
      else (EFI_SUCCESS, case PbrGetPartition PBR_TAG_SIG s of Some c \<Rightarrow> PartitionLogicalDataCnt c | None \<Rightarrow> 0))"

text \<open>One string of a tag, copied out as a wide string: where it went and where the next one starts.\<close>

definition GetTag_string :: "ptr \<Rightarrow> pbr_sys \<Rightarrow> (ptr \<times> ptr \<times> pbr_sys) option" where
  "GetTag_string pTagStrs s = do {
     n \<leftarrow> AsciiStrLen pTagStrs s;
     let (p, s) = AllocateZeroPool (unat (of_nat ((n + 1) * 2) :: u32)) s;
     (rc, s) \<leftarrow> SafeAsciiStrToUnicodeStr pTagStrs (of_nat (n + 1)) p s;
     Some (p, ptr_add pTagStrs (n + 1), s) }"

text \<open>
  \<open>want\<close>: the caller passes a \<open>ppTagPartitionInfo\<close>. The results are the status, the signature, the
  name, the description, the partition infos and their number. When the copy of the infos cannot be
  allocated the copy goes ahead all the same.
\<close>

definition PbrGetTag :: "u32 \<Rightarrow> bool \<Rightarrow> bool \<Rightarrow> pbr_sys \<Rightarrow> (efi_status \<times> u32 \<times> ptr \<times> ptr \<times> ptr \<times> u32 \<times> pbr_sys) option" where
  "PbrGetTag TagId given want s =
     (if \<not> given then Some (EFI_INVALID_PARAMETER, 0, NULL, NULL, NULL, 0, s)
      else do {
        (rc, pTag, DataSize, i, s) \<leftarrow> PbrGetData PBR_TAG_SIG TagId False s;
        (if EFI_ERROR rc then do {
           s \<leftarrow> FREE_POOL_SAFE pTag s;
           Some (rc, 0, NULL, NULL, NULL, 0, s) }
         else do {
           sig \<leftarrow> load32 (ptr_add pTag 4) s;
           cnt \<leftarrow> load32 (ptr_add pTag 16) s;
           (name, next, s) \<leftarrow> GetTag_string (ptr_add pTag (sizeof_Tag + unat cnt * sizeof_TagPartitionInfo)) s;
           (descr, next, s) \<leftarrow> GetTag_string next s;
           (rc, infos, s) \<leftarrow>
             (if want \<and> 0 < cnt then do {
                let (p, s) = AllocateZeroPool (unat cnt * sizeof_TagPartitionInfo) s;
                let rc = (if p = NULL then EFI_OUT_OF_RESOURCES else rc);
                s \<leftarrow> PbrCopyChunks p (unat cnt * sizeof_TagPartitionInfo) (ptr_add pTag sizeof_Tag)
                       (cnt * of_nat sizeof_TagPartitionInfo) s;
                Some (rc, p, s) }
              else Some (rc, NULL, s));
           s \<leftarrow> FREE_POOL_SAFE pTag s;
           Some (rc, sig, name, descr, infos, cnt, s) }) })"

section \<open>Back to a tag\<close>

text \<open>The offset a tag gives for a signature: that of the first info with it, 0 when there is none.\<close>

fun Reset_offset :: "ptr \<Rightarrow> nat \<Rightarrow> u32 \<Rightarrow> 'a pool_mem_scheme \<Rightarrow> u32 option" where
  "Reset_offset p 0 sig s = Some 0"
| "Reset_offset p (Suc n) sig s = do {
     x \<leftarrow> load32 p s;
     (if x = sig then load32 (ptr_add p 4) s else Reset_offset (ptr_add p sizeof_TagPartitionInfo) n sig s) }"

fun Reset_loop :: "ptr \<Rightarrow> nat list \<Rightarrow> pbr_sys \<Rightarrow> pbr_sys option" where
  "Reset_loop pTag [] s = Some s"
| "Reset_loop pTag (i # is) s =
     (if PartitionSig (parts s ! i) \<noteq> PBR_INVALID_SIG then do {
        cnt \<leftarrow> load32 (ptr_add pTag 16) s;
        off \<leftarrow> Reset_offset (ptr_add pTag sizeof_Tag) (unat cnt) (PartitionSig (parts s ! i)) s;
        Reset_loop pTag is (set_part i (\<lambda>c. c\<lparr>PartitionCurrentOffset := off\<rparr>) s) }
      else Reset_loop pTag is s)"

definition PbrResetSession :: "u32 \<Rightarrow> pbr_sys \<Rightarrow> (efi_status \<times> pbr_sys) option" where
  "PbrResetSession TagId s = do {
     (rc, pTag, DataSize, i, s) \<leftarrow> PbrGetData PBR_TAG_SIG TagId False s;
     s \<leftarrow> (if EFI_ERROR rc then Some s else Reset_loop pTag [0..<MAX_PARTITIONS] s);
     s \<leftarrow> FREE_POOL_SAFE pTag s;
     Some (rc, s) }"

end
