(* ===== verification/Pbr_Tag_Replay.thy ===== *)
theory Pbr_Tag_Replay
  imports Pbr_Commands Pbr_Tags
begin

text \<open>
  What the tags of \<open>Pbr_Tags\<close> do to a session: a tag keeps where every partition stood when it was
  set, and resetting a loaded session to it puts every partition back there, so that playback goes on
  with what was recorded behind the tag.
\<close>

section \<open>The bytes of a tag\<close>

definition info_bytes :: "(u32 \<times> nat) list \<Rightarrow> u8 list" where
  "info_bytes infos = concat (map (\<lambda>(sig, off). le32 sig @ le32 (of_nat off)) infos)"

definition ascii :: "u16 list \<Rightarrow> u8 list" where
  "ascii xs = map ucast xs @ [0]"

definition tag_size :: "nat \<Rightarrow> u16 list \<Rightarrow> u16 list \<Rightarrow> nat" where
  "tag_size n name descr = sizeof_Tag + sizeof_TagPartitionInfo * n + (length name + 1) + (length descr + 1)"

definition tag_bytes :: "u32 \<Rightarrow> u32 \<Rightarrow> (u32 \<times> nat) list \<Rightarrow> u16 list \<Rightarrow> u16 list \<Rightarrow> u8 list" where
  "tag_bytes sig k infos name descr =
     le32 PBR_TAG_SIG @ le32 sig @ le32 k @ le32 (of_nat (tag_size (length infos) name descr))
     @ le32 (of_nat (length infos)) @ info_bytes infos @ ascii name @ ascii descr"

definition text_ok :: "u16 list \<Rightarrow> bool" where
  "text_ok xs \<longleftrightarrow> 0 \<notin> set xs \<and> length xs < MAX_STRING"

definition positions :: "part_view list \<Rightarrow> (u32 \<times> nat) list" where
  "positions vs = map (\<lambda>v. (vsig v, vpos v)) vs"

lemma length_ascii [simp]: "length (ascii xs) = length xs + 1"
  by (simp add: ascii_def)

lemma info_bytes_simps [simp]:
  "info_bytes [] = []" "info_bytes ((sig, off) # infos) = le32 sig @ le32 (of_nat off) @ info_bytes infos"
  "info_bytes (xs @ ys) = info_bytes xs @ info_bytes ys"
  by (simp_all add: info_bytes_def)

lemma length_info_bytes [simp]: "length (info_bytes infos) = sizeof_TagPartitionInfo * length infos"
  by (induction infos) auto

lemma length_tag_bytes: "length (tag_bytes sig k infos name descr) = tag_size (length infos) name descr"
  by (simp add: tag_bytes_def tag_size_def)

lemma text_ok_simps:
  assumes "text_ok xs"
  shows "StrLen xs = length xs" "takeWhile (\<lambda>c. c \<noteq> 0) xs = xs" "length xs < MAX_STRING"
proof -
  show "takeWhile (\<lambda>c. c \<noteq> 0) xs = xs" using assms by (simp add: text_ok_def takeWhile_eq_all_conv) metis
  then show "StrLen xs = length xs" unfolding StrLen_def by (rule arg_cong)
  show "length xs < MAX_STRING" using assms by (simp add: text_ok_def)
qed

lemma UnicodeStrToAsciiStrS_eq:
  assumes "text_ok xs" "p \<noteq> NULL"
  shows "UnicodeStrToAsciiStrS xs p (length xs + 1) s = store p (ascii xs) s"
  unfolding UnicodeStrToAsciiStrS_def text_ok_simps(1,2) [OF assms(1)] ascii_def
  using text_ok_simps(3) [OF assms(1)] assms(2) by simp

section \<open>Setting a tag\<close>

lemma session_rep_valid:
  assumes rep: "session_rep s vs"
  shows "filter (\<lambda>c. PartitionSig c \<noteq> PBR_INVALID_SIG) (parts s) = take (length vs) (parts s)"
proof -
  have len: "length (parts s) = MAX_PARTITIONS" "length vs \<le> MAX_PARTITIONS" using rep by (simp_all add: session_rep_def)
  have "\<forall>c \<in> set (take (length vs) (parts s)). PartitionSig c \<noteq> PBR_INVALID_SIG"
    using session_rep_sig [OF rep] len by (auto simp: in_set_conv_nth)
  moreover have "\<forall>c \<in> set (drop (length vs) (parts s)). PartitionSig c = PBR_INVALID_SIG"
    using rep len by (auto simp: in_set_conv_nth session_rep_def)
  ultimately show ?thesis
    by (subst append_take_drop_id [of "length vs" "parts s", symmetric], simp only: filter_append) simp
qed

lemma session_rep_positions:
  assumes rep: "session_rep s vs"
  shows "map (\<lambda>c. (PartitionSig c, unat (PartitionCurrentOffset c))) (take (length vs) (parts s)) = positions vs"
  using rep by (auto simp: positions_def session_rep_def part_rep_def intro!: nth_equalityI)

lemma PbrPartitionCount_rep: "session_rep s vs \<Longrightarrow> PbrPartitionCount s = of_nat (length vs)"
  using session_rep_valid [of s vs] by (simp add: PbrPartitionCount_def session_rep_def)

lemma SetTag_infos_eq:
  assumes "blocks s b = Some (xs @ old @ ys)" "off = length xs"
    "cs = filter (\<lambda>c. PartitionSig c \<noteq> PBR_INVALID_SIG) (map ((!) (parts s)) is)"
    "length old = sizeof_TagPartitionInfo * length cs"
  shows "SetTag_infos is (b, off) s =
     Some (s\<lparr>blocks := (blocks s)(b \<mapsto> xs @ info_bytes (map (\<lambda>c. (PartitionSig c, unat (PartitionCurrentOffset c))) cs) @ ys)\<rparr>)"
  using assms
proof (induction "is" arbitrary: s xs old off cs)
  case Nil
  then show ?case by (simp add: fun_upd_idem)
next
  case (Cons i "is")
  define c where "c = parts s ! i"
  show ?case
  proof (cases "PartitionSig c = PBR_INVALID_SIG")
    case True
    then show ?thesis using Cons.IH [OF Cons.prems(1,2) _ _, of cs] Cons.prems(3,4) by (simp add: c_def)
  next
    case False
    define cs' where "cs' = filter (\<lambda>c. PartitionSig c \<noteq> PBR_INVALID_SIG) (map ((!) (parts s)) is)"
    have cs: "cs = c # cs'" using Cons.prems(3) False by (simp add: c_def cs'_def)
    obtain o1 o2 o3 where old: "old = o1 @ o2 @ o3" "length o1 = 4" "length o2 = 4" "length o3 = sizeof_TagPartitionInfo * length cs'"
      using Cons.prems(4) cs that [of "take 4 old" "take 4 (drop 4 old)" "drop 8 old"]
      by (simp add: append_take_drop_id [of 4 "drop 4 old", simplified])
    let ?s1 = "s\<lparr>blocks := (blocks s)(b \<mapsto> xs @ le32 (PartitionSig c) @ o2 @ o3 @ ys)\<rparr>"
    let ?ys = "xs @ le32 (PartitionSig c) @ le32 (PartitionCurrentOffset c)"
    let ?s2 = "s\<lparr>blocks := (blocks s)(b \<mapsto> ?ys @ o3 @ ys)\<rparr>"
    have "store32 (b, off) (PartitionSig c) s = Some ?s1"
      using store_field [of s b xs o1 "o2 @ o3 @ ys" "le32 (PartitionSig c)" off] Cons.prems(1,2) old by simp
    moreover have "store32 (b, off + 4) (PartitionCurrentOffset c) ?s1 = Some ?s2"
      using store_field [of ?s1 b "xs @ le32 (PartitionSig c)" o2 "o3 @ ys" "le32 (PartitionCurrentOffset c)" "off + 4"] Cons.prems(2) old
      by simp
    moreover have "SetTag_infos is (b, off + 8) ?s2 =
        Some (?s2\<lparr>blocks := (blocks ?s2)(b \<mapsto> ?ys @ info_bytes (map (\<lambda>c. (PartitionSig c, unat (PartitionCurrentOffset c))) cs') @ ys)\<rparr>)"
      using Cons.prems(2) old(4) by (intro Cons.IH) (simp_all add: cs'_def)
    ultimately show ?thesis using False
      by (simp add: c_def [symmetric] cs) (rule arg_cong [of _ _ "\<lambda>h. s\<lparr>blocks := h\<rparr>"], simp add: fun_eq_iff)
  qed
qed

lemma SetTag_fill_eq:
  assumes rep: "session_rep s ws" and blk: "blocks s b = Some (xs @ d @ ys)" and off: "off = length xs"
    and d: "length d = tag_size n name descr" and ok: "text_ok name" "text_ok descr"
    and room: "n \<le> length ws" "sizeof_TagPartitionInfo * length ws \<le> sizeof_TagPartitionInfo * n + (length name + 1) + (length descr + 1)"
    and lim: "tag_size n name descr < 2 ^ 32" and b: "b \<noteq> 0"
  shows "SetTag_fill sig k (of_nat (tag_size n name descr)) (of_nat n) name (of_nat (length name + 1)) descr (of_nat (length descr + 1)) (b, off) s =
     Some (s\<lparr>blocks := (blocks s)(b \<mapsto> xs @ tag_bytes sig k (take n (positions ws)) name descr @ ys)\<rparr>)"
proof -
  define infos where "infos = positions ws"
  have ws: "length infos = length ws" by (simp add: infos_def positions_def)
  define rest where "rest = sizeof_TagPartitionInfo * n + (length name + 1) + (length descr + 1) - sizeof_TagPartitionInfo * length ws"
  have sum: "length d = sum_list [4, 4, 4, 4, 4, sizeof_TagPartitionInfo * length ws, rest]"
    using d room(2) by (simp add: tag_size_def rest_def)
  from cut_fields [OF sum] obtain fs where fs: "concat fs = d \<and> map length fs = [4, 4, 4, 4, 4, sizeof_TagPartitionInfo * length ws, rest]" ..
  then obtain h1 h2 h3 h4 h5 old r where h: "d = h1 @ h2 @ h3 @ h4 @ h5 @ old @ r" "length h1 = 4" "length h2 = 4" "length h3 = 4"
      "length h4 = 4" "length h5 = 4" "length old = sizeof_TagPartitionInfo * length ws" "length r = rest"
    by (auto simp: map_eq_Cons_conv)
  define hd where "hd = le32 PBR_TAG_SIG @ le32 sig @ le32 k @ le32 (of_nat (tag_size n name descr)) @ le32 (of_nat n)"
  let ?B = "\<lambda>z. s\<lparr>blocks := (blocks s)(b \<mapsto> xs @ z @ ys)\<rparr>"
  have f1: "store32 (b, off) PBR_TAG_SIG s = Some (?B (le32 PBR_TAG_SIG @ h2 @ h3 @ h4 @ h5 @ old @ r))"
    using store_field [of s b xs h1 "h2 @ h3 @ h4 @ h5 @ old @ r @ ys" "le32 PBR_TAG_SIG" off] blk off h by simp
  have f2: "store32 (b, off + 4) sig (?B (le32 PBR_TAG_SIG @ h2 @ h3 @ h4 @ h5 @ old @ r)) =
      Some (?B (le32 PBR_TAG_SIG @ le32 sig @ h3 @ h4 @ h5 @ old @ r))"
    by (subst store_field [where xs = "xs @ le32 PBR_TAG_SIG" and old = h2 and ys = "h3 @ h4 @ h5 @ old @ r @ ys"])
      (simp_all add: off h)
  have f3: "store32 (b, off + 8) k (?B (le32 PBR_TAG_SIG @ le32 sig @ h3 @ h4 @ h5 @ old @ r)) =
      Some (?B (le32 PBR_TAG_SIG @ le32 sig @ le32 k @ h4 @ h5 @ old @ r))"
    by (subst store_field [where xs = "xs @ le32 PBR_TAG_SIG @ le32 sig" and old = h3 and ys = "h4 @ h5 @ old @ r @ ys"])
      (simp_all add: off h)
  have f4: "store32 (b, off + 12) w (?B (le32 PBR_TAG_SIG @ le32 sig @ le32 k @ h4 @ h5 @ old @ r)) =
      Some (?B (le32 PBR_TAG_SIG @ le32 sig @ le32 k @ le32 w @ h5 @ old @ r))" for w
    by (subst store_field [where xs = "xs @ le32 PBR_TAG_SIG @ le32 sig @ le32 k" and old = h4 and ys = "h5 @ old @ r @ ys"])
      (simp_all add: off h)
  have f5: "store32 (b, off + 16) (of_nat n) (?B (le32 PBR_TAG_SIG @ le32 sig @ le32 k @ le32 (of_nat (tag_size n name descr)) @ h5 @ old @ r)) =
      Some (?B (hd @ old @ r))"
    by (subst store_field [where xs = "xs @ le32 PBR_TAG_SIG @ le32 sig @ le32 k @ le32 (of_nat (tag_size n name descr))" and old = h5 and ys = "old @ r @ ys"])
      (simp_all add: off h hd_def)
  have cs: "filter (\<lambda>c. PartitionSig c \<noteq> PBR_INVALID_SIG) (map ((!) (parts s)) [0..<MAX_PARTITIONS]) = take (length ws) (parts s)"
    using session_rep_valid [OF rep] rep map_nth [of "parts s"] by (simp add: session_rep_def)
  have f6: "SetTag_infos [0..<MAX_PARTITIONS] (b, off + 20) (?B (hd @ old @ r)) = Some (?B (hd @ info_bytes infos @ r))"
    using SetTag_infos_eq [of "?B (hd @ old @ r)" b "xs @ hd" old "r @ ys" "off + 20" "take (length ws) (parts s)" "[0..<MAX_PARTITIONS]"]
      cs session_rep_positions [OF rep] h(7) rep by (simp add: off hd_def infos_def session_rep_def)
  have split: "info_bytes infos @ r = info_bytes (take n infos) @ (info_bytes (drop n infos) @ r)"
    by (metis append_assoc append_take_drop_id info_bytes_simps(3))
  have lq: "length (info_bytes (drop n infos) @ r) = (length name + 1) + (length descr + 1)"
    using room h(8) ws by (simp add: rest_def)
  obtain q1 q2 where q: "info_bytes (drop n infos) @ r = q1 @ q2" "length q1 = length name + 1" "length q2 = length descr + 1"
  proof
    let ?q = "info_bytes (drop n infos) @ r"
    show "?q = take (length name + 1) ?q @ drop (length name + 1) ?q" by (rule append_take_drop_id [symmetric])
    show "length (take (length name + 1) ?q) = length name + 1" "length (drop (length name + 1) ?q) = length descr + 1"
      unfolding length_take length_drop lq by simp_all
  qed
  have lt: "length (take n infos) = n" using room(1) ws by simp
  have un: "unat (of_nat n :: u32) = n" "unat (of_nat (length name + 1) :: u32) = length name + 1" "unat (of_nat (length descr + 1) :: u32) = length descr + 1"
    using lim by (intro of_nat_unat_less; simp add: tag_size_def)+
  have f7: "UnicodeStrToAsciiStrS name (b, off + (20 + n * 8)) (length name + 1) (?B (hd @ info_bytes (take n infos) @ q1 @ q2)) =
      Some (?B (hd @ info_bytes (take n infos) @ ascii name @ q2))"
    using b q(2) lt
      store_field [of "?B (hd @ info_bytes (take n infos) @ q1 @ q2)" b "xs @ hd @ info_bytes (take n infos)" q1 "q2 @ ys" "ascii name" "off + (20 + n * 8)"]
    by (simp add: UnicodeStrToAsciiStrS_eq [OF ok(1), simplified] off hd_def)
  have f8: "UnicodeStrToAsciiStrS descr (b, off + (20 + n * 8) + (length name + 1)) (length descr + 1) (?B (hd @ info_bytes (take n infos) @ ascii name @ q2)) =
      Some (?B (hd @ info_bytes (take n infos) @ ascii name @ ascii descr))"
    using b q(3) lt
      store_field [of "?B (hd @ info_bytes (take n infos) @ ascii name @ q2)" b "xs @ hd @ info_bytes (take n infos) @ ascii name" q2 ys "ascii descr" "off + (20 + n * 8) + (length name + 1)"]
    by (simp add: UnicodeStrToAsciiStrS_eq [OF ok(2), simplified] off hd_def)
  have "tag_bytes sig k (take n infos) name descr = hd @ info_bytes (take n infos) @ ascii name @ ascii descr"
    by (simp only: tag_bytes_def lt hd_def append_assoc)
  then show ?thesis
    using f1 f2 f3 f4 f5 f6 f7 f8
    by (simp only: SetTag_fill_def ptr_add_simps un split q(1) bind.bind_lunit Let_def infos_def [symmetric])
qed

text \<open>The positions a tag keeps: those of the partitions there were, the tag partition apart.\<close>

definition marks :: "(u32 \<times> nat) list \<Rightarrow> part_view list \<Rightarrow> bool" where
  "marks infos vs \<longleftrightarrow> length infos = length vs \<and> set (map fst infos) \<subseteq> set (map vsig vs) \<and>
     (\<forall>v \<in> set vs. vsig v \<noteq> PBR_TAG_SIG \<longrightarrow> map_of infos (vsig v) = Some (vpos v)) \<and> (\<forall>x \<in> set infos. snd x < 2 ^ 32)"

lemma marks_record:
  assumes dist: "distinct (map vsig vs)" and lim: "\<forall>w \<in> set (view_record PBR_TAG_SIG d vs). vpos w < 2 ^ 32"
  shows "marks (take (length vs) (positions (view_record PBR_TAG_SIG d vs))) vs"
proof (cases "PBR_TAG_SIG \<in> set (map vsig vs)")
  case True
  then obtain i where i: "i < length vs" "vsig (vs ! i) = PBR_TAG_SIG" by (auto simp: in_set_conv_nth)
  define ws where "ws = vs[i := view_append d (vs ! i)]"
  have vr: "view_record PBR_TAG_SIG d vs = ws" using view_record_at [OF i(1) dist] i(2) by (simp add: ws_def)
  have sigs: "map vsig ws = map vsig vs" using i list_update_id [of "map vsig vs" i] by (simp add: ws_def map_update)
  have "map_of (positions ws) (vsig v) = Some (vpos v)" if v: "v \<in> set vs" "vsig v \<noteq> PBR_TAG_SIG" for v
  proof -
    obtain j where j: "j < length vs" "vs ! j = v" using v(1) by (auto simp: in_set_conv_nth)
    then have "ws ! j = v" using i v(2) by (auto simp: ws_def nth_list_update)
    then have "v \<in> set ws" using j(1) by (auto simp: ws_def in_set_conv_nth)
    moreover have "distinct (map fst (positions ws))" using dist sigs by (simp add: positions_def comp_def)
    ultimately show ?thesis by (auto simp: positions_def)
  qed
  then show ?thesis using lim sigs i by (auto simp: marks_def vr positions_def comp_def ws_def)
next
  case False
  have vr: "view_record PBR_TAG_SIG d vs = vs @ [view_new PBR_TAG_SIG False d]" by (rule view_record_new [OF False])
  have "map_of (positions vs) (vsig v) = Some (vpos v)" if "v \<in> set vs" for v
    using that dist by (intro map_of_is_SomeI) (auto simp: positions_def comp_def)
  then show ?thesis using lim by (auto simp: marks_def vr positions_def comp_def)
qed

lemma positions_same:
  "length d = length d' \<Longrightarrow> positions (view_record sig d vs) = positions (view_record sig d' vs)"
proof (induction vs)
  case Nil
  then show ?case using view_same(4) [OF Nil] by (simp add: positions_def)
next
  case (Cons v vs)
  then show ?case using view_same(2) [OF Cons.prems] by (simp add: positions_def)
qed

lemma view_record_length: "length vs \<le> length (view_record sig d vs) \<and> length (view_record sig d vs) \<le> length vs + 1"
  by (induction vs) auto

lemma session_rep_vpos: "session_rep s vs \<Longrightarrow> v \<in> set vs \<Longrightarrow> vpos v < 2 ^ 32"
proof -
  assume rep: "session_rep s vs" and "v \<in> set vs"
  then obtain i where "i < length vs" "vs ! i = v" by (auto simp: in_set_conv_nth)
  then have "vpos v = unat (PartitionCurrentOffset (parts s ! i))" using rep by (auto simp: session_rep_def part_rep_def)
  then show ?thesis using unat32_less by simp
qed

lemma PbrSetTag_rep:
  assumes rep: "session_rep s vs" and rc: "recording vs" and mode: "PbrMode (gPbrContext s) = PBR_RECORD_MODE"
    and slot: "PBR_TAG_SIG \<in> set (map vsig vs) \<or> length vs < MAX_PARTITIONS"
    and lim: "PARTITION_GROW_SZ_MULTIPLIER * (total_end vs + (tag_size (length vs) name descr + sizeof_item)) < 2 ^ 32"
    and alloc: "False \<notin> set (alloc_ok s)" and ok: "text_ok name" "text_ok descr" "6 \<le> length name + length descr"
  defines "k \<equiv> length (items_of PBR_TAG_SIG vs)"
  shows "\<exists>infos s'. PbrSetTag sig (Some name) (Some descr) s = Some (EFI_SUCCESS, of_nat k, s') \<and> marks infos vs \<and>
     session_rep s' (view_record PBR_TAG_SIG (tag_bytes sig (of_nat k) infos name descr) vs) \<and>
     kept (length vs) s (length (view_record PBR_TAG_SIG (tag_bytes sig (of_nat k) infos name descr) vs)) s' \<and> pbr_env s' = pbr_env s"
proof -
  let ?n = "tag_size (length vs) name descr"
  let ?vr = "\<lambda>d. view_record PBR_TAG_SIG d vs"
  have sz: "unat (of_nat ?n :: u32) = ?n" using lim by (intro of_nat_unat_less) simp
  have tag: "(PBR_TAG_SIG :: u32) \<noteq> PBR_INVALID_SIG" by simp
  obtain b xs d0 ys s1 where s1: "PbrSetData PBR_TAG_SIG NULL (of_nat ?n) False s = Some (EFI_SUCCESS, (b, length xs), of_nat k, s1)"
      "length d0 = ?n" "blocks s1 b = Some (xs @ d0 @ ys)" "b \<in> set (owned s1 (length (?vr d0)))"
      "kept (length vs) s (length (?vr d0)) s1"
      "\<forall>d'. length d' = length d0 \<longrightarrow> length (?vr d') = length (?vr d0) \<and> session_rep (s1\<lparr>blocks := (blocks s1)(b \<mapsto> xs @ d' @ ys)\<rparr>) (?vr d')"
    using PbrSetData_reserve [OF rep rc tag slot _ alloc, of "of_nat ?n", unfolded sz, OF lim] unfolding k_def by blast
  have rep1: "session_rep s1 (?vr d0)" using s1(6) [rule_format, OF refl] s1(3) by (simp add: fun_upd_idem)
  define infos where "infos = take (length vs) (positions (?vr d0))"
  define d where "d = tag_bytes sig (of_nat k) infos name descr"
  define s2 where "s2 = s1\<lparr>blocks := (blocks s1)(b \<mapsto> xs @ d @ ys)\<rparr>"
  have mk: "marks infos vs"
    using rep session_rep_vpos [OF rep1] unfolding infos_def by (intro marks_record) (auto simp: session_rep_def)
  then have ld: "length d = length d0" using s1(2) by (simp add: d_def length_tag_bytes marks_def)
  have "SetTag_fill sig (of_nat k) (of_nat ?n) (of_nat (length vs)) name (of_nat (length name + 1)) descr (of_nat (length descr + 1)) (b, length xs) s1 = Some s2"
    unfolding s2_def d_def infos_def
  proof (rule SetTag_fill_eq [OF rep1 s1(3) refl s1(2) ok(1,2)])
    show "length vs \<le> length (?vr d0)" "8 * length (?vr d0) \<le> 8 * length vs + (length name + 1) + (length descr + 1)"
      using view_record_length [of vs PBR_TAG_SIG d0] ok(3) by auto
    show "?n < 2 ^ 32" using lim by simp
    show "b \<noteq> 0" using rep1 s1(3) pool_ok_fresh [of s1 b] by (auto simp: session_rep_def)
  qed
  moreover have "of_nat sizeof_Tag + (of_nat (length descr + 1) + of_nat (length name + 1)) + of_nat (length vs) * of_nat sizeof_TagPartitionInfo = (of_nat ?n :: u32)"
    by (simp add: tag_size_def)
  ultimately have "PbrSetTag sig (Some name) (Some descr) s = Some (EFI_SUCCESS, of_nat k, s2)"
    using mode s1(1) text_ok_simps(1) [OF ok(1)] text_ok_simps(1) [OF ok(2)] PbrPartitionCount_rep [OF rep]
    by (simp add: PbrSetTag_def)
  note v = s1(6) [rule_format, OF ld]
  have "kept (length vs) s (length (?vr d)) s2"
  proof (rule kept_trans [OF s1(5)], rule keptI)
    show "blocks s2 b' = blocks s1 b'" if "foreign s1 (length (?vr d0)) b'" for b'
      using that s1(4) by (auto simp: foreign_def s2_def)
    show "set (owned s2 (length (?vr d))) \<subseteq> set (owned s1 (length (?vr d0))) \<union> {}"
      using v by (simp add: owned_def s2_def)
  qed (simp_all add: s2_def)
  moreover have "pbr_env s2 = pbr_env s" using PbrSetData_env [OF s1(1)] by (simp add: s2_def)
  ultimately show ?thesis
    using \<open>PbrSetTag sig (Some name) (Some descr) s = Some (EFI_SUCCESS, of_nat k, s2)\<close> mk v unfolding d_def s2_def by blast
qed

section \<open>Back to a tag\<close>

definition reset_to :: "(u32 \<times> nat) list \<Rightarrow> part_view \<Rightarrow> part_view" where
  "reset_to infos v = v\<lparr>vpos := (case map_of infos (vsig v) of None \<Rightarrow> 0 | Some off \<Rightarrow> off)\<rparr>"

definition slot_reset :: "(u32 \<times> nat) list \<Rightarrow> PbrPartitionContext \<Rightarrow> PbrPartitionContext" where
  "slot_reset infos c =
     (if PartitionSig c \<noteq> PBR_INVALID_SIG
      then c\<lparr>PartitionCurrentOffset := (case map_of infos (PartitionSig c) of None \<Rightarrow> 0 | Some off \<Rightarrow> of_nat off)\<rparr> else c)"

lemma Reset_offset_eq:
  "blocks s b = Some (xs @ info_bytes infos @ ys) \<Longrightarrow> off = length xs \<Longrightarrow>
     Reset_offset (b, off) (length infos) sig s = Some (case map_of infos sig of None \<Rightarrow> 0 | Some pos \<Rightarrow> of_nat pos)"
proof (induction infos arbitrary: xs off)
  case (Cons x infos)
  obtain sg pos where x: "x = (sg, pos)" by fastforce
  have blk: "blocks s b = Some (xs @ le32 sg @ le32 (of_nat pos) @ info_bytes infos @ ys)" using Cons.prems(1) x by simp
  have "load32 (b, off) s = Some sg" "load32 (b, off + 4) s = Some (of_nat pos)"
    using load32_at [of s b xs sg] load32_at [of s b "xs @ le32 sg" "of_nat pos" "info_bytes infos @ ys"] blk Cons.prems(2) by simp_all
  moreover have "Reset_offset (b, off + 8) (length infos) sig s = Some (case map_of infos sig of None \<Rightarrow> 0 | Some pos \<Rightarrow> of_nat pos)"
    using blk Cons.prems(2) by (intro Cons.IH [of "xs @ le32 sg @ le32 (of_nat pos)"]) simp_all
  ultimately show ?case by (simp add: x)
qed simp

lemma Reset_loop_eq:
  assumes "blocks s b = Some (tag_bytes sig k infos name descr)" "length infos < 2 ^ 32" "distinct is" "set is \<subseteq> {..<length (parts s)}"
  shows "Reset_loop (b, 0) is s =
     Some (set_parts (map (\<lambda>j. if j \<in> set is then slot_reset infos (parts s ! j) else parts s ! j) [0..<length (parts s)]) s)"
  using assms
proof (induction "is" arbitrary: s)
  case Nil
  then show ?case using map_nth [of "parts s"] by (simp add: set_parts_def parts_def)
next
  case (Cons i "is")
  define hd where "hd = le32 PBR_TAG_SIG @ le32 sig @ le32 k @ le32 (of_nat (tag_size (length infos) name descr))"
  have blk: "blocks s b = Some (hd @ le32 (of_nat (length infos)) @ info_bytes infos @ ascii name @ ascii descr)"
    using Cons.prems(1) by (simp add: tag_bytes_def hd_def)
  have cnt: "load32 (b, 16) s = Some (of_nat (length infos))" "unat (of_nat (length infos) :: u32) = length infos"
    using load32_at [OF blk, of 16] of_nat_unat_less [OF Cons.prems(2)] by (simp_all add: hd_def)
  have off: "Reset_offset (b, 20) (length infos) g s = Some (case map_of infos g of None \<Rightarrow> 0 | Some pos \<Rightarrow> of_nat pos)" for g
    using Reset_offset_eq [of s b "hd @ le32 (of_nat (length infos))" infos "ascii name @ ascii descr" 20 g] blk by (simp add: hd_def)
  define s1 where "s1 = set_part i (slot_reset infos) s"
  have ps: "parts s1 = (parts s)[i := slot_reset infos (parts s ! i)]" by (simp add: s1_def)
  have "Reset_loop (b, 0) (i # is) s = Reset_loop (b, 0) is s1"
  proof (cases "PartitionSig (parts s ! i) = PBR_INVALID_SIG")
    case True
    then have "s1 = s" by (simp add: s1_def set_part_def slot_reset_def set_parts_def parts_def)
    then show ?thesis using True by simp
  next
    case False
    then have "s1 = set_part i (\<lambda>c. c\<lparr>PartitionCurrentOffset := (case map_of infos (PartitionSig (parts s ! i)) of None \<Rightarrow> 0 | Some pos \<Rightarrow> of_nat pos)\<rparr>) s"
      by (simp add: s1_def set_part_def slot_reset_def)
    then show ?thesis using False cnt off by simp
  qed
  also have "\<dots> = Some (set_parts (map (\<lambda>j. if j \<in> set is then slot_reset infos (parts s1 ! j) else parts s1 ! j) [0..<length (parts s1)]) s1)"
    using Cons.prems by (intro Cons.IH) (simp_all add: s1_def)
  also have "map (\<lambda>j. if j \<in> set is then slot_reset infos (parts s1 ! j) else parts s1 ! j) [0..<length (parts s1)] =
      map (\<lambda>j. if j \<in> set (i # is) then slot_reset infos (parts s ! j) else parts s ! j) [0..<length (parts s)]"
    using Cons.prems(3,4) by (intro map_cong refl) (auto simp: ps nth_list_update)
  finally show ?case by (simp add: s1_def set_part_def set_parts_def)
qed

lemma session_rep_reset:
  assumes rep: "session_rep s vs" and lim: "\<forall>x \<in> set infos. snd x < 2 ^ 32"
  shows "session_rep (set_parts (map (slot_reset infos) (parts s)) s) (map (reset_to infos) vs)"
proof -
  let ?s = "set_parts (map (slot_reset infos) (parts s)) s"
  have n: "length vs \<le> length (parts s)" "length (parts s) = MAX_PARTITIONS" using rep by (simp_all add: session_rep_def)
  have data: "PartitionData (slot_reset infos c) = PartitionData c" "PartitionSig (slot_reset infos c) = PartitionSig c" for c
    by (simp_all add: slot_reset_def)
  have own: "owned ?s m = owned s m" for m
    by (simp add: owned_def set_parts_def parts_def take_map comp_def data)
  have pos: "unat (case map_of infos g of None \<Rightarrow> (0 :: u32) | Some off \<Rightarrow> of_nat off) = (case map_of infos g of None \<Rightarrow> 0 | Some off \<Rightarrow> off)" for g
    using lim by (auto split: option.split dest!: map_of_SomeD intro!: of_nat_unat_less)
  have pr: "part_rep ?s (slot_reset infos c) (reset_to infos v)" if "part_rep s c v" for c v
    using that pos [of "vsig v"] by (simp add: part_rep_def slot_reset_def reset_to_def part_bytes_def set_parts_def)
  have sigs: "map vsig (map (reset_to infos) vs) = map vsig vs" by (simp add: reset_to_def)
  have "part_rep ?s (parts ?s ! i) (map (reset_to infos) vs ! i)" if "i < length vs" for i
    using pr [OF session_rep_part [OF rep that]] that n by simp
  moreover have "pool_ok ?s" "header_rep ?s" using rep by (simp_all add: session_rep_def pool_ok_def header_rep_def set_parts_def)
  moreover have "PartitionSig (parts ?s ! i) = PBR_INVALID_SIG" if "length vs \<le> i" "i < MAX_PARTITIONS" for i
    using rep that n data by (simp add: session_rep_def)
  ultimately show ?thesis using rep unfolding session_rep_def sigs own by (simp add: n)
qed

lemma PbrResetSession_rep:
  assumes rep: "session_rep s vs" and i: "i < length vs" "vsig (vs ! i) = PBR_TAG_SIG"
    and k: "k < length (vitems (vs ! i))" "vitems (vs ! i) ! k = tag_bytes sig k' infos name descr"
    and lim: "length infos < 2 ^ 32" "\<forall>x \<in> set infos. snd x < 2 ^ 32" and alloc: "False \<notin> set (alloc_ok s)"
  shows "\<exists>s'. PbrResetSession (of_nat k) s = Some (EFI_SUCCESS, s') \<and> session_rep s' (map (reset_to infos) vs) \<and>
     set (alloc_ok s') \<subseteq> set (alloc_ok s) \<and> PbrMode (gPbrContext s') = PbrMode (gPbrContext s)"
proof -
  define b where "b = next_block s"
  define s1 where "s1 = handed_out (tag_bytes sig k' infos name descr) s"
  have get: "PbrGetData PBR_TAG_SIG (of_nat k) False s = Some (EFI_SUCCESS, (b, 0), of_nat (tag_size (length infos) name descr), 0, s1)"
    using PbrGetData_index [OF rep i(1) k(1) alloc, of False] i(2) k(2) by (simp add: s1_def b_def length_tag_bytes)
  have rep1: "session_rep s1 vs" "foreign s1 (length vs) b" using handed_out_rep [OF rep] by (simp_all add: s1_def b_def)
  have blk: "blocks s1 b = Some (tag_bytes sig k' infos name descr)" by (simp add: s1_def b_def)
  define s2 where "s2 = set_parts (map (slot_reset infos) (parts s1)) s1"
  have "map (\<lambda>j. if j \<in> set [0..<MAX_PARTITIONS] then slot_reset infos (parts s1 ! j) else parts s1 ! j) [0..<length (parts s1)] = map (slot_reset infos) (parts s1)"
    using rep1(1) by (auto simp: session_rep_def intro!: nth_equalityI)
  then have loop: "Reset_loop (b, 0) [0..<MAX_PARTITIONS] s1 = Some s2"
    using Reset_loop_eq [OF blk lim(1), of "[0..<MAX_PARTITIONS]"] rep1(1) by (simp add: s2_def session_rep_def subset_eq)
  have rep2: "session_rep s2 (map (reset_to infos) vs)" unfolding s2_def by (rule session_rep_reset [OF rep1(1) lim(2)])
  have "owned s2 (length vs) = owned s1 (length vs)"
    by (simp add: s2_def owned_def set_parts_def parts_def take_map comp_def slot_reset_def)
  then have "foreign s2 (length (map (reset_to infos) vs)) b" using rep1(2) by (simp add: foreign_def s2_def set_parts_def)
  from FreePool_foreign [OF rep2 this] obtain s3 where s3: "FREE_POOL_SAFE (b, 0) s2 = Some s3" "session_rep s3 (map (reset_to infos) vs)"
      "gPbrContext s3 = gPbrContext s2" "alloc_ok s3 = alloc_ok s2" by blast
  have "set (alloc_ok s3) \<subseteq> set (alloc_ok s)"
    using s3(4) by (cases "alloc_ok s") (auto simp: s2_def s1_def handed_out_def set_parts_def)
  moreover have "PbrMode (gPbrContext s3) = PbrMode (gPbrContext s)"
    using s3(3) by (simp add: s2_def s1_def set_parts_def)
  moreover have "PbrResetSession (of_nat k) s = Some (EFI_SUCCESS, s3)" using get loop s3(1) by (simp add: PbrResetSession_def)
  ultimately show ?thesis using s3(2) by blast
qed

lemma play_behind_mark:
  assumes rep: "session_rep s (map (reset_to infos) (map rewind vs))" and mk: "marks infos ws" and rc: "recording ws"
    and dist: "distinct (map vsig ws)" "distinct (map vsig vs)" and g: "g \<in> set (map vsig vs)" "g \<noteq> PBR_TAG_SIG"
    and items: "items_of g vs = items_of g ws @ ds" and alloc: "False \<notin> set (alloc_ok s)"
  shows "\<exists>s'. play g (length ds) s = Some (ds, s')"
proof -
  obtain j where j: "j < length vs" "vsig (vs ! j) = g" using g(1) by (auto simp: in_set_conv_nth)
  define v where "v = reset_to infos (rewind (vs ! j))"
  have v: "map (reset_to infos) (map rewind vs) ! j = v" "vsig v = g" "vitems v = items_of g ws @ ds"
    using j items items_of_at [OF j(1) dist(2)] by (simp_all add: v_def reset_to_def)
  have "vpos v = item_at v (length (items_of g ws))"
  proof (cases "g \<in> set (map vsig ws)")
    case True
    then obtain i where i: "i < length ws" "vsig (ws ! i) = g" by (auto simp: in_set_conv_nth)
    have "map_of infos g = Some (vpos (ws ! i))" using mk i g(2) nth_mem [OF i(1)] by (auto simp: marks_def)
    moreover have "vpos (ws ! i) = vend (ws ! i)" using rc nth_mem [OF i(1)] by (auto simp: recording_def at_end_def)
    ultimately show ?thesis
      using v(3) j(2) items_of_at [OF i(1) dist(1)] i(2) by (simp add: item_at_def vend_def v_def reset_to_def)
  next
    case False
    then have "map_of infos g = None" using mk by (auto simp: marks_def map_of_eq_None_iff)
    then show ?thesis using items_of_none [OF False] j(2) by (simp add: item_at_simps v_def reset_to_def)
  qed
  then show ?thesis
    using play_rest [OF rep, of j "length (items_of g ws)" "length ds"] j(1) v alloc by auto
qed

lemma length_recorded_new: "session_rep s (recorded log []) \<Longrightarrow> length (recorded log []) = card (set (map fst log))"
  using sigs_recorded [of log "[]"] distinct_card [of "map vsig (recorded log [])"] by (simp add: session_rep_def)

lemma tagged_recording:
  assumes rep: "session_rep s2 []" and mode: "PbrMode (gPbrContext s2) = PBR_RECORD_MODE" and alloc: "False \<notin> set (alloc_ok s2)"
    and rs: "requested s2 0 rs1 log1" "requested s2 0 rs2 log2"
    and sigs: "card (insert PBR_TAG_SIG (set (map fst log1) \<union> set (map fst log2))) \<le> MAX_PARTITIONS"
    and strs: "text_ok name" "text_ok descr" "6 \<le> length name + length descr"
    and fits: "sizeof_header + PARTITION_GROW_SZ_MULTIPLIER *
      (cost log1 + (tag_size (card (set (map fst log1))) name descr + sizeof_item) + cost log2) < 2 ^ 32"
  defines "ws \<equiv> recorded log1 []"
  defines "k \<equiv> length (items_of PBR_TAG_SIG ws)"
  shows "\<exists>infos s3 s4 s5. record_all rs1 s2 = Some s3 \<and> PbrSetTag sig (Some name) (Some descr) s3 = Some (EFI_SUCCESS, of_nat k, s4) \<and>
     record_all rs2 s4 = Some s5 \<and> marks infos ws \<and> recording ws \<and> distinct (map vsig ws) \<and>
     session_rep s5 (recorded ((PBR_TAG_SIG, tag_bytes sig (of_nat k) infos name descr) # log2) ws) \<and>
     False \<notin> set (alloc_ok s5) \<and> pbr_env s5 = pbr_env s2 \<and> length infos = card (set (map fst log1)) \<and> length infos < 2 ^ 32 \<and>
     sizeof_header + data_size (recorded ((PBR_TAG_SIG, tag_bytes sig (of_nat k) infos name descr) # log2) ws) < 2 ^ 32"
proof -
  define S1 where "S1 = set (map fst log1)"
  have "card (insert PBR_TAG_SIG S1) \<le> MAX_PARTITIONS"
    by (rule le_trans [OF _ sigs]) (intro card_mono, auto simp: S1_def)
  then have c1: "card S1 \<le> MAX_PARTITIONS" "PBR_TAG_SIG \<in> S1 \<or> card S1 < MAX_PARTITIONS"
    by (auto simp: S1_def card_insert_if split: if_splits)
  obtain s3 where s3: "record_all rs1 s2 = Some s3" "session_rep s3 ws" "kept 0 s2 (length ws) s3"
    using record_all_rep [OF rep _ _ _ _ alloc, of rs1 log1] rs(1) c1(1) fits by (auto simp: ws_def recording_def total_end_def S1_def)
  have w: "recording ws" "total_end ws = cost log1" "length ws = card S1" "set (map vsig ws) = S1" "distinct (map vsig ws)"
    using recording_recorded [of "[]" log1] total_end_recorded [of log1 "[]"] length_recorded_new [of s3 log1] sigs_recorded [of log1 "[]"] s3(2)
    by (simp_all add: ws_def recording_def total_end_def session_rep_def S1_def)
  have e3: "False \<notin> set (alloc_ok s3)" "PbrMode (gPbrContext s3) = PBR_RECORD_MODE" "pbr_env s3 = pbr_env s2"
    using s3(3) mode alloc record_all_env [OF s3(1)] by (auto simp: kept_def)
  obtain infos s4 where s4: "PbrSetTag sig (Some name) (Some descr) s3 = Some (EFI_SUCCESS, of_nat k, s4)" "marks infos ws"
      "session_rep s4 (view_record PBR_TAG_SIG (tag_bytes sig (of_nat k) infos name descr) ws)"
      "kept (length ws) s3 (length (view_record PBR_TAG_SIG (tag_bytes sig (of_nat k) infos name descr) ws)) s4" "pbr_env s4 = pbr_env s3"
    using PbrSetTag_rep [OF s3(2) w(1) e3(2) _ _ e3(1) strs, of sig] fits w(2-4) c1(2) unfolding k_def S1_def by auto
  define T where "T = tag_bytes sig (of_nat k) infos name descr"
  define us where "us = view_record PBR_TAG_SIG T ws"
  have lT: "length T = tag_size (card S1) name descr" using s4(2) w(3) by (simp add: T_def length_tag_bytes marks_def)
  have u: "recording us" "total_end us = cost log1 + (length T + sizeof_item)" "set (map vsig us) = insert PBR_TAG_SIG S1"
    using recording_record [OF w(1)] w(2,4) sigs_record [of PBR_TAG_SIG T ws] by (simp_all add: us_def)
  have rq4: "requested s4 (length us) rs2 log2"
    using requested_kept [OF requested_kept [OF rs(2) s3(3)] s4(4)] by (simp add: us_def T_def)
  have e4: "False \<notin> set (alloc_ok s4)" using s4(4) e3(1) by (auto simp: kept_def)
  have vs: "recorded ((PBR_TAG_SIG, T) # log2) ws = recorded log2 us" by (simp add: recorded_def us_def)
  obtain s5 where s5: "record_all rs2 s4 = Some s5" "session_rep s5 (recorded log2 us)" "kept (length us) s4 (length (recorded log2 us)) s5"
    using record_all_rep [OF s4(3) [folded T_def, folded us_def] u(1) rq4 _ _ e4] sigs u(2,3) lT fits by (auto simp: S1_def)
  have "sizeof_header + data_size (recorded log2 us) < 2 ^ 32"
    using data_size_recording [OF recording_recorded [OF u(1), of log2]] total_end_recorded [of log2 us] u(2) lT fits by (simp add: S1_def)
  moreover have "False \<notin> set (alloc_ok s5)" "pbr_env s5 = pbr_env s2"
    using s5(3) e4 record_all_env [OF s5(1)] s4(5) e3(3) by (auto simp: kept_def)
  moreover have "length infos = card (set (map fst log1))" "length infos < 2 ^ 32" using s4(2) w(3) c1(1) by (simp_all add: marks_def MAX_PARTITIONS_def S1_def)
  ultimately show ?thesis using s3(1) s4(1,2) s5(1,2) w(1,5) unfolding vs [symmetric] T_def by blast
qed

text \<open>
  C12: Resetting to a tag resumes behind it. Start a session, record a first sequence of items, set a
  tag, record a second sequence, load the image of the session and reset it to the id the tag was given:
  for every signature of the second sequence, playback returns exactly the items recorded under it
  after the tag, in their order, and every step on the way succeeds. Both sequences may hold items of
  earlier and later tags; the strings of the tag have six characters or more together.
\<close>

theorem reset_to_tag_resumes:
  assumes start: "no_session s" and rs: "requested s 0 rs1 log1" "requested s 0 rs2 log2"
    and sigs: "card (insert PBR_TAG_SIG (set (map fst log1) \<union> set (map fst log2))) \<le> MAX_PARTITIONS"
    and strs: "text_ok name" "text_ok descr" "6 \<le> length name + length descr"
    and fits: "sizeof_header + PARTITION_GROW_SZ_MULTIPLIER *
      (cost log1 + (tag_size (card (set (map fst log1))) name descr + sizeof_item) + cost log2) < 2 ^ 32"
    and env: "False \<notin> set (alloc_ok s)" "set_variable_rc s = EFI_SUCCESS"
  shows "\<exists>s1 s2 s3 s4 s5 s6 s7 s8 s9 tag p n.
     PbrSetSession NULL 0 s = Some (EFI_SUCCESS, s1) \<and> PbrSetMode PBR_RECORD_MODE s1 = Some (EFI_SUCCESS, s2) \<and>
     record_all rs1 s2 = Some s3 \<and> PbrSetTag sig (Some name) (Some descr) s3 = Some (EFI_SUCCESS, tag, s4) \<and>
     record_all rs2 s4 = Some s5 \<and> PbrGetSession True s5 = Some (EFI_SUCCESS, p, n, s6) \<and>
     PbrSetSession p n s6 = Some (EFI_SUCCESS, s7) \<and> PbrSetMode PBR_PLAYBACK_MODE s7 = Some (EFI_SUCCESS, s8) \<and>
     PbrResetSession tag s8 = Some (EFI_SUCCESS, s9) \<and>
     (\<forall>g \<in> set (map fst log2) - {PBR_TAG_SIG}. \<exists>s10. play g (length (logged g log2)) s9 = Some (logged g log2, s10))"
proof -
  obtain s1 s2 where s2: "PbrSetSession NULL 0 s = Some (EFI_SUCCESS, s1)" "PbrSetMode PBR_RECORD_MODE s1 = Some (EFI_SUCCESS, s2)"
      "session_rep s2 []" "PbrMode (gPbrContext s2) = PBR_RECORD_MODE" "False \<notin> set (alloc_ok s2)" "set_variable_rc s2 = EFI_SUCCESS"
      "\<forall>b. blocks s b \<noteq> None \<longrightarrow> foreign s2 0 b \<and> blocks s2 b = blocks s b"
    using start_recording [OF start env] by blast
  have rq: "requested s2 0 rs log" if "requested s 0 rs log" for rs log by (rule requested_start [OF that s2(7)])
  define ws where "ws = recorded log1 []"
  define k where "k = length (items_of PBR_TAG_SIG ws)"
  obtain infos s3 s4 s5 where s5: "record_all rs1 s2 = Some s3" "PbrSetTag sig (Some name) (Some descr) s3 = Some (EFI_SUCCESS, of_nat k, s4)"
      "record_all rs2 s4 = Some s5" "marks infos ws" "recording ws" "distinct (map vsig ws)"
      "session_rep s5 (recorded ((PBR_TAG_SIG, tag_bytes sig (of_nat k) infos name descr) # log2) ws)"
      "False \<notin> set (alloc_ok s5)" "pbr_env s5 = pbr_env s2" "length infos < 2 ^ 32"
      "sizeof_header + data_size (recorded ((PBR_TAG_SIG, tag_bytes sig (of_nat k) infos name descr) # log2) ws) < 2 ^ 32"
    using tagged_recording [OF s2(3-5) rq [OF rs(1)] rq [OF rs(2)] sigs strs fits, of sig] unfolding ws_def k_def by blast
  define T where "T = tag_bytes sig (of_nat k) infos name descr"
  define vs where "vs = recorded ((PBR_TAG_SIG, T) # log2) ws"
  obtain p n s6 s7 s8 where s8: "PbrGetSession True s5 = Some (EFI_SUCCESS, p, n, s6)" "PbrSetSession p n s6 = Some (EFI_SUCCESS, s7)"
      "PbrSetMode PBR_PLAYBACK_MODE s7 = Some (EFI_SUCCESS, s8)" "session_rep s8 (map rewind vs)" "False \<notin> set (alloc_ok s8)"
    using load_for_playback [OF s5(7,11,8)] s5(9) s2(6) unfolding vs_def T_def by (auto simp: pbr_env_def)
  have items: "items_of g vs = items_of g ws @ logged g ((PBR_TAG_SIG, T) # log2)" for g by (simp add: vs_def items_of_recorded)
  have vsigs: "set (map vsig vs) = set (map vsig ws) \<union> insert PBR_TAG_SIG (set (map fst log2))"
    using sigs_recorded [of "(PBR_TAG_SIG, T) # log2" ws] by (simp add: vs_def)
  have dist: "distinct (map vsig vs)" using s5(7) by (simp add: session_rep_def vs_def T_def)
  have "PBR_TAG_SIG \<in> set (map vsig vs)" unfolding vsigs by blast
  then obtain i where i: "i < length vs" "vsig (vs ! i) = PBR_TAG_SIG" by (auto simp: in_set_conv_nth)
  have it: "vitems (vs ! i) = items_of PBR_TAG_SIG ws @ T # logged PBR_TAG_SIG log2"
    using items_of_at [OF i(1) dist] items [of PBR_TAG_SIG] i(2) by (simp add: logged_def)
  have at: "i < length (map rewind vs)" "vsig (map rewind vs ! i) = PBR_TAG_SIG" "k < length (vitems (map rewind vs ! i))"
      "vitems (map rewind vs ! i) ! k = tag_bytes sig (of_nat k) infos name descr"
    using i it by (simp_all add: k_def T_def)
  have "\<forall>x \<in> set infos. snd x < 2 ^ 32" using s5(4) unfolding marks_def by blast
  then obtain s9 where s9: "PbrResetSession (of_nat k) s8 = Some (EFI_SUCCESS, s9)" "session_rep s9 (map (reset_to infos) (map rewind vs))"
      "set (alloc_ok s9) \<subseteq> set (alloc_ok s8)"
    using PbrResetSession_rep [OF s8(4) at s5(10) _ s8(5)] by blast
  have "\<exists>s10. play g (length (logged g log2)) s9 = Some (logged g log2, s10)" if g: "g \<in> set (map fst log2) - {PBR_TAG_SIG}" for g
  proof (rule play_behind_mark [OF s9(2) s5(4-6) dist])
    show "g \<in> set (map vsig vs)" "g \<noteq> PBR_TAG_SIG" "False \<notin> set (alloc_ok s9)" using g vsigs s9(3) s8(5) by auto
    show "items_of g vs = items_of g ws @ logged g log2" using items [of g] g by (simp add: logged_def)
  qed
  with s2(1,2) s5(1-3) s8(1-3) s9(1) show ?thesis by blast
qed

theorem reset_to_tag_resumes_witness:
  "\<exists>s1 s2 s3 s4 s5 s6 s7 s8 s9 tag p n.
     PbrSetSession NULL 0 demo_pbr = Some (EFI_SUCCESS, s1) \<and> PbrSetMode PBR_RECORD_MODE s1 = Some (EFI_SUCCESS, s2) \<and>
     record_all [(5, (1, 0), 3)] s2 = Some s3 \<and>
     PbrSetTag 9 (Some [118, 101, 114, 115, 105, 111, 110]) (Some [48]) s3 = Some (EFI_SUCCESS, tag, s4) \<and>
     record_all [(5, (1, 1), 2), (6, (2, 0), 1)] s4 = Some s5 \<and> PbrGetSession True s5 = Some (EFI_SUCCESS, p, n, s6) \<and>
     PbrSetSession p n s6 = Some (EFI_SUCCESS, s7) \<and> PbrSetMode PBR_PLAYBACK_MODE s7 = Some (EFI_SUCCESS, s8) \<and>
     PbrResetSession tag s8 = Some (EFI_SUCCESS, s9) \<and>
     (\<exists>s10. play 5 1 s9 = Some ([[2, 3]], s10)) \<and> (\<exists>s10. play 6 1 s9 = Some ([[7]], s10))"
proof -
  let ?rs1 = "[(5, (1, 0), 3)] :: (u32 \<times> ptr \<times> u32) list" and ?rs2 = "[(5, (1, 1), 2), (6, (2, 0), 1)] :: (u32 \<times> ptr \<times> u32) list"
  let ?log1 = "[(5, [1, 2, 3])] :: (u32 \<times> u8 list) list" and ?log2 = "[(5, [2, 3]), (6, [7])] :: (u32 \<times> u8 list) list"
  let ?name = "[118, 101, 114, 115, 105, 111, 110] :: u16 list" and ?descr = "[48] :: u16 list"
  have rq: "requested demo_pbr 0 ?rs1 ?log1" "requested demo_pbr 0 ?rs2 ?log2"
    by (simp_all add: demo_pbr_def foreign_def owned_def zero_context_def load_def)
  moreover have "card (insert PBR_TAG_SIG (set (map fst ?log1) \<union> set (map fst ?log2))) \<le> MAX_PARTITIONS"
    by (simp add: MAX_PARTITIONS_def card_insert_if)
  moreover have "text_ok ?name" "text_ok ?descr" "6 \<le> length ?name + length ?descr" by (simp_all add: text_ok_def MAX_STRING_def)
  moreover have "sizeof_header + PARTITION_GROW_SZ_MULTIPLIER *
      (cost ?log1 + (tag_size (card (set (map fst ?log1))) ?name ?descr + sizeof_item) + cost ?log2) < 2 ^ 32"
    by (simp add: cost_def tag_size_def)
  moreover have "False \<notin> set (alloc_ok demo_pbr)" "set_variable_rc demo_pbr = EFI_SUCCESS" by (simp_all add: demo_pbr_def)
  ultimately have "\<exists>s1 s2 s3 s4 s5 s6 s7 s8 s9 tag p n.
     PbrSetSession NULL 0 demo_pbr = Some (EFI_SUCCESS, s1) \<and> PbrSetMode PBR_RECORD_MODE s1 = Some (EFI_SUCCESS, s2) \<and>
     record_all ?rs1 s2 = Some s3 \<and> PbrSetTag 9 (Some ?name) (Some ?descr) s3 = Some (EFI_SUCCESS, tag, s4) \<and>
     record_all ?rs2 s4 = Some s5 \<and> PbrGetSession True s5 = Some (EFI_SUCCESS, p, n, s6) \<and>
     PbrSetSession p n s6 = Some (EFI_SUCCESS, s7) \<and> PbrSetMode PBR_PLAYBACK_MODE s7 = Some (EFI_SUCCESS, s8) \<and>
     PbrResetSession tag s8 = Some (EFI_SUCCESS, s9) \<and>
     (\<forall>g \<in> set (map fst ?log2) - {PBR_TAG_SIG}. \<exists>s10. play g (length (logged g ?log2)) s9 = Some (logged g ?log2, s10))"
    by (rule reset_to_tag_resumes [OF demo_pbr_no_session])
  moreover have "logged 5 ?log2 = [[2, 3]]" "logged 6 ?log2 = [[7]]" by (simp_all add: logged_def)
  moreover have "5 \<in> set (map fst ?log2) - {PBR_TAG_SIG}" "6 \<in> set (map fst ?log2) - {PBR_TAG_SIG}"
      "length [[2, 3 :: u8]] = 1" "length [[7 :: u8]] = 1"
    by simp_all
  ultimately show ?thesis by metis
qed

end
