(* ===== verification/Pbr_Tag_Read.thy ===== *)
theory Pbr_Tag_Read
  imports Pbr_Tag_Replay
begin

text \<open>
  Reading tags back: \<open>PbrGetTag\<close> returns the signature and the strings a tag was set with, and
  \<open>PbrGetTagCount\<close> counts the tags.
\<close>

section \<open>Strings in the pool\<close>

definition wide :: "u16 list \<Rightarrow> u8 list" where
  "wide xs = concat (map le16 (xs @ [0]))"

definition plain :: "u16 list \<Rightarrow> bool" where
  "plain xs \<longleftrightarrow> text_ok xs \<and> length xs + 2 \<le> MAX_STRING \<and> (\<forall>c \<in> set xs. c < 128)"

lemma length_wide [simp]: "length (wide xs) = 2 * (length xs + 1)"
  by (induction xs) (auto simp: wide_def)

lemma plain_char:
  assumes "(c :: u16) < 128"
  shows "scast (ucast c :: u8) = c" "c \<noteq> 0 \<Longrightarrow> (ucast c :: u8) \<noteq> 0"
proof -
  have n: "\<not> bit c i" if "7 \<le> i" for i
  proof -
    have "c = take_bit 7 c" using assms by (simp add: take_bit_eq_mod mod_word_less)
    then show ?thesis using that by (metis bit_take_bit_iff not_less)
  qed
  show s: "scast (ucast c :: u8) = c"
  proof (rule bit_word_eqI)
    fix i assume "i < LENGTH(16)"
    then show "bit (scast (ucast c :: u8) :: u16) i \<longleftrightarrow> bit c i"
      using n [of i] n [of 7] by (auto simp: bit_signed_iff bit_unsigned_iff min_def)
  qed
  then show "c \<noteq> 0 \<Longrightarrow> (ucast c :: u8) \<noteq> 0" by auto
qed

lemma plain_ascii:
  assumes "plain xs"
  shows "takeWhile (\<lambda>b. b \<noteq> 0) (map ucast xs @ 0 # ys) = (map ucast xs :: u8 list)"
    "concat (map (\<lambda>c. le16 (scast c)) ((map ucast xs :: u8 list) @ [0])) = wide xs"
proof -
  have "\<forall>b \<in> set (map ucast xs :: u8 list). b \<noteq> 0"
    using assms plain_char(2) by (auto simp: plain_def text_ok_def)
  then show "takeWhile (\<lambda>b. b \<noteq> 0) (map ucast xs @ 0 # ys) = (map ucast xs :: u8 list)"
    using takeWhile_append2 [of "map ucast xs :: u8 list" "\<lambda>b. b \<noteq> 0" "0 # ys"] by fastforce
  have "map (\<lambda>c. le16 (scast (ucast c :: u8))) xs = map le16 xs"
    using assms plain_char(1) by (auto simp: plain_def)
  then show "concat (map (\<lambda>c. le16 (scast c)) ((map ucast xs :: u8 list) @ [0])) = wide xs"
    by (simp only: wide_def map_append map_map comp_def) simp
qed

lemma AsciiStr_eq:
  assumes "plain xs" "blocks s b = Some (us @ ascii xs @ ys)" "off = length us"
  shows "AsciiStr (b, off) s = Some (map ucast xs)" "AsciiStrLen (b, off) s = Some (length xs)"
proof -
  show "AsciiStr (b, off) s = Some (map ucast xs)"
    using assms(2,3) plain_ascii(1) [OF assms(1), of ys] by (simp add: AsciiStr_def ascii_def)
  then show "AsciiStrLen (b, off) s = Some (length xs)" by (simp add: AsciiStrLen_def)
qed

text \<open>A string copied out: one block for the caller, and one used on the way and freed.\<close>

definition string_out :: "u8 list \<Rightarrow> pbr_sys \<Rightarrow> pbr_sys" where
  "string_out w s = s\<lparr>blocks := (blocks s)(next_block s \<mapsto> w), next_block := next_block s + 2, alloc_ok := tl (tl (alloc_ok s))\<rparr>"

lemma set_tl: "x \<notin> set xs \<Longrightarrow> x \<notin> set (tl xs)"
  by (cases xs) auto

lemma GetTag_string_eq:
  assumes ok: "pool_ok s" "False \<notin> set (alloc_ok s)" and xs: "plain xs"
    and blk: "blocks s b = Some (us @ ascii xs @ ys)" "off = length us"
  shows "GetTag_string (b, off) s = Some ((next_block s, 0), (b, off + (length xs + 1)), string_out (wide xs) s)"
proof -
  define nb where "nb = next_block s"
  have none: "blocks s nb = None" "blocks s (Suc nb) = None" "nb \<noteq> 0" using ok(1) by (auto simp: pool_ok_def nb_def)
  have b: "b \<noteq> 0" "b \<noteq> nb" "b \<noteq> Suc nb" using blk(1) ok(1) none pool_ok_fresh [of s b] by auto
  have len: "length xs + 2 \<le> MAX_STRING" using xs by (simp add: plain_def)
  have un: "unat (of_nat ((length xs + 1) * 2) :: u32) = (length xs + 1) * 2" "unat (of_nat (length xs + 1) :: u32) = length xs + 1"
      "unat (of_nat (length xs + 1) + 1 :: u32) = length xs + 2"
    using len of_nat_unat_less [of "length xs + 2"] of_nat_unat_less [of "length xs + 1"] of_nat_unat_less [of "(length xs + 1) * 2"]
    by (simp_all add: MAX_STRING_def)
  let ?B = "\<lambda>v t. s\<lparr>blocks := (blocks s)(nb \<mapsto> v, Suc nb \<mapsto> t), next_block := Suc (Suc nb), alloc_ok := tl (tl (alloc_ok s))\<rparr>"
  define s1 where "s1 = s\<lparr>blocks := (blocks s)(nb \<mapsto> replicate ((length xs + 1) * 2) 0), next_block := Suc nb, alloc_ok := tl (alloc_ok s)\<rparr>"
  have a1: "AllocateZeroPool ((length xs + 1) * 2) s = ((nb, 0), s1)" using pool_ok_alloc [OF ok] by (simp add: s1_def nb_def)
  have ok1: "pool_ok s1" "False \<notin> set (alloc_ok s1)" using ok set_tl [OF ok(2)] by (auto simp: s1_def pool_ok_def nb_def)
  have a2: "AllocateZeroPool (length xs + 2) s1 = ((Suc nb, 0), ?B (replicate ((length xs + 1) * 2) 0) (replicate (length xs + 2) 0))"
    using pool_ok_alloc [OF ok1] by (simp add: s1_def)
  let ?z = "replicate ((length xs + 1) * 2) 0"
  have "load (b, off) (length xs + 1) (?B ?z (replicate (length xs + 2) 0)) = Some (ascii xs)"
    using b blk by (intro load_at [where xs = us and zs = ys]) simp_all
  moreover have "store (Suc nb, 0) (ascii xs) (?B ?z (replicate (length xs + 2) 0)) = Some (?B ?z (ascii xs @ [0]))"
    using store_field [of "?B ?z (replicate (length xs + 2) 0)" "Suc nb" "[]" "replicate (length xs + 1) 0" "[0]" "ascii xs" 0]
    by (simp add: replicate_append_same)
  ultimately have c: "CopyMem (Suc nb, 0) (b, off) (length xs + 1) (?B ?z (replicate (length xs + 2) 0)) = Some (?B ?z (ascii xs @ [0]))"
    by (simp add: CopyMem_def)
  have z: "store8 (Suc nb, length xs + 1) 0 (?B ?z (ascii xs @ [0])) = Some (?B ?z (ascii xs @ [0]))"
    using store_field [of "?B ?z (ascii xs @ [0])" "Suc nb" "ascii xs" "[0]" "[]" "[0]" "length xs + 1"] by simp
  have u: "AsciiStrToUnicodeStrS (Suc nb, 0) (nb, 0) (length xs + 2) (?B ?z (ascii xs @ [0])) = Some (?B (wide xs) (ascii xs @ [0]))"
    using AsciiStr_eq(1) [OF xs, of "?B ?z (ascii xs @ [0])" "Suc nb" "[]" "[0]" 0] len none(3) plain_ascii(2) [OF xs]
      store_field [of "?B ?z (ascii xs @ [0])" nb "[]" ?z "[]" "wide xs" 0]
    by (simp add: AsciiStrToUnicodeStrS_def fun_upd_twist)
  have f: "FREE_POOL_SAFE (Suc nb, 0) (?B (wide xs) (ascii xs @ [0])) = Some (string_out (wide xs) s)"
    using none by (simp add: FREE_POOL_SAFE_def FreePool_def string_out_def nb_def [symmetric] fun_upd_idem fun_upd_twist)
  have "SafeAsciiStrToUnicodeStr (b, off) (of_nat (length xs + 1)) (nb, 0) s1 = Some (EFI_SUCCESS, string_out (wide xs) s)"
    using a2 c z u f none(3) b(1) un by (simp add: SafeAsciiStrToUnicodeStr_def)
  then show ?thesis
    using AsciiStr_eq(2) [OF xs blk] a1 un by (simp add: GetTag_string_def nb_def)
qed

section \<open>Reading a tag\<close>

lemma string_out_rep:
  assumes rep: "session_rep s vs" and alloc: "False \<notin> set (alloc_ok s)"
  shows "session_rep (string_out w s) vs" "False \<notin> set (alloc_ok (string_out w s))"
    "b \<noteq> next_block s \<Longrightarrow> blocks (string_out w s) b = blocks s b" "blocks (string_out w s) (next_block s) = Some w"
    "foreign s (length vs) b \<Longrightarrow> foreign (string_out w s) (length vs) b"
proof -
  have ok: "pool_ok s" using rep by (simp add: session_rep_def)
  then have "\<And>b. b \<in> set (owned s (length vs)) \<Longrightarrow> blocks (string_out w s) b = blocks s b"
    using session_rep_pool(3) [OF rep, of "next_block s"] by (auto simp: string_out_def pool_ok_def)
  moreover have "pool_ok (string_out w s)" using ok by (auto simp: string_out_def pool_ok_def)
  ultimately show "session_rep (string_out w s) vs"
    by (intro session_rep_foreign [OF rep]) (simp_all add: string_out_def)
  show "False \<notin> set (alloc_ok (string_out w s))" using alloc by (simp add: string_out_def set_tl)
  show "b \<noteq> next_block s \<Longrightarrow> blocks (string_out w s) b = blocks s b" "blocks (string_out w s) (next_block s) = Some w"
    by (simp_all add: string_out_def)
  show "foreign s (length vs) b \<Longrightarrow> foreign (string_out w s) (length vs) b"
    by (auto simp: foreign_def string_out_def owned_def)
qed

lemma PbrGetTag_rep:
  assumes rep: "session_rep s vs" and i: "i < length vs" "vsig (vs ! i) = PBR_TAG_SIG"
    and k: "k < length (vitems (vs ! i))" "vitems (vs ! i) ! k = tag_bytes sig k' infos name descr"
    and lim: "length infos < 2 ^ 32" and strs: "plain name" "plain descr" and alloc: "False \<notin> set (alloc_ok s)"
  shows "\<exists>p q s'. PbrGetTag (of_nat k) True False s = Some (EFI_SUCCESS, sig, p, q, NULL, of_nat (length infos), s') \<and>
     load p (length (wide name)) s' = Some (wide name) \<and> load q (length (wide descr)) s' = Some (wide descr) \<and> session_rep s' vs"
proof -
  define T where "T = tag_bytes sig k' infos name descr"
  define b where "b = next_block s"
  define s1 where "s1 = handed_out T s"
  have get: "PbrGetData PBR_TAG_SIG (of_nat k) False s = Some (EFI_SUCCESS, (b, 0), of_nat (length T), 0, s1)"
    using PbrGetData_index [OF rep i(1) k(1) alloc, of False] i(2) k(2) by (simp add: s1_def b_def T_def)
  have r1: "session_rep s1 vs" "foreign s1 (length vs) b" "blocks s1 b = Some T" "False \<notin> set (alloc_ok s1)"
    using handed_out_rep [OF rep] alloc by (simp_all add: s1_def b_def handed_out_def set_tl)
  define hd where "hd = le32 PBR_TAG_SIG @ le32 sig @ le32 k' @ le32 (of_nat (tag_size (length infos) name descr))"
  have T: "T = hd @ le32 (of_nat (length infos)) @ info_bytes infos @ ascii name @ ascii descr" by (simp add: T_def tag_bytes_def hd_def)
  have sig: "load32 (b, 4) s1 = Some sig"
    by (rule load32_at [where xs = "le32 PBR_TAG_SIG"]) (use r1(3) in \<open>simp_all add: T_def tag_bytes_def\<close>)
  have cnt: "load32 (b, 16) s1 = Some (of_nat (length infos))" "unat (of_nat (length infos) :: u32) = length infos"
    using load32_at [of s1 b hd "of_nat (length infos)" "info_bytes infos @ ascii name @ ascii descr" 16] r1(3) of_nat_unat_less [OF lim]
    by (simp_all add: T hd_def)
  let ?us = "hd @ le32 (of_nat (length infos)) @ info_bytes infos"
  define o1 where "o1 = 20 + length infos * 8"
  define s2 where "s2 = string_out (wide name) s1"
  have g1: "GetTag_string (b, o1) s1 = Some ((next_block s1, 0), (b, o1 + (length name + 1)), s2)"
    unfolding s2_def using r1 by (intro GetTag_string_eq [OF _ _ strs(1), where us = ?us and ys = "ascii descr"])
      (simp_all add: session_rep_def T o1_def hd_def)
  note so1 = string_out_rep [OF r1(1,4), where w = "wide name", folded s2_def]
  have b1: "b \<noteq> next_block s1" using r1(1,3) pool_ok_fresh [of s1 b] by (auto simp: session_rep_def)
  define s3 where "s3 = string_out (wide descr) s2"
  have g2: "GetTag_string (b, o1 + (length name + 1)) s2 = Some ((next_block s2, 0), (b, o1 + (length name + 1) + (length descr + 1)), s3)"
    unfolding s3_def using r1(3) so1 b1
    by (intro GetTag_string_eq [OF _ _ strs(2), where us = "?us @ ascii name" and ys = "[]"]) (simp_all add: session_rep_def T o1_def hd_def)
  note so2 = string_out_rep [OF so1(1,2), where w = "wide descr", folded s3_def]
  have "foreign s3 (length vs) b" by (intro so2(5) so1(5) r1(2))
  from FreePool_foreign [OF so2(1) this] obtain s4 where s4: "FREE_POOL_SAFE (b, 0) s3 = Some s4" "session_rep s4 vs" by blast
  have nb: "next_block s2 \<noteq> next_block s1" "b \<noteq> next_block s2"
    using b1 r1(3) so1(1,3) pool_ok_fresh [of s2 b "T"] by (auto simp: s2_def string_out_def session_rep_def)
  have bl: "blocks s4 (next_block s1) = Some (wide name)" "blocks s4 (next_block s2) = Some (wide descr)"
    using s4(1) so1(4) so2(3) [of "next_block s1"] so2(4) nb b1 by (auto simp: FREE_POOL_SAFE_def FreePool_def split: if_splits)
  have "PbrGetTag (of_nat k) True False s = Some (EFI_SUCCESS, sig, (next_block s1, 0), (next_block s2, 0), NULL, of_nat (length infos), s4)"
    using get sig cnt g1 g2 s4(1) by (simp add: PbrGetTag_def o1_def)
  then show ?thesis using bl s4(2) load_blocks [of s4 "(next_block s1, 0)"] load_blocks [of s4 "(next_block s2, 0)"] by fastforce
qed

lemma session_rep_slot_sig:
  assumes rep: "session_rep s vs" and i: "i < length vs" "j < MAX_PARTITIONS" "PartitionSig (parts s ! j) = vsig (vs ! i)"
  shows "j = i"
proof -
  have "j < length vs" using rep i session_rep_sig(2) [OF rep i(1)] by (auto simp: session_rep_def not_le [symmetric])
  moreover have "distinct (map vsig vs)" using rep by (simp add: session_rep_def)
  ultimately show ?thesis using i session_rep_sig(1) [OF rep] by (simp add: distinct_conv_nth) metis
qed

lemma session_rep_lookup:
  assumes rep: "session_rep s vs"
  shows "i < length vs \<Longrightarrow> filter (\<lambda>c. PartitionSig c = vsig (vs ! i)) (parts s) = [parts s ! i]"
    "sig \<noteq> PBR_INVALID_SIG \<Longrightarrow> sig \<notin> set (map vsig vs) \<Longrightarrow> filter (\<lambda>c. PartitionSig c = sig) (parts s) = []"
proof -
  have len: "length (parts s) = MAX_PARTITIONS" "length vs \<le> MAX_PARTITIONS" using rep by (simp_all add: session_rep_def)
  show "filter (\<lambda>c. PartitionSig c = vsig (vs ! i)) (parts s) = [parts s ! i]" if i: "i < length vs"
  proof -
    have il: "i < length (parts s)" using i len by simp
    have other: "PartitionSig (parts s ! j) \<noteq> vsig (vs ! i)" if "j < length (parts s)" "j \<noteq> i" for j
      using session_rep_slot_sig [OF rep i] that len by auto
    have "filter (\<lambda>c. PartitionSig c = vsig (vs ! i)) (take i (parts s)) = []" "filter (\<lambda>c. PartitionSig c = vsig (vs ! i)) (drop (Suc i) (parts s)) = []"
      using other il by (auto simp: filter_empty_conv in_set_conv_nth)
    then show ?thesis
      by (subst id_take_nth_drop [OF il]) (simp add: session_rep_sig(1) [OF rep i])
  qed
  show "filter (\<lambda>c. PartitionSig c = sig) (parts s) = []" if sig: "sig \<noteq> PBR_INVALID_SIG" "sig \<notin> set (map vsig vs)"
  proof -
    have "PartitionSig (parts s ! j) \<noteq> sig" if "j < length (parts s)" for j
    proof (cases "j < length vs")
      case True
      then show ?thesis using sig(2) session_rep_sig(1) [OF rep True] by auto
    next
      case False
      then have "PartitionSig (parts s ! j) = PBR_INVALID_SIG" using rep that len by (simp add: session_rep_def)
      then show ?thesis using sig(1) by simp
    qed
    then have "\<forall>c \<in> set (parts s). PartitionSig c \<noteq> sig" by (metis in_set_conv_nth)
    then show ?thesis by simp
  qed
qed

lemma PbrGetTagCount_rep:
  assumes rep: "session_rep s vs"
  shows "PbrGetTagCount True s = (EFI_SUCCESS, of_nat (length (items_of PBR_TAG_SIG vs)))"
proof (cases "PBR_TAG_SIG \<in> set (map vsig vs)")
  case True
  then obtain i where i: "i < length vs" "vsig (vs ! i) = PBR_TAG_SIG" by (auto simp: in_set_conv_nth)
  have "PartitionLogicalDataCnt (parts s ! i) = of_nat (length (vitems (vs ! i)))"
    using session_rep_part [OF rep i(1)] by (simp add: part_rep_def) (metis of_nat_unat ucast_id)
  then show ?thesis
    using session_rep_lookup(1) [OF rep i(1)] items_of_at [OF i(1)] i(2) rep
    by (simp add: PbrGetTagCount_def PbrGetPartition_def session_rep_def)
next
  case False
  then show ?thesis using session_rep_lookup(2) [OF rep _ False] items_of_none [OF False] by (simp add: PbrGetTagCount_def PbrGetPartition_def)
qed

text \<open>
  C25: A tag can be read back. Start a session, record items, set a tag, record more items: the number of
  tags is the number of items of the tag partition, and asking for the tag with the id it was given
  returns the signature, the name and the description it was set with, as wide strings, and one
  partition info for every partition there was. Name and description are ASCII strings.
\<close>

theorem tag_read_back:
  assumes start: "no_session s" and rs: "requested s 0 rs1 log1" "requested s 0 rs2 log2"
    and sigs: "card (insert PBR_TAG_SIG (set (map fst log1) \<union> set (map fst log2))) \<le> MAX_PARTITIONS"
    and strs: "plain name" "plain descr" "6 \<le> length name + length descr"
    and fits: "sizeof_header + PARTITION_GROW_SZ_MULTIPLIER *
      (cost log1 + (tag_size (card (set (map fst log1))) name descr + sizeof_item) + cost log2) < 2 ^ 32"
    and env: "False \<notin> set (alloc_ok s)" "set_variable_rc s = EFI_SUCCESS"
  shows "\<exists>s1 s2 s3 s4 s5 s6 tag p q.
     PbrSetSession NULL 0 s = Some (EFI_SUCCESS, s1) \<and> PbrSetMode PBR_RECORD_MODE s1 = Some (EFI_SUCCESS, s2) \<and>
     record_all rs1 s2 = Some s3 \<and> PbrSetTag sig (Some name) (Some descr) s3 = Some (EFI_SUCCESS, tag, s4) \<and>
     record_all rs2 s4 = Some s5 \<and>
     PbrGetTagCount True s5 = (EFI_SUCCESS, of_nat (length (logged PBR_TAG_SIG log1) + 1 + length (logged PBR_TAG_SIG log2))) \<and>
     PbrGetTag tag True False s5 = Some (EFI_SUCCESS, sig, p, q, NULL, of_nat (card (set (map fst log1))), s6) \<and>
     load p (length (wide name)) s6 = Some (wide name) \<and> load q (length (wide descr)) s6 = Some (wide descr)"
proof -
  obtain s1 s2 where s2: "PbrSetSession NULL 0 s = Some (EFI_SUCCESS, s1)" "PbrSetMode PBR_RECORD_MODE s1 = Some (EFI_SUCCESS, s2)"
      "session_rep s2 []" "PbrMode (gPbrContext s2) = PBR_RECORD_MODE" "False \<notin> set (alloc_ok s2)"
      "\<forall>b. blocks s b \<noteq> None \<longrightarrow> foreign s2 0 b \<and> blocks s2 b = blocks s b"
    using start_recording [OF start env] by blast
  have rq: "requested s2 0 rs log" if "requested s 0 rs log" for rs log by (rule requested_start [OF that s2(6)])
  have strs': "text_ok name" "text_ok descr" using strs by (simp_all add: plain_def)
  define ws where "ws = recorded log1 []"
  define k where "k = length (items_of PBR_TAG_SIG ws)"
  obtain infos s3 s4 s5 where s5: "record_all rs1 s2 = Some s3" "PbrSetTag sig (Some name) (Some descr) s3 = Some (EFI_SUCCESS, of_nat k, s4)"
      "record_all rs2 s4 = Some s5" "length infos = card (set (map fst log1))"
      "session_rep s5 (recorded ((PBR_TAG_SIG, tag_bytes sig (of_nat k) infos name descr) # log2) ws)"
      "False \<notin> set (alloc_ok s5)" "length infos < 2 ^ 32"
    using tagged_recording [OF s2(3-5) rq [OF rs(1)] rq [OF rs(2)] sigs strs' strs(3) fits, of sig] unfolding ws_def k_def by blast
  define T where "T = tag_bytes sig (of_nat k) infos name descr"
  define vs where "vs = recorded ((PBR_TAG_SIG, T) # log2) ws"
  have rep: "session_rep s5 vs" using s5(5) by (simp add: vs_def T_def)
  have items: "items_of PBR_TAG_SIG vs = items_of PBR_TAG_SIG ws @ T # logged PBR_TAG_SIG log2"
    by (simp add: vs_def items_of_recorded logged_def)
  have k: "k = length (logged PBR_TAG_SIG log1)" by (simp add: k_def ws_def items_of_recorded)
  have "PBR_TAG_SIG \<in> set (map vsig vs)" using sigs_recorded [of "(PBR_TAG_SIG, T) # log2" ws] unfolding vs_def by simp
  then obtain i where i: "i < length vs" "vsig (vs ! i) = PBR_TAG_SIG" by (auto simp: in_set_conv_nth)
  have "vitems (vs ! i) = items_of PBR_TAG_SIG vs" using items_of_at [OF i(1)] i(2) rep by (simp add: session_rep_def)
  then have at: "k < length (vitems (vs ! i))" "vitems (vs ! i) ! k = tag_bytes sig (of_nat k) infos name descr"
    by (simp_all add: items k_def T_def)
  have "PbrGetTagCount True s5 = (EFI_SUCCESS, of_nat (length (logged PBR_TAG_SIG log1) + 1 + length (logged PBR_TAG_SIG log2)))"
    using PbrGetTagCount_rep [OF rep] items k by (simp add: k_def)
  then show ?thesis using PbrGetTag_rep [OF rep i at s5(7) strs(1,2) s5(6)] s2(1,2) s5(1-4) by metis
qed

theorem tag_read_back_witness:
  "\<exists>s1 s2 s3 s4 s5 s6 tag p q.
     PbrSetSession NULL 0 demo_pbr = Some (EFI_SUCCESS, s1) \<and> PbrSetMode PBR_RECORD_MODE s1 = Some (EFI_SUCCESS, s2) \<and>
     record_all [(5, (1, 0), 3)] s2 = Some s3 \<and>
     PbrSetTag 9 (Some [118, 101, 114, 115, 105, 111, 110]) (Some [48]) s3 = Some (EFI_SUCCESS, tag, s4) \<and>
     record_all [(6, (2, 0), 1)] s4 = Some s5 \<and> PbrGetTagCount True s5 = (EFI_SUCCESS, 1) \<and>
     PbrGetTag tag True False s5 = Some (EFI_SUCCESS, 9, p, q, NULL, 1, s6) \<and>
     load p 16 s6 = Some [118, 0, 101, 0, 114, 0, 115, 0, 105, 0, 111, 0, 110, 0, 0, 0] \<and> load q 4 s6 = Some [48, 0, 0, 0]"
proof -
  let ?rs1 = "[(5, (1, 0), 3)] :: (u32 \<times> ptr \<times> u32) list" and ?rs2 = "[(6, (2, 0), 1)] :: (u32 \<times> ptr \<times> u32) list"
  let ?log1 = "[(5, [1, 2, 3])] :: (u32 \<times> u8 list) list" and ?log2 = "[(6, [7])] :: (u32 \<times> u8 list) list"
  let ?name = "[118, 101, 114, 115, 105, 111, 110] :: u16 list" and ?descr = "[48] :: u16 list"
  have "requested demo_pbr 0 ?rs1 ?log1" "requested demo_pbr 0 ?rs2 ?log2"
    by (simp_all add: demo_pbr_def foreign_def owned_def zero_context_def load_def)
  moreover have "card (insert PBR_TAG_SIG (set (map fst ?log1) \<union> set (map fst ?log2))) \<le> MAX_PARTITIONS"
    by (simp add: MAX_PARTITIONS_def card_insert_if)
  moreover have "plain ?name" "plain ?descr" "6 \<le> length ?name + length ?descr" by (simp_all add: plain_def text_ok_def MAX_STRING_def)
  moreover have "sizeof_header + PARTITION_GROW_SZ_MULTIPLIER *
      (cost ?log1 + (tag_size (card (set (map fst ?log1))) ?name ?descr + sizeof_item) + cost ?log2) < 2 ^ 32"
    by (simp add: cost_def tag_size_def)
  moreover have "False \<notin> set (alloc_ok demo_pbr)" "set_variable_rc demo_pbr = EFI_SUCCESS" by (simp_all add: demo_pbr_def)
  ultimately have "\<exists>s1 s2 s3 s4 s5 s6 tag p q.
     PbrSetSession NULL 0 demo_pbr = Some (EFI_SUCCESS, s1) \<and> PbrSetMode PBR_RECORD_MODE s1 = Some (EFI_SUCCESS, s2) \<and>
     record_all ?rs1 s2 = Some s3 \<and> PbrSetTag 9 (Some ?name) (Some ?descr) s3 = Some (EFI_SUCCESS, tag, s4) \<and>
     record_all ?rs2 s4 = Some s5 \<and>
     PbrGetTagCount True s5 = (EFI_SUCCESS, of_nat (length (logged PBR_TAG_SIG ?log1) + 1 + length (logged PBR_TAG_SIG ?log2))) \<and>
     PbrGetTag tag True False s5 = Some (EFI_SUCCESS, 9, p, q, NULL, of_nat (card (set (map fst ?log1))), s6) \<and>
     load p (length (wide ?name)) s6 = Some (wide ?name) \<and> load q (length (wide ?descr)) s6 = Some (wide ?descr)"
    by (rule tag_read_back [OF demo_pbr_no_session])
  moreover have "wide ?name = [118, 0, 101, 0, 114, 0, 115, 0, 105, 0, 111, 0, 110, 0, 0, 0]" "wide ?descr = [48, 0, 0, 0]" by code_simp+
  moreover have "length (wide ?name) = 16" "length (wide ?descr) = 4" by simp_all
  moreover have "(of_nat (length (logged PBR_TAG_SIG ?log1) + 1 + length (logged PBR_TAG_SIG ?log2)) :: u32) = 1" by (simp add: logged_def)
  moreover have "(of_nat (card (set (map fst ?log1))) :: u32) = 1" by simp
  ultimately show ?thesis by metis
qed

end
