(* ===== verification/Pbr_Safety.thy ===== *)
theory Pbr_Safety
  imports Pbr_Tag_Read
begin

text \<open>
  What holds of the context after any sequence of operations of the module, whatever the callers pass,
  whichever allocations fail and whatever image is loaded: the pointers the context keeps are typed, and
  no block is owned twice. The operations are shown once and for all to keep any property of the state
  that the few ways they change it keep; the typing is one such property.
\<close>

section \<open>Operations as steps\<close>

text \<open>
  A step is one operation of the module that returns, with any arguments, or something a caller does to
  the pool: take a block, write into one, give one back.
\<close>

inductive pbr_step :: "pbr_sys \<Rightarrow> pbr_sys \<Rightarrow> bool" where
  set_data: "PbrSetData sig p n single s = Some (rc, q, i, s') \<Longrightarrow> pbr_step s s'"
| get_data: "PbrGetData sig Index want s = Some (rc, q, n, i, s') \<Longrightarrow> pbr_step s s'"
| set_mode: "PbrSetMode mode s = Some (rc, s') \<Longrightarrow> pbr_step s s'"
| set_session: "PbrSetSession p n s = Some (rc, s') \<Longrightarrow> pbr_step s s'"
| get_session: "PbrGetSession given s = Some (rc, p, n, s') \<Longrightarrow> pbr_step s s'"
| free_session: "PbrFreeSession s = Some (rc, s') \<Longrightarrow> pbr_step s s'"
| reset_session: "PbrResetSession TagId s = Some (rc, s') \<Longrightarrow> pbr_step s s'"
| set_tag: "PbrSetTag sig name descr s = Some (rc, TagId, s') \<Longrightarrow> pbr_step s s'"
| get_tag: "PbrGetTag TagId given want s = Some (rc, sig, p, q, r, n, s') \<Longrightarrow> pbr_step s s'"
| init: "PbrInit s = (rc, s') \<Longrightarrow> pbr_step s s'"
| uninit: "PbrUninit s = (rc, s') \<Longrightarrow> pbr_step s s'"
| set_command: "PbrSetPassThruRecord cmd prc s = Some (rc, s') \<Longrightarrow> pbr_step s s'"
| get_command: "PbrGetPassThruRecord req prc s = Some (rc, req', prc', s') \<Longrightarrow> pbr_step s s'"
| set_table: "PbrSetTableRecord ty p n s = Some (rc, s') \<Longrightarrow> pbr_step s s'"
| get_table: "PbrGetTableRecord ty s = Some (rc, p, n, s') \<Longrightarrow> pbr_step s s'"
| caller_alloc: "AllocateZeroPool m s = (p, s') \<Longrightarrow> pbr_step s s'"
| caller_store: "store p xs s = Some s' \<Longrightarrow> pbr_step s s'"
| caller_free: "FreePool p s = Some s' \<Longrightarrow> pbr_step s s'"

section \<open>Invariants of the module\<close>

locale pbr_invariant =
  fixes I :: "pbr_sys \<Rightarrow> bool"
  assumes store_kept: "store p xs s = Some s' \<Longrightarrow> I s \<longrightarrow> I s'"
    and free_kept: "FreePool p s = Some s' \<Longrightarrow> I s \<longrightarrow> I s'"
    and alloc_kept: "I s \<Longrightarrow> I (snd (AllocateZeroPool n s))"
    and slot_kept: "I s \<Longrightarrow> (\<And>c. PartitionData (f c) = PartitionData c) \<Longrightarrow> I (set_part i f s)"
    and slot_alloc: "I s \<Longrightarrow> (\<And>c. PartitionData (f c) = fst (AllocateZeroPool n s)) \<Longrightarrow> I (set_part i f (snd (AllocateZeroPool n s)))"
    and slot_moved: "ReallocatePool a b p s = Some (q, s') \<Longrightarrow> I s \<longrightarrow> (\<forall>i. I (set_part i (\<lambda>c. c\<lparr>PartitionData := q\<rparr>) s'))"
    and header_alloc: "I s \<Longrightarrow> I (set_header (fst (AllocateZeroPool n s)) (snd (AllocateZeroPool n s)))"
    and header_gone: "I s \<Longrightarrow> I (set_header NULL s)"
    and slots_gone: "I s \<Longrightarrow> I (set_parts (replicate MAX_PARTITIONS zero_partition) s)"
    and mode_kept: "I s \<Longrightarrow> I (s\<lparr>gPbrContext := (gPbrContext s)\<lparr>PbrMode := m\<rparr>\<rparr>)"
    and reset_kept: "I s \<Longrightarrow> I (s\<lparr>gPbrContext := zero_context\<rparr>)"
    and saved: "I s \<Longrightarrow> I (s\<lparr>pbr_variable := Some (gPbrContext s)\<rparr>)"
    and restored: "I s \<Longrightarrow> pbr_variable s = Some c \<Longrightarrow> I (s\<lparr>gPbrContext := c\<rparr>)"
begin

lemma pool_kept:
  "FREE_POOL_SAFE p s = Some s' \<Longrightarrow> I s \<longrightarrow> I s'" "CopyMem p q n s = Some s' \<Longrightarrow> I s \<longrightarrow> I s'"
  by (auto simp: FREE_POOL_SAFE_def CopyMem_def bind_eq_Some_conv split: if_splits dest!: free_kept store_kept)

lemma copy_kept:
  "PbrCopyChunks p m q n s = Some s' \<Longrightarrow> I s \<longrightarrow> I s'" "copy_given p m q n s = Some s' \<Longrightarrow> I s \<longrightarrow> I s'"
proof -
  have loop: "PbrCopyChunks_loop p q k i s = Some s' \<Longrightarrow> I s \<longrightarrow> I s'" for k i s s'
    by (induction k arbitrary: i s) (auto simp: bind_eq_Some_conv Let_def dest!: pool_kept)
  show copy: "PbrCopyChunks p m q n s = Some s' \<Longrightarrow> I s \<longrightarrow> I s'"
    by (auto simp: PbrCopyChunks_def Let_def bind_eq_Some_conv split: if_splits dest!: loop pool_kept)
  then show "copy_given p m q n s = Some s' \<Longrightarrow> I s \<longrightarrow> I s'"
    by (auto simp: copy_given_def split: if_splits)
qed

lemma SetData_grow_kept: "SetData_grow i n s = Some (rc, s') \<Longrightarrow> I s \<longrightarrow> I s'"
  by (auto simp: SetData_grow_def Let_def bind_eq_Some_conv slot_kept split: if_splits prod.splits dest!: slot_moved)

lemma SetData_kept:
  "SetData_singleton i p n s = Some (rc, q, s') \<Longrightarrow> I s \<longrightarrow> I s'"
  "SetData_append i p n s = Some (rc, q, s') \<Longrightarrow> I s \<longrightarrow> I s'"
  "SetData_new i sig p n single s = Some (rc, q, s') \<Longrightarrow> I s \<longrightarrow> I s'"
  by (auto simp: SetData_singleton_def SetData_append_def SetData_new_def Let_def case_prod_beta
      bind_eq_Some_conv alloc_kept slot_kept slot_alloc split: if_splits dest!: store_kept pool_kept copy_kept SetData_grow_kept)

lemma PbrSetData_kept: "PbrSetData sig p n single s = Some (rc, q, i, s') \<Longrightarrow> I s \<longrightarrow> I s'"
  by (auto simp: PbrSetData_def Let_def case_prod_beta bind_eq_Some_conv split: if_splits dest!: store_kept SetData_kept)

lemma GetData_kept:
  "GetData_copy p s = Some (rc, q, n, s') \<Longrightarrow> I s \<longrightarrow> I s'"
  "GetData_loop sig Index k is s = Some (p, rc, q, n, s') \<Longrightarrow> I s \<longrightarrow> I s'"
proof -
  show copy: "GetData_copy p s = Some (rc, q, n, s') \<Longrightarrow> I s \<longrightarrow> I s'" for p s rc q n s'
    by (auto simp: GetData_copy_def Let_def case_prod_beta bind_eq_Some_conv alloc_kept split: if_splits dest!: copy_kept)
  show "GetData_loop sig Index k is s = Some (p, rc, q, n, s') \<Longrightarrow> I s \<longrightarrow> I s'"
    by (induction "is" arbitrary: k s)
       (auto simp: Let_def case_prod_beta bind_eq_Some_conv slot_kept split: if_splits dest!: copy)
qed

lemma PbrGetData_kept: "PbrGetData sig Index want s = Some (rc, q, n, i, s') \<Longrightarrow> I s \<longrightarrow> I s'"
  by (auto simp: PbrGetData_def case_prod_beta bind_eq_Some_conv dest!: GetData_kept)

lemma FreeSession_kept: "PbrFreeSession s = Some (rc, s') \<Longrightarrow> I s \<longrightarrow> I s'"
proof -
  have loop: "FreeSession_loop is s = Some s' \<Longrightarrow> I s \<longrightarrow> I s'" for "is" s s'
    by (induction "is" arbitrary: s) (auto simp: bind_eq_Some_conv slot_kept split: if_splits dest!: pool_kept)
  show "PbrFreeSession s = Some (rc, s') \<Longrightarrow> I s \<longrightarrow> I s'"
    by (auto simp: PbrFreeSession_def bind_eq_Some_conv header_gone dest!: loop pool_kept)
qed

lemma Serialize_kept: "PbrSerializeCtx s = (rc, s') \<Longrightarrow> I s \<longrightarrow> I s'" "PbrDeserializeCtx s = (rc, s') \<Longrightarrow> I s \<longrightarrow> I s'"
  by (auto simp: PbrSerializeCtx_def PbrDeserializeCtx_def GET_VARIABLE_def saved restored mode_kept
      split: if_splits option.splits)

lemma reset_mode: "I s \<Longrightarrow> I (s\<lparr>gPbrContext := zero_context\<lparr>PbrMode := m\<rparr>\<rparr>)"
  using mode_kept [OF reset_kept] by simp

lemma SetMode_kept: "PbrSetMode mode s = Some (rc, s') \<Longrightarrow> I s \<longrightarrow> I s'"
  by (auto simp: PbrSetMode_def bind_eq_Some_conv mode_kept reset_mode split: if_splits
      dest!: FreeSession_kept Serialize_kept)

lemma DecomposeSession_kept: "PbrDecomposeSession p n s = Some (rc, s') \<Longrightarrow> I s \<longrightarrow> I s'"
proof -
  have loop: "Decompose_loop p is s = Some (rc, s') \<Longrightarrow> I s \<longrightarrow> I s'" for "is" s s' rc
    by (induction "is" arbitrary: s)
       (auto simp: bind_eq_Some_conv Let_def case_prod_beta slot_alloc split: if_splits dest!: copy_kept)
  show "PbrDecomposeSession p n s = Some (rc, s') \<Longrightarrow> I s \<longrightarrow> I s'"
    by (auto simp: PbrDecomposeSession_def bind_eq_Some_conv Let_def case_prod_beta slots_gone header_alloc header_gone alloc_kept split: if_splits
        dest!: loop copy_kept)
qed

lemma CreateSession_kept: "PbrCreateSessionContext s = Some (rc, s') \<Longrightarrow> I s \<longrightarrow> I s'"
  by (auto simp: PbrCreateSessionContext_def bind_eq_Some_conv Let_def case_prod_beta header_alloc header_gone alloc_kept split: if_splits
      dest!: pool_kept store_kept)

lemma SetSession_kept: "PbrSetSession p n s = Some (rc, s') \<Longrightarrow> I s \<longrightarrow> I s'"
  by (auto simp: PbrSetSession_def bind_eq_Some_conv split: if_splits
      dest!: FreeSession_kept CreateSession_kept DecomposeSession_kept Serialize_kept)

lemma GetSession_kept: "PbrGetSession given s = Some (rc, p, n, s') \<Longrightarrow> I s \<longrightarrow> I s'"
proof -
  have table: "Compose_table is m s = Some (m', s') \<Longrightarrow> I s \<longrightarrow> I s'" for "is" m m' s s'
    by (induction "is" arbitrary: m s) (auto simp: bind_eq_Some_conv Let_def split: if_splits dest!: store_kept)
  have copy: "Compose_copy is m q s = Some s' \<Longrightarrow> I s \<longrightarrow> I s'" for "is" m q s s'
    by (induction "is" arbitrary: q s) (auto simp: bind_eq_Some_conv Let_def split: if_splits dest!: copy_kept)
  show "PbrGetSession given s = Some (rc, p, n, s') \<Longrightarrow> I s \<longrightarrow> I s'"
    by (auto simp: PbrGetSession_def PbrComposeSession_def bind_eq_Some_conv Let_def case_prod_beta alloc_kept split: if_splits
        dest!: table copy store_kept copy_kept)
qed

lemma SetTag_kept: "PbrSetTag sig name descr s = Some (rc, TagId, s') \<Longrightarrow> I s \<longrightarrow> I s'"
proof -
  have infos: "SetTag_infos is p s = Some s' \<Longrightarrow> I s \<longrightarrow> I s'" for "is" p s s'
    by (induction "is" arbitrary: p s) (auto simp: bind_eq_Some_conv Let_def split: if_splits dest!: store_kept)
  have str: "UnicodeStrToAsciiStrS xs p n s = Some s' \<Longrightarrow> I s \<longrightarrow> I s'" for xs p n s s'
    by (auto simp: UnicodeStrToAsciiStrS_def split: if_splits dest!: store_kept)
  show "PbrSetTag sig name descr s = Some (rc, TagId, s') \<Longrightarrow> I s \<longrightarrow> I s'"
    by (auto simp: PbrSetTag_def SetTag_fill_def bind_eq_Some_conv Let_def split: if_splits option.splits
        dest!: PbrSetData_kept store_kept infos str)
qed

lemma GetTag_kept: "PbrGetTag TagId given want s = Some (rc, sig, p, q, r, n, s') \<Longrightarrow> I s \<longrightarrow> I s'"
proof -
  have str: "SafeAsciiStrToUnicodeStr p n q s = Some (rc, s') \<Longrightarrow> I s \<longrightarrow> I s'" for p n q s rc s'
    by (auto simp: SafeAsciiStrToUnicodeStr_def AsciiStrToUnicodeStrS_def bind_eq_Some_conv Let_def case_prod_beta alloc_kept
        split: if_splits dest!: pool_kept store_kept)
  have get: "GetTag_string p s = Some (q, r, s') \<Longrightarrow> I s \<longrightarrow> I s'" for p q r s s'
    by (auto simp: GetTag_string_def bind_eq_Some_conv Let_def case_prod_beta alloc_kept dest!: str)
  show "PbrGetTag TagId given want s = Some (rc, sig, p, q, r, n, s') \<Longrightarrow> I s \<longrightarrow> I s'"
    by (auto simp: PbrGetTag_def bind_eq_Some_conv Let_def case_prod_beta alloc_kept split: if_splits
        dest!: PbrGetData_kept get pool_kept copy_kept)
qed

lemma ResetSession_kept: "PbrResetSession TagId s = Some (rc, s') \<Longrightarrow> I s \<longrightarrow> I s'"
proof -
  have loop: "Reset_loop p is s = Some s' \<Longrightarrow> I s \<longrightarrow> I s'" for p "is" s s'
    by (induction "is" arbitrary: s) (auto simp: bind_eq_Some_conv slot_kept split: if_splits)
  show "PbrResetSession TagId s = Some (rc, s') \<Longrightarrow> I s \<longrightarrow> I s'"
    by (auto simp: PbrResetSession_def bind_eq_Some_conv split: if_splits dest!: PbrGetData_kept loop pool_kept)
qed

lemma Record_kept:
  "PbrSetPassThruRecord cmd prc s = Some (rc, s') \<Longrightarrow> I s \<longrightarrow> I s'"
  "PbrGetPassThruRecord req prc s = Some (rc, req', prc', s') \<Longrightarrow> I s \<longrightarrow> I s'"
  "PbrSetTableRecord ty p n s = Some (rc, s') \<Longrightarrow> I s \<longrightarrow> I s'"
  "PbrGetTableRecord ty s = Some (rc, p, n, s') \<Longrightarrow> I s \<longrightarrow> I s'"
proof -
  have pay: "store_payload p xs n s = Some s' \<Longrightarrow> I s \<longrightarrow> I s'" for p xs n s s'
    by (auto simp: store_payload_def bind_eq_Some_conv split: if_splits dest!: store_kept)
  have fill: "SetPassThru_fill cmd prc p s = Some s' \<Longrightarrow> I s \<longrightarrow> I s'" for cmd prc p s s'
    by (auto simp: SetPassThru_fill_def bind_eq_Some_conv Let_def dest!: store_kept pay)
  show "PbrSetPassThruRecord cmd prc s = Some (rc, s') \<Longrightarrow> I s \<longrightarrow> I s'"
    by (auto simp: PbrSetPassThruRecord_def bind_eq_Some_conv split: if_splits option.splits dest!: PbrSetData_kept fill)
  show "PbrGetPassThruRecord req prc s = Some (rc, req', prc', s') \<Longrightarrow> I s \<longrightarrow> I s'"
    by (auto simp: PbrGetPassThruRecord_def bind_eq_Some_conv split: if_splits dest!: PbrGetData_kept pool_kept)
  show "PbrSetTableRecord ty p n s = Some (rc, s') \<Longrightarrow> I s \<longrightarrow> I s'"
    by (auto simp: PbrSetTableRecord_def bind_eq_Some_conv split: if_splits option.splits dest!: PbrSetData_kept)
  show "PbrGetTableRecord ty s = Some (rc, p, n, s') \<Longrightarrow> I s \<longrightarrow> I s'"
    by (auto simp: PbrGetTableRecord_def bind_eq_Some_conv split: if_splits option.splits dest!: PbrGetData_kept)
qed

lemma step_kept: "pbr_step s s' \<Longrightarrow> I s \<Longrightarrow> I s'"
proof (induction rule: pbr_step.induct)
  case (caller_alloc m s p s')
  then show ?case using alloc_kept [of s m] by simp
qed (auto simp: PbrInit_def PbrUninit_def dest: PbrSetData_kept PbrGetData_kept SetMode_kept SetSession_kept GetSession_kept
  FreeSession_kept ResetSession_kept SetTag_kept GetTag_kept Serialize_kept Record_kept store_kept free_kept)

lemma reachable_kept: "pbr_step\<^sup>*\<^sup>* s s' \<Longrightarrow> I s \<Longrightarrow> I s'"
  by (induction rule: rtranclp_induct) (auto dest: step_kept)

end

section \<open>Typed pointers\<close>

text \<open>
  The pointers of a context are \<open>NULL\<close> or point to the start of a block that was handed out, and no two
  of them are the same block.
\<close>

definition ctx_ptrs :: "PbrContext \<Rightarrow> ptr list" where
  "ctx_ptrs c = PbrMainHeader c # map PartitionData (PartitionContexts c)"

definition ptrs_typed :: "nat \<Rightarrow> ptr list \<Rightarrow> bool" where
  "ptrs_typed n ps \<longleftrightarrow> (\<forall>p \<in> set ps. p = NULL \<or> snd p = 0 \<and> 0 < fst p \<and> fst p < n) \<and> distinct (filter (\<lambda>p. p \<noteq> NULL) ps)"

definition ctx_typed :: "nat \<Rightarrow> PbrContext \<Rightarrow> bool" where
  "ctx_typed n c \<longleftrightarrow> length (PartitionContexts c) = MAX_PARTITIONS \<and> ptrs_typed n (ctx_ptrs c)"

definition pbr_typed :: "pbr_sys \<Rightarrow> bool" where
  "pbr_typed s \<longleftrightarrow> pool_ok s \<and> ctx_typed (next_block s) (gPbrContext s) \<and>
     (case pbr_variable s of None \<Rightarrow> True | Some c \<Rightarrow> ctx_typed (next_block s) c)"

lemma distinct_filter_update:
  "distinct (filter P xs) \<Longrightarrow> x \<notin> set xs \<or> \<not> P x \<Longrightarrow> distinct (filter P (xs[i := x]))"
proof (induction xs arbitrary: i)
  case (Cons y xs)
  show ?case
  proof (cases i)
    case 0
    then show ?thesis using Cons.prems by (auto split: if_splits)
  next
    case (Suc j)
    then show ?thesis using Cons.IH [of j] Cons.prems subsetD [OF set_update_subset_insert [of xs j x], of y] by (auto split: if_splits)
  qed
qed simp

lemma ptrs_typed_mono: "ptrs_typed n ps \<Longrightarrow> n \<le> m \<Longrightarrow> ptrs_typed m ps"
  by (fastforce simp: ptrs_typed_def)

lemma ptrs_typed_update:
  assumes "ptrs_typed n ps" "p = NULL \<or> snd p = 0 \<and> n \<le> fst p \<and> 0 < fst p \<and> fst p < m" "n \<le> m"
  shows "ptrs_typed m (ps[i := p])"
proof -
  have "p \<notin> set ps \<or> \<not> p \<noteq> NULL" using assms(1,2) by (auto simp: ptrs_typed_def)
  then have "distinct (filter (\<lambda>p. p \<noteq> NULL) (ps[i := p]))" using assms(1) by (intro distinct_filter_update) (auto simp: ptrs_typed_def)
  moreover have "q = NULL \<or> snd q = 0 \<and> 0 < fst q \<and> fst q < m" if "q \<in> set (ps[i := p])" for q
  proof -
    have "q = p \<or> q \<in> set ps" using subsetD [OF set_update_subset_insert that] by simp
    then show ?thesis using bspec [of "set ps" _ q] ptrs_typed_mono [OF assms(1,3)] assms(2) by (auto simp: ptrs_typed_def)
  qed
  ultimately show ?thesis by (simp add: ptrs_typed_def)
qed

lemma alloc_pool_ok:
  assumes "pool_ok s" "AllocateZeroPool n s = (p, s1)"
  shows "pool_ok s1" "next_block s \<le> next_block s1" "p = NULL \<or> snd p = 0 \<and> next_block s \<le> fst p \<and> 0 < fst p \<and> fst p < next_block s1"
    "gPbrContext s1 = gPbrContext s" "pbr_variable s1 = pbr_variable s"
  using assms by (auto simp: AllocateZeroPool_def pool_ok_def split: list.splits bool.splits)

lemmas alloc_pair_ok = alloc_pool_ok [OF _ surjective_pairing]

lemma pbr_typed_cong:
  assumes "pbr_typed s" "pool_ok s'" "next_block s \<le> next_block s'" "gPbrContext s' = gPbrContext s" "pbr_variable s' = pbr_variable s"
  shows "pbr_typed s'"
  using assms ptrs_typed_mono by (auto simp: pbr_typed_def ctx_typed_def split: option.splits)

lemma store_pool_ok: "store p xs s = Some s' \<Longrightarrow> pool_ok s \<Longrightarrow> pool_ok s' \<and> next_block s' = next_block s \<and>
    gPbrContext s' = gPbrContext s \<and> pbr_variable s' = pbr_variable s"
  by (cases "fst p") (auto simp: store_def pool_ok_def split: option.splits if_splits)

lemma free_pool_ok: "FreePool p s = Some s' \<Longrightarrow> pool_ok s \<Longrightarrow> pool_ok s' \<and> next_block s' = next_block s \<and>
    gPbrContext s' = gPbrContext s \<and> pbr_variable s' = pbr_variable s"
  by (auto simp: FreePool_def pool_ok_def split: if_splits)

lemma realloc_pool_ok:
  assumes "pool_ok s" "ReallocatePool a b p s = Some (q, s1)"
  shows "pool_ok s1" "next_block s \<le> next_block s1" "q = NULL \<or> snd q = 0 \<and> next_block s \<le> fst q \<and> 0 < fst q \<and> fst q < next_block s1"
    "gPbrContext s1 = gPbrContext s" "pbr_variable s1 = pbr_variable s"
proof -
  obtain s2 where s2: "AllocateZeroPool b s = (q, s2)" "s1 = s2 \<or> (\<exists>s3. CopyMem q p (min a b) s2 = Some s3 \<and> FreePool p s3 = Some s1)"
    using assms(2) by (auto simp: ReallocatePool_def bind_eq_Some_conv split: prod.splits if_splits)
  note a = alloc_pool_ok [OF assms(1) s2(1)]
  have "pool_ok s1 \<and> next_block s1 = next_block s2 \<and> gPbrContext s1 = gPbrContext s2 \<and> pbr_variable s1 = pbr_variable s2"
    using s2(2) a(1) store_pool_ok free_pool_ok by (fastforce simp: CopyMem_def bind_eq_Some_conv)
  then show "pool_ok s1" "next_block s \<le> next_block s1" "q = NULL \<or> snd q = 0 \<and> next_block s \<le> fst q \<and> 0 < fst q \<and> fst q < next_block s1"
    "gPbrContext s1 = gPbrContext s" "pbr_variable s1 = pbr_variable s"
    using a by simp_all
qed

text \<open>A context typed before keeps its type when one of its pointers is replaced by a new one.\<close>

lemma ctx_typed_slot:
  assumes c: "ctx_typed n c" "n \<le> m" and p: "p = NULL \<or> snd p = 0 \<and> n \<le> fst p \<and> 0 < fst p \<and> fst p < m"
    and f: "PartitionData c' = p"
  shows "ctx_typed m (c\<lparr>PartitionContexts := (PartitionContexts c)[i := c']\<rparr>)"
proof -
  have "ctx_ptrs (c\<lparr>PartitionContexts := (PartitionContexts c)[i := c']\<rparr>) = (ctx_ptrs c)[Suc i := p]"
    using f by (simp add: ctx_ptrs_def map_update)
  then show ?thesis using ptrs_typed_update [OF _ p c(2), of "ctx_ptrs c"] c(1) by (simp add: ctx_typed_def)
qed

lemma ctx_typed_same:
  assumes c: "ctx_typed n c" "n \<le> m" and f: "PartitionData c' = PartitionData (PartitionContexts c ! i)"
  shows "ctx_typed m (c\<lparr>PartitionContexts := (PartitionContexts c)[i := c']\<rparr>)"
proof -
  have "ctx_ptrs (c\<lparr>PartitionContexts := (PartitionContexts c)[i := c']\<rparr>) = ctx_ptrs c"
    using f list_update_id [of "map PartitionData (PartitionContexts c)" i]
    by (cases "i < length (PartitionContexts c)") (simp_all add: ctx_ptrs_def map_update list_update_beyond)
  then show ?thesis using c ptrs_typed_mono [of n _ m] by (simp add: ctx_typed_def)
qed

lemma ctx_typed_header:
  assumes c: "ctx_typed n c" "n \<le> m" and p: "p = NULL \<or> snd p = 0 \<and> n \<le> fst p \<and> 0 < fst p \<and> fst p < m"
  shows "ctx_typed m (c\<lparr>PbrMainHeader := p\<rparr>)"
proof -
  have "ctx_ptrs (c\<lparr>PbrMainHeader := p\<rparr>) = (ctx_ptrs c)[0 := p]" by (simp add: ctx_ptrs_def)
  then show ?thesis using ptrs_typed_update [OF _ p c(2), of "ctx_ptrs c" 0] c(1) by (simp add: ctx_typed_def)
qed

lemma ctx_typed_zero: "ctx_typed n zero_context"
  by (simp add: ctx_typed_def ptrs_typed_def ctx_ptrs_def zero_context_def zero_partition_def)

lemma pbr_typed_intro:
  assumes "pbr_typed s" "pool_ok s'" "next_block s \<le> next_block s'" "pbr_variable s' = pbr_variable s" "ctx_typed (next_block s') (gPbrContext s')"
  shows "pbr_typed s'"
  using assms ptrs_typed_mono by (auto simp: pbr_typed_def ctx_typed_def split: option.splits)

lemma pbr_typed_slot:
  assumes "pbr_typed s" "pool_ok s1" "next_block s \<le> next_block s1" "gPbrContext s1 = gPbrContext s" "pbr_variable s1 = pbr_variable s"
    "p = NULL \<or> snd p = 0 \<and> next_block s \<le> fst p \<and> 0 < fst p \<and> fst p < next_block s1" "\<And>c. PartitionData (f c) = p"
  shows "pbr_typed (set_part i f s1)"
proof (rule pbr_typed_intro [OF assms(1)])
  show "ctx_typed (next_block (set_part i f s1)) (gPbrContext (set_part i f s1))"
    using ctx_typed_slot [OF _ assms(3,6), of "gPbrContext s" "f (parts s1 ! i)" i] assms(1,4,7)
    by (simp add: set_part_def set_parts_def parts_def pbr_typed_def)
qed (use assms in \<open>simp_all add: set_part_def set_parts_def pool_ok_def\<close>)

interpretation typed: pbr_invariant pbr_typed
proof
  show "pbr_typed s \<longrightarrow> pbr_typed s'" if "store p xs s = Some s'" for p xs s s'
    using store_pool_ok [OF that] pbr_typed_cong [of s s'] by (auto simp: pbr_typed_def)
  show "pbr_typed s \<longrightarrow> pbr_typed s'" if "FreePool p s = Some s'" for p s s'
    using free_pool_ok [OF that] pbr_typed_cong [of s s'] by (auto simp: pbr_typed_def)
  show "pbr_typed (snd (AllocateZeroPool n s))" if "pbr_typed s" for s n
    using that alloc_pair_ok [of s n] by (intro pbr_typed_cong [OF that]) (auto simp: pbr_typed_def)
  show "pbr_typed (set_part i f s)" if "pbr_typed s" "\<And>c. PartitionData (f c) = PartitionData c" for s f i
    using that ctx_typed_same [of "next_block s" "gPbrContext s" "next_block s" "f (parts s ! i)" i]
    by (intro pbr_typed_intro [OF that(1)]) (simp_all add: set_part_def set_parts_def parts_def pbr_typed_def pool_ok_def)
  show "pbr_typed (set_part i f (snd (AllocateZeroPool n s)))" if "pbr_typed s" "\<And>c. PartitionData (f c) = fst (AllocateZeroPool n s)" for s f n i
    using that alloc_pair_ok [of s n] by (intro pbr_typed_slot [OF that(1)]) (auto simp: pbr_typed_def)
  show "pbr_typed s \<longrightarrow> (\<forall>i. pbr_typed (set_part i (\<lambda>c. c\<lparr>PartitionData := q\<rparr>) s'))" if "ReallocatePool a b p s = Some (q, s')" for a b p s q s'
    using realloc_pool_ok [OF _ that] by (intro impI allI pbr_typed_slot) (auto simp: pbr_typed_def)
  show "pbr_typed (set_header (fst (AllocateZeroPool n s)) (snd (AllocateZeroPool n s)))" if "pbr_typed s" for s n
    using alloc_pair_ok [of s n] that ctx_typed_header [of "next_block s" "gPbrContext s"]
    by (intro pbr_typed_intro [OF that]) (auto simp: set_header_def pbr_typed_def pool_ok_def)
  show "pbr_typed (set_header NULL s)" if "pbr_typed s" for s
    using that ctx_typed_header [of "next_block s" "gPbrContext s"]
    by (intro pbr_typed_intro [OF that]) (auto simp: set_header_def pbr_typed_def pool_ok_def)
  show "pbr_typed (set_parts (replicate MAX_PARTITIONS zero_partition) s)" if "pbr_typed s" for s
    using that by (intro pbr_typed_intro [OF that])
      (auto simp: set_parts_def pbr_typed_def pool_ok_def ctx_typed_def ctx_ptrs_def ptrs_typed_def zero_partition_def)
  show "pbr_typed (s\<lparr>gPbrContext := (gPbrContext s)\<lparr>PbrMode := m\<rparr>\<rparr>)" if "pbr_typed s" for s m
    using that by (intro pbr_typed_intro [OF that]) (auto simp: pbr_typed_def pool_ok_def ctx_typed_def ctx_ptrs_def)
  show "pbr_typed (s\<lparr>gPbrContext := zero_context\<rparr>)" if "pbr_typed s" for s
    using that ctx_typed_zero by (intro pbr_typed_intro [OF that]) (auto simp: pbr_typed_def pool_ok_def)
  show "pbr_typed (s\<lparr>pbr_variable := Some (gPbrContext s)\<rparr>)" if "pbr_typed s" for s
    using that by (auto simp: pbr_typed_def pool_ok_def)
  show "pbr_typed (s\<lparr>gPbrContext := c\<rparr>)" if "pbr_typed s" "pbr_variable s = Some c" for s c
    using that by (auto simp: pbr_typed_def pool_ok_def)
qed

lemma typed_ctx_unique:
  assumes typed: "ctx_typed n c" and ij: "i < MAX_PARTITIONS" "j < MAX_PARTITIONS" "i \<noteq> j"
    and p: "PartitionData (PartitionContexts c ! i) \<noteq> NULL"
  shows "PartitionData (PartitionContexts c ! i) \<noteq> PartitionData (PartitionContexts c ! j)"
proof
  assume eq: "PartitionData (PartitionContexts c ! i) = PartitionData (PartitionContexts c ! j)"
  define ps where "ps = map PartitionData (PartitionContexts c)"
  have len: "length ps = MAX_PARTITIONS" and dist: "distinct (filter (\<lambda>p. p \<noteq> NULL) ps)"
    using typed by (auto simp: ctx_typed_def ptrs_typed_def ctx_ptrs_def ps_def split: if_splits)
  have two: "\<not> distinct (filter P xs)" if "a < b" "b < length xs" "xs ! a = xs ! b" "P (xs ! a)" for P and xs :: "ptr list" and a b
  proof -
    have "xs = take b xs @ xs ! b # drop (Suc b) xs" using that(2) by (rule id_take_nth_drop)
    moreover have "xs ! b \<in> set (filter P (take b xs))"
      using that by (auto simp: in_set_conv_nth intro!: exI [of _ a])
    ultimately show ?thesis using that(3,4) by (metis disjoint_iff distinct_append filter.simps(2) filter_append list.set_intros(1))
  qed
  have "ps ! i = ps ! j" "ps ! i \<noteq> NULL" using eq p ij len by (simp_all add: ps_def)
  then show False using two [of i j ps "\<lambda>p. p \<noteq> NULL"] two [of j i ps "\<lambda>p. p \<noteq> NULL"] dist ij len
    by (cases i j rule: linorder_cases) simp_all
qed



end
