(* ===== verification/Pbr_Bounds.thy ===== *)
theory Pbr_Bounds
  imports Pbr_Safety
begin

text \<open>
  Two places where the module leaves a block it allocated. A partition is allocated for ten items of the
  size of its first; when ten such items fill it there is no room for the signature that would end it,
  and asking for the item behind the last one reads past the block. A singleton is overwritten in place
  when the new item is no larger than the partition, which counts the item's header as room for data.
\<close>

section \<open>A partition filled to its end\<close>

lemma recorded_equal_items:
  assumes "\<forall>d \<in> set ds. length d = n" "ds \<noteq> []" "length ds \<le> 10"
  shows "\<exists>v. recorded (map (Pair g) ds) [] = [v] \<and> vsig v = g \<and> vitems v = ds \<and>
     length (vslack v) = (10 - length ds) * (n + sizeof_item)"
  using assms
proof (induction ds rule: rev_induct)
  case (snoc d ds)
  show ?case
  proof (cases "ds = []")
    case True
    then show ?thesis using snoc.prems by (simp add: recorded_def view_new_def)
  next
    case False
    then obtain v where v: "recorded (map (Pair g) ds) [] = [v]" "vsig v = g" "vitems v = ds" "length (vslack v) = (10 - length ds) * (n + sizeof_item)"
      using snoc by auto
    have k: "10 - length ds = Suc (10 - length (ds @ [d]))" using snoc.prems(3) by simp
    have "length (vslack (view_append d v)) = (10 - length (ds @ [d])) * (n + sizeof_item)"
      using v(4) snoc.prems(1) unfolding k by (simp add: view_append_def view_grow_def Let_def)
    then show ?thesis using v by (simp add: recorded_def)
  qed
qed simp

text \<open>
  C30: Playback reads past a full partition. Record ten items of one size under one signature, load the
  image of the session and play the ten items: they come back as recorded, and asking for the next item
  then reads behind the end of the partition's block, instead of finding that there is none.
\<close>

theorem full_partition_read_past_end:
  assumes start: "no_session s" and rs: "requested s 0 rs (map (Pair g) ds)"
    and ds: "length ds = 10" "\<forall>d \<in> set ds. length d = n"
    and fits: "sizeof_header + PARTITION_GROW_SZ_MULTIPLIER * cost (map (Pair g) ds) < 2 ^ 32"
    and env: "False \<notin> set (alloc_ok s)" "set_variable_rc s = EFI_SUCCESS"
  shows "\<exists>s1 s2 s3 s4 s5 s6 s7 p m.
     PbrSetSession NULL 0 s = Some (EFI_SUCCESS, s1) \<and> PbrSetMode PBR_RECORD_MODE s1 = Some (EFI_SUCCESS, s2) \<and>
     record_all rs s2 = Some s3 \<and> PbrGetSession True s3 = Some (EFI_SUCCESS, p, m, s4) \<and>
     PbrSetSession p m s4 = Some (EFI_SUCCESS, s5) \<and> PbrSetMode PBR_PLAYBACK_MODE s5 = Some (EFI_SUCCESS, s6) \<and>
     play g 10 s6 = Some (ds, s7) \<and> PbrGetData g GET_NEXT_DATA_INDEX want s7 = None"
proof -
  have "card (set (map fst (map (Pair g) ds))) \<le> MAX_PARTITIONS"
    by (rule le_trans [OF card_mono [of "{g}"]]) (auto simp: MAX_PARTITIONS_def)
  then obtain s1 s2 s3 s4 s5 s6 p m where s6: "PbrSetSession NULL 0 s = Some (EFI_SUCCESS, s1)" "PbrSetMode PBR_RECORD_MODE s1 = Some (EFI_SUCCESS, s2)"
      "record_all rs s2 = Some s3" "PbrGetSession True s3 = Some (EFI_SUCCESS, p, m, s4)" "PbrSetSession p m s4 = Some (EFI_SUCCESS, s5)"
      "PbrSetMode PBR_PLAYBACK_MODE s5 = Some (EFI_SUCCESS, s6)" "session_rep s6 (map rewind (recorded (map (Pair g) ds) []))" "False \<notin> set (alloc_ok s6)"
    using session_loaded [OF start rs _ fits env] by blast
  obtain v where v: "recorded (map (Pair g) ds) [] = [v]" "vsig v = g" "vitems v = ds" "length (vslack v) = 0"
    using recorded_equal_items [OF ds(2)] ds(1) by fastforce
  have rep: "session_rep s6 [rewind v]" using s6(7) v(1) by simp
  obtain s7 where s7: "play g 10 s6 = Some (ds, s7)" "session_rep s7 [view_advance 10 v]"
    using play_rest [OF rep, of 0 0 10] s6(8) v ds(1) by (auto simp: item_at_simps)
  have "vpos (view_advance 10 v) = vend (view_advance 10 v)"
    using item_at_simps(2) [of v] v(3) ds(1) by (simp add: vend_def)
  then have "PbrGetData g GET_NEXT_DATA_INDEX want s7 = None"
    using PbrGetData_end [OF s7(2), of 0 want] v(2,4) by simp
  with s6(1-6) s7(1) show ?thesis by blast
qed

lemma requested_replicate:
  "requested s n [(g, p, z)] [(g, d)] \<Longrightarrow> requested s n (replicate k (g, p, z)) (map (Pair g) (replicate k d))"
  by (induction k) auto

theorem full_partition_read_past_end_witness:
  "\<exists>s1 s2 s3 s4 s5 s6 s7 p m.
     PbrSetSession NULL 0 demo_pbr = Some (EFI_SUCCESS, s1) \<and> PbrSetMode PBR_RECORD_MODE s1 = Some (EFI_SUCCESS, s2) \<and>
     record_all (replicate 10 (5, (1, 0), 3)) s2 = Some s3 \<and> PbrGetSession True s3 = Some (EFI_SUCCESS, p, m, s4) \<and>
     PbrSetSession p m s4 = Some (EFI_SUCCESS, s5) \<and> PbrSetMode PBR_PLAYBACK_MODE s5 = Some (EFI_SUCCESS, s6) \<and>
     play 5 10 s6 = Some (replicate 10 [1, 2, 3], s7) \<and> PbrGetData 5 GET_NEXT_DATA_INDEX False s7 = None"
proof (rule full_partition_read_past_end [OF demo_pbr_no_session])
  show "requested demo_pbr 0 (replicate 10 (5, (1, 0), 3)) (map (Pair 5) (replicate 10 [1, 2, 3]))"
    by (rule requested_replicate) (simp add: demo_pbr_def foreign_def owned_def zero_context_def load_def)
  show "sizeof_header + PARTITION_GROW_SZ_MULTIPLIER * cost (map (Pair 5) (replicate 10 [1, 2, 3])) < 2 ^ 32"
    by (simp add: cost_def sum_list_replicate)
  show "\<forall>d \<in> set (replicate 10 [1, 2, 3 :: u8]). length d = 3" by simp
qed (simp_all add: demo_pbr_def)

section \<open>A singleton overwritten in place\<close>

lemma PbrSetData_overflow:
  assumes rep: "session_rep s vs" and i: "i < length vs" "vslack (vs ! i) = []" "vitems (vs ! i) = [d]"
    and size: "length d < unat Size" "unat Size \<le> length d + sizeof_item"
    and p: "foreign s (length vs) (fst p)" "p \<noteq> NULL"
  shows "PbrSetData (vsig (vs ! i)) p Size True s = None"
proof -
  let ?c = "parts s ! i"
  define b where "b = fst (PartitionData ?c)"
  have pr: "part_rep s ?c (vs ! i)" by (rule session_rep_part [OF rep i(1)])
  have data: "PartitionData ?c = (b, 0)" "blocks s b = Some (enc_item 0 d)" "unat (PartitionSize ?c) = length d + sizeof_item"
    using pr i(2,3) by (simp_all add: part_rep_def b_def part_bytes_def prod_eq_iff)
  have room: "\<not> PartitionSize ?c < Size" using data(3) size(2) by (simp add: word_less_nat_alt)
  let ?B = "\<lambda>z. s\<lparr>blocks := (blocks s)(b \<mapsto> z)\<rparr>"
  define z1 where "z1 = le32 PBR_LOGICAL_DATA_SIG @ le32 Size @ le32 0 @ d"
  have s1: "store32 (b, 0) PBR_LOGICAL_DATA_SIG s = Some (?B (enc_item 0 d))"
    using store_field [of s b "[]" "le32 PBR_LOGICAL_DATA_SIG"] data(2) by (simp add: enc_item_def)
  have s2: "store32 (b, 4) Size (?B (enc_item 0 d)) = Some (?B z1)"
    using store_field [of "?B (enc_item 0 d)" b "le32 PBR_LOGICAL_DATA_SIG" "le32 (of_nat (length d))" "le32 0 @ d" "le32 Size" 4]
    by (simp add: enc_item_def z1_def)
  have bp: "b \<noteq> fst p" using p(1) owned_mem(2) [OF i(1), of s] rep by (auto simp: foreign_def session_rep_def b_def)
  have "0 < Size" using size(1) by (simp add: word_less_nat_alt)
  then have "copy_given (b, sizeof_item) m p Size (?B z1) = CopyMem (b, sizeof_item) p (unat Size) (?B z1)" for m
    using p(2) bp PbrCopyChunks_eq [of "(b, sizeof_item)" p Size m] by (simp add: copy_given_def)
  also have "CopyMem (b, sizeof_item) p (unat Size) (?B z1) = None"
    using size(1) load_length [of p "unat Size" "?B z1"]
    by (cases "load p (unat Size) (?B z1)") (auto simp: CopyMem_def store_def z1_def)
  finally have s3: "copy_given (b, sizeof_item) m p Size (?B z1) = None" for m .
  show ?thesis
    using session_rep_find(1) [OF rep i(1)] room data(1) s1 s2 s3 by (simp add: PbrSetData_def SetData_singleton_def)
qed

text \<open>
  C31: Recording a table again can write past its block. Record a table in a new session; recording a
  table of the same type that is larger, by at most the twelve bytes of an item's header, overwrites the
  first one in place and copies past the end of the block it was allocated.
\<close>

theorem table_overwrite_overflows:
  assumes start: "no_session s" and sig: "table_sig ty = Some g"
    and p: "load p (unat n) s = Some d" "blocks s (fst q) \<noteq> None" "p \<noteq> NULL" "q \<noteq> NULL"
    and size: "n < n'" "unat n' \<le> unat n + sizeof_item" "(unat n + sizeof_item) * PARTITION_GROW_SZ_MULTIPLIER < 2 ^ 32"
    and env: "False \<notin> set (alloc_ok s)" "set_variable_rc s = EFI_SUCCESS"
  shows "\<exists>s1 s2 s3. PbrSetSession NULL 0 s = Some (EFI_SUCCESS, s1) \<and> PbrSetMode PBR_RECORD_MODE s1 = Some (EFI_SUCCESS, s2) \<and>
     PbrSetTableRecord ty p n s2 = Some (EFI_SUCCESS, s3) \<and> PbrSetTableRecord ty q n' s3 = None"
proof -
  obtain s1 s2 where s2: "PbrSetSession NULL 0 s = Some (EFI_SUCCESS, s1)" "PbrSetMode PBR_RECORD_MODE s1 = Some (EFI_SUCCESS, s2)"
      "session_rep s2 []" "PbrMode (gPbrContext s2) = PBR_RECORD_MODE" "False \<notin> set (alloc_ok s2)"
      "\<forall>b. blocks s b \<noteq> None \<longrightarrow> foreign s2 0 b \<and> blocks s2 b = blocks s b"
    using start_recording [OF start env] by blast
  have g: "g \<noteq> PBR_INVALID_SIG" using sig by (auto simp: table_sig_def split: if_splits)
  have pb: "blocks s (fst p) \<noteq> None" "load p (unat n) s2 = Some d" using p(1) s2(6) by (auto simp: load_Some_iff)
  then have src: "source s2 (length []) p n (replicate (unat n) 0) d" using s2(6) p(3) by (auto simp: source_def foreign_def)
  obtain r s3 where s3: "PbrSetData g p n True s2 = Some (EFI_SUCCESS, r, 0, s3)" "session_rep s3 [view_new g True d]" "kept 0 s2 1 s3"
    using PbrSetData_new [OF s2(3) _ g _ size(3) s2(5) src, of True] by (auto simp: MAX_PARTITIONS_def)
  have "length d = unat n" using load_length [OF p(1)] by simp
  then have "PbrSetData g q n' True s3 = None"
    using PbrSetData_overflow [OF s3(2), of 0 d n' q] size(1,2) p(2,4) s2(6) s3(3)
    by (auto simp: view_new_def kept_def word_less_nat_alt)
  moreover have "PbrMode (gPbrContext s3) = PBR_RECORD_MODE" using s3(3) s2(4) by (simp add: kept_def)
  ultimately show ?thesis using s2(1,2,4) s3(1) sig by (auto simp: PbrSetTableRecord_def)
qed

theorem table_overwrite_overflows_witness:
  "\<exists>s1 s2 s3. PbrSetSession NULL 0 demo_pbr = Some (EFI_SUCCESS, s1) \<and> PbrSetMode PBR_RECORD_MODE s1 = Some (EFI_SUCCESS, s2) \<and>
     PbrSetTableRecord 1 (2, 0) 1 s2 = Some (EFI_SUCCESS, s3) \<and> PbrSetTableRecord 1 (1, 0) 3 s3 = None"
proof (rule table_overwrite_overflows [OF demo_pbr_no_session])
  show "load (2, 0) (unat (1 :: u32)) demo_pbr = Some [7]" by (simp add: demo_pbr_def load_def)
  show "table_sig 1 = Some PBR_SMBIOS_SIG" by (simp add: table_sig_def)
qed (simp_all add: demo_pbr_def)

end
