(* ===== verification/Spec2Isabelle.thy ===== *)
theory Spec2Isabelle
  imports Namespace_Safety Btt_Flush Btt_Crash Block_Io_Correct Block_Boot Label_Props
    Nfit_Correct Provisioning_Props Interleave Namespace_Cycle Pbr_Bounds
begin

text \<open>
  Verification of the persistent memory namespaces of ipmctl: the part of the UEFI driver under
  \<open>src/DcpmPkg\<close> that turns a range of persistent memory into a block device, the label storage
  area in which the namespaces of a DIMM are recorded, the provisioning that decides which DIMMs
  form an interleave set and where a namespace may lie, and the recorder that stores the driver's
  traffic with the firmware and plays it back.

  \<^bold>\<open>The program.\<close> A namespace is a range of system physical addresses. The block I/O protocol
  (\<open>driver/Protocol/Namespace/NvmDimmBlockIo.c\<close>) serves it in blocks. Depending on the metadata that
  the driver finds at its start, a request goes to the block translation table (\<open>driver/Core/Btt.c\<close>),
  which makes block writes atomic under power failure, to the page frame number device
  (\<open>driver/Core/Pfn.c\<close>), which leaves room for its metadata, or to the namespace itself. All of them
  read and write through \<open>IoNamespaceBytes\<close> and \<open>AppDirectIo\<close> (\<open>driver/Core/Namespace.c\<close>), which refuse
  bad address ranges and flush cache lines. Which namespaces exist is written in labels: every DIMM
  has a partition with two index blocks and an array of label slots; an update goes to the older index
  block and becomes valid with its sequence number. A namespace has one label on every DIMM of its
  interleave set, written when it is created and collected again when the driver starts. Where a new
  namespace may lie follows from the memory maps of the DIMMs (\<open>driver/Core/Dimm.c\<close>) and from the
  interleave tables of the NFIT (\<open>driver/Utils/AcpiParsing.c\<close>); which DIMMs a new interleave set consists of is decided by their
  positions and the maps of allowed sets (\<open>driver/Utils/Interleave.c\<close>, \<open>driver/Core/Region.c\<close>). Beside all
  this the driver can record a session (\<open>common/Pbr.c\<close>, \<open>common/PbrDcpmm.c\<close>): every firmware command with
  its answer and every ACPI table becomes an item of a partition, tags mark the begin of a command of
  the user, the partitions are composed into one image, and a driver that has loaded the image answers
  its commands from it, from the start or from a tag on.

  \<^bold>\<open>The theories.\<close>
  \<^item> \<open>Prelude\<close>: fixed width integers, \<open>EFI_STATUS\<close>, little-endian codecs, byte memory with its
    read-over-write laws. \<open>Seq_Pair\<close>: the two-copy protocol as a locale; the flog pairs of the BTT
    (\<open>Btt_Correct\<close>) and the index blocks of the labels (\<open>Label_Area\<close>) interpret it.
  \<^item> \<open>Checksum\<close>: \<open>ChecksumOperations\<close> of \<open>common/Utility.c\<close>. A sealed area verifies; a changed
    word does not.
  \<^item> \<open>Namespace_Io\<close>, \<open>Namespace_Safety\<close>: the byte and block I/O of \<open>Namespace.c\<close> and \<open>LoadArsList\<close> of
    \<open>NvmDimmConfig.c\<close>. The record \<open>sys\<close> separates what the processor sees (\<open>cpu\<close>) from what is on the
    medium (\<open>media\<close>). Accesses to bad ranges are refused; aligned writes are durable, short ones are
    not.
  \<^item> \<open>Btt_Layout\<close>, \<open>Btt\<close>: the structures of \<open>BttLayout.h\<close> and \<open>Btt.h\<close> and one definition per function
    of \<open>Btt.c\<close>. \<open>Btt_Correct\<close>: the invariant of an open device and its contents as a map of blocks;
    \<open>Btt_Write\<close>: reads and writes refine that map and conserve the free blocks; \<open>Btt_Recovery\<close>,
    \<open>Btt_Crash\<close>: a write that is cut off at any of its stores leaves a device that opens with the
    contents before or after the write; \<open>Btt_Flush\<close>: what the missing flushes do to this.
  \<^item> \<open>Pfn\<close>: \<open>Pfn.c\<close>. \<open>Block_Device\<close>: the contract of a block device as a locale, with the request
    loops, interpreted on the BTT, on PFN and on raw namespaces. \<open>Block_Io\<close>: the protocol functions, the
    detection of metadata and the media fields. \<open>Block_Io_Correct\<close>: requests refine the block map, stop
    at bad blocks, return, and stay inside the namespace, with the cases in which they do not.
    \<open>Block_Boot\<close>: contents survive a restart of the driver.
  \<^item> \<open>Label_Area\<close>: index blocks, labels, slot bitmap, validation and update of the index
    (\<open>common/LbaCommon.c\<close>, \<open>Namespace.c\<close>). \<open>Label_Store\<close>: access to the partition (\<open>driver/Core/Dimm.c\<close>)
    and the operations on labels. \<open>Label_Correct\<close>, \<open>Label_Read\<close>: the invariant of an area, writing and
    reading with both payload sizes. \<open>Label_Update\<close>, \<open>Label_Ops\<close>, \<open>Label_Init\<close>: every operation as an
    update of the map from used slots to labels. \<open>Label_Table\<close>: the contract of a label table as a
    locale, interpreted on the driver's operations. \<open>Label_Props\<close>: the properties.
  \<^item> \<open>Bubble_Sort\<close>: the two sorting routines of \<open>common/Utility.c\<close>, and a comparison function as a
    locale in which both are the stable sort of the library; \<open>Provisioning_Props\<close> and \<open>Interleave\<close>
    interpret it on the comparisons of the driver.
  \<^item> \<open>Nfit\<close>: the parser of the NFIT, the lookups in the parsed table and \<open>RdpaToSpa\<close>
    (\<open>AcpiParsing.c\<close>). \<open>Nfit_Correct\<close>: parsing inverts the layout of the table, and the translation of
    device to system addresses is injective.
  \<^item> \<open>Dimm_Memmap\<close>: the map of the ranges of a DIMM and its free ranges (\<open>Dimm.c\<close>). \<open>Dimm_Free\<close>: the free
    ranges are disjoint and cover exactly what the interleave sets leave beside the namespaces.
  \<^item> \<open>Provisioning\<close>: finding and aligning the capacity of a namespace and the cookie of an interleave
    set (\<open>Namespace.c\<close>). \<open>Provisioning_Props\<close>: an allocated range meets no other namespace, the aligned
    capacity is bounded, and the cookie does not depend on the order of the DIMMs.
  \<^item> \<open>Namespace_Labels\<close>: the label set of a namespace (\<open>CreateNamespaceLabels\<close>, the loops of
    \<open>CreateNamespace\<close> and \<open>DeleteNamespace\<close>) and the inventory at start (\<open>InitializeNamespaces\<close>,
    \<open>RetrieveNamespacesFromLsa\<close>, \<open>FindAndAssignISForNamespace\<close>). \<open>Label_Set\<close>: the set as an update of the label
    tables of the DIMMs. \<open>Namespace_Create\<close>: what the labels of a created namespace hold.
    \<open>Namespace_Assemble\<close>, \<open>Namespace_Restart\<close>: complete labels are assembled to their namespace, once.
    \<open>Namespace_Cycle\<close>: a namespace that was allocated and labelled is found again after a restart, a
    failed creation is rolled back, and deleting undoes creating.
  \<^item> \<open>Interleave\<close>: the choice of interleave sets for a goal (\<open>Interleave.c\<close>, \<open>CreateRegionGoal\<close> of \<open>Region.c\<close>,
    \<open>ProcessorAndTopologyInfo.c\<close>): it ends and partitions the DIMMs into sets of allowed shapes.
  \<^item> \<open>Pbr_Pool\<close>: the boot services pool as blocks of bytes behind pointers, and the chunked copy of the
    recorder. \<open>Pbr\<close>: one definition per function of \<open>Pbr.c\<close>, with the loops and branches of the long ones
    apart; \<open>Pbr_Tags\<close>: the tags and the string conversions they use; \<open>Pbr_Dcpmm\<close>: the records of commands
    and tables. \<open>Pbr_Session\<close>: the state of a session as a list of views, one per partition, and
    recording as an update of the views; \<open>Pbr_Playback\<close>: reading an item by index and the next one;
    \<open>Pbr_Image\<close>: composing an image, freeing a session and loading an image. \<open>Pbr_Replay\<close>, \<open>Pbr_Commands\<close>:
    what was recorded is what is played back, for items and for firmware commands. \<open>Pbr_Tag_Replay\<close>,
    \<open>Pbr_Tag_Read\<close>: a reset to a tag resumes behind it, and a tag can be read back. \<open>Pbr_Safety\<close>: the
    operations as steps, a locale in which any property that the elementary changes keep is kept by every
    operation, and its interpretation on the typing of the context's pointers. \<open>Pbr_Bounds\<close>: two accesses
    outside a block.

  \<^bold>\<open>Conventions.\<close> C integers keep their width. A function that may fail returns its \<open>EFI_STATUS\<close>
  with the new state, or a sum whose left side is the status. Allocations, random numbers, firmware
  commands and platform queries answer from lists in the state, so that every error path can be taken.
  A result \<open>None\<close> of an \<open>option\<close> stands for a call that does not return properly: a loop that does not
  end, an access through a NULL pointer or behind an array. The request loops of the block I/O protocol
  count in 32 bits up to a 64-bit bound and are defined with \<^theory_text>\<open>partial_function\<close>; that they
  return is a property. The arena counter of the BTT has 8 bits, hence the bound of 255 arenas in
  the invariant. The loops over arenas and slots are bounded by the counts they run over. The label
  operations are proved for partitions of at most 128 KiB, the size of the LSA partition and the limit
  \<open>PCD_PARTITION_SIZE\<close> of the write command, for which an index block has 256 bytes. In the provisioning
  theories a list of booleans, \<open>pool\<close>, says which of the next allocations succeed, all of them behind
  its end. A DIMM is its number in a list, so that the comparison of pointers is that of numbers. Lookups
  that count in 16 bits up to a 32-bit bound are \<^theory_text>\<open>partial_function\<close>s, as is the parser of the
  NFIT; that they return is proved for tables of fewer than \<open>2^16\<close> entries and for well-formed tables.
  In the theories of the recorder a pointer is a block and an offset, blocks are never reused, and an
  access through \<open>NULL\<close>, to a freed block or outside a block is the result \<open>None\<close>; a run that is proved to
  return \<open>Some\<close> therefore makes no such access. Sessions are proved for images below 4 GiB, whose size has
  32 bits, counting ten times the recorded bytes for the room a partition is allocated with.

  \<^bold>\<open>Not modelled.\<close> The discovery of interleave sets at start (\<open>RetrieveAppDirectMappingFromNfit\<close>),
  the handlers of the configuration protocol around the operations above with their checks of arguments
  and command status, the verification of goals and their encoding in the platform configuration data,
  PCAT, PMTT and SMBIOS tables but for the interleave map of the PCAT, the firmware mailbox and its other
  commands, security but for the test whether a DIMM may be configured, firmware update, diagnostics, the
  command line interface and its output with the commands that start, stop and store a recorded session,
  the layer that emulates UEFI on an operating system with its PCD cache and the files of the recorder
  (\<open>PbrOs.c\<close>), and the EDK II packages but for the few functions the recorder uses. In the inventory at start the detection of BTT and PFN metadata, which
  \<open>Block_Io\<close> models, is an argument of the definitions. Outside the
  recorder NULL checks of arguments and releasing memory have no counterpart in the model; nor has concurrency: the driver runs at one
  task priority level. A power failure is modelled at the stores of a block write of the BTT, and
  a failing firmware command at the label partition.
\<close>

end
